(* ===== verification/Os_Prelude.thy ===== *)
theory Os_Prelude
  imports Main "HOL-Library.Word"
begin

unbundle bit_operations_syntax

text \<open>
  Shared vocabulary of the development: the C integer types as words, the page and address
  constants of kernel/memory.h, and the lemmas on lists, bits and words that the component
  theories use.  A critical section guarded by a spin lock runs with interrupts disabled on
  the only CPU (kernel/sync.c), so the sequential operations below model it as one atomic
  step and carry no lock state; the interleavings that the kernel does allow are modelled
  as step relations in the theories on synchronisation.
\<close>

type_synonym u8 = "8 word"
type_synonym u16 = "16 word"
type_synonym u32 = "32 word"
type_synonym u64 = "64 word"

text \<open>Simplification rules that characterise an operation by its effect on one cell.\<close>

named_theorems cell_simps
  \<open>effect of an update on a single cell of a table, bitmap or store\<close>

named_theorems frame_simps
  \<open>fields that an operation leaves unchanged\<close>

section \<open>Constants of memory.h\<close>

definition PAGE_SIZE :: nat where
  "PAGE_SIZE = 4096"

definition PAGE_OFFSET :: u64 where
  "PAGE_OFFSET = 0xFFFF800000000000"

definition P2V :: "u64 \<Rightarrow> u64" where
  "P2V paddr = paddr + PAGE_OFFSET"

definition V2P :: "u64 \<Rightarrow> u64" where
  "V2P vaddr = vaddr - PAGE_OFFSET"

lemma V2P_P2V [simp]: "V2P (P2V p) = p"
  by (simp add: V2P_def P2V_def)

lemma P2V_V2P [simp]: "P2V (V2P v) = v"
  by (simp add: V2P_def P2V_def)

lemma P2V_inject [simp]: "P2V p = P2V q \<longleftrightarrow> p = q"
  by (simp add: P2V_def)

section \<open>Bits of bytes\<close>

lemma and_1_bit0: "(x :: 'a::len word) AND 1 = (if bit x 0 then 1 else 0)"
  by (simp add: and_one_eq mod_2_eq_odd bit_0)

lemma drop_bit_and_1:
  "drop_bit n (x :: 'a::len word) AND 1 = (if bit x n then 1 else 0)"
  by (simp add: and_1_bit0 bit_drop_bit_eq)

lemma bit_or_mask8:
  "i < 8 \<Longrightarrow> j < 8 \<Longrightarrow> bit ((x :: u8) OR 2 ^ i) j = (bit x j \<or> j = i)"
  by (auto simp: bit_simps)

lemma bit_and_not_mask8:
  "i < 8 \<Longrightarrow> j < 8 \<Longrightarrow> bit ((x :: u8) AND NOT (2 ^ i)) j = (bit x j \<and> j \<noteq> i)"
  by (auto simp: bit_simps)

section \<open>Lists\<close>

lemma list_ex_nth_iff: "list_ex P xs \<longleftrightarrow> (\<exists>i < length xs. P (xs ! i))"
  by (metis in_set_conv_nth list_ex_iff)

lemma fold_upt_Suc: "fold f [0..<Suc n] s = f n (fold f [0..<n] s)"
  by simp

lemma fold_invariant_upt:
  assumes "P s" and "\<And>i s. i < n \<Longrightarrow> P s \<Longrightarrow> P (f i s)"
  shows "P (fold f [0..<n] s)"
  using assms by (induction n) auto

lemma fold_invariant_list:
  assumes "P s" and "\<And>x s. x \<in> set xs \<Longrightarrow> P s \<Longrightarrow> P (f x s)"
  shows "P (fold f xs s)"
  using assms by (induction xs arbitrary: s) auto

section \<open>Loops with early exit\<close>

text \<open>
  A counting loop whose body may leave it: \<open>Continue\<close> goes on, \<open>Break\<close> leaves the loop
  and \<open>Return\<close> leaves the function.
\<close>

datatype loop_ctl = Continue | Break | Return

fun for_loop :: "('i \<Rightarrow> 's \<Rightarrow> loop_ctl \<times> 's) \<Rightarrow> 'i list \<Rightarrow> 's \<Rightarrow> loop_ctl \<times> 's" where
  "for_loop body [] s = (Continue, s)"
| "for_loop body (i # xs) s =
     (case body i s of
        (Continue, s') \<Rightarrow> for_loop body xs s'
      | r \<Rightarrow> r)"

lemma for_loop_invariant:
  assumes "P s" and "\<And>i s. i \<in> set xs \<Longrightarrow> P s \<Longrightarrow> P (snd (body i s))"
  shows "P (snd (for_loop body xs s))"
  using assms
proof (induction xs arbitrary: s)
  case (Cons i xs)
  then have "P (snd (body i s))" by simp
  with Cons show ?case
    by (cases "body i s"; cases "fst (body i s)") auto
qed simp

lemma for_loop_idle:
  assumes "\<And>i. i \<in> set xs \<Longrightarrow> body i s = (Continue, s) \<or> body i s = (Break, s)"
  shows "\<exists>c. for_loop body xs s = (c, s) \<and> c \<noteq> Return"
  using assms
proof (induction xs)
  case (Cons i xs)
  then consider "body i s = (Continue, s)" | "body i s = (Break, s)" by auto
  then show ?case by cases (use Cons in simp_all)
qed simp

text \<open>A counting loop: \<open>P j\<close> holds when round \<open>j\<close> begins, \<open>B\<close> after a break and \<open>R\<close> after a return.\<close>

lemma for_loop_upt:
  assumes "P i s" and "i \<le> n"
    and "\<And>j s c s'. i \<le> j \<Longrightarrow> j < n \<Longrightarrow> P j s \<Longrightarrow> body j s = (c, s') \<Longrightarrow>
      (case c of Continue \<Rightarrow> P (Suc j) s' | Break \<Rightarrow> B s' | Return \<Rightarrow> R s')"
    and "for_loop body [i..<n] s = (c, s')"
  shows "case c of Continue \<Rightarrow> P n s' | Break \<Rightarrow> B s' | Return \<Rightarrow> R s'"
  using assms
proof (induction "n - i" arbitrary: i s)
  case (Suc k)
  obtain c1 s1 where b: "body i s = (c1, s1)" by (cases "body i s")
  have i: "i < n" using Suc(2) by simp
  then have u: "[i..<n] = i # [Suc i..<n]" by (simp add: upt_conv_Cons)
  have p: "case c1 of Continue \<Rightarrow> P (Suc i) s1 | Break \<Rightarrow> B s1 | Return \<Rightarrow> R s1"
    by (rule Suc(5) [OF order_refl i Suc(3) b])
  show ?case
  proof (cases c1)
    case Continue
    have "P (Suc i) s1" using p Continue by simp
    moreover have "for_loop body [Suc i..<n] s1 = (c, s')" using Suc(6) b Continue by (simp add: u)
    moreover have "case c of Continue \<Rightarrow> P (Suc j) s' | Break \<Rightarrow> B s' | Return \<Rightarrow> R s'"
      if "Suc i \<le> j" "j < n" "P j s" "body j s = (c, s')" for j s c s'
      using Suc(5) [OF Suc_leD [OF that(1)] that(2-4)] .
    ultimately show ?thesis using Suc(1) [of "Suc i" s1] Suc(2) i by simp
  qed (use p Suc(6) b in \<open>simp_all add: u\<close>)
qed simp

section \<open>Tables of cells\<close>

text \<open>
  The interface of a table whose cells are rewritten one at a time: page tables of the
  physical memory manager, allocation bitmaps of the file system, descriptor slots.  A loop
  \<^verbatim>\<open>for (j = 0; j < n; j++) update(start + j)\<close> rewrites the cells of its range and no other.
\<close>

locale cell_table =
  fixes cell :: "'s \<Rightarrow> nat \<Rightarrow> 'c"
    and upd :: "nat \<Rightarrow> 's \<Rightarrow> 's"
    and new_cell :: "'c \<Rightarrow> 'c"
    and dim :: "'s \<Rightarrow> nat"
    and invar :: "'s \<Rightarrow> bool"
  assumes cell_upd: "invar s \<Longrightarrow> i < dim s \<Longrightarrow>
      cell (upd i s) j = (if j = i then new_cell (cell s i) else cell s j)"
    and dim_upd: "invar s \<Longrightarrow> i < dim s \<Longrightarrow> dim (upd i s) = dim s"
    and invar_upd: "invar s \<Longrightarrow> i < dim s \<Longrightarrow> invar (upd i s)"
begin

lemma upd_range:
  "invar s \<Longrightarrow> start + n \<le> dim s \<Longrightarrow>
   invar (fold (\<lambda>j. upd (start + j)) [0..<n] s) \<and>
   dim (fold (\<lambda>j. upd (start + j)) [0..<n] s) = dim s \<and>
   cell (fold (\<lambda>j. upd (start + j)) [0..<n] s) p =
     (if start \<le> p \<and> p < start + n then new_cell (cell s p) else cell s p)"
  by (induction n arbitrary: p) (auto simp: cell_upd dim_upd invar_upd)

lemmas invar_range = upd_range [THEN conjunct1]
lemmas dim_range = upd_range [THEN conjunct2, THEN conjunct1]
lemmas cell_range = upd_range [THEN conjunct2, THEN conjunct2]

lemma upd_list:
  "invar s \<Longrightarrow> (\<And>x. x \<in> set xs \<Longrightarrow> x < dim s) \<Longrightarrow>
   invar (fold upd xs s) \<and> dim (fold upd xs s) = dim s"
  by (induction xs arbitrary: s) (auto simp: dim_upd invar_upd)

lemma cell_list:
  "invar s \<Longrightarrow> distinct xs \<Longrightarrow> (\<And>x. x \<in> set xs \<Longrightarrow> x < dim s) \<Longrightarrow>
   cell (fold upd xs s) p = (if p \<in> set xs then new_cell (cell s p) else cell s p)"
proof (induction xs arbitrary: s)
  case (Cons x xs)
  then have "cell (fold upd xs (upd x s)) p =
      (if p \<in> set xs then new_cell (cell (upd x s) p) else cell (upd x s) p)"
    by (intro Cons.IH) (simp_all add: dim_upd invar_upd)
  with Cons.prems show ?case by (simp add: cell_upd)
qed simp

end

section \<open>Page frame numbers\<close>

definition page_paddr :: "nat \<Rightarrow> u64" where
  "page_paddr page = of_nat page * 4096"

definition pfn :: "u64 \<Rightarrow> nat" where
  "pfn paddr = unat paddr div 4096"

definition page_aligned :: "u64 \<Rightarrow> bool" where
  "page_aligned a \<longleftrightarrow> a AND 0xFFF = 0"

lemma and_FFF_unat: "unat (a AND 0xFFF :: u64) = unat a mod 4096"
proof -
  have "a AND 0xFFF = take_bit 12 a"
    by (simp add: take_bit_eq_mask mask_eq_exp_minus_1)
  then show ?thesis
    by (simp only: unsigned_take_bit_eq) (simp add: take_bit_eq_mod)
qed

lemma page_aligned_iff: "page_aligned a \<longleftrightarrow> unat a mod 4096 = 0"
  by (metis and_FFF_unat page_aligned_def unat_0 unat_eq_zero)

lemma unat_page_paddr: "p < 2 ^ 52 \<Longrightarrow> unat (page_paddr p) = p * 4096"
proof -
  assume p: "p < 2 ^ 52"
  have "unat (of_nat p * 4096 :: u64) = unat (of_nat (p * 4096) :: u64)"
    by simp
  also have "\<dots> = (p * 4096) mod 2 ^ 64"
    by (simp only: unat_of_nat) (simp add: take_bit_eq_mod)
  also have "\<dots> = p * 4096"
    using p by simp
  finally show ?thesis by (simp add: page_paddr_def)
qed

lemma pfn_page_paddr [simp]: "p < 2 ^ 52 \<Longrightarrow> pfn (page_paddr p) = p"
  by (simp add: pfn_def unat_page_paddr)

lemma page_aligned_page_paddr [simp]: "p < 2 ^ 52 \<Longrightarrow> page_aligned (page_paddr p)"
  by (simp add: page_aligned_iff unat_page_paddr)

lemma page_paddr_0_iff: "p < 2 ^ 52 \<Longrightarrow> page_paddr p = 0 \<longleftrightarrow> p = 0"
  by (metis mult_is_0 unat_0 unat_eq_zero unat_page_paddr zero_neq_numeral)

lemma unat_u64_less: "unat (a :: u64) < 2 ^ 64"
proof -
  have "unat a < 2 ^ LENGTH(64)" by (rule unsigned_less)
  then show ?thesis by simp
qed

lemma unat_u32_less: "unat (a :: u32) < 2 ^ 32"
proof -
  have "unat a < 2 ^ LENGTH(32)" by (rule unsigned_less)
  then show ?thesis by simp
qed

lemma pfn_bound: "pfn a < 2 ^ 52"
  using unat_u64_less [of a] by (simp add: pfn_def less_mult_imp_div_less)

lemma page_paddr_pfn: "page_aligned a \<Longrightarrow> page_paddr (pfn a) = a"
proof -
  assume "page_aligned a"
  then have "unat a mod 4096 = 0" by (simp add: page_aligned_iff)
  then have "4096 dvd unat a" by (simp add: mod_eq_0_iff_dvd)
  then have "unat (page_paddr (pfn a)) = unat a"
    using pfn_bound [of a] by (simp add: unat_page_paddr) (simp add: pfn_def)
  then show ?thesis by (simp only: unsigned_word_eqI)
qed

lemma page_paddr_inject:
  "p < 2 ^ 52 \<Longrightarrow> q < 2 ^ 52 \<Longrightarrow> page_paddr p = page_paddr q \<longleftrightarrow> p = q"
  by (metis pfn_page_paddr)

section \<open>More on words and byte bitmaps\<close>

lemma and_not_mask_unat: "unat (a AND NOT (mask n) :: u64) = unat a div 2 ^ n * 2 ^ n"
proof -
  have *: "a AND NOT (mask n) = push_bit n (drop_bit n a)"
    by (rule bit_eqI) (auto simp: bit_simps)
  have le: "unat a div 2 ^ n * 2 ^ n < 2 ^ 64"
    using unat_u64_less [of a] by (meson div_times_less_eq_dividend le_less_trans)
  have "take_bit 64 (unat a) = unat a"
    using unat_u64_less [of a] by (simp add: take_bit_eq_mod)
  then have "unat (push_bit n (drop_bit n a)) = take_bit 64 (push_bit n (drop_bit n (unat a)))"
    by (simp add: unsigned_push_bit_eq unsigned_drop_bit_eq)
  also have "\<dots> = unat a div 2 ^ n * 2 ^ n"
    using le by (simp add: push_bit_eq_mult drop_bit_eq_div take_bit_eq_mod)
  finally show ?thesis using * by simp
qed

lemma unat_div_page: "unat (a div 4096 :: u64) = unat a div 4096"
  by (simp add: unat_div)

lemma nth_or_bit:
  assumes "i < 8 * length xs"
  shows "bit (xs[i div 8 := xs ! (i div 8) OR 2 ^ (i mod 8)] ! (j div 8) :: u8) (j mod 8) \<longleftrightarrow>
    j = i \<or> bit (xs ! (j div 8)) (j mod 8)"
proof (cases "j div 8 = i div 8")
  case True
  then have "j mod 8 = i mod 8 \<longleftrightarrow> j = i" by (metis div_mult_mod_eq)
  with True assms show ?thesis by (auto simp add: bit_or_mask8)
qed (use assms in auto)

lemma nth_and_not_bit:
  assumes "i < 8 * length xs"
  shows "bit (xs[i div 8 := xs ! (i div 8) AND NOT (2 ^ (i mod 8))] ! (j div 8) :: u8) (j mod 8) \<longleftrightarrow>
    j \<noteq> i \<and> bit (xs ! (j div 8)) (j mod 8)"
proof (cases "j div 8 = i div 8")
  case True
  then have "j mod 8 = i mod 8 \<longleftrightarrow> j = i" by (metis div_mult_mod_eq)
  with True assms show ?thesis by (auto simp add: bit_and_not_mask8)
qed (use assms in auto)

lemma unat_minus_1_u64: "unat (- 1 :: u64) = 2 ^ 64 - 1"
  by (simp add: unsigned_minus_1_eq_mask mask_eq_exp_minus_1)

lemma unat_add_4095:
  "unat (a :: u64) + 4095 < 2 ^ 64 \<Longrightarrow> unat (a + 4095) = unat a + 4095"
  by (simp add: unat_word_ariths)

lemma unat_add_no_wrap:
  "unat (a :: u64) + unat b < 2 ^ 64 \<Longrightarrow> unat (a + b) = unat a + unat b"
  by (simp add: unat_word_ariths)

lemma unat_of_nat_u64: "a < 2 ^ 64 \<Longrightarrow> unat (of_nat a :: u64) = a"
  by (simp add: unat_of_nat take_bit_eq_mod)

lemma of_nat_u64_inj: "a < 2 ^ 64 \<Longrightarrow> b < 2 ^ 64 \<Longrightarrow> (of_nat a :: u64) = of_nat b \<longleftrightarrow> a = b"
  by (metis unat_of_nat_u64)

lemma of_nat_u64_0: "a < 2 ^ 64 \<Longrightarrow> (of_nat a :: u64) = 0 \<longleftrightarrow> a = 0"
  using of_nat_u64_inj [of a 0] by simp

end
