(* ===== verification/Pmm.thy ===== *)
theory Pmm
  imports Os_Prelude
begin

text \<open>
  The physical memory manager of kernel/memory.c: the page bitmaps, the owner and
  reference-count tables, allocation, release and the user-mapping reference counts.
  The four arrays that \<^verbatim>\<open>Bitmap\<close> points to are lists (a NULL array is the empty list); the
  contents of physical memory are 512 words of 64 bits per page frame.
\<close>

section \<open>Data\<close>

datatype page_owner =
    PAGE_OWNER_FREE
  | PAGE_OWNER_GENERIC
  | PAGE_OWNER_PAGE_TABLE
  | PAGE_OWNER_KERNEL
  | PAGE_OWNER_HEAP
  | PAGE_OWNER_USER
  | PAGE_OWNER_THREAD
  | PAGE_OWNER_PROCESS
  | PAGE_OWNER_TTY
  | PAGE_OWNER_TEST
  | PAGE_OWNER_RESERVED
  | PAGE_OWNER_COUNT
  | PAGE_OWNER_ANY

fun owner_code :: "page_owner \<Rightarrow> nat" where
  "owner_code PAGE_OWNER_FREE = 0"
| "owner_code PAGE_OWNER_GENERIC = 1"
| "owner_code PAGE_OWNER_PAGE_TABLE = 2"
| "owner_code PAGE_OWNER_KERNEL = 3"
| "owner_code PAGE_OWNER_HEAP = 4"
| "owner_code PAGE_OWNER_USER = 5"
| "owner_code PAGE_OWNER_THREAD = 6"
| "owner_code PAGE_OWNER_PROCESS = 7"
| "owner_code PAGE_OWNER_TTY = 8"
| "owner_code PAGE_OWNER_TEST = 9"
| "owner_code PAGE_OWNER_RESERVED = 10"
| "owner_code PAGE_OWNER_COUNT = 11"
| "owner_code PAGE_OWNER_ANY = 255"

lemma owner_code_inject: "owner_code a = owner_code b \<Longrightarrow> a = b"
  by (cases a; cases b) simp_all

text \<open>The C enumerators are compared as integers.\<close>

instantiation page_owner :: linorder
begin

definition less_eq_page_owner :: "page_owner \<Rightarrow> page_owner \<Rightarrow> bool" where
  "less_eq_page_owner a b \<longleftrightarrow> owner_code a \<le> owner_code b"

definition less_page_owner :: "page_owner \<Rightarrow> page_owner \<Rightarrow> bool" where
  "less_page_owner a b \<longleftrightarrow> owner_code a < owner_code b"

instance
  by standard
    (auto simp: less_eq_page_owner_def less_page_owner_def intro: owner_code_inject)

end

record Bitmap =
  bits :: "u8 list"
  reserved_bits :: "u8 list"
  owners :: "page_owner list"
  refcounts :: "u32 list"
  page_count :: nat
  bmap_bytes :: nat

text \<open>
  What the manager reads of a thread on the scheduler ring.  The ring itself is the subject
  of the theory on threads; here it is the list of its members from the current thread on.
\<close>

record live_thread =
  lt_object_paddr :: u64
  lt_stack_base :: u64

record pmm =
  phy_mem_map :: Bitmap
  managed_end_paddr :: u64
  pmm_ready :: bool
  pmm_fail_allocations :: u32
  frames :: "nat \<Rightarrow> nat \<Rightarrow> u64"
  live_threads :: "live_thread list"

section \<open>Operations\<close>

definition live_thread_owns_page :: "u64 \<Rightarrow> 'a pmm_scheme \<Rightarrow> bool" where
  "live_thread_owns_page paddr s =
     list_ex (\<lambda>t. lt_object_paddr t = paddr \<or>
                  (lt_stack_base t \<noteq> 0 \<and> V2P (lt_stack_base t) = paddr)) (live_threads s)"

definition set_bit :: "nat \<Rightarrow> u8 \<Rightarrow> Bitmap \<Rightarrow> Bitmap" where
  "set_bit index val b =
     (if bits b = [] then b
      else if page_count b \<le> index then b
      else let byte_index = index div 8; mask = push_bit (index mod 8) (1 :: u8) in
        if val \<noteq> 0
        then b\<lparr>bits := (bits b)[byte_index := bits b ! byte_index OR mask]\<rparr>
        else b\<lparr>bits := (bits b)[byte_index := bits b ! byte_index AND NOT mask]\<rparr>)"

definition get_bit :: "nat \<Rightarrow> Bitmap \<Rightarrow> u8" where
  "get_bit index b =
     (if bits b = [] then 1
      else if page_count b \<le> index then 1
      else drop_bit (index mod 8) (bits b ! (index div 8)) AND 1)"

text \<open>The inline test \<^verbatim>\<open>(reserved_bits[i / 8] >> (i % 8)) & 1U\<close>.\<close>

definition reserved_bit :: "nat \<Rightarrow> Bitmap \<Rightarrow> u8" where
  "reserved_bit i b = drop_bit (i mod 8) (reserved_bits b ! (i div 8)) AND 1"

definition valid_alloc_owner :: "page_owner \<Rightarrow> bool" where
  "valid_alloc_owner owner \<longleftrightarrow>
     owner > PAGE_OWNER_FREE \<and> owner < PAGE_OWNER_COUNT \<and> owner \<noteq> PAGE_OWNER_RESERVED"

text \<open>The search loop of \<^verbatim>\<open>alloc_pages_owned_locked\<close>, from page \<open>i\<close> on.\<close>

function alloc_scan :: "nat \<Rightarrow> nat \<Rightarrow> nat \<Rightarrow> nat \<Rightarrow> 'a pmm_scheme \<Rightarrow> nat option" where
  "alloc_scan count i consecutive_free start_page s =
     (if i < page_count (phy_mem_map s) then
        if get_bit i (phy_mem_map s) = 0 \<and> reserved_bit i (phy_mem_map s) = 0 then
          if live_thread_owns_page (page_paddr i) s
          then alloc_scan count (Suc i) 0 start_page s
          else let start' = (if consecutive_free = 0 then i else start_page);
                   free' = Suc consecutive_free in
            if free' = count then Some start'
            else alloc_scan count (Suc i) free' start' s
        else alloc_scan count (Suc i) 0 start_page s
      else None)"
  by pat_completeness auto
termination
  by (relation "measure (\<lambda>(count, i, c, st, s). page_count (phy_mem_map s) - i)") auto

declare alloc_scan.simps [simp del]

definition mark_allocated :: "page_owner \<Rightarrow> nat \<Rightarrow> 'a pmm_scheme \<Rightarrow> 'a pmm_scheme" where
  "mark_allocated owner page s =
     (let b = set_bit page 1 (phy_mem_map s) in
      s\<lparr>phy_mem_map := b\<lparr>owners := (owners b)[page := owner],
                         refcounts := (refcounts b)[page := 0]\<rparr>\<rparr>)"

definition alloc_pages_owned_locked ::
    "nat \<Rightarrow> page_owner \<Rightarrow> 'a pmm_scheme \<Rightarrow> u64 \<times> 'a pmm_scheme" where
  "alloc_pages_owned_locked count owner s =
     (case alloc_scan count 0 0 0 s of
        None \<Rightarrow> (0, s)
      | Some start_page \<Rightarrow>
          (page_paddr start_page,
           fold (\<lambda>j. mark_allocated owner (start_page + j)) [0..<count] s))"

definition alloc_pages_owned ::
    "nat \<Rightarrow> page_owner \<Rightarrow> 'a pmm_scheme \<Rightarrow> u64 \<times> 'a pmm_scheme" where
  "alloc_pages_owned count owner s =
     (if \<not> pmm_ready s \<or> count = 0 \<or> \<not> valid_alloc_owner owner then (0, s)
      else if pmm_fail_allocations s \<noteq> 0
      then (0, s\<lparr>pmm_fail_allocations := pmm_fail_allocations s - 1\<rparr>)
      else alloc_pages_owned_locked count owner s)"

definition alloc_page_owned :: "page_owner \<Rightarrow> 'a pmm_scheme \<Rightarrow> u64 \<times> 'a pmm_scheme" where
  "alloc_page_owned owner s = alloc_pages_owned 1 owner s"

definition pmm_test_inject_alloc_failure_once :: "'a pmm_scheme \<Rightarrow> 'a pmm_scheme" where
  "pmm_test_inject_alloc_failure_once s = s\<lparr>pmm_fail_allocations := 1\<rparr>"

definition alloc_pages :: "nat \<Rightarrow> 'a pmm_scheme \<Rightarrow> u64 \<times> 'a pmm_scheme" where
  "alloc_pages count s = alloc_pages_owned count PAGE_OWNER_GENERIC s"

definition alloc_page :: "'a pmm_scheme \<Rightarrow> u64 \<times> 'a pmm_scheme" where
  "alloc_page s = alloc_page_owned PAGE_OWNER_GENERIC s"

text \<open>The test that makes \<^verbatim>\<open>free_pages_owned\<close> give up at one page.\<close>

definition free_refused :: "page_owner \<Rightarrow> 'a pmm_scheme \<Rightarrow> nat \<Rightarrow> bool" where
  "free_refused expected_owner s page \<longleftrightarrow>
     live_thread_owns_page (page_paddr page) s \<or>
     get_bit page (phy_mem_map s) = 0 \<or> reserved_bit page (phy_mem_map s) \<noteq> 0 \<or>
     refcounts (phy_mem_map s) ! page \<noteq> 0 \<or>
     (expected_owner \<noteq> PAGE_OWNER_ANY \<and> owners (phy_mem_map s) ! page \<noteq> expected_owner)"

definition release_page :: "nat \<Rightarrow> 'a pmm_scheme \<Rightarrow> 'a pmm_scheme" where
  "release_page page s =
     (let b = set_bit page 0 (phy_mem_map s) in
      s\<lparr>frames := (frames s)(page := (\<lambda>_. 0)),
        phy_mem_map := b\<lparr>owners := (owners b)[page := PAGE_OWNER_FREE],
                         refcounts := (refcounts b)[page := 0]\<rparr>\<rparr>)"

definition free_pages_owned ::
    "u64 \<Rightarrow> nat \<Rightarrow> page_owner \<Rightarrow> 'a pmm_scheme \<Rightarrow> int \<times> 'a pmm_scheme" where
  "free_pages_owned paddr count expected_owner s =
     (if \<not> pmm_ready s \<or> paddr = 0 \<or> count = 0 \<or> \<not> page_aligned paddr then (-1, s)
      else let start_page = pfn paddr in
        if page_count (phy_mem_map s) \<le> start_page \<or>
           page_count (phy_mem_map s) - start_page < count then (-1, s)
        else if list_ex (\<lambda>i. free_refused expected_owner s (start_page + i)) [0..<count]
        then (-1, s)
        else (0, fold (\<lambda>i. release_page (start_page + i)) [0..<count] s))"

definition free_page_owned ::
    "u64 \<Rightarrow> page_owner \<Rightarrow> 'a pmm_scheme \<Rightarrow> int \<times> 'a pmm_scheme" where
  "free_page_owned paddr expected_owner s = free_pages_owned paddr 1 expected_owner s"

definition free_pages :: "u64 \<Rightarrow> nat \<Rightarrow> 'a pmm_scheme \<Rightarrow> int \<times> 'a pmm_scheme" where
  "free_pages paddr count s = free_pages_owned paddr count PAGE_OWNER_ANY s"

definition free_page :: "u64 \<Rightarrow> 'a pmm_scheme \<Rightarrow> int \<times> 'a pmm_scheme" where
  "free_page paddr s = free_page_owned paddr PAGE_OWNER_ANY s"

definition pmm_page_refcount :: "u64 \<Rightarrow> 'a pmm_scheme \<Rightarrow> u32" where
  "pmm_page_refcount paddr s =
     (if \<not> pmm_ready s \<or> \<not> page_aligned paddr then 0
      else let page = pfn paddr in
        if page < page_count (phy_mem_map s) \<and> get_bit page (phy_mem_map s) \<noteq> 0
        then refcounts (phy_mem_map s) ! page else 0)"

definition pmm_acquire_user_mapping :: "u64 \<Rightarrow> 'a pmm_scheme \<Rightarrow> int \<times> 'a pmm_scheme" where
  "pmm_acquire_user_mapping paddr s =
     (if \<not> pmm_ready s \<or> paddr = 0 \<or> \<not> page_aligned paddr then (-1, s)
      else let page = pfn paddr; b = phy_mem_map s in
        if page < page_count b \<and> get_bit page b \<noteq> 0 \<and>
           owners b ! page = PAGE_OWNER_USER \<and> refcounts b ! page \<noteq> - 1
        then (0, s\<lparr>phy_mem_map := b\<lparr>refcounts := (refcounts b)[page := refcounts b ! page + 1]\<rparr>\<rparr>)
        else (-1, s))"

definition pmm_release_user_mapping :: "u64 \<Rightarrow> 'a pmm_scheme \<Rightarrow> int \<times> 'a pmm_scheme" where
  "pmm_release_user_mapping paddr s =
     (if \<not> pmm_ready s \<or> paddr = 0 \<or> \<not> page_aligned paddr then (-1, s)
      else let page = pfn paddr; b = phy_mem_map s in
        if page < page_count b \<and> get_bit page b \<noteq> 0 \<and>
           owners b ! page = PAGE_OWNER_USER \<and> refcounts b ! page \<noteq> 0
        then let refs = refcounts b ! page - 1;
                 s1 = s\<lparr>phy_mem_map := b\<lparr>refcounts := (refcounts b)[page := refs]\<rparr>\<rparr> in
          if refs = 0 then
            let b1 = set_bit page 0 (phy_mem_map s1) in
            (0, s1\<lparr>frames := (frames s1)(page := (\<lambda>_. 0)),
                   phy_mem_map := b1\<lparr>owners := (owners b1)[page := PAGE_OWNER_FREE]\<rparr>\<rparr>)
          else (0, s1)
        else (-1, s))"

subsection \<open>Page-table words in physical memory\<close>

definition PTE_P :: u64 where "PTE_P = 0x01"
definition PTE_RW :: u64 where "PTE_RW = 0x02"
definition PTE_US :: u64 where "PTE_US = 0x04"
definition PTE_PS :: u64 where "PTE_PS = 0x80"
definition PTE_COW :: u64 where "PTE_COW = 0x200"
definition PTE_ADDR_MASK :: u64 where "PTE_ADDR_MASK = NOT 0xFFF"

definition PML4_INDEX :: "u64 \<Rightarrow> nat" where
  "PML4_INDEX vaddr = unat (drop_bit 39 vaddr AND 0x1FF)"

definition PDPT_INDEX :: "u64 \<Rightarrow> nat" where
  "PDPT_INDEX vaddr = unat (drop_bit 30 vaddr AND 0x1FF)"

definition PD_INDEX :: "u64 \<Rightarrow> nat" where
  "PD_INDEX vaddr = unat (drop_bit 21 vaddr AND 0x1FF)"

definition PT_INDEX :: "u64 \<Rightarrow> nat" where
  "PT_INDEX vaddr = unat (drop_bit 12 vaddr AND 0x1FF)"

text \<open>\<^verbatim>\<open>((uint64_t*)P2V(paddr))[i]\<close> and the assignment to it.\<close>

definition tbl :: "'a pmm_scheme \<Rightarrow> u64 \<Rightarrow> nat \<Rightarrow> u64" where
  "tbl s paddr i = frames s (pfn paddr) i"

definition set_tbl :: "u64 \<Rightarrow> nat \<Rightarrow> u64 \<Rightarrow> 'a pmm_scheme \<Rightarrow> 'a pmm_scheme" where
  "set_tbl paddr i v s =
     s\<lparr>frames := (frames s)(pfn paddr := (frames s (pfn paddr))(i := v))\<rparr>"

text \<open>\<^verbatim>\<open>memset(P2V(paddr), 0, PAGE_SIZE)\<close>.\<close>

definition zero_frame :: "u64 \<Rightarrow> 'a pmm_scheme \<Rightarrow> 'a pmm_scheme" where
  "zero_frame paddr s = s\<lparr>frames := (frames s)(pfn paddr := (\<lambda>_. 0))\<rparr>"

section \<open>Shape of the tables and the view of one page\<close>

text \<open>The arrays are as long as \<^verbatim>\<open>init_phy_mem_map\<close> lays them out, and the direct map bounds
  the number of pages (\<^verbatim>\<open>DIRECT_MAP_MAX_PHYS\<close> is 128 TiB).\<close>

definition pmm_shape :: "'a pmm_scheme \<Rightarrow> bool" where
  "pmm_shape s \<longleftrightarrow> (let b = phy_mem_map s in
     bits b \<noteq> [] \<and> page_count b \<le> 2 ^ 35 \<and>
     page_count b \<le> 8 * length (bits b) \<and> page_count b \<le> 8 * length (reserved_bits b) \<and>
     length (owners b) = page_count b \<and> length (refcounts b) = page_count b)"

record page_info =
  allocated :: bool
  reserved :: bool
  owner_of :: page_owner
  refs_of :: u32
  contents :: "nat \<Rightarrow> u64"

definition page_info :: "'a pmm_scheme \<Rightarrow> nat \<Rightarrow> page_info" where
  "page_info s p =
     \<lparr>allocated = (get_bit p (phy_mem_map s) \<noteq> 0),
      reserved = (reserved_bit p (phy_mem_map s) \<noteq> 0),
      owner_of = owners (phy_mem_map s) ! p,
      refs_of = refcounts (phy_mem_map s) ! p,
      contents = frames s p\<rparr>"

abbreviation n_pages :: "'a pmm_scheme \<Rightarrow> nat" where
  "n_pages s \<equiv> page_count (phy_mem_map s)"

lemma set_bit_fields [frame_simps, simp]:
  "page_count (set_bit i v b) = page_count b"
  "reserved_bits (set_bit i v b) = reserved_bits b"
  "owners (set_bit i v b) = owners b"
  "refcounts (set_bit i v b) = refcounts b"
  "bmap_bytes (set_bit i v b) = bmap_bytes b"
  "length (bits (set_bit i v b)) = length (bits b)"
  by (simp_all add: set_bit_def Let_def)

lemma bits_set_bit_empty [simp]: "bits (set_bit i v b) = [] \<longleftrightarrow> bits b = []"
  by (metis length_0_conv set_bit_fields(6))

lemma get_bit_nz:
  "bits b \<noteq> [] \<Longrightarrow> get_bit j b \<noteq> 0 \<longleftrightarrow>
     page_count b \<le> j \<or> bit (bits b ! (j div 8)) (j mod 8)"
  by (simp add: get_bit_def drop_bit_and_1)

lemma get_bit_01: "get_bit i b = 0 \<or> get_bit i b = 1"
  by (simp add: get_bit_def drop_bit_and_1)

lemma nth_bits_set_bit:
  assumes "bits b \<noteq> []" and "i < page_count b" and "i div 8 < length (bits b)"
  shows "bit (bits (set_bit i v b) ! (j div 8)) (j mod 8) =
     (if j = i then v \<noteq> 0 else bit (bits b ! (j div 8)) (j mod 8))"
proof (cases "j div 8 = i div 8")
  case True
  then have "j mod 8 = i mod 8 \<longleftrightarrow> j = i"
    by (metis div_mult_mod_eq)
  with True assms show ?thesis
    by (simp add: set_bit_def Let_def bit_or_mask8 bit_and_not_mask8)
next
  case False
  then show ?thesis
    using assms by (auto simp add: set_bit_def Let_def)
qed

lemma get_set_bit [cell_simps]:
  assumes "bits b \<noteq> []" and "page_count b \<le> 8 * length (bits b)" and "i < page_count b"
  shows "get_bit j (set_bit i v b) \<noteq> 0 \<longleftrightarrow> (if j = i then v \<noteq> 0 else get_bit j b \<noteq> 0)"
proof -
  have "i div 8 < length (bits b)" using assms by linarith
  with assms show ?thesis
    by (simp add: get_bit_nz nth_bits_set_bit)
qed

lemma reserved_set_bit [simp]: "reserved_bit j (set_bit i v b) = reserved_bit j b"
  by (simp add: reserved_bit_def)

lemma get_bit_update [simp]:
  "get_bit j (b\<lparr>owners := x\<rparr>) = get_bit j b"
  "get_bit j (b\<lparr>refcounts := y\<rparr>) = get_bit j b"
  by (simp_all add: get_bit_def)

lemma reserved_bit_update [simp]:
  "reserved_bit j (b\<lparr>owners := x\<rparr>) = reserved_bit j b"
  "reserved_bit j (b\<lparr>refcounts := y\<rparr>) = reserved_bit j b"
  by (simp_all add: reserved_bit_def)

lemmas shape_simps = pmm_shape_def Let_def

interpretation mark: cell_table
  page_info "mark_allocated owner" "\<lambda>c. c\<lparr>allocated := True, owner_of := owner, refs_of := 0\<rparr>"
  n_pages pmm_shape
  by unfold_locales
    (auto simp: page_info_def mark_allocated_def shape_simps cell_simps nth_list_update)

interpretation rel: cell_table
  page_info release_page
  "\<lambda>c. c\<lparr>allocated := False, owner_of := PAGE_OWNER_FREE, refs_of := 0, contents := (\<lambda>_. 0)\<rparr>"
  n_pages pmm_shape
  by unfold_locales
    (auto simp: page_info_def release_page_def shape_simps cell_simps nth_list_update)

section \<open>Allocation is first fit\<close>

definition page_available :: "'a pmm_scheme \<Rightarrow> nat \<Rightarrow> bool" where
  "page_available s p \<longleftrightarrow>
     \<not> allocated (page_info s p) \<and> \<not> reserved (page_info s p) \<and>
     \<not> live_thread_owns_page (page_paddr p) s"

definition free_run :: "'a pmm_scheme \<Rightarrow> nat \<Rightarrow> nat \<Rightarrow> bool" where
  "free_run s start n \<longleftrightarrow>
     start + n \<le> n_pages s \<and> (\<forall>p. start \<le> p \<and> p < start + n \<longrightarrow> page_available s p)"

lemma alloc_scan_step:
  "alloc_scan count i c st s =
     (if i < n_pages s then
        if page_available s i then
          if Suc c = count then Some (if c = 0 then i else st)
          else alloc_scan count (Suc i) (Suc c) (if c = 0 then i else st) s
        else alloc_scan count (Suc i) 0 st s
      else None)"
  by (subst alloc_scan.simps) (auto simp: page_available_def page_info_def Let_def)

lemma no_run_across:
  "\<not> page_available s i \<Longrightarrow> base \<le> r \<Longrightarrow> i < base + n \<Longrightarrow> free_run s r n \<Longrightarrow> i < r"
  by (rule ccontr) (auto simp: free_run_def)

lemma alloc_scan_correct:
  assumes "c < count" and "base + c = i" and "c > 0 \<Longrightarrow> st = base"
    and "\<And>p. base \<le> p \<Longrightarrow> p < i \<Longrightarrow> page_available s p"
  shows "case alloc_scan count i c st s of
      None \<Rightarrow> \<forall>r \<ge> base. \<not> free_run s r count
    | Some r \<Rightarrow> base \<le> r \<and> free_run s r count \<and> (\<forall>r' \<ge> base. free_run s r' count \<longrightarrow> r \<le> r')"
  using assms
proof (induction "n_pages s - i" arbitrary: i c st base)
  case 0
  then have "\<not> free_run s r count" if "base \<le> r" for r
    using that by (auto simp: free_run_def)
  with 0 show ?case by (subst alloc_scan_step) auto
next
  case (Suc k)
  then have i: "i < n_pages s" and k: "k = n_pages s - Suc i" by linarith+
  show ?case
  proof (cases "page_available s i")
    case avail: True
    then have run: "page_available s p" if "base \<le> p" "p < Suc i" for p
      using that Suc.prems(4) by (cases "p = i") auto
    show ?thesis
    proof (cases "Suc c = count")
      case True
      then have "alloc_scan count i c st s = Some base"
        using i avail Suc.prems by (subst alloc_scan_step) auto
      moreover have "free_run s base count"
        using True Suc.prems(2) i run by (auto simp: free_run_def)
      ultimately show ?thesis by simp
    next
      case False
      have "(if c = 0 then i else st) = base" using Suc.prems(2,3) by auto
      then have "alloc_scan count i c st s = alloc_scan count (Suc i) (Suc c) base s"
        using i avail False by (subst alloc_scan_step) (simp only: if_True if_False)
      then show ?thesis
        using Suc.hyps(1) [OF k, of "Suc c" base base] Suc.prems run False by simp
    qed
  next
    case blocked: False
    have step: "alloc_scan count i c st s = alloc_scan count (Suc i) 0 st s"
      using i blocked by (subst alloc_scan_step) simp
    have skip: "Suc i \<le> r" if "base \<le> r" "free_run s r count" for r
      using no_run_across [OF blocked that(1) _ that(2)] Suc.prems(1,2) by simp
    have "case alloc_scan count (Suc i) 0 st s of
        None \<Rightarrow> \<forall>r \<ge> Suc i. \<not> free_run s r count
      | Some r \<Rightarrow> Suc i \<le> r \<and> free_run s r count \<and> (\<forall>r' \<ge> Suc i. free_run s r' count \<longrightarrow> r \<le> r')"
      using Suc.hyps(1) [OF k, of 0 "Suc i" st] Suc.prems(1) by simp
    then show ?thesis
      unfolding step using skip Suc.prems(2)
      by (cases "alloc_scan count (Suc i) 0 st s") (simp, blast, simp)
  qed
qed

lemma alloc_scan_Some:
  "0 < count \<Longrightarrow> alloc_scan count 0 0 0 s = Some r \<Longrightarrow>
   free_run s r count \<and> (\<forall>r'. free_run s r' count \<longrightarrow> r \<le> r')"
  using alloc_scan_correct [of 0 count 0 0 0 s] by simp

lemma alloc_scan_None:
  "0 < count \<Longrightarrow> alloc_scan count 0 0 0 s = None \<longleftrightarrow> (\<nexists>r. free_run s r count)"
  using alloc_scan_correct [of 0 count 0 0 0 s] by (auto split: option.splits)

section \<open>Effect of the operations on every page\<close>

text \<open>What no operation of the manager changes: the readiness flag, the scheduler ring, the
  number of pages and the state of the components built on top.\<close>

definition same_env :: "'a pmm_scheme \<Rightarrow> 'a pmm_scheme \<Rightarrow> bool" where
  "same_env s s' \<longleftrightarrow>
     pmm_ready s' = pmm_ready s \<and> live_threads s' = live_threads s \<and>
     managed_end_paddr s' = managed_end_paddr s \<and> n_pages s' = n_pages s \<and>
     pmm.more s' = pmm.more s"

lemma same_env_refl [simp, intro]: "same_env s s"
  by (simp add: same_env_def)

lemma same_env_trans [trans]: "same_env s t \<Longrightarrow> same_env t u \<Longrightarrow> same_env s u"
  by (simp add: same_env_def)

lemma same_env_live: "same_env s s' \<Longrightarrow> live_thread_owns_page a s' = live_thread_owns_page a s"
  by (simp add: same_env_def live_thread_owns_page_def)

lemma same_env_mark: "same_env s (mark_allocated ow p s)"
  by (simp add: same_env_def mark_allocated_def Let_def)

lemma same_env_release: "same_env s (release_page p s)"
  by (simp add: same_env_def release_page_def Let_def)

lemma fold_same_env:
  "(\<And>x s. same_env s (f x s)) \<Longrightarrow> same_env s (fold f xs s)"
  by (induction xs arbitrary: s) (auto intro: same_env_trans)

lemma frames_mark [simp]:
  "pmm_fail_allocations (mark_allocated ow p s) = pmm_fail_allocations s"
  "frames (mark_allocated ow p s) = frames s"
  by (simp_all add: mark_allocated_def Let_def)

lemma fold_frames_mark:
  "pmm_fail_allocations (fold (\<lambda>j. mark_allocated ow (g j)) xs s) = pmm_fail_allocations s"
  "frames (fold (\<lambda>j. mark_allocated ow (g j)) xs s) = frames s"
  by (induction xs arbitrary: s) simp_all

lemma free_run_lt_pow: "pmm_shape s \<Longrightarrow> free_run s r n \<Longrightarrow> 0 < n \<Longrightarrow> r < 2 ^ 52"
  by (auto simp: free_run_def shape_simps)

lemma n_pages_lt_pow: "pmm_shape s \<Longrightarrow> p < n_pages s \<Longrightarrow> p < 2 ^ 52"
  by (auto simp: shape_simps)

lemma alloc_pages_owned_success:
  assumes shape: "pmm_shape s" and res0: "reserved (page_info s 0)"
    and alloc: "alloc_pages_owned count ow s = (pa, s')" and pa: "pa \<noteq> 0"
  obtains start where "pa = page_paddr start" "0 < start" "0 < count" "valid_alloc_owner ow"
    "free_run s start count" "\<And>r. free_run s r count \<Longrightarrow> start \<le> r"
    "\<And>p. page_info s' p = (if start \<le> p \<and> p < start + count
        then page_info s p \<lparr>allocated := True, owner_of := ow, refs_of := 0\<rparr> else page_info s p)"
    "same_env s s'" "pmm_shape s'" "pmm_ready s" "pmm_fail_allocations s' = 0"
proof -
  from alloc pa have guards: "pmm_ready s" "0 < count" "valid_alloc_owner ow"
      "pmm_fail_allocations s = 0"
    and locked: "alloc_pages_owned_locked count ow s = (pa, s')"
    by (auto simp: alloc_pages_owned_def split: if_splits)
  from locked pa obtain start where scan: "alloc_scan count 0 0 0 s = Some start"
    and pa_eq: "pa = page_paddr start"
    and s': "s' = fold (\<lambda>j. mark_allocated ow (start + j)) [0..<count] s"
    by (auto simp: alloc_pages_owned_locked_def split: option.splits)
  note run = alloc_scan_Some [OF guards(2) scan]
  have bound: "start + count \<le> n_pages s" using run by (simp add: free_run_def)
  have start: "0 < start"
  proof (rule ccontr)
    assume "\<not> 0 < start"
    with run guards(2) have "page_available s 0" by (auto simp: free_run_def)
    with res0 show False by (simp add: page_available_def)
  qed
  show thesis
  proof (rule that [OF pa_eq start guards(2,3)])
    show "free_run s start count" using run by blast
    show "start \<le> r" if "free_run s r count" for r using run that by blast
    show "page_info s' p = (if start \<le> p \<and> p < start + count
        then page_info s p \<lparr>allocated := True, owner_of := ow, refs_of := 0\<rparr> else page_info s p)" for p
      unfolding s' by (rule mark.cell_range [OF shape bound])
    show "same_env s s'" unfolding s' by (rule fold_same_env, rule same_env_mark)
    show "pmm_shape s'" unfolding s' by (rule mark.invar_range [OF shape bound])
    show "pmm_ready s" by (rule guards(1))
    show "pmm_fail_allocations s' = 0" using guards(4) by (simp add: s' fold_frames_mark)
  qed
qed

lemma alloc_pages_owned_failure:
  assumes "alloc_pages_owned count ow s = (0, s')"
    and "pmm_shape s" and "reserved (page_info s 0)"
  shows "s' = s \<or> s' = s\<lparr>pmm_fail_allocations := pmm_fail_allocations s - 1\<rparr>"
proof (cases "pmm_ready s \<and> 0 < count \<and> valid_alloc_owner ow \<and> pmm_fail_allocations s = 0")
  case False
  then show ?thesis using assms(1) by (auto simp: alloc_pages_owned_def split: if_splits)
next
  case True
  then have locked: "alloc_pages_owned_locked count ow s = (0, s')"
    using assms(1) by (auto simp: alloc_pages_owned_def)
  show ?thesis
  proof (cases "alloc_scan count 0 0 0 s")
    case None
    with locked show ?thesis by (simp add: alloc_pages_owned_locked_def)
  next
    case (Some start)
    with True have run: "free_run s start count" using alloc_scan_Some by blast
    have "start < 2 ^ 52" using free_run_lt_pow [OF assms(2) run] True by simp
    moreover have "page_paddr start = 0"
      using locked Some by (simp add: alloc_pages_owned_locked_def)
    ultimately have "start = 0" by (simp add: page_paddr_0_iff)
    then have "page_available s 0" using run True by (auto simp: free_run_def)
    with assms(3) show ?thesis by (simp add: page_available_def)
  qed
qed

lemma alloc_pages_owned_iff:
  assumes "pmm_shape s" and "reserved (page_info s 0)" and "pmm_fail_allocations s = 0"
  shows "fst (alloc_pages_owned count ow s) \<noteq> 0 \<longleftrightarrow>
    pmm_ready s \<and> 0 < count \<and> valid_alloc_owner ow \<and> (\<exists>r. free_run s r count)"
proof (cases "pmm_ready s \<and> 0 < count \<and> valid_alloc_owner ow")
  case False
  then show ?thesis by (auto simp: alloc_pages_owned_def)
next
  case True
  show ?thesis
  proof (cases "alloc_scan count 0 0 0 s")
    case None
    then show ?thesis
      using True alloc_scan_None [of count s] assms(3)
      by (auto simp: alloc_pages_owned_def alloc_pages_owned_locked_def)
  next
    case (Some start)
    with True have run: "free_run s start count" using alloc_scan_Some by blast
    then have "start \<noteq> 0" and "start < 2 ^ 52"
      using assms(1,2) True free_run_lt_pow [OF assms(1) run]
      by (auto simp: free_run_def page_available_def)
    then show ?thesis
      using True Some run assms(3)
      by (auto simp: alloc_pages_owned_def alloc_pages_owned_locked_def page_paddr_0_iff)
  qed
qed

lemma free_refused_iff:
  "free_refused ow s p \<longleftrightarrow>
     live_thread_owns_page (page_paddr p) s \<or> \<not> allocated (page_info s p) \<or>
     reserved (page_info s p) \<or> refs_of (page_info s p) \<noteq> 0 \<or>
     (ow \<noteq> PAGE_OWNER_ANY \<and> owner_of (page_info s p) \<noteq> ow)"
  by (simp add: free_refused_def page_info_def)

lemma free_pages_owned_cases:
  obtains (refused) "free_pages_owned pa count ow s = (-1, s)"
  | (freed) "pmm_ready s" "pa \<noteq> 0" "0 < count" "page_aligned pa" "pfn pa + count \<le> n_pages s"
      "\<And>p. pfn pa \<le> p \<Longrightarrow> p < pfn pa + count \<Longrightarrow> \<not> free_refused ow s p"
      "free_pages_owned pa count ow s =
         (0, fold (\<lambda>i. release_page (pfn pa + i)) [0..<count] s)"
proof (cases "\<not> pmm_ready s \<or> pa = 0 \<or> count = 0 \<or> \<not> page_aligned pa \<or>
    n_pages s \<le> pfn pa \<or> n_pages s - pfn pa < count \<or>
    list_ex (\<lambda>i. free_refused ow s (pfn pa + i)) [0..<count]")
  case True
  then have "free_pages_owned pa count ow s = (-1, s)"
    by (auto simp: free_pages_owned_def Let_def)
  then show thesis by (rule refused)
next
  case False
  have range: "\<not> free_refused ow s p" if "pfn pa \<le> p" "p < pfn pa + count" for p
  proof -
    have "p - pfn pa \<in> set [0..<count]" using that by auto
    then have "\<not> free_refused ow s (pfn pa + (p - pfn pa))"
      using False unfolding list_ex_iff by blast
    then show ?thesis using that by simp
  qed
  show thesis
    by (rule freed) (use False range in \<open>auto simp: free_pages_owned_def Let_def\<close>)
qed

lemma free_pages_owned_failure:
  "fst (free_pages_owned pa count ow s) \<noteq> 0 \<Longrightarrow> free_pages_owned pa count ow s = (-1, s)"
  by (rule free_pages_owned_cases [of pa count ow s]) auto

lemma free_pages_owned_success:
  assumes shape: "pmm_shape s" and free: "free_pages_owned pa count ow s = (0, s')"
  shows "pfn pa + count \<le> n_pages s" and "0 < count" and "pa \<noteq> 0" and "page_aligned pa"
    and "pmm_ready s"
    and "\<And>p. pfn pa \<le> p \<Longrightarrow> p < pfn pa + count \<Longrightarrow> \<not> free_refused ow s p"
    and "page_info s' p = (if pfn pa \<le> p \<and> p < pfn pa + count
      then page_info s p \<lparr>allocated := False, owner_of := PAGE_OWNER_FREE, refs_of := 0,
                          contents := (\<lambda>_. 0)\<rparr>
      else page_info s p)"
    and "same_env s s'" and "pmm_shape s'"
proof -
  have *: "pmm_ready s \<and> pa \<noteq> 0 \<and> 0 < count \<and> page_aligned pa \<and>
      pfn pa + count \<le> n_pages s \<and>
      (\<forall>p. pfn pa \<le> p \<and> p < pfn pa + count \<longrightarrow> \<not> free_refused ow s p) \<and>
      s' = fold (\<lambda>i. release_page (pfn pa + i)) [0..<count] s"
    by (rule free_pages_owned_cases [of pa count ow s]) (use free in auto)
  then have bound: "pfn pa + count \<le> n_pages s" by blast
  from * show "pfn pa + count \<le> n_pages s" "0 < count" "pa \<noteq> 0" "page_aligned pa" "pmm_ready s"
    "\<And>p. pfn pa \<le> p \<Longrightarrow> p < pfn pa + count \<Longrightarrow> \<not> free_refused ow s p" by blast+
  from * show "page_info s' p = (if pfn pa \<le> p \<and> p < pfn pa + count
      then page_info s p \<lparr>allocated := False, owner_of := PAGE_OWNER_FREE, refs_of := 0,
                          contents := (\<lambda>_. 0)\<rparr>
      else page_info s p)" and "pmm_shape s'"
    using rel.cell_range [OF shape bound] rel.invar_range [OF shape bound] by simp_all
  from * show "same_env s s'" by (simp add: fold_same_env same_env_release)
qed

lemma page_info_refcounts:
  "pmm_shape s \<Longrightarrow> page < n_pages s \<Longrightarrow>
   page_info (s\<lparr>phy_mem_map := (phy_mem_map s)\<lparr>refcounts := (refcounts (phy_mem_map s))[page := r]\<rparr>\<rparr>) p =
   (if p = page then page_info s p \<lparr>refs_of := r\<rparr> else page_info s p)"
  by (auto simp: page_info_def shape_simps)

text \<open>A page may be mapped by user space: allocated to a user and below the end of memory.\<close>

definition user_page :: "u64 \<Rightarrow> 'a pmm_scheme \<Rightarrow> bool" where
  "user_page pa s \<longleftrightarrow>
     pmm_ready s \<and> pa \<noteq> 0 \<and> page_aligned pa \<and> pfn pa < n_pages s \<and>
     allocated (page_info s (pfn pa)) \<and> owner_of (page_info s (pfn pa)) = PAGE_OWNER_USER"

lemma acquire_cases:
  "pmm_acquire_user_mapping pa s =
     (if user_page pa s \<and> refs_of (page_info s (pfn pa)) \<noteq> - 1
      then (0, s\<lparr>phy_mem_map := (phy_mem_map s)\<lparr>refcounts := (refcounts (phy_mem_map s))
                   [pfn pa := refs_of (page_info s (pfn pa)) + 1]\<rparr>\<rparr>)
      else (-1, s))"
  by (auto simp: pmm_acquire_user_mapping_def user_page_def page_info_def Let_def)

lemma acquire_success:
  assumes "pmm_shape s" and "pmm_acquire_user_mapping pa s = (0, s')"
  shows "user_page pa s" and "refs_of (page_info s (pfn pa)) \<noteq> - 1"
    and "page_info s' p = (if p = pfn pa
      then page_info s p \<lparr>refs_of := refs_of (page_info s p) + 1\<rparr> else page_info s p)"
    and "same_env s s'" and "pmm_shape s'" and "frames s' = frames s"
    and "pmm_fail_allocations s' = pmm_fail_allocations s"
  using assms
  by (auto simp: acquire_cases page_info_refcounts user_page_def same_env_def shape_simps
      split: if_splits)

lemma acquire_failure:
  "fst (pmm_acquire_user_mapping pa s) \<noteq> 0 \<Longrightarrow> pmm_acquire_user_mapping pa s = (-1, s)"
  by (simp add: acquire_cases split: if_splits)

definition last_reference :: "page_info \<Rightarrow> page_info" where
  "last_reference i =
     i\<lparr>allocated := False, owner_of := PAGE_OWNER_FREE, refs_of := 0, contents := (\<lambda>_. 0)\<rparr>"

lemma release_user_cases:
  assumes "pmm_shape s"
  shows "pmm_release_user_mapping pa s =
     (if user_page pa s \<and> refs_of (page_info s (pfn pa)) \<noteq> 0
      then if refs_of (page_info s (pfn pa)) = 1 then (0, release_page (pfn pa) s)
        else (0, s\<lparr>phy_mem_map := (phy_mem_map s)\<lparr>refcounts := (refcounts (phy_mem_map s))
                   [pfn pa := refs_of (page_info s (pfn pa)) - 1]\<rparr>\<rparr>)
      else (-1, s))"
  using assms
  by (auto simp: pmm_release_user_mapping_def release_page_def user_page_def page_info_def
      Let_def set_bit_def)

lemma release_user_success:
  assumes "pmm_shape s" and "pmm_release_user_mapping pa s = (0, s')"
  shows "user_page pa s" and "refs_of (page_info s (pfn pa)) \<noteq> 0"
    and "page_info s' p = (if p = pfn pa
      then if refs_of (page_info s p) = 1 then last_reference (page_info s p)
           else page_info s p \<lparr>refs_of := refs_of (page_info s p) - 1\<rparr>
      else page_info s p)"
    and "same_env s s'" and "pmm_shape s'"
  using assms
  by (auto simp: release_user_cases page_info_refcounts rel.cell_upd rel.invar_upd
      last_reference_def user_page_def same_env_release split: if_splits)
    (auto simp: same_env_def shape_simps)

lemma release_user_failure:
  "pmm_shape s \<Longrightarrow> fst (pmm_release_user_mapping pa s) \<noteq> 0 \<Longrightarrow>
   pmm_release_user_mapping pa s = (-1, s)"
  by (auto simp: release_user_cases split: if_splits)

section \<open>The accounting invariant\<close>

definition page_ok :: "page_info \<Rightarrow> bool" where
  "page_ok i \<longleftrightarrow>
     (if reserved i then owner_of i = PAGE_OWNER_RESERVED \<and> refs_of i = 0
      else owner_of i \<notin> {PAGE_OWNER_RESERVED, PAGE_OWNER_COUNT, PAGE_OWNER_ANY} \<and>
           (allocated i \<longleftrightarrow> owner_of i \<noteq> PAGE_OWNER_FREE) \<and>
           (refs_of i \<noteq> 0 \<longrightarrow> owner_of i = PAGE_OWNER_USER))"

definition pmm_inv :: "'a pmm_scheme \<Rightarrow> bool" where
  "pmm_inv s \<longleftrightarrow>
     pmm_shape s \<and> 0 < n_pages s \<and> reserved (page_info s 0) \<and>
     (\<forall>p < n_pages s. page_ok (page_info s p))"

lemma pmm_inv_parts:
  "pmm_inv s \<Longrightarrow> pmm_shape s" "pmm_inv s \<Longrightarrow> 0 < n_pages s"
  "pmm_inv s \<Longrightarrow> reserved (page_info s 0)"
  "pmm_inv s \<Longrightarrow> p < n_pages s \<Longrightarrow> page_ok (page_info s p)"
  by (simp_all add: pmm_inv_def)

lemma pmm_inv_transfer:
  assumes "pmm_inv s" and "pmm_shape s'" and "same_env s s'"
    and "\<And>p. p < n_pages s \<Longrightarrow> page_ok (page_info s' p)"
    and "reserved (page_info s' 0)"
  shows "pmm_inv s'"
  using assms by (auto simp: pmm_inv_def same_env_def)

lemma valid_alloc_owner_ok:
  "valid_alloc_owner ow \<Longrightarrow>
   ow \<notin> {PAGE_OWNER_FREE, PAGE_OWNER_RESERVED, PAGE_OWNER_COUNT, PAGE_OWNER_ANY}"
  by (cases ow) (auto simp: valid_alloc_owner_def less_page_owner_def)

lemma valid_alloc_owner_simps [simp]:
  "valid_alloc_owner PAGE_OWNER_PAGE_TABLE" "valid_alloc_owner PAGE_OWNER_USER"
  "valid_alloc_owner PAGE_OWNER_HEAP" "valid_alloc_owner PAGE_OWNER_THREAD"
  "valid_alloc_owner PAGE_OWNER_PROCESS" "valid_alloc_owner PAGE_OWNER_TTY"
  by (simp_all add: valid_alloc_owner_def less_page_owner_def)

lemma pmm_inv_alloc:
  assumes inv: "pmm_inv s" and alloc: "alloc_pages_owned count ow s = (pa, s')"
  shows "pmm_inv s'"
proof (cases "pa = 0")
  case True
  with alloc have "s' = s \<or> s' = s\<lparr>pmm_fail_allocations := pmm_fail_allocations s - 1\<rparr>"
    using alloc_pages_owned_failure pmm_inv_parts(1,3) [OF inv] by blast
  with inv show ?thesis by (auto simp: pmm_inv_def shape_simps page_info_def)
next
  case False
  show ?thesis
  proof (rule alloc_pages_owned_success [OF pmm_inv_parts(1) [OF inv] pmm_inv_parts(3) [OF inv] alloc False])
    fix start
    assume run: "free_run s start count" and start: "0 < start" and ow: "valid_alloc_owner ow"
      and cells: "\<And>p. page_info s' p = (if start \<le> p \<and> p < start + count
        then page_info s p \<lparr>allocated := True, owner_of := ow, refs_of := 0\<rparr> else page_info s p)"
      and env: "same_env s s'" and shape: "pmm_shape s'"
    have free: "\<not> reserved (page_info s p)" if "start \<le> p" "p < start + count" for p
      using run that by (auto simp: free_run_def page_available_def)
    show ?thesis
    proof (rule pmm_inv_transfer [OF inv shape env])
      show "page_ok (page_info s' p)" if "p < n_pages s" for p
        using pmm_inv_parts(4) [OF inv that] free [of p] valid_alloc_owner_ok [OF ow]
        by (auto simp: cells page_ok_def)
      show "reserved (page_info s' 0)"
        using pmm_inv_parts(3) [OF inv] start by (simp add: cells)
    qed
  qed
qed

lemma pmm_inv_free:
  assumes inv: "pmm_inv s" and free: "free_pages_owned pa count ow s = (r, s')"
  shows "pmm_inv s'"
proof (cases "r = 0")
  case False
  then show ?thesis using inv free free_pages_owned_failure [of pa count ow s] by auto
next
  case True
  note eff = free_pages_owned_success [OF pmm_inv_parts(1) [OF inv] free [unfolded True]]
  show ?thesis
  proof (rule pmm_inv_transfer [OF inv eff(9,8)])
    show "page_ok (page_info s' p)" if "p < n_pages s" for p
      using pmm_inv_parts(4) [OF inv that] eff(6) [of p]
      by (auto simp: eff(7) page_ok_def free_refused_iff)
    show "reserved (page_info s' 0)"
      using pmm_inv_parts(3) [OF inv] by (simp add: eff(7))
  qed
qed

lemma pmm_inv_acquire:
  assumes inv: "pmm_inv s" and acq: "pmm_acquire_user_mapping pa s = (r, s')"
  shows "pmm_inv s'"
proof (cases "r = 0")
  case False
  then show ?thesis using inv acq acquire_failure [of pa s] by auto
next
  case True
  note eff = acquire_success [OF pmm_inv_parts(1) [OF inv] acq [unfolded True]]
  show ?thesis
  proof (rule pmm_inv_transfer [OF inv eff(5,4)])
    show "page_ok (page_info s' p)" if "p < n_pages s" for p
      using pmm_inv_parts(4) [OF inv that] eff(1)
      by (auto simp: eff(3) page_ok_def user_page_def split: if_splits)
    show "reserved (page_info s' 0)"
      using pmm_inv_parts(3) [OF inv] by (simp add: eff(3))
  qed
qed

lemma pmm_inv_release:
  assumes inv: "pmm_inv s" and rel: "pmm_release_user_mapping pa s = (r, s')"
  shows "pmm_inv s'"
proof (cases "r = 0")
  case False
  then show ?thesis
    using inv rel release_user_failure [OF pmm_inv_parts(1) [OF inv], of pa] by auto
next
  case True
  note eff = release_user_success [OF pmm_inv_parts(1) [OF inv] rel [unfolded True]]
  show ?thesis
  proof (rule pmm_inv_transfer [OF inv eff(5,4)])
    show "page_ok (page_info s' p)" if "p < n_pages s" for p
      using pmm_inv_parts(4) [OF inv that] eff(1)
      by (auto simp: eff(3) page_ok_def user_page_def last_reference_def split: if_splits)
    show "reserved (page_info s' 0)"
      using pmm_inv_parts(3) [OF inv] by (simp add: eff(3) last_reference_def)
  qed
qed

end
