(* ===== verification/Pmm_Boot.thy ===== *)
theory Pmm_Boot
  imports Pmm
begin

text \<open>
  Statistics and start-up of the physical memory manager (kernel/memory.c): the page counts
  that the kernel reports, the construction of the page tables of the manager from the E820
  map, and the extension of the direct map of physical memory.
\<close>

section \<open>Statistics\<close>

record pmm_stats =
  stat_free_pages :: nat
  stat_allocated_pages :: nat
  stat_reserved_pages :: nat
  stat_owner_pages :: "nat list"
  user_mapped_pages :: nat
  user_mapping_refs :: u64

definition zero_stats :: pmm_stats where
  "zero_stats = \<lparr>stat_free_pages = 0, stat_allocated_pages = 0, stat_reserved_pages = 0,
     stat_owner_pages = replicate (owner_code PAGE_OWNER_COUNT) 0,
     user_mapped_pages = 0, user_mapping_refs = 0\<rparr>"

definition stats_page :: "Bitmap \<Rightarrow> nat \<Rightarrow> pmm_stats \<Rightarrow> pmm_stats" where
  "stats_page b page st =
     (let st1 = (if reserved_bit page b \<noteq> 0 then st\<lparr>stat_reserved_pages := Suc (stat_reserved_pages st)\<rparr>
                 else if get_bit page b \<noteq> 0 then st\<lparr>stat_allocated_pages := Suc (stat_allocated_pages st)\<rparr>
                 else st\<lparr>stat_free_pages := Suc (stat_free_pages st)\<rparr>);
          ow = owners b ! page;
          st2 = (if ow < PAGE_OWNER_COUNT
                 then st1\<lparr>stat_owner_pages := (stat_owner_pages st1)
                            [owner_code ow := Suc (stat_owner_pages st1 ! owner_code ow)]\<rparr>
                 else st1)
      in if ow = PAGE_OWNER_USER \<and> refcounts b ! page \<noteq> 0
         then st2\<lparr>user_mapped_pages := Suc (user_mapped_pages st2),
                  user_mapping_refs := user_mapping_refs st2 + ucast (refcounts b ! page)\<rparr>
         else st2)"

definition pmm_get_stats :: "'a pmm_scheme \<Rightarrow> pmm_stats" where
  "pmm_get_stats s =
     (if \<not> pmm_ready s then zero_stats
      else fold (stats_page (phy_mem_map s)) [0..<page_count (phy_mem_map s)] zero_stats)"

definition get_free_page_count :: "'a pmm_scheme \<Rightarrow> nat" where
  "get_free_page_count s = stat_free_pages (pmm_get_stats s)"

section \<open>Start-up\<close>

record ARDS =
  base_addr :: u64
  ards_length :: u64
  ards_type :: u32

definition BOOT_KERNEL_PML4_PADDR :: u64 where "BOOT_KERNEL_PML4_PADDR = 0x70000"
definition MEMORY_BITMAP_PADDR :: u64 where "MEMORY_BITMAP_PADDR = 0x200000"
definition BOOT_RESERVED_END :: u64 where "BOOT_RESERVED_END = 0x200000"
definition DIRECT_MAP_MAX_PHYS :: u64 where "DIRECT_MAP_MAX_PHYS = 2 ^ 47"

definition set_reserved :: "nat \<Rightarrow> 'a pmm_scheme \<Rightarrow> 'a pmm_scheme" where
  "set_reserved page s =
     (let b = set_bit page 1 (phy_mem_map s);
          b1 = (if owners b \<noteq> [] then b\<lparr>owners := (owners b)[page := PAGE_OWNER_RESERVED]\<rparr> else b);
          b2 = (if reserved_bits b1 \<noteq> []
                then b1\<lparr>reserved_bits := (reserved_bits b1)
                         [page div 8 := reserved_bits b1 ! (page div 8) OR push_bit (page mod 8) 1]\<rparr>
                else b1)
      in s\<lparr>phy_mem_map := b2\<rparr>)"

definition reserve_physical_range :: "u64 \<Rightarrow> u64 \<Rightarrow> 'a pmm_scheme \<Rightarrow> 'a pmm_scheme" where
  "reserve_physical_range start end s =
     (if start \<ge> end \<or> start \<ge> managed_end_paddr s then s
      else let end' = (if end > managed_end_paddr s then managed_end_paddr s else end);
               first_page = unat (start div 4096);
               last_page = unat ((end' + 4096 - 1) div 4096)
           in fold set_reserved [first_page..<last_page] s)"

definition unreserve_page :: "nat \<Rightarrow> 'a pmm_scheme \<Rightarrow> 'a pmm_scheme" where
  "unreserve_page page s =
     (let b = phy_mem_map s in
      if page < page_count b
      then s\<lparr>phy_mem_map := b\<lparr>reserved_bits := (reserved_bits b)
               [page div 8 := reserved_bits b ! (page div 8) AND NOT (push_bit (page mod 8) 1)],
             owners := (owners b)[page := PAGE_OWNER_FREE]\<rparr>\<rparr>
      else s)"

text \<open>The loops of \<^verbatim>\<open>build_kernel_direct_map\<close>, from the innermost outwards.\<close>

definition direct_map_pd :: "u64 \<Rightarrow> u64 \<Rightarrow> u64 \<Rightarrow> 'a pmm_scheme \<Rightarrow> 'a pmm_scheme" where
  "direct_map_pd pd phys_base mapped_end s =
     snd (for_loop
       (\<lambda>pd_index s.
          let page_phys = phys_base + of_nat pd_index * 2 ^ 21 in
          if page_phys \<ge> mapped_end then (Break, s)
          else if tbl s pd pd_index AND PTE_P = 0
          then (Continue, set_tbl pd pd_index (page_phys OR PTE_P OR PTE_RW OR PTE_PS) s)
          else (Continue, s)) [0..<512] s)"

definition direct_map_pdpt ::
    "u64 \<Rightarrow> nat \<Rightarrow> u64 \<Rightarrow> nat \<Rightarrow> 'a pmm_scheme \<Rightarrow> loop_ctl \<times> 'a pmm_scheme" where
  "direct_map_pdpt pdpt pml4_index mapped_end pdpt_index s =
     (let phys_base = (of_nat (pml4_index - PML4_INDEX PAGE_OFFSET) * 512 + of_nat pdpt_index) * 2 ^ 30 in
      if phys_base \<ge> mapped_end then (Break, s)
      else if tbl s pdpt pdpt_index AND PTE_P = 0 then
        (case alloc_page_owned PAGE_OWNER_PAGE_TABLE s of (pd_paddr, s1) \<Rightarrow>
           if pd_paddr = 0 then (Return, s1)
           else let s2 = set_tbl pdpt pdpt_index (pd_paddr OR PTE_P OR PTE_RW) (zero_frame pd_paddr s1)
                in (Continue, direct_map_pd (tbl s2 pdpt pdpt_index AND PTE_ADDR_MASK) phys_base mapped_end s2))
      else (Continue, direct_map_pd (tbl s pdpt pdpt_index AND PTE_ADDR_MASK) phys_base mapped_end s))"

definition direct_map_fill ::
    "u64 \<Rightarrow> nat \<Rightarrow> 'a pmm_scheme \<Rightarrow> loop_ctl \<times> 'a pmm_scheme" where
  "direct_map_fill mapped_end pml4_index s =
     (case for_loop
             (direct_map_pdpt (tbl s BOOT_KERNEL_PML4_PADDR pml4_index AND PTE_ADDR_MASK)
                pml4_index mapped_end) [0..<512] s of
        (Return, s') \<Rightarrow> (Return, s')
      | (_, s') \<Rightarrow> (Continue, s'))"

definition direct_map_pml4 ::
    "u64 \<Rightarrow> nat \<Rightarrow> 'a pmm_scheme \<Rightarrow> loop_ctl \<times> 'a pmm_scheme" where
  "direct_map_pml4 mapped_end pml4_index s =
     (if tbl s BOOT_KERNEL_PML4_PADDR pml4_index AND PTE_P = 0 then
        (case alloc_page_owned PAGE_OWNER_PAGE_TABLE s of (pdpt_paddr, s1) \<Rightarrow>
           if pdpt_paddr = 0 then (Return, s1)
           else direct_map_fill mapped_end pml4_index
                  (set_tbl BOOT_KERNEL_PML4_PADDR pml4_index (pdpt_paddr OR PTE_P OR PTE_RW)
                     (zero_frame pdpt_paddr s1)))
      else direct_map_fill mapped_end pml4_index s)"

definition build_kernel_direct_map :: "u64 \<Rightarrow> 'a pmm_scheme \<Rightarrow> int \<times> 'a pmm_scheme" where
  "build_kernel_direct_map max_phys_addr s =
     (let mapped_end = (max_phys_addr + 2 ^ 21 - 1) AND NOT (2 ^ 21 - 1);
          max_pml4_index = PML4_INDEX (PAGE_OFFSET + mapped_end - 1) in
      if max_phys_addr = 0 \<or> max_phys_addr > DIRECT_MAP_MAX_PHYS \<or> max_pml4_index \<ge> 512
      then (-1, s)
      else case for_loop (direct_map_pml4 mapped_end)
                  [PML4_INDEX PAGE_OFFSET ..< Suc max_pml4_index] s of
             (Return, s') \<Rightarrow> (-1, s')
           | (_, s') \<Rightarrow> (0, s'))"

text \<open>\<^verbatim>\<open>init_phy_mem_map\<close>: the E820 records that the loader stored are the argument.\<close>

definition ards_in_range :: "ARDS \<Rightarrow> bool" where
  "ards_in_range e \<longleftrightarrow> ards_length e \<le> - 1 - base_addr e"

definition higher_end :: "ARDS \<Rightarrow> u64 \<Rightarrow> u64" where
  "higher_end e m =
     (if ards_type e = 1 \<and> ards_in_range e
      then let current_end = base_addr e + ards_length e
           in if current_end > m then current_end else m
      else m)"

definition highest_usable :: "ARDS list \<Rightarrow> u64" where
  "highest_usable ards = fold higher_end ards 0"

definition release_usable :: "ARDS \<Rightarrow> 'a pmm_scheme \<Rightarrow> 'a pmm_scheme" where
  "release_usable e s =
     (if ards_type e \<noteq> 1 then s
      else if \<not> ards_in_range e then s
      else fold unreserve_page
             [unat ((base_addr e + 4095) div 4096) ..< unat ((base_addr e + ards_length e) div 4096)] s)"

definition reserve_unusable :: "ARDS \<Rightarrow> 'a pmm_scheme \<Rightarrow> 'a pmm_scheme" where
  "reserve_unusable e s =
     (if ards_type e = 1 \<or> \<not> ards_in_range e then s
      else reserve_physical_range (base_addr e) (base_addr e + ards_length e) s)"

definition init_tables :: "nat \<Rightarrow> nat \<Rightarrow> Bitmap" where
  "init_tables pages bytes =
     \<lparr>bits = replicate bytes 0, reserved_bits = replicate bytes 0xFF,
      owners = replicate pages PAGE_OWNER_RESERVED, refcounts = replicate pages 0,
      page_count = pages, bmap_bytes = bytes\<rparr>"

text \<open>The two passes over the records and the areas that start-up keeps for itself.\<close>

definition mark_ranges :: "ARDS list \<Rightarrow> u64 \<Rightarrow> 'a pmm_scheme \<Rightarrow> 'a pmm_scheme" where
  "mark_ranges ards metadata_bytes s =
     (let s3 = fold release_usable ards s;
          s4 = fold reserve_unusable ards s3;
          s5 = reserve_physical_range 0 BOOT_RESERVED_END s4
      in reserve_physical_range MEMORY_BITMAP_PADDR (MEMORY_BITMAP_PADDR + metadata_bytes) s5)"

definition page_round_up :: "u64 \<Rightarrow> u64" where
  "page_round_up a = (a + 4096 - 1) AND NOT (4096 - 1)"

definition metadata_size :: "nat \<Rightarrow> nat" where
  "metadata_size pages = 2 * ((pages + 7) div 8) + pages + pages * 4"

definition init_phy_mem_map :: "ARDS list \<Rightarrow> 'a pmm_scheme \<Rightarrow> int \<times> 'a pmm_scheme" where
  "init_phy_mem_map ards s =
     (let s0 = s\<lparr>pmm_ready := False, pmm_fail_allocations := 0\<rparr>;
          max_phy_addr = highest_usable ards in
      if max_phy_addr = 0 \<or> max_phy_addr > DIRECT_MAP_MAX_PHYS then (-1, s0)
      else
        let managed_end = page_round_up max_phy_addr;
            pages = unat (managed_end div 4096);
            bytes = (pages + 7) div 8;
            s1 = s0\<lparr>managed_end_paddr := managed_end,
                    phy_mem_map := (phy_mem_map s0)\<lparr>page_count := pages, bmap_bytes := bytes\<rparr>\<rparr> in
        if MEMORY_BITMAP_PADDR > managed_end \<or>
           metadata_size pages > unat (managed_end - MEMORY_BITMAP_PADDR) then (-1, s1)
        else
          let s2 = s1\<lparr>phy_mem_map := init_tables pages bytes\<rparr>;
              s6 = mark_ranges ards (of_nat (metadata_size pages)) s2;
              s7 = s6\<lparr>pmm_ready := True\<rparr> in
          case build_kernel_direct_map managed_end s7 of (r, s8) \<Rightarrow>
            if r \<noteq> 0 then (-1, s8\<lparr>pmm_ready := False\<rparr>) else (0, s8))"

section \<open>The statistics count every page once\<close>

lemma stats_page_free [simp]:
  "stat_free_pages (stats_page b p st) = stat_free_pages st +
     (if reserved_bit p b = 0 \<and> get_bit p b = 0 then 1 else 0)"
  "stat_reserved_pages (stats_page b p st) = stat_reserved_pages st +
     (if reserved_bit p b \<noteq> 0 then 1 else 0)"
  "stat_allocated_pages (stats_page b p st) = stat_allocated_pages st +
     (if reserved_bit p b = 0 \<and> get_bit p b \<noteq> 0 then 1 else 0)"
  by (simp_all add: stats_page_def Let_def)

lemma fold_stats_page:
  "stat_free_pages (fold (stats_page b) ps st) = stat_free_pages st +
     length (filter (\<lambda>p. reserved_bit p b = 0 \<and> get_bit p b = 0) ps)"
  "stat_reserved_pages (fold (stats_page b) ps st) = stat_reserved_pages st +
     length (filter (\<lambda>p. reserved_bit p b \<noteq> 0) ps)"
  "stat_allocated_pages (fold (stats_page b) ps st) = stat_allocated_pages st +
     length (filter (\<lambda>p. reserved_bit p b = 0 \<and> get_bit p b \<noteq> 0) ps)"
  by (induction ps arbitrary: st) simp_all

lemma length_filter_upt: "length (filter P [0..<n]) = card {p. p < n \<and> P p}"
proof -
  have "length (filter P [0..<n]) = card (set (filter P [0..<n]))"
    by (rule distinct_card [symmetric]) simp
  also have "set (filter P [0..<n]) = {p. p < n \<and> P p}" by auto
  finally show ?thesis .
qed

definition free_page_set :: "'a pmm_scheme \<Rightarrow> nat set" where
  "free_page_set s = {p. p < n_pages s \<and> \<not> reserved (page_info s p) \<and> \<not> allocated (page_info s p)}"

lemma get_free_page_count_card:
  "pmm_ready s \<Longrightarrow> get_free_page_count s = card (free_page_set s)"
  by (simp add: get_free_page_count_def pmm_get_stats_def fold_stats_page length_filter_upt
      zero_stats_def free_page_set_def page_info_def)

lemma stats_total:
  assumes "pmm_ready s"
  shows "stat_free_pages (pmm_get_stats s) + stat_allocated_pages (pmm_get_stats s) +
    stat_reserved_pages (pmm_get_stats s) = n_pages s"
proof -
  have "length (filter (\<lambda>p. reserved_bit p b = 0 \<and> get_bit p b = 0) ps) +
    length (filter (\<lambda>p. reserved_bit p b = 0 \<and> get_bit p b \<noteq> 0) ps) +
    length (filter (\<lambda>p. reserved_bit p b \<noteq> 0) ps) = length ps" for b ps
    by (induction ps) auto
  from this [of "phy_mem_map s" "[0..<n_pages s]"] assms show ?thesis
    by (simp add: pmm_get_stats_def fold_stats_page zero_stats_def)
qed

lemma free_page_set_finite [simp]: "finite (free_page_set s)"
  by (simp add: free_page_set_def)

lemma free_count_alloc:
  assumes inv: "pmm_inv s" and alloc: "alloc_pages_owned count ow s = (pa, s')" and pa: "pa \<noteq> 0"
  shows "get_free_page_count s = get_free_page_count s' + count"
proof (rule alloc_pages_owned_success [OF pmm_inv_parts(1) [OF inv] pmm_inv_parts(3) [OF inv] alloc pa])
  fix start
  assume run: "free_run s start count" and env: "same_env s s'" and ready: "pmm_ready s"
    and cells: "\<And>p. page_info s' p = (if start \<le> p \<and> p < start + count
        then page_info s p \<lparr>allocated := True, owner_of := ow, refs_of := 0\<rparr> else page_info s p)"
  have "{start..<start + count} \<subseteq> free_page_set s"
    using run by (auto simp: free_run_def free_page_set_def page_available_def)
  moreover have "free_page_set s' = free_page_set s - {start..<start + count}"
    using env by (auto simp: free_page_set_def cells same_env_def)
  ultimately have "card (free_page_set s') + count = card (free_page_set s)"
    by (simp add: card_Diff_subset card_mono)
      (metis add.commute atLeastLessThan_upt card_atLeastLessThan card_mono
        diff_add_inverse free_page_set_finite le_add_diff_inverse2)
  with ready env show ?thesis
    by (simp add: get_free_page_count_card same_env_def)
qed

lemma free_count_free:
  assumes inv: "pmm_inv s" and free: "free_pages_owned pa count ow s = (0, s')"
  shows "get_free_page_count s' = get_free_page_count s + count"
proof -
  note eff = free_pages_owned_success [OF pmm_inv_parts(1) [OF inv] free]
  let ?R = "{pfn pa..<pfn pa + count}"
  have "free_page_set s \<inter> ?R = {}"
    using eff(6) by (auto simp: free_page_set_def free_refused_iff)
  moreover have "free_page_set s' = free_page_set s \<union> ?R"
    using eff(1,6,8) by (auto simp: free_page_set_def eff(7) same_env_def free_refused_iff)
  ultimately have "card (free_page_set s') = card (free_page_set s) + count"
    by (simp add: card_Un_disjoint)
  with eff(5,8) show ?thesis
    by (simp add: get_free_page_count_card same_env_def)
qed

section \<open>Reserving and releasing ranges\<close>


lemma round_up_page_unat:
  assumes "unat (a :: u64) + 4095 < 2 ^ 64"
  shows "unat (page_round_up a) = (unat a + 4095) div 4096 * 4096"
proof -
  have "unat (a + 4095) = unat a + 4095"
    using assms by (simp add: unat_word_ariths)
  then show ?thesis
    using and_not_mask_unat [of "a + 4095" 12] by (simp add: page_round_up_def mask_eq_exp_minus_1 add.commute)
qed

lemma reserved_bit_nz: "reserved_bit i b \<noteq> 0 \<longleftrightarrow> bit (reserved_bits b ! (i div 8)) (i mod 8)"
  by (simp add: reserved_bit_def drop_bit_and_1)

lemma get_bit_reserved_bits [simp]: "get_bit j (b\<lparr>reserved_bits := x\<rparr>) = get_bit j b"
  by (simp add: get_bit_def)

interpretation res: cell_table
  page_info set_reserved "\<lambda>c. c\<lparr>allocated := True, reserved := True, owner_of := PAGE_OWNER_RESERVED\<rparr>"
  n_pages pmm_shape
proof
  fix s :: "'a pmm_scheme" and i j
  assume *: "pmm_shape s" "i < n_pages s"
  then have ne: "owners (phy_mem_map s) \<noteq> []" "reserved_bits (phy_mem_map s) \<noteq> []"
    by (auto simp: shape_simps)
  from * ne show "page_info (set_reserved i s) j =
      (if j = i then page_info s i\<lparr>allocated := True, reserved := True, owner_of := PAGE_OWNER_RESERVED\<rparr>
       else page_info s j)"
    by (auto simp: page_info_def set_reserved_def shape_simps cell_simps reserved_bit_nz nth_or_bit)
  from * ne show "n_pages (set_reserved i s) = n_pages s" "pmm_shape (set_reserved i s)"
    by (auto simp: set_reserved_def shape_simps)
qed

interpretation unres: cell_table
  page_info unreserve_page "\<lambda>c. c\<lparr>reserved := False, owner_of := PAGE_OWNER_FREE\<rparr>"
  n_pages pmm_shape
  by unfold_locales
    (auto simp: page_info_def unreserve_page_def shape_simps reserved_bit_nz nth_and_not_bit)

lemma unat_add_ards:
  assumes "ards_in_range e"
  shows "unat (base_addr e + ards_length e) = unat (base_addr e) + unat (ards_length e)"
proof -
  have "unat (- 1 - base_addr e) = 2 ^ 64 - 1 - unat (base_addr e)"
    by (simp add: unat_minus_1_u64 unat_sub)
  with assms have "unat (base_addr e) + unat (ards_length e) < 2 ^ 64"
    using unat_u64_less [of "base_addr e"] by (auto simp: ards_in_range_def word_le_nat_alt)
  then show ?thesis by (simp add: unat_word_ariths)
qed

lemma higher_end_ge: "m \<le> higher_end e m"
  "ards_type e = 1 \<Longrightarrow> ards_in_range e \<Longrightarrow> base_addr e + ards_length e \<le> higher_end e m"
  by (auto simp: higher_end_def Let_def)

lemma fold_higher_end_ge: "m \<le> fold higher_end ards m"
  by (induction ards arbitrary: m) (auto intro: order_trans [OF higher_end_ge(1)])

lemma highest_usable_ge:
  assumes "e \<in> set ards" and "ards_type e = 1" and "ards_in_range e"
  shows "base_addr e + ards_length e \<le> highest_usable ards"
proof -
  have "base_addr e + ards_length e \<le> fold higher_end ards m" for m
    using assms(1)
  proof (induction ards arbitrary: m)
    case (Cons a ards)
    then show ?case
      using order_trans [OF higher_end_ge(2) [OF assms(2,3)] fold_higher_end_ge] by auto
  qed simp
  then show ?thesis by (simp add: highest_usable_def)
qed

text \<open>What start-up has established of one page before the allocator runs.\<close>

definition covers :: "ARDS \<Rightarrow> nat \<Rightarrow> bool" where
  "covers e p \<longleftrightarrow> ards_type e = 1 \<and> unat (base_addr e) \<le> p * 4096 \<and>
     p * 4096 + 4096 \<le> unat (base_addr e) + unat (ards_length e)"

definition boot_page :: "(nat \<Rightarrow> bool) \<Rightarrow> ARDS list \<Rightarrow> 'a pmm_scheme \<Rightarrow> nat \<Rightarrow> bool" where
  "boot_page ok ards s p \<longleftrightarrow> refs_of (page_info s p) = 0 \<and>
     (if reserved (page_info s p) then owner_of (page_info s p) = PAGE_OWNER_RESERVED
      else owner_of (page_info s p) = PAGE_OWNER_FREE \<and> \<not> allocated (page_info s p) \<and>
           (\<exists>e \<in> set ards. covers e p) \<and> ok p)"

lemma fold_unreserve_filter:
  "fold unreserve_page ps s = fold unreserve_page (filter (\<lambda>p. p < n_pages s) ps) s"
proof (induction ps arbitrary: s)
  case (Cons q ps)
  have "n_pages (unreserve_page q s) = n_pages s"
    by (simp add: unreserve_page_def Let_def)
  moreover have "unreserve_page q s = s" if "\<not> q < n_pages s"
    using that by (simp add: unreserve_page_def Let_def)
  ultimately show ?case using Cons [of "unreserve_page q s"] by (cases "q < n_pages s") simp_all
qed simp

lemma same_env_unreserve: "same_env s (unreserve_page p s)"
  by (simp add: same_env_def unreserve_page_def Let_def)

lemma same_env_set_reserved: "same_env s (set_reserved p s)"
  by (simp add: same_env_def set_reserved_def Let_def)

lemma release_usable_effect:
  assumes shape: "pmm_shape s" and max: "ards_type e = 1 \<Longrightarrow> ards_in_range e \<Longrightarrow>
      unat (base_addr e) + unat (ards_length e) \<le> 2 ^ 47"
  shows "pmm_shape (release_usable e s)" and "same_env s (release_usable e s)"
    and "page_info (release_usable e s) p = page_info s p \<or> covers e p \<and>
      page_info (release_usable e s) p =
        page_info s p \<lparr>reserved := False, owner_of := PAGE_OWNER_FREE\<rparr>"
proof -
  let ?ps = "[unat ((base_addr e + 4095) div 4096) ..< unat ((base_addr e + ards_length e) div 4096)]"
  let ?qs = "filter (\<lambda>p. p < n_pages s) ?ps"
  show "same_env s (release_usable e s)"
    by (auto simp: release_usable_def intro: fold_same_env same_env_unreserve)
  have "pmm_shape (fold unreserve_page ?qs s)"
    using shape unres.upd_list [of s ?qs] by auto
  then show "pmm_shape (release_usable e s)"
    using shape by (auto simp: release_usable_def fold_unreserve_filter [of ?ps s])
  show "page_info (release_usable e s) p = page_info s p \<or> covers e p \<and>
      page_info (release_usable e s) p =
        page_info s p \<lparr>reserved := False, owner_of := PAGE_OWNER_FREE\<rparr>"
  proof (cases "ards_type e = 1 \<and> ards_in_range e")
    case True
    have fit: "unat (base_addr e) + unat (ards_length e) \<le> 2 ^ 47" using True max by blast
    have cell: "page_info (fold unreserve_page ?qs s) p = (if p \<in> set ?qs
        then page_info s p \<lparr>reserved := False, owner_of := PAGE_OWNER_FREE\<rparr> else page_info s p)"
      using shape by (intro unres.cell_list) auto
    have "covers e p" if "p \<in> set ?qs"
    proof -
      have "(unat (base_addr e) + 4095) div 4096 \<le> p"
        "p < (unat (base_addr e) + unat (ards_length e)) div 4096"
        using that True fit by (auto simp: unat_div_page unat_add_4095 unat_add_ards)
      then show ?thesis using True by (auto simp: covers_def)
    qed
    with cell True show ?thesis
      by (auto simp: release_usable_def fold_unreserve_filter [of ?ps s])
  qed (auto simp: release_usable_def)
qed

definition managed_shape :: "'a pmm_scheme \<Rightarrow> bool" where
  "managed_shape s \<longleftrightarrow> pmm_shape s \<and> unat (managed_end_paddr s) = n_pages s * 4096"

lemma managed_shape_env: "managed_shape s \<Longrightarrow> pmm_shape s' \<Longrightarrow> same_env s s' \<Longrightarrow> managed_shape s'"
  by (simp add: managed_shape_def same_env_def)

text \<open>A page overlaps the byte range \<open>a..<b\<close>.\<close>

definition overlaps :: "nat \<Rightarrow> nat \<Rightarrow> nat \<Rightarrow> bool" where
  "overlaps p a b \<longleftrightarrow> a < p * 4096 + 4096 \<and> p * 4096 < b \<and> a < b"

lemma reserve_range_effect:
  assumes "managed_shape s"
  shows "managed_shape (reserve_physical_range a b s)"
    and "same_env s (reserve_physical_range a b s)"
    and "p < n_pages s \<Longrightarrow> page_info (reserve_physical_range a b s) p =
      (if overlaps p (unat a) (unat b)
       then page_info s p \<lparr>allocated := True, reserved := True, owner_of := PAGE_OWNER_RESERVED\<rparr>
       else page_info s p)"
proof -
  let ?b = "if b > managed_end_paddr s then managed_end_paddr s else b"
  let ?ps = "[unat (a div 4096) ..< unat ((?b + 4096 - 1) div 4096)]"
  have shape: "pmm_shape s" and me: "unat (managed_end_paddr s) = n_pages s * 4096"
    and small: "n_pages s \<le> 2 ^ 35"
    using assms by (auto simp: managed_shape_def shape_simps)
  have b_le: "unat ?b \<le> n_pages s * 4096"
    using me by (auto simp: word_less_nat_alt)
  have last: "unat ((?b + 4096 - 1) div 4096) = (unat ?b + 4095) div 4096"
  proof -
    have "unat ?b + 4095 < 2 ^ 64"
      using order_trans [OF b_le mult_le_mono1 [OF small, of 4096]] by simp
    then have "unat (?b + 4095) = unat ?b + 4095" by (rule unat_add_4095)
    then show ?thesis by (simp add: unat_div_page add.commute)
  qed
  have ps: "set ?ps = {unat a div 4096 ..< (unat ?b + 4095) div 4096}"
    by (simp only: set_upt last) (simp only: unat_div_page)
  have inb: "q < n_pages s" if "q \<in> set ?ps" for q
    using that b_le unfolding ps by auto
  show env: "same_env s (reserve_physical_range a b s)"
    by (auto simp: reserve_physical_range_def Let_def intro: fold_same_env same_env_set_reserved)
  have "pmm_shape (fold set_reserved ?ps s)"
    using res.upd_list [OF shape inb] by blast
  then have "pmm_shape (reserve_physical_range a b s)"
    using shape by (simp add: reserve_physical_range_def Let_def)
  with env assms show "managed_shape (reserve_physical_range a b s)"
    by (blast intro: managed_shape_env)
  assume p: "p < n_pages s"
  show "page_info (reserve_physical_range a b s) p =
      (if overlaps p (unat a) (unat b)
       then page_info s p \<lparr>allocated := True, reserved := True, owner_of := PAGE_OWNER_RESERVED\<rparr>
       else page_info s p)"
  proof (cases "a \<ge> b \<or> a \<ge> managed_end_paddr s")
    case True
    then have "\<not> overlaps p (unat a) (unat b)"
      using p me by (auto simp: overlaps_def word_le_nat_alt)
    with True show ?thesis by (auto simp: reserve_physical_range_def)
  next
    case False
    then have "p \<in> set ?ps \<longleftrightarrow> overlaps p (unat a) (unat b)"
      using p me unfolding ps
      by (auto simp: overlaps_def word_le_nat_alt word_less_nat_alt not_le)
    moreover have "page_info (fold set_reserved ?ps s) p = (if p \<in> set ?ps
       then page_info s p \<lparr>allocated := True, reserved := True, owner_of := PAGE_OWNER_RESERVED\<rparr>
       else page_info s p)"
      using shape inb by (intro res.cell_list) auto
    ultimately show ?thesis using False by (simp add: reserve_physical_range_def Let_def)
  qed
qed

section \<open>The direct map takes pages from the allocator only\<close>

text \<open>What building page tables does to the accounting: no page becomes available and none
  changes hands except free pages that become page tables.\<close>

definition only_tables :: "'a pmm_scheme \<Rightarrow> 'a pmm_scheme \<Rightarrow> bool" where
  "only_tables s s' \<longleftrightarrow> pmm_inv s' \<and> same_env s s' \<and>
     (\<forall>p. reserved (page_info s' p) = reserved (page_info s p) \<and>
          (page_available s' p \<longrightarrow> page_available s p))"

lemma only_tables_refl: "pmm_inv s \<Longrightarrow> only_tables s s"
  by (simp add: only_tables_def)

lemma only_tables_trans: "only_tables s t \<Longrightarrow> only_tables t u \<Longrightarrow> only_tables s u"
  by (auto simp: only_tables_def intro: same_env_trans)

lemma page_info_frames:
  "allocated (page_info (s\<lparr>frames := f\<rparr>) p) = allocated (page_info s p)"
  "reserved (page_info (s\<lparr>frames := f\<rparr>) p) = reserved (page_info s p)"
  "owner_of (page_info (s\<lparr>frames := f\<rparr>) p) = owner_of (page_info s p)"
  "refs_of (page_info (s\<lparr>frames := f\<rparr>) p) = refs_of (page_info s p)"
  by (simp_all add: page_info_def)

lemma page_ok_frames: "page_ok (page_info (s\<lparr>frames := f\<rparr>) p) = page_ok (page_info s p)"
  by (simp add: page_ok_def page_info_frames)

lemma only_tables_frames: "pmm_inv s \<Longrightarrow> only_tables s (s\<lparr>frames := f\<rparr>)"
  by (simp add: only_tables_def pmm_inv_def shape_simps same_env_def page_ok_frames
      page_info_frames page_available_def live_thread_owns_page_def)

lemma only_tables_set_tbl: "only_tables s t \<Longrightarrow> only_tables s (set_tbl a i v t)"
  "only_tables s t \<Longrightarrow> only_tables s (zero_frame a t)"
  using only_tables_trans only_tables_frames unfolding only_tables_def set_tbl_def zero_frame_def
  by blast+


lemma only_tables_alloc:
  assumes st: "only_tables s t" and alloc: "alloc_page_owned PAGE_OWNER_PAGE_TABLE t = (pa, t')"
  shows "only_tables s t'"
proof -
  have inv: "pmm_inv t" using st by (simp add: only_tables_def)
  have alloc': "alloc_pages_owned 1 PAGE_OWNER_PAGE_TABLE t = (pa, t')"
    using alloc by (simp add: alloc_page_owned_def)
  have "only_tables t t'"
  proof (cases "pa = 0")
    case True
    then have "t' = t \<or> t' = t\<lparr>pmm_fail_allocations := pmm_fail_allocations t - 1\<rparr>"
      using alloc' alloc_pages_owned_failure pmm_inv_parts(1) [OF inv] pmm_inv_parts(3) [OF inv]
      by blast
    then show ?thesis
      using pmm_inv_alloc [OF inv alloc']
      by (auto simp: only_tables_def same_env_def page_info_def page_available_def
          live_thread_owns_page_def)
  next
    case False
    show ?thesis
    proof (rule alloc_pages_owned_success
        [OF pmm_inv_parts(1) [OF inv] pmm_inv_parts(3) [OF inv] alloc' False])
      fix start
      assume run: "free_run t start 1" and env: "same_env t t'"
        and cells: "\<And>p. page_info t' p = (if start \<le> p \<and> p < start + 1 then page_info t p
          \<lparr>allocated := True, owner_of := PAGE_OWNER_PAGE_TABLE, refs_of := 0\<rparr> else page_info t p)"
      show ?thesis
        using pmm_inv_alloc [OF inv alloc'] env same_env_live [OF env]
        by (auto simp: only_tables_def cells page_available_def)
    qed
  qed
  with st show ?thesis by (rule only_tables_trans)
qed

lemmas only_tables_intros = only_tables_set_tbl only_tables_alloc

lemma only_tables_pd: "only_tables s t \<Longrightarrow> only_tables s (direct_map_pd pd base me t)"
  unfolding direct_map_pd_def
  by (rule for_loop_invariant) (auto simp: Let_def intro: only_tables_intros)

lemma only_tables_pdpt:
  assumes "only_tables s t"
  shows "only_tables s (snd (direct_map_pdpt pdpt i me j t))"
proof -
  obtain pa t1 where alloc: "alloc_page_owned PAGE_OWNER_PAGE_TABLE t = (pa, t1)"
    by fastforce
  note t1 = only_tables_alloc [OF assms alloc]
  then show ?thesis
    using assms
    by (auto simp: direct_map_pdpt_def Let_def alloc intro!: only_tables_pd only_tables_set_tbl)
qed

lemma only_tables_fill:
  assumes "only_tables s t"
  shows "only_tables s (snd (direct_map_fill me i t))"
proof -
  let ?body = "direct_map_pdpt (tbl t BOOT_KERNEL_PML4_PADDR i AND PTE_ADDR_MASK) i me"
  obtain c u where loop: "for_loop ?body [0..<512] t = (c, u)"
    by (meson surj_pair)
  have "only_tables s (snd (for_loop ?body [0..<512] t))"
    by (rule for_loop_invariant [OF assms only_tables_pdpt])
  with loop show ?thesis by (cases c) (simp_all only: direct_map_fill_def loop snd_conv prod.case loop_ctl.case)
qed

lemma only_tables_pml4:
  assumes "only_tables s t"
  shows "only_tables s (snd (direct_map_pml4 me i t))"
proof -
  obtain pa t1 where alloc: "alloc_page_owned PAGE_OWNER_PAGE_TABLE t = (pa, t1)"
    by fastforce
  note t1 = only_tables_alloc [OF assms alloc]
  then show ?thesis
    using assms
    by (auto simp: direct_map_pml4_def alloc intro!: only_tables_fill only_tables_set_tbl)
qed

lemma only_tables_direct_map:
  assumes "pmm_inv s"
  shows "only_tables s (snd (build_kernel_direct_map m s))"
proof -
  let ?me = "(m + 2 ^ 21 - 1) AND NOT (2 ^ 21 - 1)"
  let ?is = "[PML4_INDEX PAGE_OFFSET ..< Suc (PML4_INDEX (PAGE_OFFSET + ?me - 1))]"
  obtain c u where loop: "for_loop (direct_map_pml4 ?me) ?is s = (c, u)"
    by (meson surj_pair)
  have "only_tables s (snd (for_loop (direct_map_pml4 ?me) ?is s))"
    by (rule for_loop_invariant [where P = "only_tables s", OF only_tables_refl [OF assms] only_tables_pml4])
  with loop have "only_tables s u" by simp
  with only_tables_refl [OF assms] show ?thesis
    unfolding build_kernel_direct_map_def Let_def loop
    by (cases c) (simp_all only: snd_conv prod.case loop_ctl.case split: if_split, simp_all)
qed

section \<open>The tables that start-up leaves\<close>

lemma boot_page_release:
  assumes "boot_page ok ards s p" and "e \<in> set ards" and "ok p"
    and "allocated (page_info s p) = False"
    and "page_info s' p = page_info s p \<or> covers e p \<and>
      page_info s' p = page_info s p \<lparr>reserved := False, owner_of := PAGE_OWNER_FREE\<rparr>"
  shows "boot_page ok ards s' p \<and> \<not> allocated (page_info s' p)"
  using assms by (auto simp: boot_page_def)

lemma fold_release_usable:
  assumes "pmm_shape s" and "set es \<subseteq> set ards"
    and "\<And>e. e \<in> set ards \<Longrightarrow> ards_type e = 1 \<Longrightarrow> ards_in_range e \<Longrightarrow>
      unat (base_addr e) + unat (ards_length e) \<le> 2 ^ 47"
    and "\<And>p. p < n_pages s \<Longrightarrow> boot_page (\<lambda>_. True) ards s p \<and> \<not> allocated (page_info s p)"
  shows "pmm_shape (fold release_usable es s) \<and> same_env s (fold release_usable es s) \<and>
    (\<forall>p < n_pages s. boot_page (\<lambda>_. True) ards (fold release_usable es s) p)"
  using assms(1,2,4)
proof (induction es arbitrary: s)
  case (Cons e es)
  let ?t = "release_usable e s"
  have e: "e \<in> set ards" using Cons.prems(2) by simp
  note eff = release_usable_effect [OF Cons.prems(1) assms(3) [OF e]]
  have n: "n_pages ?t = n_pages s" using eff(2) by (simp add: same_env_def)
  have "boot_page (\<lambda>_. True) ards ?t p \<and> \<not> allocated (page_info ?t p)" if "p < n_pages ?t" for p
    using boot_page_release [OF _ e _ _ eff(3), where ok = "\<lambda>_. True"] Cons.prems(3) that n by simp
  then show ?case
    using Cons.IH [OF eff(1)] Cons.prems(2) eff(2) n by (auto intro: same_env_trans)
qed simp

text \<open>One more reserved range makes the guarantee of the free pages stronger.\<close>

lemma boot_page_reserve:
  assumes "managed_shape s" and "p < n_pages s" and "boot_page ok ards s p"
  shows "boot_page (\<lambda>p. ok p \<and> \<not> overlaps p (unat a) (unat b)) ards
           (reserve_physical_range a b s) p"
  using assms reserve_range_effect(3) [OF assms(1,2), of a b] by (auto simp: boot_page_def)

definition clear_of :: "ARDS list \<Rightarrow> nat \<Rightarrow> bool" where
  "clear_of es p \<longleftrightarrow> (\<forall>e \<in> set es. ards_type e \<noteq> 1 \<longrightarrow> ards_in_range e \<longrightarrow>
     \<not> overlaps p (unat (base_addr e)) (unat (base_addr e) + unat (ards_length e)))"

lemma boot_page_mono: "(ok p \<Longrightarrow> ok' p) \<Longrightarrow> boot_page ok ards s p \<Longrightarrow> boot_page ok' ards s p"
  by (auto simp: boot_page_def)

lemma fold_reserve_unusable:
  assumes "managed_shape s" and "\<And>p. p < n_pages s \<Longrightarrow> boot_page ok ards s p"
  shows "managed_shape (fold reserve_unusable es s) \<and> same_env s (fold reserve_unusable es s) \<and>
    (\<forall>p < n_pages s. boot_page (\<lambda>p. ok p \<and> clear_of es p) ards (fold reserve_unusable es s) p)"
  using assms
proof (induction es arbitrary: s ok)
  case Nil
  then show ?case by (simp add: clear_of_def)
next
  case (Cons e es)
  let ?t = "reserve_unusable e s"
  let ?ok = "\<lambda>p. ok p \<and> clear_of [e] p"
  have t: "managed_shape ?t" "same_env s ?t"
    using Cons.prems(1) reserve_range_effect by (auto simp: reserve_unusable_def)
  have n: "n_pages ?t = n_pages s" using t(2) by (simp add: same_env_def)
  have "boot_page ?ok ards ?t p" if "p < n_pages ?t" for p
  proof (cases "ards_type e = 1 \<or> \<not> ards_in_range e")
    case True
    with Cons.prems(2) that n show ?thesis
      by (auto simp: reserve_unusable_def clear_of_def intro: boot_page_mono [rotated])
  next
    case False
    have p: "p < n_pages s" using that n by simp
    from False boot_page_reserve [OF Cons.prems(1) p Cons.prems(2) [OF p],
        of "base_addr e" "base_addr e + ards_length e"]
    show ?thesis
      by (auto simp: reserve_unusable_def clear_of_def unat_add_ards intro: boot_page_mono [rotated])
  qed
  from Cons.IH [OF t(1) this] show ?case
    using t(2) n by (auto simp: clear_of_def intro: same_env_trans boot_page_mono [rotated])
qed


lemma boot_page_ok: "boot_page ok ards s p \<Longrightarrow> page_ok (page_info s p)"
  by (auto simp: boot_page_def page_ok_def)

lemma init_tables_boot_page:
  assumes "phy_mem_map s = init_tables pages ((pages + 7) div 8)" and "p < pages"
  shows "boot_page ok ards s p \<and> \<not> allocated (page_info s p)"
proof -
  have "p div 8 < (pages + 7) div 8" using assms(2) by linarith
  moreover have "bit (0xFF :: u8) (p mod 8)"
  proof -
    have "(0xFF :: u8) = mask 8" by (simp add: mask_eq_exp_minus_1)
    then show ?thesis by (simp only: bit_mask_iff) simp
  qed
  ultimately have "\<not> allocated (page_info s p)" "reserved (page_info s p)"
    using assms by (simp_all add: page_info_def init_tables_def get_bit_def reserved_bit_nz)
  with assms show ?thesis
    by (simp add: boot_page_def page_info_def init_tables_def)
qed

text \<open>A page that may be handed out after start-up: whole inside a usable range, clear of every
  range the firmware reports as not usable, above the boot area and the manager's tables.\<close>

definition boot_usable :: "ARDS list \<Rightarrow> nat \<Rightarrow> nat \<Rightarrow> bool" where
  "boot_usable ards metadata_end p \<longleftrightarrow>
     (\<exists>e \<in> set ards. covers e p) \<and> clear_of ards p \<and> metadata_end \<le> p * 4096 \<and> 512 \<le> p"

lemma mark_ranges_correct:
  fixes s :: "'a pmm_scheme"
  assumes start: "phy_mem_map s = init_tables pages ((pages + 7) div 8)" and sh: "managed_shape s"
    and max: "\<And>e. e \<in> set ards \<Longrightarrow> ards_type e = 1 \<Longrightarrow> ards_in_range e \<Longrightarrow>
      unat (base_addr e) + unat (ards_length e) \<le> 2 ^ 47"
    and meta: "0x200000 < 0x200000 + meta"
  shows "managed_shape (mark_ranges ards meta s) \<and> same_env s (mark_ranges ards meta s) \<and>
    (\<forall>p < pages. boot_page (\<lambda>p. clear_of ards p \<and> unat (0x200000 + meta :: u64) \<le> p * 4096 \<and> 512 \<le> p)
        ards (mark_ranges ards meta s) p)"
proof -
  let ?s3 = "fold release_usable ards s"
  let ?s4 = "fold reserve_unusable ards ?s3"
  let ?s5 = "reserve_physical_range 0 BOOT_RESERVED_END ?s4"
  have n: "n_pages s = pages" by (simp add: start init_tables_def)
  have s3: "pmm_shape ?s3 \<and> same_env s ?s3 \<and> (\<forall>p < n_pages s. boot_page (\<lambda>_. True) ards ?s3 p)"
    using sh init_tables_boot_page [OF start] n
    by (intro fold_release_usable [OF _ _ max]) (simp_all add: managed_shape_def)
  then have m3: "managed_shape ?s3" and n3: "n_pages ?s3 = pages"
    using managed_shape_env [OF sh] n by (blast, simp add: same_env_def)
  have s4: "managed_shape ?s4 \<and> same_env ?s3 ?s4 \<and>
      (\<forall>p < n_pages ?s3. boot_page (\<lambda>p. True \<and> clear_of ards p) ards ?s4 p)"
    using s3 n n3 by (intro fold_reserve_unusable [OF m3]) simp
  then have m4: "managed_shape ?s4" and n4: "n_pages ?s4 = pages"
    using n3 by (blast, simp add: same_env_def)
  note e5 = reserve_range_effect [OF m4, where a = 0 and b = BOOT_RESERVED_END]
  have n5: "n_pages ?s5 = pages" using e5(2) n4 by (simp add: same_env_def)
  note e6 = reserve_range_effect [OF e5(1), where a = MEMORY_BITMAP_PADDR and b = "MEMORY_BITMAP_PADDR + meta"]
  have "boot_page (\<lambda>p. clear_of ards p \<and> unat (0x200000 + meta) \<le> p * 4096 \<and> 512 \<le> p)
      ards (mark_ranges ards meta s) p" if "p < pages" for p
  proof -
    have "boot_page (\<lambda>p. clear_of ards p) ards ?s4 p" using s4 n3 that by simp
    from boot_page_reserve [OF m4 _ this, of 0 BOOT_RESERVED_END]
    have *: "boot_page (\<lambda>p. clear_of ards p \<and> \<not> overlaps p (unat (0 :: u64)) (unat BOOT_RESERVED_END))
        ards ?s5 p" using n4 that by simp
    from boot_page_reserve [OF e5(1) _ this, of MEMORY_BITMAP_PADDR "MEMORY_BITMAP_PADDR + meta"]
    have "boot_page (\<lambda>p. (clear_of ards p \<and> \<not> overlaps p (unat (0 :: u64)) (unat BOOT_RESERVED_END)) \<and>
        \<not> overlaps p (unat MEMORY_BITMAP_PADDR) (unat (MEMORY_BITMAP_PADDR + meta)))
        ards (mark_ranges ards meta s) p"
      using n5 that by (simp add: mark_ranges_def Let_def)
    from this show ?thesis
    proof (rule boot_page_mono [rotated])
      assume free: "(clear_of ards p \<and> \<not> overlaps p (unat (0 :: u64)) (unat BOOT_RESERVED_END)) \<and>
        \<not> overlaps p (unat MEMORY_BITMAP_PADDR) (unat (MEMORY_BITMAP_PADDR + meta))"
      then have p: "512 \<le> p" by (simp add: overlaps_def BOOT_RESERVED_END_def)
      moreover have "unat (0x200000 + meta) \<le> p * 4096"
        using free p meta by (simp add: overlaps_def MEMORY_BITMAP_PADDR_def word_less_nat_alt)
      ultimately show "clear_of ards p \<and> unat (0x200000 + meta) \<le> p * 4096 \<and> 512 \<le> p"
        using free by simp
    qed
  qed
  moreover have "same_env s (mark_ranges ards meta s)"
    using same_env_trans [OF same_env_trans [OF same_env_trans] e6(2)] s3 s4 e5(2)
    unfolding mark_ranges_def Let_def by blast
  ultimately show ?thesis using e6(1) by (simp add: mark_ranges_def Let_def)
qed



lemma managed_pages:
  assumes "m \<noteq> 0" and "unat m \<le> 2 ^ 47"
  shows "unat (page_round_up m) = unat (page_round_up m div 4096) * 4096"
    and "0 < unat (page_round_up m div 4096)" and "unat (page_round_up m div 4096) \<le> 2 ^ 35"
proof -
  have "unat (page_round_up m) = (unat m + 4095) div 4096 * 4096"
    using assms(2) by (intro round_up_page_unat) simp
  moreover have "0 < unat m" using assms(1) by (simp add: unat_gt_0)
  ultimately show "unat (page_round_up m) = unat (page_round_up m div 4096) * 4096"
    "0 < unat (page_round_up m div 4096)" "unat (page_round_up m div 4096) \<le> 2 ^ 35"
    using assms(2) by (simp_all add: unat_div_page)
qed

lemma init_phy_mem_map_correct:
  fixes s :: "'a pmm_scheme"
  assumes "init_phy_mem_map ards s = (0, s')"
  shows "pmm_inv s' \<and> pmm_ready s' \<and>
    (\<forall>p < n_pages s'. \<not> reserved (page_info s' p) \<longrightarrow>
       boot_usable ards (0x200000 + metadata_size (n_pages s')) p)"
proof -
  define m where "m = highest_usable ards"
  define me where "me = page_round_up m"
  define pages where "pages = unat (me div 4096)"
  define s2 where "s2 = s\<lparr>pmm_ready := False, pmm_fail_allocations := 0, managed_end_paddr := me,
    phy_mem_map := init_tables pages ((pages + 7) div 8)\<rparr>"
  define meta :: u64 where "meta = of_nat (metadata_size pages)"
  define s7 where "s7 = (mark_ranges ards meta s2)\<lparr>pmm_ready := True\<rparr>"
  have guards: "m \<noteq> 0" "m \<le> DIRECT_MAP_MAX_PHYS" "MEMORY_BITMAP_PADDR \<le> me"
      "metadata_size pages \<le> unat (me - MEMORY_BITMAP_PADDR)"
    and build: "build_kernel_direct_map me s7 = (0, s')"
    using assms unfolding init_phy_mem_map_def Let_def s7_def s2_def meta_def pages_def me_def m_def
    by (simp_all split: if_splits prod.splits)
  have m_le: "unat m \<le> 2 ^ 47"
    using guards(2) by (simp add: DIRECT_MAP_MAX_PHYS_def word_le_nat_alt)
  note managed = managed_pages [OF guards(1) m_le, folded me_def, folded pages_def]
  have max: "unat (base_addr e) + unat (ards_length e) \<le> 2 ^ 47"
    if "e \<in> set ards" "ards_type e = 1" "ards_in_range e" for e
    using highest_usable_ge [OF that] m_le unat_add_ards [OF that(3)]
    by (simp add: m_def word_le_nat_alt)
  have "0 < (pages + 7) div 8" "pages \<le> 8 * ((pages + 7) div 8)" using managed(2) by linarith+
  then have sh: "managed_shape s2"
    using managed(1,3) by (simp add: managed_shape_def shape_simps s2_def init_tables_def)
  have fit: "0x200000 + metadata_size pages \<le> 2 ^ 47"
    using guards(3,4) managed(1,3)
    by (simp add: unat_sub MEMORY_BITMAP_PADDR_def word_le_nat_alt)
  then have "unat meta = metadata_size pages"
    by (simp add: meta_def unat_of_nat take_bit_eq_mod)
  then have meta_end: "unat (0x200000 + meta) = 0x200000 + metadata_size pages"
    using fit by (simp add: unat_word_ariths)
  have "0 < metadata_size pages" using managed(2) by (simp add: metadata_size_def)
  with meta_end have grows: "0x200000 < 0x200000 + meta" by (simp add: word_less_nat_alt)
  let ?t = "mark_ranges ards meta s2"
  have "phy_mem_map s2 = init_tables pages ((pages + 7) div 8)" by (simp add: s2_def)
  from mark_ranges_correct [OF this sh max grows]
  have t: "managed_shape ?t" "same_env s2 ?t" and
    bp: "\<And>p. p < pages \<Longrightarrow> boot_page (\<lambda>p. clear_of ards p \<and> 0x200000 + metadata_size pages \<le> p * 4096 \<and> 512 \<le> p) ards ?t p"
    unfolding meta_end by blast+
  have n: "n_pages ?t = pages" using t(2) by (simp add: same_env_def s2_def init_tables_def)
  have "pmm_inv ?t"
    using t(1) n managed(2) bp [of 0] boot_page_ok [OF bp]
    by (auto simp: pmm_inv_def managed_shape_def boot_page_def split: if_splits)
  then have inv7: "pmm_inv s7"
    by (simp add: s7_def pmm_inv_def shape_simps page_info_def)
  have ot: "only_tables s7 s'" using only_tables_direct_map [OF inv7, of me] build by simp
  have n': "n_pages s' = pages" and rdy: "pmm_ready s'"
    using ot n by (simp_all add: only_tables_def same_env_def s7_def)
  have "boot_usable ards (0x200000 + metadata_size pages) p"
    if "p < pages" "\<not> reserved (page_info s' p)" for p
  proof -
    have "\<not> reserved (page_info ?t p)"
      using ot that(2) by (simp add: only_tables_def s7_def page_info_def)
    with bp [OF that(1)] show ?thesis by (simp add: boot_page_def boot_usable_def)
  qed
  with ot n' rdy show ?thesis by (simp add: only_tables_def)
qed

section \<open>Entries that are present are kept\<close>

definition all_present :: "'a pmm_scheme \<Rightarrow> bool" where
  "all_present s \<longleftrightarrow> (\<forall>f i. frames s f i AND PTE_P \<noteq> 0)"

lemma direct_map_pd_present:
  assumes "all_present s"
  shows "direct_map_pd pd base me s = s"
proof -
  let ?body = "\<lambda>pd_index s. let page_phys = base + of_nat pd_index * 2 ^ 21 in
          if page_phys \<ge> me then (Break, s)
          else if tbl s pd pd_index AND PTE_P = 0
          then (Continue, set_tbl pd pd_index (page_phys OR PTE_P OR PTE_RW OR PTE_PS) s)
          else (Continue, s)"
  have "?body i s = (Continue, s) \<or> ?body i s = (Break, s)" for i
    using assms by (simp add: Let_def all_present_def tbl_def)
  then obtain c where "for_loop ?body [0..<512] s = (c, s)"
    using for_loop_idle [of "[0..<512]" ?body s] by blast
  then show ?thesis by (simp only: direct_map_pd_def snd_conv)
qed

lemma direct_map_pdpt_present:
  "all_present s \<Longrightarrow> direct_map_pdpt pdpt i me j s \<in> {(Continue, s), (Break, s)}"
  by (simp add: direct_map_pdpt_def Let_def direct_map_pd_present)
    (simp add: all_present_def tbl_def)

lemma direct_map_pml4_present:
  assumes "all_present s"
  shows "direct_map_pml4 me i s = (Continue, s)"
proof -
  let ?body = "direct_map_pdpt (tbl s BOOT_KERNEL_PML4_PADDR i AND PTE_ADDR_MASK) i me"
  obtain c where "for_loop ?body [0..<512] s = (c, s)" "c \<noteq> Return"
    using for_loop_idle [of "[0..<512]" ?body s] direct_map_pdpt_present [OF assms] by blast
  then have "direct_map_fill me i s = (Continue, s)"
    by (cases c) (simp_all add: direct_map_fill_def)
  then show ?thesis using assms by (simp add: direct_map_pml4_def all_present_def tbl_def)
qed

lemma build_direct_map_present:
  assumes "all_present s" and "m \<noteq> 0" and "m \<le> DIRECT_MAP_MAX_PHYS"
  shows "build_kernel_direct_map m s = (0, s)"
proof -
  let ?me = "(m + 2 ^ 21 - 1) AND NOT (2 ^ 21 - 1)"
  let ?k = "PML4_INDEX (PAGE_OFFSET + ?me - 1)"
  obtain c where "for_loop (direct_map_pml4 ?me) [PML4_INDEX PAGE_OFFSET ..< Suc ?k] s = (c, s)"
      "c \<noteq> Return"
    using for_loop_idle [of _ "direct_map_pml4 ?me" s] direct_map_pml4_present [OF assms(1)] by blast
  moreover have "?k < 512"
  proof -
    have "unat (a AND 0x1FF :: u64) < 512" for a
    proof -
      have "a AND 0x1FF = take_bit 9 a" by (simp add: take_bit_eq_mask mask_eq_exp_minus_1)
      then show ?thesis by (simp only: unsigned_take_bit_eq) (simp add: take_bit_eq_mod)
    qed
    then show ?thesis by (simp add: PML4_INDEX_def)
  qed
  ultimately show ?thesis
    using assms(2,3) unfolding build_kernel_direct_map_def Let_def
    by (cases c) simp_all
qed

lemma frames_fold: "(\<And>x s. frames (f x s) = frames s) \<Longrightarrow> frames (fold f xs s) = frames s"
  by (induction xs arbitrary: s) simp_all

lemma frames_mark_ranges: "frames (mark_ranges ards meta s) = frames s"
proof -
  have 1: "frames (set_reserved p s) = frames s" "frames (unreserve_page p s) = frames s"
    for p and s :: "'a pmm_scheme"
    by (simp_all add: set_reserved_def unreserve_page_def Let_def)
  have 2: "frames (reserve_physical_range a b s) = frames s" for a b and s :: "'a pmm_scheme"
    by (simp add: reserve_physical_range_def Let_def frames_fold 1)
  have "frames (release_usable e s) = frames s" "frames (reserve_unusable e s) = frames s"
    for e and s :: "'a pmm_scheme"
    by (simp_all add: release_usable_def reserve_unusable_def frames_fold 1 2)
  then show ?thesis by (simp add: mark_ranges_def Let_def frames_fold 2)
qed

end
