(* ===== verification/Pmm_Safety.thy ===== *)
theory Pmm_Safety
  imports Pmm_Boot
begin

text \<open>
  The properties of the physical memory manager: what a successful and a refused allocation
  or release does to every page, the life of a reference-counted user page, and the
  accounting invariant along every sequence of calls.
\<close>

section \<open>Sequences of calls\<close>

text \<open>
  The critical sections of the manager are atomic (they hold \<^verbatim>\<open>pmm_lock\<close> with interrupts off),
  so the kernel's threads interleave whole calls.  Between two calls the kernel may write
  any frame and the scheduler ring may change.
\<close>

inductive pmm_step :: "pmm \<Rightarrow> pmm \<Rightarrow> bool" where
  step_alloc: "pmm_step s (snd (alloc_pages_owned count ow s))"
| step_free: "pmm_step s (snd (free_pages_owned pa count ow s))"
| step_acquire: "pmm_step s (snd (pmm_acquire_user_mapping pa s))"
| step_release: "pmm_step s (snd (pmm_release_user_mapping pa s))"
| step_inject: "pmm_step s (pmm_test_inject_alloc_failure_once s)"
| step_memory: "pmm_step s (s\<lparr>frames := f\<rparr>)"
| step_ring: "pmm_step s (s\<lparr>live_threads := ts\<rparr>)"

inductive_cases pmm_stepE: "pmm_step s s'"

definition same_reserved :: "pmm \<Rightarrow> pmm \<Rightarrow> bool" where
  "same_reserved s s' \<longleftrightarrow> pmm_ready s' = pmm_ready s \<and> n_pages s' = n_pages s \<and>
     (\<forall>p. reserved (page_info s' p) = reserved (page_info s p))"

lemma alloc_same_reserved:
  assumes inv: "pmm_inv s"
  shows "same_reserved s (snd (alloc_pages_owned count ow s))"
proof -
  obtain pa s' where alloc: "alloc_pages_owned count ow s = (pa, s')" by fastforce
  show ?thesis
  proof (cases "pa = 0")
    case True
    then have "s' = s \<or> s' = s\<lparr>pmm_fail_allocations := pmm_fail_allocations s - 1\<rparr>"
      using alloc alloc_pages_owned_failure pmm_inv_parts(1,3) [OF inv] by blast
    then show ?thesis using alloc by (auto simp: same_reserved_def page_info_def)
  next
    case False
    from alloc_pages_owned_success [OF pmm_inv_parts(1) [OF inv] pmm_inv_parts(3) [OF inv] alloc this]
    obtain start where "same_env s s'" "\<And>p. page_info s' p = (if start \<le> p \<and> p < start + count
        then page_info s p \<lparr>allocated := True, owner_of := ow, refs_of := 0\<rparr> else page_info s p)"
      by metis
    then show ?thesis using alloc by (simp add: same_reserved_def same_env_def)
  qed
qed

lemma free_same_reserved:
  assumes inv: "pmm_inv s"
  shows "same_reserved s (snd (free_pages_owned pa count ow s))"
proof (cases "fst (free_pages_owned pa count ow s) = 0")
  case True
  then have "free_pages_owned pa count ow s = (0, snd (free_pages_owned pa count ow s))"
    by (metis prod.collapse)
  from free_pages_owned_success(7,8) [OF pmm_inv_parts(1) [OF inv] this]
  show ?thesis by (simp add: same_reserved_def same_env_def)
next
  case False
  show ?thesis by (simp add: same_reserved_def free_pages_owned_failure [OF False])
qed

lemma acquire_same_reserved:
  assumes inv: "pmm_inv s"
  shows "same_reserved s (snd (pmm_acquire_user_mapping pa s))"
proof (cases "fst (pmm_acquire_user_mapping pa s) = 0")
  case True
  then have "pmm_acquire_user_mapping pa s = (0, snd (pmm_acquire_user_mapping pa s))"
    by (metis prod.collapse)
  from acquire_success(3,4) [OF pmm_inv_parts(1) [OF inv] this]
  show ?thesis by (simp add: same_reserved_def same_env_def)
next
  case False
  show ?thesis by (simp add: same_reserved_def acquire_failure [OF False])
qed

lemma release_same_reserved:
  assumes inv: "pmm_inv s"
  shows "same_reserved s (snd (pmm_release_user_mapping pa s))"
proof (cases "fst (pmm_release_user_mapping pa s) = 0")
  case True
  then have "pmm_release_user_mapping pa s = (0, snd (pmm_release_user_mapping pa s))"
    by (metis prod.collapse)
  from release_user_success(3,4) [OF pmm_inv_parts(1) [OF inv] this]
  show ?thesis by (simp add: same_reserved_def same_env_def last_reference_def)
next
  case False
  show ?thesis by (simp add: same_reserved_def release_user_failure [OF pmm_inv_parts(1) [OF inv] False])
qed

lemmas call_same_reserved =
  alloc_same_reserved free_same_reserved acquire_same_reserved release_same_reserved

lemma pmm_step_invariant: "pmm_step s s' \<Longrightarrow> pmm_inv s \<Longrightarrow> pmm_inv s' \<and> same_reserved s s'"
proof (erule pmm_stepE, goal_cases)
  case (1 count ow)
  then show ?case using pmm_inv_alloc call_same_reserved(1) by (metis prod.collapse)
next
  case (2 pa count ow)
  then show ?case using pmm_inv_free call_same_reserved(2) by (metis prod.collapse)
next
  case (3 pa)
  then show ?case using pmm_inv_acquire call_same_reserved(3) by (metis prod.collapse)
next
  case (4 pa)
  then show ?case using pmm_inv_release call_same_reserved(4) by (metis prod.collapse)
next
  case 5
  then show ?case
    by (simp add: pmm_test_inject_alloc_failure_once_def pmm_inv_def shape_simps page_info_def
        same_reserved_def)
next
  case (6 f)
  then show ?case
    by (simp add: pmm_inv_def shape_simps page_ok_frames page_info_frames same_reserved_def)
next
  case (7 ts)
  then show ?case
    by (simp add: pmm_inv_def shape_simps page_info_def same_reserved_def)
qed

lemma pmm_steps_invariant:
  "pmm_step\<^sup>*\<^sup>* s s' \<Longrightarrow> pmm_inv s \<Longrightarrow> pmm_inv s' \<and> same_reserved s s'"
proof (induction rule: rtranclp_induct)
  case (step t u)
  then have "pmm_inv t" "same_reserved s t" by blast+
  with pmm_step_invariant [OF step.hyps(2)] show ?case
    by (simp add: same_reserved_def)
qed (simp add: same_reserved_def)

section \<open>A small machine\<close>

text \<open>Eight pages of which the first two are reserved and the others free.\<close>

definition small_pmm :: pmm where
  "small_pmm =
     \<lparr>phy_mem_map = \<lparr>bits = [0x03], reserved_bits = [0x03],
        owners = [PAGE_OWNER_RESERVED, PAGE_OWNER_RESERVED, PAGE_OWNER_FREE, PAGE_OWNER_FREE,
                  PAGE_OWNER_FREE, PAGE_OWNER_FREE, PAGE_OWNER_FREE, PAGE_OWNER_FREE],
        refcounts = [0, 0, 0, 0, 0, 0, 0, 0], page_count = 8, bmap_bytes = 1\<rparr>,
      managed_end_paddr = 0x8000, pmm_ready = True, pmm_fail_allocations = 0,
      frames = (\<lambda>_ _. 0), live_threads = []\<rparr>"

text \<open>The same machine after two pages were given to user space.\<close>

definition small_pmm_user :: pmm where
  "small_pmm_user = snd (alloc_pages_owned 2 PAGE_OWNER_USER small_pmm)"

lemma small_pmm_shape: "pmm_shape small_pmm"
  by (simp add: pmm_shape_def small_pmm_def)

lemma small_pmm_pages:
  "list_all (\<lambda>p. page_ok (page_info small_pmm p)) [0..<8] \<and> reserved (page_info small_pmm 0)"
  by code_simp

lemma small_pmm_inv: "pmm_inv small_pmm"
  using small_pmm_shape small_pmm_pages
  by (simp add: pmm_inv_def list_all_iff) (simp add: small_pmm_def)
lemma small_alloc: "fst (alloc_pages_owned 2 PAGE_OWNER_USER small_pmm) = 0x2000"
  by code_simp

lemma small_alloc_pair:
  "alloc_pages_owned 2 PAGE_OWNER_USER small_pmm = (0x2000, small_pmm_user)"
  using small_alloc by (simp add: small_pmm_user_def prod_eq_iff)

lemma small_pmm_user_inv: "pmm_inv small_pmm_user"
  using pmm_inv_alloc [OF small_pmm_inv small_alloc_pair] .

section \<open>Properties\<close>

text \<open>
  C1: A successful allocation of \<open>count\<close> pages returns the lowest run of pages that are not
  allocated, not reserved and not in use by a live thread; exactly the pages of the run
  change, and they become allocated to the requested owner with no user mapping.  Page 0 is
  never returned, so the address 0 always means failure.
\<close>

theorem alloc_pages_first_fit:
  assumes "pmm_inv s" and "alloc_pages_owned count ow s = (pa, s')" and "pa \<noteq> 0"
  shows "\<exists>start. pa = page_paddr start \<and> 0 < start \<and> free_run s start count \<and>
    (\<forall>r. free_run s r count \<longrightarrow> start \<le> r) \<and>
    (\<forall>p. page_info s' p = (if start \<le> p \<and> p < start + count
       then page_info s p \<lparr>allocated := True, owner_of := ow, refs_of := 0\<rparr> else page_info s p))"
  by (rule alloc_pages_owned_success
      [OF pmm_inv_parts(1) [OF assms(1)] pmm_inv_parts(3) [OF assms(1)] assms(2,3)]) blast

theorem alloc_pages_first_fit_witness:
  "\<exists>start. (0x2000 :: u64) = page_paddr start \<and> 0 < start \<and> free_run small_pmm start 2 \<and>
    (\<forall>r. free_run small_pmm r 2 \<longrightarrow> start \<le> r) \<and>
    (\<forall>p. page_info small_pmm_user p = (if start \<le> p \<and> p < start + 2
       then page_info small_pmm p \<lparr>allocated := True, owner_of := PAGE_OWNER_USER, refs_of := 0\<rparr>
       else page_info small_pmm p))"
  using alloc_pages_first_fit [OF small_pmm_inv small_alloc_pair] by simp

text \<open>
  C6: Allocation is complete: on a consistent manager with no injected failure it succeeds
  exactly when the manager is ready, the request is not empty, the owner is one that may own
  pages, and some run of \<open>count\<close> available pages exists.
\<close>

theorem alloc_pages_complete:
  assumes "pmm_inv s" and "pmm_fail_allocations s = 0"
  shows "fst (alloc_pages_owned count ow s) \<noteq> 0 \<longleftrightarrow>
    pmm_ready s \<and> 0 < count \<and> valid_alloc_owner ow \<and> (\<exists>r. free_run s r count)"
  using alloc_pages_owned_iff [OF pmm_inv_parts(1) [OF assms(1)] pmm_inv_parts(3) [OF assms(1)] assms(2)] .

theorem alloc_pages_complete_witness:
  "fst (alloc_pages_owned 2 PAGE_OWNER_USER small_pmm) \<noteq> 0 \<longleftrightarrow>
    pmm_ready small_pmm \<and> 0 < (2 :: nat) \<and> valid_alloc_owner PAGE_OWNER_USER \<and>
    (\<exists>r. free_run small_pmm r 2)"
  by (rule alloc_pages_complete [OF small_pmm_inv]) (simp add: small_pmm_def)

definition releasable :: "page_owner \<Rightarrow> 'a pmm_scheme \<Rightarrow> nat \<Rightarrow> bool" where
  "releasable ow s p \<longleftrightarrow> allocated (page_info s p) \<and> \<not> reserved (page_info s p) \<and> refs_of (page_info s p) = 0 \<and>
     (ow = PAGE_OWNER_ANY \<or> owner_of (page_info s p) = ow) \<and>
     (\<forall>t \<in> set (live_threads s). lt_object_paddr t \<noteq> page_paddr p \<and>
        (lt_stack_base t = 0 \<or> V2P (lt_stack_base t) \<noteq> page_paddr p))"

lemma releasable_iff: "releasable ow s p \<longleftrightarrow> \<not> free_refused ow s p"
  by (auto simp: releasable_def free_refused_iff live_thread_owns_page_def list_ex_iff)

text \<open>
  C2: Releasing pages is all or nothing.  The call returns 0 exactly when the range is a
  valid, non-empty, aligned range of managed pages each of which is allocated, not reserved,
  without user mappings, of the expected owner (unless any owner will do), and neither the object
  nor the stack of a thread on the ring; then exactly these pages become free and are zeroed.
  Otherwise it returns -1 and changes nothing.
\<close>

theorem free_pages_all_or_nothing:
  assumes "pmm_inv s"
  shows "let ok = (pmm_ready s \<and> pa \<noteq> 0 \<and> 0 < count \<and> page_aligned pa \<and> pfn pa + count \<le> n_pages s \<and>
                   list_all (releasable ow s) [pfn pa ..< pfn pa + count]);
             (r, s') = free_pages_owned pa count ow s
         in if ok
            then r = 0 \<and> (\<forall>p. page_info s' p = (if pfn pa \<le> p \<and> p < pfn pa + count
                   then page_info s p \<lparr>allocated := False, owner_of := PAGE_OWNER_FREE,
                                        refs_of := 0, contents := (\<lambda>_. 0)\<rparr>
                   else page_info s p))
            else r = -1 \<and> s' = s"
proof (cases "fst (free_pages_owned pa count ow s) = 0")
  case True
  then have free: "free_pages_owned pa count ow s = (0, snd (free_pages_owned pa count ow s))"
    by (metis prod.collapse)
  note eff = free_pages_owned_success [OF pmm_inv_parts(1) [OF assms] free]
  from eff(1-6) have "list_all (releasable ow s) [pfn pa ..< pfn pa + count]"
    by (simp add: list_all_iff releasable_iff)
  with eff(1-5,7) show ?thesis by (subst free) simp
next
  case False
  note fail = free_pages_owned_failure [OF False]
  have "\<not> (pmm_ready s \<and> pa \<noteq> 0 \<and> 0 < count \<and> page_aligned pa \<and>
      pfn pa + count \<le> n_pages s \<and> list_all (releasable ow s) [pfn pa ..< pfn pa + count])"
    using fail
    by (auto simp: free_pages_owned_def Let_def list_ex_iff list_all_iff releasable_iff split: if_splits)
  with fail show ?thesis by simp
qed

text \<open>The small machine after the first of the two pages was mapped by a user.\<close>

definition small_pmm_mapped :: pmm where
  "small_pmm_mapped = snd (pmm_acquire_user_mapping 0x2000 small_pmm_user)"

lemma small_pmm_mapped_inv: "pmm_inv small_pmm_mapped"
  unfolding small_pmm_mapped_def by (rule pmm_inv_acquire [OF small_pmm_user_inv surjective_pairing])

lemma small_releasable:
  "n_pages small_pmm_user = 8 \<and> pmm_ready small_pmm_user \<and>
   releasable PAGE_OWNER_USER small_pmm_user 2 \<and> releasable PAGE_OWNER_USER small_pmm_user 3 \<and>
   \<not> releasable PAGE_OWNER_HEAP small_pmm_user 2 \<and> \<not> releasable PAGE_OWNER_ANY small_pmm_user (Suc 0) \<and>
   \<not> releasable PAGE_OWNER_ANY small_pmm_user 4 \<and> \<not> releasable PAGE_OWNER_USER small_pmm_mapped 2"
  by code_simp

theorem free_pages_all_or_nothing_witness:
  "fst (free_pages_owned 0x2000 2 PAGE_OWNER_USER small_pmm_user) = 0 \<and>
   free_pages_owned 0x2000 2 PAGE_OWNER_HEAP small_pmm_user = (-1, small_pmm_user) \<and>
   free_pages_owned 0x1000 1 PAGE_OWNER_ANY small_pmm_user = (-1, small_pmm_user) \<and>
   free_pages_owned 0x4000 1 PAGE_OWNER_ANY small_pmm_user = (-1, small_pmm_user) \<and>
   free_pages_owned 0x2000 2 PAGE_OWNER_USER small_pmm_mapped = (-1, small_pmm_mapped)"
proof -
  note f = free_pages_all_or_nothing [OF small_pmm_user_inv]
  have p: "pfn 0x1000 = 1" "pfn 0x2000 = 2" "pfn 0x4000 = 4" "page_aligned 0x2000" by (simp_all add: pfn_def page_aligned_def)
  have "fst (free_pages_owned 0x2000 2 PAGE_OWNER_USER small_pmm_user) = 0"
    using f [of "0x2000" 2 PAGE_OWNER_USER] small_releasable p by (auto simp: Let_def split: prod.splits)
  moreover have "free_pages_owned 0x2000 2 PAGE_OWNER_HEAP small_pmm_user = (-1, small_pmm_user)"
    using f [of "0x2000" 2 PAGE_OWNER_HEAP] small_releasable p by (auto simp: Let_def split: prod.splits if_splits)
  moreover have "free_pages_owned 0x1000 1 PAGE_OWNER_ANY small_pmm_user = (-1, small_pmm_user)"
    using f [of "0x1000" 1 PAGE_OWNER_ANY] small_releasable p by (auto simp: Let_def split: prod.splits if_splits)
  moreover have "free_pages_owned 0x4000 1 PAGE_OWNER_ANY small_pmm_user = (-1, small_pmm_user)"
    using f [of "0x4000" 1 PAGE_OWNER_ANY] small_releasable p by (auto simp: Let_def split: prod.splits if_splits)
  moreover have "free_pages_owned 0x2000 2 PAGE_OWNER_USER small_pmm_mapped = (-1, small_pmm_mapped)"
    using free_pages_all_or_nothing [OF small_pmm_mapped_inv, of "0x2000" 2 PAGE_OWNER_USER] small_releasable p
    by (auto simp: Let_def split: prod.splits if_splits)
  ultimately show ?thesis by blast
qed

text \<open>
  C5: Allocation and release undo each other.  Pages just allocated can be released with
  their owner, which restores the state of every page up to its (now zeroed) contents, and a
  second release of the same range is refused.
\<close>

theorem alloc_free_roundtrip:
  assumes inv: "pmm_inv s" and alloc: "alloc_pages_owned count ow s = (pa, s')" and pa: "pa \<noteq> 0"
  shows "\<exists>s''. free_pages_owned pa count ow s' = (0, s'') \<and>
    (\<forall>p < n_pages s. page_info s'' p = page_info s p \<lparr>contents := contents (page_info s'' p)\<rparr>) \<and>
    free_pages_owned pa count ow s'' = (-1, s'')"
proof -
  from alloc_pages_owned_success [OF pmm_inv_parts(1) [OF inv] pmm_inv_parts(3) [OF inv] alloc pa]
  obtain start where pa': "pa = page_paddr start" and cnt: "0 < count" and ow: "valid_alloc_owner ow"
    and run: "free_run s start count" and env: "same_env s s'" and rdy: "pmm_ready s"
    and cells: "\<And>p. page_info s' p = (if start \<le> p \<and> p < start + count
        then page_info s p \<lparr>allocated := True, owner_of := ow, refs_of := 0\<rparr> else page_info s p)"
    by metis
  have inv': "pmm_inv s'" by (rule pmm_inv_alloc [OF inv alloc])
  have st: "pfn pa = start" "page_aligned pa"
    using free_run_lt_pow [OF pmm_inv_parts(1) [OF inv] run cnt] by (simp_all add: pa')
  have n: "n_pages s' = n_pages s" and live: "\<And>a. live_thread_owns_page a s' = live_thread_owns_page a s"
    using env same_env_live by (auto simp: same_env_def)
  have ok: "\<not> free_refused ow s' p" if "start \<le> p" "p < start + count" for p
    using run that by (simp add: free_refused_iff cells live free_run_def page_available_def)
  have "fst (free_pages_owned pa count ow s') = 0"
  proof (rule ccontr)
    assume "fst (free_pages_owned pa count ow s') \<noteq> 0"
    from free_pages_owned_failure [OF this] show False
      using ok rdy env cnt run st pa n
      by (auto simp: free_pages_owned_def Let_def list_ex_iff same_env_def free_run_def
          split: if_splits)
  qed
  then obtain s'' where free: "free_pages_owned pa count ow s' = (0, s'')" by (metis prod.collapse)
  note eff = free_pages_owned_success [OF pmm_inv_parts(1) [OF inv'] free]
  have "page_info s'' p = page_info s p \<lparr>contents := contents (page_info s'' p)\<rparr>" if "p < n_pages s" for p
    using pmm_inv_parts(4) [OF inv that] run
    by (auto simp: eff(7) cells st free_run_def page_available_def page_ok_def)
  moreover have "free_refused ow s'' start" using cnt by (simp add: free_refused_iff eff(7) st)
  then have "list_ex (\<lambda>i. free_refused ow s'' (pfn pa + i)) [0..<count]"
    using cnt st by (force simp: list_ex_iff)
  then have "free_pages_owned pa count ow s'' = (-1, s'')"
    by (simp add: free_pages_owned_def Let_def)
  ultimately show ?thesis using free by blast
qed

theorem alloc_free_roundtrip_witness:
  "\<exists>s''. free_pages_owned 0x2000 2 PAGE_OWNER_USER small_pmm_user = (0, s'') \<and>
    (\<forall>p < n_pages small_pmm.
       page_info s'' p = page_info small_pmm p \<lparr>contents := contents (page_info s'' p)\<rparr>) \<and>
    free_pages_owned 0x2000 2 PAGE_OWNER_USER s'' = (-1, s'')"
  using alloc_free_roundtrip [OF small_pmm_inv small_alloc_pair] by simp

text \<open>
  C4: The mapping references of a user page.  A reference can be taken exactly on an allocated
  user page whose counter is not at its maximum, and given back exactly when the counter is
  not zero; taking and giving back touch no other page.  Giving back the last reference frees
  the page and zeroes it; any other only decrements, so a page with references is never freed.
\<close>

theorem user_mapping_references:
  assumes "pmm_inv s"
  shows "(let (r, s') = pmm_acquire_user_mapping pa s in
      if user_page pa s \<and> refs_of (page_info s (pfn pa)) \<noteq> - 1
      then r = 0 \<and> page_info s' = (page_info s)
             (pfn pa := page_info s (pfn pa) \<lparr>refs_of := refs_of (page_info s (pfn pa)) + 1\<rparr>)
      else r = -1 \<and> s' = s) \<and>
    (let (r, s') = pmm_release_user_mapping pa s in
      if user_page pa s \<and> refs_of (page_info s (pfn pa)) \<noteq> 0
      then r = 0 \<and> page_info s' = (page_info s)
             (pfn pa := if refs_of (page_info s (pfn pa)) = 1
                        then last_reference (page_info s (pfn pa))
                        else page_info s (pfn pa) \<lparr>refs_of := refs_of (page_info s (pfn pa)) - 1\<rparr>)
      else r = -1 \<and> s' = s)" (is "?acq \<and> ?rel")
proof -
  have shape: "pmm_shape s" using assms by (rule pmm_inv_parts(1))
  have ?acq
    using page_info_refcounts [OF shape] by (auto simp: acquire_cases user_page_def)
  moreover have ?rel
    using page_info_refcounts [OF shape] rel.cell_upd [OF shape]
    by (auto simp: release_user_cases [OF shape] user_page_def last_reference_def)
  ultimately show ?thesis by blast
qed

theorem user_mapping_references_witness:
  "fst (pmm_acquire_user_mapping 0x2000 small_pmm_user) = 0 \<and>
   fst (pmm_release_user_mapping 0x2000 small_pmm_user) = -1"
proof -
  have "pfn 0x2000 = 2" by (simp add: pfn_def)
  moreover have "pmm_ready small_pmm_user \<and> 2 < n_pages small_pmm_user \<and>
      allocated (page_info small_pmm_user 2) \<and>
      owner_of (page_info small_pmm_user 2) = PAGE_OWNER_USER \<and>
      refs_of (page_info small_pmm_user 2) = 0"
    by code_simp
  ultimately have "user_page 0x2000 small_pmm_user" "refs_of (page_info small_pmm_user (pfn 0x2000)) = 0"
    by (simp_all add: user_page_def page_aligned_def)
  then show ?thesis
    using user_mapping_references [OF small_pmm_user_inv, of "0x2000"]
    by (auto simp: Let_def split: prod.splits)
qed

text \<open>
  C3: After start-up has succeeded, every state that any sequence of calls can reach keeps the
  accounting invariant, and every page that can be handed out then lies whole inside a usable
  range of the firmware map, clear of every range reported as not usable, above the boot area
  and above the tables of the manager.
\<close>

theorem boot_then_calls_safe:
  assumes "init_phy_mem_map ards s0 = (0, s)" and "pmm_step\<^sup>*\<^sup>* s s'"
  shows "pmm_inv s' \<and> pmm_ready s' \<and>
    (\<forall>p. p < n_pages s' \<and> \<not> reserved (page_info s' p) \<longrightarrow>
       boot_usable ards (0x200000 + metadata_size (n_pages s')) p)"
proof -
  have boot: "pmm_inv s" "pmm_ready s" and
    "\<forall>p < n_pages s. \<not> reserved (page_info s p) \<longrightarrow>
       boot_usable ards (0x200000 + metadata_size (n_pages s)) p"
    using init_phy_mem_map_correct [OF assms(1)] by blast+
  moreover have "pmm_inv s'" "same_reserved s s'"
    using pmm_steps_invariant [OF assms(2) boot(1)] by blast+
  ultimately show ?thesis by (simp add: same_reserved_def)
qed

text \<open>A machine with 4 MiB of usable memory whose boot tables are all present.\<close>

definition boot_ards :: "ARDS list" where
  "boot_ards = [\<lparr>base_addr = 0, ards_length = 0x400000, ards_type = 1\<rparr>,
                \<lparr>base_addr = 0xA0000, ards_length = 0x60000, ards_type = 2\<rparr>]"

definition boot_memory :: pmm where
  "boot_memory = small_pmm\<lparr>frames := (\<lambda>_ _. 1)\<rparr>"

lemma boot_highest: "highest_usable boot_ards = 0x400000"
  by (simp add: highest_usable_def higher_end_def boot_ards_def ards_in_range_def)

lemma boot_init_succeeds: "\<exists>s. init_phy_mem_map boot_ards boot_memory = (0, s)"
proof -
  have up: "page_round_up 0x400000 = 0x400000" by (simp add: page_round_up_def)
  let ?t = "\<lambda>s. (mark_ranges boot_ards (of_nat (metadata_size 1024)) s)\<lparr>pmm_ready := True\<rparr>"
  have "build_kernel_direct_map 0x400000 (?t s) = (0, ?t s)" if "frames s = (\<lambda>_ _. 1)" for s :: pmm
    using that
    by (intro build_direct_map_present)
      (simp_all add: all_present_def frames_mark_ranges PTE_P_def DIRECT_MAP_MAX_PHYS_def)
  then show ?thesis
    unfolding init_phy_mem_map_def Let_def boot_highest up
    by (simp add: DIRECT_MAP_MAX_PHYS_def MEMORY_BITMAP_PADDR_def metadata_size_def boot_memory_def)
qed

theorem boot_then_calls_safe_witness:
  "\<exists>s. init_phy_mem_map boot_ards boot_memory = (0, s) \<and>
     (let s' = snd (alloc_pages_owned 1 PAGE_OWNER_USER s) in
      pmm_inv s' \<and> pmm_ready s' \<and>
      (\<forall>p. p < n_pages s' \<and> \<not> reserved (page_info s' p) \<longrightarrow>
         boot_usable boot_ards (0x200000 + metadata_size (n_pages s')) p))"
proof -
  obtain s where s: "init_phy_mem_map boot_ards boot_memory = (0, s)"
    using boot_init_succeeds by blast
  have "pmm_step\<^sup>*\<^sup>* s (snd (alloc_pages_owned 1 PAGE_OWNER_USER s))"
    by (rule r_into_rtranclp, rule step_alloc)
  with s boot_then_calls_safe [OF s] show ?thesis by (auto simp: Let_def)
qed

text \<open>
  C7: The statistics are exact: free, allocated and reserved pages add up to the number of
  pages, a successful allocation lowers the free count by the pages it took, and a successful
  release raises it by the pages it returned.
\<close>

theorem statistics_exact:
  assumes "pmm_inv s" and "pmm_ready s"
  shows "stat_free_pages (pmm_get_stats s) + stat_allocated_pages (pmm_get_stats s) +
      stat_reserved_pages (pmm_get_stats s) = n_pages s \<and>
    (fst (alloc_pages_owned count ow s) \<noteq> 0 \<longrightarrow>
      get_free_page_count s = get_free_page_count (snd (alloc_pages_owned count ow s)) + count) \<and>
    (fst (free_pages_owned pa count ow s) = 0 \<longrightarrow>
      get_free_page_count (snd (free_pages_owned pa count ow s)) = get_free_page_count s + count)"
  using stats_total [OF assms(2)] free_count_alloc [OF assms(1)] free_count_free [OF assms(1)]
  by (metis prod.collapse)

theorem statistics_exact_witness:
  "stat_free_pages (pmm_get_stats small_pmm) + stat_allocated_pages (pmm_get_stats small_pmm) +
      stat_reserved_pages (pmm_get_stats small_pmm) = 8 \<and>
   get_free_page_count small_pmm = get_free_page_count small_pmm_user + 2"
  using statistics_exact [OF small_pmm_inv, of 2 PAGE_OWNER_USER] small_alloc
  by (simp add: small_pmm_user_def) (simp add: small_pmm_def)

end
