(* ===== verification/Page_Tree.thy ===== *)
theory Page_Tree
  imports Pmm
begin

text \<open>
  Page tables as a tree of frames.  A path of table indices leads from the root table of an
  address space to one of its lower tables; the theory shows what writing one entry does to
  every path, provided the tables form a tree (no table is reached by two paths).  It is the
  abstract side of the walks of kernel/memory.c.
\<close>

section \<open>Walking\<close>

definition present :: "u64 \<Rightarrow> bool" where
  "present e \<longleftrightarrow> e AND PTE_P \<noteq> 0"

fun walk :: "(nat \<Rightarrow> nat \<Rightarrow> u64) \<Rightarrow> nat \<Rightarrow> nat list \<Rightarrow> nat option" where
  "walk F f [] = Some f"
| "walk F f (i # is) = (if present (F f i) then walk F (pfn (F f i)) is else None)"

text \<open>The paths of the tables below the user half of a root table.\<close>

definition user_path :: "nat list \<Rightarrow> bool" where
  "user_path is \<longleftrightarrow> length is \<le> 3 \<and> (\<forall>i \<in> set is. i < 512) \<and> (is \<noteq> [] \<longrightarrow> hd is < 256)"

definition tables :: "(nat \<Rightarrow> nat \<Rightarrow> u64) \<Rightarrow> nat \<Rightarrow> nat list \<Rightarrow> nat option" where
  "tables F r is = (if user_path is then walk F r is else None)"

definition is_tree :: "(nat \<Rightarrow> nat \<Rightarrow> u64) \<Rightarrow> nat \<Rightarrow> bool" where
  "is_tree F r \<longleftrightarrow> (\<forall>is js f. tables F r is = Some f \<longrightarrow> tables F r js = Some f \<longrightarrow> is = js)"

definition table_frames :: "(nat \<Rightarrow> nat \<Rightarrow> u64) \<Rightarrow> nat \<Rightarrow> nat set" where
  "table_frames F r = {f. \<exists>is. tables F r is = Some f}"

lemma user_path_prefix: "user_path (is @ js) \<Longrightarrow> user_path is"
  by (cases "is") (auto simp: user_path_def)

lemma user_path_Nil [simp]: "user_path []"
  by (simp add: user_path_def)

lemma user_path_snoc:
  "user_path (is @ [i]) \<longleftrightarrow> user_path is \<and> length is < 3 \<and> i < 512 \<and> (is = [] \<longrightarrow> i < 256)"
  by (cases "is") (auto simp: user_path_def)

lemma walk_append:
  "walk F f (is @ js) = (case walk F f is of None \<Rightarrow> None | Some g \<Rightarrow> walk F g js)"
  by (induction F f "is" rule: walk.induct) auto

lemma tables_Nil [simp]: "tables F r [] = Some r"
  by (simp add: tables_def)

lemma tables_snoc:
  "tables F r (is @ [i]) =
     (if user_path (is @ [i]) then
        case tables F r is of None \<Rightarrow> None
        | Some f \<Rightarrow> if present (F f i) then Some (pfn (F f i)) else None
      else None)"
  by (auto simp: tables_def walk_append user_path_snoc split: option.splits)

lemma is_treeD: "is_tree F r \<Longrightarrow> tables F r is = Some f \<Longrightarrow> tables F r js = Some f \<Longrightarrow> js = is"
  by (auto simp: is_tree_def)

lemma tables_prefix: "tables F r (is @ js) = Some f \<Longrightarrow> \<exists>g. tables F r is = Some g"
  by (auto simp: tables_def walk_append dest: user_path_prefix split: if_splits option.splits)

lemma table_framesI: "tables F r is = Some f \<Longrightarrow> f \<in> table_frames F r"
  by (auto simp: table_frames_def)

section \<open>Writing one entry\<close>

definition put :: "(nat \<Rightarrow> nat \<Rightarrow> u64) \<Rightarrow> nat \<Rightarrow> nat \<Rightarrow> u64 \<Rightarrow> nat \<Rightarrow> nat \<Rightarrow> u64" where
  "put F f i e = F(f := (F f)(i := e))"

lemma put_apply: "put F f i e g j = (if g = f \<and> j = i then e else F g j)"
  by (simp add: put_def)

text \<open>Tables that agree where the walk reads give the same walk.\<close>

lemma tables_agree:
  assumes "\<And>is f i. tables F r is = Some f \<Longrightarrow> user_path (is @ [i]) \<Longrightarrow>
      present (G f i) = present (F f i) \<and> (present (F f i) \<longrightarrow> pfn (G f i) = pfn (F f i))"
  shows "tables G r is = tables F r is"
proof (induction "is" rule: rev_induct)
  case (snoc i "is")
  then show ?case
    using assms by (auto simp: tables_snoc split: option.splits)
qed simp

lemma tables_same_frames:
  "(\<And>f. f \<in> table_frames F r \<Longrightarrow> G f = F f) \<Longrightarrow> tables G r is = tables F r is"
  by (rule tables_agree) (simp add: table_framesI)

lemma tables_put_other:
  assumes tree: "is_tree F r" and f: "tables F r is0 = Some f"
    and off: "\<And>m. js \<noteq> is0 @ i # m"
  shows "tables (put F f i e) r js = tables F r js"
  using off
proof (induction js rule: rev_induct)
  case (snoc j js)
  have off': "js \<noteq> is0 @ i # m" for m using snoc.prems [of "m @ [j]"] by auto
  note IH = snoc.IH [OF off']
  have "put F f i e g j = F g j" if g: "tables F r js = Some g" for g
  proof (cases "g = f")
    case True
    then have "js = is0" using is_treeD [OF tree f] g by blast
    then have "j \<noteq> i" using snoc.prems [of "[]"] by auto
    then show ?thesis by (simp add: put_apply)
  qed (simp add: put_apply)
  then show ?case by (auto simp: tables_snoc IH split: option.splits)
qed simp

lemma tables_put_self:
  assumes "is_tree F r" and "tables F r is0 = Some f"
  shows "tables (put F f i e) r is0 = Some f"
  using tables_put_other [OF assms, of is0 i e] assms by simp

lemma tables_put_below:
  assumes tree: "is_tree F r" and f: "tables F r is0 = Some f" and "\<not> present e"
  shows "tables (put F f i e) r (is0 @ i # m) = None"
proof -
  have "tables (put F f i e) r (is0 @ [i]) = None"
    using tables_put_self [OF tree f] assms(3) by (simp add: tables_snoc put_apply)
  then show ?thesis
    using tables_prefix [of "put F f i e" r "is0 @ [i]" m] by (cases "tables (put F f i e) r (is0 @ i # m)") auto
qed

text \<open>Changing only the permission bits of an entry.\<close>

lemma tables_put_bits:
  assumes "present e = present (F f i)" and "pfn e = pfn (F f i)"
  shows "tables (put F f i e) r is = tables F r is"
  by (rule tables_agree) (auto simp: put_apply assms)

text \<open>Removing an entry cuts off everything below it.\<close>

lemma tables_unlink:
  assumes "is_tree F r" and "tables F r is0 = Some f" and "\<not> present e"
  shows "tables (put F f i e) r js = (if \<exists>m. js = is0 @ i # m then None else tables F r js)"
  using tables_put_below [OF assms] tables_put_other [OF assms(1,2)] by auto

text \<open>Linking a fresh empty table.\<close>

lemma tables_link:
  assumes tree: "is_tree F r" and f: "tables F r is0 = Some f" and up: "user_path (is0 @ [i])"
    and free: "\<not> present (F f i)" and g: "g \<notin> table_frames F r"
    and e: "present e" "pfn e = g"
  shows "tables (put (F(g := (\<lambda>_. 0))) f i e) r js = (if js = is0 @ [i] then Some g else tables F r js)"
proof -
  let ?Z = "F(g := (\<lambda>_. 0))" let ?G = "put ?Z f i e"
  have gf: "g \<noteq> f" using table_framesI [OF f] g by blast
  have Z: "tables ?Z r ks = tables F r ks" for ks
    using g by (intro tables_same_frames) auto
  have treeZ: "is_tree ?Z r" using tree by (simp add: is_tree_def Z)
  have fZ: "tables ?Z r is0 = Some f" using f by (simp add: Z)
  have at: "tables ?G r (is0 @ [i]) = Some g"
    using tables_put_self [OF treeZ fZ] up e by (simp add: tables_snoc put_apply)
  show ?thesis
  proof (cases "\<exists>m. js = is0 @ i # m")
    case False
    then show ?thesis using tables_put_other [OF treeZ fZ, of js i e] by (simp add: Z)
  next
    case True
    then obtain m where js: "js = is0 @ i # m" by blast
    have F_None: "tables F r (is0 @ i # m) = None" if "m \<noteq> []"
    proof -
      have "tables F r (is0 @ [i]) = None" using f free by (simp add: tables_snoc)
      then show ?thesis using tables_prefix [of F r "is0 @ [i]" m] by (cases "tables F r (is0 @ i # m)") auto
    qed
    show ?thesis
    proof (cases m)
      case Nil
      then show ?thesis using js at by simp
    next
      case (Cons k m')
      have "\<not> present (?G g k)" using gf by (simp add: put_apply present_def)
      then have "tables ?G r (is0 @ [i] @ [k]) = None"
        using at tables_snoc [of ?G r "is0 @ [i]" k] by auto
      then have "tables ?G r js = None"
        using tables_prefix [of ?G r "is0 @ [i, k]" m'] js Cons
        by (cases "tables ?G r js") auto
      then show ?thesis using F_None js Cons by simp
    qed
  qed
qed

section \<open>The mappings of the last level\<close>

text \<open>The present entries of the last-level tables, by the path of the table and the index.\<close>

definition leaves :: "(nat \<Rightarrow> nat \<Rightarrow> u64) \<Rightarrow> nat \<Rightarrow> nat list \<Rightarrow> nat \<Rightarrow> u64 option" where
  "leaves F r is k =
     (if length is = 3 \<and> k < 512 then
        case tables F r is of None \<Rightarrow> None
        | Some f \<Rightarrow> if present (F f k) then Some (F f k) else None
      else None)"

lemma leaves_agree:
  assumes "\<And>is. tables G r is = tables F r is"
    and "\<And>is f. tables F r is = Some f \<Longrightarrow> length is = 3 \<Longrightarrow> G f = F f"
  shows "leaves G r = leaves F r"
  by (intro ext) (auto simp: leaves_def assms split: option.splits)

lemma leaves_same_frames:
  "(\<And>f. f \<in> table_frames F r \<Longrightarrow> G f = F f) \<Longrightarrow> leaves G r = leaves F r"
  by (rule leaves_agree) (rule tables_same_frames, assumption, blast intro: table_framesI)

lemma upper_not_leaf:
  "is_tree F r \<Longrightarrow> tables F r is0 = Some f \<Longrightarrow> length is0 \<noteq> 3 \<Longrightarrow>
   tables F r is = Some g \<Longrightarrow> length is = 3 \<Longrightarrow> g \<noteq> f"
  using is_treeD [of F r is0 f "is"] by auto

lemma leaves_put_bits:
  assumes "is_tree F r" and "tables F r is0 = Some f" and "length is0 \<noteq> 3"
    and "present e = present (F f i)" and "pfn e = pfn (F f i)"
  shows "leaves (put F f i e) r = leaves F r"
proof (rule leaves_agree)
  show "tables (put F f i e) r is = tables F r is" for "is"
    by (simp add: tables_put_bits assms(4,5))
  show "put F f i e g = F g" if "tables F r is = Some g" "length is = 3" for "is" g
    using upper_not_leaf [OF assms(1-3) that] by (simp add: put_def)
qed

lemma leaves_link:
  assumes tree: "is_tree F r" and f: "tables F r is0 = Some f" and up: "user_path (is0 @ [i])"
    and free: "\<not> present (F f i)" and g: "g \<notin> table_frames F r"
    and e: "present e" "pfn e = g"
  shows "leaves (put (F(g := (\<lambda>_. 0))) f i e) r = leaves F r"
proof (intro ext)
  fix js k
  let ?G = "put (F(g := (\<lambda>_. 0))) f i e"
  note tabs = tables_link [OF tree f up free g e]
  have len: "length is0 \<noteq> 3" using up by (simp add: user_path_snoc)
  show "leaves ?G r js k = leaves F r js k"
  proof (cases "js = is0 @ [i]")
    case True
    have "g \<noteq> f" using table_framesI [OF f] g by blast
    moreover have "tables F r js = None" using True f free by (simp add: tables_snoc)
    ultimately show ?thesis using True by (simp add: leaves_def tabs put_apply present_def)
  next
    case False
    have "?G h k = F h k" if "tables F r js = Some h" "length js = 3" for h
      using upper_not_leaf [OF tree f len that] table_framesI [OF that(1)] g
      by (auto simp: put_apply)
    then show ?thesis using False by (auto simp: leaves_def tabs split: option.splits)
  qed
qed

lemma leaves_unlink:
  assumes tree: "is_tree F r" and f: "tables F r is0 = Some f" and "length is0 \<noteq> 3"
    and "\<not> present e" and empty: "\<And>m k. leaves F r (is0 @ i # m) k = None"
  shows "leaves (put F f i e) r = leaves F r"
proof (intro ext)
  fix js k
  note tabs = tables_unlink [OF tree f assms(4)]
  show "leaves (put F f i e) r js k = leaves F r js k"
  proof (cases "\<exists>m. js = is0 @ i # m")
    case True
    then have "tables (put F f i e) r js = None" by (auto simp: tabs)
    with True empty show ?thesis by (auto simp: leaves_def [of "put F f i e"])
  next
    case False
    have "put F f i e h k = F h k" if "tables F r js = Some h" "length js = 3" for h
      using upper_not_leaf [OF tree f assms(3) that] by (simp add: put_apply)
    with False show ?thesis by (auto simp: leaves_def tabs split: option.splits)
  qed
qed

lemma tables_put_leaf:
  assumes "is_tree F r" and "tables F r is0 = Some f" and "length is0 = 3"
  shows "tables (put F f i e) r js = tables F r js"
proof (cases "\<exists>m. js = is0 @ i # m")
  case True
  then have "\<not> user_path js" using assms(3) by (auto simp: user_path_def)
  then show ?thesis by (simp add: tables_def)
next
  case False
  then show ?thesis using tables_put_other [OF assms(1,2), of js i e] by blast
qed

lemma leaves_put_leaf:
  assumes "is_tree F r" and "tables F r is0 = Some f" and "length is0 = 3" and "i < 512"
  shows "leaves (put F f i e) r js k =
    (if js = is0 \<and> k = i then (if present e then Some e else None) else leaves F r js k)"
proof (cases "js = is0")
  case True
  then show ?thesis using assms by (simp add: leaves_def tables_put_leaf put_apply)
next
  case False
  have "h \<noteq> f" if "tables F r js = Some h" for h
    using False assms(2) that is_treeD [OF assms(1), of is0 f js] by auto
  then show ?thesis
    using False by (auto simp: leaves_def tables_put_leaf [OF assms(1-3)] put_apply split: option.splits)
qed

end
