(* ===== verification/Paging.thy ===== *)
theory Paging
  imports Pmm_Boot Page_Tree
begin

text \<open>
  Address spaces of kernel/memory.c: creation of a root table, mapping, remapping and
  unmapping of 4 KiB pages with the roll-back of new tables, copy-on-write faults, the range
  checks on user addresses, copies from and to user memory and the destruction of an address
  space.  A \<^verbatim>\<open>uint64_t*\<close> into a table is the physical address of the table and an index.
\<close>

section \<open>Operations\<close>

definition copy_kernel_half :: "u64 \<Rightarrow> 'a pmm_scheme \<Rightarrow> 'a pmm_scheme" where
  "copy_kernel_half pml4 s =
     fold (\<lambda>i s. set_tbl pml4 i (tbl s BOOT_KERNEL_PML4_PADDR i) s) [256..<512] s"

definition create_page_dir :: "'a pmm_scheme \<Rightarrow> u64 \<times> 'a pmm_scheme" where
  "create_page_dir s =
     (case alloc_page_owned PAGE_OWNER_PAGE_TABLE s of (pml4_paddr, s1) \<Rightarrow>
        if pml4_paddr = 0 then (0, s1)
        else (pml4_paddr, copy_kernel_half pml4_paddr (zero_frame pml4_paddr s1)))"

definition table_flags :: "u64 \<Rightarrow> u64" where
  "table_flags flags =
     (if flags AND PTE_US \<noteq> 0 then PTE_P OR PTE_RW OR PTE_US else PTE_P OR PTE_RW)"

text \<open>
  One level of \<^verbatim>\<open>map_page\<close>: a missing table is allocated, an existing entry gets the user bit.
  The result is the address of the new table, 0 when the table was there, or \<open>None\<close> when the
  allocation failed.
\<close>

definition ensure_table ::
    "u64 \<Rightarrow> nat \<Rightarrow> u64 \<Rightarrow> 'a pmm_scheme \<Rightarrow> u64 option \<times> 'a pmm_scheme" where
  "ensure_table table idx flags s =
     (if tbl s table idx AND PTE_P = 0 then
        (case alloc_page_owned PAGE_OWNER_PAGE_TABLE s of (new, s1) \<Rightarrow>
           if new = 0 then (None, s1)
           else (Some new, set_tbl table idx (new OR table_flags flags) (zero_frame new s1)))
      else if flags AND PTE_US \<noteq> 0
      then (Some 0, set_tbl table idx (tbl s table idx OR PTE_US) s)
      else (Some 0, s))"

text \<open>The roll-back of one level, done when the level was created.\<close>

definition undo_table :: "u64 \<Rightarrow> nat \<Rightarrow> u64 \<Rightarrow> 'a pmm_scheme \<Rightarrow> 'a pmm_scheme" where
  "undo_table table idx new s =
     (if new \<noteq> 0 then snd (free_page_owned new PAGE_OWNER_PAGE_TABLE (set_tbl table idx 0 s)) else s)"

text \<open>
  One level of \<open>map_page\<close> followed by the rest of the call.  \<open>undo\<close> is the roll-back of the
  levels above, run when this level fails; the rest is given it extended by this level.
\<close>

definition with_table ::
    "('a pmm_scheme \<Rightarrow> 'a pmm_scheme) \<Rightarrow> u64 \<Rightarrow> nat \<Rightarrow> u64 \<Rightarrow>
     (('a pmm_scheme \<Rightarrow> 'a pmm_scheme) \<Rightarrow> u64 \<Rightarrow> 'a pmm_scheme \<Rightarrow> int \<times> 'a pmm_scheme) \<Rightarrow>
     'a pmm_scheme \<Rightarrow> int \<times> 'a pmm_scheme" where
  "with_table undo table idx flags rest s =
     (case ensure_table table idx flags s of
        (None, s1) \<Rightarrow> (-1, undo s1)
      | (Some new, s1) \<Rightarrow>
          rest (undo \<circ> undo_table table idx new) (tbl s1 table idx AND PTE_ADDR_MASK) s1)"

text \<open>The last level: an occupied entry is reported, a free one is written, and for a user
  page the reference is taken or everything is rolled back.\<close>

definition map_leaf ::
    "nat \<Rightarrow> u64 \<Rightarrow> u64 \<Rightarrow> ('a pmm_scheme \<Rightarrow> 'a pmm_scheme) \<Rightarrow> u64 \<Rightarrow>
     'a pmm_scheme \<Rightarrow> int \<times> 'a pmm_scheme" where
  "map_leaf idx paddr flags undo pt s =
     (if tbl s pt idx AND PTE_P \<noteq> 0 then (-2, s)
      else
        let s1 = set_tbl pt idx ((paddr AND PTE_ADDR_MASK) OR flags OR PTE_P) s in
        if flags AND PTE_US \<noteq> 0 then
          (case pmm_acquire_user_mapping paddr s1 of (r, s2) \<Rightarrow>
             if r \<noteq> 0 then (-1, undo (set_tbl pt idx 0 s2)) else (0, s2))
        else (0, s1))"

definition map_page ::
    "u64 \<Rightarrow> u64 \<Rightarrow> u64 \<Rightarrow> u64 \<Rightarrow> 'a pmm_scheme \<Rightarrow> int \<times> 'a pmm_scheme" where
  "map_page pml4 vaddr paddr flags s =
     (if pml4 = 0 then (-1, s)
      else if \<not> page_aligned vaddr \<or> \<not> page_aligned paddr then (-1, s)
      else
        with_table id pml4 (PML4_INDEX vaddr) flags (\<lambda>undo pdpt.
          with_table undo pdpt (PDPT_INDEX vaddr) flags (\<lambda>undo pd.
            with_table undo pd (PD_INDEX vaddr) flags (\<lambda>undo pt.
              map_leaf (PT_INDEX vaddr) paddr flags undo pt))) s)"

text \<open>\<^verbatim>\<open>get_user_pte\<close>: the table and the index of the entry, or \<open>None\<close> for NULL.\<close>

definition get_user_pte :: "u64 \<Rightarrow> u64 \<Rightarrow> 'a pmm_scheme \<Rightarrow> (u64 \<times> nat) option" where
  "get_user_pte pml4 vaddr s =
     (if pml4 = 0 \<or> \<not> page_aligned vaddr then None
      else let pml4e = tbl s pml4 (PML4_INDEX vaddr) in
        if pml4e AND PTE_P = 0 then None
        else let pdpte = tbl s (pml4e AND PTE_ADDR_MASK) (PDPT_INDEX vaddr) in
          if pdpte AND PTE_P = 0 \<or> pdpte AND PTE_PS \<noteq> 0 then None
          else let pde = tbl s (pdpte AND PTE_ADDR_MASK) (PD_INDEX vaddr) in
            if pde AND PTE_P = 0 \<or> pde AND PTE_PS \<noteq> 0 then None
            else Some (pde AND PTE_ADDR_MASK, PT_INDEX vaddr))"

definition remap_page ::
    "u64 \<Rightarrow> u64 \<Rightarrow> u64 \<Rightarrow> u64 \<Rightarrow> 'a pmm_scheme \<Rightarrow> int \<times> 'a pmm_scheme" where
  "remap_page pml4 vaddr paddr flags s =
     (if paddr = 0 \<or> \<not> page_aligned paddr then (-1, s)
      else case get_user_pte pml4 vaddr s of
        None \<Rightarrow> (-1, s)
      | Some (pt, i) \<Rightarrow>
          if tbl s pt i AND PTE_P = 0 then (-1, s)
          else
            let old_page = tbl s pt i AND PTE_ADDR_MASK;
                old_user = tbl s pt i AND PTE_US \<noteq> 0;
                new_user = flags AND PTE_US \<noteq> 0;
                entry = (paddr AND PTE_ADDR_MASK) OR flags OR PTE_P in
            if old_page = paddr then (0, set_tbl pt i entry s)
            else
              case (if new_user then pmm_acquire_user_mapping paddr s else (0, s)) of (r, s1) \<Rightarrow>
                if r \<noteq> 0 then (-1, s1)
                else
                  let s2 = set_tbl pt i entry s1 in
                  (0, if old_user then snd (pmm_release_user_mapping old_page s2) else s2))"

definition table_empty :: "u64 \<Rightarrow> 'a pmm_scheme \<Rightarrow> bool" where
  "table_empty table s = list_all (\<lambda>i. tbl s table i AND PTE_P = 0) [0..<512]"

text \<open>The second half of \<^verbatim>\<open>unmap_user_page\<close>: empty tables are removed from the leaf upwards.\<close>

definition prune_tables :: "u64 \<Rightarrow> u64 \<Rightarrow> 'a pmm_scheme \<Rightarrow> 'a pmm_scheme" where
  "prune_tables pml4 vaddr s =
     (let i4 = PML4_INDEX vaddr; i3 = PDPT_INDEX vaddr; i2 = PD_INDEX vaddr;
          pdpt = tbl s pml4 i4 AND PTE_ADDR_MASK;
          pd = tbl s pdpt i3 AND PTE_ADDR_MASK;
          pt = tbl s pd i2 AND PTE_ADDR_MASK in
      if table_empty pt s then
        let s1 = snd (free_page_owned pt PAGE_OWNER_PAGE_TABLE (set_tbl pd i2 0 s)) in
        if table_empty pd s1 then
          let pd_page = tbl s1 pdpt i3 AND PTE_ADDR_MASK;
              s2 = snd (free_page_owned pd_page PAGE_OWNER_PAGE_TABLE (set_tbl pdpt i3 0 s1)) in
          if table_empty pdpt s2 then
            let pdpt_page = tbl s2 pml4 i4 AND PTE_ADDR_MASK in
            snd (free_page_owned pdpt_page PAGE_OWNER_PAGE_TABLE (set_tbl pml4 i4 0 s2))
          else s2
        else s1
      else s)"

definition unmap_user_page ::
    "u64 \<Rightarrow> u64 \<Rightarrow> page_owner \<Rightarrow> 'a pmm_scheme \<Rightarrow> int \<times> 'a pmm_scheme" where
  "unmap_user_page pml4 vaddr expected_owner s =
     (if \<not> page_aligned vaddr then (-1, s)
      else case get_user_pte pml4 vaddr s of
        None \<Rightarrow> (-1, s)
      | Some (pt, i) \<Rightarrow>
          if tbl s pt i AND PTE_P = 0 \<or> tbl s pt i AND PTE_US = 0 then (-1, s)
          else
            let page = tbl s pt i AND PTE_ADDR_MASK;
                s1 = set_tbl pt i 0 s in
            case (if expected_owner = PAGE_OWNER_USER then pmm_release_user_mapping page s1
                  else free_page_owned page expected_owner s1) of (r, s2) \<Rightarrow>
              if r \<noteq> 0 then (-1, s2) else (0, prune_tables pml4 vaddr s2))"

text \<open>\<^verbatim>\<open>memcpy(P2V(dst), P2V(src), PAGE_SIZE)\<close>.\<close>

definition copy_frame :: "u64 \<Rightarrow> u64 \<Rightarrow> 'a pmm_scheme \<Rightarrow> 'a pmm_scheme" where
  "copy_frame dst src s = s\<lparr>frames := (frames s)(pfn dst := frames s (pfn src))\<rparr>"

definition handle_cow_page_fault :: "u64 \<Rightarrow> u64 \<Rightarrow> 'a pmm_scheme \<Rightarrow> int \<times> 'a pmm_scheme" where
  "handle_cow_page_fault pml4 vaddr0 s =
     (let vaddr = vaddr0 AND PTE_ADDR_MASK in
      case get_user_pte pml4 vaddr s of
        None \<Rightarrow> (-1, s)
      | Some (pt, i) \<Rightarrow>
          if tbl s pt i AND (PTE_P OR PTE_US OR PTE_COW) \<noteq> (PTE_P OR PTE_US OR PTE_COW)
          then (-1, s)
          else
            let entry = tbl s pt i;
                old_page = entry AND PTE_ADDR_MASK;
                refs = pmm_page_refcount old_page s in
            if refs = 0 then (-1, s)
            else if refs = 1
            then (0, set_tbl pt i ((entry OR PTE_RW) AND NOT PTE_COW) s)
            else
              case alloc_page_owned PAGE_OWNER_USER s of (new_page, s1) \<Rightarrow>
                if new_page = 0 then (-1, s1)
                else
                  let s2 = copy_frame new_page old_page s1 in
                  case pmm_acquire_user_mapping new_page s2 of (r, s3) \<Rightarrow>
                    if r \<noteq> 0 then (-1, snd (free_page_owned new_page PAGE_OWNER_USER s3))
                    else
                      let s4 = set_tbl pt i
                                 ((new_page AND PTE_ADDR_MASK) OR PTE_P OR PTE_US OR PTE_RW) s3 in
                      (0, snd (pmm_release_user_mapping old_page s4)))"

subsection \<open>Checks on user ranges\<close>

definition has_bits :: "u64 \<Rightarrow> u64 \<Rightarrow> bool" where
  "has_bits required e \<longleftrightarrow> e AND required = required"

definition user_page_has_access :: "u64 \<Rightarrow> u64 \<Rightarrow> u64 \<Rightarrow> 'a pmm_scheme \<Rightarrow> bool" where
  "user_page_has_access pml4 vaddr required0 s \<longleftrightarrow>
     (if pml4 = 0 then False
      else let required = required0 OR PTE_P;
               pml4e = tbl s pml4 (PML4_INDEX vaddr) in
        if \<not> has_bits required pml4e then False
        else let pdpte = tbl s (pml4e AND PTE_ADDR_MASK) (PDPT_INDEX vaddr) in
          if \<not> has_bits required pdpte then False
          else if pdpte AND PTE_PS \<noteq> 0 then False
          else let pde = tbl s (pdpte AND PTE_ADDR_MASK) (PD_INDEX vaddr) in
            if \<not> has_bits required pde then False
            else if pde AND PTE_PS \<noteq> 0 then False
            else has_bits required (tbl s (pde AND PTE_ADDR_MASK) (PT_INDEX vaddr)))"

text \<open>The loop \<^verbatim>\<open>while (1)\<close> over the pages of a range; \<open>None\<close> would mean that it never ends.\<close>

partial_function (option) page_loop :: "(u64 \<Rightarrow> bool) \<Rightarrow> u64 \<Rightarrow> u64 \<Rightarrow> bool option" where
  "page_loop check page last_page =
     (if \<not> check page then Some False
      else if page = last_page then Some True
      else page_loop check (page + 4096) last_page)"

definition user_top :: u64 where "user_top = 0x00007FFFFFFFFFFF"

definition user_range_has_access ::
    "u64 \<Rightarrow> u64 \<Rightarrow> u64 \<Rightarrow> u64 \<Rightarrow> 'a pmm_scheme \<Rightarrow> bool option" where
  "user_range_has_access pml4 vaddr len required s =
     (if len = 0 then Some True
      else if vaddr = 0 \<or> vaddr > user_top then Some False
      else if len - 1 > user_top - vaddr then Some False
      else page_loop (\<lambda>page. user_page_has_access pml4 page required s)
             (vaddr AND PTE_ADDR_MASK) ((vaddr + len - 1) AND PTE_ADDR_MASK))"

definition user_range_is_readable :: "u64 \<Rightarrow> u64 \<Rightarrow> u64 \<Rightarrow> 'a pmm_scheme \<Rightarrow> bool option" where
  "user_range_is_readable pml4 vaddr len s =
     user_range_has_access pml4 vaddr len (PTE_P OR PTE_US) s"

definition page_write_access :: "u64 \<Rightarrow> 'a pmm_scheme \<Rightarrow> u64 \<Rightarrow> bool" where
  "page_write_access pml4 s page =
     (case get_user_pte pml4 page s of
        None \<Rightarrow> False
      | Some (pt, i) \<Rightarrow> has_bits (PTE_P OR PTE_US) (tbl s pt i) \<and>
                        tbl s pt i AND (PTE_RW OR PTE_COW) \<noteq> 0)"

definition user_range_has_write_access ::
    "u64 \<Rightarrow> u64 \<Rightarrow> u64 \<Rightarrow> 'a pmm_scheme \<Rightarrow> bool option" where
  "user_range_has_write_access pml4 vaddr len s =
     (if len = 0 then Some True
      else if vaddr = 0 \<or> vaddr > user_top \<or> len - 1 > user_top - vaddr then Some False
      else page_loop (page_write_access pml4 s)
             (vaddr AND PTE_ADDR_MASK) ((vaddr + len - 1) AND PTE_ADDR_MASK))"

definition user_range_is_writable :: "u64 \<Rightarrow> u64 \<Rightarrow> u64 \<Rightarrow> 'a pmm_scheme \<Rightarrow> bool option" where
  "user_range_is_writable pml4 vaddr len s = user_range_has_write_access pml4 vaddr len s"

subsection \<open>Copies between the kernel and user memory\<close>

text \<open>
  The bytes of a frame (the machine is little endian), and a byte at a user virtual address
  as the processor translates it with the tables of \<open>cr3\<close>: the frame of the 4 KiB entry.
\<close>

definition frame_byte :: "'a pmm_scheme \<Rightarrow> nat \<Rightarrow> nat \<Rightarrow> u8" where
  "frame_byte s f k = ucast (drop_bit (8 * (k mod 8)) (frames s f (k div 8)))"

definition set_frame_byte :: "nat \<Rightarrow> nat \<Rightarrow> u8 \<Rightarrow> 'a pmm_scheme \<Rightarrow> 'a pmm_scheme" where
  "set_frame_byte f k b s =
     s\<lparr>frames := (frames s)(f := (frames s f)(k div 8 :=
        (frames s f (k div 8) AND NOT (push_bit (8 * (k mod 8)) 0xFF)) OR
        push_bit (8 * (k mod 8)) (ucast b)))\<rparr>"

definition user_frame :: "u64 \<Rightarrow> u64 \<Rightarrow> 'a pmm_scheme \<Rightarrow> nat" where
  "user_frame cr3 vaddr s =
     (case get_user_pte cr3 (vaddr AND PTE_ADDR_MASK) s of
        None \<Rightarrow> 0
      | Some (pt, i) \<Rightarrow> pfn (tbl s pt i))"

definition page_offset :: "u64 \<Rightarrow> nat" where
  "page_offset vaddr = unat (vaddr AND 0xFFF)"

definition user_byte :: "u64 \<Rightarrow> 'a pmm_scheme \<Rightarrow> u64 \<Rightarrow> u8" where
  "user_byte cr3 s vaddr = frame_byte s (user_frame cr3 vaddr s) (page_offset vaddr)"

definition set_user_byte :: "u64 \<Rightarrow> u64 \<Rightarrow> u8 \<Rightarrow> 'a pmm_scheme \<Rightarrow> 'a pmm_scheme" where
  "set_user_byte cr3 vaddr b s =
     set_frame_byte (user_frame cr3 vaddr s) (page_offset vaddr) b s"

text \<open>The page-wise copy loops; the second argument counts the bytes that remain.\<close>

function copy_in :: "u64 \<Rightarrow> u64 \<Rightarrow> nat \<Rightarrow> 'a pmm_scheme \<Rightarrow> u8 list" where
  "copy_in cr3 source remaining s =
     (if remaining = 0 then []
      else let chunk = min (4096 - page_offset source) remaining in
        map (\<lambda>k. user_byte cr3 s (source + of_nat k)) [0..<chunk] @
        copy_in cr3 (source + of_nat chunk) (remaining - chunk) s)"
  by pat_completeness auto

lemma page_offset_less: "page_offset v < 4096"
  by (simp add: page_offset_def and_FFF_unat)

termination copy_in
  by (relation "measure (\<lambda>(cr3, source, remaining, s). remaining)")
    (use page_offset_less in auto)

declare copy_in.simps [simp del]

definition copy_from_user ::
    "bool \<Rightarrow> u64 \<Rightarrow> u64 \<Rightarrow> nat \<Rightarrow> 'a pmm_scheme \<Rightarrow> (int \<times> u8 list) option" where
  "copy_from_user dst_null cr3 user_src len s =
     (if len = 0 then Some (0, [])
      else if dst_null then Some (-1, [])
      else case user_range_is_readable cr3 user_src (of_nat len) s of
             None \<Rightarrow> None
           | Some False \<Rightarrow> Some (-1, [])
           | Some True \<Rightarrow> Some (0, copy_in cr3 user_src len s))"

function copy_out :: "u64 \<Rightarrow> u64 \<Rightarrow> u8 list \<Rightarrow> 'a pmm_scheme \<Rightarrow> 'a pmm_scheme" where
  "copy_out cr3 destination source s =
     (if source = [] then s
      else let chunk = min (4096 - page_offset destination) (length source) in
        copy_out cr3 (destination + of_nat chunk) (drop chunk source)
          (fold (\<lambda>k. set_user_byte cr3 (destination + of_nat k) (source ! k)) [0..<chunk] s))"
  by pat_completeness auto

termination copy_out
  by (relation "measure (\<lambda>(cr3, destination, source, s). length source)")
    (use page_offset_less in \<open>auto simp: min_def\<close>)

declare copy_out.simps [simp del]

text \<open>The loop of \<^verbatim>\<open>copy_to_user\<close> that gives the range private pages.\<close>

partial_function (option) privatise ::
    "u64 \<Rightarrow> u64 \<Rightarrow> u64 \<Rightarrow> 'a pmm_scheme \<Rightarrow> (bool \<times> 'a pmm_scheme) option" where
  "privatise cr3 page last_page s =
     (let (r, s1) = (case get_user_pte cr3 page s of
                       None \<Rightarrow> (0, s)
                     | Some (pt, i) \<Rightarrow>
                         if tbl s pt i AND PTE_COW \<noteq> 0 then handle_cow_page_fault cr3 page s
                         else (0, s)) in
      if r \<noteq> 0 then Some (False, s1)
      else if page = last_page then Some (True, s1)
      else privatise cr3 (page + 4096) last_page s1)"

definition copy_to_user ::
    "bool \<Rightarrow> u64 \<Rightarrow> u64 \<Rightarrow> u8 list \<Rightarrow> 'a pmm_scheme \<Rightarrow> (int \<times> 'a pmm_scheme) option" where
  "copy_to_user src_null cr3 user_dst kernel_src s =
     (if kernel_src = [] then Some (0, s)
      else if src_null then Some (-1, s)
      else case user_range_is_writable cr3 user_dst (of_nat (length kernel_src)) s of
        None \<Rightarrow> None
      | Some False \<Rightarrow> Some (-1, s)
      | Some True \<Rightarrow>
          (case privatise cr3 (user_dst AND PTE_ADDR_MASK)
                  ((user_dst + of_nat (length kernel_src) - 1) AND PTE_ADDR_MASK) s of
             None \<Rightarrow> None
           | Some (False, s1) \<Rightarrow> Some (-1, s1)
           | Some (True, s1) \<Rightarrow>
               (case user_range_has_access cr3 user_dst (of_nat (length kernel_src))
                       (PTE_P OR PTE_RW OR PTE_US) s1 of
                  None \<Rightarrow> None
                | Some False \<Rightarrow> Some (-1, s1)
                | Some True \<Rightarrow> Some (0, copy_out cr3 user_dst kernel_src s1))))"

text \<open>The loop of \<^verbatim>\<open>copy_string_from_user\<close> from index \<open>i\<close> on; the bytes copied so far come out.\<close>

fun copy_string_loop ::
    "u64 \<Rightarrow> u64 \<Rightarrow> nat \<Rightarrow> nat \<Rightarrow> 'a pmm_scheme \<Rightarrow> (int \<times> u8 list) option" where
  "copy_string_loop cr3 user_src i 0 s = Some (-1, [])"
| "copy_string_loop cr3 user_src i (Suc left) s =
     (if unat user_src > unat (- 1 :: u64) - i then Some (-1, [])
      else case copy_from_user False cr3 (user_src + of_nat i) 1 s of
        None \<Rightarrow> None
      | Some (r, bs) \<Rightarrow>
          if r \<noteq> 0 then Some (-1, [])
          else if hd bs = 0 then Some (if i = 0 then -1 else 0, bs)
          else map_option (\<lambda>(r, cs). (r, bs @ cs)) (copy_string_loop cr3 user_src (Suc i) left s))"

definition copy_string_from_user ::
    "bool \<Rightarrow> u64 \<Rightarrow> u64 \<Rightarrow> nat \<Rightarrow> 'a pmm_scheme \<Rightarrow> (int \<times> u8 list) option" where
  "copy_string_from_user dst_null cr3 user_src max_length s =
     (if dst_null \<or> user_src = 0 \<or> max_length = 0 then Some (-1, [])
      else copy_string_loop cr3 user_src 0 max_length s)"

subsection \<open>Destruction of an address space\<close>

definition destroy_pt :: "u64 \<Rightarrow> 'a pmm_scheme \<Rightarrow> 'a pmm_scheme" where
  "destroy_pt pt s =
     fold (\<lambda>i s.
       let pte = tbl s pt i;
           s1 = (if has_bits (PTE_P OR PTE_US) pte
                 then snd (pmm_release_user_mapping (pte AND PTE_ADDR_MASK) s) else s)
       in set_tbl pt i 0 s1) [0..<512] s"

definition destroy_pd :: "u64 \<Rightarrow> 'a pmm_scheme \<Rightarrow> 'a pmm_scheme" where
  "destroy_pd pd s =
     fold (\<lambda>i s.
       let pde = tbl s pd i in
       if pde AND PTE_P = 0 then s
       else if pde AND PTE_PS \<noteq> 0 then s
       else let pt = pde AND PTE_ADDR_MASK;
                s1 = destroy_pt pt s;
                s2 = snd (free_page_owned pt PAGE_OWNER_PAGE_TABLE s1)
            in set_tbl pd i 0 s2) [0..<512] s"

definition destroy_pdpt :: "u64 \<Rightarrow> 'a pmm_scheme \<Rightarrow> 'a pmm_scheme" where
  "destroy_pdpt pdpt s =
     fold (\<lambda>i s.
       let pdpte = tbl s pdpt i in
       if pdpte AND PTE_P = 0 then s
       else if pdpte AND PTE_PS \<noteq> 0 then s
       else let pd = pdpte AND PTE_ADDR_MASK;
                s1 = destroy_pd pd s;
                s2 = snd (free_page_owned pd PAGE_OWNER_PAGE_TABLE s1)
            in set_tbl pdpt i 0 s2) [0..<512] s"

definition destroy_user_address_space :: "u64 \<Rightarrow> 'a pmm_scheme \<Rightarrow> 'a pmm_scheme" where
  "destroy_user_address_space pml4 s =
     (if pml4 = 0 \<or> pml4 = BOOT_KERNEL_PML4_PADDR then s
      else
        let s1 = fold (\<lambda>i s.
              let pml4e = tbl s pml4 i in
              if pml4e AND PTE_P = 0 then s
              else let pdpt = pml4e AND PTE_ADDR_MASK;
                       s1 = destroy_pdpt pdpt s;
                       s2 = snd (free_page_owned pdpt PAGE_OWNER_PAGE_TABLE s1)
                   in set_tbl pml4 i 0 s2) [0..<256] s
        in snd (free_page_owned pml4 PAGE_OWNER_PAGE_TABLE s1))"

end
