(* ===== verification/Paging_Map.thy ===== *)
theory Paging_Map
  imports Paging
begin

text \<open>
  Mapping and unmapping on well-formed address spaces: the tables stay a tree of pages that
  the manager records as page tables, a successful call changes exactly one mapping, and a
  refused call changes no mapping and returns every table it had allocated.
\<close>

section \<open>Bits of an entry\<close>

lemma pfn_drop_bit: "pfn a = unat (drop_bit 12 a)"
proof -
  have "unat (drop_bit 12 a) = drop_bit 12 (take_bit 64 (unat a))"
    by (simp add: unsigned_drop_bit_eq)
  also have "\<dots> = unat a div 4096"
    using unat_u64_less [of a] by (simp add: take_bit_eq_mod drop_bit_eq_div)
  finally show ?thesis by (simp add: pfn_def)
qed

lemma pfn_or_low: "drop_bit 12 b = 0 \<Longrightarrow> pfn (a OR b) = pfn a"
  by (simp add: pfn_drop_bit)

lemma drop_bit_not_mask: "drop_bit n (a AND NOT (mask n)) = drop_bit n (a :: u64)"
  by (rule bit_eqI) (auto simp: bit_simps dest: bit_imp_le_length)

lemma drop_bit_mask: "drop_bit 12 (a AND PTE_ADDR_MASK) = drop_bit 12 (a :: u64)"
proof -
  have "PTE_ADDR_MASK = NOT (mask 12)"
    by (simp add: PTE_ADDR_MASK_def mask_eq_exp_minus_1)
  then show ?thesis using drop_bit_not_mask [of 12 a] by metis
qed

lemma pfn_mask [simp]: "pfn (a AND PTE_ADDR_MASK) = pfn a"
  using drop_bit_mask [of a] by (simp only: pfn_drop_bit)

lemma page_aligned_mask [simp]: "page_aligned (a AND PTE_ADDR_MASK)"
  by (simp add: page_aligned_def PTE_ADDR_MASK_def and.assoc)

lemma mask_page_aligned: "page_aligned a \<Longrightarrow> a AND PTE_ADDR_MASK = a"
  by (metis page_aligned_mask page_paddr_pfn pfn_mask)

lemma tbl_mask [simp]: "tbl s (a AND PTE_ADDR_MASK) i = tbl s a i"
  by (simp add: tbl_def)

lemma set_tbl_mask [simp]: "set_tbl (a AND PTE_ADDR_MASK) i v s = set_tbl a i v s"
  by (simp add: set_tbl_def)

lemma set_tbl_put: "set_tbl a i v s = s\<lparr>frames := put (frames s) (pfn a) i v\<rparr>"
  by (simp add: set_tbl_def put_def)

lemma zero_frame_upd: "zero_frame a s = s\<lparr>frames := (frames s)(pfn a := (\<lambda>_. 0))\<rparr>"
  by (simp add: zero_frame_def)

lemma pfn_table_flags [simp]: "pfn (a OR table_flags flags) = pfn a"
  by (rule pfn_or_low) (simp add: table_flags_def PTE_P_def PTE_RW_def PTE_US_def)

lemma present_or_P: "present (a OR b) \<longleftrightarrow> present a \<or> present b"
proof -
  have "(a OR b) AND PTE_P = (a AND PTE_P) OR (b AND PTE_P)"
    by (simp add: bit.conj_disj_distrib2)
  then show ?thesis by (simp add: present_def or_eq_0_iff)
qed

lemma present_table_flags [simp]: "present (a OR table_flags flags)"
  by (simp add: present_or_P) (simp add: present_def table_flags_def PTE_P_def PTE_RW_def PTE_US_def)

lemma user_bit [simp]: "present (e OR PTE_US) = present e" "pfn (e OR PTE_US) = pfn e"
proof -
  show "pfn (e OR PTE_US) = pfn e" by (rule pfn_or_low) (simp add: PTE_US_def)
  show "present (e OR PTE_US) = present e"
    unfolding present_or_P by (simp add: present_def PTE_P_def PTE_US_def)
qed

definition no_PS :: "u64 \<Rightarrow> bool" where
  "no_PS e \<longleftrightarrow> e AND PTE_PS = 0"

lemma no_PS_or: "no_PS (a OR b) \<longleftrightarrow> no_PS a \<and> no_PS b"
proof -
  have "(a OR b) AND PTE_PS = (a AND PTE_PS) OR (b AND PTE_PS)"
    by (simp add: bit.conj_disj_distrib2)
  then show ?thesis by (simp add: no_PS_def or_eq_0_iff)
qed

lemma no_PS_flags [simp]: "no_PS (table_flags flags)" "no_PS PTE_US"
  by (simp_all add: no_PS_def table_flags_def PTE_P_def PTE_RW_def PTE_US_def PTE_PS_def)

lemma no_PS_aligned: "page_aligned a \<Longrightarrow> no_PS a"
proof -
  assume "page_aligned a"
  then have "(a AND 0xFFF) AND PTE_PS = 0" by (simp add: page_aligned_def)
  then show ?thesis by (simp add: no_PS_def and.assoc PTE_PS_def)
qed

section \<open>Well-formed address spaces\<close>

definition table_frame :: "'a pmm_scheme \<Rightarrow> nat \<Rightarrow> bool" where
  "table_frame s f \<longleftrightarrow> 0 < f \<and> f < n_pages s \<and> \<not> free_refused PAGE_OWNER_PAGE_TABLE s f"

definition space_ok :: "'a pmm_scheme \<Rightarrow> u64 \<Rightarrow> bool" where
  "space_ok s r \<longleftrightarrow>
     r \<noteq> 0 \<and> page_aligned r \<and> is_tree (frames s) (pfn r) \<and>
     (\<forall>f \<in> table_frames (frames s) (pfn r). table_frame s f) \<and>
     (\<forall>is f i. tables (frames s) (pfn r) is = Some f \<longrightarrow> is \<noteq> [] \<longrightarrow> user_path (is @ [i]) \<longrightarrow>
        present (frames s f i) \<longrightarrow> no_PS (frames s f i))"

lemma space_okD:
  assumes "space_ok s r"
  shows "r \<noteq> 0" "page_aligned r" "is_tree (frames s) (pfn r)"
    "\<And>is f. tables (frames s) (pfn r) is = Some f \<Longrightarrow> table_frame s f"
    "\<And>is f i. tables (frames s) (pfn r) is = Some f \<Longrightarrow> is \<noteq> [] \<Longrightarrow> user_path (is @ [i]) \<Longrightarrow>
        present (frames s f i) \<Longrightarrow> no_PS (frames s f i)"
  using assms by (auto simp: space_ok_def intro: table_framesI)

text \<open>The accounting of a page: what the manager's tables record of it.\<close>

definition acct :: "'a pmm_scheme \<Rightarrow> nat \<Rightarrow> bool \<times> bool \<times> page_owner \<times> u32" where
  "acct s p = (allocated (page_info s p), reserved (page_info s p),
               owner_of (page_info s p), refs_of (page_info s p))"

abbreviation free_acct :: "bool \<times> bool \<times> page_owner \<times> u32" where
  "free_acct \<equiv> (False, False, PAGE_OWNER_FREE, 0)"

abbreviation table_acct :: "bool \<times> bool \<times> page_owner \<times> u32" where
  "table_acct \<equiv> (True, False, PAGE_OWNER_PAGE_TABLE, 0)"

lemma acct_frames [simp]: "acct (s\<lparr>frames := F\<rparr>) = acct s"
  by (intro ext) (simp add: acct_def page_info_frames)

lemma acct_set_tbl [simp]: "acct (set_tbl a i v s) = acct s" "acct (zero_frame a s) = acct s"
  by (simp_all add: set_tbl_put zero_frame_upd)

lemma same_env_frames [simp]: "same_env s (s\<lparr>frames := F\<rparr>)"
  by (simp add: same_env_def)

lemma pmm_inv_frames [simp]: "pmm_inv (s\<lparr>frames := F\<rparr>) = pmm_inv s"
  by (simp add: pmm_inv_def shape_simps page_ok_frames page_info_frames)

lemma free_refused_acct:
  "same_env s s' \<Longrightarrow> acct s' p = acct s p \<Longrightarrow> free_refused ow s' p = free_refused ow s p"
  by (simp add: free_refused_iff acct_def same_env_live)

lemma table_frame_acct:
  "same_env s s' \<Longrightarrow> acct s' p = acct s p \<Longrightarrow> table_frame s' p = table_frame s p"
  using free_refused_acct [of s s' p] by (auto simp: table_frame_def same_env_def)

lemma table_frame_new:
  "0 < f \<Longrightarrow> f < n_pages s \<Longrightarrow> acct s f = table_acct \<Longrightarrow>
   \<not> live_thread_owns_page (page_paddr f) s \<Longrightarrow> table_frame s f"
  by (simp add: table_frame_def free_refused_iff acct_def)

lemma table_frame_allocated: "table_frame s f \<Longrightarrow> allocated (page_info s f)"
  by (simp add: table_frame_def free_refused_iff)

section \<open>Allocation of one page\<close>

lemma alloc_one_success:
  assumes inv: "pmm_inv s" and alloc: "alloc_page_owned ow s = (new, s1)" and new: "new \<noteq> 0"
  shows "page_aligned new" and "0 < pfn new" and "pfn new < n_pages s"
    and "acct s (pfn new) = free_acct" and "\<not> live_thread_owns_page new s"
    and "acct s1 = (acct s)(pfn new := (True, False, ow, 0))"
    and "frames s1 = frames s" and "same_env s s1" and "pmm_inv s1"
    and "pmm_fail_allocations s1 = 0"
proof -
  have alloc': "alloc_pages_owned 1 ow s = (new, s1)" using alloc by (simp add: alloc_page_owned_def)
  show "pmm_inv s1" by (rule pmm_inv_alloc [OF inv alloc'])
  obtain start where st: "new = page_paddr start" "0 < start" "free_run s start 1" "same_env s s1"
    and cells: "\<And>p. page_info s1 p = (if start \<le> p \<and> p < start + 1
        then page_info s p \<lparr>allocated := True, owner_of := ow, refs_of := 0\<rparr> else page_info s p)"
    and fail: "pmm_fail_allocations s1 = 0"
    by (rule alloc_pages_owned_success
        [OF pmm_inv_parts(1) [OF inv] pmm_inv_parts(3) [OF inv] alloc' new]) blast
  have lt: "start < 2 ^ 52" using free_run_lt_pow [OF pmm_inv_parts(1) [OF inv] st(3)] by simp
  then have pfn: "pfn new = start" and "page_aligned new" using st(1) by simp_all
  then show "page_aligned new" "0 < pfn new" "same_env s s1" "pmm_fail_allocations s1 = 0"
    using st fail by simp_all
  have avail: "page_available s start" and n: "start < n_pages s"
    using st(3) by (auto simp: free_run_def)
  show "pfn new < n_pages s" using n pfn by simp
  show "\<not> live_thread_owns_page new s" using avail st(1) by (simp add: page_available_def)
  show "acct s (pfn new) = free_acct"
    using avail pmm_inv_parts(4) [OF inv n] unfolding pfn
    by (auto simp: acct_def page_available_def page_ok_def split: if_splits)
  show "acct s1 = (acct s)(pfn new := (True, False, ow, 0))"
    using avail unfolding pfn by (intro ext) (auto simp: acct_def cells page_available_def)
  have "contents (page_info s1 p) = contents (page_info s p)" for p by (simp add: cells)
  then show "frames s1 = frames s" by (intro ext) (simp add: page_info_def)
qed

lemma alloc_one_failure:
  assumes inv: "pmm_inv s" and alloc: "alloc_page_owned ow s = (0, s1)"
  shows "acct s1 = acct s" and "frames s1 = frames s" and "same_env s s1" and "pmm_inv s1"
proof -
  have alloc': "alloc_pages_owned 1 ow s = (0, s1)" using alloc by (simp add: alloc_page_owned_def)
  show "pmm_inv s1" by (rule pmm_inv_alloc [OF inv alloc'])
  have "s1 = s \<or> s1 = s\<lparr>pmm_fail_allocations := pmm_fail_allocations s - 1\<rparr>"
    using alloc_pages_owned_failure [OF alloc'] pmm_inv_parts(1) [OF inv] pmm_inv_parts(3) [OF inv]
    by blast
  then show "acct s1 = acct s" "frames s1 = frames s" "same_env s s1"
    by (auto simp: acct_def fun_eq_iff page_info_def same_env_def)
qed

section \<open>Creating and removing one table\<close>

text \<open>
  \<open>grown\<close> relates the state before and after one level of \<open>map_page\<close> that did not fail: the
  space is still well formed with the same mappings, and either nothing but permission bits
  changed (\<open>n = 0\<close>) or the table \<open>n\<close>, a free page before, hangs at the path.
\<close>

definition grown ::
    "'a pmm_scheme \<Rightarrow> u64 \<Rightarrow> nat list \<Rightarrow> u64 \<Rightarrow> 'a pmm_scheme \<Rightarrow> bool" where
  "grown s r is n s' \<longleftrightarrow>
     pmm_inv s' \<and> space_ok s' r \<and> same_env s s' \<and>
     leaves (frames s') (pfn r) = leaves (frames s) (pfn r) \<and>
     (if n = 0 then acct s' = acct s \<and>
          tables (frames s') (pfn r) = tables (frames s) (pfn r)
      else page_aligned n \<and> acct s (pfn n) = free_acct \<and>
          acct s' = (acct s)(pfn n := table_acct) \<and>
          tables (frames s) (pfn r) is = None \<and>
          tables (frames s') (pfn r) = (tables (frames s) (pfn r))(is \<mapsto> pfn n)) \<and>
     (\<forall>g. g \<notin> table_frames (frames s) (pfn r) \<longrightarrow> allocated (page_info s g) \<longrightarrow>
        frames s' g = frames s g)"

lemma space_ok_transfer:
  assumes ok: "space_ok s r" and env: "same_env s s'" and acct: "acct s' = acct s"
    and tabs: "tables (frames s') (pfn r) = tables (frames s) (pfn r)"
    and ps: "\<And>is f i. tables (frames s) (pfn r) is = Some f \<Longrightarrow> is \<noteq> [] \<Longrightarrow>
      user_path (is @ [i]) \<Longrightarrow> present (frames s' f i) \<Longrightarrow> no_PS (frames s' f i)"
  shows "space_ok s' r"
  using ok ps table_frame_acct [OF env] acct
  by (simp add: space_ok_def is_tree_def table_frames_def tabs)

lemma ensure_table_fails:
  assumes "pmm_inv s" and "ensure_table t i flags s = (None, s')"
  shows "pmm_inv s'" and "acct s' = acct s" and "frames s' = frames s" and "same_env s s'"
proof -
  have "alloc_page_owned PAGE_OWNER_PAGE_TABLE s = (0, s')"
    using assms(2) by (auto simp: ensure_table_def split: if_splits prod.splits)
  from alloc_one_failure [OF assms(1) this]
  show "pmm_inv s'" "acct s' = acct s" "frames s' = frames s" "same_env s s'" by blast+
qed

lemma ensure_table_keeps:
  assumes inv: "pmm_inv s" and ok: "space_ok s r"
    and t: "tables (frames s) (pfn r) is = Some (pfn t)" and up: "user_path (is @ [i])"
    and p: "present (tbl s t i)"
    and s': "s' = set_tbl t i e s" and e: "e = tbl s t i \<or> e = tbl s t i OR PTE_US"
  shows "grown s r (is @ [i]) 0 s'"
proof -
  have e': "present e = present (frames s (pfn t) i)" "pfn e = pfn (frames s (pfn t) i)"
    using e by (auto simp: tbl_def)
  have tabs: "tables (frames s') (pfn r) = tables (frames s) (pfn r)"
    unfolding s' set_tbl_put by (intro ext) (simp add: tables_put_bits [where F = "frames s" and f = "pfn t" and i = i, OF e'])
  have len: "length is \<noteq> 3" using up by (simp add: user_path_snoc)
  have leav: "leaves (frames s') (pfn r) = leaves (frames s) (pfn r)"
    unfolding s' set_tbl_put
    by (simp add: leaves_put_bits [where i = i, OF space_okD(3) [OF ok] t len e'])
  have "no_PS (frames s' f j)"
    if "tables (frames s) (pfn r) js = Some f" "js \<noteq> []" "user_path (js @ [j])" "present (frames s' f j)" for js f j
  proof (cases "f = pfn t \<and> j = i")
    case True
    have "js = is" using is_treeD [OF space_okD(3) [OF ok] t] that(1) True by simp
    then have "no_PS (tbl s t i)"
      using space_okD(5) [OF ok t _ up] p that(2) by (simp add: tbl_def)
    then show ?thesis using True e by (auto simp: s' set_tbl_put put_apply no_PS_or)
  next
    case False
    then show ?thesis
      using space_okD(5) [OF ok that(1,2,3)] that(4) by (auto simp: s' set_tbl_put put_apply)
  qed
  then have "space_ok s' r"
    using ok tabs by (intro space_ok_transfer [OF ok]) (auto simp: s' set_tbl_put)
  moreover have "frames s' g = frames s g" if "g \<notin> table_frames (frames s) (pfn r)" for g
    using that table_framesI [OF t] by (auto simp: s' set_tbl_put put_def)
  ultimately show ?thesis
    using inv tabs leav by (simp add: grown_def s' set_tbl_put)
qed

lemma ensure_table_creates:
  assumes inv: "pmm_inv s" and ok: "space_ok s r"
    and t: "tables (frames s) (pfn r) is = Some (pfn t)" and up: "user_path (is @ [i])"
    and p: "\<not> present (tbl s t i)"
    and alloc: "alloc_page_owned PAGE_OWNER_PAGE_TABLE s = (new, s1)" "new \<noteq> 0"
    and s': "s' = set_tbl t i (new OR table_flags flags) (zero_frame new s1)"
  shows "grown s r (is @ [i]) new s'"
proof -
  note new = alloc_one_success [OF inv alloc]
  let ?F = "frames s" and ?e = "new OR table_flags flags"
  have F': "frames s' = put (?F(pfn new := (\<lambda>_. 0))) (pfn t) i ?e"
    by (simp add: s' set_tbl_put zero_frame_upd new(7))
  have acct': "acct s' = (acct s)(pfn new := table_acct)" by (simp add: s' new(6))
  have env: "same_env s s'"
    using new(8) by (simp add: s' set_tbl_put zero_frame_upd same_env_def)
  have fresh: "pfn new \<notin> table_frames ?F (pfn r)"
  proof
    assume "pfn new \<in> table_frames ?F (pfn r)"
    then have "allocated (page_info s (pfn new))"
      using space_okD(4) [OF ok] table_frame_allocated by (auto simp: table_frames_def)
    then show False using new(4) by (simp add: acct_def)
  qed
  note link = tables_link [OF space_okD(3) [OF ok] t up p [unfolded tbl_def] fresh, of ?e]
  have tabs: "tables (frames s') (pfn r) = (tables ?F (pfn r))(is @ [i] \<mapsto> pfn new)"
    unfolding F' using link by (intro ext) simp
  have leav: "leaves (frames s') (pfn r) = leaves ?F (pfn r)"
    unfolding F' using leaves_link [OF space_okD(3) [OF ok] t up p [unfolded tbl_def] fresh, of ?e] by simp
  have tree: "is_tree (frames s') (pfn r)"
    unfolding is_tree_def tabs
    using space_okD(3) [OF ok] fresh by (auto simp: is_tree_def intro: table_framesI)
  have "table_frame s' f" if "tables (frames s') (pfn r) js = Some f" for js f
  proof (cases "f = pfn new")
    case True
    have "\<not> live_thread_owns_page (page_paddr (pfn new)) s'"
      using new(1,5) same_env_live [OF env] by (simp add: page_paddr_pfn)
    then show ?thesis
      using True new(2,3) env acct' by (intro table_frame_new) (auto simp: same_env_def)
  next
    case False
    then have "tables ?F (pfn r) js = Some f" using that by (auto simp: tabs split: if_splits)
    then show ?thesis
      using space_okD(4) [OF ok] table_frame_acct [OF env] acct' False by simp
  qed
  moreover have "no_PS (frames s' f j)"
    if "tables (frames s') (pfn r) js = Some f" "js \<noteq> []" "user_path (js @ [j])" "present (frames s' f j)" for js f j
  proof -
    consider "f = pfn t \<and> j = i" | "\<not> (f = pfn t \<and> j = i)" "f = pfn new"
      | "\<not> (f = pfn t \<and> j = i)" "f \<noteq> pfn new" by blast
    then show ?thesis
    proof cases
      case 1
      then show ?thesis using no_PS_aligned [OF new(1)] by (simp add: F' put_apply no_PS_or)
    next
      case 2
      then have "frames s' f j = 0" by (auto simp: F' put_apply)
      then show ?thesis using that(4) by (simp add: present_def)
    next
      case 3
      then have "frames s' f j = ?F f j" by (auto simp: F' put_apply)
      moreover have "tables ?F (pfn r) js = Some f"
        using 3(2) that(1) by (simp add: tabs split: if_splits)
      ultimately show ?thesis using space_okD(5) [OF ok _ that(2,3)] that(4) by simp
    qed
  qed
  ultimately have "space_ok s' r"
    using space_okD(1,2) [OF ok] tree by (auto simp: space_ok_def table_frames_def)
  moreover have "pmm_inv s'" using new(9) by (simp add: s' set_tbl_put zero_frame_upd)
  moreover have "tables ?F (pfn r) (is @ [i]) = None"
    using t p by (simp add: tables_snoc tbl_def)
  moreover have "frames s' g = frames s g"
    if "g \<notin> table_frames ?F (pfn r)" "allocated (page_info s g)" for g
    using that table_framesI [OF t] new(4) by (auto simp: F' put_def acct_def)
  ultimately show ?thesis
    using env acct' tabs leav new(1,4) alloc(2) by (simp add: grown_def)
qed

lemma ensure_table_grown:
  assumes inv: "pmm_inv s" and ok: "space_ok s r"
    and t: "tables (frames s) (pfn r) is = Some (pfn t)" and up: "user_path (is @ [i])"
    and res: "ensure_table t i flags s = (Some n, s')"
  shows "grown s r (is @ [i]) n s'"
    and "tables (frames s') (pfn r) (is @ [i]) = Some (pfn (tbl s' t i))"
proof -
  have "grown s r (is @ [i]) n s' \<and> present (tbl s' t i)"
  proof (cases "present (tbl s t i)")
    case True
    define e where "e = (if flags AND PTE_US \<noteq> 0 then tbl s t i OR PTE_US else tbl s t i)"
    have "set_tbl t i (tbl s t i) s = s" by (simp add: set_tbl_def tbl_def)
    then have s': "n = 0" "s' = set_tbl t i e s"
      using True res by (auto simp: ensure_table_def present_def e_def split: if_splits)
    have e: "e = tbl s t i \<or> e = tbl s t i OR PTE_US" by (simp add: e_def)
    then have "present (tbl s' t i)" using True by (auto simp: s' tbl_def set_tbl_def)
    with ensure_table_keeps [OF inv ok t up True s'(2) e] s'(1) show ?thesis by simp
  next
    case False
    then obtain s1 where alloc: "alloc_page_owned PAGE_OWNER_PAGE_TABLE s = (n, s1)" "n \<noteq> 0"
      and s': "s' = set_tbl t i (n OR table_flags flags) (zero_frame n s1)"
      using res by (auto simp: ensure_table_def present_def split: if_splits prod.splits)
    have "present (tbl s' t i)" by (simp add: s' tbl_def set_tbl_def)
    with ensure_table_creates [OF inv ok t up False alloc s'] show ?thesis by simp
  qed
  then show g: "grown s r (is @ [i]) n s'" and "tables (frames s') (pfn r) (is @ [i]) = Some (pfn (tbl s' t i))"
    using t up by (auto simp: grown_def tables_snoc tbl_def split: if_splits)
qed

lemma free_table_page:
  assumes inv: "pmm_inv s" and rdy: "pmm_ready s" and n: "n \<noteq> 0" "page_aligned n" "table_frame s (pfn n)"
  shows "\<exists>s'. free_page_owned n PAGE_OWNER_PAGE_TABLE s = (0, s') \<and> pmm_inv s' \<and> same_env s s' \<and>
    acct s' = (acct s)(pfn n := free_acct) \<and> frames s' = (frames s)(pfn n := (\<lambda>_. 0))"
proof -
  have "fst (free_pages_owned n 1 PAGE_OWNER_PAGE_TABLE s) = 0"
    using rdy n by (auto simp: free_pages_owned_def Let_def table_frame_def)
  then obtain s' where free: "free_pages_owned n 1 PAGE_OWNER_PAGE_TABLE s = (0, s')"
    by (metis prod.collapse)
  note eff = free_pages_owned_success [OF pmm_inv_parts(1) [OF inv] free]
  have cell: "page_info s' p = (if p = pfn n then page_info s p \<lparr>allocated := False,
      owner_of := PAGE_OWNER_FREE, refs_of := 0, contents := (\<lambda>_. 0)\<rparr> else page_info s p)" for p
    unfolding eff(7) by (simp add: le_less_Suc_eq)
  have "\<not> reserved (page_info s (pfn n))" using n(3) by (simp add: table_frame_def free_refused_iff)
  then have "acct s' = (acct s)(pfn n := free_acct)"
    by (intro ext) (simp add: acct_def cell)
  moreover have "contents (page_info s' p) = (if p = pfn n then (\<lambda>_. 0) else contents (page_info s p))" for p
    by (simp add: cell)
  then have "frames s' = (frames s)(pfn n := (\<lambda>_. 0))"
    by (intro ext) (simp add: page_info_def)
  ultimately show ?thesis
    using free eff(8) pmm_inv_free [OF inv free] by (simp add: free_page_owned_def)
qed

text \<open>Unlinking a table without mappings and freeing its page.\<close>

definition shrunk ::
    "'a pmm_scheme \<Rightarrow> u64 \<Rightarrow> nat list \<Rightarrow> u64 \<Rightarrow> 'a pmm_scheme \<Rightarrow> bool" where
  "shrunk s r is n s' \<longleftrightarrow>
     pmm_inv s' \<and> space_ok s' r \<and> same_env s s' \<and>
     leaves (frames s') (pfn r) = leaves (frames s) (pfn r) \<and>
     acct s' = (acct s)(pfn n := free_acct) \<and>
     tables (frames s') (pfn r) = (\<lambda>js. if \<exists>m. js = is @ m then None else tables (frames s) (pfn r) js) \<and>
     (\<forall>g. g \<notin> table_frames (frames s) (pfn r) \<longrightarrow> frames s' g = frames s g)"

lemma unlink_table:
  assumes inv: "pmm_inv s" and rdy: "pmm_ready s" and ok: "space_ok s r"
    and t: "tables (frames s) (pfn r) is = Some (pfn t)"
    and n: "n \<noteq> 0" "page_aligned n" "tables (frames s) (pfn r) (is @ [i]) = Some (pfn n)"
    and empty: "\<And>m k. leaves (frames s) (pfn r) (is @ i # m) k = None"
  shows "shrunk s r (is @ [i]) n (snd (free_page_owned n PAGE_OWNER_PAGE_TABLE (set_tbl t i 0 s)))"
proof -
  let ?F = "frames s" and ?s1 = "set_tbl t i 0 s"
  let ?G = "put ?F (pfn t) i 0"
  have tree: "is_tree ?F (pfn r)" by (rule space_okD(3) [OF ok])
  have np: "\<not> present 0" by (simp add: present_def)
  have "user_path (is @ [i])" using n(3) by (simp add: tables_def split: if_splits)
  then have len: "length is \<noteq> 3" by (simp add: user_path_snoc)
  have env1: "same_env s ?s1" and acct1: "acct ?s1 = acct s" and inv1: "pmm_inv ?s1"
    using inv by (simp_all add: set_tbl_put)
  have tf: "table_frame ?s1 (pfn n)"
    using space_okD(4) [OF ok n(3)] table_frame_acct [OF env1] acct1 by simp
  have rdy1: "pmm_ready ?s1" using rdy by (simp add: set_tbl_put)
  obtain s' where free: "free_page_owned n PAGE_OWNER_PAGE_TABLE ?s1 = (0, s')"
    and s': "pmm_inv s'" "same_env ?s1 s'" "acct s' = (acct s)(pfn n := free_acct)"
      "frames s' = ?G(pfn n := (\<lambda>_. 0))"
    using free_table_page [OF inv1 rdy1 n(1,2) tf] by (auto simp: set_tbl_put)
  have Gtabs: "tables ?G (pfn r) js = (if \<exists>m. js = is @ i # m then None else tables ?F (pfn r) js)" for js
    by (rule tables_unlink [OF tree t np])
  have gone: "pfn n \<notin> table_frames ?G (pfn r)"
  proof
    assume "pfn n \<in> table_frames ?G (pfn r)"
    then obtain js where js: "tables ?G (pfn r) js = Some (pfn n)" by (auto simp: table_frames_def)
    then have "tables ?F (pfn r) js = Some (pfn n)" by (simp add: Gtabs split: if_splits)
    then have "js = is @ [i]" using is_treeD [OF tree n(3)] by blast
    then show False using js by (simp add: Gtabs)
  qed
  have tabs: "tables (frames s') (pfn r) js = tables ?G (pfn r) js" for js
    unfolding s'(4) by (rule tables_same_frames) (use gone in auto)
  have "leaves (frames s') (pfn r) = leaves ?G (pfn r)"
    unfolding s'(4) by (rule leaves_same_frames) (use gone in auto)
  then have leav: "leaves (frames s') (pfn r) = leaves ?F (pfn r)"
    using leaves_unlink [OF tree t len np empty] by simp
  have sub: "tables ?F (pfn r) js = Some f \<and> f \<noteq> pfn n" if "tables (frames s') (pfn r) js = Some f" for js f
  proof -
    have G: "tables ?G (pfn r) js = Some f" using that by (simp add: tabs)
    then have "f \<noteq> pfn n" using gone table_framesI [OF G] by auto
    then show ?thesis using G by (simp add: Gtabs split: if_splits)
  qed
  have env: "same_env s s'" using env1 s'(2) by (rule same_env_trans)
  have "space_ok s' r"
    unfolding space_ok_def
  proof (intro conjI ballI allI impI)
    show "r \<noteq> 0" "page_aligned r" using space_okD(1,2) [OF ok] by auto
    show "is_tree (frames s') (pfn r)" using tree sub unfolding is_tree_def by blast
    show "table_frame s' f" if f: "f \<in> table_frames (frames s') (pfn r)" for f
    proof -
      obtain js where "tables ?F (pfn r) js = Some f" "f \<noteq> pfn n"
        using f sub unfolding table_frames_def by blast
      then show ?thesis using space_okD(4) [OF ok] table_frame_acct [OF env] s'(3) by simp
    qed
    show "no_PS (frames s' f j)" if "tables (frames s') (pfn r) js = Some f" "js \<noteq> []"
      "user_path (js @ [j])" "present (frames s' f j)" for js f j
      using that space_okD(5) [OF ok, of js f j] sub [OF that(1)] np
      by (auto simp: s'(4) put_apply split: if_splits)
  qed
  moreover have "frames s' g = frames s g" if "g \<notin> table_frames ?F (pfn r)" for g
    using that table_framesI [OF t] table_framesI [OF n(3)] by (auto simp: s'(4) put_def)
  ultimately show ?thesis
    using s'(1,3) env leav free by (simp add: shrunk_def fun_eq_iff tabs Gtabs)
qed

section \<open>Roll-back\<close>

text \<open>Two states that an observer of the space \<open>r\<close> and of the accounting cannot tell apart,
  and that agree on all memory that was in use outside the tables of \<open>r\<close>.\<close>

definition similar :: "u64 \<Rightarrow> 'a pmm_scheme \<Rightarrow> 'a pmm_scheme \<Rightarrow> bool" where
  "similar r s u \<longleftrightarrow>
     pmm_inv u \<and> space_ok u r \<and> same_env s u \<and> acct u = acct s \<and>
     tables (frames u) (pfn r) = tables (frames s) (pfn r) \<and>
     leaves (frames u) (pfn r) = leaves (frames s) (pfn r) \<and>
     (\<forall>g. g \<notin> table_frames (frames s) (pfn r) \<longrightarrow> allocated (page_info s g) \<longrightarrow>
        frames u g = frames s g)"

lemma similar_refl: "pmm_inv s \<Longrightarrow> space_ok s r \<Longrightarrow> similar r s s"
  by (simp add: similar_def)

lemma allocated_acct: "allocated (page_info s g) = fst (acct s g)"
  by (simp add: acct_def)

lemma grown_not_created: "grown s r p 0 s' \<Longrightarrow> similar r s s'"
  by (simp add: grown_def similar_def)

lemma similar_trans:
  assumes "similar r s t" and "similar r t u"
  shows "similar r s u"
  using assms same_env_trans
  by (auto simp: similar_def table_frames_def allocated_acct)

lemma tables_None_below: "tables F r p = None \<Longrightarrow> tables F r (p @ m) = None"
  using tables_prefix [of F r p m] by (cases "tables F r (p @ m)") auto

lemma leaves_None_below: "tables F r p = None \<Longrightarrow> leaves F r (p @ m) k = None"
  by (simp add: leaves_def tables_None_below)

lemma rollback:
  assumes rdy: "pmm_ready s" and g: "grown s r (is @ [i]) n s'" and sim: "similar r s' u"
    and t: "tables (frames s) (pfn r) is = Some (pfn t)"
  shows "similar r s (undo_table t i n u)"
proof (cases "n = 0")
  case True
  then show ?thesis
    using similar_trans [OF grown_not_created sim] g by (simp add: undo_table_def)
next
  case False
  from g False have n: "page_aligned n" "acct s (pfn n) = free_acct"
      "acct s' = (acct s)(pfn n := table_acct)"
    and none: "tables (frames s) (pfn r) (is @ [i]) = None"
    and tabs': "tables (frames s') (pfn r) = (tables (frames s) (pfn r))(is @ [i] \<mapsto> pfn n)"
    and leav': "leaves (frames s') (pfn r) = leaves (frames s) (pfn r)"
    and env': "same_env s s'"
    and fr': "\<And>g. g \<notin> table_frames (frames s) (pfn r) \<Longrightarrow> allocated (page_info s g) \<Longrightarrow>
        frames s' g = frames s g"
    by (auto simp: grown_def)
  from sim have u: "pmm_inv u" "space_ok u r" "same_env s' u" "acct u = acct s'"
      "tables (frames u) (pfn r) = tables (frames s') (pfn r)"
      "leaves (frames u) (pfn r) = leaves (frames s') (pfn r)"
    and fru: "\<And>g. g \<notin> table_frames (frames s') (pfn r) \<Longrightarrow> allocated (page_info s' g) \<Longrightarrow>
        frames u g = frames s' g"
    by (auto simp: similar_def)
  have rdyu: "pmm_ready u" using rdy env' u(3) by (simp add: same_env_def)
  have "leaves (frames u) (pfn r) (is @ i # m) k = None" for m k
    using leaves_None_below [OF none, of m k] by (simp add: u(6) leav')
  then have sh: "shrunk u r (is @ [i]) n (undo_table t i n u)"
    using unlink_table [OF u(1) rdyu u(2), of "is" t n i] t False n(1)
    by (simp add: undo_table_def u(5) tabs')
  let ?v = "undo_table t i n u"
  have "tables (frames ?v) (pfn r) js = tables (frames s) (pfn r) js" for js
    using sh tables_None_below [OF none] by (auto simp: shrunk_def u(5) tabs')
  moreover have "acct ?v = acct s"
    using sh n(2) by (auto simp: shrunk_def u(4) n(3))
  moreover have "frames ?v g = frames s g"
    if g: "g \<notin> table_frames (frames s) (pfn r)" "allocated (page_info s g)" for g
  proof -
    have "g \<noteq> pfn n" using g(2) n(2) by (auto simp: allocated_acct)
    then have "g \<notin> table_frames (frames s') (pfn r)" "allocated (page_info s' g)"
      using g n(3) by (auto simp: table_frames_def tabs' allocated_acct split: if_splits)
    then show ?thesis
      using fru fr' [OF g] sh u(5) by (auto simp: shrunk_def table_frames_def)
  qed
  ultimately show ?thesis
    using sh env' u(3) by (auto simp: similar_def shrunk_def u(6) leav' intro: same_env_trans)
qed

lemma similar_fails:
  assumes inv: "pmm_inv s" and ok: "space_ok s r" and fail: "ensure_table t i flags s = (None, s')"
  shows "similar r s s'"
proof -
  note f = ensure_table_fails [OF inv fail]
  have "space_ok s' r"
    using space_okD(5) [OF ok] by (intro space_ok_transfer [OF ok f(4,2)]) (auto simp: f(3))
  with f show ?thesis by (simp add: similar_def)
qed

section \<open>Mapping a page\<close>

lemma and_1FF_less: "unat (a AND 0x1FF :: u64) < 512"
proof -
  have "a AND 0x1FF = take_bit 9 a" by (simp add: take_bit_eq_mask mask_eq_exp_minus_1)
  then show ?thesis by (simp only: unsigned_take_bit_eq) (simp add: take_bit_eq_mod)
qed

lemma index_less [simp]:
  "PML4_INDEX v < 512" "PDPT_INDEX v < 512" "PD_INDEX v < 512" "PT_INDEX v < 512"
  by (simp_all add: PML4_INDEX_def PDPT_INDEX_def PD_INDEX_def PT_INDEX_def and_1FF_less)

definition user_address :: "u64 \<Rightarrow> bool" where
  "user_address v \<longleftrightarrow> v \<le> user_top"

lemma user_index: "user_address v \<Longrightarrow> PML4_INDEX v < 256"
proof -
  assume "user_address v"
  then have "unat v < 2 ^ 47" by (simp add: user_address_def user_top_def word_le_nat_alt)
  then have "unat v div 2 ^ 39 < 256" by simp
  moreover have "unat (drop_bit 39 v) = unat v div 2 ^ 39"
    by (simp add: drop_bit_eq_div unat_div)
  moreover have "unat (drop_bit 39 v AND 0x1FF) \<le> unat (drop_bit 39 v)"
    by (simp add: word_and_le2 flip: word_le_nat_alt)
  ultimately show ?thesis by (simp add: PML4_INDEX_def)
qed

definition table_path :: "u64 \<Rightarrow> nat list" where
  "table_path v = [PML4_INDEX v, PDPT_INDEX v, PD_INDEX v]"

lemma user_path_table [simp]:
  "user_address v \<Longrightarrow> user_path [PML4_INDEX v]"
  "user_address v \<Longrightarrow> user_path [PML4_INDEX v, PDPT_INDEX v]"
  "user_address v \<Longrightarrow> user_path [PML4_INDEX v, PDPT_INDEX v, PD_INDEX v]"
  by (simp_all add: user_path_def user_index)

text \<open>The mapping of a user page in the space \<open>r\<close>.\<close>

definition pte_of :: "'a pmm_scheme \<Rightarrow> u64 \<Rightarrow> u64 \<Rightarrow> u64 option" where
  "pte_of s r v = leaves (frames s) (pfn r) (table_path v) (PT_INDEX v)"

text \<open>A write into a last-level table.\<close>

lemma put_leaf_space:
  assumes inv: "pmm_inv s" and ok: "space_ok s r"
    and t: "tables (frames s) (pfn r) is = Some (pfn t)" "length is = 3" and i: "i < 512"
  shows "pmm_inv (set_tbl t i e s)" and "space_ok (set_tbl t i e s) r"
    and "same_env s (set_tbl t i e s)"
    and "tables (frames (set_tbl t i e s)) (pfn r) = tables (frames s) (pfn r)"
    and "leaves (frames (set_tbl t i e s)) (pfn r) js k =
      (if js = is \<and> k = i then (if present e then Some e else None)
       else leaves (frames s) (pfn r) js k)"
    and "g \<notin> table_frames (frames s) (pfn r) \<Longrightarrow> frames (set_tbl t i e s) g = frames s g"
proof -
  have tree: "is_tree (frames s) (pfn r)" by (rule space_okD(3) [OF ok])
  show inv': "pmm_inv (set_tbl t i e s)" and env: "same_env s (set_tbl t i e s)"
    using inv by (simp_all add: set_tbl_put)
  show tabs: "tables (frames (set_tbl t i e s)) (pfn r) = tables (frames s) (pfn r)"
    by (intro ext) (simp add: set_tbl_put tables_put_leaf [OF tree t])
  show "leaves (frames (set_tbl t i e s)) (pfn r) js k =
      (if js = is \<and> k = i then (if present e then Some e else None)
       else leaves (frames s) (pfn r) js k)"
    by (simp add: set_tbl_put leaves_put_leaf [OF tree t i])
  show "frames (set_tbl t i e s) g = frames s g" if "g \<notin> table_frames (frames s) (pfn r)"
    using that table_framesI [OF t(1)] by (auto simp: set_tbl_put put_def)
  have "frames (set_tbl t i e s) f j = frames s f j"
    if "tables (frames s) (pfn r) js = Some f" "user_path (js @ [j])" for js f j
  proof -
    have "js \<noteq> is" using that(2) t(2) by (auto simp: user_path_snoc)
    then have "f \<noteq> pfn t" using is_treeD [OF tree t(1), of js] that(1) by auto
    then show ?thesis by (simp add: set_tbl_put put_apply)
  qed
  then show "space_ok (set_tbl t i e s) r"
    using space_okD(5) [OF ok] by (intro space_ok_transfer [OF ok env _ tabs]) auto
qed

text \<open>Taking a reference changes the accounting of one user page only.\<close>

lemma acquire_space:
  assumes inv: "pmm_inv s" and ok: "space_ok s r" and acq: "pmm_acquire_user_mapping pa s = (0, s')"
  shows "pmm_inv s'" and "space_ok s' r" and "same_env s s'" and "frames s' = frames s"
    and "acct s' = (acct s)(pfn pa := (True, False, PAGE_OWNER_USER, refs_of (page_info s (pfn pa)) + 1))"
    and "user_page pa s"
proof -
  note a = acquire_success [OF pmm_inv_parts(1) [OF inv] acq]
  show "pmm_inv s'" by (rule pmm_inv_acquire [OF inv acq])
  show env: "same_env s s'" and F: "frames s' = frames s" and user: "user_page pa s"
    using a by blast+
  have "page_ok (page_info s (pfn pa))"
    using user pmm_inv_parts(4) [OF inv] by (simp add: user_page_def)
  then have nr: "\<not> reserved (page_info s (pfn pa))"
    using user by (auto simp: user_page_def page_ok_def)
  then show "acct s' = (acct s)(pfn pa := (True, False, PAGE_OWNER_USER, refs_of (page_info s (pfn pa)) + 1))"
    using user by (intro ext) (simp add: acct_def a(3) user_page_def)
  have "acct s' f = acct s f" if "table_frame s f" for f
  proof -
    have "f \<noteq> pfn pa" using that user by (auto simp: table_frame_def free_refused_iff user_page_def)
    then show ?thesis by (simp add: acct_def a(3))
  qed
  then have "table_frame s' f" if "table_frame s f" for f
    using that table_frame_acct [OF env] by blast
  then show "space_ok s' r" using ok by (simp add: space_ok_def F)
qed

text \<open>The state after some levels have been walked: the mappings and everything that was in
  use outside the tables are as before.\<close>

definition extends :: "u64 \<Rightarrow> 'a pmm_scheme \<Rightarrow> 'a pmm_scheme \<Rightarrow> bool" where
  "extends r s t \<longleftrightarrow>
     pmm_inv t \<and> space_ok t r \<and> same_env s t \<and>
     leaves (frames t) (pfn r) = leaves (frames s) (pfn r) \<and>
     (\<forall>g. acct t g = acct s g \<or> acct s g = free_acct \<and> acct t g = table_acct) \<and>
     (\<forall>g. allocated (page_info s g) \<longrightarrow> g \<notin> table_frames (frames s) (pfn r) \<longrightarrow>
        g \<notin> table_frames (frames t) (pfn r) \<and> frames t g = frames s g)"

lemma extends_refl: "pmm_inv s \<Longrightarrow> space_ok s r \<Longrightarrow> extends r s s"
  by (simp add: extends_def)

lemma extends_trans:
  assumes st: "extends r s t" and tu: "extends r t u"
  shows "extends r s u"
proof -
  have 1: "acct u g = acct s g \<or> acct s g = free_acct \<and> acct u g = table_acct" for g
  proof -
    have "acct t g = acct s g \<or> acct s g = free_acct \<and> acct t g = table_acct"
      and "acct u g = acct t g \<or> acct t g = free_acct \<and> acct u g = table_acct"
      using st tu by (simp_all add: extends_def)
    then show ?thesis by auto
  qed
  have 2: "g \<notin> table_frames (frames u) (pfn r) \<and> frames u g = frames s g"
    if "allocated (page_info s g)" "g \<notin> table_frames (frames s) (pfn r)" for g
  proof -
    have "acct t g = acct s g"
      using st that(1) unfolding extends_def allocated_acct by (metis fst_conv)
    then have "allocated (page_info t g)" using that(1) by (simp add: allocated_acct)
    then show ?thesis using st tu that by (simp add: extends_def)
  qed
  have "same_env s u" using st tu by (auto simp: extends_def intro: same_env_trans)
  with 1 2 st tu show ?thesis by (simp add: extends_def)
qed

lemma grown_extends: "grown s r p n s' \<Longrightarrow> extends r s s'"
  by (auto simp: grown_def extends_def table_frames_def allocated_acct split: if_splits)

text \<open>One level: it fails and the whole call is rolled back, or the rest of the call runs on
  the next table with a roll-back that covers this level.\<close>

lemma with_table_cases:
  assumes ext: "extends r s0 s" and rdy: "pmm_ready s0"
    and t: "tables (frames s) (pfn r) is = Some (pfn t)" and up: "user_path (is @ [i])"
    and undo: "\<And>w. similar r s w \<Longrightarrow> similar r s0 (undo w)"
    and res: "with_table undo t i flags rest s = (c, s')"
  obtains (failed) "c = -1" "similar r s0 s'"
  | (entered) undo' t' s1 where "rest undo' t' s1 = (c, s')" "extends r s0 s1"
      "tables (frames s1) (pfn r) (is @ [i]) = Some (pfn t')"
      "\<And>w. similar r s1 w \<Longrightarrow> similar r s0 (undo' w)"
proof -
  have inv: "pmm_inv s" and ok: "space_ok s r" and rdy': "pmm_ready s"
    using ext rdy by (simp_all add: extends_def same_env_def)
  obtain a s1 where e: "ensure_table t i flags s = (a, s1)" by fastforce
  show thesis
  proof (cases a)
    case None
    then have "c = -1" "s' = undo s1" using res e by (simp_all add: with_table_def)
    with undo [OF similar_fails [OF inv ok e [unfolded None]]] show thesis by (intro failed) simp_all
  next
    case (Some n)
    note g = ensure_table_grown [OF inv ok t up e [unfolded Some]]
    have roll: "similar r s0 ((undo \<circ> undo_table t i n) w)" if "similar r s1 w" for w
      using undo [OF rollback [OF rdy' g(1) that t]] by simp
    show thesis
    proof (rule entered [OF _ extends_trans [OF ext grown_extends [OF g(1)]] _ roll])
      show "rest (undo \<circ> undo_table t i n) (tbl s1 t i AND PTE_ADDR_MASK) s1 = (c, s')"
        using res by (simp add: with_table_def e Some)
      show "tables (frames s1) (pfn r) (is @ [i]) = Some (pfn (tbl s1 t i AND PTE_ADDR_MASK))"
        using g(2) by simp
    qed
  qed
qed

text \<open>The last level.\<close>

definition leaf_entry :: "u64 \<Rightarrow> u64 \<Rightarrow> u64" where
  "leaf_entry pa flags = (pa AND PTE_ADDR_MASK) OR flags OR PTE_P"

lemma present_leaf_entry [simp]: "present (leaf_entry pa flags)"
  by (simp add: leaf_entry_def present_or_P) (simp add: present_def PTE_P_def)

lemma map_leaf_cases:
  assumes ext: "extends r s0 s"
    and t: "tables (frames s) (pfn r) is = Some (pfn t)" "length is = 3" and i: "i < 512"
    and undo: "\<And>w. similar r s w \<Longrightarrow> similar r s0 (undo w)"
    and res: "map_leaf i pa flags undo t s = (c, s')"
  obtains (occupied) "c = -2" "s' = s" "leaves (frames s) (pfn r) is i \<noteq> None"
  | (failed) "c = -1" "similar r s0 s'"
  | (mapped) "c = 0" "leaves (frames s) (pfn r) is i = None"
      "if flags AND PTE_US \<noteq> 0
       then pmm_acquire_user_mapping pa (set_tbl t i (leaf_entry pa flags) s) = (0, s')
       else s' = set_tbl t i (leaf_entry pa flags) s"
proof -
  have inv: "pmm_inv s" and ok: "space_ok s r" using ext by (simp_all add: extends_def)
  have leaf: "leaves (frames s) (pfn r) is i =
      (if present (tbl s t i) then Some (tbl s t i) else None)"
    using t i by (simp add: leaves_def tbl_def)
  let ?s1 = "set_tbl t i (leaf_entry pa flags) s"
  obtain q s2 where acq: "pmm_acquire_user_mapping pa ?s1 = (q, s2)" by fastforce
  note res' = res [unfolded map_leaf_def Let_def, folded leaf_entry_def, unfolded acq prod.case]
  consider "present (tbl s t i)" | "\<not> present (tbl s t i)" "flags AND PTE_US \<noteq> 0" "q \<noteq> 0"
    | "\<not> present (tbl s t i)" "flags AND PTE_US \<noteq> 0 \<longrightarrow> q = 0" by blast
  then show thesis
  proof cases
    case 1
    then show thesis using res' leaf by (intro occupied) (auto simp: present_def)
  next
    case 2
    have "s2 = ?s1" using acquire_failure [of pa ?s1] acq 2(3) by simp
    then have z: "set_tbl t i 0 s2 = set_tbl t i 0 s" by (simp add: set_tbl_def)
    note pl = put_leaf_space [OF inv ok t i]
    have "similar r s (set_tbl t i 0 s)"
      unfolding similar_def using pl(1-4,6) 2(1) leaf by (auto simp: fun_eq_iff pl(5) present_def)
    from undo [OF this] show thesis
      using res' 2 z by (intro failed) (auto simp: present_def)
  next
    case 3
    then show thesis
      using res' leaf acq by (intro mapped) (auto simp: present_def split: if_splits)
  qed
qed

lemma map_page_cases:
  assumes inv: "pmm_inv s" and rdy: "pmm_ready s" and ok: "space_ok s r" and va: "user_address v"
    and res: "map_page r v pa flags s = (c, s')"
  obtains (failed) "c = -1" "similar r s s'"
  | (occupied) "c = -2" "extends r s s'" "pte_of s r v \<noteq> None"
  | (mapped) t u where "c = 0" "extends r s u" "pte_of s r v = None"
      "tables (frames u) (pfn r) (table_path v) = Some (pfn t)"
      "if flags AND PTE_US \<noteq> 0
       then pmm_acquire_user_mapping pa (set_tbl t (PT_INDEX v) (leaf_entry pa flags) u) = (0, s')
       else s' = set_tbl t (PT_INDEX v) (leaf_entry pa flags) u"
proof (cases "page_aligned v \<and> page_aligned pa")
  case False
  then show thesis
    using res ok similar_refl [OF inv ok] by (intro failed) (auto simp: map_page_def split: if_splits)
next
  case True
  have root: "tables (frames s) (pfn r) [] = Some (pfn r)" by simp
  have up: "user_path ([] @ [PML4_INDEX v])" "user_path ([PML4_INDEX v] @ [PDPT_INDEX v])"
    "user_path ([PML4_INDEX v, PDPT_INDEX v] @ [PD_INDEX v])"
    using va by simp_all
  from True res space_okD(1) [OF ok]
  have "with_table id r (PML4_INDEX v) flags (\<lambda>undo pdpt.
          with_table undo pdpt (PDPT_INDEX v) flags (\<lambda>undo pd.
            with_table undo pd (PD_INDEX v) flags (\<lambda>undo pt.
              map_leaf (PT_INDEX v) pa flags undo pt))) s = (c, s')"
    by (simp add: map_page_def)
  note call = with_table_cases [OF extends_refl [OF inv ok] rdy root up(1) _ this]
  show thesis
  proof (rule call)
    fix undo1 t1 s1
    assume 1: "with_table undo1 t1 (PDPT_INDEX v) flags (\<lambda>undo pd.
            with_table undo pd (PD_INDEX v) flags (\<lambda>undo pt.
              map_leaf (PT_INDEX v) pa flags undo pt)) s1 = (c, s')" "extends r s s1"
      "tables (frames s1) (pfn r) ([] @ [PML4_INDEX v]) = Some (pfn t1)"
      "\<And>w. similar r s1 w \<Longrightarrow> similar r s (undo1 w)"
    show thesis
    proof (rule with_table_cases [OF 1(2) rdy 1(3) [unfolded append_Nil] up(2) 1(4) 1(1)])
      fix undo2 t2 s2
      assume 2: "with_table undo2 t2 (PD_INDEX v) flags (\<lambda>undo pt.
              map_leaf (PT_INDEX v) pa flags undo pt) s2 = (c, s')" "extends r s s2"
        "tables (frames s2) (pfn r) ([PML4_INDEX v] @ [PDPT_INDEX v]) = Some (pfn t2)"
        "\<And>w. similar r s2 w \<Longrightarrow> similar r s (undo2 w)"
      show thesis
      proof (rule with_table_cases [OF 2(2) rdy 2(3) [unfolded append_Cons append_Nil] up(3) 2(4) 2(1)])
        fix undo3 t3 s3
        assume 3: "map_leaf (PT_INDEX v) pa flags undo3 t3 s3 = (c, s')" "extends r s s3"
          "tables (frames s3) (pfn r) ([PML4_INDEX v, PDPT_INDEX v] @ [PD_INDEX v]) = Some (pfn t3)"
          "\<And>w. similar r s3 w \<Longrightarrow> similar r s (undo3 w)"
        have t3: "tables (frames s3) (pfn r) (table_path v) = Some (pfn t3)"
          using 3(3) by (simp add: table_path_def)
        have len: "length (table_path v) = 3" by (simp add: table_path_def)
        have pte: "leaves (frames s3) (pfn r) (table_path v) (PT_INDEX v) = pte_of s r v"
          using 3(2) by (simp add: pte_of_def extends_def)
        show thesis
          by (rule map_leaf_cases [OF 3(2) t3 len _ 3(4) 3(1)])
            (use 3(2) t3 in \<open>auto simp: pte intro: failed occupied mapped\<close>)
      qed (use failed in auto)
    qed (use failed in auto)
  qed (use failed in auto)
qed

text \<open>What a successful call leaves behind.\<close>

lemma mapped_effect:
  assumes ext: "extends r s u" and t: "tables (frames u) (pfn r) (table_path v) = Some (pfn t)"
    and s': "if flags AND PTE_US \<noteq> 0
       then pmm_acquire_user_mapping pa (set_tbl t (PT_INDEX v) (leaf_entry pa flags) u) = (0, s')
       else s' = set_tbl t (PT_INDEX v) (leaf_entry pa flags) u"
  shows "pmm_inv s'" and "space_ok s' r" and "same_env s s'"
    and "leaves (frames s') (pfn r) js k =
      (if js = table_path v \<and> k = PT_INDEX v then Some (leaf_entry pa flags)
       else leaves (frames s) (pfn r) js k)"
    and "allocated (page_info s g) \<Longrightarrow> g \<notin> table_frames (frames s) (pfn r) \<Longrightarrow> frames s' g = frames s g"
    and "flags AND PTE_US \<noteq> 0 \<Longrightarrow> user_page pa s \<and>
      refs_of (page_info s' (pfn pa)) = refs_of (page_info s (pfn pa)) + 1"
proof -
  have inv: "pmm_inv u" and ok: "space_ok u r" and env: "same_env s u"
    and leav: "leaves (frames u) (pfn r) = leaves (frames s) (pfn r)"
    and acct: "\<And>g. acct u g = acct s g \<or> acct s g = free_acct \<and> acct u g = table_acct"
    using ext by (simp_all add: extends_def)
  let ?w = "set_tbl t (PT_INDEX v) (leaf_entry pa flags) u"
  have len: "length (table_path v) = 3" by (simp add: table_path_def)
  note w = put_leaf_space [OF inv ok t len index_less(4), where e = "leaf_entry pa flags"]
  have s'w: "pmm_inv s' \<and> space_ok s' r \<and> same_env ?w s' \<and> frames s' = frames ?w"
    using s' acquire_space(1-4) [OF w(1,2)] w(1,2) by (cases "flags AND PTE_US = 0") auto
  then show "pmm_inv s'" "space_ok s' r" by blast+
  show "same_env s s'" using same_env_trans [OF env same_env_trans [OF w(3)]] s'w by blast
  show "leaves (frames s') (pfn r) js k =
      (if js = table_path v \<and> k = PT_INDEX v then Some (leaf_entry pa flags)
       else leaves (frames s) (pfn r) js k)"
    using s'w by (simp add: w(5) leav)
  show "frames s' g = frames s g"
    if "allocated (page_info s g)" "g \<notin> table_frames (frames s) (pfn r)"
    using that ext s'w w(6) by (auto simp: extends_def)
  show "user_page pa s \<and> refs_of (page_info s' (pfn pa)) = refs_of (page_info s (pfn pa)) + 1"
    if "flags AND PTE_US \<noteq> 0"
  proof -
    have acq: "pmm_acquire_user_mapping pa ?w = (0, s')" using s' that by simp
    note a = acquire_space(5,6) [OF w(1,2) acq]
    have "acct ?w (pfn pa) = acct u (pfn pa)" by simp
    moreover have "acct u (pfn pa) = acct s (pfn pa)"
      using a(2) acct [of "pfn pa"] by (auto simp: user_page_def acct_def set_tbl_put page_info_frames)
    ultimately have same: "acct ?w (pfn pa) = acct s (pfn pa)" by simp
    then have "user_page pa s"
      using a(2) env by (simp add: user_page_def acct_def set_tbl_put same_env_def page_info_frames)
    moreover have "snd (snd (snd (acct s' (pfn pa)))) = refs_of (page_info s (pfn pa)) + 1"
      using a(1) same by (simp add: acct_def set_tbl_put page_info_frames)
    ultimately show ?thesis by (simp add: acct_def)
  qed
qed

end
