(* ===== verification/Paging_Unmap.thy ===== *)
theory Paging_Unmap
  imports Paging_Map
begin

text \<open>
  Looking up, unmapping and copy-on-write on well-formed address spaces, and the range checks
  and copies that rest on them.
\<close>

section \<open>Looking up an entry\<close>

lemma tables_step:
  "tables F r is = Some f \<Longrightarrow> user_path (is @ [i]) \<Longrightarrow>
   tables F r (is @ [i]) = (if present (F f i) then Some (pfn (F f i)) else None)"
  by (simp add: tables_snoc)

text \<open>On a well-formed space \<open>get_user_pte\<close> finds the last-level table of the address.\<close>

lemma get_user_pte_tables:
  assumes ok: "space_ok s r" and va: "user_address v" "page_aligned v"
  shows "case get_user_pte r v s of
      None \<Rightarrow> tables (frames s) (pfn r) (table_path v) = None
    | Some (t, i) \<Rightarrow> tables (frames s) (pfn r) (table_path v) = Some (pfn t) \<and> i = PT_INDEX v"
proof -
  let ?F = "frames s" and ?i4 = "PML4_INDEX v" and ?i3 = "PDPT_INDEX v" and ?i2 = "PD_INDEX v"
  let ?e4 = "?F (pfn r) ?i4" let ?e3 = "?F (pfn ?e4) ?i3" let ?e2 = "?F (pfn ?e3) ?i2"
  have up: "user_path [?i4]" "user_path [?i4, ?i3]" "user_path [?i4, ?i3, ?i2]"
    using va(1) by simp_all
  have t1: "tables ?F (pfn r) [?i4] = (if present ?e4 then Some (pfn ?e4) else None)"
    using tables_step [of ?F "pfn r" "[]" _ ?i4] up(1) by simp
  have t2: "tables ?F (pfn r) [?i4, ?i3] = (if present ?e4 \<and> present ?e3 then Some (pfn ?e3) else None)"
    using tables_step [of ?F "pfn r" "[?i4]" _ ?i3] tables_None_below [of ?F "pfn r" "[?i4]" "[?i3]"] up(2) t1
    by (auto split: if_splits)
  have t3: "tables ?F (pfn r) (table_path v) =
      (if present ?e4 \<and> present ?e3 \<and> present ?e2 then Some (pfn ?e2) else None)"
    unfolding table_path_def
    using tables_step [of ?F "pfn r" "[?i4, ?i3]" _ ?i2]
      tables_None_below [of ?F "pfn r" "[?i4, ?i3]" "[?i2]"] up(3) t2
    by (auto split: if_splits)
  have ps3: "no_PS ?e3" if "present ?e4" "present ?e3"
    using space_okD(5) [OF ok, of "[?i4]" "pfn ?e4" ?i3] t1 up(2) that by simp
  have ps2: "no_PS ?e2" if "present ?e4" "present ?e3" "present ?e2"
    using space_okD(5) [OF ok, of "[?i4, ?i3]" "pfn ?e3" ?i2] t2 up(3) that by simp
  show ?thesis
    using space_okD(1) [OF ok] va(2) t3 ps3 ps2
    unfolding get_user_pte_def Let_def tbl_def pfn_mask present_def no_PS_def by auto
qed

lemma get_user_pte_SomeD:
  assumes "space_ok s r" and "user_address v" and "get_user_pte r v s = Some (t, i)"
  shows "tables (frames s) (pfn r) (table_path v) = Some (pfn t)" and "i = PT_INDEX v"
    and "pte_of s r v = (if present (tbl s t i) then Some (tbl s t i) else None)"
proof -
  have "page_aligned v" using assms(3) by (auto simp: get_user_pte_def split: if_splits)
  from get_user_pte_tables [OF assms(1,2) this] assms(3)
  show *: "tables (frames s) (pfn r) (table_path v) = Some (pfn t)" "i = PT_INDEX v" by simp_all
  then show "pte_of s r v = (if present (tbl s t i) then Some (tbl s t i) else None)"
    by (simp add: pte_of_def leaves_def tbl_def table_path_def)
qed

lemma get_user_pte_None:
  assumes "space_ok s r" and "user_address v" and "get_user_pte r v s = None" and "page_aligned v"
  shows "pte_of s r v = None"
  using get_user_pte_tables [OF assms(1,2,4)] assms(3)
  by (simp add: pte_of_def leaves_def)

section \<open>User pages and the tables of a space\<close>

lemma user_page_not_table: "user_page pa s \<Longrightarrow> table_frame s f \<Longrightarrow> f \<noteq> pfn pa"
  by (auto simp: table_frame_def free_refused_iff user_page_def)

lemma user_page_not_reserved: "pmm_inv s \<Longrightarrow> user_page pa s \<Longrightarrow> \<not> reserved (page_info s (pfn pa))"
  using pmm_inv_parts(4) [of s "pfn pa"] by (auto simp: user_page_def page_ok_def)

lemma user_page_acct:
  assumes "same_env s s'" and "acct s' (pfn pa) = acct s (pfn pa)"
  shows "user_page pa s' = user_page pa s"
    and "refs_of (page_info s' (pfn pa)) = refs_of (page_info s (pfn pa))"
  using assms by (auto simp: user_page_def acct_def same_env_def)

lemma user_page_outside_tables:
  "space_ok s r \<Longrightarrow> user_page pa s \<Longrightarrow> pfn pa \<notin> table_frames (frames s) (pfn r)"
  using user_page_not_table [of pa s "pfn pa"] by (auto simp: space_ok_def)

text \<open>Tables survive a change of the accounting and the contents of pages that are no tables.\<close>

lemma space_ok_same_tables:
  assumes ok: "space_ok s r" and env: "same_env s s'"
    and tf: "\<And>f. table_frame s f \<Longrightarrow> acct s' f = acct s f \<and> frames s' f = frames s f"
  shows "space_ok s' r" and "tables (frames s') (pfn r) = tables (frames s) (pfn r)"
    and "leaves (frames s') (pfn r) = leaves (frames s) (pfn r)"
proof -
  have F: "frames s' f = frames s f" if "f \<in> table_frames (frames s) (pfn r)" for f
    using that tf space_okD(4) [OF ok] by (auto simp: table_frames_def)
  show tabs: "tables (frames s') (pfn r) = tables (frames s) (pfn r)"
    by (intro ext tables_same_frames) (simp add: F)
  show "leaves (frames s') (pfn r) = leaves (frames s) (pfn r)"
    by (rule leaves_same_frames) (simp add: F)
  have "table_frame s' f" if "f \<in> table_frames (frames s) (pfn r)" for f
    using that tf table_frame_acct [OF env] ok by (auto simp: space_ok_def)
  moreover have "no_PS (frames s' f i)" if "tables (frames s) (pfn r) is = Some f" "is \<noteq> []"
    "user_path (is @ [i])" "present (frames s' f i)" for "is" f i
    using space_okD(5) [OF ok that(1,2,3)] that(4) F [OF table_framesI [OF that(1)]] by simp
  ultimately show "space_ok s' r"
    using ok by (simp add: space_ok_def is_tree_def table_frames_def tabs)
qed

lemma release_user_ok:
  "pmm_shape s \<Longrightarrow> user_page pa s \<Longrightarrow> refs_of (page_info s (pfn pa)) \<noteq> 0 \<Longrightarrow>
   \<exists>s'. pmm_release_user_mapping pa s = (0, s')"
  by (simp add: release_user_cases)

lemma release_space:
  assumes inv: "pmm_inv s" and ok: "space_ok s r" and rel: "pmm_release_user_mapping pa s = (0, s')"
  shows "pmm_inv s'" and "space_ok s' r" and "same_env s s'"
    and "leaves (frames s') (pfn r) = leaves (frames s) (pfn r)"
    and "tables (frames s') (pfn r) = tables (frames s) (pfn r)"
    and "user_page pa s" and "refs_of (page_info s (pfn pa)) \<noteq> 0"
    and "acct s' = (acct s)(pfn pa := if refs_of (page_info s (pfn pa)) = 1 then free_acct
           else (True, False, PAGE_OWNER_USER, refs_of (page_info s (pfn pa)) - 1))"
    and "g \<noteq> pfn pa \<or> refs_of (page_info s (pfn pa)) \<noteq> 1 \<Longrightarrow> frames s' g = frames s g"
proof -
  note a = release_user_success [OF pmm_inv_parts(1) [OF inv] rel]
  show "pmm_inv s'" by (rule pmm_inv_release [OF inv rel])
  show env: "same_env s s'" and user: "user_page pa s" and "refs_of (page_info s (pfn pa)) \<noteq> 0"
    using a(1,2,4) by blast+
  have fr: "frames s' g = frames s g" if "g \<noteq> pfn pa \<or> refs_of (page_info s (pfn pa)) \<noteq> 1" for g
  proof -
    have "contents (page_info s' g) = contents (page_info s g)"
      using that by (auto simp: a(3) last_reference_def)
    then show ?thesis by (simp add: page_info_def)
  qed
  then show "g \<noteq> pfn pa \<or> refs_of (page_info s (pfn pa)) \<noteq> 1 \<Longrightarrow> frames s' g = frames s g" by blast
  show acct: "acct s' = (acct s)(pfn pa := if refs_of (page_info s (pfn pa)) = 1 then free_acct
           else (True, False, PAGE_OWNER_USER, refs_of (page_info s (pfn pa)) - 1))"
    using user user_page_not_reserved [OF inv user]
    by (intro ext) (simp add: acct_def a(3) user_page_def last_reference_def)
  have "acct s' f = acct s f \<and> frames s' f = frames s f" if "table_frame s f" for f
    using user_page_not_table [OF user that] fr by (simp add: acct)
  from space_ok_same_tables [OF ok env this]
  show "space_ok s' r" "leaves (frames s') (pfn r) = leaves (frames s) (pfn r)"
    "tables (frames s') (pfn r) = tables (frames s) (pfn r)" by blast+
qed

section \<open>Copy on write\<close>

lemma refcount_user_page:
  assumes inv: "pmm_inv s" and refs: "pmm_page_refcount pa s \<noteq> 0"
  shows "pmm_page_refcount pa s = refs_of (page_info s (pfn pa))"
    and "pa \<noteq> 0 \<Longrightarrow> user_page pa s"
proof -
  have *: "pmm_ready s" "page_aligned pa" "pfn pa < n_pages s" "allocated (page_info s (pfn pa))"
    "pmm_page_refcount pa s = refs_of (page_info s (pfn pa))"
    using refs by (auto simp: pmm_page_refcount_def page_info_def Let_def split: if_splits)
  then show "pmm_page_refcount pa s = refs_of (page_info s (pfn pa))" by simp
  have "owner_of (page_info s (pfn pa)) = PAGE_OWNER_USER"
    using pmm_inv_parts(4) [OF inv *(3)] refs *(5) by (auto simp: page_ok_def split: if_splits)
  with * show "pa \<noteq> 0 \<Longrightarrow> user_page pa s" by (simp add: user_page_def)
qed

text \<open>The page of a copy-on-write entry is never page 0, which is reserved.\<close>

lemma refcount_not_zero_page:
  assumes inv: "pmm_inv s" and refs: "pmm_page_refcount pa s \<noteq> 0"
  shows "pa \<noteq> 0"
proof
  assume "pa = 0"
  then have "pfn pa = 0" by (simp add: pfn_def)
  moreover have "refs_of (page_info s (pfn pa)) \<noteq> 0"
    using refcount_user_page(1) [OF inv refs] refs by simp
  moreover have "page_ok (page_info s 0)" "reserved (page_info s 0)"
    using pmm_inv_parts(2,3,4) [OF inv] by blast+
  ultimately show False by (simp add: page_ok_def)
qed

definition cow_bits :: u64 where "cow_bits = PTE_P OR PTE_US OR PTE_COW"

definition private_entry :: "u64 \<Rightarrow> bool" where
  "private_entry e \<longleftrightarrow> e AND (PTE_P OR PTE_US OR PTE_RW) = PTE_P OR PTE_US OR PTE_RW \<and> e AND PTE_COW = 0"

lemma bit_exp_u64: "k < 64 \<Longrightarrow> bit (2 ^ k :: u64) n \<longleftrightarrow> n = k"
  by (auto simp: bit_exp_iff)

lemma bit_PTE:
  "bit PTE_P n \<longleftrightarrow> n = 0" "bit PTE_RW n \<longleftrightarrow> n = 1" "bit PTE_US n \<longleftrightarrow> n = 2"
  "bit PTE_PS n \<longleftrightarrow> n = 7" "bit PTE_COW n \<longleftrightarrow> n = 9"
  using bit_exp_u64 [of 0 n] bit_exp_u64 [of 1 n] bit_exp_u64 [of 2 n] bit_exp_u64 [of 7 n] bit_exp_u64 [of 9 n]
  by (simp_all add: PTE_P_def PTE_RW_def PTE_US_def PTE_PS_def PTE_COW_def)

lemma and_self_bits: "e AND m = m \<longleftrightarrow> (\<forall>n. bit m n \<longrightarrow> bit (e :: u64) n)"
proof
  show "\<forall>n. bit m n \<longrightarrow> bit e n" if "e AND m = m" using that by (metis bit_and_iff)
  show "e AND m = m" if "\<forall>n. bit m n \<longrightarrow> bit e n"
    using that by (intro bit_eqI) (auto simp: bit_and_iff)
qed

lemma and_zero_bits: "e AND m = 0 \<longleftrightarrow> (\<forall>n. bit m n \<longrightarrow> \<not> bit (e :: u64) n)"
proof
  show "\<forall>n. bit m n \<longrightarrow> \<not> bit e n" if "e AND m = 0" using that by (metis bit_0_eq bit_and_iff bot_apply bot_bool_def)
  show "e AND m = 0" if "\<forall>n. bit m n \<longrightarrow> \<not> bit e n"
    using that by (intro bit_eqI) (auto simp: bit_and_iff)
qed

lemma present_bit: "present e \<longleftrightarrow> bit e 0"
  by (simp add: present_def and_zero_bits bit_PTE)

lemma private_entry_bits: "private_entry e \<longleftrightarrow> bit e 0 \<and> bit e 1 \<and> bit e 2 \<and> \<not> bit e 9"
  by (auto simp: private_entry_def and_self_bits and_zero_bits bit_or_iff bit_PTE)

lemma drop12: "(\<And>n. 12 \<le> n \<Longrightarrow> bit a n = bit b n) \<Longrightarrow> pfn a = pfn b"
proof -
  assume "\<And>n. 12 \<le> n \<Longrightarrow> bit a n = bit b n"
  then have "drop_bit 12 a = drop_bit 12 b"
    by (intro bit_eqI) (simp add: bit_drop_bit_eq)
  then show ?thesis by (simp only: pfn_drop_bit)
qed

lemma private_upgrade:
  assumes "e AND cow_bits = cow_bits"
  shows "private_entry ((e OR PTE_RW) AND NOT PTE_COW)" "pfn ((e OR PTE_RW) AND NOT PTE_COW) = pfn e"
proof -
  show "private_entry ((e OR PTE_RW) AND NOT PTE_COW)"
    using assms by (auto simp: private_entry_bits cow_bits_def and_self_bits bit_and_iff bit_or_iff bit_not_iff bit_PTE)
  show "pfn ((e OR PTE_RW) AND NOT PTE_COW) = pfn e"
    by (rule drop12) (auto simp: bit_and_iff bit_or_iff bit_not_iff bit_PTE dest: bit_imp_le_length)
qed

lemma bit_aligned: "page_aligned a \<Longrightarrow> n < 12 \<Longrightarrow> \<not> bit a n"
proof -
  assume "page_aligned a" "n < 12"
  moreover have "(0xFFF :: u64) = mask 12" by (simp add: mask_eq_exp_minus_1)
  ultimately have "a AND mask 12 = 0" by (metis page_aligned_def)
  then have "bit (mask 12 :: u64) n \<longrightarrow> \<not> bit a n" unfolding and_zero_bits by blast
  then show ?thesis using \<open>n < 12\<close> by (simp only: bit_mask_iff) simp
qed

lemma private_new:
  assumes "page_aligned a"
  shows "private_entry ((a AND PTE_ADDR_MASK) OR PTE_P OR PTE_US OR PTE_RW)"
    "pfn ((a AND PTE_ADDR_MASK) OR PTE_P OR PTE_US OR PTE_RW) = pfn a"
proof -
  show "private_entry ((a AND PTE_ADDR_MASK) OR PTE_P OR PTE_US OR PTE_RW)"
    using bit_aligned [OF assms, of 9] unfolding mask_page_aligned [OF assms]
    by (auto simp: private_entry_bits bit_or_iff bit_PTE)
  show "pfn ((a AND PTE_ADDR_MASK) OR PTE_P OR PTE_US OR PTE_RW) = pfn a"
    unfolding mask_page_aligned [OF assms] by (rule drop12) (auto simp: bit_or_iff bit_PTE)
qed

lemma private_present: "private_entry e \<Longrightarrow> present e"
  by (simp add: private_entry_bits present_bit)

text \<open>
  What a handled fault establishes at the entry \<open>i\<close> of the table at \<open>p\<close>: a private writable
  entry whose page has one mapping and the contents of the old page, the old page untouched
  and with one mapping less if it was shared, and nothing else changed.
\<close>

definition cow_done ::
    "u64 \<Rightarrow> 'a pmm_scheme \<Rightarrow> nat list \<Rightarrow> nat \<Rightarrow> 'a pmm_scheme \<Rightarrow> bool" where
  "cow_done r s p i s' \<longleftrightarrow>
     pmm_inv s' \<and> space_ok s' r \<and>
     (\<exists>e e'. leaves (frames s) (pfn r) p i = Some e \<and> private_entry e' \<and>
        leaves (frames s') (pfn r) = (leaves (frames s) (pfn r))
           (p := (leaves (frames s) (pfn r) p)(i \<mapsto> e')) \<and>
        frames s' (pfn e') = frames s (pfn e) \<and> frames s' (pfn e) = frames s (pfn e) \<and>
        refs_of (page_info s' (pfn e')) = 1 \<and>
        (pfn e' \<noteq> pfn e \<longrightarrow> \<not> allocated (page_info s (pfn e')) \<and> allocated (page_info s' (pfn e)) \<and>
           refs_of (page_info s' (pfn e)) = refs_of (page_info s (pfn e)) - 1)) \<and>
     (\<forall>g. allocated (page_info s g) \<longrightarrow> g \<notin> table_frames (frames s) (pfn r) \<longrightarrow> frames s' g = frames s g)"

lemma cow_in_place:
  assumes inv: "pmm_inv s" and ok: "space_ok s r"
    and t: "tables (frames s) (pfn r) p = Some (pfn t)" "length p = 3" and i: "i < 512"
    and cow: "tbl s t i AND cow_bits = cow_bits"
    and refs: "pmm_page_refcount (tbl s t i AND PTE_ADDR_MASK) s = 1"
  shows "cow_done r s p i (set_tbl t i ((tbl s t i OR PTE_RW) AND NOT PTE_COW) s)"
proof -
  let ?e = "tbl s t i" and ?e' = "(tbl s t i OR PTE_RW) AND NOT PTE_COW"
  let ?s' = "set_tbl t i ?e' s"
  note pl = put_leaf_space [OF inv ok t i, where e = ?e']
  note up = private_upgrade [OF cow]
  have "bit ?e 0" using cow by (simp add: cow_bits_def and_self_bits bit_or_iff bit_PTE)
  then have leaf: "leaves (frames s) (pfn r) p i = Some ?e"
    using t i by (simp add: leaves_def tbl_def present_bit)
  have nz: "pmm_page_refcount (?e AND PTE_ADDR_MASK) s \<noteq> 0" using refs by simp
  have one: "refs_of (page_info s (pfn ?e)) = 1"
    using refcount_user_page(1) [OF inv nz] refs by simp
  have "user_page (?e AND PTE_ADDR_MASK) s"
    by (rule refcount_user_page(2) [OF inv nz refcount_not_zero_page [OF inv nz]])
  then have "pfn ?e \<notin> table_frames (frames s) (pfn r)"
    using user_page_outside_tables [OF ok] by fastforce
  then have same: "frames ?s' (pfn ?e) = frames s (pfn ?e)" by (rule pl(6))
  have "leaves (frames ?s') (pfn r) = (leaves (frames s) (pfn r))
           (p := (leaves (frames s) (pfn r) p)(i \<mapsto> ?e'))"
    using private_present [OF up(1)] by (intro ext) (simp add: pl(5))
  then show ?thesis
    unfolding cow_done_def using pl(1,2,6) up leaf one same
    by (auto simp: page_info_frames set_tbl_put)
qed

lemma cow_copy:
  assumes inv: "pmm_inv s" and ok: "space_ok s r"
    and t: "tables (frames s) (pfn r) p = Some (pfn t)" "length p = 3" and i: "i < 512"
    and cow: "tbl s t i AND cow_bits = cow_bits" and old: "old = tbl s t i AND PTE_ADDR_MASK"
    and refs: "pmm_page_refcount old s \<noteq> 0" "pmm_page_refcount old s \<noteq> 1"
    and alloc: "alloc_page_owned PAGE_OWNER_USER s = (new, s1)" "new \<noteq> 0"
    and e': "e' = (new AND PTE_ADDR_MASK) OR PTE_P OR PTE_US OR PTE_RW"
  shows "\<exists>s3. pmm_acquire_user_mapping new (copy_frame new old s1) = (0, s3) \<and>
    cow_done r s p i (snd (pmm_release_user_mapping old (set_tbl t i e' s3)))"
proof -
  let ?e = "tbl s t i" and ?s2 = "copy_frame new old s1"
  have po: "pfn old = pfn ?e" by (simp add: old)
  note n = alloc_one_success [OF inv alloc]
  note new = private_new [OF n(1), folded e']
  have user: "user_page old s"
    by (rule refcount_user_page(2) [OF inv refs(1) refcount_not_zero_page [OF inv refs(1)]])
  have ro: "pmm_page_refcount old s = refs_of (page_info s (pfn old))"
    by (rule refcount_user_page(1) [OF inv refs(1)])
  have ne: "pfn new \<noteq> pfn old" using n(4) user by (auto simp: acct_def user_page_def)
  \<comment> \<open>the fresh page takes its first reference\<close>
  have F2: "frames ?s2 = (frames s)(pfn new := frames s (pfn old))"
    by (simp add: copy_frame_def n(7))
  have acct2: "acct ?s2 = (acct s)(pfn new := (True, False, PAGE_OWNER_USER, 0))"
    and env2: "same_env s ?s2" and inv2: "pmm_inv ?s2"
    using n(6,8,9) by (simp_all add: copy_frame_def same_env_def)
  have tf2: "acct ?s2 f = acct s f \<and> frames ?s2 f = frames s f" if "table_frame s f" for f
    using table_frame_allocated [OF that] n(4) by (auto simp: acct2 F2 acct_def)
  note sp2 = space_ok_same_tables [OF ok env2 tf2]
  have new2: "acct ?s2 (pfn new) = (True, False, PAGE_OWNER_USER, 0)" by (simp add: acct2)
  have u2: "user_page new ?s2"
    using new2 n(1,3) alloc(2) env2 user by (auto simp: user_page_def acct_def same_env_def)
  moreover have r2: "refs_of (page_info ?s2 (pfn new)) = 0" using new2 by (simp add: acct_def)
  ultimately obtain s3 where acq: "pmm_acquire_user_mapping new ?s2 = (0, s3)"
    by (simp add: acquire_cases)
  note a = acquire_space [OF inv2 sp2(1) acq]
  have acct3: "acct s3 = (acct s)(pfn new := (True, False, PAGE_OWNER_USER, 1))"
    using a(5) r2 acct2 by (simp add: fun_eq_iff)
  \<comment> \<open>the entry is switched to it\<close>
  let ?s4 = "set_tbl t i e' s3"
  have t3: "tables (frames s3) (pfn r) p = Some (pfn t)" using t(1) by (simp add: a(4) sp2(2))
  note pl = put_leaf_space [OF a(1,2) t3 t(2) i, where e = e']
  have acct4: "acct ?s4 = acct s3" by simp
  \<comment> \<open>and the old page loses one\<close>
  have old4: "acct ?s4 (pfn old) = acct s (pfn old)" using ne by (simp add: acct3)
  have env4: "same_env s ?s4"
    using same_env_trans [OF env2 same_env_trans [OF a(3) pl(3)]] .
  note u4 = user_page_acct(1) [OF env4 old4, THEN iffD2, OF user] and r4 = user_page_acct(2) [OF env4 old4]
  have many: "refs_of (page_info ?s4 (pfn old)) \<notin> {0, 1}" using refs ro r4 by auto
  then obtain s5 where rel: "pmm_release_user_mapping old ?s4 = (0, s5)"
    using u4 release_user_cases [OF pmm_inv_parts(1) [OF pl(1)]] by auto
  note b = release_space [OF pl(1,2) rel]
  have F5: "frames s5 = frames ?s4" using b(9) many by (intro ext) auto
  have acct5: "acct s5 = (acct ?s4)(pfn old := (True, False, PAGE_OWNER_USER, refs_of (page_info s (pfn old)) - 1))"
    using b(8) many r4 by simp
  have "bit ?e 0" using cow by (simp add: cow_bits_def and_self_bits bit_or_iff bit_PTE)
  then have leaf: "leaves (frames s) (pfn r) p i = Some ?e"
    using t i by (simp add: leaves_def tbl_def present_bit)
  have leav5: "leaves (frames s5) (pfn r) = (leaves (frames s) (pfn r))
           (p := (leaves (frames s) (pfn r) p)(i \<mapsto> e'))"
    using private_present [OF new(1)] by (intro ext) (simp add: F5 pl(5) a(4) sp2(3))
  have out: "frames s5 g = frames s g"
    if "allocated (page_info s g)" "g \<notin> table_frames (frames s) (pfn r)" for g
  proof -
    have "g \<noteq> pfn new" using that(1) n(4) by (auto simp: acct_def)
    moreover have "g \<notin> table_frames (frames s3) (pfn r)"
      using that(2) by (simp add: table_frames_def a(4) sp2(2))
    ultimately show ?thesis using pl(6) by (simp add: F5 a(4) F2)
  qed
  have old_out: "frames s5 (pfn old) = frames s (pfn old)"
    using out user user_page_outside_tables [OF ok user] by (simp add: user_page_def)
  have "pfn new \<notin> table_frames (frames s3) (pfn r)"
    using user_page_outside_tables [OF sp2(1) u2] by (simp add: a(4))
  then have new_out: "frames s5 (pfn new) = frames s (pfn old)"
    using pl(6) by (simp add: F5 a(4) F2)
  have accts: "acct s5 (pfn new) = (True, False, PAGE_OWNER_USER, 1)"
    "acct s5 (pfn old) = (True, False, PAGE_OWNER_USER, refs_of (page_info s (pfn old)) - 1)"
    using ne by (simp_all add: acct5 acct3)
  have "cow_done r s p i s5"
    unfolding cow_done_def
    using b(1,2) leaf leav5 new out old_out new_out accts n(4)
    by (intro conjI exI [of _ ?e] exI [of _ e']) (auto simp: acct_def po)
  then show ?thesis using acq rel by simp
qed

lemma handle_cow_cases:
  assumes inv: "pmm_inv s" and ok: "space_ok s r" and va: "user_address (v AND PTE_ADDR_MASK)"
    and res: "handle_cow_page_fault r v s = (c, s')"
  shows "c = 0 \<and> cow_done r s (table_path (v AND PTE_ADDR_MASK)) (PT_INDEX (v AND PTE_ADDR_MASK)) s' \<or>
    c = -1 \<and> similar r s s'"
proof (cases "get_user_pte r (v AND PTE_ADDR_MASK) s")
  case None
  then show ?thesis using res similar_refl [OF inv ok] by (auto simp: handle_cow_page_fault_def)
next
  case (Some ti)
  then obtain t i where pte: "get_user_pte r (v AND PTE_ADDR_MASK) s = Some (t, i)" by (cases ti) auto
  note g = get_user_pte_SomeD [OF ok va pte]
  have len: "length (table_path (v AND PTE_ADDR_MASK)) = 3" by (simp add: table_path_def)
  have i: "i < 512" by (simp add: g(2))
  let ?old = "tbl s t i AND PTE_ADDR_MASK"
  obtain new s1 where alloc: "alloc_page_owned PAGE_OWNER_USER s = (new, s1)" by fastforce
  note res' = res [unfolded handle_cow_page_fault_def Let_def pte option.case prod.case alloc,
      folded cow_bits_def]
  consider "tbl s t i AND cow_bits \<noteq> cow_bits \<or> pmm_page_refcount ?old s = 0"
    | "tbl s t i AND cow_bits = cow_bits" "pmm_page_refcount ?old s = 1"
    | "tbl s t i AND cow_bits = cow_bits" "pmm_page_refcount ?old s \<noteq> 0"
      "pmm_page_refcount ?old s \<noteq> 1" "new = 0"
    | "tbl s t i AND cow_bits = cow_bits" "pmm_page_refcount ?old s \<noteq> 0"
      "pmm_page_refcount ?old s \<noteq> 1" "new \<noteq> 0" by blast
  then show ?thesis
  proof cases
    case 1
    then show ?thesis using res' similar_refl [OF inv ok] by (auto split: if_splits)
  next
    case 2
    with cow_in_place [OF inv ok g(1) len i 2] res' show ?thesis by (auto simp: g(2))
  next
    case 3
    note f = alloc_one_failure [OF inv alloc [unfolded 3(4)]]
    have "space_ok s1 r"
      using space_okD(5) [OF ok] by (intro space_ok_transfer [OF ok f(3,1)]) (auto simp: f(2))
    then have "similar r s s1" using f by (simp add: similar_def)
    with 3 res' show ?thesis by auto
  next
    case 4
    from cow_copy [OF inv ok g(1) len i 4(1) refl 4(2,3) alloc 4(4) refl] 4 res'
    show ?thesis by (auto simp: g(2))
  qed
qed

section \<open>Removing empty tables\<close>

lemma table_empty_below:
  assumes t: "tables (frames s) (pfn r) is = Some (pfn t)" and empty: "table_empty t s"
  shows "leaves (frames s) (pfn r) (is @ m) k = None"
proof -
  have np: "\<not> present (frames s (pfn t) j)" if "j < 512" for j
    using empty that by (auto simp: table_empty_def list_all_iff tbl_def present_def)
  show ?thesis
  proof (cases m)
    case Nil
    then show ?thesis using t np by (simp add: leaves_def)
  next
    case (Cons j m')
    have "tables (frames s) (pfn r) (is @ [j]) = None"
      using t np by (auto simp: tables_snoc user_path_snoc)
    then show ?thesis using leaves_None_below [of _ _ "is @ [j]" m'] Cons by simp
  qed
qed

lemma table_empty_no_tables:
  assumes t: "tables (frames s) (pfn r) is = Some (pfn t)" and empty: "table_empty t s" and "m \<noteq> []"
  shows "tables (frames s) (pfn r) (is @ m) = None"
proof -
  obtain j m' where m: "m = j # m'" using assms(3) by (cases m) auto
  have "\<not> present (frames s (pfn t) j)" if "j < 512"
    using empty that by (auto simp: table_empty_def list_all_iff tbl_def present_def)
  then have "tables (frames s) (pfn r) (is @ [j]) = None" using t by (auto simp: tables_snoc user_path_snoc)
  then show ?thesis using tables_None_below [of _ _ "is @ [j]" m'] m by simp
qed

text \<open>
  What pruning along a path does: only tables on the path can go, no mapping changes, and a page
  is given back exactly when it no longer is a table.
\<close>

definition pruned :: "u64 \<Rightarrow> nat list \<Rightarrow> 'a pmm_scheme \<Rightarrow> 'a pmm_scheme \<Rightarrow> bool" where
  "pruned r path s u \<longleftrightarrow> pmm_inv u \<and> pmm_ready u \<and> space_ok u r \<and> same_env s u \<and>
     leaves (frames u) (pfn r) = leaves (frames s) (pfn r) \<and>
     (\<forall>js. tables (frames u) (pfn r) js = tables (frames s) (pfn r) js \<or>
        tables (frames u) (pfn r) js = None \<and> js \<noteq> [] \<and> (\<exists>m. path = js @ m)) \<and>
     (\<forall>g. acct u g = (if g \<in> table_frames (frames s) (pfn r) - table_frames (frames u) (pfn r)
        then free_acct else acct s g)) \<and>
     (\<forall>g. g \<notin> table_frames (frames s) (pfn r) \<longrightarrow> frames u g = frames s g)"

lemma pruned_refl: "pmm_inv s \<Longrightarrow> pmm_ready s \<Longrightarrow> space_ok s r \<Longrightarrow> pruned r path s s"
  by (simp add: pruned_def)

lemma pruned_frames: "pruned r path s u \<Longrightarrow> table_frames (frames u) (pfn r) \<subseteq> table_frames (frames s) (pfn r)"
  unfolding pruned_def table_frames_def by (smt (verit) Collect_mono option.distinct(1))

text \<open>One step of the pruning: the table below an entry is empty and goes.\<close>

lemma prune_step:
  assumes pr: "pruned r path s u" and t: "tables (frames u) (pfn r) is = Some (pfn t)"
    and i: "user_path (is @ [i])" and p: "present (tbl u t i)"
    and empty: "table_empty (tbl u t i AND PTE_ADDR_MASK) u" and path: "path = (is @ [i]) @ m0"
  defines "u' \<equiv> snd (free_page_owned (tbl u t i AND PTE_ADDR_MASK) PAGE_OWNER_PAGE_TABLE (set_tbl t i 0 u))"
  shows "pruned r path s u'"
    and "tables (frames u') (pfn r) js = (if js = is @ [i] then None else tables (frames u) (pfn r) js)"
proof -
  let ?n = "tbl u t i AND PTE_ADDR_MASK"
  have u: "pmm_inv u" "pmm_ready u" "space_ok u r" using pr by (simp_all add: pruned_def)
  have n: "tables (frames u) (pfn r) (is @ [i]) = Some (pfn ?n)"
    using t i p by (simp add: tables_snoc tbl_def)
  have "table_frame u (pfn ?n)" by (rule space_okD(4) [OF u(3) n])
  then have "?n \<noteq> 0" by (auto simp: table_frame_def pfn_def)
  then have sh: "shrunk u r (is @ [i]) ?n u'"
    unfolding u'_def
    using table_empty_below [OF n empty] by (intro unlink_table [OF u t _ _ n]) simp_all
  show tabs: "tables (frames u') (pfn r) js = (if js = is @ [i] then None else tables (frames u) (pfn r) js)" for js
  proof (cases "\<exists>m. js = (is @ [i]) @ m")
    case True
    then obtain m where "js = (is @ [i]) @ m" by blast
    then show ?thesis using sh table_empty_no_tables [OF n empty, of m] by (cases m) (auto simp: shrunk_def)
  next
    case False
    then have "js \<noteq> is @ [i]" by auto
    then show ?thesis using sh False by (simp add: shrunk_def)
  qed
  have fr: "table_frames (frames u') (pfn r) = table_frames (frames u) (pfn r) - {pfn ?n}"
  proof (intro set_eqI iffI)
    fix f
    assume "f \<in> table_frames (frames u') (pfn r)"
    then obtain js where "tables (frames u) (pfn r) js = Some f" "js \<noteq> is @ [i]"
      by (auto simp: table_frames_def tabs split: if_splits)
    then show "f \<in> table_frames (frames u) (pfn r) - {pfn ?n}"
      using is_treeD [OF space_okD(3) [OF u(3)] n] table_framesI by blast
  next
    fix f
    assume f: "f \<in> table_frames (frames u) (pfn r) - {pfn ?n}"
    then obtain js where js: "tables (frames u) (pfn r) js = Some f" by (auto simp: table_frames_def)
    with f n have "js \<noteq> is @ [i]" by auto
    with js show "f \<in> table_frames (frames u') (pfn r)" by (auto simp: table_frames_def tabs)
  qed
  have nf: "pfn ?n \<in> table_frames (frames s) (pfn r)" using table_framesI [OF n] pruned_frames [OF pr] by blast
  have "acct u' g = (if g \<in> table_frames (frames s) (pfn r) - table_frames (frames u') (pfn r) then free_acct else acct s g)" for g
  proof -
    have a: "acct u g = (if g \<in> table_frames (frames s) (pfn r) - table_frames (frames u) (pfn r) then free_acct else acct s g)"
      using pr unfolding pruned_def by blast
    have "acct u' = (acct u)(pfn ?n := free_acct)" using sh unfolding shrunk_def by blast
    then show ?thesis using nf a by (simp add: fr)
  qed
  moreover have "tables (frames u') (pfn r) js = tables (frames s) (pfn r) js \<or>
      tables (frames u') (pfn r) js = None \<and> js \<noteq> [] \<and> (\<exists>m. path = js @ m)" for js
    using pr path by (auto simp: pruned_def tabs)
  moreover have "frames u' g = frames s g" if "g \<notin> table_frames (frames s) (pfn r)" for g
    using pr sh that pruned_frames [OF pr] by (auto simp: pruned_def shrunk_def)
  moreover have "pmm_inv u'" "space_ok u' r" "leaves (frames u') (pfn r) = leaves (frames s) (pfn r)" "same_env u u'" "same_env s u"
    using pr sh unfolding pruned_def shrunk_def by simp_all
  moreover from this have "pmm_ready u'" "same_env s u'" using u(2) by (auto simp: same_env_def intro: same_env_trans)
  ultimately show "pruned r path s u'" unfolding pruned_def by blast
qed

text \<open>No table on a path is empty, when the last one is not: each of the others has an entry for the next.\<close>

definition table_used :: "'a pmm_scheme \<Rightarrow> nat \<Rightarrow> bool" where
  "table_used s f \<longleftrightarrow> (\<exists>i < 512. present (frames s f i))"

lemma table_used_parent:
  "tables (frames s) (pfn r) (is @ [i]) = Some f \<Longrightarrow> tables (frames s) (pfn r) is = Some g \<Longrightarrow> table_used s g"
  by (auto simp: tables_snoc table_used_def user_path_snoc split: if_splits)

lemma table_used_iff: "table_used s (pfn t) \<longleftrightarrow> \<not> table_empty t s"
  by (auto simp: table_used_def table_empty_def list_all_iff tbl_def present_def)

lemma table_empty_pfn: "pfn a = pfn b \<Longrightarrow> table_empty a s = table_empty b s"
  by (simp add: table_empty_def tbl_def)

lemma tables_entry:
  assumes "tables (frames s) (pfn r) is = Some (pfn t)" and "tables (frames s) (pfn r) (is @ [i]) = Some f"
  shows "present (tbl s t i)" and "pfn (tbl s t i) = f"
  using assms by (auto simp: tables_snoc tbl_def split: if_splits)

lemma path_used:
  assumes "\<And>f. tables (frames u) (pfn r) [a, b, c] = Some f \<Longrightarrow> table_used u f"
    and "\<And>f. tables (frames u) (pfn r) [a, b, c] = None \<Longrightarrow> tables (frames u) (pfn r) [a, b] = Some f \<Longrightarrow> table_used u f"
    and "\<And>f. tables (frames u) (pfn r) [a, b] = None \<Longrightarrow> tables (frames u) (pfn r) [a] = Some f \<Longrightarrow> table_used u f"
    and "tables (frames u) (pfn r) is = Some f" "is \<noteq> []" "[a, b, c] = is @ m"
  shows "table_used u f"
proof -
  consider "is = [a, b, c]" | "is = [a, b]" | "is = [a]"
    using assms(5,6) by (auto simp: Cons_eq_append_conv append_eq_Cons_conv)
  then show ?thesis
  proof cases
    case 2
    then show ?thesis using assms(2,4) table_used_parent [of u r "[a, b]" c _ f] by (cases "tables (frames u) (pfn r) [a, b, c]") auto
  next
    case 3
    then show ?thesis using assms(3,4) table_used_parent [of u r "[a]" b _ f] by (cases "tables (frames u) (pfn r) [a, b]") auto
  qed (use assms(1,4) in simp)
qed

lemma prune_tables_correct:
  assumes inv: "pmm_inv s" and rdy: "pmm_ready s" and ok: "space_ok s r" and va: "user_address v"
    and path: "tables (frames s) (pfn r) (table_path v) = Some f"
  shows "pruned r (table_path v) s (prune_tables r v s) \<and>
    (\<forall>is m f. tables (frames (prune_tables r v s)) (pfn r) is = Some f \<longrightarrow> is \<noteq> [] \<longrightarrow> table_path v = is @ m \<longrightarrow>
       table_used (prune_tables r v s) f)" (is "?P (prune_tables r v s)")
proof -
  let ?i4 = "PML4_INDEX v" and ?i3 = "PDPT_INDEX v" and ?i2 = "PD_INDEX v"
  have up: "user_path ([] @ [?i4])" "user_path ([?i4] @ [?i3])" "user_path ([?i4, ?i3] @ [?i2])"
    using va by simp_all
  have path': "tables (frames s) (pfn r) (([?i4] @ [?i3]) @ [?i2]) = Some f"
    using path by (simp add: table_path_def)
  obtain f2 where f2: "tables (frames s) (pfn r) ([?i4] @ [?i3]) = Some f2"
    using tables_prefix [OF path'] by blast
  obtain f3 where f3: "tables (frames s) (pfn r) ([] @ [?i4]) = Some f3"
    using tables_prefix [OF f2] by auto
  define pdpt where "pdpt = tbl s r ?i4 AND PTE_ADDR_MASK"
  define pd where "pd = tbl s pdpt ?i3 AND PTE_ADDR_MASK"
  have root: "tables (frames u) (pfn r) [] = Some (pfn r)" for u :: "'a pmm_scheme" by simp
  have p3: "tables (frames s) (pfn r) [?i4] = Some (pfn pdpt)"
    using tables_entry(2) [OF root f3] f3 by (simp add: pdpt_def)
  have p2: "tables (frames s) (pfn r) [?i4, ?i3] = Some (pfn pd)"
    using tables_entry(2) [OF p3 f2] f2 by (simp add: pd_def)
  have e2: "present (tbl s pd ?i2)" using tables_entry(1) [OF p2, of ?i2 f] path' by simp
  define s1 where "s1 = snd (free_page_owned (tbl s pd ?i2 AND PTE_ADDR_MASK) PAGE_OWNER_PAGE_TABLE (set_tbl pd ?i2 0 s))"
  define s2 where "s2 = snd (free_page_owned (tbl s1 pdpt ?i3 AND PTE_ADDR_MASK) PAGE_OWNER_PAGE_TABLE (set_tbl pdpt ?i3 0 s1))"
  define s3 where "s3 = snd (free_page_owned (tbl s2 r ?i4 AND PTE_ADDR_MASK) PAGE_OWNER_PAGE_TABLE (set_tbl r ?i4 0 s2))"
  have code: "prune_tables r v s =
      (if table_empty (tbl s pd ?i2 AND PTE_ADDR_MASK) s then
         if table_empty pd s1 then if table_empty pdpt s2 then s3 else s2 else s1 else s)"
    by (simp add: prune_tables_def Let_def s1_def s2_def s3_def pd_def pdpt_def)
  have pt: "tables (frames s) (pfn r) [?i4, ?i3, ?i2] = Some (pfn (tbl s pd ?i2 AND PTE_ADDR_MASK))"
    using tables_entry(2) [OF p2, of ?i2 f] path' by simp
  have P: "?P u" if "pruned r (table_path v) s u"
    "\<And>f. tables (frames u) (pfn r) [?i4, ?i3, ?i2] = Some f \<Longrightarrow> table_used u f"
    "\<And>f. tables (frames u) (pfn r) [?i4, ?i3, ?i2] = None \<Longrightarrow> tables (frames u) (pfn r) [?i4, ?i3] = Some f \<Longrightarrow> table_used u f"
    "\<And>f. tables (frames u) (pfn r) [?i4, ?i3] = None \<Longrightarrow> tables (frames u) (pfn r) [?i4] = Some f \<Longrightarrow> table_used u f" for u
    using that(1) path_used [OF that(2-4)] unfolding table_path_def by blast
  show ?thesis
  proof (cases "table_empty (tbl s pd ?i2 AND PTE_ADDR_MASK) s")
    case False
    then have "table_used s (pfn (tbl s pd ?i2))" using table_used_iff [of s "tbl s pd ?i2 AND PTE_ADDR_MASK"] by simp
    then have "?P s" by (intro P pruned_refl [OF inv rdy ok]) (use pt p2 in auto)
    with False show ?thesis by (simp add: code)
  next
    case e1: True
    have tp: "table_path v = ([?i4, ?i3] @ [?i2]) @ []" "table_path v = ([?i4] @ [?i3]) @ [?i2]"
      "table_path v = ([] @ [?i4]) @ [?i3, ?i2]" by (simp_all add: table_path_def)
    note st1 = prune_step [OF pruned_refl [OF inv rdy ok] p2 up(3) e2 e1 tp(1), folded s1_def]
    have q3: "tables (frames s1) (pfn r) [?i4] = Some (pfn pdpt)"
      and q2: "tables (frames s1) (pfn r) ([?i4] @ [?i3]) = Some (pfn pd)"
      using p3 p2 by (simp_all add: st1(2))
    note en2 = tables_entry [OF q3 q2]
    show ?thesis
    proof (cases "table_empty pd s1")
      case False
      then have "table_used s1 (pfn pd)" by (simp add: table_used_iff)
      then have "?P s1" by (intro P st1(1)) (use q2 in \<open>auto simp: st1(2)\<close>)
      then show ?thesis using e1 False by (simp add: code)
    next
      case e2: True
      then have e2': "table_empty (tbl s1 pdpt ?i3 AND PTE_ADDR_MASK) s1"
        using en2(2) table_empty_pfn [of pd "tbl s1 pdpt ?i3 AND PTE_ADDR_MASK" s1] by simp
      note st2 = prune_step [OF st1(1) q3 up(2) en2(1) e2' tp(2), folded s2_def]
      have w3: "tables (frames s2) (pfn r) ([] @ [?i4]) = Some (pfn pdpt)"
        using q3 by (simp add: st2(2))
      note en3 = tables_entry [OF root w3]
      show ?thesis
      proof (cases "table_empty pdpt s2")
        case False
        then have "table_used s2 (pfn pdpt)" by (simp add: table_used_iff)
        then have "?P s2" by (intro P st2(1)) (use w3 in \<open>auto simp: st2(2) st1(2)\<close>)
        then show ?thesis using e1 e2 False by (simp add: code)
      next
        case e3: True
        then have "table_empty (tbl s2 r ?i4 AND PTE_ADDR_MASK) s2"
          using en3(2) table_empty_pfn [of pdpt "tbl s2 r ?i4 AND PTE_ADDR_MASK" s2] by simp
        note st3 = prune_step [OF st2(1) root up(1) en3(1) this tp(3), folded s3_def]
        have "?P s3" by (intro P st3(1)) (auto simp: st3(2) st2(2) st1(2))
        then show ?thesis using e1 e2 e3 by (simp add: code)
      qed
    qed
  qed
qed

section \<open>Unmapping a page\<close>

text \<open>
  The mapping of the page at \<open>v\<close> is gone, its reference is given back, and of the tables exactly those
  on its path that it leaves empty are gone and given back.
\<close>

definition unmap_done ::
    "u64 \<Rightarrow> u64 \<Rightarrow> 'a pmm_scheme \<Rightarrow> u64 \<Rightarrow> 'a pmm_scheme \<Rightarrow> bool" where
  "unmap_done r v s e s' \<longleftrightarrow>
     pmm_inv s' \<and> space_ok s' r \<and>
     leaves (frames s') (pfn r) = (leaves (frames s) (pfn r))
        (table_path v := (leaves (frames s) (pfn r) (table_path v))(PT_INDEX v := None)) \<and>
     (\<forall>is. tables (frames s') (pfn r) is = tables (frames s) (pfn r) is \<or>
        tables (frames s') (pfn r) is = None \<and> is \<noteq> [] \<and> (\<exists>m. table_path v = is @ m)) \<and>
     (\<forall>is m f. tables (frames s') (pfn r) is = Some f \<longrightarrow> is \<noteq> [] \<longrightarrow> table_path v = is @ m \<longrightarrow>
        table_used s' f) \<and>
     (\<forall>g. acct s' g =
        (if g = pfn e then if refs_of (page_info s g) = 1 then free_acct else (True, False, PAGE_OWNER_USER, refs_of (page_info s g) - 1)
         else if g \<in> table_frames (frames s) (pfn r) - table_frames (frames s') (pfn r) then free_acct
         else acct s g)) \<and>
     (\<forall>g. g \<noteq> pfn e \<or> refs_of (page_info s (pfn e)) \<noteq> 1 \<longrightarrow>
        g \<notin> table_frames (frames s) (pfn r) \<longrightarrow> frames s' g = frames s g)"

text \<open>The call has something to do when the address is aligned and maps a page for the user.\<close>

definition user_mapped :: "'a pmm_scheme \<Rightarrow> u64 \<Rightarrow> u64 \<Rightarrow> bool" where
  "user_mapped s r v \<longleftrightarrow> page_aligned v \<and> (\<exists>e. pte_of s r v = Some e \<and> e AND PTE_US \<noteq> 0)"

lemma unmap_user_page_refused:
  assumes ok: "space_ok s r" and va: "user_address v" and "\<not> user_mapped s r v"
  shows "unmap_user_page r v ow s = (-1, s)"
proof (cases "page_aligned v")
  case True
  show ?thesis
  proof (cases "get_user_pte r v s")
    case (Some ti)
    then obtain t i where pte: "get_user_pte r v s = Some (t, i)" by (cases ti) auto
    then show ?thesis using get_user_pte_SomeD(3) [OF ok va pte] assms(3) True
      by (auto simp: unmap_user_page_def user_mapped_def present_def split: if_splits)
  qed (simp add: unmap_user_page_def)
qed (simp add: unmap_user_page_def)

lemma unmap_user_page_done:
  assumes inv: "pmm_inv s" and rdy: "pmm_ready s" and ok: "space_ok s r" and va: "user_address v"
    and mapped: "page_aligned v" "pte_of s r v = Some e" "e AND PTE_US \<noteq> 0"
    and user: "user_page (e AND PTE_ADDR_MASK) s" and nz: "refs_of (page_info s (pfn e)) \<noteq> 0"
  shows "\<exists>s'. unmap_user_page r v PAGE_OWNER_USER s = (0, s') \<and> unmap_done r v s e s'"
proof -
  obtain t i where pte: "get_user_pte r v s = Some (t, i)"
    using get_user_pte_None [OF ok va _ mapped(1)] mapped(2) by (cases "get_user_pte r v s") auto
  note g = get_user_pte_SomeD [OF ok va pte]
  have e: "tbl s t i = e" "e AND PTE_P \<noteq> 0" using g(3) mapped(2) by (auto simp: present_def split: if_splits)
  let ?s1 = "set_tbl t i 0 s" and ?n = "e AND PTE_ADDR_MASK" and ?T = "\<lambda>s. table_frames (frames s) (pfn r)"
  have len: "length (table_path v) = 3" and i: "i < 512" by (simp_all add: table_path_def g(2))
  note pl = put_leaf_space [OF inv ok g(1) len i, where e = 0]
  have un: "user_page ?n ?s1" "refs_of (page_info ?s1 (pfn e)) = refs_of (page_info s (pfn e))"
    using user_page_acct [OF pl(3), of ?n] user by simp_all
  obtain s2 where rel: "pmm_release_user_mapping ?n ?s1 = (0, s2)"
    using release_user_ok [OF pmm_inv_parts(1) [OF pl(1)] un(1)] un(2) nz by auto
  note b = release_space [OF pl(1,2) rel]
  define s' where "s' = prune_tables r v s2"
  have res: "unmap_user_page r v PAGE_OWNER_USER s = (0, s')"
    using mapped(1,3) pte e rel by (simp add: unmap_user_page_def Let_def s'_def)
  have rdy2: "pmm_ready s2" using rdy pl(3) b(3) by (simp add: same_env_def)
  have "tables (frames s2) (pfn r) (table_path v) = Some (pfn t)" using g(1) by (simp add: b(5) pl(4))
  note pr = prune_tables_correct [OF b(1) rdy2 b(2) va this, folded s'_def]
  have tab: "tables (frames s2) (pfn r) = tables (frames s) (pfn r)" by (simp add: b(5) pl(4))
  then have tf: "?T s2 = ?T s" by (simp add: table_frames_def)
  have leav: "leaves (frames s2) (pfn r) = (leaves (frames s) (pfn r))
      (table_path v := (leaves (frames s) (pfn r) (table_path v))(PT_INDEX v := None))"
    by (intro ext) (simp add: b(4) pl(5) present_def flip: g(2))
  have out: "pfn e \<notin> ?T s" using user_page_outside_tables [OF ok user] by simp
  have acct2: "acct s2 = (acct s)(pfn e := if refs_of (page_info s (pfn e)) = 1 then free_acct
      else (True, False, PAGE_OWNER_USER, refs_of (page_info s (pfn e)) - 1))"
    using b(8) un(2) by simp
  have fr2: "frames s2 g = frames s g"
    if "g \<noteq> pfn e \<or> refs_of (page_info s (pfn e)) \<noteq> 1" "g \<notin> ?T s" for g
    using that b(9) [of g] pl(6) [of g] un(2) by auto
  have "acct s' g = (if g = pfn e then if refs_of (page_info s g) = 1 then free_acct else (True, False, PAGE_OWNER_USER, refs_of (page_info s g) - 1)
      else if g \<in> ?T s - ?T s' then free_acct else acct s g)" for g
    using pr out unfolding pruned_def tf by (simp add: acct2)
  then have "unmap_done r v s e s'" using pr fr2 unfolding unmap_done_def pruned_def tf tab leav by simp
  with res show ?thesis by blast
qed

end
