(* ===== verification/Paging_Access.thy ===== *)
theory Paging_Access
  imports Paging_Unmap Pmm_Safety
begin

text \<open>
  The range checks on user addresses end and are exact, the copies move exactly the bytes of
  the range, and the properties of the paging component with their witnesses.
\<close>

section \<open>The page loop\<close>

declare page_loop.simps [code]

lemma page_paddr_Suc: "page_paddr p + 4096 = page_paddr (Suc p)"
  by (simp add: page_paddr_def algebra_simps)

lemma page_loop_exact:
  "p \<le> q \<Longrightarrow> q < 2 ^ 52 \<Longrightarrow>
   page_loop check (page_paddr p) (page_paddr q) = Some (\<forall>k. p \<le> k \<and> k \<le> q \<longrightarrow> check (page_paddr k))"
proof (induction "q - p" arbitrary: p)
  case 0
  then have "p = q" by simp
  then show ?case by (subst page_loop.simps) (auto simp: le_less_Suc_eq)
next
  case (Suc d)
  then have lt: "p < q" and d: "d = q - Suc p" by simp_all
  have ne: "page_paddr p \<noteq> page_paddr q"
    using lt Suc.prems(2) page_paddr_inject [of p q] by simp
  have split: "(\<forall>k. p \<le> k \<and> k \<le> q \<longrightarrow> check (page_paddr k)) \<longleftrightarrow>
      check (page_paddr p) \<and> (\<forall>k. Suc p \<le> k \<and> k \<le> q \<longrightarrow> check (page_paddr k))"
    using lt by (metis Suc_leI le_eq_less_or_eq Suc_le_lessD nat_less_le)
  show ?case
    unfolding split
    using Suc.hyps(1) [OF d] lt Suc.prems(2) ne
    by (subst page_loop.simps) (simp add: page_paddr_Suc)
qed

lemma page_paddr_mask: "v AND PTE_ADDR_MASK = page_paddr (pfn v)"
  by (metis page_aligned_mask page_paddr_pfn pfn_mask)

text \<open>A user range: not empty, not at address 0, whole below the end of user space.\<close>

definition user_range :: "u64 \<Rightarrow> u64 \<Rightarrow> bool" where
  "user_range v len \<longleftrightarrow> v \<noteq> 0 \<and> unat v + unat len \<le> 2 ^ 47"

lemma user_range_guards:
  assumes "len \<noteq> 0"
  shows "\<not> (v = 0 \<or> v > user_top \<or> len - 1 > user_top - v) \<longleftrightarrow> user_range v len"
proof -
  have len: "unat (len - 1) = unat len - 1" "0 < unat len"
    using assms by (simp_all add: unat_minus_one unat_gt_0)
  have top: "unat user_top = 2 ^ 47 - 1" by (simp add: user_top_def)
  have "unat (user_top - v) = 2 ^ 47 - 1 - unat v" if "v \<le> user_top"
    using that top by (simp add: unat_sub)
  then show ?thesis
    using len top by (auto simp: user_range_def word_le_nat_alt word_less_nat_alt not_less)
qed

lemma user_range_last:
  assumes "user_range v len" and "len \<noteq> 0"
  shows "unat (v + len - 1) = unat v + unat len - 1"
proof -
  have len: "unat (len - 1) = unat len - 1" "0 < unat len"
    using assms(2) by (simp_all add: unat_minus_one unat_gt_0)
  have "unat (v + (len - 1)) = unat v + unat (len - 1)"
    using conjunct2 [OF assms(1) [unfolded user_range_def]] len by (intro unat_add_no_wrap) simp
  then show ?thesis using len by (simp add: add_diff_eq)
qed

text \<open>The two forms of a check over a range: page by page and address by address.\<close>

lemma range_pages:
  fixes u n :: nat
  assumes "0 < n"
  shows "(\<forall>k. u div 4096 \<le> k \<and> k \<le> (u + n - 1) div 4096 \<longrightarrow> P k) \<longleftrightarrow>
    (\<forall>a. u \<le> a \<and> a < u + n \<longrightarrow> P (a div 4096))"
proof
  show "\<forall>a. u \<le> a \<and> a < u + n \<longrightarrow> P (a div 4096)"
    if *: "\<forall>k. u div 4096 \<le> k \<and> k \<le> (u + n - 1) div 4096 \<longrightarrow> P k"
  proof (intro allI impI)
    fix a assume a: "u \<le> a \<and> a < u + n"
    then have "u div 4096 \<le> a div 4096" "a div 4096 \<le> (u + n - 1) div 4096"
      by (auto intro: div_le_mono)
    with * show "P (a div 4096)" by blast
  qed
  show "\<forall>k. u div 4096 \<le> k \<and> k \<le> (u + n - 1) div 4096 \<longrightarrow> P k"
    if *: "\<forall>a. u \<le> a \<and> a < u + n \<longrightarrow> P (a div 4096)"
  proof (intro allI impI)
    fix k assume k: "u div 4096 \<le> k \<and> k \<le> (u + n - 1) div 4096"
    define a where "a = max u (k * 4096)"
    have "a div 4096 = k" using k by (auto simp: a_def max_def)
    moreover have "u \<le> a" "a < u + n"
      using k assms by (auto simp: a_def max_def)
    ultimately show "P k" using * by blast
  qed
qed

lemma range_check:
  assumes "len \<noteq> 0" and "user_range v len"
  shows "page_loop check (v AND PTE_ADDR_MASK) ((v + len - 1) AND PTE_ADDR_MASK) =
    Some (\<forall>a. unat v \<le> unat a \<and> unat a < unat v + unat len \<longrightarrow> check (a AND PTE_ADDR_MASK))"
proof -
  note last = user_range_last [OF assms(2,1)]
  have n: "0 < unat len" using assms(1) by (simp add: unat_gt_0)
  have pq: "pfn v = unat v div 4096" "pfn (v + len - 1) = (unat v + unat len - 1) div 4096"
    by (simp_all add: pfn_def last)
  have le: "pfn v \<le> pfn (v + len - 1)" using n unfolding pq by (simp add: div_le_mono)
  have "page_loop check (v AND PTE_ADDR_MASK) ((v + len - 1) AND PTE_ADDR_MASK) =
      Some (\<forall>k. pfn v \<le> k \<and> k \<le> pfn (v + len - 1) \<longrightarrow> check (page_paddr k))"
    unfolding page_paddr_mask by (rule page_loop_exact [OF le pfn_bound])
  then have "page_loop check (v AND PTE_ADDR_MASK) ((v + len - 1) AND PTE_ADDR_MASK) =
      Some (\<forall>k. unat v div 4096 \<le> k \<and> k \<le> (unat v + unat len - 1) div 4096 \<longrightarrow> check (page_paddr k))"
    unfolding pq .
  also have "(\<forall>k. unat v div 4096 \<le> k \<and> k \<le> (unat v + unat len - 1) div 4096 \<longrightarrow> check (page_paddr k)) \<longleftrightarrow>
      (\<forall>a. unat v \<le> a \<and> a < unat v + unat len \<longrightarrow> check (page_paddr (a div 4096)))"
    by (rule range_pages [OF n])
  also have "\<dots> \<longleftrightarrow> (\<forall>a. unat v \<le> unat a \<and> unat a < unat v + unat len \<longrightarrow> check (a AND PTE_ADDR_MASK))"
    (is "?nat = ?word")
  proof
    show ?word if ?nat using that unfolding page_paddr_mask pfn_def by blast
    show ?nat if ?word
    proof (intro allI impI)
      fix a assume a: "unat v \<le> a \<and> a < unat v + unat len"
      then have "unat (of_nat a :: u64) = a"
        using assms(2) by (simp add: user_range_def unat_of_nat take_bit_eq_mod)
      with a that [rule_format, of "of_nat a"] show "check (page_paddr (a div 4096))"
        unfolding page_paddr_mask pfn_def by simp
    qed
  qed
  finally show ?thesis .
qed

lemma user_range_has_access_exact:
  "user_range_has_access pml4 v len req s = Some (len = 0 \<or> user_range v len \<and>
     (\<forall>a. unat v \<le> unat a \<and> unat a < unat v + unat len \<longrightarrow>
        user_page_has_access pml4 (a AND PTE_ADDR_MASK) req s))"
  using user_range_guards [of len v] range_check [of len v "\<lambda>p. user_page_has_access pml4 p req s"]
  by (auto simp: user_range_has_access_def)

lemma user_range_write_exact:
  "user_range_is_writable pml4 v len s = Some (len = 0 \<or> user_range v len \<and>
     (\<forall>a. unat v \<le> unat a \<and> unat a < unat v + unat len \<longrightarrow>
        page_write_access pml4 s (a AND PTE_ADDR_MASK)))"
  using user_range_guards [of len v] range_check [of len v "page_write_access pml4 s"]
  by (auto simp: user_range_is_writable_def user_range_has_write_access_def)

section \<open>Copying in\<close>

lemma copy_in_exact:
  "copy_in cr3 src n s = map (\<lambda>k. user_byte cr3 s (src + of_nat k)) [0..<n]"
proof (induction n arbitrary: src rule: less_induct)
  case (less n)
  show ?case
  proof (cases "n = 0")
    case True
    then show ?thesis by (subst copy_in.simps) simp
  next
    case False
    define c where "c = min (4096 - page_offset src) n"
    have c: "0 < c" "c \<le> n" using False page_offset_less [of src] by (auto simp: c_def)
    have "copy_in cr3 src n s = map (\<lambda>k. user_byte cr3 s (src + of_nat k)) [0..<c] @
        map (\<lambda>k. user_byte cr3 s (src + of_nat c + of_nat k)) [0..<n - c]"
      using False less.IH [of "n - c"] c by (subst copy_in.simps) (simp add: Let_def flip: c_def)
    also have "map (\<lambda>k. user_byte cr3 s (src + of_nat c + of_nat k)) [0..<n - c] =
        map (\<lambda>k. user_byte cr3 s (src + of_nat k)) [c..<n]"
      using c by (intro nth_equalityI) (simp_all add: add.assoc)
    also have "map (\<lambda>k. user_byte cr3 s (src + of_nat k)) [0..<c] @
        map (\<lambda>k. user_byte cr3 s (src + of_nat k)) [c..<n] =
        map (\<lambda>k. user_byte cr3 s (src + of_nat k)) [0..<n]"
      using c by (metis le_add_diff_inverse map_append upt_add_eq_append zero_le)
    finally show ?thesis .
  qed
qed

section \<open>A small address space\<close>

text \<open>Eight pages: page 2 is the root table, pages 4, 5 and 6 are the tables below it, and the
  address 0x400000 maps page 3 copy-on-write; page 3 has a second mapping elsewhere.\<close>

declare pfn_drop_bit [code]

definition demo_frames :: "nat \<Rightarrow> nat \<Rightarrow> u64" where
  "demo_frames f i =
     (if f = 2 \<and> i = 0 then 0x4007 else if f = 4 \<and> i = 0 then 0x5007
      else if f = 5 \<and> i = 2 then 0x6007 else if f = 6 \<and> i = 0 then 0x3205 else 0)"

definition demo_space :: pmm where
  "demo_space =
     \<lparr>phy_mem_map = \<lparr>bits = [0x7F], reserved_bits = [0x03],
        owners = [PAGE_OWNER_RESERVED, PAGE_OWNER_RESERVED, PAGE_OWNER_PAGE_TABLE, PAGE_OWNER_USER,
                  PAGE_OWNER_PAGE_TABLE, PAGE_OWNER_PAGE_TABLE, PAGE_OWNER_PAGE_TABLE, PAGE_OWNER_FREE],
        refcounts = [0, 0, 0, 2, 0, 0, 0, 0], page_count = 8, bmap_bytes = 1\<rparr>,
      managed_end_paddr = 0x8000, pmm_ready = True, pmm_fail_allocations = 0,
      frames = demo_frames, live_threads = []\<rparr>"

lemma demo_shape: "pmm_shape demo_space"
  by (simp add: pmm_shape_def demo_space_def)

lemma demo_pages:
  "list_all (\<lambda>p. page_ok (page_info demo_space p)) [0..<8] \<and> reserved (page_info demo_space 0)"
  by code_simp

lemma demo_inv: "pmm_inv demo_space"
  using demo_shape demo_pages
  by (simp add: pmm_inv_def list_all_iff) (simp add: demo_space_def)

lemma demo_ready: "pmm_ready demo_space" by (simp add: demo_space_def)

lemma demo_present: "present (demo_frames f i) \<longleftrightarrow> (f, i) \<in> {(2, 0), (4, 0), (5, 2), (6, 0)}"
  by (simp add: demo_frames_def present_def PTE_P_def)

lemma demo_pfn: "pfn (demo_frames 2 0) = 4" "pfn (demo_frames 4 0) = 5" "pfn (demo_frames 5 2) = 6"
  by (simp_all add: demo_frames_def pfn_def)

lemma demo_tables:
  "tables demo_frames 2 is = Some f \<longleftrightarrow>
   (is, f) \<in> {([], 2), ([0], 4), ([0, 0], 5), ([0, 0, 2], 6)}"
proof (cases "length is \<le> 3")
  case True
  then consider "is = []" | i where "is = [i]" | i j where "is = [i, j]" | i j k where "is = [i, j, k]"
    by (auto simp: numeral_3_eq_3 le_Suc_eq length_Suc_conv)
  then show ?thesis
    by cases (auto simp: tables_def user_path_def demo_present demo_pfn)
qed (auto simp: tables_def user_path_def)

lemma demo_table_frame: "list_all (\<lambda>f. table_frame demo_space f) [2, 4, 5, 6]"
  by code_simp

lemma demo_ok: "space_ok demo_space 0x2000"
proof -
  have F: "frames demo_space = demo_frames" by (simp add: demo_space_def)
  have r: "pfn 0x2000 = 2" by (simp add: pfn_def)
  show ?thesis
    unfolding space_ok_def F r is_tree_def table_frames_def demo_tables
    using demo_table_frame
    by (auto simp: page_aligned_def demo_present)
       (auto simp: demo_frames_def no_PS_def PTE_PS_def)
qed

end
