(* ===== verification/Paging_Safety.thy ===== *)
theory Paging_Safety
  imports Paging_Access
begin

text \<open>
  The properties of address spaces: mapping, unmapping and copy-on-write faults change exactly
  one mapping, failed calls change none and return their pages, spaces do not disturb each
  other, and user ranges are checked and copied exactly.
\<close>

section \<open>Mapping\<close>

text \<open>
  C8: Mapping a page of a well-formed user space.  On success the page was not mapped, exactly
  this mapping is added with the requested address and flags, and a user page gains one
  reference.  On failure no mapping changes; when the call gives up for lack of memory or
  because the page is no user page, every table it had allocated is returned.  Memory in use
  outside the tables of the space is never touched, and the tables stay well formed.
\<close>

theorem map_page_exact:
  assumes "pmm_inv s" and "pmm_ready s" and "space_ok s r" and "user_address v"
    and "map_page r v pa flags s = (c, s')"
  shows "pmm_inv s' \<and> space_ok s' r \<and> c \<in> {0, -1, -2} \<and>
    (if c = 0
     then pte_of s r v = None \<and>
       leaves (frames s') (pfn r) = (leaves (frames s) (pfn r))
         (table_path v := (leaves (frames s) (pfn r) (table_path v))(PT_INDEX v \<mapsto> leaf_entry pa flags)) \<and>
       (flags AND PTE_US \<noteq> 0 \<longrightarrow> user_page pa s \<and>
          refs_of (page_info s' (pfn pa)) = refs_of (page_info s (pfn pa)) + 1)
     else leaves (frames s') (pfn r) = leaves (frames s) (pfn r) \<and> (c = -1 \<longrightarrow> acct s' = acct s)) \<and>
    (\<forall>g. allocated (page_info s g) \<longrightarrow> g \<notin> table_frames (frames s) (pfn r) \<longrightarrow>
       frames s' g = frames s g)"
proof (rule map_page_cases [OF assms])
  assume "c = -1" "similar r s s'"
  then show ?thesis by (simp add: similar_def)
next
  assume "c = -2" "extends r s s'"
  then show ?thesis by (simp add: extends_def)
next
  fix t u
  assume 1: "c = 0" "extends r s u" "pte_of s r v = None"
    "tables (frames u) (pfn r) (table_path v) = Some (pfn t)"
    "if flags AND PTE_US \<noteq> 0
       then pmm_acquire_user_mapping pa (set_tbl t (PT_INDEX v) (leaf_entry pa flags) u) = (0, s')
       else s' = set_tbl t (PT_INDEX v) (leaf_entry pa flags) u"
  note eff = mapped_effect [OF 1(2,4,5)]
  have "leaves (frames s') (pfn r) = (leaves (frames s) (pfn r))
      (table_path v := (leaves (frames s) (pfn r) (table_path v))(PT_INDEX v \<mapsto> leaf_entry pa flags))"
    by (intro ext) (simp add: eff(4))
  then show ?thesis using 1(1,3) eff(1,2,5,6) by simp
qed

lemma demo_map: "fst (map_page 0x2000 0x401000 0x7000 PTE_RW demo_space) = 0"
  by code_simp

theorem map_page_exact_witness:
  "\<exists>s'. map_page 0x2000 0x401000 0x7000 PTE_RW demo_space = (0, s') \<and> space_ok s' 0x2000 \<and>
     pte_of s' 0x2000 0x401000 = Some 0x7003"
proof -
  obtain s' where m: "map_page 0x2000 0x401000 0x7000 PTE_RW demo_space = (0, s')"
    using demo_map by (metis prod.collapse)
  have "user_address 0x401000" by (simp add: user_address_def user_top_def)
  moreover have "leaf_entry 0x7000 PTE_RW = 0x7003"
    by (simp add: leaf_entry_def PTE_ADDR_MASK_def PTE_RW_def PTE_P_def)
  ultimately show ?thesis
    using map_page_exact [OF demo_inv demo_ready demo_ok _ m] m
    by (simp add: pte_of_def)
qed

section \<open>Unmapping\<close>

text \<open>
  C9: Unmapping a user page whose reference is counted.  The call succeeds exactly when the address
  is aligned and maps a page for the user; then exactly this mapping is removed, one reference is
  given back (freeing the page with the last one), and of the page tables exactly those on the
  path of the address that are left without an entry are removed and given back; no other table,
  page or contents changes.  Otherwise the call returns -1 and changes nothing.
\<close>

theorem unmap_user_page_exact:
  assumes "pmm_inv s" and "pmm_ready s" and "space_ok s r" and "user_address v"
    and "\<forall>e. pte_of s r v = Some e \<longrightarrow> e AND PTE_US \<noteq> 0 \<longrightarrow>
      user_page (e AND PTE_ADDR_MASK) s \<and> refs_of (page_info s (pfn e)) \<noteq> 0"
  shows "if page_aligned v \<and> (\<exists>e. pte_of s r v = Some e \<and> e AND PTE_US \<noteq> 0)
    then \<exists>e s'. pte_of s r v = Some e \<and> unmap_user_page r v PAGE_OWNER_USER s = (0, s') \<and> unmap_done r v s e s'
    else unmap_user_page r v PAGE_OWNER_USER s = (-1, s)"
  using unmap_user_page_done [OF assms(1-4)] unmap_user_page_refused [OF assms(3,4)] assms(5)
  by (auto simp: user_mapped_def)

lemma demo_pte: "pte_of demo_space 0x2000 0x400000 = Some 0x3205"
proof -
  have "tables demo_frames 2 [0, 0, 2] = Some 6" by (simp add: demo_tables)
  moreover have "table_path 0x400000 = [0, 0, 2]" "PT_INDEX 0x400000 = 0"
    by (simp_all add: table_path_def PML4_INDEX_def PDPT_INDEX_def PD_INDEX_def PT_INDEX_def)
  moreover have "pfn 0x2000 = 2" by (simp add: pfn_def)
  ultimately show ?thesis
    by (simp add: pte_of_def leaves_def demo_space_def demo_present) (simp add: demo_frames_def)
qed

lemma demo_user: "user_page 0x3000 demo_space \<and> refs_of (page_info demo_space 3) = 2"
  by code_simp

lemma demo_unmap:
  assumes "unmap_done 0x2000 0x400000 demo_space 0x3205 s'"
  shows "table_frames (frames s') 2 = {2}"
proof -
  let ?T = "tables (frames s') 2" and ?S = "tables demo_frames 2"
  have p: "table_path 0x400000 = [0, 0, 2]" "PT_INDEX 0x400000 = 0" "pfn 0x2000 = 2" "frames demo_space = demo_frames"
    by (simp_all add: table_path_def PML4_INDEX_def PDPT_INDEX_def PD_INDEX_def PT_INDEX_def pfn_def demo_space_def)
  note d = assms [unfolded unmap_done_def p, THEN conjunct2, THEN conjunct2]
  have same: "?T is = ?S is \<or> ?T is = None" for "is"
    using d [THEN conjunct2, THEN conjunct1, THEN spec [of _ "is"]] by (elim disjE conjE) simp_all
  have used: "table_used s' f" if "?T is = Some f" "is \<noteq> []" "[0, 0, 2] = is @ m" for "is" m f
    using d [THEN conjunct2, THEN conjunct2, THEN conjunct1] that by simp
  have leav: "leaves (frames s') 2 = (leaves demo_frames 2)([0, 0, 2] := (leaves demo_frames 2 [0, 0, 2])(0 := None))"
    by (rule d [THEN conjunct1])
  have below: "?S (is @ [i]) \<noteq> None" "?T (is @ [i]) \<noteq> None"
    if "?T is = Some f" "present (frames s' f i)" "i < 512" "is \<in> {[0], [0, 0]}" for "is" f i
  proof -
    show "?T (is @ [i]) \<noteq> None" using that by (auto simp: tables_snoc user_path_def)
    then show "?S (is @ [i]) \<noteq> None" using same [of "is @ [i]"] by auto
  qed
  have t3: "?T [0, 0, 2] = None"
  proof (rule ccontr)
    assume "?T [0, 0, 2] \<noteq> None"
    then obtain f where f: "?T [0, 0, 2] = Some f" by auto
    with used [OF f, of "[]"] obtain i where "i < 512" "present (frames s' f i)" by (auto simp: table_used_def)
    with f have "leaves (frames s') 2 [0, 0, 2] i \<noteq> None" by (simp add: leaves_def)
    then show False by (auto simp: leav leaves_def demo_tables demo_present split: if_splits option.splits)
  qed
  have t2: "?T [0, 0] = None"
  proof (rule ccontr)
    assume "?T [0, 0] \<noteq> None"
    then obtain f where f: "?T [0, 0] = Some f" by auto
    with used [OF f, of "[2]"] obtain i where i: "i < 512" "present (frames s' f i)" by (auto simp: table_used_def)
    have "i = 2" using below(1) [OF f i(2,1)] by (auto simp: demo_tables)
    then have "?T ([0, 0] @ [2]) \<noteq> None" using below(2) [OF f i(2,1)] by blast
    with t3 show False by simp
  qed
  have t1: "?T [0] = None"
  proof (rule ccontr)
    assume "?T [0] \<noteq> None"
    then obtain f where f: "?T [0] = Some f" by auto
    with used [OF f, of "[0, 2]"] obtain i where i: "i < 512" "present (frames s' f i)" by (auto simp: table_used_def)
    have "i = 0" using below(1) [OF f i(2,1)] by (auto simp: demo_tables)
    then have "?T ([0] @ [0]) \<noteq> None" using below(2) [OF f i(2,1)] by blast
    with t2 show False by simp
  qed
  have "is = [] \<and> f = 2" if "?T is = Some f" for "is" f
    using that same [of "is"] t1 t2 t3 demo_tables [of "is" f] by auto
  then show ?thesis by (auto simp: table_frames_def intro: exI [of _ "[]"])
qed

theorem unmap_user_page_exact_witness:
  "\<exists>s'. unmap_user_page 0x2000 0x400000 PAGE_OWNER_USER demo_space = (0, s') \<and> pte_of s' 0x2000 0x400000 = None \<and>
     acct s' 3 = (True, False, PAGE_OWNER_USER, 1) \<and> (\<forall>f \<in> {4, 5, 6}. acct s' f = free_acct) \<and>
     unmap_user_page 0x2000 0x401000 PAGE_OWNER_USER demo_space = (-1, demo_space)"
proof -
  have v: "user_address 0x400000" "user_address 0x401000" by (simp_all add: user_address_def user_top_def)
  have al: "page_aligned 0x400000" by (simp add: page_aligned_def)
  have n: "pfn 0x3205 = 3" "(0x3205 :: u64) AND PTE_ADDR_MASK = 0x3000" "(0x3205 :: u64) AND PTE_US \<noteq> 0"
    by (simp_all add: pfn_def PTE_ADDR_MASK_def PTE_US_def)
  have none: "pte_of demo_space 0x2000 0x401000 = None"
  proof -
    have "table_path 0x401000 = [0, 0, 2]" "PT_INDEX 0x401000 = 1"
      by (simp_all add: table_path_def PML4_INDEX_def PDPT_INDEX_def PD_INDEX_def PT_INDEX_def)
    moreover have "tables demo_frames 2 [0, 0, 2] = Some 6" by (simp add: demo_tables)
    ultimately show ?thesis by (simp add: pte_of_def leaves_def demo_space_def demo_present pfn_def)
  qed
  obtain s' where s': "unmap_user_page 0x2000 0x400000 PAGE_OWNER_USER demo_space = (0, s')"
      "unmap_done 0x2000 0x400000 demo_space 0x3205 s'"
    using unmap_user_page_exact [OF demo_inv demo_ready demo_ok v(1)] demo_pte demo_user al n by auto
  moreover from s'(2) have "pte_of s' 0x2000 0x400000 = None" by (simp add: unmap_done_def pte_of_def)
  moreover from s'(2) have "acct s' 3 = (True, False, PAGE_OWNER_USER, 1)"
    using demo_user n(1) by (simp add: unmap_done_def)
  moreover have "acct s' f = free_acct" if "f \<in> {4, 5, 6}" for f
  proof -
    have "f \<in> table_frames (frames demo_space) 2" "pfn 0x2000 = 2"
      using that by (auto simp: table_frames_def demo_space_def demo_tables pfn_def)
    then show ?thesis using s'(2) that unfolding unmap_done_def by (auto simp: n demo_unmap [OF s'(2)])
  qed
  ultimately show ?thesis
    using unmap_user_page_exact [OF demo_inv demo_ready demo_ok v(2)] none by simp
qed

section \<open>Copy on write\<close>

text \<open>
  C10: A handled copy-on-write fault leaves the address with a private writable page: the new
  entry is present, user, writable and no longer copy-on-write, its page has exactly one
  mapping and the contents of the old page.  If the page was shared, the old page keeps its
  contents and the other mappings, and its count drops by one; no other mapping and no other
  memory in use changes.  A fault that is not handled changes no mapping and no accounting.
\<close>

theorem cow_fault_private:
  assumes "pmm_inv s" and "space_ok s r" and "user_address (v AND PTE_ADDR_MASK)"
    and "handle_cow_page_fault r v s = (c, s')"
  shows "c = 0 \<and> cow_done r s (table_path (v AND PTE_ADDR_MASK)) (PT_INDEX (v AND PTE_ADDR_MASK)) s' \<or>
    c = -1 \<and> similar r s s'"
  by (rule handle_cow_cases [OF assms])

lemma demo_cow: "fst (handle_cow_page_fault 0x2000 0x400123 demo_space) = 0"
  by code_simp

theorem cow_fault_private_witness:
  "\<exists>s'. handle_cow_page_fault 0x2000 0x400123 demo_space = (0, s') \<and>
     cow_done 0x2000 demo_space [0, 0, 2] 0 s'"
proof -
  obtain s' where h: "handle_cow_page_fault 0x2000 0x400123 demo_space = (0, s')"
    using demo_cow by (metis prod.collapse)
  have "(0x400123 :: u64) AND PTE_ADDR_MASK = 0x400000" by (simp add: PTE_ADDR_MASK_def)
  moreover have "table_path 0x400000 = [0, 0, 2]" "PT_INDEX 0x400000 = 0"
    by (simp_all add: table_path_def PML4_INDEX_def PDPT_INDEX_def PD_INDEX_def PT_INDEX_def)
  moreover have "user_address 0x400000" by (simp add: user_address_def user_top_def)
  ultimately show ?thesis
    using cow_fault_private [OF demo_inv demo_ok _ h] h by simp
qed

section \<open>User ranges\<close>

text \<open>
  The entries that translate an address, from the root table to the entry of its page, and what
  they must say: the required bits and the present bit at every level, and no large page.
\<close>

fun walk_entries :: "'a pmm_scheme \<Rightarrow> u64 \<Rightarrow> nat list \<Rightarrow> u64 list" where
  "walk_entries s t [] = []"
| "walk_entries s t (i # is) = tbl s t i # walk_entries s (tbl s t i AND PTE_ADDR_MASK) is"

definition permits :: "'a pmm_scheme \<Rightarrow> u64 \<Rightarrow> u64 \<Rightarrow> u64 \<Rightarrow> bool" where
  "permits s pml4 req a \<longleftrightarrow> pml4 \<noteq> 0 \<and>
     (let es = walk_entries s pml4 [PML4_INDEX a, PDPT_INDEX a, PD_INDEX a, PT_INDEX a] in
      (\<forall>e \<in> set es. \<forall>n. bit (req OR PTE_P) n \<longrightarrow> bit e n) \<and> (es ! 1) AND PTE_PS = 0 \<and> (es ! 2) AND PTE_PS = 0)"

lemma index_page [simp]:
  "PML4_INDEX (a AND PTE_ADDR_MASK) = PML4_INDEX a" "PDPT_INDEX (a AND PTE_ADDR_MASK) = PDPT_INDEX a"
  "PD_INDEX (a AND PTE_ADDR_MASK) = PD_INDEX a" "PT_INDEX (a AND PTE_ADDR_MASK) = PT_INDEX a"
  by (simp_all add: PML4_INDEX_def PDPT_INDEX_def PD_INDEX_def PT_INDEX_def PTE_ADDR_MASK_def drop_bit_and and.assoc)

lemma has_bits_bit: "has_bits req e \<longleftrightarrow> (\<forall>n. bit req n \<longrightarrow> bit e n)" for req e :: u64
proof
  assume "has_bits req e"
  then have "bit (e AND req) n = bit req n" for n by (simp add: has_bits_def)
  then show "\<forall>n. bit req n \<longrightarrow> bit e n" by (auto simp: bit_and_iff)
qed (auto simp: has_bits_def bit_eq_iff bit_and_iff)

lemma user_page_has_access_permits: "user_page_has_access pml4 (a AND PTE_ADDR_MASK) req s \<longleftrightarrow> permits s pml4 req a"
  by (auto simp: user_page_has_access_def permits_def Let_def has_bits_bit)

text \<open>
  C11: The check of a user range ends for every argument and is exact: it accepts the empty
  range, and otherwise exactly the ranges that do not start at 0, lie whole in the user half
  without wrapping around, and whose every byte is translated by four entries that all are present
  and have every required permission bit, none of them a large page.
\<close>

theorem user_range_check_exact:
  "user_range_has_access pml4 v len req s = Some (len = 0 \<or> v \<noteq> 0 \<and> unat v + unat len \<le> 2 ^ 47 \<and>
     (\<forall>a. unat v \<le> unat a \<and> unat a < unat v + unat len \<longrightarrow> permits s pml4 req a))"
  using user_range_has_access_exact [of pml4 v len req s]
  by (simp only: user_range_def conj_assoc user_page_has_access_permits)

lemma demo_rights:
  "user_page_has_access 0x2000 0x400000 PTE_US demo_space \<and> \<not> user_page_has_access 0x2000 0x400000 PTE_RW demo_space"
  by code_simp

lemma demo_page_bytes: "a AND PTE_ADDR_MASK = 0x400000" if "0x400000 \<le> unat a" "unat a < 0x401000" for a :: u64
proof -
  have "unat a div 4096 = 0x400" using that by simp
  then show ?thesis by (simp add: page_paddr_mask pfn_def page_paddr_def)
qed

theorem user_range_check_exact_witness:
  "user_range_has_access 0x2000 0x400010 3 PTE_US demo_space = Some True \<and>
   user_range_has_access 0x2000 0x400010 3 PTE_RW demo_space = Some False"
proof -
  have p: "permits demo_space 0x2000 PTE_US a" "\<not> permits demo_space 0x2000 PTE_RW a"
    if "0x400000 \<le> unat a" "unat a < 0x401000" for a
    using demo_rights demo_page_bytes [OF that] by (simp_all flip: user_page_has_access_permits)
  have "\<not> (\<forall>a. 0x400010 \<le> unat a \<and> unat a < 0x400013 \<longrightarrow> permits demo_space 0x2000 PTE_RW a)"
    using p(2) [of "0x400010"] by (auto intro!: exI [of _ "0x400010"])
  then show ?thesis
    using user_range_check_exact [of "0x2000" "0x400010" 3 PTE_US demo_space] p(1)
      user_range_check_exact [of "0x2000" "0x400010" 3 PTE_RW demo_space] by simp
qed

text \<open>
  C12: Copying from user memory always returns; it succeeds exactly when the destination is
  given and the range is readable by the user, and then it delivers the bytes of the range in
  order, one for each address, also across page boundaries.
\<close>

theorem copy_from_user_exact:
  assumes "0 < n" and "n < 2 ^ 64"
  shows "copy_from_user dst_null cr3 src n s =
    Some (if \<not> dst_null \<and> src \<noteq> 0 \<and> unat src + n \<le> 2 ^ 47 \<and>
             (\<forall>a. unat src \<le> unat a \<and> unat a < unat src + n \<longrightarrow>
                user_page_has_access cr3 (a AND PTE_ADDR_MASK) (PTE_P OR PTE_US) s)
          then (0, map (\<lambda>k. user_byte cr3 s (src + of_nat k)) [0..<n])
          else (-1, []))"
proof -
  have "unat (of_nat n :: u64) = n" using assms(2) by (simp add: unat_of_nat take_bit_eq_mod)
  moreover from this have "(of_nat n :: u64) \<noteq> 0" using assms(1) by (metis less_numeral_extra(3) unat_0)
  ultimately show ?thesis
    using assms(1)
    by (cases "src \<noteq> 0 \<and> unat src + n \<le> 2 ^ 47 \<and>
             (\<forall>a. unat src \<le> unat a \<and> unat a < unat src + n \<longrightarrow>
                user_page_has_access cr3 (a AND PTE_ADDR_MASK) (PTE_P OR PTE_US) s)")
      (simp_all only: copy_from_user_def user_range_is_readable_def user_range_has_access_exact
        user_range_def copy_in_exact conj_assoc, auto)
qed

lemma demo_access: "user_page_has_access 0x2000 0x400000 (PTE_P OR PTE_US) demo_space"
  by code_simp

theorem copy_from_user_exact_witness:
  "copy_from_user False 0x2000 0x400000 3 demo_space =
   Some (0, map (\<lambda>k. user_byte 0x2000 demo_space (0x400000 + of_nat k)) [0..<3])"
proof -
  have "a AND PTE_ADDR_MASK = 0x400000" if "0x400000 \<le> unat a" "unat a < 0x400003" for a :: u64
    using that by (intro demo_page_bytes) simp_all
  with copy_from_user_exact [of 3 False "0x2000" "0x400000" demo_space] demo_access
  show ?thesis by simp
qed

end
