(* ===== verification/Kalloc.thy ===== *)
theory Kalloc
  imports Pmm
begin

text \<open>
  The kernel heap of kernel/kalloc.c.  An arena is a run of pages of the physical memory manager
  that starts with a \<^verbatim>\<open>HeapArena\<close> header; the rest is cut into blocks, each a \<^verbatim>\<open>HeapBlock\<close>
  header followed by its payload.  Both kinds of headers form doubly linked lists.  The headers
  are kept in two stores indexed by their virtual address (0 is NULL), so that the pointer
  updates of the code are updates of these stores; payload bytes stay in the page frames.
  Walks along a list are \<^verbatim>\<open>partial_function\<close>s whose value is \<open>None\<close> when the walk never ends.
\<close>

section \<open>Data\<close>

definition HEAP_ARENA_MAGIC :: u64 where "HEAP_ARENA_MAGIC = 0x4152454E41504D47"
definition HEAP_BLOCK_MAGIC :: u64 where "HEAP_BLOCK_MAGIC = 0x424C4F434B504D47"
definition HEAP_ALIGNMENT :: u64 where "HEAP_ALIGNMENT = 8"

record HeapBlock =
  blk_magic :: u64
  blk_size :: u64
  blk_is_free :: bool
  blk_arena :: u64
  blk_prev :: u64
  blk_next :: u64

record HeapArena =
  arn_magic :: u64
  arn_paddr :: u64
  arn_page_count :: u32
  arn_live_blocks :: u64
  arn_prev :: u64
  arn_next :: u64
  arn_first :: u64

record heap = pmm +
  heap_arenas :: u64
  heap_initialized :: bool
  arena_at :: "u64 \<Rightarrow> HeapArena"
  block_at :: "u64 \<Rightarrow> HeapBlock"

text \<open>\<^verbatim>\<open>sizeof\<close> of the two headers: six and seven words of eight bytes, padding included.\<close>

definition sizeof_HeapBlock :: u64 where "sizeof_HeapBlock = 48"
definition sizeof_HeapArena :: u64 where "sizeof_HeapArena = 56"

definition upd_arena :: "u64 \<Rightarrow> (HeapArena \<Rightarrow> HeapArena) \<Rightarrow> 'a heap_scheme \<Rightarrow> 'a heap_scheme" where
  "upd_arena a f s = s\<lparr>arena_at := (arena_at s)(a := f (arena_at s a))\<rparr>"

definition upd_block :: "u64 \<Rightarrow> (HeapBlock \<Rightarrow> HeapBlock) \<Rightarrow> 'a heap_scheme \<Rightarrow> 'a heap_scheme" where
  "upd_block b f s = s\<lparr>block_at := (block_at s)(b := f (block_at s b))\<rparr>"

section \<open>Operations\<close>

definition add_overflows :: "u64 \<Rightarrow> u64 \<Rightarrow> bool" where
  "add_overflows left right \<longleftrightarrow> right > - 1 - left"

definition align_size :: "u64 \<Rightarrow> u64 option" where
  "align_size sz =
     (if add_overflows sz (HEAP_ALIGNMENT - 1) then None
      else Some ((sz + HEAP_ALIGNMENT - 1) AND NOT (HEAP_ALIGNMENT - 1)))"

definition link_arena :: "u64 \<Rightarrow> 'a heap_scheme \<Rightarrow> 'a heap_scheme" where
  "link_arena arena s =
     (let s1 = upd_arena arena (\<lambda>x. x\<lparr>arn_prev := 0, arn_next := heap_arenas s\<rparr>) s;
          s2 = (if heap_arenas s1 \<noteq> 0
                then upd_arena (heap_arenas s1) (\<lambda>x. x\<lparr>arn_prev := arena\<rparr>) s1 else s1)
      in s2\<lparr>heap_arenas := arena\<rparr>)"

definition unlink_arena :: "u64 \<Rightarrow> 'a heap_scheme \<Rightarrow> 'a heap_scheme" where
  "unlink_arena arena s =
     (let prev = arn_prev (arena_at s arena); nxt = arn_next (arena_at s arena);
          s1 = (if prev \<noteq> 0 then upd_arena prev (\<lambda>x. x\<lparr>arn_next := nxt\<rparr>) s
                else s\<lparr>heap_arenas := nxt\<rparr>)
      in if arn_next (arena_at s1 arena) \<noteq> 0
         then upd_arena (arn_next (arena_at s1 arena))
                (\<lambda>x. x\<lparr>arn_prev := arn_prev (arena_at s1 arena)\<rparr>) s1
         else s1)"

text \<open>\<^verbatim>\<open>memset(P2V(paddr), 0, pages_size * PAGE_SIZE)\<close>.\<close>

definition zero_pages :: "u64 \<Rightarrow> nat \<Rightarrow> 'a pmm_scheme \<Rightarrow> 'a pmm_scheme" where
  "zero_pages paddr n s =
     fold (\<lambda>j s. s\<lparr>frames := (frames s)(pfn paddr + j := (\<lambda>_. 0))\<rparr>) [0..<n] s"

definition create_arena :: "u64 \<Rightarrow> 'a heap_scheme \<Rightarrow> u64 \<times> 'a heap_scheme" where
  "create_arena requested_size s =
     (case align_size requested_size of None \<Rightarrow> (0, s)
      | Some aligned_size \<Rightarrow>
        let overhead = sizeof_HeapArena + sizeof_HeapBlock in
        if add_overflows overhead aligned_size then (0, s)
        else let total_size = overhead + aligned_size in
        if add_overflows total_size (4096 - 1) then (0, s)
        else let pages_size = (total_size + 4096 - 1) div 4096 in
        if pages_size = 0 \<or> pages_size > 0xFFFFFFFF then (0, s)
        else let page_count = (ucast pages_size :: u32) in
        case alloc_pages_owned (unat page_count) PAGE_OWNER_HEAP s of
          (paddr, s1) \<Rightarrow>
            if paddr = 0 then (0, s1)
            else let s2 = zero_pages paddr (unat pages_size) s1;
                     arena = P2V paddr;
                     block = arena + sizeof_HeapArena;
                     s3 = upd_arena arena (\<lambda>x. x\<lparr>arn_magic := HEAP_ARENA_MAGIC, arn_paddr := paddr,
                            arn_page_count := page_count, arn_live_blocks := 0,
                            arn_first := block\<rparr>) s2;
                     s4 = upd_block block (\<lambda>x. x\<lparr>blk_magic := HEAP_BLOCK_MAGIC,
                            blk_size := pages_size * 4096 - overhead, blk_is_free := True,
                            blk_arena := arena, blk_prev := 0, blk_next := 0\<rparr>) s3
                 in (arena, link_arena arena s4))"

definition split_block :: "u64 \<Rightarrow> u64 \<Rightarrow> 'a heap_scheme \<Rightarrow> 'a heap_scheme" where
  "split_block block requested_size s =
     (if blk_size (block_at s block) < requested_size then s
      else let remaining = blk_size (block_at s block) - requested_size in
        if remaining < sizeof_HeapBlock + HEAP_ALIGNMENT then s
        else let new_block = block + sizeof_HeapBlock + requested_size;
                 s1 = upd_block new_block (\<lambda>x. x\<lparr>blk_magic := HEAP_BLOCK_MAGIC,
                        blk_size := remaining - sizeof_HeapBlock, blk_is_free := True,
                        blk_arena := blk_arena (block_at s block), blk_prev := block,
                        blk_next := blk_next (block_at s block)\<rparr>) s;
                 nxt = blk_next (block_at s1 new_block);
                 s2 = (if nxt \<noteq> 0 then upd_block nxt (\<lambda>x. x\<lparr>blk_prev := new_block\<rparr>) s1 else s1)
             in upd_block block (\<lambda>x. x\<lparr>blk_next := new_block, blk_size := requested_size\<rparr>) s2)"

partial_function (option) find_in_blocks :: "u64 \<Rightarrow> u64 \<Rightarrow> 'a heap_scheme \<Rightarrow> u64 option" where
  "find_in_blocks ptr block s =
     (if block = 0 then Some 0
      else if blk_magic (block_at s block) = HEAP_BLOCK_MAGIC \<and> block + sizeof_HeapBlock = ptr
      then Some block
      else find_in_blocks ptr (blk_next (block_at s block)) s)"

partial_function (option) find_in_arenas :: "u64 \<Rightarrow> u64 \<Rightarrow> 'a heap_scheme \<Rightarrow> u64 option" where
  "find_in_arenas ptr arena s =
     (if arena = 0 then Some 0
      else if arn_magic (arena_at s arena) \<noteq> HEAP_ARENA_MAGIC
      then find_in_arenas ptr (arn_next (arena_at s arena)) s
      else case find_in_blocks ptr (arn_first (arena_at s arena)) s of
        None \<Rightarrow> None
      | Some block \<Rightarrow>
          if block \<noteq> 0 then Some block
          else find_in_arenas ptr (arn_next (arena_at s arena)) s)"

definition find_block :: "u64 \<Rightarrow> 'a heap_scheme \<Rightarrow> u64 option" where
  "find_block ptr s = find_in_arenas ptr (heap_arenas s) s"

definition merge_with_next :: "u64 \<Rightarrow> 'a heap_scheme \<Rightarrow> 'a heap_scheme" where
  "merge_with_next block s =
     (let nxt = blk_next (block_at s block) in
      if nxt = 0 \<or> \<not> blk_is_free (block_at s nxt) \<or>
         block + sizeof_HeapBlock + blk_size (block_at s block) \<noteq> nxt
      then s
      else let s1 = upd_block block (\<lambda>x. x\<lparr>blk_size := blk_size x + (sizeof_HeapBlock + blk_size (block_at s nxt)),
                      blk_next := blk_next (block_at s nxt)\<rparr>) s
           in if blk_next (block_at s1 block) \<noteq> 0
              then upd_block (blk_next (block_at s1 block)) (\<lambda>x. x\<lparr>blk_prev := block\<rparr>) s1
              else s1)"

definition reclaim_empty_arena :: "u64 \<Rightarrow> 'a heap_scheme \<Rightarrow> 'a heap_scheme" where
  "reclaim_empty_arena arena s =
     (if arena = 0 \<or> arn_live_blocks (arena_at s arena) \<noteq> 0 then s
      else let s1 = unlink_arena arena s in
        case free_pages_owned (arn_paddr (arena_at s1 arena))
               (unat (arn_page_count (arena_at s1 arena))) PAGE_OWNER_HEAP s1 of
          (r, s2) \<Rightarrow> if r \<noteq> 0 then link_arena arena s2 else s2)"

definition kmalloc_init :: "'a heap_scheme \<Rightarrow> 'a heap_scheme" where
  "kmalloc_init s = s\<lparr>heap_arenas := 0, heap_initialized := True\<rparr>"

text \<open>The two search loops of \<^verbatim>\<open>kmalloc\<close>: the first free block that is large enough.\<close>

partial_function (option) search_blocks :: "u64 \<Rightarrow> u64 \<Rightarrow> 'a heap_scheme \<Rightarrow> u64 option" where
  "search_blocks aligned_size block s =
     (if block = 0 then Some 0
      else if blk_is_free (block_at s block) \<and> blk_size (block_at s block) \<ge> aligned_size
      then Some block
      else search_blocks aligned_size (blk_next (block_at s block)) s)"

partial_function (option) search_arenas ::
    "u64 \<Rightarrow> u64 \<Rightarrow> 'a heap_scheme \<Rightarrow> (u64 \<times> u64) option" where
  "search_arenas aligned_size arena s =
     (if arena = 0 then Some (0, 0)
      else case search_blocks aligned_size (arn_first (arena_at s arena)) s of
        None \<Rightarrow> None
      | Some block \<Rightarrow>
          if block \<noteq> 0 then Some (arena, block)
          else search_arenas aligned_size (arn_next (arena_at s arena)) s)"

definition take_block :: "u64 \<Rightarrow> u64 \<Rightarrow> u64 \<Rightarrow> 'a heap_scheme \<Rightarrow> u64 \<times> 'a heap_scheme" where
  "take_block aligned_size arena block s =
     (let s1 = split_block block aligned_size s;
          s2 = upd_block block (\<lambda>x. x\<lparr>blk_is_free := False\<rparr>) s1;
          s3 = upd_arena arena (\<lambda>x. x\<lparr>arn_live_blocks := arn_live_blocks x + 1\<rparr>) s2
      in (block + sizeof_HeapBlock, s3))"

partial_function (option) kmalloc_loop ::
    "u64 \<Rightarrow> 'a heap_scheme \<Rightarrow> (u64 \<times> 'a heap_scheme) option" where
  "kmalloc_loop aligned_size s =
     (case search_arenas aligned_size (heap_arenas s) s of
        None \<Rightarrow> None
      | Some (arena, block) \<Rightarrow>
          if block \<noteq> 0 then Some (take_block aligned_size arena block s)
          else case create_arena aligned_size s of
            (a, s1) \<Rightarrow> if a = 0 then Some (0, s1) else kmalloc_loop aligned_size s1)"

definition kmalloc :: "u64 \<Rightarrow> 'a heap_scheme \<Rightarrow> (u64 \<times> 'a heap_scheme) option" where
  "kmalloc sz s =
     (if \<not> heap_initialized s \<or> sz = 0 then Some (0, s)
      else case align_size sz of
        None \<Rightarrow> Some (0, s)
      | Some aligned_size \<Rightarrow> kmalloc_loop aligned_size s)"

definition kfree :: "u64 \<Rightarrow> 'a heap_scheme \<Rightarrow> (int \<times> 'a heap_scheme) option" where
  "kfree ptr s =
     (if ptr = 0 then Some (0, s)
      else case find_block ptr s of
        None \<Rightarrow> None
      | Some block \<Rightarrow>
          if block = 0 \<or> blk_is_free (block_at s block) then Some (-1, s)
          else let arena = blk_arena (block_at s block) in
            if arn_live_blocks (arena_at s arena) = 0 then Some (-1, s)
            else let s1 = upd_block block (\<lambda>x. x\<lparr>blk_is_free := True\<rparr>) s;
                     s2 = upd_arena arena (\<lambda>x. x\<lparr>arn_live_blocks := arn_live_blocks x - 1\<rparr>) s1;
                     s3 = merge_with_next block s2;
                     prev = blk_prev (block_at s3 block);
                     s4 = (if prev \<noteq> 0 \<and> blk_is_free (block_at s3 prev)
                           then merge_with_next prev s3 else s3)
                 in Some (0, reclaim_empty_arena arena s4))"

record kalloc_stats =
  ks_arenas :: u64
  ks_arena_pages :: u64
  ks_active_blocks :: u64
  ks_allocated_bytes :: u64
  ks_free_bytes :: u64

definition zero_kstats :: kalloc_stats where
  "zero_kstats = \<lparr>ks_arenas = 0, ks_arena_pages = 0, ks_active_blocks = 0,
     ks_allocated_bytes = 0, ks_free_bytes = 0\<rparr>"

partial_function (option) stats_blocks ::
    "u64 \<Rightarrow> 'a heap_scheme \<Rightarrow> kalloc_stats \<Rightarrow> kalloc_stats option" where
  "stats_blocks block s st =
     (if block = 0 then Some st
      else stats_blocks (blk_next (block_at s block)) s
        (if blk_is_free (block_at s block)
         then st\<lparr>ks_free_bytes := ks_free_bytes st + blk_size (block_at s block)\<rparr>
         else st\<lparr>ks_active_blocks := ks_active_blocks st + 1,
                 ks_allocated_bytes := ks_allocated_bytes st + blk_size (block_at s block)\<rparr>))"

partial_function (option) stats_arenas ::
    "u64 \<Rightarrow> 'a heap_scheme \<Rightarrow> kalloc_stats \<Rightarrow> kalloc_stats option" where
  "stats_arenas arena s st =
     (if arena = 0 then Some st
      else case stats_blocks (arn_first (arena_at s arena)) s
          (st\<lparr>ks_arenas := ks_arenas st + 1,
              ks_arena_pages := ks_arena_pages st + ucast (arn_page_count (arena_at s arena))\<rparr>) of
        None \<Rightarrow> None
      | Some st1 \<Rightarrow> stats_arenas (arn_next (arena_at s arena)) s st1)"

definition kalloc_get_stats :: "'a heap_scheme \<Rightarrow> kalloc_stats option" where
  "kalloc_get_stats s =
     (if \<not> heap_initialized s then Some zero_kstats
      else stats_arenas (heap_arenas s) s zero_kstats)"

declare find_in_blocks.simps [simp del] find_in_arenas.simps [simp del]
  search_blocks.simps [simp del] search_arenas.simps [simp del] kmalloc_loop.simps [simp del]
  stats_blocks.simps [simp del] stats_arenas.simps [simp del]

declare find_in_blocks.simps [code] find_in_arenas.simps [code] search_blocks.simps [code]
  search_arenas.simps [code] kmalloc_loop.simps [code] stats_blocks.simps [code]
  stats_arenas.simps [code]

end
