(* ===== verification/Kalloc_Rep.thy ===== *)
theory Kalloc_Rep
  imports Kalloc
begin

text \<open>
  The abstract heap and how the pointer structure of Kalloc represents it.  An arena is the
  sequence of its cells (payload size and free flag); the addresses of all headers follow from
  the sizes, since the cells tile the arena.  A segment relation in the style of linked-list
  verification says that the block headers stored from an address on are the headers of a
  given sequence of cells.
\<close>

section \<open>Cells\<close>

type_synonym cell = "nat \<times> bool"

definition cell_size :: "cell \<Rightarrow> nat" where
  "cell_size c = 48 + fst c"

definition span :: "cell list \<Rightarrow> nat" where
  "span cs = sum_list (map cell_size cs)"

lemma span_simps [simp]:
  "span [] = 0" "span (c # cs) = 48 + fst c + span cs" "span (xs @ ys) = span xs + span ys"
  by (simp_all add: span_def cell_size_def)

definition n_live :: "cell list \<Rightarrow> nat" where
  "n_live cs = length (filter (\<lambda>c. \<not> snd c) cs)"

lemma n_live_simps [simp]:
  "n_live [] = 0" "n_live (c # cs) = (if snd c then n_live cs else Suc (n_live cs))"
  "n_live (xs @ ys) = n_live xs + n_live ys"
  by (simp_all add: n_live_def)

text \<open>No two neighbouring cells are free.\<close>

fun coalesced :: "cell list \<Rightarrow> bool" where
  "coalesced (c # d # cs) \<longleftrightarrow> \<not> (snd c \<and> snd d) \<and> coalesced (d # cs)"
| "coalesced _ \<longleftrightarrow> True"

lemma coalesced_append:
  "coalesced (xs @ ys) \<longleftrightarrow> coalesced xs \<and> coalesced ys \<and>
     (xs \<noteq> [] \<longrightarrow> ys \<noteq> [] \<longrightarrow> \<not> (snd (last xs) \<and> snd (hd ys)))"
proof (induction xs)
  case (Cons c xs)
  then show ?case by (cases xs; cases ys) auto
qed simp

lemma coalesced_Cons:
  "coalesced (c # cs) \<longleftrightarrow> coalesced cs \<and> (cs \<noteq> [] \<longrightarrow> \<not> (snd c \<and> snd (hd cs)))"
  by (cases cs) auto

section \<open>Addresses and sizes as machine words\<close>

definition w64 :: "nat \<Rightarrow> u64" where
  "w64 n = of_nat n"

lemma unat_w64 [simp]: "n < 2 ^ 64 \<Longrightarrow> unat (w64 n) = n"
  by (simp add: w64_def unat_of_nat_u64)

lemma w64_eq: "a < 2 ^ 64 \<Longrightarrow> b < 2 ^ 64 \<Longrightarrow> w64 a = w64 b \<longleftrightarrow> a = b"
  by (metis unat_w64)

lemma w64_0 [simp]: "w64 0 = 0"
  by (simp add: w64_def)

lemma w64_eq_0: "a < 2 ^ 64 \<Longrightarrow> w64 a = 0 \<longleftrightarrow> a = 0"
  using w64_eq [of a 0] by simp

lemma w64_less: "n < 2 ^ 64 \<Longrightarrow> m < 2 ^ 64 \<Longrightarrow> w64 n < w64 m \<longleftrightarrow> n < m"
  by (simp add: word_less_nat_alt)

lemma w64_le: "n < 2 ^ 64 \<Longrightarrow> m < 2 ^ 64 \<Longrightarrow> w64 n \<le> w64 m \<longleftrightarrow> n \<le> m"
  by (simp add: word_le_nat_alt)

lemma w64_add: "w64 a + w64 b = w64 (a + b)"
  by (simp add: w64_def)

lemma w64_diff: "b \<le> a \<Longrightarrow> w64 a - w64 b = w64 (a - b)"
  by (simp add: w64_def)

lemma w64_unat [simp]: "w64 (unat p) = p"
  by (simp add: w64_def)

section \<open>Segments of block headers\<close>

text \<open>The header that follows: the first header of \<open>cs\<close> at \<open>a\<close>, or \<open>nxt\<close> if there is none.\<close>

definition first_ptr :: "nat \<Rightarrow> cell list \<Rightarrow> u64 \<Rightarrow> u64" where
  "first_ptr a cs nxt = (if cs = [] then nxt else w64 a)"

definition last_ptr :: "u64 \<Rightarrow> nat \<Rightarrow> cell list \<Rightarrow> u64" where
  "last_ptr prev a cs = (if cs = [] then prev else w64 (a + span (butlast cs)))"

lemma first_ptr_simps [simp]:
  "first_ptr a [] nxt = nxt" "first_ptr a (c # cs) nxt = w64 a"
  by (simp_all add: first_ptr_def)

lemma last_ptr_simps [simp]:
  "last_ptr prev a [] = prev"
  "last_ptr prev a (xs @ [c]) = w64 (a + span xs)"
  by (simp_all add: last_ptr_def)

lemma last_ptr_Cons:
  "last_ptr prev a (c # cs) = last_ptr (w64 a) (a + 48 + fst c) cs"
  by (cases cs rule: rev_cases) (simp_all add: last_ptr_def algebra_simps)

definition header :: "u64 \<Rightarrow> u64 \<Rightarrow> cell \<Rightarrow> u64 \<Rightarrow> HeapBlock" where
  "header arena prev c nxt = \<lparr>blk_magic = HEAP_BLOCK_MAGIC, blk_size = w64 (fst c),
     blk_is_free = snd c, blk_arena = arena, blk_prev = prev, blk_next = nxt\<rparr>"

lemma header_fields [simp]:
  "blk_magic (header ar p c n) = HEAP_BLOCK_MAGIC" "blk_size (header ar p c n) = w64 (fst c)"
  "blk_is_free (header ar p c n) = snd c" "blk_arena (header ar p c n) = ar"
  "blk_prev (header ar p c n) = p" "blk_next (header ar p c n) = n"
  by (simp_all add: header_def)

lemma header_updates [simp]:
  "(header ar p c n)\<lparr>blk_size := w64 m\<rparr> = header ar p (m, snd c) n"
  "(header ar p c n)\<lparr>blk_is_free := f\<rparr> = header ar p (fst c, f) n"
  "(header ar p c n)\<lparr>blk_prev := q\<rparr> = header ar q c n"
  "(header ar p c n)\<lparr>blk_next := q\<rparr> = header ar p c q"
  by (simp_all add: header_def)

lemma header_all:
  "x\<lparr>blk_magic := HEAP_BLOCK_MAGIC, blk_size := w64 k, blk_is_free := f,
     blk_arena := ar, blk_prev := p, blk_next := r\<rparr> = header ar p (k, f) r"
  by (simp add: header_def)

fun seg :: "(u64 \<Rightarrow> HeapBlock) \<Rightarrow> u64 \<Rightarrow> u64 \<Rightarrow> nat \<Rightarrow> cell list \<Rightarrow> u64 \<Rightarrow> bool" where
  "seg bl ar prev a [] nxt \<longleftrightarrow> True"
| "seg bl ar prev a (c # cs) nxt \<longleftrightarrow>
     bl (w64 a) = header ar prev c (first_ptr (a + 48 + fst c) cs nxt) \<and>
     seg bl ar (w64 a) (a + 48 + fst c) cs nxt"

lemma first_ptr_append:
  "first_ptr a (xs @ ys) nxt = first_ptr a xs (first_ptr (a + span xs) ys nxt)"
  by (cases xs) simp_all

lemma seg_append:
  "seg bl ar prev a (xs @ ys) nxt \<longleftrightarrow>
     seg bl ar prev a xs (first_ptr (a + span xs) ys nxt) \<and>
     seg bl ar (last_ptr prev a xs) (a + span xs) ys nxt"
proof (induction xs arbitrary: prev a)
  case (Cons c xs)
  then show ?case
    by (simp add: first_ptr_append last_ptr_Cons add.assoc)
qed simp

text \<open>A segment only depends on the headers at the addresses of its range.\<close>

definition heads :: "nat \<Rightarrow> cell list \<Rightarrow> u64 set" where
  "heads a cs = w64 ` {a ..< a + span cs}"

lemma heads_iff:
  "a + span cs \<le> 2 ^ 64 \<Longrightarrow> b < 2 ^ 64 \<Longrightarrow> w64 b \<in> heads a cs \<longleftrightarrow> a \<le> b \<and> b < a + span cs"
  unfolding heads_def by (auto simp: w64_eq)

lemma seg_cong:
  "(\<And>p. p \<in> heads a cs \<Longrightarrow> bl' p = bl p) \<Longrightarrow> seg bl' ar prev a cs nxt = seg bl ar prev a cs nxt"
proof (induction cs arbitrary: prev a)
  case (Cons c cs)
  have "heads (a + 48 + fst c) cs \<subseteq> heads a (c # cs)"
    unfolding heads_def by (intro image_mono) auto
  moreover have "w64 a \<in> heads a (c # cs)" unfolding heads_def by auto
  ultimately show ?case using Cons.IH [of "a + 48 + fst c"] Cons.prems by (simp add: subset_iff)
qed simp

lemma seg_upd_other:
  "p \<notin> heads a cs \<Longrightarrow> seg (bl(p := x)) ar prev a cs nxt = seg bl ar prev a cs nxt"
  by (rule seg_cong) auto

text \<open>Replacing the pointer to the previous header in the first header.\<close>

definition relink_head :: "u64 \<Rightarrow> u64 \<Rightarrow> (u64 \<Rightarrow> HeapBlock) \<Rightarrow> u64 \<Rightarrow> HeapBlock" where
  "relink_head p q bl = (if p \<noteq> 0 then bl(p := (bl p)\<lparr>blk_prev := q\<rparr>) else bl)"

lemma seg_relink:
  assumes "seg bl ar prev a cs 0" and "0 < a" and "a + span cs \<le> 2 ^ 64"
  shows "seg (relink_head (first_ptr a cs 0) q bl) ar q a cs 0"
proof (cases cs)
  case (Cons c ds)
  have "(w64 a :: u64) \<noteq> 0" using assms(2,3) Cons by (simp add: w64_eq_0)
  moreover have "w64 a \<notin> heads (a + 48 + fst c) ds"
    using assms(2,3) Cons by (subst heads_iff) auto
  ultimately show ?thesis
    using assms(1) Cons by (simp add: relink_head_def seg_upd_other)
qed simp

lemma relink_head_other: "(p \<noteq> 0 \<Longrightarrow> p \<noteq> r) \<Longrightarrow> relink_head p q bl r = bl r"
  by (auto simp: relink_head_def)

section \<open>Splitting and merging one block\<close>

definition split_cells :: "nat \<Rightarrow> nat \<Rightarrow> cell list \<Rightarrow> cell list" where
  "split_cells n m cs =
     (if 56 \<le> m - n then (n, False) # (m - n - 48, True) # cs else (m, False) # cs)"

fun merge_cells :: "cell \<Rightarrow> cell list \<Rightarrow> cell list" where
  "merge_cells c [] = [c]"
| "merge_cells c (d # cs) = (if snd d then (fst c + 48 + fst d, snd c) # cs else c # d # cs)"

lemma span_split_cells [simp]: "n \<le> m \<Longrightarrow> span (split_cells n m cs) = 48 + m + span cs"
  by (simp add: split_cells_def)

lemma span_merge_cells [simp]: "span (merge_cells c cs) = 48 + fst c + span cs"
  by (cases cs) auto

lemma upd_block_fields [frame_simps, simp]:
  "block_at (upd_block b f s) = (block_at s)(b := f (block_at s b))"
  "arena_at (upd_block b f s) = arena_at s" "heap_arenas (upd_block b f s) = heap_arenas s"
  by (simp_all add: upd_block_def)

text \<open>An operation that only rewrites block headers at addresses of \<open>A\<close>.\<close>

definition blocks_only :: "u64 set \<Rightarrow> 'a heap_scheme \<Rightarrow> 'a heap_scheme \<Rightarrow> bool" where
  "blocks_only A s s' \<longleftrightarrow> (\<exists>bl. s' = s\<lparr>block_at := bl\<rparr> \<and> (\<forall>p. p \<notin> A \<longrightarrow> bl p = block_at s p))"

lemma blocks_only_refl [simp]: "blocks_only A s s"
  unfolding blocks_only_def by (rule exI [of _ "block_at s"]) simp

lemma blocks_only_upd: "blocks_only A s t \<Longrightarrow> b \<in> A \<Longrightarrow> blocks_only A s (upd_block b f t)"
  unfolding blocks_only_def upd_block_def by (elim exE, intro exI conjI) auto

lemma blocks_only_trans: "blocks_only A s t \<Longrightarrow> blocks_only A t u \<Longrightarrow> blocks_only A s u"
  unfolding blocks_only_def by (elim exE, intro exI conjI) auto

lemma blocks_only_mono: "blocks_only A s t \<Longrightarrow> A \<subseteq> B \<Longrightarrow> blocks_only B s t"
  unfolding blocks_only_def by blast

lemma blocks_only_seg:
  "blocks_only A s s' \<Longrightarrow> heads a cs \<inter> A = {} \<Longrightarrow>
   seg (block_at s') ar prev a cs nxt = seg (block_at s) ar prev a cs nxt"
  unfolding blocks_only_def by (intro seg_cong) auto

lemma sizeof_w64: "sizeof_HeapBlock = w64 48" "sizeof_HeapArena = w64 56"
  "sizeof_HeapBlock + HEAP_ALIGNMENT = w64 56"
  by (simp_all add: sizeof_HeapBlock_def sizeof_HeapArena_def HEAP_ALIGNMENT_def w64_def)

lemma split_block_eq:
  assumes hd: "block_at s (w64 a) = header ar prev (m, f) r"
    and "m < 2 ^ 64" and "n \<le> m"
  shows "split_block (w64 a) (w64 n) s =
    (if m - n < 56 then s
     else let q = w64 (a + 48 + n);
              s1 = upd_block q (\<lambda>_. header ar (w64 a) (m - n - 48, True) r) s;
              s2 = (if r \<noteq> 0 then upd_block r (\<lambda>x. x\<lparr>blk_prev := q\<rparr>) s1 else s1)
          in upd_block (w64 a) (\<lambda>x. x\<lparr>blk_next := q, blk_size := w64 n\<rparr>) s2)"
proof -
  have "w64 a + w64 48 + w64 n = w64 (a + 48 + n)" by (simp add: w64_add)
  moreover have "w64 m - w64 n = w64 (m - n)" using assms(3) by (rule w64_diff)
  moreover have "w64 (m - n) < w64 56 \<longleftrightarrow> m - n < 56" using assms(2) by (simp add: w64_less)
  moreover have "w64 (m - n) - w64 48 = w64 (m - n - 48)" if "\<not> m - n < 56"
    using that by (simp add: w64_diff)
  ultimately show ?thesis
    using assms(2,3)
    by (cases "m - n < 56")
      (simp_all add: split_block_def hd sizeof_w64(3) w64_less, simp add: sizeof_w64(1) header_all)
qed

lemma split_block_seg:
  assumes seg: "seg (block_at s) ar prev a ((m, f) # cs) 0" and a: "0 < a"
    and bound: "a + (48 + m + span cs) \<le> 2 ^ 64" and n: "n \<le> m"
  shows "seg (block_at (upd_block (w64 a) (\<lambda>x. x\<lparr>blk_is_free := False\<rparr>)
             (split_block (w64 a) (w64 n) s))) ar prev a (split_cells n m cs) 0"
    and "blocks_only (heads a ((m, f) # cs)) s (split_block (w64 a) (w64 n) s)"
proof -
  let ?p = "w64 a :: u64" and ?q = "w64 (a + 48 + n) :: u64"
  let ?r = "first_ptr (a + 48 + m) cs 0"
  have hd: "block_at s ?p = header ar prev (m, f) ?r"
    and tl: "seg (block_at s) ar ?p (a + 48 + m) cs 0" using seg by simp_all
  have m: "m < 2 ^ 64" using bound by linarith
  note eq = split_block_eq [OF hd m n]
  have p: "?p \<notin> heads (a + 48 + m) cs" "?p \<in> heads a ((m, f) # cs)"
    using bound a by (simp_all add: heads_iff)
  have q: "?q \<notin> heads (a + 48 + m) cs" "?q \<in> heads a ((m, f) # cs)" "?q \<noteq> ?p" if "56 \<le> m - n"
  proof -
    have "a + 48 + n < 2 ^ 64" using bound that by linarith
    then show "?q \<notin> heads (a + 48 + m) cs" "?q \<in> heads a ((m, f) # cs)" "?q \<noteq> ?p"
      using bound that a by (auto simp: heads_iff w64_eq)
  qed
  have r: "?r \<noteq> 0 \<Longrightarrow> ?r \<in> heads (a + 48 + m) cs"
    by (cases cs) (auto simp: heads_def)
  have sub: "heads (a + 48 + m) cs \<subseteq> heads a ((m, f) # cs)"
    unfolding heads_def by (intro image_mono) auto
  show "seg (block_at (upd_block ?p (\<lambda>x. x\<lparr>blk_is_free := False\<rparr>) (split_block ?p (w64 n) s)))
      ar prev a (split_cells n m cs) 0"
  proof (cases "m - n < 56")
    case True
    then show ?thesis
      using hd tl p by (simp add: eq split_cells_def seg_upd_other)
  next
    case False
    let ?bl = "(block_at s)(?q := header ar ?p (m - n - 48, True) ?r)"
    have bl: "block_at (upd_block ?p (\<lambda>x. x\<lparr>blk_is_free := False\<rparr>) (split_block ?p (w64 n) s)) =
        (relink_head ?r ?q ?bl)(?p := header ar prev (n, False) ?q)"
      using False hd p q r by (auto simp: eq Let_def relink_head_def fun_upd_twist)
    have "seg ?bl ar ?p (a + 48 + m) cs 0" using tl q False by (simp add: seg_upd_other)
    then have "seg (relink_head ?r ?q ?bl) ar ?q (a + 48 + m) cs 0"
      using bound by (intro seg_relink) auto
    moreover have "relink_head ?r ?q ?bl ?q = header ar ?p (m - n - 48, True) ?r"
      using r q False by (subst relink_head_other) auto
    moreover have "a + 48 + n + 48 + (m - n - 48) = a + 48 + m" using False n by simp
    ultimately have "seg ((relink_head ?r ?q ?bl)(?p := header ar prev (n, False) ?q))
        ar prev a ((n, False) # (m - n - 48, True) # cs) 0"
      using False q p by (simp only: seg.simps first_ptr_simps fst_conv seg_upd_other
          fun_upd_same fun_upd_other not_False_eq_True simp_thms not_less)
    then show ?thesis using False unfolding bl by (simp add: split_cells_def)
  qed
  show "blocks_only (heads a ((m, f) # cs)) s (split_block ?p (w64 n) s)"
    unfolding eq Let_def using p q r sub
    by (auto intro!: blocks_only_upd)
qed

lemma merge_with_next_eq:
  assumes hd: "block_at s (w64 a) = header ar prev c (w64 (a + 48 + fst c))"
    and nx: "block_at s (w64 (a + 48 + fst c)) = header ar (w64 a) d r"
    and "0 < a" and "a + 48 + fst c < 2 ^ 64"
  shows "merge_with_next (w64 a) s =
    (if snd d then
       let s1 = upd_block (w64 a) (\<lambda>_. header ar prev (fst c + 48 + fst d, snd c) r) s in
       if r \<noteq> 0 then upd_block r (\<lambda>x. x\<lparr>blk_prev := w64 a\<rparr>) s1 else s1
     else s)"
proof -
  have "w64 (a + 48 + fst c) \<noteq> 0" using assms(3,4) by (simp add: w64_eq_0)
  moreover have "w64 a + w64 48 + w64 (fst c) = w64 (a + 48 + fst c)" by (simp add: w64_add)
  moreover have "w64 (fst c) + (w64 48 + w64 (fst d)) = w64 (fst c + 48 + fst d)"
    by (simp add: w64_add add.assoc)
  moreover have "upd_block (w64 a) (\<lambda>x. x\<lparr>blk_size := w64 k, blk_next := r\<rparr>) s =
      upd_block (w64 a) (\<lambda>_. header ar prev (k, snd c) r) s" for k
    by (simp add: upd_block_def hd)
  moreover have "upd_block (w64 a) (\<lambda>x. x\<lparr>blk_size := blk_size x + k, blk_next := r\<rparr>) s =
      upd_block (w64 a) (\<lambda>x. x\<lparr>blk_size := w64 (fst c) + k, blk_next := r\<rparr>) s" for k
    by (simp add: upd_block_def hd)
  ultimately show ?thesis
    by (simp add: merge_with_next_def hd nx sizeof_w64(1) Let_def)
qed

lemma merge_with_next_seg:
  assumes seg: "seg (block_at s) ar prev a (c # cs) 0" and a: "0 < a"
    and bound: "a + (48 + fst c + span cs) \<le> 2 ^ 64"
  shows "seg (block_at (merge_with_next (w64 a) s)) ar prev a (merge_cells c cs) 0"
    and "blocks_only (heads a (c # cs)) s (merge_with_next (w64 a) s)"
proof (atomize (full), cases cs)
  case Nil
  then show "seg (block_at (merge_with_next (w64 a) s)) ar prev a (merge_cells c cs) 0 \<and>
      blocks_only (heads a (c # cs)) s (merge_with_next (w64 a) s)"
    using seg by (simp add: merge_with_next_def)
next
  case (Cons d ds)
  let ?p = "w64 a" and ?b = "a + 48 + fst c + 48 + fst d"
  let ?r = "first_ptr ?b ds 0"
  have hd: "block_at s ?p = header ar prev c (w64 (a + 48 + fst c))"
    and nx: "block_at s (w64 (a + 48 + fst c)) = header ar ?p d ?r"
    and tl: "seg (block_at s) ar (w64 (a + 48 + fst c)) ?b ds 0" using seg Cons by simp_all
  have "a + 48 + fst c < 2 ^ 64" using bound Cons by simp
  note eq = merge_with_next_eq [OF hd nx a this]
  have p: "?p \<notin> heads ?b ds" "?p \<in> heads a (c # cs)"
    using bound a Cons by (simp_all add: heads_iff)
  have r: "?r \<noteq> 0 \<Longrightarrow> ?r \<in> heads ?b ds" by (cases ds) (auto simp: heads_def)
  have sub: "heads ?b ds \<subseteq> heads a (c # cs)"
    unfolding heads_def Cons by (intro image_mono) auto
  have "blocks_only (heads a (c # cs)) s (merge_with_next ?p s)"
    unfolding eq Let_def using p r sub by (auto intro!: blocks_only_upd)
  moreover have "seg (block_at (merge_with_next ?p s)) ar prev a (merge_cells c cs) 0"
  proof (cases "snd d")
    case True
    let ?h = "header ar prev (fst c + 48 + fst d, snd c) ?r"
    have bl: "block_at (merge_with_next ?p s) = (relink_head ?r ?p (block_at s))(?p := ?h)"
      using True p r by (auto simp: eq Let_def relink_head_def fun_upd_twist)
    have "seg (relink_head ?r ?p (block_at s)) ar ?p ?b ds 0"
      using tl bound Cons by (intro seg_relink) auto
    moreover have "a + 48 + (fst c + 48 + fst d) = ?b" by simp
    ultimately have "seg ((relink_head ?r ?p (block_at s))(?p := ?h)) ar prev a
        ((fst c + 48 + fst d, snd c) # ds) 0"
      using p by (simp only: seg.simps fst_conv snd_conv seg_upd_other fun_upd_same
          simp_thms not_False_eq_True)
    then show ?thesis unfolding bl Cons merge_cells.simps if_P [OF True] .
  qed (use seg Cons in \<open>simp add: eq\<close>)
  ultimately show "seg (block_at (merge_with_next ?p s)) ar prev a (merge_cells c cs) 0 \<and>
      blocks_only (heads a (c # cs)) s (merge_with_next ?p s)" by blast
qed

section \<open>Walking along a segment\<close>

text \<open>Address of the first cell with the property.\<close>

fun first_cell :: "(nat \<Rightarrow> cell \<Rightarrow> bool) \<Rightarrow> nat \<Rightarrow> cell list \<Rightarrow> nat option" where
  "first_cell P a [] = None"
| "first_cell P a (c # cs) = (if P a c then Some a else first_cell P (a + 48 + fst c) cs)"

definition ptr_of :: "nat option \<Rightarrow> u64" where
  "ptr_of x = (case x of None \<Rightarrow> 0 | Some a \<Rightarrow> w64 a)"

lemma first_cell_bounds:
  "first_cell P a cs = Some b \<Longrightarrow> a \<le> b \<and> b + 48 \<le> a + span cs"
  by (induction cs arbitrary: a) (fastforce split: if_splits)+

lemma search_blocks_seg:
  assumes "seg (block_at s) ar prev a cs 0" and "0 < a" and "a + span cs \<le> 2 ^ 64" and "n < 2 ^ 64"
  shows "search_blocks (w64 n) (first_ptr a cs 0) s =
    Some (ptr_of (first_cell (\<lambda>_ c. snd c \<and> n \<le> fst c) a cs))"
  using assms
proof (induction cs arbitrary: prev a)
  case Nil
  then show ?case by (simp add: search_blocks.simps ptr_of_def)
next
  case (Cons c cs)
  have "w64 a \<noteq> 0" using Cons.prems by (simp add: w64_eq_0)
  moreover have "w64 n \<le> w64 (fst c) \<longleftrightarrow> n \<le> fst c" using Cons.prems by (simp add: w64_le)
  ultimately show ?case
    using Cons.IH [of "w64 a" "a + 48 + fst c"] Cons.prems
    by (subst search_blocks.simps) (simp add: ptr_of_def)
qed

lemma find_in_blocks_seg:
  assumes "seg (block_at s) ar prev a cs 0" and "0 < a" and "a + span cs \<le> 2 ^ 64"
  shows "find_in_blocks ptr (first_ptr a cs 0) s =
    Some (ptr_of (first_cell (\<lambda>b c. w64 (b + 48) = ptr) a cs))"
  using assms
proof (induction cs arbitrary: prev a)
  case Nil
  then show ?case by (simp add: find_in_blocks.simps ptr_of_def)
next
  case (Cons c cs)
  have "w64 a \<noteq> 0" using Cons.prems by (simp add: w64_eq_0)
  moreover have "w64 a + sizeof_HeapBlock = w64 (a + 48)" by (simp add: sizeof_w64 w64_add)
  ultimately show ?case
    using Cons.IH [of "w64 a" "a + 48 + fst c"] Cons.prems
    by (subst find_in_blocks.simps) (simp add: ptr_of_def)
qed

end
