(* ===== verification/Kalloc_Arenas.thy ===== *)
theory Kalloc_Arenas
  imports Kalloc_Rep
begin

text \<open>
  The list of arenas: the representation of a whole heap, and the effect on it of the
  operations that link, unlink, create and search arenas.
\<close>

section \<open>Abstract arenas\<close>

record harena =
  ha_page :: nat
  ha_pages :: nat
  ha_cells :: "cell list"

definition ha_base :: "harena \<Rightarrow> nat" where
  "ha_base h = 0xFFFF800000000000 + ha_page h * 4096"

definition ha_addr :: "harena \<Rightarrow> u64" where
  "ha_addr h = w64 (ha_base h)"

abbreviation ha_first :: "harena \<Rightarrow> nat" where
  "ha_first h \<equiv> ha_base h + 56"

text \<open>An arena is cut into cells of aligned size without gaps, and free neighbours are merged.\<close>

definition arena_wf :: "harena \<Rightarrow> bool" where
  "arena_wf h \<longleftrightarrow> 0 < ha_page h \<and> ha_pages h < 2 ^ 32 \<and> ha_page h + ha_pages h \<le> 2 ^ 35 \<and>
     ha_cells h \<noteq> [] \<and> 56 + span (ha_cells h) = ha_pages h * 4096 \<and>
     (\<forall>c \<in> set (ha_cells h). 0 < fst c \<and> 8 dvd fst c) \<and> coalesced (ha_cells h)"

definition arena_owned :: "'a pmm_scheme \<Rightarrow> harena \<Rightarrow> bool" where
  "arena_owned s h \<longleftrightarrow> (\<forall>p. ha_page h \<le> p \<and> p < ha_page h + ha_pages h \<longrightarrow>
     p < n_pages s \<and> allocated (page_info s p) \<and> \<not> reserved (page_info s p) \<and>
     owner_of (page_info s p) = PAGE_OWNER_HEAP \<and> refs_of (page_info s p) = 0)"

definition apart :: "harena \<Rightarrow> harena \<Rightarrow> bool" where
  "apart h k \<longleftrightarrow> ha_page h + ha_pages h \<le> ha_page k \<or> ha_page k + ha_pages k \<le> ha_page h"

lemma apart_sym: "apart h k \<Longrightarrow> apart k h"
  by (auto simp: apart_def)

lemma apart_cells [simp]:
  "apart (h\<lparr>ha_cells := cs\<rparr>) k = apart h k" "apart h (k\<lparr>ha_cells := cs\<rparr>) = apart h k"
  "ha_base (h\<lparr>ha_cells := cs\<rparr>) = ha_base h" "ha_addr (h\<lparr>ha_cells := cs\<rparr>) = ha_addr h"
  "arena_owned s (h\<lparr>ha_cells := cs\<rparr>) = arena_owned s h"
  by (simp_all add: apart_def ha_base_def ha_addr_def arena_owned_def)

lemma arena_bounds:
  assumes "arena_wf h"
  shows "ha_first h + span (ha_cells h) = ha_base h + ha_pages h * 4096"
    and "ha_base h + ha_pages h * 4096 \<le> 2 ^ 64" and "0 < ha_base h" and "ha_base h < 2 ^ 64"
    and "0 < ha_pages h" and "ha_page h < 2 ^ 35"
proof -
  have "ha_pages h \<noteq> 0" using assms by (auto simp: arena_wf_def)
  then show "0 < ha_pages h" by simp
  then show "ha_first h + span (ha_cells h) = ha_base h + ha_pages h * 4096"
    "ha_base h + ha_pages h * 4096 \<le> 2 ^ 64" "0 < ha_base h" "ha_base h < 2 ^ 64" "ha_page h < 2 ^ 35"
    using assms by (auto simp: arena_wf_def ha_base_def)
qed

lemma ha_addr_nz: "arena_wf h \<Longrightarrow> ha_addr h \<noteq> 0"
  using arena_bounds [of h] by (simp add: ha_addr_def w64_eq_0)

lemma ha_addr_apart: "arena_wf h \<Longrightarrow> arena_wf k \<Longrightarrow> apart h k \<Longrightarrow> ha_addr h \<noteq> ha_addr k"
  using arena_bounds [of h] arena_bounds [of k]
  by (auto simp: ha_addr_def w64_eq apart_def ha_base_def)

lemma ha_addr_P2V: "ha_page h < 2 ^ 35 \<Longrightarrow> ha_addr h = P2V (page_paddr (ha_page h))"
  by (simp add: ha_addr_def ha_base_def w64_def P2V_def PAGE_OFFSET_def page_paddr_def)

lemma heads_apart:
  assumes "arena_wf h" and "arena_wf k" and "apart h k"
  shows "heads (ha_first h) (ha_cells h) \<inter> heads (ha_first k) (ha_cells k) = {}"
proof -
  note b = arena_bounds [OF assms(1)] arena_bounds [OF assms(2)]
  have "w64 x \<noteq> w64 y" if "ha_first h \<le> x" "x < ha_first h + span (ha_cells h)"
    "ha_first k \<le> y" "y < ha_first k + span (ha_cells k)" for x y
  proof -
    have "x < 2 ^ 64" "y < 2 ^ 64" "x \<noteq> y"
      using that b assms(3) unfolding apart_def ha_base_def by linarith+
    then show ?thesis by (simp add: w64_eq)
  qed
  then show ?thesis unfolding heads_def by (auto simp del: of_nat_add)
qed

section \<open>Segments of arena headers\<close>

definition hd_ptr :: "harena list \<Rightarrow> u64 \<Rightarrow> u64" where
  "hd_ptr hs nxt = (if hs = [] then nxt else ha_addr (hd hs))"

definition last_aptr :: "u64 \<Rightarrow> harena list \<Rightarrow> u64" where
  "last_aptr prev hs = (if hs = [] then prev else ha_addr (last hs))"

lemma aptr_simps [simp]:
  "hd_ptr [] nxt = nxt" "hd_ptr (h # hs) nxt = ha_addr h"
  "last_aptr prev [] = prev" "last_aptr prev (hs @ [h]) = ha_addr h"
  by (simp_all add: hd_ptr_def last_aptr_def)

lemma last_aptr_Cons: "last_aptr prev (h # hs) = last_aptr (ha_addr h) hs"
  by (simp add: last_aptr_def)

lemma hd_ptr_append: "hd_ptr (xs @ ys) nxt = hd_ptr xs (hd_ptr ys nxt)"
  by (cases xs) simp_all

definition aheader :: "u64 \<Rightarrow> harena \<Rightarrow> u64 \<Rightarrow> HeapArena" where
  "aheader prev h nxt = \<lparr>arn_magic = HEAP_ARENA_MAGIC, arn_paddr = page_paddr (ha_page h),
     arn_page_count = of_nat (ha_pages h), arn_live_blocks = w64 (n_live (ha_cells h)),
     arn_prev = prev, arn_next = nxt, arn_first = w64 (ha_first h)\<rparr>"

lemma aheader_fields [simp]:
  "arn_magic (aheader p h n) = HEAP_ARENA_MAGIC" "arn_paddr (aheader p h n) = page_paddr (ha_page h)"
  "arn_page_count (aheader p h n) = of_nat (ha_pages h)"
  "arn_live_blocks (aheader p h n) = w64 (n_live (ha_cells h))"
  "arn_prev (aheader p h n) = p" "arn_next (aheader p h n) = n"
  "arn_first (aheader p h n) = w64 (ha_first h)"
  "(aheader p h n)\<lparr>arn_prev := q\<rparr> = aheader q h n" "(aheader p h n)\<lparr>arn_next := q\<rparr> = aheader p h q"
  by (simp_all add: aheader_def)

lemma aheader_cells:
  "(aheader p h n)\<lparr>arn_live_blocks := w64 (n_live cs)\<rparr> = aheader p (h\<lparr>ha_cells := cs\<rparr>) n"
  by (simp add: aheader_def)

fun aseg :: "(u64 \<Rightarrow> HeapArena) \<Rightarrow> u64 \<Rightarrow> harena list \<Rightarrow> u64 \<Rightarrow> bool" where
  "aseg ar prev [] nxt \<longleftrightarrow> True"
| "aseg ar prev (h # hs) nxt \<longleftrightarrow>
     ar (ha_addr h) = aheader prev h (hd_ptr hs nxt) \<and> aseg ar (ha_addr h) hs nxt"

lemma aseg_append:
  "aseg ar prev (xs @ ys) nxt \<longleftrightarrow>
     aseg ar prev xs (hd_ptr ys nxt) \<and> aseg ar (last_aptr prev xs) ys nxt"
  by (induction xs arbitrary: prev) (simp_all add: hd_ptr_append last_aptr_Cons)

lemma aseg_upd_other:
  "(\<And>h. h \<in> set hs \<Longrightarrow> ha_addr h \<noteq> p) \<Longrightarrow> aseg (ar(p := x)) prev hs nxt = aseg ar prev hs nxt"
  by (induction hs arbitrary: prev) auto

text \<open>Redirecting the ends of a segment: the pointer back from its first arena and the pointer
  out of its last.\<close>

lemma aseg_new_prev:
  assumes "aseg ar prev (h # hs) nxt" and "\<And>k. k \<in> set hs \<Longrightarrow> ha_addr k \<noteq> ha_addr h"
  shows "aseg (ar(ha_addr h := (ar (ha_addr h))\<lparr>arn_prev := q\<rparr>)) q (h # hs) nxt"
  using assms by (simp add: aseg_upd_other)

lemma aseg_new_next:
  assumes "aseg ar prev (hs @ [h]) nxt" and "\<And>k. k \<in> set hs \<Longrightarrow> ha_addr k \<noteq> ha_addr h"
  shows "aseg (ar(ha_addr h := (ar (ha_addr h))\<lparr>arn_next := q\<rparr>)) prev (hs @ [h]) q"
  using assms by (simp add: aseg_append aseg_upd_other)

section \<open>The heap\<close>

definition arena_rep :: "'a heap_scheme \<Rightarrow> harena \<Rightarrow> bool" where
  "arena_rep s h \<longleftrightarrow> arena_wf h \<and> arena_owned s h \<and>
     seg (block_at s) (ha_addr h) 0 (ha_first h) (ha_cells h) 0"

definition heap_rep :: "'a heap_scheme \<Rightarrow> harena list \<Rightarrow> bool" where
  "heap_rep s hs \<longleftrightarrow> heap_arenas s = hd_ptr hs 0 \<and> aseg (arena_at s) 0 hs 0 \<and>
     (\<forall>h \<in> set hs. arena_rep s h) \<and> sorted_wrt apart hs"

lemma upd_arena_fields [frame_simps, simp]:
  "arena_at (upd_arena a f s) = (arena_at s)(a := f (arena_at s a))"
  "block_at (upd_arena a f s) = block_at s" "heap_arenas (upd_arena a f s) = heap_arenas s"
  "heap_initialized (upd_arena a f s) = heap_initialized s"
  "heap_initialized (upd_block b g s) = heap_initialized s"
  "pmm_ready (upd_arena a f s) = pmm_ready s" "pmm_ready (upd_block b g s) = pmm_ready s"
  "phy_mem_map (upd_arena a f s) = phy_mem_map s" "phy_mem_map (upd_block b g s) = phy_mem_map s"
  "frames (upd_arena a f s) = frames s" "frames (upd_block b g s) = frames s"
  "live_threads (upd_arena a f s) = live_threads s" "live_threads (upd_block b g s) = live_threads s"
  by (simp_all add: upd_arena_def upd_block_def)

lemma page_info_heap [simp]:
  "page_info (upd_arena a f s) p = page_info s p" "page_info (upd_block b g s) p = page_info s p"
  "page_info (s\<lparr>heap_arenas := x\<rparr>) p = page_info s p"
  "page_info (s\<lparr>block_at := bl\<rparr>) p = page_info s p"
  by (simp_all add: page_info_def)

lemma arena_owned_heap [simp]:
  "arena_owned (upd_arena a f s) h = arena_owned s h"
  "arena_owned (upd_block b g s) h = arena_owned s h"
  "arena_owned (s\<lparr>heap_arenas := x\<rparr>) h = arena_owned s h"
  "arena_owned (s\<lparr>block_at := bl\<rparr>) h = arena_owned s h"
  by (simp_all add: arena_owned_def)

lemma arena_rep_heap [simp]:
  "arena_rep (upd_arena a f s) h = arena_rep s h"
  "arena_rep (s\<lparr>heap_arenas := x\<rparr>) h = arena_rep s h"
  by (simp_all add: arena_rep_def)

lemma sorted_apart_mid:
  "sorted_wrt apart (xs @ h # ys) \<longleftrightarrow> sorted_wrt apart (xs @ ys) \<and> (\<forall>k \<in> set (xs @ ys). apart h k)"
  by (auto simp: sorted_wrt_append intro: apart_sym)

lemma heap_rep_mid:
  assumes "heap_rep s (xs @ h # ys)"
  shows "arena_rep s h" and "\<And>k. k \<in> set (xs @ ys) \<Longrightarrow> arena_rep s k"
    and "\<And>k. k \<in> set (xs @ ys) \<Longrightarrow> apart h k"
    and "\<And>k. k \<in> set (xs @ ys) \<Longrightarrow> ha_addr k \<noteq> ha_addr h"
    and "sorted_wrt apart (xs @ ys)" and "aseg (arena_at s) 0 xs (ha_addr h)"
    and "arena_at s (ha_addr h) = aheader (last_aptr 0 xs) h (hd_ptr ys 0)"
    and "aseg (arena_at s) (ha_addr h) ys 0" and "heap_arenas s = hd_ptr xs (ha_addr h)"
proof -
  show 1: "arena_rep s h" "\<And>k. k \<in> set (xs @ ys) \<Longrightarrow> arena_rep s k"
    "\<And>k. k \<in> set (xs @ ys) \<Longrightarrow> apart h k" "sorted_wrt apart (xs @ ys)"
    "aseg (arena_at s) 0 xs (ha_addr h)" "aseg (arena_at s) (ha_addr h) ys 0"
    "arena_at s (ha_addr h) = aheader (last_aptr 0 xs) h (hd_ptr ys 0)"
    "heap_arenas s = hd_ptr xs (ha_addr h)"
    using assms by (auto simp: heap_rep_def sorted_apart_mid aseg_append hd_ptr_append)
  then show "\<And>k. k \<in> set (xs @ ys) \<Longrightarrow> ha_addr k \<noteq> ha_addr h"
    using ha_addr_apart by (fastforce simp: arena_rep_def)
qed

text \<open>Rewriting the cells of one arena.\<close>

lemma heap_rep_update:
  assumes rep: "heap_rep s (xs @ h # ys)"
    and only: "blocks_only (heads (ha_first h) (ha_cells h)) s t"
    and seg: "seg (block_at t) (ha_addr h) 0 (ha_first h) cs 0"
    and wf: "arena_wf (h\<lparr>ha_cells := cs\<rparr>)"
    and u: "u = upd_arena (ha_addr h) (\<lambda>x. x\<lparr>arn_live_blocks := w64 (n_live cs)\<rparr>) t"
  shows "heap_rep u (xs @ h\<lparr>ha_cells := cs\<rparr> # ys)"
proof -
  note mid = heap_rep_mid [OF rep]
  obtain bl where t: "t = s\<lparr>block_at := bl\<rparr>" using only by (auto simp: blocks_only_def)
  have keep: "arena_rep u k" if "k \<in> set (xs @ ys)" for k
  proof -
    have "heads (ha_first k) (ha_cells k) \<inter> heads (ha_first h) (ha_cells h) = {}"
      using mid(1,2,3) that by (intro heads_apart) (auto simp: arena_rep_def intro: apart_sym)
    then have "seg (block_at t) (ha_addr k) 0 (ha_first k) (ha_cells k) 0"
      using blocks_only_seg [OF only] mid(2) [OF that] by (simp add: arena_rep_def)
    then show ?thesis using mid(2) [OF that] by (simp add: u t arena_rep_def)
  qed
  have "arena_rep u (h\<lparr>ha_cells := cs\<rparr>)"
    using mid(1) wf seg by (simp add: arena_rep_def u t)
  moreover have "aseg (arena_at u) 0 xs (ha_addr h)" "aseg (arena_at u) (ha_addr h) ys 0"
    using mid(4,6,8) by (auto simp: u t aseg_upd_other)
  moreover have "arena_at u (ha_addr h) = aheader (last_aptr 0 xs) (h\<lparr>ha_cells := cs\<rparr>) (hd_ptr ys 0)"
    by (simp add: u t mid(7) aheader_cells)
  moreover have "sorted_wrt apart (xs @ h\<lparr>ha_cells := cs\<rparr> # ys)"
    using mid(3,5) by (simp add: sorted_apart_mid)
  moreover have "heap_arenas u = hd_ptr xs (ha_addr h)" by (simp add: u t mid(9))
  ultimately show ?thesis
    using keep by (auto simp: heap_rep_def aseg_append hd_ptr_append)
qed

section \<open>Linking and unlinking\<close>

text \<open>An operation that changes the list of arenas and nothing else.\<close>

definition arenas_only :: "'a heap_scheme \<Rightarrow> 'a heap_scheme \<Rightarrow> bool" where
  "arenas_only s s' \<longleftrightarrow> s' = s\<lparr>heap_arenas := heap_arenas s', arena_at := arena_at s'\<rparr>"

lemma arenas_only_fields:
  assumes "arenas_only s s'"
  shows "block_at s' = block_at s" and "page_info s' p = page_info s p"
    and "arena_rep s' h = arena_rep s h" and "phy_mem_map s' = phy_mem_map s"
    and "heap_initialized s' = heap_initialized s"
    and "frames s' = frames s" and "pmm_ready s' = pmm_ready s" and "live_threads s' = live_threads s"
proof -
  obtain x ar where "s' = s\<lparr>heap_arenas := x, arena_at := ar\<rparr>"
    using assms unfolding arenas_only_def by blast
  then show "block_at s' = block_at s" "page_info s' p = page_info s p"
    "arena_rep s' h = arena_rep s h" "phy_mem_map s' = phy_mem_map s"
    "heap_initialized s' = heap_initialized s" "frames s' = frames s" "pmm_ready s' = pmm_ready s"
    "live_threads s' = live_threads s"
    by (simp_all add: page_info_def arena_rep_def arena_owned_def)
qed

lemma arenas_only_trans: "arenas_only s t \<Longrightarrow> arenas_only t u \<Longrightarrow> arenas_only s u"
proof -
  assume "arenas_only s t" "arenas_only t u"
  then obtain x ar y br where "t = s\<lparr>heap_arenas := x, arena_at := ar\<rparr>" "u = t\<lparr>heap_arenas := y, arena_at := br\<rparr>"
    unfolding arenas_only_def by blast
  then show "arenas_only s u" by (simp add: arenas_only_def)
qed

definition alinked :: "'a heap_scheme \<Rightarrow> harena list \<Rightarrow> bool" where
  "alinked s hs \<longleftrightarrow> heap_arenas s = hd_ptr hs 0 \<and> aseg (arena_at s) 0 hs 0"

lemma heap_rep_alinked:
  "heap_rep s hs \<longleftrightarrow> alinked s hs \<and> (\<forall>h \<in> set hs. arena_rep s h) \<and> sorted_wrt apart hs"
  by (auto simp: heap_rep_def alinked_def)

lemma link_arena_alinked:
  assumes "alinked s hs" and "arena_at s (ha_addr h) = aheader p h n"
    and "sorted_wrt apart (h # hs)" and "\<And>k. k \<in> set (h # hs) \<Longrightarrow> arena_wf k"
  shows "alinked (link_arena (ha_addr h) s) (h # hs)" and "arenas_only s (link_arena (ha_addr h) s)"
proof -
  show "arenas_only s (link_arena (ha_addr h) s)"
    by (simp add: arenas_only_def link_arena_def Let_def upd_arena_def)
  have new: "ha_addr k \<noteq> ha_addr h" if "k \<in> set hs" for k
    using that assms(3,4) ha_addr_apart [of h k] by fastforce
  show "alinked (link_arena (ha_addr h) s) (h # hs)"
  proof (cases hs)
    case Nil
    then show ?thesis using assms(1,2) by (simp add: alinked_def link_arena_def)
  next
    case (Cons k ks)
    let ?ar = "(arena_at s)(ha_addr h := aheader 0 h (ha_addr k))"
    have "ha_addr k \<noteq> 0" using assms(4) Cons by (intro ha_addr_nz) simp
    then have ar: "arena_at (link_arena (ha_addr h) s) =
        ?ar(ha_addr k := (?ar (ha_addr k))\<lparr>arn_prev := ha_addr h\<rparr>)"
      using assms(1,2) Cons by (simp add: alinked_def link_arena_def)
    have "aseg ?ar 0 hs 0" using assms(1) new by (simp add: alinked_def aseg_upd_other)
    moreover have "ha_addr x \<noteq> ha_addr k" if "x \<in> set ks" for x
      using that assms(3,4) Cons ha_addr_apart [of k x] by fastforce
    ultimately have "aseg (arena_at (link_arena (ha_addr h) s)) (ha_addr h) hs 0"
      unfolding ar Cons by (intro aseg_new_prev) auto
    moreover have "arena_at (link_arena (ha_addr h) s) (ha_addr h) = aheader 0 h (ha_addr k)"
      using new [of k] Cons by (simp add: ar)
    moreover have "heap_arenas (link_arena (ha_addr h) s) = ha_addr h"
      by (simp add: link_arena_def Let_def)
    ultimately show ?thesis using Cons by (simp add: alinked_def)
  qed
qed

lemma unlink_arena_next:
  assumes "aseg ar p ys 0" and "sorted_wrt apart ys" and "\<And>k. k \<in> set ys \<Longrightarrow> arena_wf k"
  shows "aseg (if hd_ptr ys 0 \<noteq> 0
      then ar(hd_ptr ys 0 := (ar (hd_ptr ys 0))\<lparr>arn_prev := q\<rparr>) else ar) q ys 0"
proof (cases ys)
  case (Cons k ks)
  have "ha_addr x \<noteq> ha_addr k" if "x \<in> set ks" for x
    using that assms(2,3) Cons ha_addr_apart [of k x] by fastforce
  then show ?thesis
    using assms(1,3) Cons ha_addr_nz [of k] aseg_new_prev [of ar p k ks 0 q] by simp
qed simp

lemma unlink_arena_alinked:
  assumes rep: "heap_rep s (xs @ h # ys)"
  shows "alinked (unlink_arena (ha_addr h) s) (xs @ ys)"
    and "arenas_only s (unlink_arena (ha_addr h) s)"
    and "arena_at (unlink_arena (ha_addr h) s) (ha_addr h) = arena_at s (ha_addr h)"
proof -
  note mid = heap_rep_mid [OF rep]
  show "arenas_only s (unlink_arena (ha_addr h) s)"
    by (simp add: arenas_only_def unlink_arena_def Let_def upd_arena_def)
  have wf: "arena_wf k" if "k \<in> set (xs @ ys)" for k using mid(2) [OF that] by (simp add: arena_rep_def)
  have sorted: "sorted_wrt apart ys" "sorted_wrt apart xs" using mid(5) by (simp_all add: sorted_wrt_append)
  let ?fix = "\<lambda>ar. if hd_ptr ys 0 \<noteq> 0
      then ar(hd_ptr ys 0 := (ar (hd_ptr ys 0))\<lparr>arn_prev := last_aptr 0 xs\<rparr>) else ar"
  have tail: "ha_addr k \<noteq> hd_ptr ys 0" if "k \<in> set (xs @ [h])" for k
  proof (cases ys)
    case (Cons y zs)
    have "apart k y" "arena_wf k" "arena_wf y"
      using that Cons mid(1,3,5) wf by (auto simp: arena_rep_def sorted_wrt_append)
    then show ?thesis using Cons ha_addr_apart by simp
  qed (use that wf mid(1) in \<open>auto simp: arena_rep_def ha_addr_nz\<close>)
  show "alinked (unlink_arena (ha_addr h) s) (xs @ ys)"
    and "arena_at (unlink_arena (ha_addr h) s) (ha_addr h) = arena_at s (ha_addr h)"
  proof (atomize (full), cases xs rule: rev_cases)
    case Nil
    have eq: "arena_at (unlink_arena (ha_addr h) s) = ?fix (arena_at s)"
      "heap_arenas (unlink_arena (ha_addr h) s) = hd_ptr ys 0"
      by (simp_all add: unlink_arena_def Let_def mid(7) Nil)
    show "alinked (unlink_arena (ha_addr h) s) (xs @ ys) \<and>
        arena_at (unlink_arena (ha_addr h) s) (ha_addr h) = arena_at s (ha_addr h)"
      using unlink_arena_next [OF mid(8) sorted(1), of "last_aptr 0 xs"] wf tail [of h]
      by (auto simp: alinked_def eq Nil)
  next
    case (snoc us u)
    let ?ar = "(arena_at s)(ha_addr u := (arena_at s (ha_addr u))\<lparr>arn_next := hd_ptr ys 0\<rparr>)"
    have u: "ha_addr u \<noteq> 0" "ha_addr u \<noteq> ha_addr h"
      using ha_addr_nz [OF wf, of u] mid(4) [of u] snoc by auto
    have eq: "arena_at (unlink_arena (ha_addr h) s) = ?fix ?ar"
      "heap_arenas (unlink_arena (ha_addr h) s) = hd_ptr xs (ha_addr h)"
      using u tail by (simp_all add: unlink_arena_def Let_def mid(7,9) snoc)
    have "ha_addr k \<noteq> ha_addr u" if "k \<in> set us" for k
      using that sorted(2) wf snoc ha_addr_apart [of k u] by (auto simp: sorted_wrt_append)
    then have "aseg ?ar 0 xs (hd_ptr ys 0)"
      using mid(6) unfolding snoc by (intro aseg_new_next)
    then have "aseg (?fix ?ar) 0 xs (hd_ptr ys 0)" using tail by (auto simp: aseg_upd_other)
    moreover have "ha_addr k \<noteq> ha_addr u" if "k \<in> set ys" for k
      using that mid(5) wf snoc ha_addr_apart [of u k] by (auto simp: sorted_wrt_append)
    then have "aseg (?fix ?ar) (last_aptr 0 xs) ys 0"
      using mid(8) sorted(1) wf by (intro unlink_arena_next) (auto simp: aseg_upd_other)
    moreover have "hd_ptr xs (ha_addr h) = hd_ptr xs (hd_ptr ys 0)" by (simp add: snoc hd_ptr_def)
    moreover have "?fix ?ar (ha_addr h) = arena_at s (ha_addr h)" using u tail [of h] by simp
    ultimately show "alinked (unlink_arena (ha_addr h) s) (xs @ ys) \<and>
        arena_at (unlink_arena (ha_addr h) s) (ha_addr h) = arena_at s (ha_addr h)"
      by (simp only: alinked_def eq aseg_append hd_ptr_append simp_thms)
  qed
qed

end
