(* ===== verification/Kalloc_Ops.thy ===== *)
theory Kalloc_Ops
  imports Kalloc_Arenas
begin

text \<open>
  The operations of the heap on its representation: the searches return and find the first
  block in order, and creating an arena, taking a block and giving it back implement the
  abstract operations on cells.
\<close>

section \<open>Sizes\<close>

definition align8 :: "nat \<Rightarrow> nat" where
  "align8 n = (n + 7) div 8 * 8"

lemma align8_bounds: "n \<le> align8 n" "align8 n \<le> n + 7" "8 dvd align8 n"
  unfolding align8_def by presburger+

lemma align8_id: "8 dvd n \<Longrightarrow> align8 n = n"
  by (auto simp: align8_def)

lemma add_overflows_iff: "add_overflows a b \<longleftrightarrow> 2 ^ 64 \<le> unat a + unat b"
proof -
  have "unat (- 1 - a) = 2 ^ 64 - 1 - unat a"
    using unat_u64_less [of a] by (simp add: unat_sub_if_size word_size unat_minus_1_u64 word_le_nat_alt)
  then show ?thesis
    using unat_u64_less [of a] by (simp add: add_overflows_def word_less_nat_alt) linarith
qed

lemma align_size_eq:
  "align_size sz = (if unat sz + 7 < 2 ^ 64 then Some (w64 (align8 (unat sz))) else None)"
proof (cases "unat sz + 7 < 2 ^ 64")
  case True
  have mask: "HEAP_ALIGNMENT - 1 = mask 3" by (simp add: HEAP_ALIGNMENT_def mask_eq_exp_minus_1)
  have "sz + HEAP_ALIGNMENT - 1 = sz + 7" by (simp add: HEAP_ALIGNMENT_def)
  moreover have "unat (sz + 7) = unat sz + 7"
    using True unat_add_no_wrap [of sz 7] by simp
  ultimately have "unat (sz + HEAP_ALIGNMENT - 1) = unat sz + 7" by (simp only:)
  then have "unat ((sz + HEAP_ALIGNMENT - 1) AND NOT (mask 3)) = align8 (unat sz)"
    by (simp only: and_not_mask_unat align8_def) simp
  then have "(sz + HEAP_ALIGNMENT - 1) AND NOT (mask 3) = w64 (align8 (unat sz))"
    by (metis w64_unat)
  with True show ?thesis
    unfolding align_size_def mask by (simp add: add_overflows_iff mask_eq_exp_minus_1)
next
  case False
  then show ?thesis by (simp add: align_size_def add_overflows_iff HEAP_ALIGNMENT_def)
qed

section \<open>Searching\<close>

abbreviation fits :: "nat \<Rightarrow> cell \<Rightarrow> bool" where
  "fits n c \<equiv> snd c \<and> n \<le> fst c"

lemma first_cell_None: "first_cell (\<lambda>_. P) a cs = None \<longleftrightarrow> (\<forall>c \<in> set cs. \<not> P c)"
  by (induction cs arbitrary: a) auto

lemma first_cell_Some:
  "first_cell P a cs = Some b \<Longrightarrow>
   \<exists>us c vs. cs = us @ c # vs \<and> b = a + span us \<and> P b c \<and> first_cell P a us = None"
proof (induction cs arbitrary: a)
  case (Cons c cs)
  show ?case
  proof (cases "P a c")
    case True
    with Cons.prems show ?thesis by (intro exI [of _ "[]"]) auto
  next
    case False
    with Cons.prems obtain us d vs where "cs = us @ d # vs" "b = a + 48 + fst c + span us" "P b d"
      "first_cell P (a + 48 + fst c) us = None" using Cons.IH by fastforce
    with False show ?thesis by (intro exI [of _ "c # us"] exI [of _ d] exI [of _ vs]) simp
  qed
qed simp

lemma arena_first:
  assumes "arena_rep s h"
  shows "seg (block_at s) (ha_addr h) 0 (ha_first h) (ha_cells h) 0" and "0 < ha_first h"
    and "ha_first h + span (ha_cells h) \<le> 2 ^ 64" and "w64 (ha_first h) = first_ptr (ha_first h) (ha_cells h) 0"
    and "ha_addr h \<noteq> 0"
  using assms arena_bounds [of h] ha_addr_nz [of h]
  by (auto simp: arena_rep_def first_ptr_def arena_wf_def)

lemma ptr_of_0: "first_cell P a cs = x \<Longrightarrow> 0 < a \<Longrightarrow> a + span cs \<le> 2 ^ 64 \<Longrightarrow> ptr_of x = 0 \<longleftrightarrow> x = None"
  using first_cell_bounds [of P a cs] by (cases x) (auto simp: ptr_of_def w64_eq_0)

text \<open>The first cell, in the order of the search, that is free and has room for \<open>n\<close> bytes: it has
  size \<open>m\<close> and sits after the cells \<open>us\<close> of the arena \<open>h\<close>, which is after the arenas \<open>xs\<close>.\<close>

definition fit_at :: "nat \<Rightarrow> harena list \<Rightarrow> harena list \<times> harena \<times> harena list \<Rightarrow>
    cell list \<times> nat \<times> cell list \<Rightarrow> bool" where
  "fit_at n hs = (\<lambda>(xs, h, ys) (us, m, vs). hs = xs @ h # ys \<and> ha_cells h = us @ (m, True) # vs \<and> n \<le> m \<and>
     (\<forall>k \<in> set xs. \<forall>d \<in> set (ha_cells k). \<not> fits n d) \<and> (\<forall>d \<in> set us. \<not> fits n d))"

definition no_fit :: "nat \<Rightarrow> harena list \<Rightarrow> bool" where
  "no_fit n hs \<longleftrightarrow> (\<forall>h \<in> set hs. \<forall>c \<in> set (ha_cells h). \<not> fits n c)"

lemma fit_at_Cons:
  "fit_at n hs (xs, h, ys) cell \<Longrightarrow> \<forall>c \<in> set (ha_cells k). \<not> fits n c \<Longrightarrow>
   fit_at n (k # hs) (k # xs, h, ys) cell"
  by (auto simp: fit_at_def split: prod.splits)

lemma search_arenas_seg:
  assumes "aseg (arena_at s) prev hs 0" and "\<And>h. h \<in> set hs \<Longrightarrow> arena_rep s h" and "n < 2 ^ 64"
  shows "no_fit n hs \<and> search_arenas (w64 n) (hd_ptr hs 0) s = Some (0, 0) \<or>
    (\<exists>xs h ys us m vs. fit_at n hs (xs, h, ys) (us, m, vs) \<and>
      search_arenas (w64 n) (hd_ptr hs 0) s = Some (ha_addr h, w64 (ha_first h + span us)))"
  using assms
proof (induction hs arbitrary: prev)
  case Nil
  then show ?case by (simp add: search_arenas.simps no_fit_def)
next
  case (Cons h hs)
  note f = arena_first [OF Cons.prems(2) [of h], simplified]
  let ?x = "first_cell (\<lambda>_ c. fits n c) (ha_first h) (ha_cells h)"
  have sb: "search_blocks (w64 n) (w64 (ha_first h)) s = Some (ptr_of ?x)"
    using search_blocks_seg [OF f(1) _ _ Cons.prems(3)] f by simp
  have x0: "ptr_of ?x = 0 \<longleftrightarrow> ?x = None" using f by (intro ptr_of_0) auto
  have step: "search_arenas (w64 n) (ha_addr h) s =
      (if ?x = None then search_arenas (w64 n) (hd_ptr hs 0) s else Some (ha_addr h, ptr_of ?x))"
    using Cons.prems(1) f(5) sb x0 by (subst search_arenas.simps) simp
  show ?case
  proof (cases ?x)
    case None
    then have none: "\<forall>c \<in> set (ha_cells h). \<not> fits n c" by (simp add: first_cell_None)
    have "aseg (arena_at s) (ha_addr h) hs 0" using Cons.prems(1) by simp
    from Cons.IH [OF this Cons.prems(2,3)]
    consider "no_fit n hs" "search_arenas (w64 n) (hd_ptr hs 0) s = Some (0, 0)"
      | xs k ys us m vs where "fit_at n hs (xs, k, ys) (us, m, vs)"
        "search_arenas (w64 n) (hd_ptr hs 0) s = Some (ha_addr k, w64 (ha_first k + span us))"
      by auto
    then show ?thesis
    proof cases
      case 1
      then show ?thesis using none None by (simp add: step no_fit_def)
    next
      case 2
      moreover from this have "search_arenas (w64 n) (ha_addr h) s = Some (ha_addr k, w64 (ha_first k + span us))"
        using None by (simp add: step)
      ultimately show ?thesis
        using fit_at_Cons [OF 2(1) none] unfolding aptr_simps by blast
    qed
  next
    case (Some b)
    from first_cell_Some [OF this] obtain us c vs where 1: "ha_cells h = us @ c # vs"
      "b = ha_first h + span us" "fits n c" "\<forall>d \<in> set us. \<not> fits n d"
      by (auto simp: first_cell_None)
    then have "fit_at n (h # hs) ([], h, hs) (us, fst c, vs)" by (cases c) (simp add: fit_at_def)
    moreover have "search_arenas (w64 n) (ha_addr h) s = Some (ha_addr h, w64 (ha_first h + span us))"
      using Some 1(2) by (simp add: step ptr_of_def)
    ultimately show ?thesis unfolding aptr_simps by blast
  qed
qed

section \<open>Creating an arena\<close>

lemma zero_pages_fields [frame_simps]:
  "phy_mem_map (zero_pages pa n s) = phy_mem_map s"
  "frames (zero_pages pa n s) p = (if pfn pa \<le> p \<and> p < pfn pa + n then (\<lambda>_. 0) else frames s p)"
  "pmm.more (zero_pages pa n s) = pmm.more s" "live_threads (zero_pages pa n s) = live_threads s"
  "pmm_ready (zero_pages pa n s) = pmm_ready s"
  unfolding zero_pages_def by (induction n) auto

lemma heap_more:
  assumes "pmm.more s' = pmm.more (s :: 'a heap_scheme)"
  shows "heap_arenas s' = heap_arenas s" "arena_at s' = arena_at s" "block_at s' = block_at s"
    "heap_initialized s' = heap_initialized s"
  using assms by (cases s; cases s'; simp)+

lemma pmm_inv_cong:
  "phy_mem_map s' = phy_mem_map s \<Longrightarrow> pmm_inv s' = pmm_inv s"
  by (simp add: pmm_inv_def pmm_shape_def page_info_def page_ok_def)

lemma page_facts_cong:
  assumes "phy_mem_map s' = phy_mem_map s"
  shows "allocated (page_info s' p) = allocated (page_info s p)"
    "reserved (page_info s' p) = reserved (page_info s p)"
    "owner_of (page_info s' p) = owner_of (page_info s p)"
    "refs_of (page_info s' p) = refs_of (page_info s p)"
  using assms by (simp_all add: page_info_def)

lemma arena_owned_cong:
  assumes "phy_mem_map s' = phy_mem_map s"
  shows "arena_owned s' h = arena_owned s h"
  by (simp add: arena_owned_def page_facts_cong [OF assms] assms)

text \<open>The number of pages of an arena that has room for \<open>n\<close> bytes.\<close>

definition pages_for :: "nat \<Rightarrow> nat" where
  "pages_for n = (n + 4199) div 4096"

definition arena_possible :: "nat \<Rightarrow> bool" where
  "arena_possible n \<longleftrightarrow> n + 4199 < 2 ^ 64 \<and> pages_for n < 2 ^ 32"

definition new_arena :: "nat \<Rightarrow> nat \<Rightarrow> harena" where
  "new_arena page n = \<lparr>ha_page = page, ha_pages = pages_for n,
     ha_cells = [(pages_for n * 4096 - 104, True)]\<rparr>"

lemma pages_for_bounds: "n + 104 \<le> pages_for n * 4096" "0 < pages_for n"
proof -
  have "(n + 4199) mod 4096 < 4096" by simp
  then show "n + 104 \<le> pages_for n * 4096"
    using div_mult_mod_eq [of "n + 4199" 4096] unfolding pages_for_def by linarith
  then show "0 < pages_for n" by (cases "pages_for n") auto
qed

definition build_arena :: "u64 \<Rightarrow> nat \<Rightarrow> 'a heap_scheme \<Rightarrow> 'a heap_scheme" where
  "build_arena pa n s =
     (let s1 = zero_pages pa (pages_for n) s;
          s2 = upd_arena (P2V pa) (\<lambda>x. x\<lparr>arn_magic := HEAP_ARENA_MAGIC, arn_paddr := pa,
                 arn_page_count := of_nat (pages_for n), arn_live_blocks := 0,
                 arn_first := P2V pa + w64 56\<rparr>) s1;
          s3 = upd_block (P2V pa + w64 56)
                 (\<lambda>_. header (P2V pa) 0 (pages_for n * 4096 - 104, True) 0) s2
      in link_arena (P2V pa) s3)"

lemma create_arena_eq:
  assumes "8 dvd n" and "n < 2 ^ 64 - 7"
  shows "create_arena (w64 n) s =
    (if arena_possible n then
       case alloc_pages_owned (pages_for n) PAGE_OWNER_HEAP s of
         (pa, s1) \<Rightarrow> if pa = 0 then (0, s1) else (P2V pa, build_arena pa n s1)
     else (0, s))"
proof -
  have n: "n < 2 ^ 64" "align_size (w64 n) = Some (w64 n)"
    using assms by (simp_all add: align_size_eq align8_id)
  have ov: "sizeof_HeapArena + sizeof_HeapBlock = w64 104" by (simp add: sizeof_w64 w64_add)
  have o1: "add_overflows (w64 104) (w64 n) \<longleftrightarrow> 2 ^ 64 \<le> n + 104"
    using n by (simp add: add_overflows_iff)
  show ?thesis
  proof (cases "n + 4199 < 2 ^ 64")
    case False
    then have "add_overflows (w64 (104 + n)) 4095" if "\<not> 2 ^ 64 \<le> n + 104"
      using that by (simp add: add_overflows_iff)
    with False show ?thesis
      by (simp add: create_arena_def n(2) ov o1 w64_add arena_possible_def Let_def)
  next
    case True
    then have o2: "\<not> add_overflows (w64 (104 + n)) (4096 - 1)" by (simp add: add_overflows_iff)
    have sum: "w64 (104 + n) + 4096 - 1 = w64 (n + 4199)"
      by (simp add: w64_def)
    have pg: "w64 (n + 4199) div 4096 = w64 (pages_for n)"
    proof -
      have "unat (w64 (n + 4199) div 4096) = pages_for n"
        using True by (simp add: unat_div_page pages_for_def)
      then show ?thesis by (metis w64_unat)
    qed
    have lt: "pages_for n < 2 ^ 64" using True unfolding pages_for_def by linarith
    have big: "0xFFFFFFFF < w64 (pages_for n) \<longleftrightarrow> \<not> pages_for n < 2 ^ 32"
      using lt by (simp add: word_less_nat_alt) linarith
    have nz: "w64 (pages_for n) \<noteq> 0" using lt pages_for_bounds(2) by (simp add: w64_eq_0)
    have uc: "(ucast (w64 (pages_for n)) :: u32) = of_nat (pages_for n)"
      using lt by (metis of_nat_unat unat_w64)
    have un: "unat (of_nat (pages_for n) :: u32) = pages_for n" if "pages_for n < 2 ^ 32"
      using that by (simp add: unat_of_nat take_bit_eq_mod)
    have sz: "w64 (pages_for n) * 4096 - w64 104 = w64 (pages_for n * 4096 - 104)"
      using pages_for_bounds(1) [of n] by (simp add: w64_def of_nat_diff)
    have o3: "\<not> add_overflows (w64 104) (w64 n)" using True by (simp add: o1)
    show ?thesis
    proof (cases "pages_for n < 2 ^ 32")
      case small: True
      have "create_arena (w64 n) s = (case alloc_pages_owned (pages_for n) PAGE_OWNER_HEAP s of
         (pa, s1) \<Rightarrow> if pa = 0 then (0, s1) else (P2V pa, build_arena pa n s1))"
        unfolding create_arena_def n(2) option.case ov Let_def
        using o2 o3 small nz big lt
        by (simp only: w64_add sum pg uc un sz build_arena_def sizeof_w64(2) header_all Let_def
            if_False if_True simp_thms unat_w64)
      then show ?thesis using True small by (simp add: arena_possible_def)
    next
      case large: False
      then show ?thesis
        unfolding create_arena_def n(2) option.case ov Let_def
        using o2 o3 big by (simp only: w64_add sum pg arena_possible_def if_False if_True simp_thms)
    qed
  qed
qed

text \<open>An allocation by another part of the kernel leaves the heap alone.\<close>

lemma arena_owned_alloc:
  assumes "arena_owned s h" and "free_run s start n" and "n_pages s' = n_pages s"
    and "\<And>p. page_info s' p = (if start \<le> p \<and> p < start + n
        then page_info s p \<lparr>allocated := True, owner_of := ow, refs_of := 0\<rparr> else page_info s p)"
  shows "arena_owned s' h"
  using assms by (auto simp: arena_owned_def free_run_def page_available_def)

lemma heap_rep_transfer:
  assumes "heap_rep s hs" and "pmm.more s' = pmm.more s"
    and "\<And>h. h \<in> set hs \<Longrightarrow> arena_owned s' h"
  shows "heap_rep s' hs"
  using assms heap_more [OF assms(2)] by (auto simp: heap_rep_def arena_rep_def)

lemma new_arena_wf:
  assumes "0 < page" and "page + pages_for n \<le> 2 ^ 35" and "arena_possible n"
  shows "arena_wf (new_arena page n)"
proof -
  have "8 dvd pages_for n * 4096 - 104"
    by (rule dvd_diff_nat) (auto intro: dvd_mult)
  moreover have "104 < pages_for n * 4096" using pages_for_bounds(2) [of n] by linarith
  ultimately show ?thesis
    using assms by (simp add: arena_wf_def new_arena_def arena_possible_def)
qed

lemma fresh_apart:
  assumes "arena_owned s k" and "arena_wf k" and "free_run s page (pages_for n)"
  shows "apart (new_arena page n) k"
proof (rule ccontr)
  assume na: "\<not> apart (new_arena page n) k"
  then have "page \<le> max page (ha_page k)" "max page (ha_page k) < page + pages_for n"
    "ha_page k \<le> max page (ha_page k)" "max page (ha_page k) < ha_page k + ha_pages k"
    using arena_bounds(5) [OF assms(2)] pages_for_bounds(2) [of n]
    by (auto simp: apart_def new_arena_def)
  then have "page_available s (max page (ha_page k))" "allocated (page_info s (max page (ha_page k)))"
    using assms(1,3) unfolding free_run_def arena_owned_def by blast+
  then show False by (simp add: page_available_def)
qed

lemma build_arena_rep:
  fixes s :: "'a heap_scheme"
  assumes rep: "heap_rep s hs" and owned: "arena_owned s (new_arena page n)"
    and wf: "arena_wf (new_arena page n)" and apart: "\<And>h. h \<in> set hs \<Longrightarrow> apart (new_arena page n) h"
  shows "heap_rep (build_arena (page_paddr page) n s) (new_arena page n # hs)"
    and "phy_mem_map (build_arena (page_paddr page) n s) = phy_mem_map s"
    and "heap_initialized (build_arena (page_paddr page) n s) = heap_initialized s"
    and "frames (build_arena (page_paddr page) n s) p =
      (if page \<le> p \<and> p < page + pages_for n then (\<lambda>_. 0) else frames s p)"
proof -
  let ?h = "new_arena page n" and ?pa = "page_paddr page"
  let ?z = "zero_pages ?pa (pages_for n) s"
  have page: "ha_page ?h = page" "ha_pages ?h = pages_for n" by (simp_all add: new_arena_def)
  have lt: "page < 2 ^ 35" using arena_bounds(6) [OF wf] page by simp
  then have addr: "P2V ?pa = ha_addr ?h" by (simp add: ha_addr_P2V page)
  have first: "ha_addr ?h + w64 56 = w64 (ha_first ?h)" by (simp add: ha_addr_def w64_add)
  define t where "t = upd_block (w64 (ha_first ?h))
      (\<lambda>_. header (ha_addr ?h) 0 (pages_for n * 4096 - 104, True) 0)
      (upd_arena (ha_addr ?h) (\<lambda>x. x\<lparr>arn_magic := HEAP_ARENA_MAGIC, arn_paddr := ?pa,
         arn_page_count := of_nat (pages_for n), arn_live_blocks := 0,
         arn_first := w64 (ha_first ?h)\<rparr>) ?z)"
  have b: "build_arena ?pa n s = link_arena (ha_addr ?h) t"
    unfolding build_arena_def t_def Let_def addr first by (rule refl)
  note zm = heap_more [OF zero_pages_fields(3) [of ?pa "pages_for n" s]]
  have sorted: "sorted_wrt apart (?h # hs)" using rep apart by (simp add: heap_rep_def)
  have wfs: "arena_wf k" if "k \<in> set (?h # hs)" for k
    using that wf rep by (auto simp: heap_rep_def arena_rep_def)
  have "ha_addr k \<noteq> ha_addr ?h" if "k \<in> set hs" for k
    using that sorted wfs ha_addr_apart [of ?h k] by fastforce
  then have linked: "alinked t hs"
    using rep by (simp add: alinked_def heap_rep_def t_def zm aseg_upd_other)
  have hd: "arena_at t (ha_addr ?h) = aheader (arn_prev (arena_at s (ha_addr ?h))) ?h (arn_next (arena_at s (ha_addr ?h)))"
    by (simp add: t_def zm aheader_def new_arena_def)
  have ln: "alinked (link_arena (ha_addr ?h) t) (?h # hs)" "arenas_only t (link_arena (ha_addr ?h) t)"
    using link_arena_alinked [OF linked hd sorted] wfs by blast+
  note fld = arenas_only_fields [OF ln(2)]
  have map: "phy_mem_map t = phy_mem_map s" by (simp add: t_def zero_pages_fields)
  have only: "heads (ha_first k) (ha_cells k) \<inter> heads (ha_first ?h) (ha_cells ?h) = {}" if "k \<in> set hs" for k
    using that wfs apart [OF that] by (intro heads_apart) (auto intro: apart_sym)
  have "w64 (ha_first ?h) \<in> heads (ha_first ?h) (ha_cells ?h)"
    by (auto simp: heads_def new_arena_def)
  then have out: "w64 (ha_first ?h) \<notin> heads (ha_first k) (ha_cells k)" if "k \<in> set hs" for k
    using only [OF that] by blast
  have "arena_rep t k" if "k \<in> set hs" for k
    using that rep out [OF that] arena_owned_cong [OF map, of k]
    by (auto simp: heap_rep_def arena_rep_def t_def zm seg_upd_other)
  moreover have "arena_rep t ?h"
    using wf owned arena_owned_cong [OF map, of ?h]
    by (simp add: arena_rep_def) (simp add: t_def new_arena_def)
  ultimately show "heap_rep (build_arena ?pa n s) (?h # hs)"
    using ln(1) sorted by (auto simp: heap_rep_alinked b fld(3))
  show "phy_mem_map (build_arena ?pa n s) = phy_mem_map s" by (simp add: b fld map)
  show "heap_initialized (build_arena ?pa n s) = heap_initialized s" by (simp add: b fld) (simp add: t_def zm)
  show "frames (build_arena ?pa n s) p =
      (if page \<le> p \<and> p < page + pages_for n then (\<lambda>_. 0) else frames s p)"
    using lt by (simp add: b fld) (simp add: t_def zero_pages_fields)
qed

definition env_kept :: "'a pmm_scheme \<Rightarrow> 'a pmm_scheme \<Rightarrow> bool" where
  "env_kept s s' \<longleftrightarrow> pmm_ready s' = pmm_ready s \<and> live_threads s' = live_threads s"

lemma build_arena_env: "env_kept s (build_arena pa n s)"
  by (simp add: env_kept_def build_arena_def link_arena_def Let_def zero_pages_fields)

lemma create_arena_cases:
  fixes s :: "'a heap_scheme"
  assumes rep: "heap_rep s hs" and inv: "pmm_inv s" and n: "8 dvd n" "n < 2 ^ 64 - 7"
    and create: "create_arena (w64 n) s = (a, s')"
  obtains (failed) "a = 0" "heap_rep s' hs" "phy_mem_map s' = phy_mem_map s" "frames s' = frames s"
      "heap_initialized s' = heap_initialized s" "env_kept s s'"
      "\<not> arena_possible n \<or> fst (alloc_pages_owned (pages_for n) PAGE_OWNER_HEAP s) = 0"
  | (created) page where "a \<noteq> 0" "heap_rep s' (new_arena page n # hs)" "pmm_inv s'"
      "free_run s page (pages_for n)" "arena_possible n"
      "\<And>p. frames s' p = (if page \<le> p \<and> p < page + pages_for n then (\<lambda>_. 0) else frames s p)"
      "\<And>p. \<not> (page \<le> p \<and> p < page + pages_for n) \<Longrightarrow> page_info s' p = page_info s p"
      "heap_initialized s' = heap_initialized s" "env_kept s s'"
proof (cases "arena_possible n")
  case False
  then show thesis using create rep by (intro failed) (simp_all add: create_arena_eq [OF n] env_kept_def)
next
  case possible: True
  obtain pa s1 where alloc: "alloc_pages_owned (pages_for n) PAGE_OWNER_HEAP s = (pa, s1)"
    by fastforce
  note shape = pmm_inv_parts(1) [OF inv] and res0 = pmm_inv_parts(3) [OF inv]
  show thesis
  proof (cases "pa = 0")
    case True
    then have "a = 0" "s' = s1" using create possible alloc by (simp_all add: create_arena_eq [OF n])
    moreover have "s1 = s \<or> s1 = s\<lparr>pmm_fail_allocations := pmm_fail_allocations s - 1\<rparr>"
      using alloc True alloc_pages_owned_failure shape res0 by blast
    ultimately show thesis
      using rep alloc True
      by (intro failed) (auto simp: heap_rep_def arena_rep_def arena_owned_def page_info_def env_kept_def)
  next
    case False
    show thesis
    proof (rule alloc_pages_owned_success [OF shape res0 alloc False])
      fix page
      assume page: "pa = page_paddr page" "0 < page" "free_run s page (pages_for n)"
        and cells: "\<And>p. page_info s1 p = (if page \<le> p \<and> p < page + pages_for n
          then page_info s p \<lparr>allocated := True, owner_of := PAGE_OWNER_HEAP, refs_of := 0\<rparr> else page_info s p)"
        and env: "same_env s s1"
      let ?h = "new_arena page n"
      have s': "s' = build_arena pa n s1" "a = P2V pa"
        using create possible alloc False by (simp_all add: create_arena_eq [OF n])
      have np: "n_pages s1 = n_pages s" "pmm.more s1 = pmm.more s" using env by (simp_all add: same_env_def)
      have bound: "page + pages_for n \<le> n_pages s" "n_pages s \<le> 2 ^ 35"
        using page(3) shape by (simp_all add: free_run_def pmm_shape_def Let_def)
      then have wf: "arena_wf ?h" using page(2) possible by (intro new_arena_wf) auto
      have owned: "arena_owned s1 ?h"
        using page(3) bound np
        by (auto simp: arena_owned_def new_arena_def cells free_run_def page_available_def)
      have rep1: "heap_rep s1 hs"
        using rep arena_owned_alloc [OF _ page(3) np(1) cells]
        by (intro heap_rep_transfer [OF rep np(2)]) (auto simp: heap_rep_def arena_rep_def)
      have "apart ?h k" if "k \<in> set hs" for k
        using that rep page(3) by (intro fresh_apart) (auto simp: heap_rep_def arena_rep_def)
      note b = build_arena_rep [OF rep1 owned wf this]
      have s1_inv: "pmm_inv s1" using pmm_inv_alloc [OF inv alloc] .
      show thesis
      proof (rule created)
        show "a \<noteq> 0" using s'(2) page(1) wf ha_addr_nz [OF wf] ha_addr_P2V [of ?h] arena_bounds(6) [OF wf]
          by (simp add: new_arena_def)
        show "heap_rep s' (?h # hs)" using b(1) s' page by simp
        show "pmm_inv s'" using s1_inv pmm_inv_cong [of s' s1] b(2) s' page by simp
        show "free_run s page (pages_for n)" "arena_possible n" by (fact page(3), fact possible)
        have fr: "frames s1 = frames s"
          using alloc False
          by (auto simp: alloc_pages_owned_def alloc_pages_owned_locked_def fold_frames_mark
              split: if_splits option.splits)
        show "frames s' p = (if page \<le> p \<and> p < page + pages_for n then (\<lambda>_. 0) else frames s p)" for p
          using b(4) fr s' page by simp
        show "page_info s' p = page_info s p" if "\<not> (page \<le> p \<and> p < page + pages_for n)" for p
          using that b(2) b(4) [of p] cells [of p] s' page by (auto simp: page_info_def)
        show "heap_initialized s' = heap_initialized s" using b(3) s' page heap_more(4) [OF np(2)] by simp
        show "env_kept s s'" using env build_arena_env [of s1 pa n] s' by (simp add: env_kept_def same_env_def)
      qed
    qed
  qed
qed

end
