(* ===== verification/Kalloc_Alloc.thy ===== *)
theory Kalloc_Alloc
  imports Kalloc_Ops
begin

text \<open>
  \<^verbatim>\<open>kmalloc\<close> and \<^verbatim>\<open>kfree\<close> on the representation: taking a block splits its cell, giving it back
  merges it with its free neighbours and returns the pages of an arena without live cells.
\<close>

section \<open>Rewriting a suffix of the cells of an arena\<close>

lemma heads_prefix_disjoint:
  assumes "a + span (us @ vs) \<le> 2 ^ 64"
  shows "heads a us \<inter> heads (a + span us) vs = {}"
proof -
  have "w64 x \<noteq> w64 y" if "x < a + span us" "a + span us \<le> y" "y < a + span us + span vs" for x y
  proof -
    have "x < 2 ^ 64" "y < 2 ^ 64" "x \<noteq> y" using that assms by simp_all
    then show ?thesis by (simp add: w64_eq)
  qed
  then show ?thesis unfolding heads_def by auto
qed

lemma heads_suffix_subset: "heads (a + span us) vs \<subseteq> heads a (us @ vs)"
  unfolding heads_def by (intro image_mono) auto

lemma seg_replace_suffix:
  assumes "seg (block_at s) ar prev a (us @ vs) 0" and "a + span (us @ vs) \<le> 2 ^ 64"
    and "blocks_only (heads (a + span us) vs) s t"
    and "seg (block_at t) ar (last_ptr prev a us) (a + span us) ws 0" and "vs \<noteq> []" and "ws \<noteq> []"
  shows "seg (block_at t) ar prev a (us @ ws) 0"
proof -
  have "first_ptr b vs 0 = first_ptr b ws 0" for b using assms(5,6) by (simp add: first_ptr_def)
  moreover have "seg (block_at t) ar prev a us nxt = seg (block_at s) ar prev a us nxt" for nxt
    using heads_prefix_disjoint [OF assms(2)] assms(3) by (intro blocks_only_seg)
  ultimately show ?thesis using assms(1,4) by (simp add: seg_append)
qed

lemma w64_Suc: "w64 n + 1 = w64 (Suc n)" "w64 (Suc n) - 1 = w64 n"
  by (simp_all add: w64_def)

section \<open>Taking a block\<close>

lemma n_live_split: "n_live (split_cells n m vs) = Suc (n_live vs)"
  by (simp add: split_cells_def)

lemma split_cells_nonempty [simp]: "split_cells n m vs \<noteq> []"
  by (simp add: split_cells_def)

lemma split_wf:
  assumes "arena_wf h" and "ha_cells h = us @ (m, True) # vs" and "n \<le> m" and "8 dvd n" and "0 < n"
  shows "arena_wf (h\<lparr>ha_cells := us @ split_cells n m vs\<rparr>)"
proof -
  have "8 dvd m" using assms(1,2) by (auto simp: arena_wf_def)
  then have "8 dvd m - n - 48" using assms(4) by (auto intro!: dvd_diff_nat)
  then show ?thesis
    using assms by (auto simp: arena_wf_def split_cells_def coalesced_append coalesced_Cons)
qed

lemma take_block_rep:
  assumes rep: "heap_rep s hs" and fit: "fit_at n hs (xs, h, ys) (us, m, vs)" and n: "8 dvd n" "0 < n"
    and take: "take_block (w64 n) (ha_addr h) (w64 (ha_first h + span us)) s = (p, t)"
  shows "p = w64 (ha_first h + span us + 48)"
    and "heap_rep t (xs @ h\<lparr>ha_cells := us @ split_cells n m vs\<rparr> # ys)"
    and "phy_mem_map t = phy_mem_map s" "frames t = frames s" "heap_initialized t = heap_initialized s"
    and "pmm_ready t = pmm_ready s" "live_threads t = live_threads s"
proof -
  let ?a = "ha_first h + span us" and ?cs = "us @ split_cells n m vs"
  define b where "b = upd_block (w64 ?a) (\<lambda>x. x\<lparr>blk_is_free := False\<rparr>) (split_block (w64 ?a) (w64 n) s)"
  have hs: "hs = xs @ h # ys" and cells: "ha_cells h = us @ (m, True) # vs" and m: "n \<le> m"
    using fit by (simp_all add: fit_at_def)
  note mid = heap_rep_mid [OF rep [unfolded hs]]
  have wf: "arena_wf h" and seg: "seg (block_at s) (ha_addr h) 0 (ha_first h) (us @ (m, True) # vs) 0"
    using mid(1) cells by (simp_all add: arena_rep_def)
  have bound: "ha_first h + span (us @ (m, True) # vs) \<le> 2 ^ 64" "0 < ?a"
    using arena_bounds [OF wf] cells by simp_all
  have seg2: "seg (block_at s) (ha_addr h) (last_ptr 0 (ha_first h) us) ?a ((m, True) # vs) 0"
    using seg by (simp only: seg_append)
  note sp = split_block_seg [OF seg2 bound(2) _ m]
  have only: "blocks_only (heads ?a ((m, True) # vs)) s b"
    unfolding b_def using sp(2) bound by (intro blocks_only_upd) (simp_all add: heads_def)
  then have only': "blocks_only (heads (ha_first h) (ha_cells h)) s b"
    using heads_suffix_subset [of "ha_first h" us "(m, True) # vs"] by (auto simp: cells intro: blocks_only_mono)
  have seg': "seg (block_at b) (ha_addr h) 0 (ha_first h) ?cs 0"
    using sp(1) bound by (intro seg_replace_suffix [OF seg bound(1) only]) (simp_all add: b_def)
  have at: "arena_at b = arena_at s" using only by (auto simp: blocks_only_def)
  have "t = upd_arena (ha_addr h) (\<lambda>x. x\<lparr>arn_live_blocks := arn_live_blocks x + 1\<rparr>) b"
    using take by (simp add: take_block_def b_def Let_def)
  then have eq: "t = upd_arena (ha_addr h) (\<lambda>x. x\<lparr>arn_live_blocks := w64 (n_live ?cs)\<rparr>) b"
    by (simp add: upd_arena_def at mid(7) cells w64_Suc n_live_split)
  show "heap_rep t (xs @ h\<lparr>ha_cells := ?cs\<rparr> # ys)"
    using heap_rep_update [OF rep [unfolded hs] only' seg' split_wf [OF wf cells m n] eq] .
  show "p = w64 (?a + 48)" using take by (auto simp: take_block_def Let_def sizeof_w64 w64_add)
  obtain bl where "b = s\<lparr>block_at := bl\<rparr>" using only by (auto simp: blocks_only_def)
  then show "phy_mem_map t = phy_mem_map s" "frames t = frames s" "heap_initialized t = heap_initialized s"
    "pmm_ready t = pmm_ready s" "live_threads t = live_threads s" by (simp_all add: eq)
qed

section \<open>The live allocations\<close>

text \<open>Payload addresses of the live cells, with their sizes.\<close>

fun live_cells :: "nat \<Rightarrow> cell list \<Rightarrow> nat \<rightharpoonup> nat" where
  "live_cells a [] = Map.empty"
| "live_cells a (c # cs) =
     (if snd c then live_cells (a + 48 + fst c) cs
      else (live_cells (a + 48 + fst c) cs)(a + 48 \<mapsto> fst c))"

definition live :: "harena list \<Rightarrow> nat \<rightharpoonup> nat" where
  "live hs = foldr (\<lambda>h f. live_cells (ha_first h) (ha_cells h) ++ f) hs Map.empty"

lemma live_simps [simp]:
  "live [] = Map.empty" "live (h # hs) = live_cells (ha_first h) (ha_cells h) ++ live hs"
  by (simp_all add: live_def)

lemma live_append: "live (xs @ ys) = live xs ++ live ys"
  by (induction xs) simp_all

lemma live_cells_range:
  "live_cells a cs k = Some m \<Longrightarrow> \<exists>c \<in> set cs. fst c = m \<and> a + 48 \<le> k \<and> k + m \<le> a + span cs"
proof (induction cs arbitrary: a)
  case (Cons c cs)
  show ?case
  proof (cases "snd c \<or> k \<noteq> a + 48")
    case True
    then have "live_cells (a + 48 + fst c) cs k = Some m" using Cons.prems by (auto split: if_splits)
    from Cons.IH [OF this] show ?thesis by (simp add: algebra_simps)
  next
    case False
    then show ?thesis using Cons.prems by (auto split: if_splits)
  qed
qed simp

lemma live_cells_append:
  assumes "\<forall>c \<in> set us. 0 < fst c"
  shows "live_cells a (us @ vs) = live_cells a us ++ live_cells (a + span us) vs"
  using assms
proof (induction us arbitrary: a)
  case (Cons c us)
  have "live_cells (a + 48 + fst c + span us) vs (a + 48) = None"
    using live_cells_range [of "a + 48 + fst c + span us" vs "a + 48"]
    by (cases "live_cells (a + 48 + fst c + span us) vs (a + 48)") auto
  moreover have "live_cells a ((c # us) @ vs) =
      (if snd c then live_cells (a + 48 + fst c) us ++ live_cells (a + 48 + fst c + span us) vs
       else (live_cells (a + 48 + fst c) us ++ live_cells (a + 48 + fst c + span us) vs)(a + 48 \<mapsto> fst c))"
    using Cons.IH [of "a + 48 + fst c"] Cons.prems by simp
  ultimately show ?case
    by (simp only: span_simps live_cells.simps if_split_eq1 add.assoc [symmetric])
      (auto simp: map_add_upd_left dom_def)
qed simp

lemma live_cells_split:
  assumes "\<forall>c \<in> set us. 0 < fst c" and "n \<le> m" and "0 < n"
  shows "live_cells a (us @ split_cells n m vs) =
    (live_cells a (us @ (m, True) # vs))(a + span us + 48 \<mapsto> (if 56 \<le> m - n then n else m))"
proof -
  have eq: "live_cells (a + span us + 48 + n + 48 + (m - n - 48)) vs = live_cells (a + span us + 48 + m) vs"
    if "56 \<le> m - n" using that by (intro arg_cong2 [where f = live_cells]) auto
  have "live_cells (a + span us) (split_cells n m vs) =
      (live_cells (a + span us) ((m, True) # vs))(a + span us + 48 \<mapsto> (if 56 \<le> m - n then n else m))"
    by (cases "56 \<le> m - n")
      (simp_all only: split_cells_def live_cells.simps fst_conv snd_conv if_True if_False eq)
  then show ?thesis by (simp add: live_cells_append [OF assms(1)])
qed

lemma live_arena:
  assumes "arena_wf h" and "live_cells (ha_first h) (ha_cells h) k = Some m"
  shows "ha_base h \<le> k" "k + m \<le> ha_base h + ha_pages h * 4096" "0 < m"
  using assms live_cells_range [OF assms(2)] arena_bounds(1) [OF assms(1)] by (auto simp: arena_wf_def)

lemma live_SomeD: "live hs k = Some m \<Longrightarrow> \<exists>h \<in> set hs. live_cells (ha_first h) (ha_cells h) k = Some m"
  by (induction hs) auto

lemma live_outside:
  assumes "heap_rep s (xs @ h # ys)" and "ha_base h \<le> k" and "k < ha_base h + ha_pages h * 4096"
    and "set zs \<subseteq> set (xs @ ys)"
  shows "live zs k = None"
proof (rule ccontr)
  assume "live zs k \<noteq> None"
  then obtain m g where g: "g \<in> set (xs @ ys)" and l: "live_cells (ha_first g) (ha_cells g) k = Some m"
    using live_SomeD assms(4) by blast
  note mid = heap_rep_mid [OF assms(1)]
  have "arena_wf g" using mid(2) [OF g] by (simp add: arena_rep_def)
  from live_arena [OF this l] show False
    using assms(2,3) mid(3) [OF g] by (auto simp: apart_def ha_base_def)
qed

text \<open>Changing one arena changes the live allocations inside its pages only.\<close>

lemma live_update:
  assumes "heap_rep s (xs @ h # ys)" and "ha_base h \<le> k" and "k < ha_base h + ha_pages h * 4096"
    and "live_cells (ha_first h) cs = (live_cells (ha_first h) (ha_cells h))(k := v)"
  shows "live (xs @ h\<lparr>ha_cells := cs\<rparr> # ys) = (live (xs @ h # ys))(k := v)"
    and "live (xs @ h # ys) k = live_cells (ha_first h) (ha_cells h) k"
proof -
  have out: "live xs k = None" "live ys k = None" using live_outside [OF assms(1-3)] by simp_all
  then show "live (xs @ h\<lparr>ha_cells := cs\<rparr> # ys) = (live (xs @ h # ys))(k := v)"
    by (intro ext) (auto simp: live_append assms(4) map_add_def split: option.splits)
  show "live (xs @ h # ys) k = live_cells (ha_first h) (ha_cells h) k"
    using out by (auto simp: live_append map_add_def split: option.splits)
qed

lemma live_pairwise_cells:
  assumes "\<forall>c \<in> set cs. 0 < fst c" and "live_cells a cs k = Some m" and "live_cells a cs k' = Some m'" and "k < k'"
  shows "k + m \<le> k'"
  using assms
proof (induction cs arbitrary: a)
  case (Cons c cs)
  have ge: "a + 48 + fst c + 48 \<le> x" if "live_cells (a + 48 + fst c) cs x = Some y" for x y
    using live_cells_range [OF that] by auto
  show ?case
  proof (cases "snd c \<or> k \<noteq> a + 48")
    case True
    then have "live_cells (a + 48 + fst c) cs k = Some m" using Cons.prems(2) by (auto split: if_splits)
    moreover have "live_cells (a + 48 + fst c) cs k' = Some m'"
      using Cons.prems(3,4) ge [OF calculation] by (auto split: if_splits)
    ultimately show ?thesis using Cons by simp
  next
    case False
    then have "m = fst c" "live_cells (a + 48 + fst c) cs k' = Some m'"
      using Cons.prems(2,3,4) by (auto split: if_splits)
    then show ?thesis using ge [of k' m'] False by simp
  qed
qed simp

text \<open>Live allocations do not overlap, and lie in pages that belong to the heap.\<close>

lemma live_disjoint:
  assumes "heap_rep s hs" and "live hs k = Some m" and "live hs k' = Some m'" and "k < k'"
  shows "k + m \<le> k'"
proof -
  obtain g h where g: "g \<in> set hs" "live_cells (ha_first g) (ha_cells g) k = Some m"
    and h: "h \<in> set hs" "live_cells (ha_first h) (ha_cells h) k' = Some m'"
    using live_SomeD assms(2,3) by meson
  have wf: "arena_wf g" "arena_wf h" using assms(1) g h by (auto simp: heap_rep_def arena_rep_def)
  show ?thesis
  proof (cases "g = h")
    case True
    have "\<forall>c \<in> set (ha_cells h). 0 < fst c" using wf by (simp add: arena_wf_def)
    then show ?thesis using live_pairwise_cells [OF _ g(2) [unfolded True] h(2) assms(4)] by simp
  next
    case False
    then have "apart g h" using assms(1) g(1) h(1)
      unfolding heap_rep_def by (metis in_set_conv_nth linorder_neqE_nat sorted_wrt_nth_less apart_sym)
    then show ?thesis
      using live_arena [OF wf(1) g(2)] live_arena [OF wf(2) h(2)] assms(4) by (auto simp: apart_def ha_base_def)
  qed
qed

lemma live_owned:
  assumes "heap_rep s hs" and "live hs k = Some m" and "k \<le> b" and "b < k + m"
  shows "0xFFFF800000000000 \<le> b \<and> b < 2 ^ 64 \<and>
    allocated (page_info s ((b - 0xFFFF800000000000) div 4096)) \<and>
    owner_of (page_info s ((b - 0xFFFF800000000000) div 4096)) = PAGE_OWNER_HEAP"
proof -
  obtain h where h: "h \<in> set hs" "live_cells (ha_first h) (ha_cells h) k = Some m"
    using live_SomeD assms(2) by meson
  have wf: "arena_wf h" "arena_owned s h" using assms(1) h by (auto simp: heap_rep_def arena_rep_def)
  note r = live_arena [OF wf(1) h(2)]
  have b: "ha_base h \<le> b" "b < ha_base h + ha_pages h * 4096" using r assms(3,4) by linarith+
  then have "ha_page h \<le> (b - 0xFFFF800000000000) div 4096"
    "(b - 0xFFFF800000000000) div 4096 < ha_page h + ha_pages h"
    unfolding ha_base_def by (auto simp: less_eq_div_iff_mult_less_eq div_less_iff_less_mult algebra_simps)
  moreover have "0xFFFF800000000000 \<le> b" "b < 2 ^ 64"
    using b arena_bounds(2) [OF wf(1)] unfolding ha_base_def by linarith+
  ultimately show ?thesis using wf(2) by (simp add: arena_owned_def)
qed

end
