(* ===== verification/Kalloc_Free.thy ===== *)
theory Kalloc_Free
  imports Kalloc_Alloc
begin

text \<open>
  \<^verbatim>\<open>kfree\<close> on the representation: finding the block, merging it with its free neighbours, and
  giving back the pages of an arena without live cells.
\<close>

section \<open>Finding a block\<close>

definition cell_at :: "u64 \<Rightarrow> harena list \<Rightarrow> harena list \<times> harena \<times> harena list \<Rightarrow>
    cell list \<times> cell \<times> cell list \<Rightarrow> bool" where
  "cell_at ptr hs = (\<lambda>(xs, h, ys) (us, c, vs). hs = xs @ h # ys \<and> ha_cells h = us @ c # vs \<and>
     w64 (ha_first h + span us + 48) = ptr)"

definition no_cell :: "u64 \<Rightarrow> harena list \<Rightarrow> bool" where
  "no_cell ptr hs \<longleftrightarrow>
     (\<forall>h \<in> set hs. first_cell (\<lambda>b c. w64 (b + 48) = ptr) (ha_first h) (ha_cells h) = None)"

lemma cell_at_Cons: "cell_at ptr hs (xs, h, ys) c \<Longrightarrow> cell_at ptr (k # hs) (k # xs, h, ys) c"
  by (auto simp: cell_at_def split: prod.splits)

lemma find_in_arenas_seg:
  assumes "aseg (arena_at s) prev hs 0" and "\<And>h. h \<in> set hs \<Longrightarrow> arena_rep s h"
  shows "no_cell ptr hs \<and> find_in_arenas ptr (hd_ptr hs 0) s = Some 0 \<or>
    (\<exists>xs h ys us c vs. cell_at ptr hs (xs, h, ys) (us, c, vs) \<and>
      find_in_arenas ptr (hd_ptr hs 0) s = Some (w64 (ha_first h + span us)))"
  using assms
proof (induction hs arbitrary: prev)
  case Nil
  then show ?case by (simp add: find_in_arenas.simps no_cell_def)
next
  case (Cons h hs)
  note f = arena_first [OF Cons.prems(2) [of h], simplified]
  let ?x = "first_cell (\<lambda>b c. w64 (b + 48) = ptr) (ha_first h) (ha_cells h)"
  have sb: "find_in_blocks ptr (w64 (ha_first h)) s = Some (ptr_of ?x)"
    using find_in_blocks_seg [OF f(1)] f by simp
  have x0: "ptr_of ?x = 0 \<longleftrightarrow> ?x = None" using f by (intro ptr_of_0) auto
  have step: "find_in_arenas ptr (ha_addr h) s =
      (if ?x = None then find_in_arenas ptr (hd_ptr hs 0) s else Some (ptr_of ?x))"
    using Cons.prems(1) f(5) sb x0 by (subst find_in_arenas.simps) simp
  show ?case
  proof (cases ?x)
    case None
    have "aseg (arena_at s) (ha_addr h) hs 0" using Cons.prems(1) by simp
    from Cons.IH [OF this Cons.prems(2)]
    consider "no_cell ptr hs" "find_in_arenas ptr (hd_ptr hs 0) s = Some 0"
      | xs k ys us c vs where "cell_at ptr hs (xs, k, ys) (us, c, vs)"
        "find_in_arenas ptr (hd_ptr hs 0) s = Some (w64 (ha_first k + span us))"
      by auto
    then show ?thesis
    proof cases
      case 1
      then show ?thesis using None by (simp add: step no_cell_def)
    next
      case 2
      moreover from this have "find_in_arenas ptr (ha_addr h) s = Some (w64 (ha_first k + span us))"
        using None by (simp add: step)
      ultimately show ?thesis using cell_at_Cons [OF 2(1)] unfolding aptr_simps by blast
    qed
  next
    case (Some b)
    from first_cell_Some [OF this] obtain us c vs where 1: "ha_cells h = us @ c # vs"
      "b = ha_first h + span us" "w64 (b + 48) = ptr" by auto
    then have "cell_at ptr (h # hs) ([], h, hs) (us, c, vs)" by (simp add: cell_at_def)
    moreover have "find_in_arenas ptr (ha_addr h) s = Some (w64 (ha_first h + span us))"
      using Some 1(2) by (simp add: step ptr_of_def)
    ultimately show ?thesis unfolding aptr_simps by blast
  qed
qed

lemma first_cell_live:
  "live_cells a cs k = Some m \<Longrightarrow> first_cell (\<lambda>b c. w64 (b + 48) = w64 k) a cs \<noteq> None"
  by (induction cs arbitrary: a) (auto split: if_splits)

lemma no_cell_live: "no_cell ptr hs \<Longrightarrow> live hs (unat ptr) = None"
proof (rule ccontr)
  assume "no_cell ptr hs" "live hs (unat ptr) \<noteq> None"
  then obtain m h where "h \<in> set hs" "live_cells (ha_first h) (ha_cells h) (unat ptr) = Some m"
    using live_SomeD by blast
  then show False using first_cell_live \<open>no_cell ptr hs\<close> by (fastforce simp: no_cell_def)
qed

lemma live_cells_at:
  assumes "\<forall>c \<in> set us. 0 < fst c"
  shows "live_cells a (us @ c # vs) (a + span us + 48) = (if snd c then None else Some (fst c))"
proof -
  have "live_cells (b + 48 + m) vs (b + 48) = None" for b m
    using live_cells_range [of "b + 48 + m" vs "b + 48"]
    by (cases "live_cells (b + 48 + m) vs (b + 48)") auto
  moreover have "live_cells a us (a + span us + 48) = None"
    using live_cells_range [of a us "a + span us + 48"]
    by (cases "live_cells a us (a + span us + 48)") auto
  ultimately show ?thesis by (simp add: live_cells_append [OF assms] map_add_def)
qed

section \<open>Merging with the neighbours\<close>

definition free_cells :: "cell list \<Rightarrow> nat \<Rightarrow> cell list \<Rightarrow> cell list" where
  "free_cells us m vs =
     (if us \<noteq> [] \<and> snd (last us)
      then butlast us @ merge_cells (last us) (merge_cells (m, True) vs)
      else us @ merge_cells (m, True) vs)"

lemma merge_cells_Cons: "\<exists>k. merge_cells c vs = (k, snd c) # (if vs \<noteq> [] \<and> snd (hd vs) then tl vs else vs)"
  by (cases c; cases vs) auto

lemma merge_cells_nonempty [simp]: "merge_cells c vs \<noteq> []"
  by (cases vs) auto

lemma n_live_merge: "n_live (merge_cells c vs) = (if snd c then n_live vs else Suc (n_live vs))"
  by (cases vs) auto

lemma n_live_free: "n_live (free_cells us m vs) = n_live us + n_live vs"
  by (cases us rule: rev_cases) (simp_all add: free_cells_def n_live_merge)

lemma live_cells_merge:
  "live_cells a (merge_cells c vs) = live_cells a (c # vs)" if "snd c \<or> vs = [] \<or> \<not> snd (hd vs)"
  using that by (cases vs) (auto simp: algebra_simps)

lemma live_cells_free:
  assumes "\<forall>c \<in> set us. 0 < fst c"
  shows "live_cells a (free_cells us m vs) =
    (live_cells a (us @ (m, False) # vs))(a + span us + 48 := None)"
proof -
  have here: "live_cells a us (a + span us + 48) = None"
    using live_cells_range [of a us "a + span us + 48"]
    by (cases "live_cells a us (a + span us + 48)") auto
  have after: "live_cells (a + span us + 48 + m) vs (a + span us + 48) = None"
    using live_cells_range [of "a + span us + 48 + m" vs "a + span us + 48"]
    by (cases "live_cells (a + span us + 48 + m) vs (a + span us + 48)") auto
  have "(live_cells a (us @ (m, False) # vs))(a + span us + 48 := None) =
      live_cells a us ++ live_cells (a + span us + 48 + m) vs"
    using here after by (auto simp: live_cells_append [OF assms] map_add_def split: option.splits)
  moreover have "live_cells a (free_cells us m vs) = live_cells a us ++ live_cells (a + span us + 48 + m) vs"
  proof (cases "us \<noteq> [] \<and> snd (last us)")
    case False
    then have "free_cells us m vs = us @ merge_cells (m, True) vs" by (auto simp: free_cells_def)
    then show ?thesis by (simp add: live_cells_append [OF assms] live_cells_merge)
  next
    case True
    then obtain ws w where ws: "us = ws @ [w]" "snd w" by (cases us rule: rev_cases) auto
    then have "\<forall>c \<in> set ws. 0 < fst c" using assms by simp
    then show ?thesis
      using ws by (simp add: free_cells_def live_cells_append live_cells_merge add.assoc)
  qed
  ultimately show ?thesis by simp
qed

lemma span_free_cells: "span (free_cells us m vs) = span us + 48 + m + span vs"
  by (cases us rule: rev_cases) (auto simp: free_cells_def)

lemma merge_cells_ok:
  assumes "\<forall>x \<in> set (c # vs). 0 < fst x \<and> (8 :: nat) dvd fst x"
  shows "\<forall>x \<in> set (merge_cells c vs). 0 < fst x \<and> 8 dvd fst x"
  using assms by (cases vs) (auto intro!: dvd_add)

lemma coalesced_merge: "coalesced vs \<Longrightarrow> coalesced (merge_cells (m, True) vs)"
  by (cases vs) (auto simp: coalesced_Cons)

lemma free_wf:
  assumes wf: "arena_wf h" and cells: "ha_cells h = us @ (m, False) # vs"
  shows "arena_wf (h\<lparr>ha_cells := free_cells us m vs\<rparr>)"
proof -
  have ok: "\<forall>x \<in> set (merge_cells (m, True) vs). 0 < fst x \<and> 8 dvd fst x"
    using wf cells by (intro merge_cells_ok) (auto simp: arena_wf_def)
  have co: "coalesced us" "coalesced vs" "coalesced (merge_cells (m, True) vs)"
    using wf cells by (simp_all add: arena_wf_def coalesced_append coalesced_Cons coalesced_merge)
  have "\<forall>x \<in> set (free_cells us m vs). 0 < fst x \<and> 8 dvd fst x"
  proof (cases "us \<noteq> [] \<and> snd (last us)")
    case True
    then obtain ws w where ws: "us = ws @ [w]" by (cases us rule: rev_cases) auto
    have "\<forall>x \<in> set (merge_cells w (merge_cells (m, True) vs)). 0 < fst x \<and> 8 dvd fst x"
      using ok wf cells ws by (intro merge_cells_ok) (auto simp: arena_wf_def)
    then show ?thesis using True ws wf cells by (auto simp: free_cells_def arena_wf_def)
  qed (use ok wf cells in \<open>auto simp: free_cells_def arena_wf_def\<close>)
  moreover have "coalesced (free_cells us m vs)"
  proof (cases "us \<noteq> [] \<and> snd (last us)")
    case True
    then obtain ws w where ws: "us = ws @ [w]" "snd w" by (cases us rule: rev_cases) auto
    obtain k where k: "merge_cells (m, True) vs = (k, True) # (if vs \<noteq> [] \<and> snd (hd vs) then tl vs else vs)"
      using merge_cells_Cons [of "(m, True)" vs] by auto
    then have "merge_cells w (merge_cells (m, True) vs) = (fst w + 48 + k, True) # tl (merge_cells (m, True) vs)"
      using ws by simp
    moreover have "coalesced ((fst w + 48 + k, True) # tl (merge_cells (m, True) vs))"
      using co(3) k by (cases "tl (merge_cells (m, True) vs)") (auto simp: coalesced_Cons)
    ultimately show ?thesis
      using True ws co(1) by (auto simp: free_cells_def coalesced_append)
  next
    case False
    then show ?thesis using co by (auto simp: free_cells_def coalesced_append)
  qed
  moreover have "free_cells us m vs \<noteq> []" by (auto simp: free_cells_def)
  moreover have "span (free_cells us m vs) = span (ha_cells h)" by (simp add: cells span_free_cells)
  ultimately show ?thesis using wf by (simp add: arena_wf_def)
qed

section \<open>Giving a block back\<close>

lemma upd_block_arena: "upd_block b g (upd_arena a f s) = upd_arena a f (upd_block b g s)"
  by (simp add: upd_arena_def upd_block_def)

lemma merge_upd_arena: "merge_with_next p (upd_arena a f s) = upd_arena a f (merge_with_next p s)"
  by (simp only: merge_with_next_def Let_def upd_block_arena upd_arena_fields split: if_split) simp

text \<open>The part of \<^verbatim>\<open>kfree\<close> that works on the blocks.\<close>

definition free_blocks :: "u64 \<Rightarrow> 'a heap_scheme \<Rightarrow> 'a heap_scheme" where
  "free_blocks b s =
     (let s1 = merge_with_next b (upd_block b (\<lambda>x. x\<lparr>blk_is_free := True\<rparr>) s);
          prev = blk_prev (block_at s1 b)
      in if prev \<noteq> 0 \<and> blk_is_free (block_at s1 prev) then merge_with_next prev s1 else s1)"

lemma free_blocks_seg:
  assumes seg: "seg (block_at s) ar 0 a (us @ (m, False) # vs) 0" and a: "0 < a"
    and bound: "a + span (us @ (m, False) # vs) \<le> 2 ^ 64"
  shows "seg (block_at (free_blocks (w64 (a + span us)) s)) ar 0 a (free_cells us m vs) 0"
    and "blocks_only (heads a (us @ (m, False) # vs)) s (free_blocks (w64 (a + span us)) s)"
proof -
  let ?b = "a + span us" and ?c = "(m, False)"
  let ?f = "upd_block (w64 ?b) (\<lambda>x. x\<lparr>blk_is_free := True\<rparr>) s"
  let ?ms = "merge_cells (m, True) vs"
  define s1 where "s1 = merge_with_next (w64 ?b) ?f"
  have len: "?b + (48 + m + span vs) \<le> 2 ^ 64" using bound by simp
  have seg2: "seg (block_at s) ar (last_ptr 0 a us) ?b (?c # vs) 0" using seg by (simp only: seg_append)
  have "w64 ?b \<notin> heads (?b + 48 + m) vs" using len a by (simp add: heads_iff)
  then have "seg (block_at ?f) ar (last_ptr 0 a us) ?b ((m, True) # vs) 0"
    using seg2 by (simp add: seg_upd_other)
  note mg = merge_with_next_seg [OF this] 
  have hd: "heads ?b ((m, True) # vs) = heads ?b (?c # vs)" by (simp add: heads_def)
  have "blocks_only (heads ?b (?c # vs)) s ?f" by (intro blocks_only_upd) (simp_all add: heads_def)
  moreover have "blocks_only (heads ?b (?c # vs)) ?f s1"
    unfolding s1_def using mg(2) a len by (simp add: hd)
  ultimately have only1: "blocks_only (heads ?b (?c # vs)) s s1" by (rule blocks_only_trans)
  have suf: "seg (block_at s1) ar (last_ptr 0 a us) ?b ?ms 0"
    unfolding s1_def using mg(1) a len by simp
  have seg1: "seg (block_at s1) ar 0 a (us @ ?ms) 0"
    by (intro seg_replace_suffix [OF seg bound only1 suf]) auto
  have prev: "blk_prev (block_at s1 (w64 ?b)) = last_ptr 0 a us"
    using suf merge_cells_Cons [of "(m, True)" vs] by auto
  note only1' = blocks_only_mono [OF only1 heads_suffix_subset]
  have "seg (block_at (free_blocks (w64 ?b) s)) ar 0 a (free_cells us m vs) 0 \<and>
    blocks_only (heads a (us @ ?c # vs)) s (free_blocks (w64 ?b) s)"
  proof (cases us rule: rev_cases)
    case Nil
    then have "free_blocks (w64 ?b) s = s1" using prev by (simp add: free_blocks_def s1_def Let_def)
    then show ?thesis using seg1 only1' Nil by (simp add: free_cells_def)
  next
    case (snoc ws w)
    let ?d = "a + span ws"
    have pw: "last_ptr 0 a us = w64 ?d" by (simp add: snoc)
    have bw: "?d + (48 + fst w + span ?ms) \<le> 2 ^ 64" "?d < 2 ^ 64" using bound snoc by simp_all
    have segw: "seg (block_at s1) ar (last_ptr 0 a ws) ?d (w # ?ms) 0"
      using seg1 by (simp add: snoc seg_append)
    have fb: "free_blocks (w64 ?b) s = (if snd w then merge_with_next (w64 ?d) s1 else s1)"
      using prev pw segw a bw by (simp add: free_blocks_def s1_def [symmetric] Let_def w64_eq_0)
    show ?thesis
    proof (cases "snd w")
      case False
      then show ?thesis using seg1 only1' fb snoc by (simp add: free_cells_def)
    next
      case True
      note mw = merge_with_next_seg [OF segw _ bw(1)]
      have "seg (block_at (merge_with_next (w64 ?d) s1)) ar 0 a (ws @ merge_cells w ?ms) 0"
      proof (rule seg_replace_suffix)
        show "seg (block_at s1) ar 0 a (ws @ w # ?ms) 0" using seg1 by (simp add: snoc)
      qed (use mw a bw in auto)
      moreover have "heads ?d (w # ?ms) \<subseteq> heads a (us @ ?c # vs)"
        unfolding heads_def snoc by (intro image_mono) auto
      with mw(2) a have "blocks_only (heads a (us @ ?c # vs)) s1 (merge_with_next (w64 ?d) s1)"
        by (simp add: blocks_only_mono)
      then have "blocks_only (heads a (us @ ?c # vs)) s (merge_with_next (w64 ?d) s1)"
        by (rule blocks_only_trans [OF only1'])
      moreover have "free_cells us m vs = ws @ merge_cells w ?ms" using True by (simp add: free_cells_def snoc)
      ultimately show ?thesis using True fb by (simp only: if_True simp_thms)
    qed
  qed
  then show "seg (block_at (free_blocks (w64 ?b) s)) ar 0 a (free_cells us m vs) 0"
    "blocks_only (heads a (us @ ?c # vs)) s (free_blocks (w64 ?b) s)" by blast+
qed

section \<open>Giving back an empty arena\<close>

lemma n_live_bound: "arena_wf h \<Longrightarrow> n_live (ha_cells h) < 2 ^ 64"
proof -
  assume wf: "arena_wf h"
  have "n_live cs \<le> span cs" for cs by (induction cs) auto
  also have "span (ha_cells h) < 2 ^ 64" using arena_bounds [OF wf] by linarith
  finally show ?thesis .
qed

definition thread_in :: "'a pmm_scheme \<Rightarrow> harena \<Rightarrow> bool" where
  "thread_in s h \<longleftrightarrow> (\<exists>p. ha_page h \<le> p \<and> p < ha_page h + ha_pages h \<and>
     live_thread_owns_page (page_paddr p) s)"

lemma free_arena_refused:
  assumes "arena_wf h" and "arena_owned s h" and "pmm_ready s" and "\<not> thread_in s h"
    and "pmm_shape s"
  shows "fst (free_pages_owned (page_paddr (ha_page h)) (ha_pages h) PAGE_OWNER_HEAP s) = 0"
proof -
  let ?pa = "page_paddr (ha_page h)"
  have lt: "ha_page h < 2 ^ 52" using arena_bounds(6) [OF assms(1)] by simp
  have "0 < ha_pages h" "0 < ha_page h" using arena_bounds(5) [OF assms(1)] assms(1) by (auto simp: arena_wf_def)
  then have "ha_page h + ha_pages h - 1 < n_pages s" using assms(2) by (simp add: arena_owned_def)
  with \<open>0 < ha_pages h\<close> have "ha_page h < n_pages s" "\<not> n_pages s - ha_page h < ha_pages h" by linarith+
  moreover have "\<not> free_refused PAGE_OWNER_HEAP s (ha_page h + i)" if "i < ha_pages h" for i
    using that assms(2,4) by (auto simp: free_refused_iff arena_owned_def thread_in_def)
  then have "\<not> list_ex (\<lambda>i. free_refused PAGE_OWNER_HEAP s (ha_page h + i)) [0..<ha_pages h]"
    by (auto simp: list_ex_iff)
  ultimately show ?thesis
    using lt \<open>0 < ha_pages h\<close> \<open>0 < ha_page h\<close> assms(3)
    by (simp add: free_pages_owned_def Let_def page_paddr_0_iff)
qed

lemma reclaim_cases:
  fixes s :: "'a heap_scheme"
  assumes rep: "heap_rep s (xs @ h # ys)" and inv: "pmm_inv s"
    and t: "t = reclaim_empty_arena (ha_addr h) s"
  obtains (kept) "n_live (ha_cells h) \<noteq> 0" "t = s"
  | (freed) "n_live (ha_cells h) = 0" "heap_rep t (xs @ ys)" "pmm_inv t"
      "\<And>p. page_info t p = (if ha_page h \<le> p \<and> p < ha_page h + ha_pages h
         then page_info s p \<lparr>allocated := False, owner_of := PAGE_OWNER_FREE, refs_of := 0,
                             contents := (\<lambda>_. 0)\<rparr>
         else page_info s p)"
      "heap_initialized t = heap_initialized s" "live_threads t = live_threads s" "pmm_ready t = pmm_ready s"
  | (refused) "n_live (ha_cells h) = 0" "heap_rep t (h # xs @ ys)" "arenas_only s t"
      "\<not> pmm_ready s \<or> thread_in s h"
proof -
  note mid = heap_rep_mid [OF rep]
  have wf: "arena_wf h" "arena_owned s h" using mid(1) by (simp_all add: arena_rep_def)
  have live: "arn_live_blocks (arena_at s (ha_addr h)) \<noteq> 0 \<longleftrightarrow> n_live (ha_cells h) \<noteq> 0"
    using n_live_bound [OF wf(1)] by (simp add: mid(7) w64_eq_0)
  show thesis
  proof (cases "n_live (ha_cells h) = 0")
    case False
    then show thesis using t live by (intro kept) (auto simp: reclaim_empty_arena_def)
  next
    case True
    define u where "u = unlink_arena (ha_addr h) s"
    note ul = unlink_arena_alinked [OF rep, folded u_def]
    note fld = arenas_only_fields [OF ul(2)]
    let ?pa = "page_paddr (ha_page h)"
    have pc: "unat (of_nat (ha_pages h) :: u32) = ha_pages h"
      using wf(1) by (simp add: arena_wf_def unat_of_nat take_bit_eq_mod)
    obtain r v where free: "free_pages_owned ?pa (ha_pages h) PAGE_OWNER_HEAP u = (r, v)" by fastforce
    have t': "t = (if r \<noteq> 0 then link_arena (ha_addr h) v else v)"
      using t True live ha_addr_nz [OF wf(1)] free
      by (simp add: reclaim_empty_arena_def u_def [symmetric] ul(3) mid(7) pc)
    have uinv: "pmm_inv u" using inv pmm_inv_cong [of u s] fld(4) by simp
    have sorted: "sorted_wrt apart (h # xs @ ys)" using mid(3,5) by auto
    have lt: "ha_page h < 2 ^ 52" using arena_bounds(6) [OF wf(1)] by simp
    show thesis
    proof (cases "r = 0")
      case False
      then have "v = u" using free free_pages_owned_failure [of ?pa "ha_pages h" PAGE_OWNER_HEAP u] by auto
      then have tl: "t = link_arena (ha_addr h) u" using t' False by simp
      have "arena_at u (ha_addr h) = aheader (last_aptr 0 xs) h (hd_ptr ys 0)" using ul(3) mid(7) by simp
      moreover have "arena_wf k" if "k \<in> set (h # xs @ ys)" for k
        using that mid(1,2) by (auto simp: arena_rep_def)
      ultimately have ln: "alinked t (h # xs @ ys)" "arenas_only u t"
        unfolding tl using link_arena_alinked [OF ul(1) _ sorted] by blast+
      have only: "arenas_only s t"
        using ul(2) ln(2) by (rule arenas_only_trans)
      moreover have "heap_rep t (h # xs @ ys)"
        using ln(1) sorted mid(1,2) arenas_only_fields(3) [OF only] by (auto simp: heap_rep_alinked)
      moreover have "arena_owned u h" using wf(2) arena_owned_cong [OF fld(4)] by simp
      then have "\<not> pmm_ready u \<or> thread_in u h"
        using free False free_arena_refused [OF wf(1) _ _ _ pmm_inv_parts(1) [OF uinv]] by (metis fst_conv)
      then have "\<not> pmm_ready s \<or> thread_in s h"
        by (simp add: thread_in_def live_thread_owns_page_def fld)
      ultimately show thesis using True by (intro refused)
    next
      case r0: True
      note ok = free_pages_owned_success [OF pmm_inv_parts(1) [OF uinv] free [unfolded r0]]
      have tv: "t = v" using t' r0 by simp
      have more: "pmm.more t = pmm.more u" using ok(8) tv by (simp add: same_env_def)
      have cells: "page_info t p = (if ha_page h \<le> p \<and> p < ha_page h + ha_pages h
         then page_info s p \<lparr>allocated := False, owner_of := PAGE_OWNER_FREE, refs_of := 0,
                             contents := (\<lambda>_. 0)\<rparr>
         else page_info s p)" for p
        using ok(7) [of p] lt tv fld(2) by simp
      have "arena_rep t k" if k: "k \<in> set (xs @ ys)" for k
      proof -
        have "n_pages t = n_pages s" using ok(8) tv fld(4) by (simp add: same_env_def)
        then have "arena_owned t k"
          using mid(2) [OF k] mid(3) [OF k] by (auto simp: arena_rep_def arena_owned_def cells apart_def)
        then show ?thesis
          using mid(2) [OF k] heap_more(3) [OF more] fld(1) by (simp add: arena_rep_def)
      qed
      moreover have "alinked t (xs @ ys)" using ul(1) heap_more [OF more] by (simp add: alinked_def)
      ultimately have "heap_rep t (xs @ ys)" using mid(5) by (simp add: heap_rep_alinked)
      moreover have "pmm_inv t" using pmm_inv_free [OF uinv free] tv by simp
      moreover have "heap_initialized t = heap_initialized s" using heap_more(4) [OF more] fld by simp
      moreover have "live_threads t = live_threads s" "pmm_ready t = pmm_ready s"
        using ok(8) tv fld by (simp_all add: same_env_def)
      ultimately show thesis using True cells by (intro freed)
    qed
  qed
qed

end
