(* ===== verification/Kalloc_Calls.thy ===== *)
theory Kalloc_Calls
  imports Kalloc_Free
begin

text \<open>
  One call of \<^verbatim>\<open>kmalloc\<close> or \<^verbatim>\<open>kfree\<close> on a represented heap, the interface of an allocator that the
  rest of the kernel relies on, and its interpretation by the heap.
\<close>

section \<open>One call\<close>

lemma split_size: "n \<le> m \<Longrightarrow> n \<le> (if 56 \<le> m - n then n else (m :: nat))"
  by simp

lemma span_aligned: "\<forall>c \<in> set cs. 8 dvd fst c \<Longrightarrow> 8 dvd span cs"
  by (induction cs) (auto intro!: dvd_add)

lemma take_block_live:
  assumes rep: "heap_rep s hs" and fit: "fit_at n hs (xs, h, ys) (us, m, vs)" and n: "8 dvd n" "0 < n"
    and take: "take_block (w64 n) (ha_addr h) (w64 (ha_first h + span us)) s = (p, t)"
  shows "\<exists>hs' k. heap_rep t hs' \<and> p \<noteq> 0 \<and> 8 dvd unat p \<and> n \<le> k \<and> live hs (unat p) = None \<and>
    live hs' = (live hs)(unat p \<mapsto> k) \<and>
    (\<exists>h \<in> set hs. \<not> no_fit n [h] \<and> (\<forall>g \<in> set hs'. 0 < n_live (ha_cells g) \<or> g \<in> set hs \<and> g \<noteq> h))"
proof -
  note tb = take_block_rep [OF rep fit n take]
  let ?k = "ha_first h + span us + 48"
  have hs: "hs = xs @ h # ys" and cells: "ha_cells h = us @ (m, True) # vs" and m: "n \<le> m"
    using fit by (simp_all add: fit_at_def)
  have wf: "arena_wf h" using heap_rep_mid(1) [OF rep [unfolded hs]] by (simp add: arena_rep_def)
  have pos: "\<forall>c \<in> set us. 0 < fst c" using wf cells by (simp add: arena_wf_def)
  note b = arena_bounds [OF wf]
  have lt: "ha_base h \<le> ?k" "?k < ha_base h + ha_pages h * 4096" "?k < 2 ^ 64"
    using b(1,2) m n(2) cells by simp_all
  have p: "unat p = ?k" "p \<noteq> 0" using tb(1) lt(3) by (auto simp: w64_eq_0)
  have "8 dvd ha_base h" by (auto simp: ha_base_def)
  moreover have "8 dvd span us" using wf cells by (intro span_aligned) (simp add: arena_wf_def)
  ultimately have al: "8 dvd ?k" by auto
  note up = live_update [OF rep [unfolded hs] lt(1,2), of _ "Some (if 56 \<le> m - n then n else m)",
      OF live_cells_split [OF pos m n(2), of "ha_first h" vs, folded cells]]
  have none: "live hs ?k = None"
    using up(2) live_cells_at [OF pos, of "ha_first h" "(m, True)" vs] by (simp add: hs cells)
  define hs' where "hs' = xs @ h\<lparr>ha_cells := us @ split_cells n m vs\<rparr> # ys"
  have "\<not> no_fit n [h]" "h \<in> set hs" using m by (simp_all add: no_fit_def cells hs)
  moreover have "0 < n_live (ha_cells g) \<or> g \<in> set hs \<and> g \<noteq> h"
    if "g \<in> set hs'" for g
  proof (cases "g \<in> set (xs @ ys)")
    case True
    then show ?thesis using heap_rep_mid(4) [OF rep [unfolded hs] True] by (auto simp: hs)
  qed (use that in \<open>auto simp: n_live_split hs'_def\<close>)
  ultimately have "\<exists>h \<in> set hs. \<not> no_fit n [h] \<and> (\<forall>g \<in> set hs'. 0 < n_live (ha_cells g) \<or> g \<in> set hs \<and> g \<noteq> h)"
    by blast
  then show ?thesis
    using tb(2) [folded hs'_def] up(1) [folded hs'_def hs] p(2) al none split_size [OF m]
    unfolding p(1) by blast
qed

text \<open>What \<^verbatim>\<open>kmalloc\<close> may do to the pages: nothing happens to a page in use.\<close>

definition in_use_kept :: "'a pmm_scheme \<Rightarrow> 'a pmm_scheme \<Rightarrow> bool" where
  "in_use_kept s s' \<longleftrightarrow> (\<forall>p. allocated (page_info s p) \<longrightarrow> page_info s' p = page_info s p)"

lemma kmalloc_loop_cases:
  fixes s :: "'a heap_scheme"
  assumes rep: "heap_rep s hs" and inv: "pmm_inv s" and n: "8 dvd n" "0 < n" "n < 2 ^ 64 - 7"
  obtains (exhausted) s' where "kmalloc_loop (w64 n) s = Some (0, s')" "heap_rep s' hs"
      "phy_mem_map s' = phy_mem_map s" "frames s' = frames s" "heap_initialized s' = heap_initialized s" "env_kept s s'"
      "no_fit n hs" "\<not> arena_possible n \<or> fst (alloc_pages_owned (pages_for n) PAGE_OWNER_HEAP s) = 0"
  | (reused) p s' hs' k where "kmalloc_loop (w64 n) s = Some (p, s')" "p \<noteq> 0" "heap_rep s' hs'"
      "phy_mem_map s' = phy_mem_map s" "frames s' = frames s" "heap_initialized s' = heap_initialized s" "env_kept s s'"
      "\<not> no_fit n hs" "8 dvd unat p" "n \<le> k" "live hs (unat p) = None" "live hs' = (live hs)(unat p \<mapsto> k)"
      "\<And>g. g \<in> set hs' \<Longrightarrow> 0 < n_live (ha_cells g) \<or> g \<in> set hs"
  | (extended) p s' hs' k where "kmalloc_loop (w64 n) s = Some (p, s')" "p \<noteq> 0" "heap_rep s' hs'"
      "pmm_inv s'" "in_use_kept s s'" "heap_initialized s' = heap_initialized s" "env_kept s s'"
      "no_fit n hs" "8 dvd unat p" "n \<le> k" "live hs (unat p) = None" "live hs' = (live hs)(unat p \<mapsto> k)"
      "\<And>g. g \<in> set hs' \<Longrightarrow> 0 < n_live (ha_cells g) \<or> g \<in> set hs"
proof -
  have lt: "n < 2 ^ 64" using n(3) by simp
  have found: "\<exists>p t hs' k. kmalloc_loop (w64 n) u = Some (p, t) \<and> p \<noteq> 0 \<and> heap_rep t hs' \<and>
      phy_mem_map t = phy_mem_map u \<and> frames t = frames u \<and> heap_initialized t = heap_initialized u \<and> env_kept u t \<and>
      8 dvd unat p \<and> n \<le> k \<and> live gs (unat p) = None \<and> live hs' = (live gs)(unat p \<mapsto> k) \<and>
      (\<exists>h \<in> set gs. \<not> no_fit n [h] \<and> (\<forall>g \<in> set hs'. 0 < n_live (ha_cells g) \<or> g \<in> set gs \<and> g \<noteq> h))"
    if r: "heap_rep u gs" and some: "\<not> no_fit n gs" for u :: "'a heap_scheme" and gs
  proof -
    obtain xs h ys us m vs where fit: "fit_at n gs (xs, h, ys) (us, m, vs)"
      and srch: "search_arenas (w64 n) (heap_arenas u) u = Some (ha_addr h, w64 (ha_first h + span us))"
      using search_arenas_seg [OF _ _ lt, of u 0 gs] r some by (auto simp: heap_rep_def)
    obtain p t where take: "take_block (w64 n) (ha_addr h) (w64 (ha_first h + span us)) u = (p, t)"
      by fastforce
    have wf: "arena_wf h" using r fit by (auto simp: heap_rep_def fit_at_def arena_rep_def)
    have "w64 (ha_first h + span us) \<noteq> 0"
      using arena_bounds [OF wf] fit by (simp add: w64_eq_0 fit_at_def)
    then have "kmalloc_loop (w64 n) u = Some (p, t)"
      using srch take by (subst kmalloc_loop.simps) simp
    then show ?thesis
      using take_block_live [OF r fit n(1,2) take] take_block_rep(3-7) [OF r fit n(1,2) take]
      unfolding env_kept_def by blast
  qed
  show thesis
  proof (cases "no_fit n hs")
    case False
    from found [OF rep False] show thesis using False by (elim exE conjE) (rule reused, blast+)
  next
    case True
    have "\<not> fit_at n hs (xs, h, ys) (us, m, vs)" for xs h ys us m vs
      using True by (auto simp: fit_at_def no_fit_def)
    then have srch: "search_arenas (w64 n) (heap_arenas s) s = Some (0, 0)"
      using search_arenas_seg [OF _ _ lt, of s 0 hs] rep by (auto simp: heap_rep_def)
    obtain a s1 where create: "create_arena (w64 n) s = (a, s1)" by fastforce
    have loop: "kmalloc_loop (w64 n) s = (if a = 0 then Some (0, s1) else kmalloc_loop (w64 n) s1)"
      using srch create by (subst kmalloc_loop.simps) simp
    from rep inv n(1,3) create show thesis
    proof (cases rule: create_arena_cases)
      case failed
      then show thesis using loop True by (intro exhausted [of s1]) auto
    next
      case (created page)
      have "\<not> no_fit n (new_arena page n # hs)"
        using pages_for_bounds(1) [of n] by (auto simp: no_fit_def new_arena_def)
      from found [OF created(2) this] obtain p t hs' k where
        f: "kmalloc_loop (w64 n) s1 = Some (p, t)" "p \<noteq> 0" "heap_rep t hs'"
        "phy_mem_map t = phy_mem_map s1" "frames t = frames s1" "heap_initialized t = heap_initialized s1"
        "env_kept s1 t" "8 dvd unat p" "n \<le> k" "live (new_arena page n # hs) (unat p) = None"
        "live hs' = (live (new_arena page n # hs))(unat p \<mapsto> k)"
        "\<exists>h \<in> set (new_arena page n # hs). \<not> no_fit n [h] \<and> (\<forall>g \<in> set hs'. 0 < n_live (ha_cells g) \<or> g \<in> set (new_arena page n # hs) \<and> g \<noteq> h)"
        by blast
      have new: "live (new_arena page n # hs) = live hs" by (simp add: new_arena_def)
      note lv = f(10,11) [unfolded new]
      have "page_info t q = page_info s1 q" for q using f(4,5) by (simp add: page_info_def)
      then have "in_use_kept s t"
        using created(4,7) by (auto simp: in_use_kept_def free_run_def page_available_def)
      moreover have "pmm_inv t" using created(3) pmm_inv_cong [OF f(4)] by simp
      moreover have "0 < n_live (ha_cells g) \<or> g \<in> set hs" if "g \<in> set hs'" for g
      proof -
        obtain h where h: "h \<in> set (new_arena page n # hs)" "\<not> no_fit n [h]"
          and w: "\<forall>g \<in> set hs'. 0 < n_live (ha_cells g) \<or> g \<in> set (new_arena page n # hs) \<and> g \<noteq> h"
          using f(12) by blast
        have "h \<notin> set hs" using h True by (auto simp: no_fit_def)
        with h(1) w that show ?thesis by auto
      qed
      moreover have "env_kept s t" using f(7) created(9) by (simp add: env_kept_def)
      ultimately show thesis
        using f(1-3,6,8,9) lv created(1,8) loop True by (intro extended [of p t hs' k]) simp_all
    qed
  qed
qed

lemma kmalloc_result:
  assumes "heap_rep s hs" and "pmm_inv s" and "heap_initialized s" and "sz \<noteq> 0"
  shows "\<exists>p s' hs'. kmalloc sz s = Some (p, s') \<and> heap_rep s' hs' \<and> pmm_inv s' \<and> heap_initialized s' \<and>
    in_use_kept s s' \<and> env_kept s s' \<and> (\<forall>g \<in> set hs'. 0 < n_live (ha_cells g) \<or> g \<in> set hs) \<and>
    (if p = 0
     then hs' = hs \<and> phy_mem_map s' = phy_mem_map s \<and> (2 ^ 64 \<le> unat sz + 7 \<or>
       no_fit (align8 (unat sz)) hs \<and> (\<not> arena_possible (align8 (unat sz)) \<or>
         fst (alloc_pages_owned (pages_for (align8 (unat sz))) PAGE_OWNER_HEAP s) = 0))
     else 8 dvd unat p \<and> live hs (unat p) = None \<and>
       (\<exists>k \<ge> unat sz. live hs' = (live hs)(unat p \<mapsto> k)) \<and>
       (phy_mem_map s' \<noteq> phy_mem_map s \<longrightarrow> no_fit (align8 (unat sz)) hs))"
proof (cases "unat sz + 7 < 2 ^ 64")
  case False
  then have "kmalloc sz s = Some (0, s)" using assms by (simp add: kmalloc_def align_size_eq)
  then show ?thesis using assms False by (auto simp: in_use_kept_def env_kept_def)
next
  case True
  let ?n = "align8 (unat sz)"
  have "0 < unat sz" using assms(4) by (simp add: unat_gt_0)
  then have n: "8 dvd ?n" "0 < ?n" "unat sz \<le> ?n" using align8_bounds [of "unat sz"] by auto
  have "?n < 2 ^ 64 - 7"
  proof -
    have "(unat sz + 7) div 8 \<le> (2 ^ 64 - 1) div 8" using True by (intro div_le_mono) simp
    then have "?n \<le> (2 ^ 64 - 1) div 8 * 8" unfolding align8_def by (rule mult_le_mono1)
    also have "(2 ^ 64 - 1) div 8 * 8 < (2 ^ 64 - 7 :: nat)" by simp
    finally show ?thesis .
  qed
  have k: "kmalloc sz s = kmalloc_loop (w64 ?n) s"
    using assms(3,4) True by (simp add: kmalloc_def align_size_eq)
  from assms(1,2) n(1,2) \<open>?n < 2 ^ 64 - 7\<close> show ?thesis
  proof (cases rule: kmalloc_loop_cases)
    case (exhausted s')
    then show ?thesis
      using k assms(2,3) pmm_inv_cong [OF exhausted(3)] by (auto simp: in_use_kept_def page_info_def)
  next
    case (reused p s' hs' l)
    moreover have "\<exists>k \<ge> unat sz. live hs' = (live hs)(unat p \<mapsto> k)"
      using reused(10,12) n(3) by (intro exI [of _ l]) simp
    ultimately show ?thesis
      using k assms(2,3) pmm_inv_cong [OF reused(4)]
      by (intro exI [of _ p] exI [of _ s'] exI [of _ hs']) (auto simp: in_use_kept_def page_info_def)
  next
    case (extended p s' hs' l)
    moreover have "\<exists>k \<ge> unat sz. live hs' = (live hs)(unat p \<mapsto> k)"
      using extended(10,12) n(3) by (intro exI [of _ l]) simp
    ultimately show ?thesis
      using k assms(3) by (intro exI [of _ p] exI [of _ s'] exI [of _ hs']) auto
  qed
qed

lemma cell_live:
  assumes rep: "heap_rep s hs" and c: "cell_at ptr hs (xs, h, ys) (us, c, vs)"
  shows "unat ptr = ha_first h + span us + 48" and "ha_base h \<le> unat ptr"
    and "unat ptr < ha_base h + ha_pages h * 4096" and "\<forall>c \<in> set us. 0 < fst c"
    and "live hs (unat ptr) = (if snd c then None else Some (fst c))"
proof -
  have hs: "hs = xs @ h # ys" and cells: "ha_cells h = us @ c # vs"
    and ptr: "ptr = w64 (ha_first h + span us + 48)" using c by (auto simp: cell_at_def)
  have wf: "arena_wf h" using heap_rep_mid(1) [OF rep [unfolded hs]] by (simp add: arena_rep_def)
  then have pos: "0 < fst c" and us: "\<forall>c \<in> set us. 0 < fst c" using cells by (auto simp: arena_wf_def)
  have lt: "ha_first h + span us + 48 < ha_base h + ha_pages h * 4096"
    using arena_bounds(1) [OF wf] pos cells by simp
  then show u: "unat ptr = ha_first h + span us + 48" using ptr arena_bounds(2) [OF wf] by simp
  show "ha_base h \<le> unat ptr" "unat ptr < ha_base h + ha_pages h * 4096" "\<forall>c \<in> set us. 0 < fst c"
    using u lt us by simp_all
  have "live hs (unat ptr) = live_cells (ha_first h) (ha_cells h) (unat ptr)"
    using live_update(2) [OF rep [unfolded hs], of "unat ptr" "ha_cells h"
        "live_cells (ha_first h) (ha_cells h) (unat ptr)"] u lt by (simp add: hs fun_upd_idem)
  then show "live hs (unat ptr) = (if snd c then None else Some (fst c))"
    using live_cells_at [OF us, of "ha_first h" c vs] by (simp add: u cells)
qed

lemma n_live_0: "n_live cs = 0 \<Longrightarrow> live_cells a cs = Map.empty"
  by (induction cs arbitrary: a) (auto split: if_splits)

text \<open>The state of \<^verbatim>\<open>kfree\<close> before it looks at the arena as a whole.\<close>

lemma free_block_rep:
  assumes rep: "heap_rep s hs" and c: "cell_at ptr hs (xs, h, ys) (us, (m, False), vs)"
    and t: "t = upd_arena (ha_addr h) (\<lambda>x. x\<lparr>arn_live_blocks := arn_live_blocks x - 1\<rparr>)
      (free_blocks (w64 (ha_first h + span us)) s)"
  shows "heap_rep t (xs @ h\<lparr>ha_cells := free_cells us m vs\<rparr> # ys)"
    and "live (xs @ h\<lparr>ha_cells := free_cells us m vs\<rparr> # ys) = (live hs)(unat ptr := None)"
    and "phy_mem_map t = phy_mem_map s" "frames t = frames s" "heap_initialized t = heap_initialized s"
    and "pmm_ready t = pmm_ready s" "live_threads t = live_threads s"
proof -
  have hs: "hs = xs @ h # ys" and cells: "ha_cells h = us @ (m, False) # vs"
    using c by (auto simp: cell_at_def)
  note mid = heap_rep_mid [OF rep [unfolded hs]] and lv = cell_live [OF rep c]
  have wf: "arena_wf h" and seg: "seg (block_at s) (ha_addr h) 0 (ha_first h) (us @ (m, False) # vs) 0"
    using mid(1) cells by (simp_all add: arena_rep_def)
  have b: "ha_first h + span (us @ (m, False) # vs) \<le> 2 ^ 64" using arena_bounds [OF wf] cells by simp
  note fb = free_blocks_seg [OF seg _ b]
  have fb': "blocks_only (heads (ha_first h) (ha_cells h)) s (free_blocks (w64 (ha_first h + span us)) s)"
    using fb(2) cells by simp
  then obtain bl where bl: "free_blocks (w64 (ha_first h + span us)) s = s\<lparr>block_at := bl\<rparr>"
    by (auto simp: blocks_only_def)
  have "t = upd_arena (ha_addr h) (\<lambda>x. x\<lparr>arn_live_blocks := w64 (n_live (free_cells us m vs))\<rparr>)
      (free_blocks (w64 (ha_first h + span us)) s)"
    by (simp add: t bl upd_arena_def mid(7) cells w64_Suc n_live_free)
  from heap_rep_update [OF rep [unfolded hs] fb' _ free_wf [OF wf cells] this]
  show "heap_rep t (xs @ h\<lparr>ha_cells := free_cells us m vs\<rparr> # ys)" using fb(1) by simp
  show "live (xs @ h\<lparr>ha_cells := free_cells us m vs\<rparr> # ys) = (live hs)(unat ptr := None)"
    using live_update(1) [OF rep [unfolded hs] lv(2,3), of "free_cells us m vs" None]
      live_cells_free [OF lv(4), of "ha_first h" m vs] by (simp add: lv(1) cells hs)
  show "phy_mem_map t = phy_mem_map s" "frames t = frames s" "heap_initialized t = heap_initialized s"
    "pmm_ready t = pmm_ready s" "live_threads t = live_threads s" by (simp_all add: t bl)
qed

lemma kfree_found:
  assumes rep: "heap_rep s hs" and c: "cell_at ptr hs (xs, h, ys) (us, (m, False), vs)"
    and find: "find_block ptr s = Some (w64 (ha_first h + span us))" and "ptr \<noteq> 0"
  shows "kfree ptr s = Some (0, reclaim_empty_arena (ha_addr h)
    (upd_arena (ha_addr h) (\<lambda>x. x\<lparr>arn_live_blocks := arn_live_blocks x - 1\<rparr>)
      (free_blocks (w64 (ha_first h + span us)) s)))"
proof -
  let ?b = "w64 (ha_first h + span us)"
  have hs: "hs = xs @ h # ys" and cells: "ha_cells h = us @ (m, False) # vs"
    using c by (auto simp: cell_at_def)
  note mid = heap_rep_mid [OF rep [unfolded hs]]
  have wf: "arena_wf h" and seg: "seg (block_at s) (ha_addr h) 0 (ha_first h) (us @ (m, False) # vs) 0"
    using mid(1) cells by (simp_all add: arena_rep_def)
  have bl: "block_at s ?b = header (ha_addr h) (last_ptr 0 (ha_first h) us) (m, False)
      (first_ptr (ha_first h + span us + 48 + m) vs 0)"
    using seg by (simp add: seg_append)
  have "?b \<noteq> 0" using arena_bounds [OF wf] cells by (simp add: w64_eq_0)
  moreover have "arn_live_blocks (arena_at s (ha_addr h)) \<noteq> 0"
    using n_live_bound [OF wf] by (simp add: mid(7) w64_eq_0 cells)
  ultimately show ?thesis
    using find assms(4)
    by (simp add: kfree_def bl free_blocks_def merge_upd_arena upd_block_arena Let_def)
qed

lemma kfree_result:
  assumes rep: "heap_rep s hs" and inv: "pmm_inv s" and init: "heap_initialized s"
  shows "\<exists>c s' hs'. kfree ptr s = Some (c, s') \<and> heap_rep s' hs' \<and> pmm_inv s' \<and> heap_initialized s' \<and> env_kept s s' \<and>
    (if ptr = 0 then c = 0 \<and> s' = s
     else if live hs (unat ptr) = None then c = -1 \<and> s' = s
     else c = 0 \<and> live hs' = (live hs)(unat ptr := None)) \<and>
    (\<forall>p. owner_of (page_info s p) \<noteq> PAGE_OWNER_HEAP \<longrightarrow> page_info s' p = page_info s p) \<and>
    (\<forall>g \<in> set hs'. 0 < n_live (ha_cells g) \<or> g \<in> set hs \<or> \<not> pmm_ready s \<or> thread_in s g)"
proof -
  have same: "kfree ptr s = Some (if ptr = 0 then 0 else -1, s) \<Longrightarrow>
      ptr = 0 \<or> live hs (unat ptr) = None \<Longrightarrow> ?thesis"
    using rep inv init by (intro exI [of _ "if ptr = 0 then 0 else -1"] exI [of _ s] exI [of _ hs]) (auto simp: env_kept_def)
  have find: "no_cell ptr hs \<and> find_block ptr s = Some 0 \<or>
      (\<exists>xs h ys us c vs. cell_at ptr hs (xs, h, ys) (us, c, vs) \<and>
        find_block ptr s = Some (w64 (ha_first h + span us)))"
    using find_in_arenas_seg [of s 0 hs ptr] rep by (simp add: heap_rep_def find_block_def)
  consider (null) "ptr = 0"
    | (absent) "ptr \<noteq> 0" "no_cell ptr hs" "find_block ptr s = Some 0"
    | (found) xs h ys us c vs where "ptr \<noteq> 0" "cell_at ptr hs (xs, h, ys) (us, c, vs)"
        "find_block ptr s = Some (w64 (ha_first h + span us))"
    using find by blast
  then show ?thesis
  proof cases
    case null
    then show ?thesis by (intro same) (simp_all add: kfree_def)
  next
    case absent
    then show ?thesis by (intro same) (simp_all add: kfree_def no_cell_live)
  next
    case (found xs h ys us c vs)
    have hs: "hs = xs @ h # ys" and cells: "ha_cells h = us @ c # vs" using found(2) by (auto simp: cell_at_def)
    note mid = heap_rep_mid [OF rep [unfolded hs]]
    show ?thesis
    proof (cases "snd c")
      case True
      have "seg (block_at s) (ha_addr h) 0 (ha_first h) (us @ c # vs) 0"
        using mid(1) cells by (simp add: arena_rep_def)
      then have "blk_is_free (block_at s (w64 (ha_first h + span us)))" using True by (simp add: seg_append)
      then show ?thesis
        using found cell_live(5) [OF rep found(2)] True by (intro same) (simp_all add: kfree_def)
    next
      case False
      then obtain m where c: "cell_at ptr hs (xs, h, ys) (us, (m, False), vs)" "c = (m, False)"
        using found(2) by (cases c) auto
      define t where "t = upd_arena (ha_addr h) (\<lambda>x. x\<lparr>arn_live_blocks := arn_live_blocks x - 1\<rparr>)
          (free_blocks (w64 (ha_first h + span us)) s)"
      define h' where "h' = h\<lparr>ha_cells := free_cells us m vs\<rparr>"
      note fr = free_block_rep [OF rep c(1) t_def, folded h'_def]
      have kf: "kfree ptr s = Some (0, reclaim_empty_arena (ha_addr h') t)"
        using kfree_found [OF rep c(1) found(3,1)] by (simp add: t_def h'_def)
      have lv: "live hs (unat ptr) \<noteq> None" using cell_live(5) [OF rep c(1)] by simp
      have tinv: "pmm_inv t" using inv pmm_inv_cong [OF fr(3)] by simp
      have pi: "page_info t p = page_info s p" for p by (simp add: page_info_def fr(3,4))
      have ev: "env_kept s t" using fr(6,7) by (simp add: env_kept_def)
      have th: "thread_in t = thread_in s"
        by (intro ext) (simp add: thread_in_def live_thread_owns_page_def fr(7))
      from fr(1) tinv refl show ?thesis
      proof (cases rule: reclaim_cases)
        case kept
        then show ?thesis
          using kf fr(1,2,5) tinv lv found(1) init pi ev
          by (intro exI [of _ 0] exI [of _ t] exI [of _ "xs @ h' # ys"]) (auto simp: hs)
      next
        case freed
        have "live (xs @ ys) = live (xs @ h' # ys)"
          using n_live_0 [OF freed(1)] by (simp add: live_append)
        moreover have "page_info (reclaim_empty_arena (ha_addr h') t) p = page_info s p"
          if "owner_of (page_info s p) \<noteq> PAGE_OWNER_HEAP" for p
          using that mid(1) freed(4) [of p] pi by (auto simp: arena_rep_def arena_owned_def h'_def)
        moreover have "env_kept s (reclaim_empty_arena (ha_addr h') t)"
          using ev freed(6,7) by (simp add: env_kept_def)
        ultimately show ?thesis
          using kf fr(2,5) freed(2,3,5) lv found(1) init
          by (intro exI [of _ 0] exI [of _ "reclaim_empty_arena (ha_addr h') t"] exI [of _ "xs @ ys"])
            (auto simp: hs)
      next
        case refused
        note fl = arenas_only_fields [OF refused(3)]
        have "live (h' # xs @ ys) = live (xs @ h' # ys)"
          using n_live_0 [OF refused(1)] by (simp add: live_append)
        moreover have "pmm_inv (reclaim_empty_arena (ha_addr h') t)" using tinv pmm_inv_cong [OF fl(4)] by simp
        moreover have "\<not> pmm_ready s \<or> thread_in s h'" using refused(4) th fr(6) by simp
        moreover have "env_kept s (reclaim_empty_arena (ha_addr h') t)"
          using ev fl by (simp add: env_kept_def)
        ultimately show ?thesis
          using kf fr(2,5) refused(2) lv found(1) init pi fl(2,5)
          by (intro exI [of _ 0] exI [of _ "reclaim_empty_arena (ha_addr h') t"] exI [of _ "h' # xs @ ys"])
            (auto simp: hs)
      qed
    qed
  qed
qed

section \<open>The interface of an allocator\<close>

text \<open>
  What a client of the allocator relies on.  The relation \<open>rep\<close> links a state to the map of the
  live blocks, from addresses to sizes.
\<close>

locale allocator =
  fixes alloc :: "u64 \<Rightarrow> 's \<Rightarrow> (u64 \<times> 's) option"
    and release :: "u64 \<Rightarrow> 's \<Rightarrow> (int \<times> 's) option"
    and rep :: "'s \<Rightarrow> (nat \<rightharpoonup> nat) \<Rightarrow> bool"
  assumes alloc_law: "rep s L \<Longrightarrow> sz \<noteq> 0 \<Longrightarrow>
      \<exists>p s' L'. alloc sz s = Some (p, s') \<and> rep s' L' \<and>
        (if p = 0 then L' = L else L (unat p) = None \<and> (\<exists>k \<ge> unat sz. L' = L(unat p \<mapsto> k)))"
    and release_law: "rep s L \<Longrightarrow> ptr \<noteq> 0 \<Longrightarrow>
      \<exists>c s' L'. release ptr s = Some (c, s') \<and> rep s' L' \<and>
        (if L (unat ptr) = None then c = -1 \<and> s' = s \<and> L' = L else c = 0 \<and> L' = L(unat ptr := None))"
    and disjoint_law: "rep s L \<Longrightarrow> L k = Some m \<Longrightarrow> L k' = Some m' \<Longrightarrow> k < k' \<Longrightarrow> k + m \<le> k'"
begin

lemma alloc_then_release:
  assumes "rep s L" and "sz \<noteq> 0" and "alloc sz s = Some (p, s')" and "p \<noteq> 0"
  shows "\<exists>s'' . release p s' = Some (0, s'') \<and> rep s'' L \<and> release p s'' = Some (-1, s'')"
proof -
  from alloc_law [OF assms(1,2)] assms(3,4) obtain k where
    L: "rep s' (L(unat p \<mapsto> k))" "L (unat p) = None" by auto
  from release_law [OF L(1) assms(4)] obtain s'' where
    1: "release p s' = Some (0, s'')" "rep s'' ((L(unat p \<mapsto> k))(unat p := None))" by auto
  have "(L(unat p \<mapsto> k))(unat p := None) = L" using L(2) by (auto simp: fun_upd_idem)
  with 1(2) have r: "rep s'' L" by simp
  from release_law [OF this assms(4)] L(2) have "release p s'' = Some (-1, s'')" by auto
  with 1(1) r show ?thesis by blast
qed

lemma two_blocks_disjoint:
  assumes "rep s L" and "sz \<noteq> 0" and "alloc sz s = Some (p, s')" and "p \<noteq> 0"
    and "sz' \<noteq> 0" and "alloc sz' s' = Some (q, s'')" and "q \<noteq> 0"
  shows "unat p + unat sz \<le> unat q \<or> unat q + unat sz' \<le> unat p"
proof -
  from alloc_law [OF assms(1,2)] assms(3,4) obtain k where
    L: "rep s' (L(unat p \<mapsto> k))" "unat sz \<le> k" by auto
  from alloc_law [OF L(1) assms(5)] assms(6,7) obtain l where
    L': "rep s'' ((L(unat p \<mapsto> k))(unat q \<mapsto> l))" "unat sz' \<le> l" "unat q \<noteq> unat p"
    by (auto split: if_splits)
  show ?thesis
    using disjoint_law [OF L'(1), of "unat p" k "unat q" l] disjoint_law [OF L'(1), of "unat q" l "unat p" k]
      L(2) L'(2,3) by (cases "unat p < unat q") auto
qed

end

definition heap_live :: "'a heap_scheme \<Rightarrow> (nat \<rightharpoonup> nat) \<Rightarrow> bool" where
  "heap_live s L \<longleftrightarrow> pmm_inv s \<and> heap_initialized s \<and> (\<exists>hs. heap_rep s hs \<and> live hs = L)"

lemma kmalloc_live:
  assumes "heap_live s L" and "sz \<noteq> 0"
  shows "\<exists>p s' L'. kmalloc sz s = Some (p, s') \<and> heap_live s' L' \<and>
      (if p = 0 then L' = L else L (unat p) = None \<and> (\<exists>k \<ge> unat sz. L' = L(unat p \<mapsto> k)))"
proof -
  obtain hs where hs: "heap_rep s hs" "live hs = L" "pmm_inv s" "heap_initialized s"
    using assms(1) by (auto simp: heap_live_def)
  obtain p s' hs' where k: "kmalloc sz s = Some (p, s')" "heap_rep s' hs'" "pmm_inv s'" "heap_initialized s'"
    "p = 0 \<Longrightarrow> hs' = hs"
    "p \<noteq> 0 \<Longrightarrow> live hs (unat p) = None \<and> (\<exists>k \<ge> unat sz. live hs' = (live hs)(unat p \<mapsto> k))"
    using kmalloc_result [OF hs(1,3,4) assms(2)] by (elim exE conjE) (rule that, assumption+, simp_all)
  then have "heap_live s' (live hs')" unfolding heap_live_def by blast
  with k hs(2) show ?thesis
    by (intro exI [of _ p] exI [of _ s'] exI [of _ "live hs'"]) (cases "p = 0", simp_all)
qed

lemma kfree_live:
  assumes "heap_live s L" and "ptr \<noteq> 0"
  shows "\<exists>c s' L'. kfree ptr s = Some (c, s') \<and> heap_live s' L' \<and>
      (if L (unat ptr) = None then c = -1 \<and> s' = s \<and> L' = L else c = 0 \<and> L' = L(unat ptr := None))"
proof -
  obtain hs where hs: "heap_rep s hs" "live hs = L" "pmm_inv s" "heap_initialized s"
    using assms(1) by (auto simp: heap_live_def)
  obtain c s' hs' where
    k: "kfree ptr s = Some (c, s')" "heap_rep s' hs'" "pmm_inv s'" "heap_initialized s'"
    "if live hs (unat ptr) = None then c = -1 \<and> s' = s else c = 0 \<and> live hs' = (live hs)(unat ptr := None)"
    using kfree_result [OF hs(1,3,4), of ptr] assms(2) by (elim exE conjE) (rule that, assumption+, simp_all)
  then have l: "heap_live s' (live hs')" unfolding heap_live_def by blast
  show ?thesis
  proof (cases "L (unat ptr) = None")
    case True
    then show ?thesis using k assms(1) hs(2) by (intro exI [of _ c] exI [of _ s'] exI [of _ L]) auto
  next
    case False
    then show ?thesis using k l hs(2) by (intro exI [of _ c] exI [of _ s'] exI [of _ "live hs'"]) auto
  qed
qed

lemma heap_live_disjoint:
  "heap_live s L \<Longrightarrow> L k = Some m \<Longrightarrow> L k' = Some m' \<Longrightarrow> k < k' \<Longrightarrow> k + m \<le> k'"
  using live_disjoint unfolding heap_live_def by blast

interpretation kheap: allocator kmalloc kfree heap_live
  by unfold_locales (rule kmalloc_live kfree_live heap_live_disjoint; assumption)+

end
