(* ===== verification/Kalloc_Safety.thy ===== *)
theory Kalloc_Safety
  imports Kalloc_Calls Pmm_Safety
begin

text \<open>
  The properties of the kernel heap: the allocator always returns, live allocations are aligned,
  large enough and disjoint, memory in use is never touched, only live allocations can be freed,
  the pages of an empty arena go back to the physical memory manager, and the statistics add up.
\<close>

section \<open>Sequences of calls\<close>

text \<open>
  A step of the kernel that involves the heap or the pages: a call of the heap, or an allocation,
  release or user-mapping operation of another component.  Other components release pages under
  their own owner.
\<close>

inductive heap_step :: "heap \<Rightarrow> heap \<Rightarrow> bool" where
  step_kmalloc: "sz \<noteq> 0 \<Longrightarrow> kmalloc sz s = Some (p, s') \<Longrightarrow> heap_step s s'"
| step_kfree: "kfree ptr s = Some (c, s') \<Longrightarrow> heap_step s s'"
| step_pages: "alloc_pages_owned n ow s = (pa, s') \<Longrightarrow> heap_step s s'"
| step_release: "ow \<noteq> PAGE_OWNER_HEAP \<Longrightarrow> ow \<noteq> PAGE_OWNER_ANY \<Longrightarrow>
    free_pages_owned pa n ow s = (c, s') \<Longrightarrow> heap_step s s'"
| step_map: "pmm_acquire_user_mapping pa s = (c, s') \<Longrightarrow> heap_step s s'"
| step_unmap: "pmm_release_user_mapping pa s = (c, s') \<Longrightarrow> heap_step s s'"

inductive_cases heap_stepE: "heap_step s s'"

text \<open>Every arena has a live block, unless a live thread keeps one of its pages.\<close>

definition tidy :: "'a pmm_scheme \<Rightarrow> harena list \<Rightarrow> bool" where
  "tidy s hs \<longleftrightarrow> (\<forall>h \<in> set hs. 0 < n_live (ha_cells h) \<or> \<not> pmm_ready s \<or> thread_in s h)"

definition heap_inv :: "'a heap_scheme \<Rightarrow> bool" where
  "heap_inv s \<longleftrightarrow> pmm_inv s \<and> heap_initialized s \<and> (\<exists>hs. heap_rep s hs \<and> tidy s hs)"

lemma pages_step:
  fixes s :: "'a heap_scheme"
  assumes "heap_inv s" and "same_env s s'" and "pmm_inv s'"
    and "\<And>p. owner_of (page_info s p) = PAGE_OWNER_HEAP \<Longrightarrow> allocated (page_info s p) \<Longrightarrow>
      page_info s' p = page_info s p"
  shows "heap_inv s' \<and> env_kept s s'"
proof -
  obtain hs where hs: "heap_rep s hs" "tidy s hs" using assms(1) by (auto simp: heap_inv_def)
  have more: "pmm.more s' = pmm.more s" "n_pages s' = n_pages s" "pmm_ready s' = pmm_ready s"
    "live_threads s' = live_threads s" using assms(2) by (simp_all add: same_env_def)
  have "arena_owned s' h" if "h \<in> set hs" for h
    using that hs(1) assms(4) more(2) by (auto simp: heap_rep_def arena_rep_def arena_owned_def)
  then have "heap_rep s' hs" using heap_rep_transfer [OF hs(1) more(1)] by blast
  moreover have "tidy s' hs"
    using hs(2) more by (simp add: tidy_def thread_in_def live_thread_owns_page_def)
  ultimately show ?thesis
    using assms(1,3) heap_more(4) [OF more(1)] more(3,4) by (auto simp: heap_inv_def env_kept_def)
qed

lemma tidy_step:
  assumes "tidy s hs" and "env_kept s s'"
    and "\<forall>g \<in> set hs'. 0 < n_live (ha_cells g) \<or> g \<in> set hs \<or> \<not> pmm_ready s \<or> thread_in s g"
  shows "tidy s' hs'"
  using assms by (fastforce simp: tidy_def env_kept_def thread_in_def live_thread_owns_page_def)

lemma kmalloc_inv:
  assumes "heap_inv s" and "sz \<noteq> 0" and "kmalloc sz s = Some (p, s')"
  shows "heap_inv s' \<and> env_kept s s'"
proof -
  obtain hs where hs: "heap_rep s hs" "tidy s hs" "pmm_inv s" "heap_initialized s"
    using assms(1) by (auto simp: heap_inv_def)
  obtain hs' where r: "heap_rep s' hs'" "pmm_inv s'" "heap_initialized s'" "env_kept s s'"
    "\<forall>g \<in> set hs'. 0 < n_live (ha_cells g) \<or> g \<in> set hs"
    using kmalloc_result [OF hs(1,3,4) assms(2)] assms(3) by auto
  then have "tidy s' hs'" by (intro tidy_step [OF hs(2)]) auto
  with r show ?thesis by (auto simp: heap_inv_def)
qed

lemma kfree_inv:
  assumes "heap_inv s" and "kfree ptr s = Some (c, s')"
  shows "heap_inv s' \<and> env_kept s s'"
proof -
  obtain hs where hs: "heap_rep s hs" "tidy s hs" "pmm_inv s" "heap_initialized s"
    using assms(1) by (auto simp: heap_inv_def)
  obtain hs' where r: "heap_rep s' hs'" "pmm_inv s'" "heap_initialized s'" "env_kept s s'"
    "\<forall>g \<in> set hs'. 0 < n_live (ha_cells g) \<or> g \<in> set hs \<or> \<not> pmm_ready s \<or> thread_in s g"
    using kfree_result [OF hs(1,3,4), of ptr] assms(2) by auto
  then have "tidy s' hs'" by (intro tidy_step [OF hs(2)]) auto
  with r show ?thesis by (auto simp: heap_inv_def)
qed

lemma alloc_pages_step:
  fixes s :: "'a heap_scheme"
  assumes "heap_inv s" and "alloc_pages_owned n ow s = (pa, s')"
  shows "heap_inv s' \<and> env_kept s s'"
proof -
  have inv: "pmm_inv s" using assms(1) by (simp add: heap_inv_def)
  note sh = pmm_inv_parts(1,3) [OF inv]
  have "same_env s s' \<and> (\<forall>p. allocated (page_info s p) \<longrightarrow> page_info s' p = page_info s p)"
  proof (cases "pa = 0")
    case True
    then have "s' = s \<or> s' = s\<lparr>pmm_fail_allocations := pmm_fail_allocations s - 1\<rparr>"
      using alloc_pages_owned_failure assms(2) sh by blast
    then show ?thesis by (auto simp: same_env_def page_info_def)
  next
    case False
    from alloc_pages_owned_success [OF sh assms(2) False] obtain start where
      "free_run s start n" "same_env s s'"
      "\<And>p. page_info s' p = (if start \<le> p \<and> p < start + n
        then page_info s p \<lparr>allocated := True, owner_of := ow, refs_of := 0\<rparr> else page_info s p)"
      by metis
    then show ?thesis by (simp add: free_run_def page_available_def)
  qed
  then show ?thesis using pages_step [OF assms(1)] pmm_inv_alloc [OF inv assms(2)] by blast
qed

lemma free_pages_step:
  fixes s :: "'a heap_scheme"
  assumes "heap_inv s" and "free_pages_owned pa n ow s = (c, s')"
    and "ow \<noteq> PAGE_OWNER_HEAP" and "ow \<noteq> PAGE_OWNER_ANY"
  shows "heap_inv s' \<and> env_kept s s'"
proof (cases "c = 0")
  case False
  then show ?thesis using assms(1,2) free_pages_owned_failure [of pa n ow s] by (simp add: env_kept_def)
next
  case True
  have inv: "pmm_inv s" using assms(1) by (simp add: heap_inv_def)
  note ok = free_pages_owned_success [OF pmm_inv_parts(1) [OF inv] assms(2) [unfolded True]]
  have "page_info s' p = page_info s p" if "owner_of (page_info s p) = PAGE_OWNER_HEAP" for p
    using that ok(6,7) [of p] assms(3,4) by (auto simp: free_refused_iff)
  then show ?thesis using pages_step [OF assms(1) ok(8)] pmm_inv_free [OF inv assms(2)] by blast
qed

lemma user_mapping_step:
  fixes s :: "'a heap_scheme"
  assumes "heap_inv s"
  shows "pmm_acquire_user_mapping pa s = (c, s') \<Longrightarrow> heap_inv s' \<and> env_kept s s'"
    and "pmm_release_user_mapping pa s = (c, s') \<Longrightarrow> heap_inv s' \<and> env_kept s s'"
proof -
  have inv: "pmm_inv s" using assms(1) by (simp add: heap_inv_def)
  note sh = pmm_inv_parts(1) [OF inv]
  show "heap_inv s' \<and> env_kept s s'" if a: "pmm_acquire_user_mapping pa s = (c, s')"
  proof (cases "c = 0")
    case False
    then show ?thesis using assms a acquire_failure [of pa s] by (simp add: env_kept_def)
  next
    case True
    note ok = acquire_success [OF sh a [unfolded True]]
    have "page_info s' p = page_info s p" if "owner_of (page_info s p) = PAGE_OWNER_HEAP" for p
      using that ok(1) ok(3) [of p] by (auto simp: user_page_def)
    then show ?thesis using pages_step [OF assms ok(4) pmm_inv_acquire [OF inv a]] by blast
  qed
  show "heap_inv s' \<and> env_kept s s'" if a: "pmm_release_user_mapping pa s = (c, s')"
  proof (cases "c = 0")
    case False
    then show ?thesis using assms a release_user_failure [OF sh, of pa] by (simp add: env_kept_def)
  next
    case True
    note ok = release_user_success [OF sh a [unfolded True]]
    have "page_info s' p = page_info s p" if "owner_of (page_info s p) = PAGE_OWNER_HEAP" for p
      using that ok(1) ok(3) [of p] by (auto simp: user_page_def)
    then show ?thesis using pages_step [OF assms ok(4) pmm_inv_release [OF inv a]] by blast
  qed
qed

lemma heap_step_inv: "heap_step s s' \<Longrightarrow> heap_inv s \<Longrightarrow> heap_inv s' \<and> env_kept s s'"
  by (erule heap_stepE)
    ((rule kmalloc_inv kfree_inv alloc_pages_step free_pages_step user_mapping_step; assumption)+)

lemma heap_steps_inv: "heap_step\<^sup>*\<^sup>* s s' \<Longrightarrow> heap_inv s \<Longrightarrow> heap_inv s' \<and> env_kept s s'"
proof (induction rule: rtranclp_induct)
  case (step t u)
  then show ?case using heap_step_inv [of t u] by (auto simp: env_kept_def)
qed (simp add: env_kept_def)

lemma init_inv: "pmm_inv s \<Longrightarrow> heap_inv (kmalloc_init s)"
proof -
  assume "pmm_inv s"
  then have "pmm_inv (kmalloc_init s)" using pmm_inv_cong [of "kmalloc_init s" s] by (simp add: kmalloc_init_def)
  moreover have "heap_rep (kmalloc_init s) []" by (simp add: heap_rep_def kmalloc_init_def)
  ultimately show ?thesis by (auto simp: heap_inv_def tidy_def kmalloc_init_def intro: exI [of _ "[]"])
qed

section \<open>Statistics\<close>

lemma stats_blocks_seg:
  assumes "seg (block_at s) ar prev a cs 0" and "0 < a" and "a + span cs \<le> 2 ^ 64"
  shows "stats_blocks (first_ptr a cs 0) s st =
    Some (st\<lparr>ks_active_blocks := ks_active_blocks st + w64 (n_live cs),
      ks_allocated_bytes := ks_allocated_bytes st + w64 (sum_list (map fst (filter (\<lambda>c. \<not> snd c) cs))),
      ks_free_bytes := ks_free_bytes st + w64 (sum_list (map fst (filter snd cs)))\<rparr>)"
  using assms
proof (induction cs arbitrary: prev a st)
  case Nil
  then show ?case by (subst stats_blocks.simps) simp
next
  case (Cons c cs)
  have "w64 a \<noteq> 0" using Cons.prems by (simp add: w64_eq_0)
  moreover have "seg (block_at s) ar (w64 a) (a + 48 + fst c) cs 0" using Cons.prems by simp
  note IH = Cons.IH [OF this]
  ultimately show ?case
    using Cons.prems by (subst stats_blocks.simps) (simp add: IH w64_def)
qed

definition heap_stats :: "harena list \<Rightarrow> kalloc_stats" where
  "heap_stats hs =
     \<lparr>ks_arenas = w64 (length hs), ks_arena_pages = w64 (sum_list (map ha_pages hs)),
      ks_active_blocks = w64 (sum_list (map (n_live \<circ> ha_cells) hs)),
      ks_allocated_bytes = w64 (sum_list (map (\<lambda>h. sum_list (map fst (filter (\<lambda>c. \<not> snd c) (ha_cells h)))) hs)),
      ks_free_bytes = w64 (sum_list (map (\<lambda>h. sum_list (map fst (filter snd (ha_cells h)))) hs))\<rparr>"

lemma stats_arenas_seg:
  assumes "aseg (arena_at s) prev hs 0" and "\<And>h. h \<in> set hs \<Longrightarrow> arena_rep s h"
  shows "stats_arenas (hd_ptr hs 0) s st = Some
    (st\<lparr>ks_arenas := ks_arenas st + ks_arenas (heap_stats hs),
      ks_arena_pages := ks_arena_pages st + ks_arena_pages (heap_stats hs),
      ks_active_blocks := ks_active_blocks st + ks_active_blocks (heap_stats hs),
      ks_allocated_bytes := ks_allocated_bytes st + ks_allocated_bytes (heap_stats hs),
      ks_free_bytes := ks_free_bytes st + ks_free_bytes (heap_stats hs)\<rparr>)"
  using assms
proof (induction hs arbitrary: prev st)
  case Nil
  then show ?case by (subst stats_arenas.simps) (simp add: heap_stats_def)
next
  case (Cons h hs)
  note f = arena_first [OF Cons.prems(2) [of h], simplified]
  have "aseg (arena_at s) (ha_addr h) hs 0" using Cons.prems(1) by simp
  note IH = Cons.IH [OF this Cons.prems(2)]
  have pc: "(ucast (of_nat (ha_pages h) :: u32) :: u64) = w64 (ha_pages h)"
  proof -
    have "ha_pages h < 2 ^ 32" using Cons.prems(2) [of h] by (simp add: arena_rep_def arena_wf_def)
    then have "unat (of_nat (ha_pages h) :: u32) = ha_pages h" by (simp add: unat_of_nat take_bit_eq_mod)
    then show ?thesis unfolding w64_def by (metis of_nat_unat)
  qed
  show ?case
    using Cons.prems(1) f(5) stats_blocks_seg [OF f(1)] f(2-4)
    by (subst stats_arenas.simps) (simp add: IH pc heap_stats_def w64_def)
qed

lemma cells_bytes: "sum_list (map fst (filter (\<lambda>c. \<not> snd c) cs)) + sum_list (map fst (filter snd cs)) +
    48 * length cs = span cs"
  by (induction cs) auto

lemma live_nonempty: "0 < n_live cs \<Longrightarrow> live_cells a cs \<noteq> Map.empty"
  by (induction cs arbitrary: a) (auto split: if_splits)

section \<open>A concrete heap\<close>

definition small_heap :: heap where
  "small_heap = pmm.extend small_pmm \<lparr>heap_arenas = 0, heap_initialized = True,
     arena_at = (\<lambda>_. \<lparr>arn_magic = 0, arn_paddr = 0, arn_page_count = 0, arn_live_blocks = 0,
       arn_prev = 0, arn_next = 0, arn_first = 0\<rparr>),
     block_at = (\<lambda>_. \<lparr>blk_magic = 0, blk_size = 0, blk_is_free = False, blk_arena = 0,
       blk_prev = 0, blk_next = 0\<rparr>)\<rparr>"

lemma small_heap_inv: "pmm_inv small_heap"
proof -
  have "phy_mem_map small_heap = phy_mem_map small_pmm" by (simp add: small_heap_def small_pmm_def pmm.extend_def)
  then show ?thesis using small_pmm_inv pmm_inv_cong by blast
qed

lemma small_heap_rep: "heap_rep small_heap []" "heap_initialized small_heap"
  by (simp_all add: small_heap_def heap_rep_def pmm.extend_def)

lemma small_kmalloc: "map_option fst (kmalloc 100 small_heap) = Some 0xFFFF800000002068"
  by code_simp

section \<open>Properties\<close>

text \<open>
  C13: A request for \<open>sz > 0\<close> bytes always returns.  On success the block is aligned, has at least
  \<open>sz\<close> bytes, was not live before, is the only change to the live allocations, and no page in
  use is touched; new pages are taken only if no free block is large enough.  The request fails,
  changing nothing, only if the size overflows, or no free block is large enough and the
  physical memory manager has no pages for a new arena.
\<close>

theorem kmalloc_exact:
  assumes "heap_rep s hs" and "pmm_inv s" and "heap_initialized s" and "sz \<noteq> 0"
  shows "\<exists>p s' hs'. kmalloc sz s = Some (p, s') \<and> heap_rep s' hs' \<and> pmm_inv s' \<and> heap_initialized s' \<and>
    in_use_kept s s' \<and> env_kept s s' \<and> (\<forall>g \<in> set hs'. 0 < n_live (ha_cells g) \<or> g \<in> set hs) \<and>
    (if p = 0
     then hs' = hs \<and> phy_mem_map s' = phy_mem_map s \<and> (2 ^ 64 \<le> unat sz + 7 \<or>
       no_fit (align8 (unat sz)) hs \<and> (\<not> arena_possible (align8 (unat sz)) \<or>
         fst (alloc_pages_owned (pages_for (align8 (unat sz))) PAGE_OWNER_HEAP s) = 0))
     else 8 dvd unat p \<and> live hs (unat p) = None \<and>
       (\<exists>k \<ge> unat sz. live hs' = (live hs)(unat p \<mapsto> k)) \<and>
       (phy_mem_map s' \<noteq> phy_mem_map s \<longrightarrow> no_fit (align8 (unat sz)) hs))"
  using assms by (rule kmalloc_result)

theorem kmalloc_exact_witness:
  "\<exists>s' hs' k. kmalloc 100 small_heap = Some (0xFFFF800000002068, s') \<and> heap_rep s' hs' \<and>
     100 \<le> k \<and> live hs' = [0xFFFF800000002068 \<mapsto> k]"
proof -
  obtain s' where k: "kmalloc 100 small_heap = Some (0xFFFF800000002068, s')"
    using small_kmalloc by (cases "kmalloc 100 small_heap") auto
  from kmalloc_exact [OF small_heap_rep(1) small_heap_inv small_heap_rep(2), of 100] k
  obtain hs' l where "heap_rep s' hs'" "unat (100 :: u64) \<le> l"
    "live hs' = (live [])(unat (0xFFFF800000002068 :: u64) \<mapsto> l)" by auto
  then show ?thesis using k by (intro exI [of _ s'] exI [of _ hs'] exI [of _ l]) simp
qed

text \<open>
  C14: \<^verbatim>\<open>kfree\<close> always returns.  Freeing NULL does nothing; freeing a live allocation makes exactly it
  no longer live; every other pointer, in particular one that was freed already or points into
  the middle of a block, is refused with -1 and changes nothing.  No page outside the heap is
  touched, and an arena left without live blocks is given back unless the physical memory
  manager refuses it because a live thread uses one of its pages.
\<close>

theorem kfree_exact:
  assumes "heap_rep s hs" and "pmm_inv s" and "heap_initialized s"
  shows "\<exists>c s' hs'. kfree ptr s = Some (c, s') \<and> heap_rep s' hs' \<and> pmm_inv s' \<and> heap_initialized s' \<and>
    env_kept s s' \<and>
    (if ptr = 0 then c = 0 \<and> s' = s
     else if live hs (unat ptr) = None then c = -1 \<and> s' = s
     else c = 0 \<and> live hs' = (live hs)(unat ptr := None)) \<and>
    (\<forall>p. owner_of (page_info s p) \<noteq> PAGE_OWNER_HEAP \<longrightarrow> page_info s' p = page_info s p) \<and>
    (\<forall>g \<in> set hs'. 0 < n_live (ha_cells g) \<or> g \<in> set hs \<or> \<not> pmm_ready s \<or> thread_in s g)"
  using assms by (rule kfree_result)

theorem kfree_exact_witness:
  "\<exists>s1 s2 hs. kmalloc 100 small_heap = Some (0xFFFF800000002068, s1) \<and>
     kfree 0xFFFF800000002068 s1 = Some (0, s2) \<and> heap_rep s2 hs \<and> live hs = Map.empty"
proof -
  obtain s' where k: "kmalloc 100 small_heap = Some (0xFFFF800000002068, s')"
    using small_kmalloc by (cases "kmalloc 100 small_heap") auto
  from kmalloc_result [OF small_heap_rep(1) small_heap_inv small_heap_rep(2), of 100] k
  obtain hs' l where h: "heap_rep s' hs'" "pmm_inv s'" "heap_initialized s'"
    "live hs' = (live [])(unat (0xFFFF800000002068 :: u64) \<mapsto> l)" by auto
  from kfree_exact [OF h(1-3), of "0xFFFF800000002068"] h(4) k show ?thesis by auto
qed

text \<open>
  C15: After initialisation and any sequence of heap calls mixed with page allocations, releases
  and user mappings of other components, the live allocations are disjoint, lie inside pages
  that are allocated to the heap, and the page accounting holds; when nothing is live and no
  thread lives in heap pages, the heap holds no page at all.
\<close>

theorem heap_calls_safe:
  assumes "pmm_inv s" and "heap_step\<^sup>*\<^sup>* (kmalloc_init s) s'"
  shows "\<exists>hs. heap_rep s' hs \<and> pmm_inv s' \<and>
    (\<forall>k m k' m'. live hs k = Some m \<longrightarrow> live hs k' = Some m' \<longrightarrow> k < k' \<longrightarrow> k + m \<le> k') \<and>
    (\<forall>k m b. live hs k = Some m \<longrightarrow> k \<le> b \<longrightarrow> b < k + m \<longrightarrow>
       allocated (page_info s' ((b - 0xFFFF800000000000) div 4096)) \<and>
       owner_of (page_info s' ((b - 0xFFFF800000000000) div 4096)) = PAGE_OWNER_HEAP) \<and>
    (live hs = Map.empty \<longrightarrow> pmm_ready s \<longrightarrow> live_threads s = [] \<longrightarrow> heap_arenas s' = 0)"
proof -
  have inv: "heap_inv s'" "env_kept (kmalloc_init s) s'"
    using heap_steps_inv [OF assms(2) init_inv [OF assms(1)]] by blast+
  then obtain hs where hs: "heap_rep s' hs" "tidy s' hs" "pmm_inv s'" by (auto simp: heap_inv_def)
  have "heap_arenas s' = 0" if "live hs = Map.empty" "pmm_ready s" "live_threads s = []"
  proof (rule ccontr)
    assume "heap_arenas s' \<noteq> 0"
    then obtain h ks where h: "hs = h # ks" using hs(1) by (cases hs) (auto simp: heap_rep_def)
    have "0 < n_live (ha_cells h)"
      using hs(2) h that(2,3) inv(2)
      by (simp add: tidy_def env_kept_def kmalloc_init_def thread_in_def live_thread_owns_page_def)
    then show False using live_nonempty [of "ha_cells h" "ha_first h"] that(1) h by auto
  qed
  then show ?thesis using hs live_disjoint [OF hs(1)] live_owned [OF hs(1)] by blast
qed

theorem heap_calls_safe_witness:
  "\<exists>s' hs. heap_step\<^sup>*\<^sup>* (kmalloc_init small_heap) s' \<and> kmalloc 100 small_heap = Some (0xFFFF800000002068, s') \<and>
     heap_rep s' hs \<and> (\<forall>k m k' m'. live hs k = Some m \<longrightarrow> live hs k' = Some m' \<longrightarrow> k < k' \<longrightarrow> k + m \<le> k')"
proof -
  obtain s' where k: "kmalloc 100 small_heap = Some (0xFFFF800000002068, s')"
    using small_kmalloc by (cases "kmalloc 100 small_heap") auto
  have "kmalloc_init small_heap = small_heap" by (simp add: kmalloc_init_def small_heap_def pmm.extend_def)
  then have "heap_step\<^sup>*\<^sup>* (kmalloc_init small_heap) s'" using step_kmalloc [OF _ k] by auto
  from heap_calls_safe [OF small_heap_inv this] this k show ?thesis by blast
qed

text \<open>
  C16: A block that was just allocated can be freed, which restores the live allocations, and a
  second release of it is refused without any change; two allocations never overlap.
\<close>

theorem kmalloc_kfree_roundtrip:
  assumes "heap_live s L" and "sz \<noteq> 0" and "kmalloc sz s = Some (p, s1)" and "p \<noteq> 0"
  shows "(\<exists>s2. kfree p s1 = Some (0, s2) \<and> heap_live s2 L \<and> kfree p s2 = Some (-1, s2)) \<and>
    (\<forall>sz' q s2. sz' \<noteq> 0 \<longrightarrow> kmalloc sz' s1 = Some (q, s2) \<longrightarrow> q \<noteq> 0 \<longrightarrow>
       unat p + unat sz \<le> unat q \<or> unat q + unat sz' \<le> unat p)"
  using kheap.alloc_then_release [OF assms] kheap.two_blocks_disjoint [OF assms] by blast

theorem kmalloc_kfree_roundtrip_witness:
  "\<exists>s1 s2. kmalloc 100 small_heap = Some (0xFFFF800000002068, s1) \<and>
     kfree 0xFFFF800000002068 s1 = Some (0, s2) \<and> kfree 0xFFFF800000002068 s2 = Some (-1, s2)"
proof -
  obtain s' where k: "kmalloc 100 small_heap = Some (0xFFFF800000002068, s')"
    using small_kmalloc by (cases "kmalloc 100 small_heap") auto
  have "heap_live small_heap Map.empty"
    using small_heap_rep small_heap_inv by (auto simp: heap_live_def intro: exI [of _ "[]"])
  from kmalloc_kfree_roundtrip [OF this _ k] k show ?thesis by auto
qed

text \<open>
  C27: The statistics of the heap are exact, and they account for every byte: payload of live
  and free blocks, block headers and arena headers add up to the pages of the arenas.
\<close>

theorem kalloc_stats_exact:
  assumes "heap_rep s hs" and "heap_initialized s"
  shows "kalloc_get_stats s = Some (heap_stats hs) \<and>
    sum_list (map (\<lambda>h. sum_list (map fst (filter (\<lambda>c. \<not> snd c) (ha_cells h)))) hs) +
    sum_list (map (\<lambda>h. sum_list (map fst (filter snd (ha_cells h)))) hs) +
    48 * sum_list (map (length \<circ> ha_cells) hs) + 56 * length hs =
    4096 * sum_list (map ha_pages hs)"
proof -
  have "56 + span (ha_cells h) = ha_pages h * 4096" if "h \<in> set hs" for h
    using that assms(1) by (auto simp: heap_rep_def arena_rep_def arena_wf_def)
  then have "sum_list (map (\<lambda>h. sum_list (map fst (filter (\<lambda>c. \<not> snd c) (ha_cells h)))) hs) +
    sum_list (map (\<lambda>h. sum_list (map fst (filter snd (ha_cells h)))) hs) +
    48 * sum_list (map (length \<circ> ha_cells) hs) + 56 * length hs = 4096 * sum_list (map ha_pages hs)"
  proof (induction hs)
    case (Cons h hs)
    have "56 + span (ha_cells h) = ha_pages h * 4096" by (rule Cons.prems) simp
    moreover note Cons.IH [OF Cons.prems] cells_bytes [of "ha_cells h"]
    ultimately show ?case by simp
  qed simp
  moreover have "kalloc_get_stats s = Some (heap_stats hs)"
    using assms stats_arenas_seg [of s 0 hs zero_kstats]
    by (simp add: kalloc_get_stats_def heap_rep_def zero_kstats_def)
  ultimately show ?thesis by blast
qed

theorem kalloc_stats_exact_witness:
  "kalloc_get_stats small_heap = Some (heap_stats [])"
  using kalloc_stats_exact [OF small_heap_rep] by blast

end
