(* ===== verification/Cstring.thy ===== *)
theory Cstring
  imports Os_Prelude
begin

text \<open>
  The string and memory routines of kernel/string.c and of the user library usr/libc.c.  Memory
  is a function from addresses to bytes.  A walk along a string that has no terminating zero
  does not end; such walks are \<^verbatim>\<open>partial_function\<close>s with the value \<open>None\<close>.
\<close>

type_synonym memory = "nat \<Rightarrow> u8"

section \<open>kernel/string.c\<close>

partial_function (option) strlen_from :: "memory \<Rightarrow> nat \<Rightarrow> nat \<Rightarrow> nat option" where
  "strlen_from m str len = (if m str \<noteq> 0 then strlen_from m (str + 1) (len + 1) else Some len)"

definition strlen :: "memory \<Rightarrow> nat \<Rightarrow> nat option" where
  "strlen m str = strlen_from m str 0"

partial_function (option) strcmp :: "memory \<Rightarrow> nat \<Rightarrow> nat \<Rightarrow> int option" where
  "strcmp m s1 s2 =
     (if m s1 \<noteq> 0 \<and> m s1 = m s2 then strcmp m (s1 + 1) (s2 + 1)
      else Some (uint (m s1) - uint (m s2)))"

function strncmp :: "memory \<Rightarrow> nat \<Rightarrow> nat \<Rightarrow> int \<Rightarrow> int" where
  "strncmp m s1 s2 n =
     (if n > 0 \<and> m s1 \<noteq> 0 \<and> m s1 = m s2 then strncmp m (s1 + 1) (s2 + 1) (n - 1)
      else if n = 0 then 0
      else uint (m s1) - uint (m s2))"
  by pat_completeness auto
termination
  by (relation "measure (\<lambda>(m, s1, s2, n). nat n)") auto

fun memset :: "nat \<Rightarrow> u8 \<Rightarrow> nat \<Rightarrow> memory \<Rightarrow> memory" where
  "memset dest val 0 m = m"
| "memset dest val (Suc count) m = memset (dest + 1) val count (m(dest := val))"

fun memcpy :: "nat \<Rightarrow> nat \<Rightarrow> nat \<Rightarrow> memory \<Rightarrow> memory" where
  "memcpy dest src 0 m = m"
| "memcpy dest src (Suc count) m = memcpy (dest + 1) (src + 1) count (m(dest := m src))"

partial_function (option) strcpy :: "nat \<Rightarrow> nat \<Rightarrow> memory \<Rightarrow> memory option" where
  "strcpy dest src m =
     (let m' = m(dest := m src) in
      if m src \<noteq> 0 then strcpy (dest + 1) (src + 1) m' else Some m')"

section \<open>usr/libc.c\<close>

text \<open>The library versions index from fixed pointers; the loops count the index up or down.\<close>

definition libc_memset :: "nat \<Rightarrow> u8 \<Rightarrow> nat \<Rightarrow> memory \<Rightarrow> memory" where
  "libc_memset destination val len m = fold (\<lambda>i m. m(destination + i := val)) [0..<len] m"

definition libc_memcpy :: "nat \<Rightarrow> nat \<Rightarrow> nat \<Rightarrow> memory \<Rightarrow> memory" where
  "libc_memcpy destination source len m =
     fold (\<lambda>i m. m(destination + i := m (source + i))) [0..<len] m"

fun memmove_down :: "nat \<Rightarrow> nat \<Rightarrow> nat \<Rightarrow> memory \<Rightarrow> memory" where
  "memmove_down destination source 0 m = m"
| "memmove_down destination source (Suc n) m =
     memmove_down destination source n (m(destination + n := m (source + n)))"

definition memmove :: "nat \<Rightarrow> nat \<Rightarrow> nat \<Rightarrow> memory \<Rightarrow> memory" where
  "memmove destination source len m =
     (if destination < source then libc_memcpy destination source len m
      else memmove_down destination source len m)"

fun memcmp_from :: "memory \<Rightarrow> nat \<Rightarrow> nat \<Rightarrow> nat list \<Rightarrow> int" where
  "memcmp_from m left right [] = 0"
| "memcmp_from m left right (i # is) =
     (if m (left + i) \<noteq> m (right + i) then if m (left + i) < m (right + i) then -1 else 1
      else memcmp_from m left right is)"

definition memcmp :: "memory \<Rightarrow> nat \<Rightarrow> nat \<Rightarrow> nat \<Rightarrow> int" where
  "memcmp m left right len = memcmp_from m left right [0..<len]"

partial_function (option) libc_strlen_from :: "memory \<Rightarrow> nat \<Rightarrow> nat \<Rightarrow> nat option" where
  "libc_strlen_from m string len =
     (if m (string + len) \<noteq> 0 then libc_strlen_from m string (len + 1) else Some len)"

definition libc_strlen :: "memory \<Rightarrow> nat \<Rightarrow> nat option" where
  "libc_strlen m string = (if string = 0 then Some 0 else libc_strlen_from m string 0)"

function libc_strncmp :: "memory \<Rightarrow> nat \<Rightarrow> nat \<Rightarrow> nat \<Rightarrow> int" where
  "libc_strncmp m left right len =
     (if len \<noteq> 0 \<and> m left \<noteq> 0 \<and> m left = m right then libc_strncmp m (left + 1) (right + 1) (len - 1)
      else if len = 0 then 0
      else uint (m left) - uint (m right))"
  by pat_completeness auto
termination
  by (relation "measure (\<lambda>(m, s1, s2, n). n)") auto

function strncpy_copy :: "nat \<Rightarrow> nat \<Rightarrow> nat \<Rightarrow> nat \<Rightarrow> memory \<Rightarrow> nat \<times> memory" where
  "strncpy_copy destination source len i m =
     (if i < len \<and> m (source + i) \<noteq> 0
      then strncpy_copy destination source len (i + 1) (m(destination + i := m (source + i)))
      else (i, m))"
  by pat_completeness auto
termination
  by (relation "measure (\<lambda>(d, s, n, i, m). n - i)") auto

definition strncpy :: "nat \<Rightarrow> nat \<Rightarrow> nat \<Rightarrow> memory \<Rightarrow> memory" where
  "strncpy destination source len m =
     (case strncpy_copy destination source len 0 m of
        (i, m1) \<Rightarrow> fold (\<lambda>i m. m(destination + i := 0)) [i..<len] m1)"

declare strlen_from.simps [simp del] strcmp.simps [simp del] strncmp.simps [simp del]
  strcpy.simps [simp del] libc_strlen_from.simps [simp del] libc_strncmp.simps [simp del]
  strncpy_copy.simps [simp del]

declare strlen_from.simps [code] strcmp.simps [code] strcpy.simps [code] libc_strlen_from.simps [code]

section \<open>Strings in memory\<close>

text \<open>The bytes \<open>xs\<close>, none of them zero, are stored at \<open>p\<close> and followed by a zero.\<close>

definition cstr :: "memory \<Rightarrow> nat \<Rightarrow> u8 list \<Rightarrow> bool" where
  "cstr m p xs \<longleftrightarrow> (\<forall>i < length xs. m (p + i) = xs ! i \<and> xs ! i \<noteq> 0) \<and> m (p + length xs) = 0"

lemma cstr_Nil [simp]: "cstr m p [] \<longleftrightarrow> m p = 0"
  by (simp add: cstr_def)

lemma cstr_Cons [simp]: "cstr m p (x # xs) \<longleftrightarrow> m p = x \<and> x \<noteq> 0 \<and> cstr m (p + 1) xs"
  by (auto simp: cstr_def nth_Cons' less_Suc_eq_0_disj algebra_simps split: if_splits)

lemma cstr_cong: "(\<And>i. p \<le> i \<Longrightarrow> i \<le> p + length xs \<Longrightarrow> m' i = m i) \<Longrightarrow> cstr m' p xs = cstr m p xs"
  by (auto simp: cstr_def)

lemma strlen_from_cstr: "cstr m p xs \<Longrightarrow> strlen_from m p n = Some (n + length xs)"
  by (induction xs arbitrary: p n) (subst strlen_from.simps, simp)+

lemma strlen_cstr: "cstr m p xs \<Longrightarrow> strlen m p = Some (length xs)"
  by (simp add: strlen_def strlen_from_cstr)

lemma libc_strlen_from_cstr: "cstr m (p + n) xs \<Longrightarrow> libc_strlen_from m p n = Some (n + length xs)"
  by (induction xs arbitrary: n) (subst libc_strlen_from.simps, simp)+

lemma libc_strlen_cstr: "cstr m p xs \<Longrightarrow> p \<noteq> 0 \<Longrightarrow> libc_strlen m p = Some (length xs)"
  using libc_strlen_from_cstr [of m p 0 xs] by (simp add: libc_strlen_def)

text \<open>Order of the first bytes that differ, a shorter string first.\<close>

fun byte_order :: "u8 list \<Rightarrow> u8 list \<Rightarrow> int" where
  "byte_order [] [] = 0"
| "byte_order [] (y # ys) = - uint y"
| "byte_order (x # xs) [] = uint x"
| "byte_order (x # xs) (y # ys) = (if x = y then byte_order xs ys else uint x - uint y)"

lemma strcmp_cstr: "cstr m p xs \<Longrightarrow> cstr m q ys \<Longrightarrow> strcmp m p q = Some (byte_order xs ys)"
  by (induction xs ys arbitrary: p q rule: byte_order.induct) (subst strcmp.simps, simp)+

lemma byte_order_0: "0 \<notin> set xs \<Longrightarrow> 0 \<notin> set ys \<Longrightarrow> byte_order xs ys = 0 \<longleftrightarrow> xs = ys"
  by (induction xs ys rule: byte_order.induct) (auto simp: uint_0_iff intro: word_uint_eqI)

lemma cstr_nonzero: "cstr m p xs \<Longrightarrow> 0 \<notin> set xs"
  by (auto simp: cstr_def in_set_conv_nth)

lemma strcmp_zero:
  "cstr m p xs \<Longrightarrow> cstr m q ys \<Longrightarrow> strcmp m p q = Some 0 \<longleftrightarrow> xs = ys"
  using strcmp_cstr byte_order_0 cstr_nonzero by (metis option.inject)

lemma strncmp_cstr:
  "cstr m p xs \<Longrightarrow> cstr m q ys \<Longrightarrow> strncmp m p q (int n) = byte_order (take n xs) (take n ys)"
proof (induction xs ys arbitrary: p q n rule: byte_order.induct)
  case 1
  then show ?case by (cases n) (subst strncmp.simps, simp)+
next
  case (2 y ys)
  then show ?case by (cases n) (subst strncmp.simps, simp)+
next
  case (3 x xs)
  then show ?case by (cases n) (subst strncmp.simps, simp)+
next
  case (4 x xs y ys)
  then show ?case by (cases n) (subst strncmp.simps, simp)+
qed

lemma libc_strncmp_eq: "libc_strncmp m p q n = strncmp m p q (int n)"
proof (induction m p q n rule: libc_strncmp.induct)
  case (1 m p q n)
  show ?case
    using 1 by (subst libc_strncmp.simps, subst strncmp.simps) (cases n, simp_all)
qed

section \<open>Memory blocks\<close>

lemma memset_effect: "memset d v n m i = (if d \<le> i \<and> i < d + n then v else m i)"
  by (induction n arbitrary: d m) auto

lemma libc_memset_effect: "libc_memset d v n m i = (if d \<le> i \<and> i < d + n then v else m i)"
  unfolding libc_memset_def by (induction n) auto

text \<open>Copying upwards is right unless the destination starts inside the source.\<close>

lemma memcpy_effect:
  assumes "d \<le> s \<or> s + n \<le> d"
  shows "memcpy d s n m i = (if d \<le> i \<and> i < d + n then m (s + (i - d)) else m i)"
  using assms
proof (induction n arbitrary: d s m)
  case (Suc n)
  have "memcpy (d + 1) (s + 1) n (m(d := m s)) i =
      (if d + 1 \<le> i \<and> i < d + 1 + n then (m(d := m s)) (s + 1 + (i - (d + 1))) else (m(d := m s)) i)"
    using Suc.prems by (intro Suc.IH) auto
  then show ?case using Suc.prems by (auto simp: Suc_diff_Suc)
qed auto

lemma libc_memcpy_eq: "libc_memcpy d s n m = memcpy d s n m"
proof -
  have "fold (\<lambda>i m. m(d + i := m (s + i))) [k..<k + n] m = memcpy (d + k) (s + k) n m" for k
  proof (induction n arbitrary: k m)
    case (Suc n)
    have "[k..<k + Suc n] = k # [Suc k..<Suc k + n]" by (simp add: upt_conv_Cons del: upt_Suc)
    then show ?case using Suc [of "Suc k" "m(d + k := m (s + k))"] by (simp add: fun_upd_def del: upt_Suc)
  qed simp
  from this [of 0] show ?thesis by (simp add: libc_memcpy_def)
qed

lemma memmove_down_effect:
  assumes "s \<le> d"
  shows "memmove_down d s n m i = (if d \<le> i \<and> i < d + n then m (s + (i - d)) else m i)"
  using assms by (induction n arbitrary: m) auto

lemma memmove_effect: "memmove d s n m i = (if d \<le> i \<and> i < d + n then m (s + (i - d)) else m i)"
  by (simp add: memmove_def libc_memcpy_eq memcpy_effect memmove_down_effect)

lemma memcmp_zero: "memcmp m p q n = 0 \<longleftrightarrow> (\<forall>i < n. m (p + i) = m (q + i))"
proof -
  have "memcmp_from m p q is = 0 \<longleftrightarrow> (\<forall>i \<in> set is. m (p + i) = m (q + i))" for "is"
    by (induction "is") auto
  then show ?thesis by (auto simp: memcmp_def)
qed

lemma strcpy_effect:
  assumes "cstr m s xs" and "d + length xs < s \<or> s + length xs < d"
  shows "\<exists>m'. strcpy d s m = Some m' \<and> cstr m' d xs \<and>
    (\<forall>i. i < d \<or> d + length xs < i \<longrightarrow> m' i = m i)"
  using assms
proof (induction xs arbitrary: d s m)
  case Nil
  then show ?case by (subst strcpy.simps) (auto simp: Let_def)
next
  case (Cons x xs)
  let ?m = "m(d := m s)"
  have "cstr ?m (s + 1) xs" using Cons.prems by (subst cstr_cong [where m = m]) auto
  moreover have "d + 1 + length xs < s + 1 \<or> s + 1 + length xs < d + 1" using Cons.prems(2) by auto
  ultimately obtain m' where m': "strcpy (d + 1) (s + 1) ?m = Some m'" "cstr m' (d + 1) xs"
      "\<forall>i. i < d + 1 \<or> d + 1 + length xs < i \<longrightarrow> m' i = ?m i" using Cons.IH by blast
  then have "strcpy d s m = Some m'" using Cons.prems by (subst strcpy.simps) simp
  moreover have "cstr m' d (x # xs)" using m' Cons.prems by simp
  moreover have "m' i = m i" if "i < d \<or> d + length (x # xs) < i" for i
    using m'(3) [rule_format, of i] that by auto
  ultimately show ?case by blast
qed

lemma strncpy_copy_effect:
  assumes "cstr m s xs" and "d + n \<le> s \<or> s + length xs < d" and "i \<le> length xs" and "i \<le> n"
    and "\<And>j. j < i \<Longrightarrow> m (d + j) = xs ! j"
  shows "\<exists>m'. strncpy_copy d s n i m = (min n (length xs), m') \<and>
    (\<forall>j < min n (length xs). m' (d + j) = xs ! j) \<and> (\<forall>a. a < d \<or> d + n \<le> a \<longrightarrow> m' a = m a)"
  using assms
proof (induction "n - i" arbitrary: i m)
  case 0
  then show ?case by (subst strncpy_copy.simps) auto
next
  case (Suc k)
  show ?case
  proof (cases "i = length xs")
    case True
    then have "m (s + i) = 0" using Suc.prems(1) by (simp add: cstr_def)
    then show ?thesis using Suc.prems True by (subst strncpy_copy.simps) (auto simp: min_def)
  next
    case False
    let ?m = "m(d + i := m (s + i))"
    have x: "m (s + i) = xs ! i" "xs ! i \<noteq> 0" using Suc.prems(1,3) False by (simp_all add: cstr_def)
    have k: "k = n - Suc i" "Suc i \<le> length xs" "Suc i \<le> n" using Suc.hyps(2) Suc.prems(3) False by auto
    have "cstr ?m s xs" using Suc.prems(1,2) Suc.hyps(2) Suc.prems(3) False by (subst cstr_cong [where m = m]) auto
    moreover have "j < Suc i \<Longrightarrow> ?m (d + j) = xs ! j" for j
      using Suc.prems(5) [of j] x by (auto simp: less_Suc_eq)
    ultimately obtain m' where m': "strncpy_copy d s n (Suc i) ?m = (min n (length xs), m')"
      "\<forall>j < min n (length xs). m' (d + j) = xs ! j" "\<forall>a. a < d \<or> d + n \<le> a \<longrightarrow> m' a = ?m a"
      using Suc.hyps(1) [of "Suc i" ?m] k Suc.prems(2) by blast
    moreover have "strncpy_copy d s n i m = strncpy_copy d s n (Suc i) ?m"
      using x Suc.hyps(2) by (subst strncpy_copy.simps) auto
    ultimately show ?thesis using Suc.hyps(2) by auto
  qed
qed

lemma fold_zero: "fold (\<lambda>i m. m(d + i := 0)) [k..<n] (m :: memory) a =
    (if d + k \<le> a \<and> a < d + n then 0 else m a)"
  by (induction n) (auto simp: less_Suc_eq)

lemma strncpy_effect:
  assumes "cstr m s xs" and "d + n \<le> s \<or> s + length xs < d"
  shows "strncpy d s n m a =
    (if d \<le> a \<and> a < d + n then if a - d < length xs then xs ! (a - d) else 0 else m a)"
proof -
  obtain m' where m': "strncpy_copy d s n 0 m = (min n (length xs), m')"
    "\<forall>j < min n (length xs). m' (d + j) = xs ! j" "\<forall>a. a < d \<or> d + n \<le> a \<longrightarrow> m' a = m a"
    using strncpy_copy_effect [OF assms, of 0] by auto
  have "m' a = xs ! (a - d)" if "d \<le> a" "a - d < min n (length xs)"
    using m'(2) that by (metis le_add_diff_inverse)
  then show ?thesis using m'(1,3) by (auto simp: strncpy_def fold_zero)
qed

section \<open>Properties\<close>

text \<open>
  C28: On strings with a terminating zero the string routines return and agree with the sequences
  of bytes: the length, a comparison that is zero exactly for equal strings and otherwise has
  the sign of the first difference, the comparison of prefixes, and a copy that reproduces the
  string and touches no byte outside the destination.  The routines of the user library give
  the same results as those of the kernel.
\<close>

theorem string_routines_exact:
  assumes "cstr m p xs" and "cstr m q ys"
  shows "strlen m p = Some (length xs) \<and> (p \<noteq> 0 \<longrightarrow> libc_strlen m p = strlen m p) \<and>
    strcmp m p q = Some (byte_order xs ys) \<and> (strcmp m p q = Some 0 \<longleftrightarrow> xs = ys) \<and>
    strncmp m p q (int n) = byte_order (take n xs) (take n ys) \<and>
    libc_strncmp m p q n = strncmp m p q (int n) \<and>
    (d + length xs < p \<or> p + length xs < d \<longrightarrow>
      (\<exists>m'. strcpy d p m = Some m' \<and> cstr m' d xs \<and> (\<forall>i. i < d \<or> d + length xs < i \<longrightarrow> m' i = m i)))"
  using strlen_cstr [OF assms(1)] libc_strlen_cstr [OF assms(1)] strcmp_cstr [OF assms]
    strcmp_zero [OF assms] strncmp_cstr [OF assms] libc_strncmp_eq strcpy_effect [OF assms(1)] by simp

theorem string_routines_exact_witness:
  "strlen ((\<lambda>_. 0)(1 := 65, 2 := 66)) 1 = Some 2 \<and> strcmp ((\<lambda>_. 0)(1 := 65, 2 := 66)) 1 1 = Some 0"
  using string_routines_exact [of "(\<lambda>_. 0)(1 := 65, 2 := 66)" 1 "[65, 66]" 1 "[65, 66]" 0 10]
  by simp

text \<open>
  C29: \<^verbatim>\<open>memmove\<close> copies the block as it was before the call for every position of the two blocks,
  however they overlap; the two versions of \<^verbatim>\<open>memcpy\<close> agree with each other always, and with
  \<^verbatim>\<open>memmove\<close> unless the destination starts inside the source; \<^verbatim>\<open>memset\<close> and \<^verbatim>\<open>strncpy\<close> change
  exactly their range.
\<close>

theorem memory_routines_exact:
  "memmove d s n m = (\<lambda>i. if d \<le> i \<and> i < d + n then m (s + (i - d)) else m i) \<and>
   libc_memcpy d s n m = memcpy d s n m \<and>
   (d \<le> s \<or> s + n \<le> d \<longrightarrow> memcpy d s n m = memmove d s n m) \<and>
   memset d v n m = (\<lambda>i. if d \<le> i \<and> i < d + n then v else m i) \<and>
   libc_memset d v n m = memset d v n m \<and>
   (cstr m s xs \<longrightarrow> d + n \<le> s \<or> s + length xs < d \<longrightarrow>
     strncpy d s n m = (\<lambda>a. if d \<le> a \<and> a < d + n
       then if a - d < length xs then xs ! (a - d) else 0 else m a))"
  by (auto simp: memmove_effect libc_memcpy_eq memcpy_effect memset_effect libc_memset_effect
      strncpy_effect intro!: ext)

theorem memory_routines_exact_witness:
  "memmove 1 0 2 ((\<lambda>_. 0)(0 := 7, 1 := 8)) 2 = 8 \<and> memcpy 0 1 2 ((\<lambda>_. 0)(1 := 7, 2 := 8)) 1 = 8"
  using memory_routines_exact [of 1 0 2 "(\<lambda>_. 0)(0 := 7, 1 := 8)" 0 "[]"]
    memory_routines_exact [of 0 1 2 "(\<lambda>_. 0)(1 := 7, 2 := 8)" 0 "[]"] by simp

end
