(* ===== verification/Disk.thy ===== *)
theory Disk
  imports Cstring
begin

text \<open>
  The ATA driver of kernel/disk.c.  The controller behind the I/O ports is hardware; it is
  described by its documented behaviour (ATA-6, PIO, 48-bit addresses): two-deep task-file
  registers, a data phase per sector, and a status register.  When a drive is busy and when a
  command fails is decided by an arbitrary sequence of outcomes, so that the theorems hold for
  every timing and every pattern of errors.
\<close>

section \<open>The controller\<close>

datatype ata_outcome = Busy | Ready | Fault

text \<open>A data phase names the sector, the number of sectors left and the next word.\<close>

datatype ata_phase = Idle | Reading nat nat nat | Writing nat nat nat

record task_file =
  tf_count :: "u8 \<times> u8"
  tf_low :: "u8 \<times> u8"
  tf_mid :: "u8 \<times> u8"
  tf_high :: "u8 \<times> u8"

record ata =
  ata_sectors :: "nat \<Rightarrow> nat \<Rightarrow> u16"
  ata_pending :: "nat \<Rightarrow> u16"
  ata_regs :: task_file
  ata_phase :: ata_phase
  ata_outcomes :: "nat \<Rightarrow> ata_outcome"
  ata_time :: nat

text \<open>The addressed sector and the number of sectors, from both halves of the task file.\<close>

definition regs_lba :: "task_file \<Rightarrow> nat" where
  "regs_lba t = unat (snd (tf_low t)) + 2 ^ 8 * unat (snd (tf_mid t)) + 2 ^ 16 * unat (snd (tf_high t)) +
     2 ^ 24 * unat (fst (tf_low t)) + 2 ^ 32 * unat (fst (tf_mid t)) + 2 ^ 40 * unat (fst (tf_high t))"

definition regs_count :: "task_file \<Rightarrow> nat" where
  "regs_count t =
     (let n = 2 ^ 8 * unat (fst (tf_count t)) + unat (snd (tf_count t)) in if n = 0 then 2 ^ 16 else n)"

definition ATA_DATA :: nat where "ATA_DATA = 0x1F0"
definition ATA_ALT_STATUS :: nat where "ATA_ALT_STATUS = 0x3F6"
definition ATA_SECTOR_COUNT :: nat where "ATA_SECTOR_COUNT = 0x1F2"
definition ATA_LBA_LOW :: nat where "ATA_LBA_LOW = 0x1F3"
definition ATA_LBA_MID :: nat where "ATA_LBA_MID = 0x1F4"
definition ATA_LBA_HIGH :: nat where "ATA_LBA_HIGH = 0x1F5"
definition ATA_DRV_HEAD :: nat where "ATA_DRV_HEAD = 0x1F6"
definition ATA_COMMAND :: nat where "ATA_COMMAND = 0x1F7"

definition ATA_SR_ERR :: u8 where "ATA_SR_ERR = 0x01"
definition ATA_SR_DRQ :: u8 where "ATA_SR_DRQ = 0x08"
definition ATA_SR_BSY :: u8 where "ATA_SR_BSY = 0x80"
definition ATA_CMD_READ_SECTORS_EXT :: u8 where "ATA_CMD_READ_SECTORS_EXT = 0x24"
definition ATA_CMD_WRITE_SECTORS_EXT :: u8 where "ATA_CMD_WRITE_SECTORS_EXT = 0x34"
definition ATA_CMD_FLUSH_CACHE_EXT :: u8 where "ATA_CMD_FLUSH_CACHE_EXT = 0xEA"
definition ATA_DEVICE_MASTER_LBA48 :: u8 where "ATA_DEVICE_MASTER_LBA48 = 0x40"
definition ATA_MAX_LBA48 :: u64 where "ATA_MAX_LBA48 = 0x0000FFFFFFFFFFFF"
definition ATA_TIMEOUT :: u32 where "ATA_TIMEOUT = 1000000"
definition ATA_MAX_SECTORS_PER_CMD :: u32 where "ATA_MAX_SECTORS_PER_CMD = 256"

lemmas ata_ports = ATA_DATA_def ATA_ALT_STATUS_def ATA_SECTOR_COUNT_def ATA_LBA_LOW_def
  ATA_LBA_MID_def ATA_LBA_HIGH_def ATA_DRV_HEAD_def ATA_COMMAND_def

lemmas ata_bits = ATA_SR_ERR_def ATA_SR_DRQ_def ATA_SR_BSY_def ATA_CMD_READ_SECTORS_EXT_def
  ATA_CMD_WRITE_SECTORS_EXT_def ATA_CMD_FLUSH_CACHE_EXT_def

definition status_read :: "ata \<Rightarrow> u8 \<times> ata" where
  "status_read d =
     (let d' = d\<lparr>ata_time := Suc (ata_time d)\<rparr> in
      case ata_outcomes d (ata_time d) of
        Busy \<Rightarrow> (ATA_SR_BSY, d')
      | Ready \<Rightarrow> (if ata_phase d = Idle then 0 else ATA_SR_DRQ, d')
      | Fault \<Rightarrow> (ATA_SR_ERR, d'\<lparr>ata_phase := Idle\<rparr>))"

definition command_write :: "u8 \<Rightarrow> ata \<Rightarrow> ata" where
  "command_write cmd d =
     d\<lparr>ata_phase :=
       (if cmd = ATA_CMD_READ_SECTORS_EXT then Reading (regs_lba (ata_regs d)) (regs_count (ata_regs d)) 0
        else if cmd = ATA_CMD_WRITE_SECTORS_EXT then Writing (regs_lba (ata_regs d)) (regs_count (ata_regs d)) 0
        else Idle)\<rparr>"

definition inb :: "nat \<Rightarrow> ata \<Rightarrow> u8 \<times> ata" where
  "inb port d = (if port = ATA_COMMAND then status_read d else (0, d))"

definition outb :: "nat \<Rightarrow> u8 \<Rightarrow> ata \<Rightarrow> ata" where
  "outb port v d =
     (let t = ata_regs d in
      if port = ATA_COMMAND then command_write v d
      else if port = ATA_ALT_STATUS then if v = 0x04 then d\<lparr>ata_phase := Idle\<rparr> else d
      else if port = ATA_SECTOR_COUNT then d\<lparr>ata_regs := t\<lparr>tf_count := (snd (tf_count t), v)\<rparr>\<rparr>
      else if port = ATA_LBA_LOW then d\<lparr>ata_regs := t\<lparr>tf_low := (snd (tf_low t), v)\<rparr>\<rparr>
      else if port = ATA_LBA_MID then d\<lparr>ata_regs := t\<lparr>tf_mid := (snd (tf_mid t), v)\<rparr>\<rparr>
      else if port = ATA_LBA_HIGH then d\<lparr>ata_regs := t\<lparr>tf_high := (snd (tf_high t), v)\<rparr>\<rparr>
      else d)"

text \<open>Moving one word; after the last word of a sector the next sector's phase begins.\<close>

definition inw :: "nat \<Rightarrow> ata \<Rightarrow> u16 \<times> ata" where
  "inw port d =
     (case ata_phase d of
        Reading lba left j \<Rightarrow>
          (ata_sectors d lba j,
           d\<lparr>ata_phase := (if Suc j < 256 then Reading lba left (Suc j)
                           else if Suc 0 < left then Reading (Suc lba) (left - 1) 0 else Idle)\<rparr>)
      | _ \<Rightarrow> (0, d))"

definition outw :: "nat \<Rightarrow> u16 \<Rightarrow> ata \<Rightarrow> ata" where
  "outw port v d =
     (case ata_phase d of
        Writing lba left j \<Rightarrow>
          (let p = (ata_pending d)(j := v) in
           if Suc j < 256 then d\<lparr>ata_pending := p, ata_phase := Writing lba left (Suc j)\<rparr>
           else d\<lparr>ata_pending := p, ata_sectors := (ata_sectors d)(lba := p),
                  ata_phase := (if Suc 0 < left then Writing (Suc lba) (left - 1) 0 else Idle)\<rparr>)
      | _ \<Rightarrow> d)"

section \<open>The driver\<close>

definition ata_io_wait :: "ata \<Rightarrow> ata" where
  "ata_io_wait d =
     snd (inb ATA_ALT_STATUS (snd (inb ATA_ALT_STATUS (snd (inb ATA_ALT_STATUS (snd (inb ATA_ALT_STATUS d)))))))"

definition ata_soft_reset :: "ata \<Rightarrow> ata" where
  "ata_soft_reset d = ata_io_wait (outb ATA_ALT_STATUS 0x00 (ata_io_wait (outb ATA_ALT_STATUS 0x04 d)))"

lemma timeout_step: "i < ATA_TIMEOUT \<Longrightarrow> unat ATA_TIMEOUT - unat (i + 1) < unat ATA_TIMEOUT - unat i"
proof -
  assume "i < ATA_TIMEOUT"
  then have "unat i < 1000000" by (simp add: ATA_TIMEOUT_def word_less_nat_alt)
  moreover from this have "unat (i + 1) = unat i + 1" by (simp add: unat_word_ariths)
  ultimately show ?thesis by (simp add: ATA_TIMEOUT_def)
qed

function wait_busy_from :: "u32 \<Rightarrow> ata \<Rightarrow> int \<times> ata" where
  "wait_busy_from i d =
     (if i < ATA_TIMEOUT then
        case inb ATA_COMMAND d of (status, d') \<Rightarrow>
          if status AND ATA_SR_BSY = 0 then (if status AND ATA_SR_ERR \<noteq> 0 then -1 else 0, d')
          else wait_busy_from (i + 1) d'
      else (-1, d))"
  by pat_completeness auto
termination
  by (relation "measure (\<lambda>(i, d). unat ATA_TIMEOUT - unat i)") (simp_all add: timeout_step)

definition ata_wait_busy :: "ata \<Rightarrow> int \<times> ata" where
  "ata_wait_busy d = wait_busy_from 0 d"

function wait_drq_from :: "u32 \<Rightarrow> ata \<Rightarrow> int \<times> ata" where
  "wait_drq_from i d =
     (if i < ATA_TIMEOUT then
        case inb ATA_COMMAND d of (status, d') \<Rightarrow>
          if status AND ATA_SR_ERR \<noteq> 0 then (-1, d')
          else if status AND ATA_SR_DRQ \<noteq> 0 then (0, d')
          else wait_drq_from (i + 1) d'
      else (-1, d))"
  by pat_completeness auto
termination
  by (relation "measure (\<lambda>(i, d). unat ATA_TIMEOUT - unat i)") (simp_all add: timeout_step)

definition ata_wait_drq :: "ata \<Rightarrow> int \<times> ata" where
  "ata_wait_drq d = wait_drq_from 0 d"

declare wait_busy_from.simps [simp del] wait_drq_from.simps [simp del]

definition ata_select_lba48 :: "ata \<Rightarrow> int \<times> ata" where
  "ata_select_lba48 d = ata_wait_busy (ata_io_wait (outb ATA_DRV_HEAD ATA_DEVICE_MASTER_LBA48 d))"

definition ata_program_lba48 :: "u64 \<Rightarrow> u32 \<Rightarrow> ata \<Rightarrow> ata" where
  "ata_program_lba48 lba sector_count d =
     (let d1 = outb ATA_SECTOR_COUNT (ucast (drop_bit 8 sector_count AND 0xFF)) d;
          d2 = outb ATA_LBA_LOW (ucast (drop_bit 24 lba AND 0xFF)) d1;
          d3 = outb ATA_LBA_MID (ucast (drop_bit 32 lba AND 0xFF)) d2;
          d4 = outb ATA_LBA_HIGH (ucast (drop_bit 40 lba AND 0xFF)) d3;
          d5 = outb ATA_SECTOR_COUNT (if sector_count = 256 then 0 else ucast sector_count) d4;
          d6 = outb ATA_LBA_LOW (ucast (lba AND 0xFF)) d5;
          d7 = outb ATA_LBA_MID (ucast (drop_bit 8 lba AND 0xFF)) d6
      in outb ATA_LBA_HIGH (ucast (drop_bit 16 lba AND 0xFF)) d7)"

text \<open>The driver's only variable is \<^verbatim>\<open>disk_ready\<close>.\<close>

definition disk_init :: "bool \<Rightarrow> bool" where
  "disk_init disk_ready = True"

text \<open>\<^verbatim>\<open>*ptr++ = inw(ATA_DATA)\<close> and \<^verbatim>\<open>outw(ATA_DATA, *ptr++)\<close>, 256 times; words are little endian.\<close>

definition put16 :: "nat \<Rightarrow> u16 \<Rightarrow> memory \<Rightarrow> memory" where
  "put16 k v buf = buf(2 * k := ucast v, 2 * k + 1 := ucast (drop_bit 8 v))"

definition get16 :: "nat \<Rightarrow> memory \<Rightarrow> u16" where
  "get16 k buf = ucast (buf (2 * k)) OR push_bit 8 (ucast (buf (2 * k + 1)))"

definition read_word :: "nat \<Rightarrow> memory \<times> ata \<Rightarrow> memory \<times> ata" where
  "read_word k = (\<lambda>(buf, d). case inw ATA_DATA d of (v, d') \<Rightarrow> (put16 k v buf, d'))"

definition write_word :: "memory \<Rightarrow> nat \<Rightarrow> ata \<Rightarrow> ata" where
  "write_word buf k d = outw ATA_DATA (get16 k buf) d"

text \<open>One round of the sector loops; \<open>Return\<close> stands for the jump to \<^verbatim>\<open>fail\<close>.\<close>

definition read_sector :: "nat \<Rightarrow> memory \<times> ata \<Rightarrow> loop_ctl \<times> memory \<times> ata" where
  "read_sector i = (\<lambda>(buf, d).
     case ata_wait_busy d of (r, d1) \<Rightarrow>
       if r \<noteq> 0 then (Return, buf, d1)
       else case ata_wait_drq d1 of (r, d2) \<Rightarrow>
         if r \<noteq> 0 then (Return, buf, d2)
         else (Continue, fold (\<lambda>j. read_word (256 * i + j)) [0..<256] (buf, d2)))"

definition write_sector :: "memory \<Rightarrow> nat \<Rightarrow> ata \<Rightarrow> loop_ctl \<times> ata" where
  "write_sector buf i d =
     (case ata_wait_busy d of (r, d1) \<Rightarrow>
       if r \<noteq> 0 then (Return, d1)
       else case ata_wait_drq d1 of (r, d2) \<Rightarrow>
         if r \<noteq> 0 then (Return, d2)
         else (Continue, fold (\<lambda>j. write_word buf (256 * i + j)) [0..<256] d2))"

definition transfer_refused :: "bool \<Rightarrow> bool \<Rightarrow> u64 \<Rightarrow> u32 \<Rightarrow> bool" where
  "transfer_refused disk_ready buffer_null lba sector_count \<longleftrightarrow>
     \<not> disk_ready \<or> buffer_null \<or> sector_count = 0 \<or> sector_count > ATA_MAX_SECTORS_PER_CMD \<or>
     lba > ATA_MAX_LBA48 \<or> ucast (sector_count - 1) > ATA_MAX_LBA48 - lba"

definition disk_read_sector_once ::
    "bool \<Rightarrow> bool \<Rightarrow> u64 \<Rightarrow> u32 \<Rightarrow> memory \<Rightarrow> ata \<Rightarrow> int \<times> memory \<times> ata" where
  "disk_read_sector_once disk_ready buffer_null lba sector_count buf d =
     (if transfer_refused disk_ready buffer_null lba sector_count then (-1, buf, d)
      else case ata_select_lba48 d of (r, d1) \<Rightarrow>
        if r \<noteq> 0 then (-1, buf, ata_soft_reset d1)
        else let d2 = ata_program_lba48 lba sector_count d1;
                 d3 = ata_io_wait (outb ATA_COMMAND ATA_CMD_READ_SECTORS_EXT d2)
             in case for_loop read_sector [0..<unat sector_count] (buf, d3) of
                  (Continue, buf', d4) \<Rightarrow> (0, buf', d4)
                | (_, buf', d4) \<Rightarrow> (-1, buf', ata_soft_reset d4))"

definition disk_write_sector_once ::
    "bool \<Rightarrow> bool \<Rightarrow> u64 \<Rightarrow> u32 \<Rightarrow> memory \<Rightarrow> ata \<Rightarrow> int \<times> ata" where
  "disk_write_sector_once disk_ready buffer_null lba sector_count buf d =
     (if transfer_refused disk_ready buffer_null lba sector_count then (-1, d)
      else case ata_select_lba48 d of (r, d1) \<Rightarrow>
        if r \<noteq> 0 then (-1, ata_soft_reset d1)
        else let d2 = ata_program_lba48 lba sector_count d1;
                 d3 = ata_io_wait (outb ATA_COMMAND ATA_CMD_WRITE_SECTORS_EXT d2)
             in case for_loop (write_sector buf) [0..<unat sector_count] d3 of
                  (Continue, d4) \<Rightarrow>
                    (case ata_wait_busy (outb ATA_COMMAND ATA_CMD_FLUSH_CACHE_EXT d4) of (r, d5) \<Rightarrow>
                       if r \<noteq> 0 then (-1, ata_soft_reset d5) else (0, d5))
                | (_, d4) \<Rightarrow> (-1, ata_soft_reset d4))"

fun read_retry :: "nat \<Rightarrow> bool \<Rightarrow> bool \<Rightarrow> u64 \<Rightarrow> u32 \<Rightarrow> memory \<Rightarrow> ata \<Rightarrow> int \<times> memory \<times> ata" where
  "read_retry 0 disk_ready buffer_null lba sector_count buf d = (-1, buf, d)"
| "read_retry (Suc n) disk_ready buffer_null lba sector_count buf d =
     (case disk_read_sector_once disk_ready buffer_null lba sector_count buf d of (r, buf', d') \<Rightarrow>
        if r = 0 then (0, buf', d') else read_retry n disk_ready buffer_null lba sector_count buf' d')"

definition disk_read_sector_checked ::
    "bool \<Rightarrow> bool \<Rightarrow> u64 \<Rightarrow> u32 \<Rightarrow> memory \<Rightarrow> ata \<Rightarrow> int \<times> memory \<times> ata" where
  "disk_read_sector_checked = read_retry 3"

fun write_retry :: "nat \<Rightarrow> bool \<Rightarrow> bool \<Rightarrow> u64 \<Rightarrow> u32 \<Rightarrow> memory \<Rightarrow> ata \<Rightarrow> int \<times> ata" where
  "write_retry 0 disk_ready buffer_null lba sector_count buf d = (-1, d)"
| "write_retry (Suc n) disk_ready buffer_null lba sector_count buf d =
     (case disk_write_sector_once disk_ready buffer_null lba sector_count buf d of (r, d') \<Rightarrow>
        if r = 0 then (0, d') else write_retry n disk_ready buffer_null lba sector_count buf d')"

definition disk_write_sector_checked ::
    "bool \<Rightarrow> bool \<Rightarrow> u64 \<Rightarrow> u32 \<Rightarrow> memory \<Rightarrow> ata \<Rightarrow> int \<times> ata" where
  "disk_write_sector_checked = write_retry 3"

definition disk_read_sector :: "bool \<Rightarrow> bool \<Rightarrow> u64 \<Rightarrow> u32 \<Rightarrow> memory \<Rightarrow> ata \<Rightarrow> memory \<times> ata" where
  "disk_read_sector disk_ready buffer_null lba sector_count buf d =
     snd (disk_read_sector_checked disk_ready buffer_null lba sector_count buf d)"

definition disk_write_sector :: "bool \<Rightarrow> bool \<Rightarrow> u64 \<Rightarrow> u32 \<Rightarrow> memory \<Rightarrow> ata \<Rightarrow> ata" where
  "disk_write_sector disk_ready buffer_null lba sector_count buf d =
     snd (disk_write_sector_checked disk_ready buffer_null lba sector_count buf d)"

end
