(* ===== verification/Disk_Safety.thy ===== *)
theory Disk_Safety
  imports Disk
begin

text \<open>
  What the driver promises, for every timing and every pattern of errors of the controller: a
  successful read delivers the addressed sectors, a successful write stores them, neither
  touches any other sector or any byte behind the buffer, and a failed transfer can only have
  changed the sectors it was asked to write.
\<close>

section \<open>Bytes of a sector\<close>

definition sector_byte :: "(nat \<Rightarrow> u16) \<Rightarrow> nat \<Rightarrow> u8" where
  "sector_byte w b = (if even b then ucast (w (b div 2)) else ucast (drop_bit 8 (w (b div 2))))"

lemma get16_bytes: "ucast (get16 k buf) = buf (2 * k)" "ucast (drop_bit 8 (get16 k buf)) = buf (2 * k + 1)"
  by (rule bit_eqI; auto simp: get16_def bit_simps dest: bit_imp_le_length)+

lemma sector_byte_cong: "(\<And>j. j < 256 \<Longrightarrow> w j = w' j) \<Longrightarrow> b < 512 \<Longrightarrow> sector_byte w b = sector_byte w' b"
  by (simp add: sector_byte_def less_mult_imp_div_less)

lemma sector_byte_get16: "b < 512 \<Longrightarrow> sector_byte (\<lambda>j. get16 (256 * i + j) buf) b = buf (512 * i + b)"
proof -
  assume "b < 512"
  obtain k where "b = 2 * k \<or> b = 2 * k + 1" by (metis evenE oddE)
  then show ?thesis by (auto simp: sector_byte_def get16_bytes algebra_simps)
qed

section \<open>Waiting\<close>

text \<open>An operation that moves no data: only the phase and the time may change.\<close>

definition quiet :: "ata \<Rightarrow> ata \<Rightarrow> bool" where
  "quiet d d' \<longleftrightarrow> ata_sectors d' = ata_sectors d \<and> ata_regs d' = ata_regs d"

lemma quiet_refl [simp]: "quiet d d"
  by (simp add: quiet_def)

lemma quiet_trans: "quiet d e \<Longrightarrow> quiet e f \<Longrightarrow> quiet d f"
  by (simp add: quiet_def)

lemma io_wait_id [simp]: "ata_io_wait d = d"
  by (simp add: ata_io_wait_def inb_def ata_ports)

lemma soft_reset_quiet: "quiet d (ata_soft_reset d)"
  by (simp add: ata_soft_reset_def outb_def ata_ports quiet_def Let_def)

lemma status_cases:
  obtains (busy) d' where "inb ATA_COMMAND d = (ATA_SR_BSY, d')" "quiet d d'" "ata_phase d' = ata_phase d"
  | (idle) d' where "inb ATA_COMMAND d = (0, d')" "quiet d d'" "ata_phase d' = ata_phase d" "ata_phase d = Idle"
  | (data) d' where "inb ATA_COMMAND d = (ATA_SR_DRQ, d')" "quiet d d'" "ata_phase d' = ata_phase d" "ata_phase d \<noteq> Idle"
  | (fault) d' where "inb ATA_COMMAND d = (ATA_SR_ERR, d')" "quiet d d'"
  by (cases "ata_outcomes d (ata_time d)"; cases "ata_phase d = Idle")
    (auto simp: inb_def status_read_def Let_def quiet_def)

lemma wait_busy_effect:
  "wait_busy_from i d = (r, d') \<Longrightarrow> quiet d d' \<and> (r = 0 \<longrightarrow> ata_phase d' = ata_phase d) \<and> r \<in> {0, -1}"
proof (induction i d arbitrary: r d' rule: wait_busy_from.induct)
  case (1 i d)
  show ?case
  proof (cases "i < ATA_TIMEOUT")
    case False
    then show ?thesis using 1(2) by (simp add: wait_busy_from.simps)
  next
    case True
    show ?thesis
    proof (cases d rule: status_cases)
      case (busy e)
      then have "wait_busy_from (i + 1) e = (r, d')"
        using 1(2) True by (subst (asm) wait_busy_from.simps) (simp add: ata_bits)
      from 1(1) [OF True busy(1) [symmetric] _ this] busy show ?thesis
        by (auto simp: ata_bits intro: quiet_trans)
    qed (use 1(2) True in \<open>auto simp: wait_busy_from.simps [of i] ata_bits\<close>)
  qed
qed

lemma wait_drq_effect:
  "wait_drq_from i d = (r, d') \<Longrightarrow> quiet d d' \<and>
   (r = 0 \<longrightarrow> ata_phase d' = ata_phase d \<and> ata_phase d \<noteq> Idle) \<and> r \<in> {0, -1}"
proof (induction i d arbitrary: r d' rule: wait_drq_from.induct)
  case (1 i d)
  show ?case
  proof (cases "i < ATA_TIMEOUT")
    case False
    then show ?thesis using 1(2) by (simp add: wait_drq_from.simps)
  next
    case True
    show ?thesis
    proof (cases d rule: status_cases)
      case (busy e)
      then have "wait_drq_from (i + 1) e = (r, d')"
        using 1(2) True by (subst (asm) wait_drq_from.simps) (simp add: ata_bits)
      from 1(1) [OF True busy(1) [symmetric] _ _ this] busy show ?thesis
        by (auto simp: ata_bits intro: quiet_trans)
    next
      case (idle e)
      then have "wait_drq_from (i + 1) e = (r, d')"
        using 1(2) True by (subst (asm) wait_drq_from.simps) (simp add: ata_bits)
      from 1(1) [OF True idle(1) [symmetric] _ _ this] idle show ?thesis
        by (auto simp: ata_bits intro: quiet_trans)
    qed (use 1(2) True in \<open>auto simp: wait_drq_from.simps [of i] ata_bits\<close>)
  qed
qed

section \<open>Programming the task file\<close>

lemma unat_ucast_u8: "unat (ucast (y :: 'a::len word) :: u8) = unat y mod 256"
  by (simp add: unsigned_ucast_eq unsigned_take_bit_eq take_bit_eq_mod)

lemma unat_low_byte:
  "unat (ucast (drop_bit k (x :: 'a::len word) AND 0xFF) :: u8) = unat x div 2 ^ k mod 256"
proof -
  have "(ucast (y AND 0xFF) :: u8) = ucast y" for y :: "'a word"
  proof -
    have "y AND 0xFF = take_bit 8 y" by (simp add: take_bit_eq_mask mask_eq_exp_minus_1)
    then show ?thesis by (simp only:) (rule bit_eqI, auto simp: bit_simps)
  qed
  moreover have "unat (drop_bit k x) = unat x div 2 ^ k"
    by (simp only: unat_drop_bit_eq) (simp only: drop_bit_eq_div)
  ultimately show ?thesis by (simp only: unat_ucast_u8)
qed

lemma base256:
  assumes "m0 + 256 * y1 = (x :: nat)" "m1 + 256 * y2 = y1" "m2 + 256 * y3 = y2" "m3 + 256 * y4 = y3"
    "m4 + 256 * y5 = y4" "m5 + 256 * 0 = y5"
  shows "m0 + 2 ^ 8 * m1 + 2 ^ 16 * m2 + 2 ^ 24 * m3 + 2 ^ 32 * m4 + 2 ^ 40 * m5 = x"
  unfolding assms [symmetric] by simp

lemma split_bytes:
  assumes "x < (2 :: nat) ^ 48"
  shows "x mod 256 + 2 ^ 8 * (x div 2 ^ 8 mod 256) + 2 ^ 16 * (x div 2 ^ 16 mod 256) +
    2 ^ 24 * (x div 2 ^ 24 mod 256) + 2 ^ 32 * (x div 2 ^ 32 mod 256) + 2 ^ 40 * (x div 2 ^ 40 mod 256) = x"
proof -
  have "x div 2 ^ 16 = x div 2 ^ 8 div 256" "x div 2 ^ 24 = x div 2 ^ 16 div 256"
    "x div 2 ^ 32 = x div 2 ^ 24 div 256" "x div 2 ^ 40 = x div 2 ^ 32 div 256" "x div 2 ^ 48 = x div 2 ^ 40 div 256"
    "x div 2 ^ 8 = x div 256"
    by (simp_all add: div_mult2_eq [symmetric])
  moreover have "x div 2 ^ 48 = 0" using assms by simp
  ultimately show ?thesis
    by (intro base256 [where ?y1.0 = "x div 2 ^ 8" and ?y2.0 = "x div 2 ^ 16" and ?y3.0 = "x div 2 ^ 24"
      and ?y4.0 = "x div 2 ^ 32" and ?y5.0 = "x div 2 ^ 40"]) (metis mod_mult_div_eq)+
qed

lemma program_effect:
  assumes "unat lba < 2 ^ 48" and "0 < unat n" and "unat n \<le> 256"
  shows "ata_sectors (ata_program_lba48 lba n d) = ata_sectors d"
    and "regs_lba (ata_regs (ata_program_lba48 lba n d)) = unat lba"
    and "regs_count (ata_regs (ata_program_lba48 lba n d)) = unat n"
proof -
  define t where "t = ata_regs (ata_program_lba48 lba n d)"
  have t: "tf_count t = (ucast (drop_bit 8 n AND 0xFF), if n = 256 then 0 else ucast n)"
    "tf_low t = (ucast (drop_bit 24 lba AND 0xFF), ucast (lba AND 0xFF))"
    "tf_mid t = (ucast (drop_bit 32 lba AND 0xFF), ucast (drop_bit 8 lba AND 0xFF))"
    "tf_high t = (ucast (drop_bit 40 lba AND 0xFF), ucast (drop_bit 16 lba AND 0xFF))"
    unfolding t_def by (simp_all add: ata_program_lba48_def Let_def outb_def ata_ports)
  show "ata_sectors (ata_program_lba48 lba n d) = ata_sectors d"
    by (simp add: ata_program_lba48_def Let_def outb_def ata_ports)
  have "lba AND 0xFF = drop_bit 0 lba AND 0xFF" by simp
  then have "regs_lba t = unat lba"
    using split_bytes [OF assms(1)] unfolding regs_lba_def t fst_conv snd_conv
    by (simp only: unat_low_byte) simp
  then show "regs_lba (ata_regs (ata_program_lba48 lba n d)) = unat lba" by (simp add: t_def)
  have "regs_count t = unat n"
  proof (cases "n = 256")
    case True
    then show ?thesis unfolding regs_count_def t fst_conv snd_conv by (simp only: unat_low_byte) simp
  next
    case False
    have "unat n \<noteq> 256"
    proof
      assume "unat n = 256"
      then have "unat n = unat (256 :: u32)" by simp
      then have "n = 256" by (rule unsigned_word_eqI)
      with False show False by simp
    qed
    with assms(3) have "unat n < 256" by simp
    then show ?thesis
      using False assms(2) unfolding regs_count_def t fst_conv snd_conv
      by (simp only: unat_low_byte) (simp only: unat_ucast_u8 if_False, simp)
  qed
  then show "regs_count (ata_regs (ata_program_lba48 lba n d)) = unat n" by (simp add: t_def)
qed

section \<open>Moving sectors\<close>

definition reading_at :: "nat \<Rightarrow> nat \<Rightarrow> nat \<Rightarrow> ata_phase" where
  "reading_at l k m = (if m < 256 then Reading l k m else if Suc 0 < k then Reading (Suc l) (k - 1) 0 else Idle)"

definition writing_at :: "nat \<Rightarrow> nat \<Rightarrow> nat \<Rightarrow> ata_phase" where
  "writing_at l k m = (if m < 256 then Writing l k m else if Suc 0 < k then Writing (Suc l) (k - 1) 0 else Idle)"

lemma read_words:
  assumes "ata_phase d = Reading l k 0" and "m \<le> 256"
  shows "fold (\<lambda>j. read_word (256 * i + j)) [0..<m] (buf, d) =
    (\<lambda>b. if 512 * i \<le> b \<and> b < 512 * i + 2 * m then sector_byte (ata_sectors d l) (b - 512 * i) else buf b,
     d\<lparr>ata_phase := reading_at l k m\<rparr>)"
  using assms(2)
proof (induction m)
  case 0
  then show ?case using assms(1) by (auto simp: reading_at_def fun_eq_iff)
next
  case (Suc m)
  have e: "512 * i \<le> b \<and> b < 512 * i + 2 * Suc m \<longleftrightarrow>
    512 * i \<le> b \<and> b < 512 * i + 2 * m \<or> b = 2 * (256 * i + m) \<or> b = 2 * (256 * i + m) + 1" for b by auto
  have "sector_byte w (2 * (256 * i + m) - 512 * i) = ucast (w m)"
    "sector_byte w (2 * (256 * i + m) + 1 - 512 * i) = ucast (drop_bit 8 (w m))" for w
    by (simp_all add: sector_byte_def)
  then show ?case using Suc
    unfolding e by (auto simp: read_word_def inw_def put16_def reading_at_def fun_eq_iff simp del: mult_Suc_right)
qed

lemma write_words:
  assumes "ata_phase d = Writing l k 0" and "m < 256"
  shows "fold (\<lambda>j. write_word buf (256 * i + j)) [0..<m] d =
    d\<lparr>ata_pending := (\<lambda>j. if j < m then get16 (256 * i + j) buf else ata_pending d j), ata_phase := Writing l k m\<rparr>"
  using assms(2)
proof (induction m)
  case 0
  then show ?case using assms(1) by simp
next
  case (Suc m)
  then show ?case by (auto simp: write_word_def outw_def Let_def fun_eq_iff intro!: arg_cong2 [where f = "\<lambda>p ph. d\<lparr>ata_pending := p, ata_phase := ph\<rparr>"])
qed

lemma write_all_words:
  assumes "ata_phase d = Writing l k 0"
  shows "ata_sectors (fold (\<lambda>j. write_word buf (256 * i + j)) [0..<256] d) =
      (ata_sectors d)(l := (\<lambda>j. if j < 256 then get16 (256 * i + j) buf else ata_pending d j))"
    and "ata_phase (fold (\<lambda>j. write_word buf (256 * i + j)) [0..<256] d) =
      (if Suc 0 < k then Writing (Suc l) (k - 1) 0 else Idle)"
    and "ata_outcomes (fold (\<lambda>j. write_word buf (256 * i + j)) [0..<256] d) = ata_outcomes d"
proof -
  have "[0..<256] = [0..<255] @ [255]" using upt_Suc_append [of 0 255] by simp
  then have f: "fold (\<lambda>j. write_word buf (256 * i + j)) [0..<256] d =
    write_word buf (256 * i + 255) (fold (\<lambda>j. write_word buf (256 * i + j)) [0..<255] d)" by simp
  show "ata_sectors (fold (\<lambda>j. write_word buf (256 * i + j)) [0..<256] d) =
      (ata_sectors d)(l := (\<lambda>j. if j < 256 then get16 (256 * i + j) buf else ata_pending d j))"
    unfolding f write_words [OF assms, of 255, simplified] by (auto simp: write_word_def outw_def Let_def fun_eq_iff)
  show "ata_phase (fold (\<lambda>j. write_word buf (256 * i + j)) [0..<256] d) =
      (if Suc 0 < k then Writing (Suc l) (k - 1) 0 else Idle)"
    unfolding f write_words [OF assms, of 255, simplified] by (simp add: write_word_def outw_def Let_def)
  show "ata_outcomes (fold (\<lambda>j. write_word buf (256 * i + j)) [0..<256] d) = ata_outcomes d"
    unfolding f write_words [OF assms, of 255, simplified] by (simp add: write_word_def outw_def Let_def)
qed

section \<open>The sector loops\<close>

text \<open>Byte \<open>a\<close> of the disk, sector after sector.\<close>

definition disk_byte :: "ata \<Rightarrow> nat \<Rightarrow> u8" where
  "disk_byte d a = sector_byte (ata_sectors d (a div 512)) (a mod 512)"

lemma disk_byte_cong: "ata_sectors d = ata_sectors e \<Longrightarrow> disk_byte d = disk_byte e"
  by (rule ext) (simp add: disk_byte_def)

lemma disk_byte_at: "b < 512 \<Longrightarrow> disk_byte d (512 * s + b) = sector_byte (ata_sectors d s) b"
  by (simp add: disk_byte_def)

definition read_so_far :: "nat \<Rightarrow> nat \<Rightarrow> memory \<Rightarrow> ata \<Rightarrow> nat \<Rightarrow> memory \<times> ata \<Rightarrow> bool" where
  "read_so_far l n buf d i = (\<lambda>(buf', d').
     ata_sectors d' = ata_sectors d \<and> (i < n \<longrightarrow> ata_phase d' = Reading (l + i) (n - i) 0) \<and>
     (\<forall>b. buf' b = (if b < 512 * i then disk_byte d (512 * l + b) else buf b)))"

definition read_harmless :: "nat \<Rightarrow> memory \<Rightarrow> ata \<Rightarrow> memory \<times> ata \<Rightarrow> bool" where
  "read_harmless n buf d = (\<lambda>(buf', d').
     ata_sectors d' = ata_sectors d \<and> (\<forall>b. 512 * n \<le> b \<longrightarrow> buf' b = buf b))"

lemma read_sector_round:
  assumes "read_so_far l n buf d i s" and "i < n" and "read_sector i s = (c, s')"
  shows "case c of Continue \<Rightarrow> read_so_far l n buf d (Suc i) s' | Break \<Rightarrow> False | Return \<Rightarrow> read_harmless n buf d s'"
proof -
  obtain b1 d1 where s: "s = (b1, d1)" by (cases s)
  have inv: "ata_sectors d1 = ata_sectors d" "ata_phase d1 = Reading (l + i) (n - i) 0"
    "\<And>b. b1 b = (if b < 512 * i then disk_byte d (512 * l + b) else buf b)"
    using assms(1,2) by (auto simp: s read_so_far_def)
  obtain r2 d2 where w: "ata_wait_busy d1 = (r2, d2)" by (cases "ata_wait_busy d1")
  obtain r3 d3 where q: "ata_wait_drq d2 = (r3, d3)" by (cases "ata_wait_drq d2")
  note e2 = wait_busy_effect [OF w [unfolded ata_wait_busy_def]]
  note e3 = wait_drq_effect [OF q [unfolded ata_wait_drq_def]]
  have sec: "ata_sectors d2 = ata_sectors d" "ata_sectors d3 = ata_sectors d"
    using e2 e3 inv(1) by (auto simp: quiet_def)
  have stop: "read_harmless n buf d (b1, d2)" "read_harmless n buf d (b1, d3)"
    using sec inv(3) assms(2) by (auto simp: read_harmless_def)
  show ?thesis
  proof (cases "r2 = 0 \<and> r3 = 0")
    case False
    then have "c = Return" "s' = (b1, d2) \<or> s' = (b1, d3)"
      using assms(3) by (auto simp: read_sector_def s w q split: if_splits)
    with stop show ?thesis by auto
  next
    case True
    have ph: "ata_phase d3 = Reading (l + i) (n - i) 0" using True e2 e3 inv(2) by auto
    have "512 * i \<le> b \<Longrightarrow> b < 512 * i + 512 \<Longrightarrow>
      sector_byte (ata_sectors d (l + i)) (b - 512 * i) = disk_byte d (512 * l + b)" for b
      using disk_byte_at [of "b - 512 * i" d "l + i"] by (simp add: algebra_simps)
    then show ?thesis
      using assms(2,3) True read_words [OF ph order_refl, of i b1] sec inv(3)
      by (auto simp: read_sector_def s w q read_so_far_def reading_at_def)
  qed
qed

definition write_so_far :: "nat \<Rightarrow> nat \<Rightarrow> memory \<Rightarrow> ata \<Rightarrow> nat \<Rightarrow> ata \<Rightarrow> bool" where
  "write_so_far l n buf d i d' \<longleftrightarrow>
     (i < n \<longrightarrow> ata_phase d' = Writing (l + i) (n - i) 0) \<and>
     (\<forall>a. disk_byte d' a = (if 512 * l \<le> a \<and> a < 512 * (l + i) then buf (a - 512 * l) else disk_byte d a))"

text \<open>An interrupted write: every sector of the range is old or new, all others are untouched.\<close>

definition write_partial :: "nat \<Rightarrow> nat \<Rightarrow> memory \<Rightarrow> ata \<Rightarrow> ata \<Rightarrow> bool" where
  "write_partial l n buf d d' \<longleftrightarrow>
     (\<forall>s. (\<forall>b < 512. disk_byte d' (512 * s + b) = disk_byte d (512 * s + b)) \<or>
          l \<le> s \<and> s < l + n \<and> (\<forall>b < 512. disk_byte d' (512 * s + b) = buf (512 * (s - l) + b)))"

lemma write_so_far_partial:
  assumes "write_so_far l n buf d i d'" and "i \<le> n"
  shows "write_partial l n buf d d'"
  unfolding write_partial_def
proof
  fix s
  have w: "disk_byte d' a = (if 512 * l \<le> a \<and> a < 512 * (l + i) then buf (a - 512 * l) else disk_byte d a)" for a
    using assms(1) by (simp add: write_so_far_def)
  show "(\<forall>b < 512. disk_byte d' (512 * s + b) = disk_byte d (512 * s + b)) \<or>
          l \<le> s \<and> s < l + n \<and> (\<forall>b < 512. disk_byte d' (512 * s + b) = buf (512 * (s - l) + b))"
  proof (cases "l \<le> s \<and> s < l + i")
    case True
    then have "512 * s + b - 512 * l = 512 * (s - l) + b" for b by (simp add: diff_mult_distrib2)
    then show ?thesis using True assms(2) by (auto simp: w)
  next
    case False
    then have "\<not> (512 * l \<le> 512 * s + b \<and> 512 * s + b < 512 * (l + i))" if "b < 512" for b using that by auto
    then have "\<forall>b < 512. disk_byte d' (512 * s + b) = disk_byte d (512 * s + b)" by (auto simp: w)
    then show ?thesis by blast
  qed
qed

lemma write_sector_round:
  assumes "write_so_far l n buf d i s" and "i < n" and "write_sector buf i s = (c, s')"
  shows "case c of Continue \<Rightarrow> write_so_far l n buf d (Suc i) s' | Break \<Rightarrow> False | Return \<Rightarrow> write_partial l n buf d s'"
proof -
  obtain r2 d2 where w: "ata_wait_busy s = (r2, d2)" by (cases "ata_wait_busy s")
  obtain r3 d3 where q: "ata_wait_drq d2 = (r3, d3)" by (cases "ata_wait_drq d2")
  note e2 = wait_busy_effect [OF w [unfolded ata_wait_busy_def]]
  note e3 = wait_drq_effect [OF q [unfolded ata_wait_drq_def]]
  have sec: "disk_byte d2 = disk_byte s" "disk_byte d3 = disk_byte s"
    using e2 e3 by (auto simp: quiet_def intro: disk_byte_cong)
  have stop: "write_partial l n buf d d2" "write_partial l n buf d d3"
    using write_so_far_partial [OF assms(1)] assms(2) sec by (simp_all add: write_partial_def)
  show ?thesis
  proof (cases "r2 = 0 \<and> r3 = 0")
    case False
    then have "c = Return" "s' = d2 \<or> s' = d3"
      using assms(3) by (auto simp: write_sector_def w q split: if_splits)
    with stop show ?thesis by auto
  next
    case True
    have ph: "ata_phase d3 = Writing (l + i) (n - i) 0"
      using True e2 e3 assms(1,2) by (auto simp: write_so_far_def)
    have s': "c = Continue" "s' = fold (\<lambda>j. write_word buf (256 * i + j)) [0..<256] d3"
      using True assms(3) by (auto simp: write_sector_def w q)
    have "disk_byte s' a = (if 512 * (l + i) \<le> a \<and> a < 512 * (l + Suc i) then buf (a - 512 * l) else disk_byte s a)" for a
    proof -
      have in_sector: "512 * (l + i) \<le> a \<and> a < 512 * (l + Suc i) \<longleftrightarrow> a div 512 = l + i" by auto
      have new: "sector_byte (\<lambda>j. if j < 256 then get16 (256 * i + j) buf else p j) (a mod 512) = buf (512 * i + a mod 512)" for p
        using sector_byte_get16 [of "a mod 512" i buf]
        by (subst sector_byte_cong [where w' = "\<lambda>j. get16 (256 * i + j) buf"]) simp_all
      show ?thesis
      proof (cases "a div 512 = l + i")
        case True
        have "512 * i + a mod 512 = a - 512 * l" using True mult_div_mod_eq [of 512 a] by simp
        then show ?thesis using True unfolding in_sector
          by (simp add: disk_byte_def s'(2) write_all_words(1) [OF ph] new)
      next
        case False
        then show ?thesis unfolding in_sector
          using fun_cong [OF sec(2), of a] by (simp add: disk_byte_def s'(2) write_all_words(1) [OF ph])
      qed
    qed
    then have "write_so_far l n buf d (Suc i) s'"
      using assms(1,2) write_all_words(2) [OF ph, of buf i] by (auto simp: write_so_far_def s'(2))
    then show ?thesis using s'(1) by simp
  qed
qed

section \<open>Whole transfers\<close>

lemma unat_count: "n \<noteq> 0 \<Longrightarrow> unat (ucast ((n :: u32) - 1) :: u64) = unat n - 1"
  using unsigned_less [of n, where 'a = nat]
  by (simp add: unsigned_ucast_eq unat_minus_one take_bit_nat_eq_self_iff)

lemma refused_False:
  assumes "\<not> transfer_refused ready null lba n"
  shows "unat lba < 2 ^ 48" "0 < unat n" "unat n \<le> 256" "unat lba + unat n \<le> 2 ^ 48"
proof -
  have m: "unat ATA_MAX_LBA48 = 2 ^ 48 - 1" by (simp add: ATA_MAX_LBA48_def)
  have a: "lba \<le> ATA_MAX_LBA48" "n \<noteq> 0" "n \<le> ATA_MAX_SECTORS_PER_CMD"
    "ucast (n - 1) \<le> ATA_MAX_LBA48 - lba"
    using assms by (auto simp: transfer_refused_def)
  show n: "0 < unat n" "unat n \<le> 256"
    using a(2,3) by (simp_all add: word_le_nat_alt ATA_MAX_SECTORS_PER_CMD_def unat_gt_0)
  show l: "unat lba < 2 ^ 48" using a(1) m by (simp add: word_le_nat_alt)
  have "unat (ucast (n - 1) :: u64) = unat n - 1" using a(2) by (rule unat_count)
  moreover have "unat (ATA_MAX_LBA48 - lba) = 2 ^ 48 - 1 - unat lba"
    using a(1) m by (simp only: unat_sub)
  ultimately show "unat lba + unat n \<le> 2 ^ 48" using a(4) n l by (simp add: word_le_nat_alt)
qed

lemma select_effect:
  assumes "ata_select_lba48 d = (r, d')"
  shows "ata_sectors d' = ata_sectors d" "r \<in> {0, -1}"
  using wait_busy_effect [OF assms [unfolded ata_select_lba48_def ata_wait_busy_def]]
  by (auto simp: quiet_def outb_def ata_ports Let_def)

lemma reset_sectors [simp]: "ata_sectors (ata_soft_reset d) = ata_sectors d"
  using soft_reset_quiet [of d] by (simp add: quiet_def)

lemma command_effect [simp]:
  "ata_sectors (outb ATA_COMMAND c d) = ata_sectors d"
  "ata_phase (outb ATA_COMMAND ATA_CMD_READ_SECTORS_EXT d) = Reading (regs_lba (ata_regs d)) (regs_count (ata_regs d)) 0"
  "ata_phase (outb ATA_COMMAND ATA_CMD_WRITE_SECTORS_EXT d) = Writing (regs_lba (ata_regs d)) (regs_count (ata_regs d)) 0"
  by (simp_all add: outb_def command_write_def Let_def ata_bits)

lemma read_once_effect:
  assumes "disk_read_sector_once ready null lba n buf d = (r, buf', d')"
  shows "r = 0 \<and> read_so_far (unat lba) (unat n) buf d (unat n) (buf', d') \<or>
    r = -1 \<and> read_harmless (unat n) buf d (buf', d')"
proof (cases "transfer_refused ready null lba n")
  case True
  then show ?thesis using assms by (auto simp: disk_read_sector_once_def read_harmless_def)
next
  case False
  note g = refused_False [OF False]
  obtain r1 d1 where sel: "ata_select_lba48 d = (r1, d1)" by (cases "ata_select_lba48 d")
  define d3 where "d3 = outb ATA_COMMAND ATA_CMD_READ_SECTORS_EXT (ata_program_lba48 lba n d1)"
  obtain c s where loop: "for_loop read_sector [0..<unat n] (buf, d3) = (c, s)"
    by (cases "for_loop read_sector [0..<unat n] (buf, d3)")
  have "read_so_far (unat lba) (unat n) buf d 0 (buf, d3)"
    by (simp add: read_so_far_def d3_def program_effect [OF g(1-3)] select_effect [OF sel])
  from for_loop_upt [where P = "read_so_far (unat lba) (unat n) buf d" and B = "\<lambda>_. False", OF this le0
      read_sector_round loop]
  have "case c of Continue \<Rightarrow> read_so_far (unat lba) (unat n) buf d (unat n) s | Break \<Rightarrow> False
    | Return \<Rightarrow> read_harmless (unat n) buf d s" .
  moreover have "(r, buf', d') = (if r1 \<noteq> 0 then (-1, buf, ata_soft_reset d1) else
      case (c, s) of (Continue, b, e) \<Rightarrow> (0, b, e) | (_, b, e) \<Rightarrow> (-1, b, ata_soft_reset e))"
    using assms False sel loop by (cases "r1 = 0"; cases c) (auto simp: disk_read_sector_once_def Let_def d3_def)
  ultimately show ?thesis
    using select_effect [OF sel]
    by (cases c; cases s) (auto simp: read_harmless_def split: if_splits)
qed

lemma write_once_effect:
  assumes "disk_write_sector_once ready null lba n buf d = (r, d')"
  shows "r = 0 \<and> write_so_far (unat lba) (unat n) buf d (unat n) d' \<or>
    r = -1 \<and> write_partial (unat lba) (unat n) buf d d'"
proof (cases "transfer_refused ready null lba n")
  case True
  then show ?thesis using assms by (auto simp: disk_write_sector_once_def write_partial_def)
next
  case False
  note g = refused_False [OF False]
  obtain r1 d1 where sel: "ata_select_lba48 d = (r1, d1)" by (cases "ata_select_lba48 d")
  define d3 where "d3 = outb ATA_COMMAND ATA_CMD_WRITE_SECTORS_EXT (ata_program_lba48 lba n d1)"
  obtain c s where loop: "for_loop (write_sector buf) [0..<unat n] d3 = (c, s)"
    by (cases "for_loop (write_sector buf) [0..<unat n] d3")
  obtain r5 d5 where fl: "ata_wait_busy (outb ATA_COMMAND ATA_CMD_FLUSH_CACHE_EXT s) = (r5, d5)"
    by (cases "ata_wait_busy (outb ATA_COMMAND ATA_CMD_FLUSH_CACHE_EXT s)")
  have d5: "disk_byte d5 = disk_byte s"
    using wait_busy_effect [OF fl [unfolded ata_wait_busy_def]] by (auto simp: quiet_def intro: disk_byte_cong)
  have rs: "disk_byte (ata_soft_reset e) = disk_byte e" for e by (rule disk_byte_cong) simp
  have d1: "disk_byte d1 = disk_byte d" by (rule disk_byte_cong) (simp add: select_effect [OF sel])
  have "disk_byte d3 = disk_byte d"
    by (rule disk_byte_cong) (simp add: d3_def program_effect [OF g(1-3)] select_effect [OF sel])
  then have "write_so_far (unat lba) (unat n) buf d 0 d3"
    by (auto simp: write_so_far_def d3_def program_effect [OF g(1-3)])
  from for_loop_upt [where P = "write_so_far (unat lba) (unat n) buf d" and B = "\<lambda>_. False", OF this le0
      write_sector_round loop]
  have "case c of Continue \<Rightarrow> write_so_far (unat lba) (unat n) buf d (unat n) s | Break \<Rightarrow> False
    | Return \<Rightarrow> write_partial (unat lba) (unat n) buf d s" .
  moreover have "(r, d') = (if r1 \<noteq> 0 then (-1, ata_soft_reset d1) else
      case (c, s) of (Continue, e) \<Rightarrow> if r5 \<noteq> 0 then (-1, ata_soft_reset d5) else (0, d5)
      | (_, e) \<Rightarrow> (-1, ata_soft_reset e))"
    using assms False sel loop fl
    by (cases "r1 = 0"; cases c) (auto simp: disk_write_sector_once_def Let_def d3_def)
  moreover have "write_so_far (unat lba) (unat n) buf d (unat n) s \<Longrightarrow> write_partial (unat lba) (unat n) buf d s"
    by (rule write_so_far_partial [OF _ order_refl])
  moreover have "write_partial (unat lba) (unat n) buf d e \<Longrightarrow> disk_byte e' = disk_byte e \<Longrightarrow>
      write_partial (unat lba) (unat n) buf d e'" for e e'
    by (simp add: write_partial_def)
  moreover have "write_so_far (unat lba) (unat n) buf d (unat n) s \<Longrightarrow> write_so_far (unat lba) (unat n) buf d (unat n) d5"
    by (simp add: write_so_far_def d5)
  moreover have "write_partial (unat lba) (unat n) buf d d" by (simp add: write_partial_def)
  ultimately show ?thesis
    using rs d5 d1 by (cases c) (auto split: if_splits)
qed

lemma read_harmless_trans:
  assumes "read_harmless n buf d (b1, d1)"
  shows "read_harmless n b1 d1 s \<Longrightarrow> read_harmless n buf d s"
    and "read_so_far l n b1 d1 n s \<Longrightarrow> read_so_far l n buf d n s"
  using assms by (auto simp: read_harmless_def read_so_far_def disk_byte_def split: prod.splits)

lemma read_retry_effect:
  assumes "read_retry k ready null lba n buf d = (r, buf', d')"
  shows "r = 0 \<and> read_so_far (unat lba) (unat n) buf d (unat n) (buf', d') \<or>
    r = -1 \<and> read_harmless (unat n) buf d (buf', d')"
  using assms
proof (induction k arbitrary: buf d)
  case (Suc k)
  obtain r1 b1 d1 where o: "disk_read_sector_once ready null lba n buf d = (r1, b1, d1)"
    by (cases "disk_read_sector_once ready null lba n buf d")
  show ?case
  proof (cases "r1 = 0")
    case True
    then show ?thesis using Suc(2) o read_once_effect [OF o] by auto
  next
    case False
    then have "read_harmless (unat n) buf d (b1, d1)" using read_once_effect [OF o] by auto
    moreover have "read_retry k ready null lba n b1 d1 = (r, buf', d')" using Suc(2) o False by simp
    ultimately show ?thesis using Suc(1) read_harmless_trans by blast
  qed
qed (simp add: read_harmless_def)

lemma write_partial_trans:
  assumes "write_partial l n buf d d1"
  shows "write_partial l n buf d1 e \<Longrightarrow> write_partial l n buf d e"
    and "write_so_far l n buf d1 n e \<Longrightarrow> write_so_far l n buf d n e"
proof -
  assume "write_partial l n buf d1 e"
  with assms show "write_partial l n buf d e" unfolding write_partial_def by (metis (lifting))
next
  assume w: "write_so_far l n buf d1 n e"
  have "disk_byte d1 a = disk_byte d a" if "\<not> (512 * l \<le> a \<and> a < 512 * (l + n))" for a
  proof -
    have "a div 512 < l \<or> l + n \<le> a div 512" using that by auto
    moreover have "a = 512 * (a div 512) + a mod 512" by simp
    ultimately show ?thesis using assms unfolding write_partial_def
      by (metis leD mod_less_divisor zero_less_numeral)
  qed
  with w show "write_so_far l n buf d n e" by (simp add: write_so_far_def)
qed

lemma write_retry_effect:
  assumes "write_retry k ready null lba n buf d = (r, d')"
  shows "r = 0 \<and> write_so_far (unat lba) (unat n) buf d (unat n) d' \<or>
    r = -1 \<and> write_partial (unat lba) (unat n) buf d d'"
  using assms
proof (induction k arbitrary: d)
  case (Suc k)
  obtain r1 d1 where o: "disk_write_sector_once ready null lba n buf d = (r1, d1)"
    by (cases "disk_write_sector_once ready null lba n buf d")
  show ?case
  proof (cases "r1 = 0")
    case True
    then show ?thesis using Suc(2) o write_once_effect [OF o] by auto
  next
    case False
    then have "write_partial (unat lba) (unat n) buf d d1" using write_once_effect [OF o] by auto
    moreover have "write_retry k ready null lba n buf d1 = (r, d')" using Suc(2) o False by simp
    ultimately show ?thesis using Suc(1) write_partial_trans by blast
  qed
qed (simp add: write_partial_def)

section \<open>A drive that answers\<close>

text \<open>No command fails and the drive is never busy for as many polls as the driver makes.\<close>

definition responsive :: "ata \<Rightarrow> bool" where
  "responsive d \<longleftrightarrow> (\<forall>t. ata_outcomes d t \<noteq> Fault) \<and> (\<forall>t. \<exists>k < unat ATA_TIMEOUT. ata_outcomes d (t + k) = Ready)"

lemma timeout_Suc: "unat (i :: u32) + Suc k < unat ATA_TIMEOUT \<Longrightarrow> unat (i + 1) = Suc (unat i)"
  by (simp add: ATA_TIMEOUT_def unat_word_ariths)

lemma wait_busy_ready:
  assumes "\<forall>t. ata_outcomes d t \<noteq> Fault" and "ata_outcomes d (ata_time d + k) = Ready"
    and "unat i + k < unat ATA_TIMEOUT"
  shows "fst (wait_busy_from i d) = 0 \<and> ata_phase (snd (wait_busy_from i d)) = ata_phase d \<and>
    ata_outcomes (snd (wait_busy_from i d)) = ata_outcomes d"
  using assms
proof (induction k arbitrary: i d)
  case 0
  then have "i < ATA_TIMEOUT" by (simp add: word_less_nat_alt)
  with 0 show ?case
    by (simp add: wait_busy_from.simps [of i] inb_def status_read_def Let_def ata_bits)
next
  case (Suc k)
  then have i: "i < ATA_TIMEOUT" by (simp add: word_less_nat_alt)
  show ?case
  proof (cases "ata_outcomes d (ata_time d)")
    case Busy
    then show ?thesis using i Suc(1) [of "d\<lparr>ata_time := Suc (ata_time d)\<rparr>" "i + 1"] Suc(2-4) timeout_Suc [OF Suc(4)]
      by (simp add: wait_busy_from.simps [of i] inb_def status_read_def Let_def ata_bits)
  next
    case Ready
    then show ?thesis using i
      by (simp add: wait_busy_from.simps [of i] inb_def status_read_def Let_def ata_bits)
  qed (use Suc(2) in simp)
qed

lemma wait_drq_ready:
  assumes "\<forall>t. ata_outcomes d t \<noteq> Fault" and "ata_outcomes d (ata_time d + k) = Ready"
    and "unat i + k < unat ATA_TIMEOUT" and "ata_phase d \<noteq> Idle"
  shows "fst (wait_drq_from i d) = 0 \<and> ata_phase (snd (wait_drq_from i d)) = ata_phase d \<and>
    ata_outcomes (snd (wait_drq_from i d)) = ata_outcomes d"
  using assms
proof (induction k arbitrary: i d)
  case 0
  then have "i < ATA_TIMEOUT" by (simp add: word_less_nat_alt)
  with 0 show ?case
    by (simp add: wait_drq_from.simps [of i] inb_def status_read_def Let_def ata_bits)
next
  case (Suc k)
  then have i: "i < ATA_TIMEOUT" by (simp add: word_less_nat_alt)
  show ?case
  proof (cases "ata_outcomes d (ata_time d)")
    case Busy
    then show ?thesis using i Suc(1) [of "d\<lparr>ata_time := Suc (ata_time d)\<rparr>" "i + 1"] Suc(2-) timeout_Suc [OF Suc(4)]
      by (simp add: wait_drq_from.simps [of i] inb_def status_read_def Let_def ata_bits)
  next
    case Ready
    then show ?thesis using i Suc(5)
      by (simp add: wait_drq_from.simps [of i] inb_def status_read_def Let_def ata_bits)
  qed (use Suc(2) in simp)
qed

lemma waits_succeed:
  assumes "responsive d"
  shows "fst (ata_wait_busy d) = 0" "ata_phase (snd (ata_wait_busy d)) = ata_phase d" "responsive (snd (ata_wait_busy d))"
    and "ata_phase d \<noteq> Idle \<Longrightarrow> fst (ata_wait_drq d) = 0"
    and "ata_phase d \<noteq> Idle \<Longrightarrow> ata_phase (snd (ata_wait_drq d)) = ata_phase d"
    and "ata_phase d \<noteq> Idle \<Longrightarrow> responsive (snd (ata_wait_drq d))"
proof -
  obtain k where k: "k < unat ATA_TIMEOUT" "ata_outcomes d (ata_time d + k) = Ready" "\<forall>t. ata_outcomes d t \<noteq> Fault"
    using assms unfolding responsive_def by blast
  note b = wait_busy_ready [OF k(3,2), of 0] and q = wait_drq_ready [OF k(3,2), of 0]
  show "fst (ata_wait_busy d) = 0" "ata_phase (snd (ata_wait_busy d)) = ata_phase d" "responsive (snd (ata_wait_busy d))"
    using b k(1) assms by (simp_all add: ata_wait_busy_def responsive_def)
  show "fst (ata_wait_drq d) = 0" "ata_phase (snd (ata_wait_drq d)) = ata_phase d" "responsive (snd (ata_wait_drq d))"
    if "ata_phase d \<noteq> Idle"
    using q k(1) assms that by (simp_all add: ata_wait_drq_def responsive_def)
qed

lemma setup_responsive:
  assumes "responsive d" and "\<not> transfer_refused ready null lba n"
  shows "fst (ata_select_lba48 d) = 0"
    and "responsive (outb ATA_COMMAND c (ata_program_lba48 lba n (snd (ata_select_lba48 d))))"
proof -
  have r: "responsive (outb p v e) = responsive e" for p v e
    by (simp add: responsive_def outb_def command_write_def Let_def)
  have "responsive (outb ATA_DRV_HEAD ATA_DEVICE_MASTER_LBA48 d)" using assms(1) by (simp add: r)
  note w = waits_succeed(1,3) [OF this]
  show "fst (ata_select_lba48 d) = 0" using w by (simp add: ata_select_lba48_def)
  show "responsive (outb ATA_COMMAND c (ata_program_lba48 lba n (snd (ata_select_lba48 d))))"
    using w(2) by (simp add: r ata_program_lba48_def Let_def ata_select_lba48_def)
qed

lemma read_round_succeeds:
  assumes "responsive (snd s)" and "ata_phase (snd s) = Reading l k 0" and "read_sector i s = (c, s')"
  shows "c = Continue \<and> responsive (snd s') \<and> ata_phase (snd s') = reading_at l k 256"
proof -
  obtain buf d where s: "s = (buf, d)" by (cases s)
  obtain r2 d2 where w: "ata_wait_busy d = (r2, d2)" by (cases "ata_wait_busy d")
  obtain r3 d3 where q: "ata_wait_drq d2 = (r3, d3)" by (cases "ata_wait_drq d2")
  have d2: "r2 = 0" "ata_phase d2 = Reading l k 0" "responsive d2"
    using waits_succeed(1-3) [of d] assms(1,2) by (simp_all add: s w)
  then have d3: "r3 = 0" "ata_phase d3 = Reading l k 0" "responsive d3"
    using waits_succeed(4-6) [of d2] by (simp_all add: q)
  have "s' = fold (\<lambda>j. read_word (256 * i + j)) [0..<256] (buf, d3)" "c = Continue"
    using assms(3) d2(1) d3(1) by (simp_all add: read_sector_def s w q)
  then show ?thesis using read_words [OF d3(2) order_refl] d3(3) by (simp add: responsive_def)
qed

lemma write_round_succeeds:
  assumes "responsive d" and "ata_phase d = Writing l k 0" and "write_sector buf i d = (c, d')"
  shows "c = Continue \<and> responsive d' \<and> ata_phase d' = writing_at l k 256"
proof -
  obtain r2 d2 where w: "ata_wait_busy d = (r2, d2)" by (cases "ata_wait_busy d")
  obtain r3 d3 where q: "ata_wait_drq d2 = (r3, d3)" by (cases "ata_wait_drq d2")
  have d2: "r2 = 0" "ata_phase d2 = Writing l k 0" "responsive d2"
    using waits_succeed(1-3) [of d] assms(1,2) by (simp_all add: w)
  then have d3: "r3 = 0" "ata_phase d3 = Writing l k 0" "responsive d3"
    using waits_succeed(4-6) [of d2] by (simp_all add: q)
  have "d' = fold (\<lambda>j. write_word buf (256 * i + j)) [0..<256] d3" "c = Continue"
    using assms(3) d2(1) d3(1) by (simp_all add: write_sector_def w q)
  then show ?thesis using write_all_words(2,3) [OF d3(2)] d3(3) by (simp add: responsive_def writing_at_def)
qed

lemma read_once_succeeds:
  assumes "responsive d" and "\<not> transfer_refused ready null lba n"
  shows "fst (disk_read_sector_once ready null lba n buf d) = 0"
proof -
  note g = refused_False [OF assms(2)] and st = setup_responsive [OF assms]
  define d3 where "d3 = outb ATA_COMMAND ATA_CMD_READ_SECTORS_EXT (ata_program_lba48 lba n (snd (ata_select_lba48 d)))"
  define P where "P = (\<lambda>i s. responsive (snd s) \<and>
    (i < unat n \<longrightarrow> ata_phase (snd (s :: memory \<times> ata)) = Reading (unat lba + i) (unat n - i) 0))"
  obtain c s where loop: "for_loop read_sector [0..<unat n] (buf, d3) = (c, s)"
    by (cases "for_loop read_sector [0..<unat n] (buf, d3)")
  have "P 0 (buf, d3)" using st(2) by (simp add: P_def d3_def program_effect [OF g(1-3)])
  moreover have "case c of Continue \<Rightarrow> P (Suc j) s' | Break \<Rightarrow> False | Return \<Rightarrow> False"
    if "j < unat n" "P j s" "read_sector j s = (c, s')" for j s c s'
    using read_round_succeeds [OF _ _ that(3)] that(1,2) by (auto simp: P_def reading_at_def)
  ultimately have "c = Continue"
    using for_loop_upt [where P = P and B = "\<lambda>_. False" and R = "\<lambda>_. False", OF _ le0 _ loop]
    by (cases c) auto
  then show ?thesis using assms(2) st(1) loop
    by (cases s; cases "ata_select_lba48 d") (simp add: disk_read_sector_once_def Let_def d3_def)
qed

lemma write_once_succeeds:
  assumes "responsive d" and "\<not> transfer_refused ready null lba n"
  shows "fst (disk_write_sector_once ready null lba n buf d) = 0"
proof -
  note g = refused_False [OF assms(2)] and st = setup_responsive [OF assms]
  define d3 where "d3 = outb ATA_COMMAND ATA_CMD_WRITE_SECTORS_EXT (ata_program_lba48 lba n (snd (ata_select_lba48 d)))"
  define P where "P = (\<lambda>i d. responsive d \<and>
    (i < unat n \<longrightarrow> ata_phase d = Writing (unat lba + i) (unat n - i) 0))"
  obtain c e where loop: "for_loop (write_sector buf) [0..<unat n] d3 = (c, e)"
    by (cases "for_loop (write_sector buf) [0..<unat n] d3")
  have "P 0 d3" using st(2) by (simp add: P_def d3_def program_effect [OF g(1-3)])
  moreover have "case c of Continue \<Rightarrow> P (Suc j) s' | Break \<Rightarrow> False | Return \<Rightarrow> False"
    if "j < unat n" "P j s" "write_sector buf j s = (c, s')" for j s c s'
    using write_round_succeeds [OF _ _ that(3)] that(1,2) by (auto simp: P_def writing_at_def)
  ultimately have c: "c = Continue" "responsive e"
    using for_loop_upt [where P = P and B = "\<lambda>_. False" and R = "\<lambda>_. False", OF _ le0 _ loop]
    by (cases c; auto simp: P_def)+
  have "responsive (outb ATA_COMMAND ATA_CMD_FLUSH_CACHE_EXT e)"
    using c(2) by (simp add: responsive_def outb_def command_write_def)
  from waits_succeed(1) [OF this] show ?thesis using assms(2) st(1) loop c(1)
    by (cases "ata_select_lba48 d"; cases "ata_wait_busy (outb ATA_COMMAND ATA_CMD_FLUSH_CACHE_EXT e)")
      (simp add: disk_write_sector_once_def Let_def d3_def)
qed

section \<open>Properties\<close>

text \<open>C30: A read never changes the disk.  When it returns 0 the buffer holds exactly the bytes of
  the addressed sectors, and whatever the outcome no byte behind the requested sectors is
  written.\<close>

theorem disk_read_exact:
  "case disk_read_sector_checked ready null lba n buf d of (r, buf', d') \<Rightarrow>
     disk_byte d' = disk_byte d \<and>
     (\<forall>b. buf' (512 * unat n + b) = buf (512 * unat n + b)) \<and>
     (if r = 0 then map buf' [0..<512 * unat n] = map (\<lambda>b. disk_byte d (512 * unat lba + b)) [0..<512 * unat n]
      else r = -1)"
proof -
  obtain r buf' d' where e: "disk_read_sector_checked ready null lba n buf d = (r, buf', d')"
    by (cases "disk_read_sector_checked ready null lba n buf d")
  from read_retry_effect [OF e [unfolded disk_read_sector_checked_def]]
  show ?thesis by (auto simp: e read_so_far_def read_harmless_def intro: disk_byte_cong)
qed

text \<open>C31: A write that returns 0 has stored the buffer in exactly the addressed sectors; a write
  that fails leaves every sector of the range either old or completely new and every other
  sector untouched.\<close>

theorem disk_write_exact:
  "case disk_write_sector_checked ready null lba n buf d of (r, d') \<Rightarrow>
     if r = 0 then
       \<forall>a. disk_byte d' a =
         (if 512 * unat lba \<le> a \<and> a < 512 * (unat lba + unat n) then buf (a - 512 * unat lba) else disk_byte d a)
     else r = -1 \<and> write_partial (unat lba) (unat n) buf d d'"
proof -
  obtain r d' where e: "disk_write_sector_checked ready null lba n buf d = (r, d')"
    by (cases "disk_write_sector_checked ready null lba n buf d")
  from write_retry_effect [OF e [unfolded disk_write_sector_checked_def]]
  show ?thesis by (auto simp: e write_so_far_def)
qed

text \<open>C32: The guard of both transfers is exact: it lets through precisely the requests of 1 to 256
  sectors with a buffer whose range lies below sector 2^48, with no wrap-around in its 64-bit
  test, and a refused request returns -1 without a single access to the controller.\<close>

theorem transfer_guard_exact:
  "(transfer_refused ready null lba n \<longleftrightarrow>
      \<not> (ready \<and> \<not> null \<and> 1 \<le> unat n \<and> unat n \<le> 256 \<and> unat lba + unat n \<le> 2 ^ 48)) \<and>
   (if transfer_refused ready null lba n
    then disk_read_sector_checked ready null lba n buf d = (-1, buf, d) \<and>
         disk_write_sector_checked ready null lba n buf d = (-1, d)
    else True)"
proof -
  have "\<not> transfer_refused ready null lba n"
    if a: "ready" "\<not> null" "1 \<le> unat n" "unat n \<le> 256" "unat lba + unat n \<le> 2 ^ 48"
  proof -
    have m: "unat ATA_MAX_LBA48 = 2 ^ 48 - 1" by (simp add: ATA_MAX_LBA48_def)
    have l: "lba \<le> ATA_MAX_LBA48" unfolding word_le_nat_alt m using a by simp
    have "unat (ATA_MAX_LBA48 - lba) = 2 ^ 48 - 1 - unat lba" using l m by (simp only: unat_sub)
    moreover have "n \<noteq> 0" using a(3) by auto
    moreover have "unat (ucast (n - 1) :: u64) = unat n - 1" using \<open>n \<noteq> 0\<close> by (rule unat_count)
    ultimately have "ucast (n - 1) \<le> ATA_MAX_LBA48 - lba" unfolding word_le_nat_alt using a(5) by simp
    moreover have "n \<le> ATA_MAX_SECTORS_PER_CMD" using a(4) by (simp add: word_le_nat_alt ATA_MAX_SECTORS_PER_CMD_def)
    ultimately show ?thesis using a(1,2) \<open>n \<noteq> 0\<close> l by (simp add: transfer_refused_def not_less)
  qed
  moreover have "ready \<and> \<not> null \<and> 1 \<le> unat n \<and> unat n \<le> 256 \<and> unat lba + unat n \<le> 2 ^ 48"
    if "\<not> transfer_refused ready null lba n"
    using refused_False [OF that] that by (simp add: transfer_refused_def)
  ultimately show ?thesis
    by (auto simp: disk_read_sector_checked_def disk_write_sector_checked_def numeral_3_eq_3
        disk_read_sector_once_def disk_write_sector_once_def)
qed

text \<open>C33: A drive that reports no error and never stays busy for a million polls answers every
  request the guard lets through: both transfers return 0.\<close>

theorem disk_transfers_complete:
  assumes "responsive d" and "\<not> transfer_refused ready null lba n"
  shows "fst (disk_read_sector_checked ready null lba n buf d) = 0 \<and>
    fst (disk_write_sector_checked ready null lba n buf d) = 0"
  using read_once_succeeds [OF assms, of buf] write_once_succeeds [OF assms, of buf]
  by (auto simp: disk_read_sector_checked_def disk_write_sector_checked_def numeral_3_eq_3 split: prod.splits)

definition lazy_drive :: ata where
  "lazy_drive = \<lparr>ata_sectors = (\<lambda>s j. of_nat (s + j)), ata_pending = (\<lambda>_. 0),
     ata_regs = \<lparr>tf_count = (0, 0), tf_low = (0, 0), tf_mid = (0, 0), tf_high = (0, 0)\<rparr>,
     ata_phase = Idle, ata_outcomes = (\<lambda>t. if even t then Busy else Ready), ata_time = 0\<rparr>"

theorem disk_transfers_complete_witness:
  "fst (disk_read_sector_checked True False 1000 8 (\<lambda>_. 0) lazy_drive) = 0 \<and>
   fst (disk_write_sector_checked True False 1000 8 (\<lambda>_. 7) lazy_drive) = 0"
proof -
  have "\<exists>k < unat ATA_TIMEOUT. odd (t + k)" for t :: nat
    by (cases "odd t") (auto simp: ATA_TIMEOUT_def intro: exI [of _ 0] exI [of _ 1])
  then have "responsive lazy_drive" by (simp add: responsive_def lazy_drive_def) blast
  moreover have "\<not> transfer_refused True False 1000 8"
    by (simp add: transfer_refused_def ATA_MAX_SECTORS_PER_CMD_def ATA_MAX_LBA48_def)
  ultimately show ?thesis using disk_transfers_complete by blast
qed

end
