(* ===== verification/Fs_Disk.thy ===== *)
theory Fs_Disk
  imports Disk_Safety Kalloc
begin

text \<open>
  The lower half of kernel/fs.c and kernel/fs.h: the on-disk structures and their byte layout,
  the write-back block cache over the disk driver, inodes, and the two allocation bitmaps.
  A pointer into a cached block is the index of its cache slot, so that a pointer that is used
  after the slot was reused is in the model what it is in the code.
\<close>

section \<open>Constants and structures of fs.h\<close>

definition FS_MAGIC :: u32 where "FS_MAGIC = 0x19980811"
definition FS_FORMAT_VERSION :: u32 where "FS_FORMAT_VERSION = 4"
definition FS_START_LBA :: u64 where "FS_START_LBA = 1000"
definition FS_ATA_LBA48_MAX :: u64 where "FS_ATA_LBA48_MAX = 0x0000FFFFFFFFFFFF"
definition FS_BLOCK_SIZE :: nat where "FS_BLOCK_SIZE = 4096"
definition FS_SECTORS_PER_BLOCK :: u32 where "FS_SECTORS_PER_BLOCK = 8"
definition FS_MAX_BLOCKS_LBA48 :: u64 where
  "FS_MAX_BLOCKS_LBA48 = (FS_ATA_LBA48_MAX - FS_START_LBA + 1) div 8"
definition FS_ROOT_INODE :: u32 where "FS_ROOT_INODE = 1"
definition FS_NAME_MAX :: nat where "FS_NAME_MAX = 60"
definition FS_PATH_MAX :: nat where "FS_PATH_MAX = 256"
definition FS_DIRECT_BLOCKS :: nat where "FS_DIRECT_BLOCKS = 11"
definition FS_INDIRECT_ENTRIES :: nat where "FS_INDIRECT_ENTRIES = 1024"
definition FS_SINGLE_FILE_BLOCKS :: u64 where "FS_SINGLE_FILE_BLOCKS = 1024"
definition FS_DOUBLE_FILE_BLOCKS :: u64 where "FS_DOUBLE_FILE_BLOCKS = 1024 * 1024"
definition FS_TRIPLE_FILE_BLOCKS :: u64 where "FS_TRIPLE_FILE_BLOCKS = 1024 * 1024 * 1024"
definition FS_MAX_FILE_BLOCKS :: u64 where
  "FS_MAX_FILE_BLOCKS = 11 + FS_SINGLE_FILE_BLOCKS + FS_DOUBLE_FILE_BLOCKS + FS_TRIPLE_FILE_BLOCKS"
definition FS_MAX_FILE_SIZE :: u64 where "FS_MAX_FILE_SIZE = FS_MAX_FILE_BLOCKS * 4096"
definition FS_TYPE_DIRECTORY :: u16 where "FS_TYPE_DIRECTORY = 1"
definition FS_TYPE_FILE :: u16 where "FS_TYPE_FILE = 2"

record super_block =
  sb_magic :: u32
  sb_version :: u32
  sb_block_size :: u32
  sb_flags :: u32
  sb_total_inodes :: u32
  sb_total_blocks :: u32
  sb_imap_start :: u32
  sb_imap_blocks :: u32
  sb_bmap_start :: u32
  sb_bmap_blocks :: u32
  sb_inode_start :: u32
  sb_inode_blocks :: u32
  sb_first_data_block :: u32

record inode =
  ino_size :: u64
  ino_type :: u16
  ino_links :: u16
  ino_direct :: "u32 list"
  ino_indirect_1 :: u32
  ino_indirect_2 :: u32
  ino_indirect_3 :: u32
  ino_flags :: u32

definition zero_inode :: inode where
  "zero_inode = \<lparr>ino_size = 0, ino_type = 0, ino_links = 0, ino_direct = replicate 11 0,
     ino_indirect_1 = 0, ino_indirect_2 = 0, ino_indirect_3 = 0, ino_flags = 0\<rparr>"

section \<open>Little-endian fields of a block\<close>

definition rd16 :: "memory \<Rightarrow> nat \<Rightarrow> u16" where
  "rd16 m a = ucast (m a) OR push_bit 8 (ucast (m (a + 1)))"

definition rd32 :: "memory \<Rightarrow> nat \<Rightarrow> u32" where
  "rd32 m a = ucast (rd16 m a) OR push_bit 16 (ucast (rd16 m (a + 2)))"

definition rd64 :: "memory \<Rightarrow> nat \<Rightarrow> u64" where
  "rd64 m a = ucast (rd32 m a) OR push_bit 32 (ucast (rd32 m (a + 4)))"

definition wr16 :: "nat \<Rightarrow> u16 \<Rightarrow> memory \<Rightarrow> memory" where
  "wr16 a v m = m(a := ucast v, a + 1 := ucast (drop_bit 8 v))"

definition wr32 :: "nat \<Rightarrow> u32 \<Rightarrow> memory \<Rightarrow> memory" where
  "wr32 a v m = wr16 (a + 2) (ucast (drop_bit 16 v)) (wr16 a (ucast v) m)"

definition wr64 :: "nat \<Rightarrow> u64 \<Rightarrow> memory \<Rightarrow> memory" where
  "wr64 a v m = wr32 (a + 4) (ucast (drop_bit 32 v)) (wr32 a (ucast v) m)"

text \<open>The 72 bytes of an inode and the 52 bytes of the super block.\<close>

definition read_inode :: "memory \<Rightarrow> nat \<Rightarrow> inode" where
  "read_inode m a =
     \<lparr>ino_size = rd64 m a, ino_type = rd16 m (a + 8), ino_links = rd16 m (a + 10),
      ino_direct = map (\<lambda>k. rd32 m (a + 12 + 4 * k)) [0..<11],
      ino_indirect_1 = rd32 m (a + 56), ino_indirect_2 = rd32 m (a + 60),
      ino_indirect_3 = rd32 m (a + 64), ino_flags = rd32 m (a + 68)\<rparr>"

definition write_inode :: "nat \<Rightarrow> inode \<Rightarrow> memory \<Rightarrow> memory" where
  "write_inode a i m =
     wr32 (a + 68) (ino_flags i) (wr32 (a + 64) (ino_indirect_3 i) (wr32 (a + 60) (ino_indirect_2 i)
       (wr32 (a + 56) (ino_indirect_1 i)
         (fold (\<lambda>k. wr32 (a + 12 + 4 * k) (ino_direct i ! k)) [0..<11]
           (wr16 (a + 10) (ino_links i) (wr16 (a + 8) (ino_type i) (wr64 a (ino_size i) m)))))))"

definition read_super_block :: "memory \<Rightarrow> super_block" where
  "read_super_block m =
     \<lparr>sb_magic = rd32 m 0, sb_version = rd32 m 4, sb_block_size = rd32 m 8, sb_flags = rd32 m 12,
      sb_total_inodes = rd32 m 16, sb_total_blocks = rd32 m 20, sb_imap_start = rd32 m 24,
      sb_imap_blocks = rd32 m 28, sb_bmap_start = rd32 m 32, sb_bmap_blocks = rd32 m 36,
      sb_inode_start = rd32 m 40, sb_inode_blocks = rd32 m 44, sb_first_data_block = rd32 m 48\<rparr>"

text \<open>The checks of \<^verbatim>\<open>fs_init\<close> on the super block.\<close>

definition layout_valid :: "super_block \<Rightarrow> bool" where
  "layout_valid sb \<longleftrightarrow>
     (let inode_capacity = (56 :: u64); capacity = (4096 * 8 :: u64);
          layout_end = (ucast (sb_inode_start sb) + ucast (sb_inode_blocks sb) :: u64) in
      sb_magic sb = FS_MAGIC \<and> sb_version sb = FS_FORMAT_VERSION \<and> sb_block_size sb = 4096 \<and>
      sb_total_inodes sb > FS_ROOT_INODE \<and> sb_total_blocks sb > sb_first_data_block sb \<and>
      ucast (sb_total_blocks sb) \<le> FS_MAX_BLOCKS_LBA48 \<and> sb_imap_start sb \<ge> 2 \<and>
      (ucast (sb_imap_start sb) + ucast (sb_imap_blocks sb) :: u64) \<le> ucast (sb_bmap_start sb) \<and>
      (ucast (sb_bmap_start sb) + ucast (sb_bmap_blocks sb) :: u64) \<le> ucast (sb_inode_start sb) \<and>
      layout_end \<le> ucast (sb_first_data_block sb) \<and> sb_first_data_block sb < sb_total_blocks sb \<and>
      (ucast (sb_imap_blocks sb) :: u64) \<ge> (ucast (sb_total_inodes sb) + capacity - 1) div capacity \<and>
      (ucast (sb_bmap_blocks sb) :: u64) \<ge> (ucast (sb_total_blocks sb) + capacity - 1) div capacity \<and>
      (ucast (sb_inode_blocks sb) :: u64) \<ge> (ucast (sb_total_inodes sb) + inode_capacity - 1) div inode_capacity)"

section \<open>The block cache\<close>

record cache_entry =
  ce_block :: u32
  ce_age :: u32
  ce_valid :: bool
  ce_dirty :: bool
  ce_data :: memory

definition FS_CACHE_ENTRIES :: nat where "FS_CACHE_ENTRIES = 16"

definition zero_entry :: cache_entry where
  "zero_entry = \<lparr>ce_block = 0, ce_age = 0, ce_valid = False, ce_dirty = False, ce_data = (\<lambda>_. 0)\<rparr>"

text \<open>
  The file system's variables, with the drive behind the disk driver.  The reference table is
  the pointer \<open>fs_open_refs\<close> and the counters stored there.
\<close>

record fs =
  fs_sb :: super_block
  fs_mounted :: bool
  fs_open_refs :: u64
  fs_refs :: "nat \<Rightarrow> u32"
  fs_cache :: "cache_entry list"
  fs_cache_age :: u32
  fs_disk_ready :: bool
  fs_disk :: ata

definition block_lba :: "u32 \<Rightarrow> u64" where
  "block_lba block = FS_START_LBA + ucast block * 8"

definition upd_entry :: "nat \<Rightarrow> (cache_entry \<Rightarrow> cache_entry) \<Rightarrow> fs \<Rightarrow> fs" where
  "upd_entry k f s = s\<lparr>fs_cache := (fs_cache s)[k := f (fs_cache s ! k)]\<rparr>"

text \<open>What a pointer into slot \<open>k\<close> reads, and a store through such a pointer.\<close>

definition slot_data :: "fs \<Rightarrow> nat \<Rightarrow> memory" where
  "slot_data s k = ce_data (fs_cache s ! k)"

definition poke :: "nat \<Rightarrow> (memory \<Rightarrow> memory) \<Rightarrow> fs \<Rightarrow> fs" where
  "poke k f = upd_entry k (ce_data_update f)"

definition cache_flush_entry :: "nat \<Rightarrow> fs \<Rightarrow> int \<times> fs" where
  "cache_flush_entry k s =
     (let e = fs_cache s ! k in
      if \<not> ce_valid e \<or> \<not> ce_dirty e then (0, s)
      else case disk_write_sector_checked (fs_disk_ready s) False (block_lba (ce_block e))
                  FS_SECTORS_PER_BLOCK (ce_data e) (fs_disk s) of (r, d) \<Rightarrow>
        let s1 = s\<lparr>fs_disk := d\<rparr> in
        if r \<noteq> 0 then (-1, s1) else (0, upd_entry k (ce_dirty_update (\<lambda>_. False)) s1))"

text \<open>The scan of the slots: \<open>Inl\<close> a hit, \<open>Inr\<close> the slot to replace.\<close>

fun cache_scan :: "u32 \<Rightarrow> nat \<Rightarrow> cache_entry list \<Rightarrow> nat option \<Rightarrow> u32 \<Rightarrow> nat + nat option" where
  "cache_scan block i [] victim oldest = Inr victim"
| "cache_scan block i (e # es) victim oldest =
     (if ce_valid e \<and> ce_block e = block then Inl i
      else if \<not> ce_valid e \<or> ce_age e < oldest then cache_scan block (Suc i) es (Some i) (ce_age e)
      else cache_scan block (Suc i) es victim oldest)"

definition cache_hit :: "nat \<Rightarrow> bool \<Rightarrow> fs \<Rightarrow> fs" where
  "cache_hit k wr s =
     (let age = fs_cache_age s + 1 in
      upd_entry k (\<lambda>e. e\<lparr>ce_age := age, ce_dirty := ce_dirty e \<or> wr\<rparr>) (s\<lparr>fs_cache_age := age\<rparr>))"

definition cache_fill :: "u32 \<Rightarrow> bool \<Rightarrow> nat \<Rightarrow> fs \<Rightarrow> nat option \<times> fs" where
  "cache_fill block wr k s =
     (case disk_read_sector_checked (fs_disk_ready s) False (block_lba block) FS_SECTORS_PER_BLOCK
             (ce_data (fs_cache s ! k)) (fs_disk s) of (r, data, d) \<Rightarrow>
        let s1 = poke k (\<lambda>_. data) (s\<lparr>fs_disk := d\<rparr>); age = fs_cache_age s + 1 in
        if r \<noteq> 0 then (None, s1)
        else (Some k, upd_entry k (\<lambda>e. e\<lparr>ce_block := block, ce_valid := True, ce_dirty := wr, ce_age := age\<rparr>)
                        (s1\<lparr>fs_cache_age := age\<rparr>)))"

definition cache_get :: "u32 \<Rightarrow> bool \<Rightarrow> fs \<Rightarrow> nat option \<times> fs" where
  "cache_get block wr s =
     (if block \<ge> sb_total_blocks (fs_sb s) then (None, s)
      else case cache_scan block 0 (fs_cache s) None (- 1) of
        Inl k \<Rightarrow> (Some k, cache_hit k wr s)
      | Inr None \<Rightarrow> (None, s)
      | Inr (Some k) \<Rightarrow>
          (case cache_flush_entry k s of (r, s1) \<Rightarrow>
             if r \<noteq> 0 then (None, s1) else cache_fill block wr k s1))"

definition cache_sync :: "fs \<Rightarrow> int \<times> fs" where
  "cache_sync s =
     (case for_loop (\<lambda>k (r, s). case cache_flush_entry k s of (r', s1) \<Rightarrow>
              (if r' \<noteq> 0 then Return else Continue, r', s1))
            [0..<FS_CACHE_ENTRIES] (0, s) of
        (Continue, _, s1) \<Rightarrow> (0, s1)
      | (_, _, s1) \<Rightarrow> (-1, s1))"

definition cache_drop :: "fs \<Rightarrow> fs" where
  "cache_drop s = s\<lparr>fs_cache := replicate FS_CACHE_ENTRIES zero_entry, fs_cache_age := 0\<rparr>"

section \<open>Inodes\<close>

definition INODES_PER_BLOCK :: u32 where "INODES_PER_BLOCK = 56"

definition inode_block :: "u32 \<Rightarrow> fs \<Rightarrow> u32" where
  "inode_block inode_nr s = sb_inode_start (fs_sb s) + inode_nr div INODES_PER_BLOCK"

definition inode_offset :: "u32 \<Rightarrow> nat" where
  "inode_offset inode_nr = 72 * unat (inode_nr mod INODES_PER_BLOCK)"

definition valid_inode :: "u32 \<Rightarrow> fs \<Rightarrow> bool" where
  "valid_inode inode_nr s \<longleftrightarrow> inode_nr > 0 \<and> inode_nr < sb_total_inodes (fs_sb s)"

text \<open>\<open>None\<close> stands for the result -1; otherwise the inode that was copied out.\<close>

definition fs_get_inode :: "u32 \<Rightarrow> fs \<Rightarrow> inode option \<times> fs" where
  "fs_get_inode inode_nr s =
     (if \<not> valid_inode inode_nr s then (None, s)
      else case cache_get (inode_block inode_nr s) False s of
        (None, s1) \<Rightarrow> (None, s1)
      | (Some k, s1) \<Rightarrow> (Some (read_inode (slot_data s1 k) (inode_offset inode_nr)), s1))"

definition fs_put_inode :: "u32 \<Rightarrow> inode \<Rightarrow> fs \<Rightarrow> int \<times> fs" where
  "fs_put_inode inode_nr ino s =
     (if \<not> valid_inode inode_nr s then (-1, s)
      else case cache_get (inode_block inode_nr s) True s of
        (None, s1) \<Rightarrow> (-1, s1)
      | (Some k, s1) \<Rightarrow> (0, poke k (write_inode (inode_offset inode_nr) ino) s1))"

section \<open>Bitmaps\<close>

definition bitmap_capacity :: "fs \<Rightarrow> u32" where
  "bitmap_capacity s = sb_block_size (fs_sb s) * 8"

definition bitmap_probe :: "u32 \<Rightarrow> nat \<Rightarrow> int \<times> fs \<Rightarrow> loop_ctl \<times> int \<times> fs" where
  "bitmap_probe bitmap_block n = (\<lambda>(r, s).
     case cache_get (bitmap_block + of_nat n div bitmap_capacity s) True s of
       (None, s1) \<Rightarrow> (Return, -1, s1)
     | (Some k, s1) \<Rightarrow>
         (let i = unat (of_nat n mod bitmap_capacity s) in
          if \<not> bit (slot_data s1 k (i div 8)) (i mod 8)
          then (Return, sint (of_nat n :: u32),
                poke k (\<lambda>m. m(i div 8 := m (i div 8) OR 2 ^ (i mod 8))) s1)
          else (Continue, r, s1)))"

definition bitmap_allocate :: "u32 \<Rightarrow> u32 \<Rightarrow> u32 \<Rightarrow> fs \<Rightarrow> int \<times> fs" where
  "bitmap_allocate bitmap_block first limit s =
     (case for_loop (bitmap_probe bitmap_block) [unat first..<unat limit] (-1, s) of
        (Continue, _, s1) \<Rightarrow> (-1, s1)
      | (_, r, s1) \<Rightarrow> (r, s1))"

definition bitmap_free :: "u32 \<Rightarrow> u32 \<Rightarrow> fs \<Rightarrow> fs" where
  "bitmap_free bitmap_block n s =
     (case cache_get (bitmap_block + n div bitmap_capacity s) True s of
        (None, s1) \<Rightarrow> s1
      | (Some k, s1) \<Rightarrow>
          (let i = unat (n mod bitmap_capacity s) in
           poke k (\<lambda>m. m(i div 8 := m (i div 8) AND NOT (2 ^ (i mod 8)))) s1))"

definition alloc_data_block :: "fs \<Rightarrow> int \<times> fs" where
  "alloc_data_block s =
     (case bitmap_allocate (sb_bmap_start (fs_sb s)) (sb_first_data_block (fs_sb s))
             (sb_total_blocks (fs_sb s)) s of (block, s1) \<Rightarrow>
        if block < 0 then (-1, s1)
        else case cache_get (word_of_int block) True s1 of
          (None, s2) \<Rightarrow> (-1, bitmap_free (sb_bmap_start (fs_sb s2)) (word_of_int block) s2)
        | (Some k, s2) \<Rightarrow> (block, poke k (memset 0 0 FS_BLOCK_SIZE) s2))"

end
