(* ===== verification/Fs_Bytes.thy ===== *)
theory Fs_Bytes
  imports Fs_Disk
begin

text \<open>
  The byte layout of the structures on disk: fields read back what was stored, stores touch
  only their own bytes, and an inode survives being written and read.
\<close>

section \<open>Fields\<close>

lemma rd16_cong: "m a = m' a \<Longrightarrow> m (Suc a) = m' (Suc a) \<Longrightarrow> rd16 m a = rd16 m' a"
  by (simp add: rd16_def)

lemma rd32_cong: "(\<And>i. a \<le> i \<Longrightarrow> i < a + 4 \<Longrightarrow> m i = m' i) \<Longrightarrow> rd32 m a = rd32 m' a"
  unfolding rd32_def using rd16_cong [of m a m'] rd16_cong [of m "a + 2" m'] by simp

lemma rd64_cong: "(\<And>i. a \<le> i \<Longrightarrow> i < a + 8 \<Longrightarrow> m i = m' i) \<Longrightarrow> rd64 m a = rd64 m' a"
  unfolding rd64_def using rd32_cong [of a m m'] rd32_cong [of "a + 4" m m'] by simp

lemma wr16_other: "x < a \<or> a + 2 \<le> x \<Longrightarrow> wr16 a v m x = m x"
  by (auto simp: wr16_def)

lemma wr32_other: "x < a \<or> a + 4 \<le> x \<Longrightarrow> wr32 a v m x = m x"
  by (auto simp: wr32_def wr16_other)

lemma wr64_other: "x < a \<or> a + 8 \<le> x \<Longrightarrow> wr64 a v m x = m x"
  by (auto simp: wr64_def wr32_other)

lemma rd16_wr16 [simp]: "rd16 (wr16 a v m) a = v"
  by (rule bit_eqI) (auto simp: rd16_def wr16_def bit_simps dest: bit_imp_le_length)

lemma rd16_wr16_other: "a + 2 \<le> b \<or> b + 2 \<le> a \<Longrightarrow> rd16 (wr16 b v m) a = rd16 m a"
  by (rule rd16_cong) (auto simp: wr16_other)

lemma rd32_wr32 [simp]: "rd32 (wr32 a v m) a = v"
proof -
  have "rd16 (wr32 a v m) a = ucast v" "rd16 (wr32 a v m) (a + 2) = ucast (drop_bit 16 v)"
    by (simp_all add: wr32_def rd16_wr16_other)
  then show ?thesis
    unfolding rd32_def by (intro bit_eqI) (auto simp: bit_simps dest: bit_imp_le_length)
qed

lemma rd32_wr32_other: "a + 4 \<le> b \<or> b + 4 \<le> a \<Longrightarrow> rd32 (wr32 b v m) a = rd32 m a"
  by (rule rd32_cong) (auto simp: wr32_other)

lemma rd64_wr64 [simp]: "rd64 (wr64 a v m) a = v"
proof -
  have "rd32 (wr64 a v m) a = ucast v" "rd32 (wr64 a v m) (a + 4) = ucast (drop_bit 32 v)"
    by (simp_all add: wr64_def rd32_wr32_other)
  then show ?thesis
    unfolding rd64_def by (intro bit_eqI) (auto simp: bit_simps dest: bit_imp_le_length)
qed

section \<open>Inodes\<close>

lemma direct_stores:
  assumes "length ds = 11" and "n \<le> 11"
  shows "fold (\<lambda>k. wr32 (a + 4 * k) (ds ! k)) [0..<n] m x =
    (if a \<le> x \<and> x < a + 4 * n then wr32 (a + 4 * ((x - a) div 4)) (ds ! ((x - a) div 4)) m x else m x)"
  using assms(2)
proof (induction n)
  case (Suc n)
  consider "x < a + 4 * n" | "a + 4 * n \<le> x" "x < a + 4 * Suc n" | "a + 4 * Suc n \<le> x" by linarith
  then show ?case
  proof cases
    case 2
    then have "(x - a) div 4 = n" by auto
    then have "wr32 (a + 4 * n) (ds ! n) (fold (\<lambda>k. wr32 (a + 4 * k) (ds ! k)) [0..<n] m) x = wr32 (a + 4 * n) (ds ! n) m x"
      using 2 Suc by (auto simp: wr32_def wr16_def)
    then show ?thesis using 2 \<open>(x - a) div 4 = n\<close> by simp
  qed (use Suc in \<open>auto simp: wr32_other\<close>)
qed auto

lemma write_inode_other:
  assumes "length (ino_direct i) = 11" and "x < a \<or> a + 72 \<le> x"
  shows "write_inode a i m x = m x"
proof -
  have "fold (\<lambda>k. wr32 (a + 12 + 4 * k) (ino_direct i ! k)) [0..<11] m' x = m' x" for m'
    using direct_stores [OF assms(1), of 11 "a + 12" m' x] assms(2) by auto
  then show ?thesis using assms(2) by (auto simp: write_inode_def wr32_other wr16_other wr64_other)
qed

lemma direct_reads:
  assumes "length ds = 11" and "k < 11"
  shows "rd32 (fold (\<lambda>k. wr32 (a + 4 * k) (ds ! k)) [0..<11] m) (a + 4 * k) = ds ! k"
proof -
  have "rd32 (fold (\<lambda>k. wr32 (a + 4 * k) (ds ! k)) [0..<11] m) (a + 4 * k) = rd32 (wr32 (a + 4 * k) (ds ! k) m) (a + 4 * k)"
  proof (rule rd32_cong)
    fix x assume "a + 4 * k \<le> x" "x < a + 4 * k + 4"
    then have "(x - a) div 4 = k" by auto
    with \<open>a + 4 * k \<le> x\<close> \<open>x < a + 4 * k + 4\<close> assms show
      "fold (\<lambda>k. wr32 (a + 4 * k) (ds ! k)) [0..<11] m x = wr32 (a + 4 * k) (ds ! k) m x"
      using direct_stores [OF assms(1) order_refl, of a m x] by auto
  qed
  then show ?thesis by simp
qed

lemma read_write_inode [simp]:
  assumes "length (ino_direct i) = 11"
  shows "read_inode (write_inode a i m) a = i"
proof -
  define m1 where "m1 = wr16 (a + 10) (ino_links i) (wr16 (a + 8) (ino_type i) (wr64 a (ino_size i) m))"
  define m2 where "m2 = fold (\<lambda>k. wr32 (a + 12 + 4 * k) (ino_direct i ! k)) [0..<11] m1"
  define w where "w = write_inode a i m"
  have m2: "m2 x = m1 x" if "x < a + 12" for x
    using direct_stores [OF assms order_refl, of "a + 12" m1 x] that by (auto simp: m2_def)
  have w: "w = wr32 (a + 68) (ino_flags i) (wr32 (a + 64) (ino_indirect_3 i) (wr32 (a + 60) (ino_indirect_2 i)
       (wr32 (a + 56) (ino_indirect_1 i) m2)))"
    by (simp add: w_def write_inode_def m2_def m1_def)
  have low: "w x = m1 x" if "x < a + 12" for x using that m2 by (simp add: w wr32_other)
  have "rd64 w a = rd64 (wr64 a (ino_size i) m) a"
    by (rule rd64_cong) (simp add: low m1_def wr16_other)
  moreover have "rd16 w (a + 8) = ino_type i"
    using rd16_cong [of w "a + 8" m1] by (simp add: low) (simp add: m1_def rd16_wr16_other)
  moreover have "rd16 w (a + 10) = ino_links i"
    using rd16_cong [of w "a + 10" m1] by (simp add: low) (simp add: m1_def)
  moreover have "rd32 w (a + 12 + 4 * k) = ino_direct i ! k" if "k < 11" for k
  proof -
    have "rd32 w (a + 12 + 4 * k) = rd32 m2 (a + 12 + 4 * k)"
      using that by (simp add: w rd32_wr32_other)
    then show ?thesis using direct_reads [OF assms that, of "a + 12" m1] by (simp add: m2_def)
  qed
  moreover from this have "map (\<lambda>k. rd32 w (a + 12 + 4 * k)) [0..<11] = ino_direct i"
    using assms by (intro nth_equalityI) simp_all
  moreover have "rd32 w (a + 56) = ino_indirect_1 i" "rd32 w (a + 60) = ino_indirect_2 i"
    "rd32 w (a + 64) = ino_indirect_3 i" "rd32 w (a + 68) = ino_flags i"
    by (simp_all add: w rd32_wr32_other)
  ultimately show ?thesis unfolding w_def [symmetric] read_inode_def by simp
qed

lemma read_inode_cong:
  assumes "\<And>x. a \<le> x \<Longrightarrow> x < a + 72 \<Longrightarrow> m x = m' x"
  shows "read_inode m a = read_inode m' a"
proof -
  have "rd32 m (a + 12 + 4 * k) = rd32 m' (a + 12 + 4 * k)" if "k < 11" for k
    using that by (intro rd32_cong assms) auto
  then show ?thesis using assms
    by (auto simp: read_inode_def intro!: rd64_cong rd16_cong rd32_cong)
qed

lemma read_inode_direct [simp]: "length (ino_direct (read_inode m a)) = 11"
  by (simp add: read_inode_def)

end
