(* ===== verification/Disk_Frame.thy ===== *)
theory Disk_Frame
  imports Disk_Safety
begin

text \<open>
  What a transfer leaves unchanged: the sequence of outcomes the drive will produce is not
  influenced by the driver, so a drive that answers keeps answering.
\<close>

lemma port_outcomes [simp]:
  "ata_outcomes (snd (inb p d)) = ata_outcomes d" "ata_outcomes (outb p v d) = ata_outcomes d"
  "ata_outcomes (snd (inw p d)) = ata_outcomes d" "ata_outcomes (outw p w d) = ata_outcomes d"
  by (auto simp: inb_def status_read_def outb_def command_write_def inw_def outw_def Let_def
      split: ata_outcome.splits ata_phase.splits)

lemma wait_busy_outcomes: "ata_outcomes (snd (wait_busy_from i d)) = ata_outcomes d"
proof (induction i d rule: wait_busy_from.induct)
  case (1 i d)
  show ?case
  proof (cases "i < ATA_TIMEOUT")
    case True
    obtain st d1 where d1: "inb ATA_COMMAND d = (st, d1)" by (cases "inb ATA_COMMAND d")
    then have "ata_outcomes d1 = ata_outcomes d" using port_outcomes(1) [of ATA_COMMAND d] by simp
    then show ?thesis using 1 [OF True d1 [symmetric]] True d1 by (simp add: wait_busy_from.simps [of i d])
  qed (simp add: wait_busy_from.simps [of i d])
qed

lemma wait_drq_outcomes: "ata_outcomes (snd (wait_drq_from i d)) = ata_outcomes d"
proof (induction i d rule: wait_drq_from.induct)
  case (1 i d)
  show ?case
  proof (cases "i < ATA_TIMEOUT")
    case True
    obtain st d1 where d1: "inb ATA_COMMAND d = (st, d1)" by (cases "inb ATA_COMMAND d")
    then have "ata_outcomes d1 = ata_outcomes d" using port_outcomes(1) [of ATA_COMMAND d] by simp
    then show ?thesis using 1 [OF True d1 [symmetric]] True d1 by (simp add: wait_drq_from.simps [of i d])
  qed (simp add: wait_drq_from.simps [of i d])
qed

lemma waits_outcomes [simp]:
  "ata_outcomes (snd (ata_wait_busy d)) = ata_outcomes d" "ata_outcomes (snd (ata_wait_drq d)) = ata_outcomes d"
  "ata_outcomes (snd (ata_select_lba48 d)) = ata_outcomes d" "ata_outcomes (ata_soft_reset d) = ata_outcomes d"
  "ata_outcomes (ata_program_lba48 lba n d) = ata_outcomes d"
  by (simp_all add: ata_wait_busy_def ata_wait_drq_def wait_busy_outcomes wait_drq_outcomes
      ata_select_lba48_def ata_soft_reset_def ata_program_lba48_def Let_def)

lemma waits_outcomesD:
  "ata_wait_busy d = (r, d') \<Longrightarrow> ata_outcomes d' = ata_outcomes d"
  "ata_select_lba48 d = (r, d') \<Longrightarrow> ata_outcomes d' = ata_outcomes d"
  using waits_outcomes(1,3) [of d] by simp_all

lemma read_sector_outcomes: "ata_outcomes (snd (snd (read_sector i s))) = ata_outcomes (snd s)"
proof -
  have "ata_outcomes (snd (fold (\<lambda>j. read_word (256 * i + j)) [0..<n] s)) = ata_outcomes (snd s)" for n s
    by (induction n) (auto simp: read_word_def split: prod.splits dest!: arg_cong [where f = "\<lambda>x. ata_outcomes (snd x)"])
  then show ?thesis
    by (cases s; cases "ata_wait_busy (snd s)"; cases "ata_wait_drq (snd (ata_wait_busy (snd s)))")
      (auto simp: read_sector_def dest!: arg_cong [where f = "\<lambda>x. ata_outcomes (snd x)"])
qed

lemma write_sector_outcomes: "ata_outcomes (snd (write_sector buf i d)) = ata_outcomes d"
proof -
  have "ata_outcomes (fold (\<lambda>j. write_word buf (256 * i + j)) [0..<n] d) = ata_outcomes d" for n d
    by (induction n) (auto simp: write_word_def)
  then show ?thesis
    by (cases "ata_wait_busy d"; cases "ata_wait_drq (snd (ata_wait_busy d))")
      (auto simp: write_sector_def dest!: arg_cong [where f = "\<lambda>x. ata_outcomes (snd x)"])
qed

lemma read_once_outcomes: "ata_outcomes (snd (snd (disk_read_sector_once ready null lba n buf d))) = ata_outcomes d"
proof -
  have loop: "ata_outcomes (snd (snd (for_loop read_sector xs s))) = ata_outcomes (snd s)" for xs s
    by (rule for_loop_invariant [where P = "\<lambda>t. ata_outcomes (snd t) = ata_outcomes (snd s)"])
      (simp_all add: read_sector_outcomes)
  show ?thesis
    using loop [of "[0..<unat n]" "(buf, outb ATA_COMMAND ATA_CMD_READ_SECTORS_EXT (ata_program_lba48 lba n (snd (ata_select_lba48 d))))"]
    by (auto simp: disk_read_sector_once_def Let_def split: prod.splits loop_ctl.splits dest: waits_outcomesD)
qed

lemma write_once_outcomes: "ata_outcomes (snd (disk_write_sector_once ready null lba n buf d)) = ata_outcomes d"
proof -
  have loop: "ata_outcomes (snd (for_loop (write_sector buf) xs s)) = ata_outcomes s" for xs s
    by (rule for_loop_invariant [where P = "\<lambda>t. ata_outcomes t = ata_outcomes s"])
      (simp_all add: write_sector_outcomes)
  show ?thesis
    using loop [of "[0..<unat n]" "outb ATA_COMMAND ATA_CMD_WRITE_SECTORS_EXT (ata_program_lba48 lba n (snd (ata_select_lba48 d)))"]
    by (auto simp: disk_write_sector_once_def Let_def split: prod.splits loop_ctl.splits dest: waits_outcomesD)
qed

lemma read_checked_outcomes: "ata_outcomes (snd (snd (disk_read_sector_checked ready null lba n buf d))) = ata_outcomes d"
proof -
  have "ata_outcomes (snd (snd (read_retry k ready null lba n buf d))) = ata_outcomes d" for k
  proof (induction k arbitrary: buf d)
    case (Suc k)
    then show ?case using read_once_outcomes [of ready null lba n buf d]
      by (cases "disk_read_sector_once ready null lba n buf d") auto
  qed simp
  then show ?thesis by (simp add: disk_read_sector_checked_def)
qed

lemma write_checked_outcomes: "ata_outcomes (snd (disk_write_sector_checked ready null lba n buf d)) = ata_outcomes d"
proof -
  have "ata_outcomes (snd (write_retry k ready null lba n buf d)) = ata_outcomes d" for k
  proof (induction k arbitrary: d)
    case (Suc k)
    then show ?case using write_once_outcomes [of ready null lba n buf d]
      by (cases "disk_write_sector_once ready null lba n buf d") auto
  qed simp
  then show ?thesis by (simp add: disk_write_sector_checked_def)
qed

lemma responsive_cong: "ata_outcomes d = ata_outcomes e \<Longrightarrow> responsive d = responsive e"
  by (simp add: responsive_def)

lemma checked_succeed:
  assumes "responsive d" and "\<not> transfer_refused ready null lba n"
  shows "fst (disk_read_sector_checked ready null lba n buf d) = 0"
    and "fst (disk_write_sector_checked ready null lba n buf d) = 0"
  using read_once_succeeds [OF assms, of buf] write_once_succeeds [OF assms, of buf]
  by (auto simp: disk_read_sector_checked_def disk_write_sector_checked_def numeral_3_eq_3 split: prod.splits)

end
