(* ===== verification/Fs_View.thy ===== *)
theory Fs_View
  imports Fs_Bytes Disk_Frame
begin

text \<open>
  The block cache is transparent: reading and writing through it is reading and writing one
  store of blocks, the view.  The invariant says that the valid slots hold different blocks and
  that a clean slot agrees with the disk.
\<close>

section \<open>The view\<close>

text \<open>A block is a store of 4096 bytes; bytes behind it are of no interest.\<close>

definition clip :: "memory \<Rightarrow> memory" where
  "clip m = (\<lambda>x. if x < 4096 then m x else 0)"

lemma clip_at [simp]: "x < 4096 \<Longrightarrow> clip m x = m x"
  by (simp add: clip_def)

lemma clip_clip [simp]: "clip (clip m) = clip m"
  by (rule ext) (simp add: clip_def)

lemma clip_eqI: "(\<And>x. x < 4096 \<Longrightarrow> m x = m' x) \<Longrightarrow> clip m = clip m'"
  by (auto simp: clip_def)

lemma clip_eqD: "clip m = clip m' \<Longrightarrow> x < 4096 \<Longrightarrow> m x = m' x"
  by (metis clip_at)

definition disk_block :: "fs \<Rightarrow> u32 \<Rightarrow> memory" where
  "disk_block s b = clip (\<lambda>x. disk_byte (fs_disk s) (512 * (1000 + 8 * unat b) + x))"

definition holds :: "u32 \<Rightarrow> cache_entry \<Rightarrow> bool" where
  "holds b e \<longleftrightarrow> ce_valid e \<and> ce_block e = b"

definition view :: "fs \<Rightarrow> u32 \<Rightarrow> memory" where
  "view s b =
     (case List.find (\<lambda>k. holds b (fs_cache s ! k)) [0..<16] of
        Some k \<Rightarrow> clip (slot_data s k) | None \<Rightarrow> disk_block s b)"

definition cache_inv :: "fs \<Rightarrow> bool" where
  "cache_inv s \<longleftrightarrow>
     length (fs_cache s) = 16 \<and> fs_disk_ready s \<and>
     (\<forall>k < 16. \<forall>l < 16. ce_valid (fs_cache s ! k) \<and> holds (ce_block (fs_cache s ! k)) (fs_cache s ! l) \<longrightarrow> k = l) \<and>
     (\<forall>k < 16. ce_valid (fs_cache s ! k) \<and> \<not> ce_dirty (fs_cache s ! k) \<longrightarrow>
        clip (slot_data s k) = disk_block s (ce_block (fs_cache s ! k)))"

lemma cache_invD:
  assumes "cache_inv s"
  shows "length (fs_cache s) = 16" "fs_disk_ready s"
    and "k < 16 \<Longrightarrow> l < 16 \<Longrightarrow> holds b (fs_cache s ! k) \<Longrightarrow> holds b (fs_cache s ! l) \<Longrightarrow> k = l"
    and "k < 16 \<Longrightarrow> holds b (fs_cache s ! k) \<Longrightarrow> \<not> ce_dirty (fs_cache s ! k) \<Longrightarrow> clip (slot_data s k) = disk_block s b"
  using assms by (auto simp: cache_inv_def holds_def)

lemma find_slot_None:
  "List.find (\<lambda>k. holds b (fs_cache s ! k)) [0..<16] = None \<longleftrightarrow> (\<forall>k < 16. \<not> holds b (fs_cache s ! k))"
  by (auto simp: find_None_iff)

lemma view_absent: "\<forall>k < 16. \<not> holds b (fs_cache s ! k) \<Longrightarrow> view s b = disk_block s b"
  using find_slot_None [of b s] by (simp add: view_def)

lemma view_held:
  assumes "cache_inv s" and "k < 16" and "holds b (fs_cache s ! k)"
  shows "view s b = clip (slot_data s k)"
proof -
  obtain l where l: "List.find (\<lambda>k. holds b (fs_cache s ! k)) [0..<16] = Some l"
    using assms(2,3) find_slot_None [of b s] by (cases "List.find (\<lambda>k. holds b (fs_cache s ! k)) [0..<16]") auto
  then have "l < 16" "holds b (fs_cache s ! l)" by (auto simp: find_Some_iff)
  then have "l = k" using cache_invD(3) [OF assms(1)] assms(2,3) by blast
  then show ?thesis by (simp add: view_def l)
qed

lemma view_clip [simp]: "clip (view s b) = view s b"
  by (simp add: view_def disk_block_def split: option.splits)

lemma viewI:
  assumes "cache_inv s" and "\<And>k. k < 16 \<Longrightarrow> holds b (fs_cache s ! k) \<Longrightarrow> clip (slot_data s k) = m"
    and "\<forall>k < 16. \<not> holds b (fs_cache s ! k) \<Longrightarrow> disk_block s b = m"
  shows "view s b = m"
  using assms by (cases "\<forall>k < 16. \<not> holds b (fs_cache s ! k)") (auto simp: view_absent view_held)

section \<open>Blocks on disk\<close>

lemma unat_ucast_u64: "unat (ucast (x :: u32) :: u64) = unat x"
proof -
  have "unat x < 2 ^ 32" using unsigned_less [of x, where 'a = nat] by simp
  then show ?thesis by (simp add: unsigned_ucast_eq take_bit_nat_eq_self_iff)
qed

lemma unat_block_lba: "unat (block_lba b) = 1000 + 8 * unat b"
  using unsigned_less [of b, where 'a = nat]
  by (simp add: block_lba_def FS_START_LBA_def unat_word_ariths unat_ucast_u64)

lemma block_transfer: "\<not> transfer_refused ready False (block_lba b) FS_SECTORS_PER_BLOCK" if "ready"
proof -
  have l: "unat (block_lba b) < 2 ^ 36"
    using unsigned_less [of b, where 'a = nat] by (simp add: unat_block_lba)
  have "block_lba b \<le> ATA_MAX_LBA48" using l by (simp add: word_le_nat_alt ATA_MAX_LBA48_def)
  moreover from this have "unat (ATA_MAX_LBA48 - block_lba b) \<ge> 7"
    using l by (simp add: unat_sub ATA_MAX_LBA48_def)
  ultimately show ?thesis using that
    by (simp add: transfer_refused_def FS_SECTORS_PER_BLOCK_def ATA_MAX_SECTORS_PER_CMD_def not_less word_le_nat_alt)
qed

lemma block_read:
  assumes "disk_read_sector_checked ready False (block_lba b) FS_SECTORS_PER_BLOCK buf d = (r, buf', d')"
  shows "disk_byte d' = disk_byte d" and "r \<noteq> 0 \<Longrightarrow> r = -1"
    and "r = 0 \<Longrightarrow> clip buf' = clip (\<lambda>x. disk_byte d (512 * (1000 + 8 * unat b) + x))"
proof -
  have "r = 0 \<and> read_so_far (unat (block_lba b)) 8 buf d 8 (buf', d') \<or> r = -1 \<and> read_harmless 8 buf d (buf', d')"
    using read_retry_effect [OF assms [unfolded disk_read_sector_checked_def]] by (simp add: FS_SECTORS_PER_BLOCK_def)
  then show "disk_byte d' = disk_byte d" "r \<noteq> 0 \<Longrightarrow> r = -1"
    and "r = 0 \<Longrightarrow> clip buf' = clip (\<lambda>x. disk_byte d (512 * (1000 + 8 * unat b) + x))"
    by (auto simp: read_so_far_def read_harmless_def unat_block_lba intro: disk_byte_cong clip_eqI)
qed

lemma block_write:
  assumes "disk_write_sector_checked ready False (block_lba b) FS_SECTORS_PER_BLOCK buf d = (r, d')"
  shows "r \<noteq> 0 \<Longrightarrow> r = -1"
    and "r = 0 \<Longrightarrow> clip (\<lambda>x. disk_byte d' (512 * (1000 + 8 * unat b) + x)) = clip buf"
    and "c \<noteq> b \<Longrightarrow> clip (\<lambda>x. disk_byte d' (512 * (1000 + 8 * unat c) + x)) =
      clip (\<lambda>x. disk_byte d (512 * (1000 + 8 * unat c) + x))"
proof -
  have e: "r = 0 \<and> write_so_far (unat (block_lba b)) 8 buf d 8 d' \<or> r = -1 \<and> write_partial (unat (block_lba b)) 8 buf d d'"
    using write_retry_effect [OF assms [unfolded disk_write_sector_checked_def]] by (simp add: FS_SECTORS_PER_BLOCK_def)
  then show "r \<noteq> 0 \<Longrightarrow> r = -1" by auto
  show "clip (\<lambda>x. disk_byte d' (512 * (1000 + 8 * unat b) + x)) = clip buf" if "r = 0"
    using e that by (auto simp: write_so_far_def unat_block_lba intro!: clip_eqI)
  show "clip (\<lambda>x. disk_byte d' (512 * (1000 + 8 * unat c) + x)) =
      clip (\<lambda>x. disk_byte d (512 * (1000 + 8 * unat c) + x))" if "c \<noteq> b"
  proof (rule clip_eqI)
    fix x :: nat assume x: "x < 4096"
    define a where "a = 512 * (1000 + 8 * unat c) + x"
    have "unat c \<noteq> unat b" using that unsigned_word_eqI by blast
    then have out: "a div 512 < unat (block_lba b) \<or> unat (block_lba b) + 8 \<le> a div 512"
      using x unfolding a_def unat_block_lba by auto
    then have out': "\<not> (512 * unat (block_lba b) \<le> a \<and> a < 512 * (unat (block_lba b) + 8))" by auto
    have "write_partial (unat (block_lba b)) 8 buf d d'"
      using e write_so_far_partial [of _ 8 buf d 8] by auto
    then have "disk_byte d' (512 * (a div 512) + a mod 512) = disk_byte d (512 * (a div 512) + a mod 512)"
      using out unfolding write_partial_def by (metis leD mod_less_divisor zero_less_numeral)
    then show "disk_byte d' (512 * (1000 + 8 * unat c) + x) = disk_byte d (512 * (1000 + 8 * unat c) + x)"
      by (simp add: a_def)
  qed
qed

section \<open>Cache operations that keep the view\<close>

text \<open>The variables the cache never touches.\<close>

definition same_fs :: "fs \<Rightarrow> fs \<Rightarrow> bool" where
  "same_fs s s' \<longleftrightarrow> fs_sb s' = fs_sb s \<and> fs_mounted s' = fs_mounted s \<and> fs_open_refs s' = fs_open_refs s \<and>
     fs_refs s' = fs_refs s \<and> fs_disk_ready s' = fs_disk_ready s"

lemma same_fs_refl [simp]: "same_fs s s"
  by (simp add: same_fs_def)

lemma same_fs_trans: "same_fs s t \<Longrightarrow> same_fs t u \<Longrightarrow> same_fs s u"
  by (simp add: same_fs_def)

lemma upd_entry_simps [simp]:
  "fs_cache (upd_entry k f s) = (fs_cache s)[k := f (fs_cache s ! k)]"
  "fs_disk (upd_entry k f s) = fs_disk s" "fs_cache_age (upd_entry k f s) = fs_cache_age s"
  "same_fs s (upd_entry k f s')  \<longleftrightarrow> same_fs s s'"
  by (simp_all add: upd_entry_def same_fs_def)

lemma disk_block_cong: "disk_byte (fs_disk s) = disk_byte (fs_disk s') \<Longrightarrow> disk_block s = disk_block s'"
  by (simp add: disk_block_def fun_eq_iff)

lemma cache_invI:
  assumes "length (fs_cache s) = 16" "fs_disk_ready s"
    and "\<And>k l. k < 16 \<Longrightarrow> l < 16 \<Longrightarrow> holds (ce_block (fs_cache s ! k)) (fs_cache s ! k) \<Longrightarrow>
      holds (ce_block (fs_cache s ! k)) (fs_cache s ! l) \<Longrightarrow> k = l"
    and "\<And>k. k < 16 \<Longrightarrow> ce_valid (fs_cache s ! k) \<Longrightarrow> \<not> ce_dirty (fs_cache s ! k) \<Longrightarrow>
      clip (slot_data s k) = disk_block s (ce_block (fs_cache s ! k))"
  shows "cache_inv s"
  using assms by (auto simp: cache_inv_def holds_def)

lemma flush_written:
  assumes inv: "cache_inv s" and k: "k < 16" and v: "ce_valid (fs_cache s ! k)" "ce_dirty (fs_cache s ! k)"
    and w: "disk_write_sector_checked (fs_disk_ready s) False (block_lba (ce_block (fs_cache s ! k)))
      FS_SECTORS_PER_BLOCK (ce_data (fs_cache s ! k)) (fs_disk s) = (r, d)"
    and c: "fs_cache t = (fs_cache s)[k := (fs_cache s ! k)\<lparr>ce_dirty := r \<noteq> 0\<rparr>]"
    and t: "fs_disk t = d" "same_fs s t"
  shows "cache_inv t" "view t = view s"
proof -
  define b where "b = ce_block (fs_cache s ! k)"
  have len: "length (fs_cache s) = 16" using cache_invD(1) [OF inv] .
  have e: "ce_valid (fs_cache t ! l) = ce_valid (fs_cache s ! l)" "ce_block (fs_cache t ! l) = ce_block (fs_cache s ! l)"
    "slot_data t l = slot_data s l" "holds c (fs_cache t ! l) = holds c (fs_cache s ! l)" for l c
    using c by (auto simp: nth_list_update slot_data_def holds_def len k)
  have other: "disk_block t c = disk_block s c" if "c \<noteq> b" for c
    using block_write(3) [OF w, of c] that by (simp add: disk_block_def t b_def)
  have stored: "disk_block t b = clip (slot_data s k)" if "r = 0"
    using block_write(2) [OF w that] by (simp add: disk_block_def t b_def slot_data_def)
  have hk: "holds b (fs_cache s ! k)" using v by (simp add: holds_def b_def)
  show "cache_inv t"
  proof (rule cache_invI)
    show "length (fs_cache t) = 16" "fs_disk_ready t"
      using len c cache_invD(2) [OF inv] t(2) by (simp_all add: same_fs_def)
    show "i = l" if "i < 16" "l < 16" "holds (ce_block (fs_cache t ! i)) (fs_cache t ! i)"
      "holds (ce_block (fs_cache t ! i)) (fs_cache t ! l)" for i l
      using cache_invD(3) [OF inv that(1,2)] that(3,4) by (simp add: e)
    show "clip (slot_data t l) = disk_block t (ce_block (fs_cache t ! l))"
      if l: "l < 16" "ce_valid (fs_cache t ! l)" "\<not> ce_dirty (fs_cache t ! l)" for l
    proof (cases "l = k")
      case True
      then show ?thesis using l c stored by (simp add: e len b_def)
    next
      case False
      then have "ce_block (fs_cache s ! l) \<noteq> b"
        using cache_invD(3) [OF inv l(1) k, of b] hk l(2) by (auto simp: e holds_def)
      then show ?thesis
        using False l c cache_invD(4) [OF inv l(1), of "ce_block (fs_cache s ! l)"]
        by (simp add: e holds_def other len)
    qed
  qed
  show "view t = view s"
  proof (rule ext, rule viewI [OF \<open>cache_inv t\<close>])
    show "clip (slot_data t l) = view s c" if "l < 16" "holds c (fs_cache t ! l)" for l c
      using that view_held [OF inv that(1)] by (simp add: e)
    show "disk_block t c = view s c" if "\<forall>l < 16. \<not> holds c (fs_cache t ! l)" for c
    proof -
      have "\<forall>l < 16. \<not> holds c (fs_cache s ! l)" using that by (simp add: e)
      moreover from this have "c \<noteq> b" using hk k by blast
      ultimately show ?thesis by (simp add: other view_absent)
    qed
  qed
qed

lemma flush_effect:
  assumes inv: "cache_inv s" and k: "k < 16" and f: "cache_flush_entry k s = (r, s')"
  shows "cache_inv s'" "view s' = view s" "same_fs s s'" "fs_cache_age s' = fs_cache_age s"
    and "ata_outcomes (fs_disk s') = ata_outcomes (fs_disk s)" "r \<in> {0, -1}"
    and "fs_cache s' = (if r = 0 \<and> ce_valid (fs_cache s ! k)
      then (fs_cache s)[k := (fs_cache s ! k)\<lparr>ce_dirty := False\<rparr>] else fs_cache s)"
    and "responsive (fs_disk s) \<Longrightarrow> r = 0"
proof -
  define e where "e = fs_cache s ! k"
  have "cache_inv s' \<and> view s' = view s \<and> same_fs s s' \<and> fs_cache_age s' = fs_cache_age s \<and>
    ata_outcomes (fs_disk s') = ata_outcomes (fs_disk s) \<and> r \<in> {0, -1} \<and>
    fs_cache s' = (if r = 0 \<and> ce_valid e then (fs_cache s)[k := e\<lparr>ce_dirty := False\<rparr>] else fs_cache s) \<and>
    (responsive (fs_disk s) \<longrightarrow> r = 0)"
  proof (cases "ce_valid e \<and> ce_dirty e")
    case False
    then have "s' = s" "r = 0" using f by (auto simp: cache_flush_entry_def e_def Let_def)
    moreover have "ce_valid e \<Longrightarrow> (fs_cache s)[k := e\<lparr>ce_dirty := False\<rparr>] = fs_cache s"
      using False by (simp add: e_def list_update_same_conv cache_invD(1) [OF inv] k)
    ultimately show ?thesis using inv by auto
  next
    case True
    obtain q d where w: "disk_write_sector_checked (fs_disk_ready s) False (block_lba (ce_block e))
      FS_SECTORS_PER_BLOCK (ce_data e) (fs_disk s) = (q, d)" by fastforce
    have s': "(r, s') = (if q \<noteq> 0 then (-1, s\<lparr>fs_disk := d\<rparr>)
        else (0, upd_entry k (ce_dirty_update (\<lambda>_. False)) (s\<lparr>fs_disk := d\<rparr>)))"
      using f True w by (auto simp: cache_flush_entry_def e_def Let_def)
    have c: "fs_cache s' = (fs_cache s)[k := e\<lparr>ce_dirty := q \<noteq> 0\<rparr>]"
    proof (cases "q = 0")
      case False
      have "e\<lparr>ce_dirty := True\<rparr> = e" using True by (cases e) simp
      then show ?thesis using s' False by (simp add: e_def)
    qed (use s' in \<open>simp add: e_def\<close>)
    have t: "fs_disk s' = d" "same_fs s s'" "fs_cache_age s' = fs_cache_age s"
      using s' by (auto simp: same_fs_def upd_entry_def split: if_splits)
    have "cache_inv s'" "view s' = view s"
      using flush_written [OF inv k _ _ _ _ t(1,2)] True w c by (simp_all add: e_def)
    moreover have "ata_outcomes d = ata_outcomes (fs_disk s)"
      using write_checked_outcomes [of "fs_disk_ready s" False "block_lba (ce_block e)" FS_SECTORS_PER_BLOCK "ce_data e" "fs_disk s"]
      by (simp add: w)
    moreover have "responsive (fs_disk s) \<Longrightarrow> q = 0"
      using checked_succeed(2) [OF _ block_transfer, of "fs_disk s" "fs_disk_ready s" "ce_block e" "ce_data e"]
        cache_invD(2) [OF inv] w by simp
    ultimately show ?thesis using s' t c True by (auto split: if_splits)
  qed
  then show "cache_inv s'" "view s' = view s" "same_fs s s'" "fs_cache_age s' = fs_cache_age s"
    "ata_outcomes (fs_disk s') = ata_outcomes (fs_disk s)" "r \<in> {0, -1}"
    "fs_cache s' = (if r = 0 \<and> ce_valid (fs_cache s ! k)
      then (fs_cache s)[k := (fs_cache s ! k)\<lparr>ce_dirty := False\<rparr>] else fs_cache s)"
    "responsive (fs_disk s) \<Longrightarrow> r = 0"
    by (simp_all add: e_def)
qed

section \<open>Fetching a block\<close>

text \<open>A scan that does not hit names a slot that does not hold the block.\<close>

lemma cache_scan_hit:
  "cache_scan b i es v old = Inl k \<Longrightarrow> i \<le> k \<and> k < i + length es \<and> holds b (es ! (k - i))"
proof (induction b i es v old rule: cache_scan.induct)
  case (2 b i e es v old)
  then show ?case
    by (fastforce simp: holds_def Suc_diff_le split: if_splits)
qed simp

lemma cache_scan_miss:
  "cache_scan b i es v old = Inr w \<Longrightarrow>
   (\<forall>e \<in> set es. \<not> holds b e) \<and> (w = v \<or> (\<exists>k. w = Some k \<and> i \<le> k \<and> k < i + length es))"
proof (induction b i es v old rule: cache_scan.induct)
  case (2 b i e es v old)
  have n: "\<not> (ce_valid e \<and> ce_block e = b)" using 2(3) by (auto split: if_splits)
  then have nh: "\<not> holds b e" by (simp add: holds_def)
  show ?case
  proof (cases "\<not> ce_valid e \<or> ce_age e < old")
    case True
    then have "cache_scan b (Suc i) es (Some i) (ce_age e) = Inr w" using 2(3) n by auto
    with 2(1) [OF n True] nh show ?thesis by auto
  next
    case False
    then have "cache_scan b (Suc i) es v old = Inr w" using 2(3) n by auto
    with 2(2) [OF n False] nh show ?thesis by auto
  qed
qed simp

lemma fill_effect:
  assumes inv: "cache_inv s" and k: "k < 16" and clean: "\<not> (ce_valid (fs_cache s ! k) \<and> ce_dirty (fs_cache s ! k))"
    and miss: "\<forall>l < 16. \<not> holds b (fs_cache s ! l)"
    and f: "cache_fill b wr k s = (Some j, s')"
  shows "j = k" "cache_inv s'" "view s' = view s" "holds b (fs_cache s' ! k)" "ce_dirty (fs_cache s' ! k) = wr"
proof -
  obtain r data d where rd: "disk_read_sector_checked (fs_disk_ready s) False (block_lba b) FS_SECTORS_PER_BLOCK
    (ce_data (fs_cache s ! k)) (fs_disk s) = (r, data, d)" by (metis prod_cases3)
  define e' where "e' = (fs_cache s ! k)\<lparr>ce_data := data, ce_block := b, ce_valid := True, ce_dirty := wr, ce_age := fs_cache_age s + 1\<rparr>"
  have r: "r = 0" "j = k" and s': "s' = s\<lparr>fs_disk := d, fs_cache := (fs_cache s)[k := e'], fs_cache_age := fs_cache_age s + 1\<rparr>"
    using f rd k cache_invD(1) [OF inv]
    by (auto simp: cache_fill_def e'_def Let_def poke_def upd_entry_def split: if_splits)
  have len: "length (fs_cache s) = 16" using cache_invD(1) [OF inv] .
  have db: "disk_block s' = disk_block s" using block_read(1) [OF rd] by (auto simp: s' intro: disk_block_cong)
  have at_k: "fs_cache s' ! k = e'" "clip (slot_data s' k) = disk_block s b"
    using k len block_read(3) [OF rd r(1)] by (simp_all add: s' slot_data_def e'_def disk_block_def)
  have at_l: "fs_cache s' ! l = fs_cache s ! l" "slot_data s' l = slot_data s l" if "l \<noteq> k" for l
    using that by (simp_all add: s' slot_data_def)
  have hk: "holds c e' \<longleftrightarrow> c = b" for c by (auto simp: holds_def e'_def)
  show "j = k" by (rule r(2))
  show "holds b (fs_cache s' ! k)" "ce_dirty (fs_cache s' ! k) = wr" by (simp_all add: at_k hk) (simp add: e'_def)
  show inv': "cache_inv s'"
  proof (rule cache_invI)
    show "length (fs_cache s') = 16" "fs_disk_ready s'" using len cache_invD(2) [OF inv] by (simp_all add: s')
    show "i = l" if i: "i < 16" "l < 16" "holds (ce_block (fs_cache s' ! i)) (fs_cache s' ! i)"
      "holds (ce_block (fs_cache s' ! i)) (fs_cache s' ! l)" for i l
      using i miss cache_invD(3) [OF inv i(1,2), of "ce_block (fs_cache s' ! i)"]
      by (cases "i = k"; cases "l = k") (auto simp: at_k at_l hk)
    show "clip (slot_data s' l) = disk_block s' (ce_block (fs_cache s' ! l))"
      if l: "l < 16" "ce_valid (fs_cache s' ! l)" "\<not> ce_dirty (fs_cache s' ! l)" for l
      using l cache_invD(4) [OF inv l(1), of "ce_block (fs_cache s ! l)"]
      by (cases "l = k") (auto simp: at_k at_l db e'_def holds_def)
  qed
  show "view s' = view s"
  proof (rule ext, rule viewI [OF inv'])
    show "clip (slot_data s' l) = view s c" if "l < 16" "holds c (fs_cache s' ! l)" for l c
      using that view_held [OF inv that(1), of c] miss by (cases "l = k") (auto simp: at_k at_l hk view_absent)
    show "disk_block s' c = view s c" if "\<forall>l < 16. \<not> holds c (fs_cache s' ! l)" for c
    proof (rule sym, rule viewI [OF inv])
      show "clip (slot_data s l) = disk_block s' c" if l: "l < 16" "holds c (fs_cache s ! l)" for l
      proof -
        have "l = k" using that \<open>\<forall>l < 16. \<not> holds c (fs_cache s' ! l)\<close> at_l by metis
        then show ?thesis using l clean cache_invD(4) [OF inv l(1), of c] by (simp add: db holds_def)
      qed
    qed (simp add: db)
  qed
qed

lemma cache_scan_none:
  "cache_scan b i es v old = Inr None \<Longrightarrow> v = None \<and> (\<forall>e \<in> set es. \<not> ce_age e < old)"
proof (induction b i es v old rule: cache_scan.induct)
  case (2 b i e es v old)
  have n: "\<not> (ce_valid e \<and> ce_block e = b)" using 2(3) by (metis cache_scan.simps(2) sum.distinct(1))
  have f: "\<not> (\<not> ce_valid e \<or> ce_age e < old)"
  proof
    assume a: "\<not> ce_valid e \<or> ce_age e < old"
    then have "cache_scan b (Suc i) es (Some i) (ce_age e) = Inr None" using 2(3) n by (simp only: cache_scan.simps if_False if_True)
    from 2(1) [OF n a this] show False by simp
  qed
  then have "cache_scan b (Suc i) es v old = Inr None" using 2(3) n by (simp only: cache_scan.simps if_False)
  from 2(2) [OF n f this] f show ?case by simp
qed simp

lemma hit_effect:
  assumes inv: "cache_inv s" and k: "k < 16" "holds b (fs_cache s ! k)"
  shows "cache_inv (cache_hit k wr s)" "view (cache_hit k wr s) = view s"
    and "fs_cache (cache_hit k wr s) = (fs_cache s)[k := (fs_cache s ! k)\<lparr>ce_age := fs_cache_age s + 1,
      ce_dirty := ce_dirty (fs_cache s ! k) \<or> wr\<rparr>]"
    and "fs_cache_age (cache_hit k wr s) = fs_cache_age s + 1" "fs_disk (cache_hit k wr s) = fs_disk s"
    and "same_fs s (cache_hit k wr s)"
proof -
  define t where "t = cache_hit k wr s"
  have len: "length (fs_cache s) = 16" using cache_invD(1) [OF inv] .
  show c: "fs_cache (cache_hit k wr s) = (fs_cache s)[k := (fs_cache s ! k)\<lparr>ce_age := fs_cache_age s + 1,
      ce_dirty := ce_dirty (fs_cache s ! k) \<or> wr\<rparr>]"
    "fs_cache_age (cache_hit k wr s) = fs_cache_age s + 1" "fs_disk (cache_hit k wr s) = fs_disk s"
    "same_fs s (cache_hit k wr s)"
    by (simp_all add: cache_hit_def Let_def same_fs_def upd_entry_def)
  have e: "ce_valid (fs_cache t ! l) = ce_valid (fs_cache s ! l)" "ce_block (fs_cache t ! l) = ce_block (fs_cache s ! l)"
    "slot_data t l = slot_data s l" "holds x (fs_cache t ! l) = holds x (fs_cache s ! l)"
    "\<not> ce_dirty (fs_cache t ! l) \<Longrightarrow> \<not> ce_dirty (fs_cache s ! l)" for l x
    using c(1) by (cases "l = k"; simp add: t_def nth_list_update slot_data_def holds_def len k)+
  have db: "disk_block t = disk_block s" by (rule disk_block_cong) (simp add: t_def c)
  show inv': "cache_inv (cache_hit k wr s)"
    unfolding t_def [symmetric]
  proof (rule cache_invI)
    show "length (fs_cache t) = 16" "fs_disk_ready t" using len cache_invD(2) [OF inv] c by (simp_all add: t_def same_fs_def)
    show "i = l" if i: "i < 16" "l < 16" "holds (ce_block (fs_cache t ! i)) (fs_cache t ! i)"
      "holds (ce_block (fs_cache t ! i)) (fs_cache t ! l)" for i l
      using i cache_invD(3) [OF inv i(1,2)] by (simp add: e(2,4))
    show "clip (slot_data t l) = disk_block t (ce_block (fs_cache t ! l))"
      if l: "l < 16" "ce_valid (fs_cache t ! l)" "\<not> ce_dirty (fs_cache t ! l)" for l
      using l cache_invD(4) [OF inv l(1)] e(5) [OF l(3)] by (simp add: e(1-3) db holds_def)
  qed
  show "view (cache_hit k wr s) = view s"
    unfolding t_def [symmetric]
    by (rule ext, rule viewI [OF inv' [folded t_def]])
      (auto simp: e db view_held [OF inv] view_absent)
qed

lemma cache_get_Some:
  assumes inv: "cache_inv s" and g: "cache_get b wr s = (Some k, s')"
  shows "b < sb_total_blocks (fs_sb s)" "cache_inv s'" "view s' = view s" "same_fs s s'" "k < 16"
    and "holds b (fs_cache s' ! k)" "wr \<Longrightarrow> ce_dirty (fs_cache s' ! k)"
    and "fs_cache_age s' = fs_cache_age s + 1" "ata_outcomes (fs_disk s') = ata_outcomes (fs_disk s)"
    and "ce_age (fs_cache s' ! k) = fs_cache_age s'"
    and "l < 16 \<Longrightarrow> l \<noteq> k \<Longrightarrow> fs_cache s' ! l = fs_cache s ! l"
    and "\<not> holds b (fs_cache s ! k) \<Longrightarrow> cache_scan b 0 (fs_cache s) None (- 1) = Inr (Some k)"
proof -
  have len: "length (fs_cache s) = 16" using cache_invD(1) [OF inv] .
  show b: "b < sb_total_blocks (fs_sb s)" using g by (auto simp: cache_get_def split: if_splits)
  have nb: "\<not> sb_total_blocks (fs_sb s) \<le> b" using b by simp
  have "cache_inv s' \<and> view s' = view s \<and> same_fs s s' \<and> k < 16 \<and> holds b (fs_cache s' ! k) \<and>
    (wr \<longrightarrow> ce_dirty (fs_cache s' ! k)) \<and> fs_cache_age s' = fs_cache_age s + 1 \<and>
    ata_outcomes (fs_disk s') = ata_outcomes (fs_disk s) \<and> ce_age (fs_cache s' ! k) = fs_cache_age s' \<and>
    (\<forall>l < 16. l \<noteq> k \<longrightarrow> fs_cache s' ! l = fs_cache s ! l) \<and>
    (\<not> holds b (fs_cache s ! k) \<longrightarrow> cache_scan b 0 (fs_cache s) None (- 1) = Inr (Some k))"
  proof (cases "cache_scan b 0 (fs_cache s) None (- 1)")
    case (Inl j)
    then have j: "j < 16" "holds b (fs_cache s ! j)" using cache_scan_hit [OF Inl] len by simp_all
    have "k = j" "s' = cache_hit j wr s" using g nb Inl by (auto simp: cache_get_def)
    then show ?thesis using hit_effect [OF inv j, of wr] j len by (auto simp: holds_def)
  next
    case (Inr v)
    obtain j where v: "v = Some j" using g nb Inr by (cases v) (auto simp: cache_get_def)
    have miss: "\<forall>l < 16. \<not> holds b (fs_cache s ! l)" and j: "j < 16"
      using cache_scan_miss [OF Inr] len v by auto
    obtain r s1 where f: "cache_flush_entry j s = (r, s1)" by fastforce
    note fe = flush_effect [OF inv j f]
    have r: "r = 0" and fill: "cache_fill b wr j s1 = (Some k, s')"
      using g nb Inr v f by (auto simp: cache_get_def split: if_splits)
    have len1: "length (fs_cache s1) = 16" using fe(7) len by simp
    have "holds x (fs_cache s1 ! l) = holds x (fs_cache s ! l)" for x l
      using fe(7) len j by (cases "l = j") (simp_all add: holds_def)
    then have "\<forall>l < 16. \<not> holds b (fs_cache s1 ! l)" using miss by simp
    moreover have "\<not> (ce_valid (fs_cache s1 ! j) \<and> ce_dirty (fs_cache s1 ! j))"
      using fe(7) r len j by simp
    ultimately have fl: "k = j" "cache_inv s'" "view s' = view s1" "holds b (fs_cache s' ! j)" "ce_dirty (fs_cache s' ! j) = wr"
      using fill_effect [OF fe(1) j _ _ fill] by auto
    obtain q data d where rd: "disk_read_sector_checked (fs_disk_ready s1) False (block_lba b) FS_SECTORS_PER_BLOCK
      (ce_data (fs_cache s1 ! j)) (fs_disk s1) = (q, data, d)" by (metis prod_cases3)
    have s': "s' = upd_entry j (\<lambda>e. e\<lparr>ce_block := b, ce_valid := True, ce_dirty := wr, ce_age := fs_cache_age s1 + 1\<rparr>)
      (poke j (\<lambda>_. data) (s1\<lparr>fs_disk := d\<rparr>)\<lparr>fs_cache_age := fs_cache_age s1 + 1\<rparr>)"
      using fill rd by (auto simp: cache_fill_def Let_def split: if_splits)
    have "ata_outcomes d = ata_outcomes (fs_disk s1)"
      using read_checked_outcomes [of "fs_disk_ready s1" False "block_lba b" FS_SECTORS_PER_BLOCK "ce_data (fs_cache s1 ! j)" "fs_disk s1"]
      by (simp add: rd)
    moreover have "same_fs s1 s'" by (simp add: s' same_fs_def poke_def upd_entry_def)
    ultimately show ?thesis
      using fl fe j len1 Inr v miss
      by (auto simp: s' poke_def intro: same_fs_trans split: if_splits)
  qed
  then show "cache_inv s'" "view s' = view s" "same_fs s s'" "k < 16"
    "holds b (fs_cache s' ! k)" "wr \<Longrightarrow> ce_dirty (fs_cache s' ! k)"
    "fs_cache_age s' = fs_cache_age s + 1" "ata_outcomes (fs_disk s') = ata_outcomes (fs_disk s)"
    "ce_age (fs_cache s' ! k) = fs_cache_age s'"
    "l < 16 \<Longrightarrow> l \<noteq> k \<Longrightarrow> fs_cache s' ! l = fs_cache s ! l"
    "\<not> holds b (fs_cache s ! k) \<Longrightarrow> cache_scan b 0 (fs_cache s) None (- 1) = Inr (Some k)"
    by blast+
qed

section \<open>A cache that keeps answering\<close>

text \<open>
  The drive answers, and \<open>n\<close> more fetches do not exhaust the 32-bit clock that orders the slots
  by their last use.
\<close>

definition good :: "nat \<Rightarrow> fs \<Rightarrow> bool" where
  "good n s \<longleftrightarrow> cache_inv s \<and> responsive (fs_disk s) \<and>
     (\<forall>k < 16. unat (ce_age (fs_cache s ! k)) \<le> unat (fs_cache_age s)) \<and>
     unat (fs_cache_age s) + n < 2 ^ 32 - 1"

lemma good_inv: "good n s \<Longrightarrow> cache_inv s"
  by (simp add: good_def)

lemma good_less: "good n s \<Longrightarrow> m \<le> n \<Longrightarrow> good m s"
  by (auto simp: good_def)

lemma good_ready: "good n s \<Longrightarrow> fs_disk_ready s"
  by (auto simp: good_def dest: cache_invD(2))

text \<open>Slot \<open>k\<close> holds block \<open>b\<close>, ready to be changed if \<open>wr\<close>.\<close>

definition fetched :: "u32 \<Rightarrow> bool \<Rightarrow> nat \<Rightarrow> fs \<Rightarrow> bool" where
  "fetched b wr k s \<longleftrightarrow> k < 16 \<and> holds b (fs_cache s ! k) \<and> (wr \<longrightarrow> ce_dirty (fs_cache s ! k))"

lemma fetched_data: "cache_inv s \<Longrightarrow> fetched b wr k s \<Longrightarrow> clip (slot_data s k) = view s b"
  using view_held [of s k b] by (simp add: fetched_def)

lemma fetched_byte: "cache_inv s \<Longrightarrow> fetched b wr k s \<Longrightarrow> x < 4096 \<Longrightarrow> slot_data s k x = view s b x"
  by (metis clip_at fetched_data)

lemma cache_get_fails: "sb_total_blocks (fs_sb s) \<le> b \<Longrightarrow> cache_get b wr s = (None, s)"
  by (simp add: cache_get_def)

lemma cache_get_answers:
  assumes g: "good (Suc n) s" and b: "b < sb_total_blocks (fs_sb s)"
  shows "fst (cache_get b wr s) \<noteq> None"
proof
  assume "fst (cache_get b wr s) = None"
  then obtain s' where n: "cache_get b wr s = (None, s')" by (cases "cache_get b wr s") simp
  have inv: "cache_inv s" and resp: "responsive (fs_disk s)" using g by (simp_all add: good_def)
  have len: "length (fs_cache s) = 16" using cache_invD(1) [OF inv] .
  have nb: "\<not> sb_total_blocks (fs_sb s) \<le> b" using b by simp
  have "ce_age (fs_cache s ! 0) < - 1"
    using g by (auto simp: good_def word_less_nat_alt unsigned_minus_1_eq_mask mask_eq_exp_minus_1 dest!: spec [of _ 0])
  then have "cache_scan b 0 (fs_cache s) None (- 1) \<noteq> Inr None"
    using cache_scan_none [of b 0 "fs_cache s" None "- 1"] len nth_mem [of 0 "fs_cache s"] by auto
  then obtain j where j: "cache_scan b 0 (fs_cache s) None (- 1) = Inr (Some j)"
    using n nb by (auto simp: cache_get_def split: sum.splits option.splits)
  then have j16: "j < 16" using cache_scan_miss [OF j] len by simp
  obtain r s1 where f: "cache_flush_entry j s = (r, s1)" by fastforce
  note fe = flush_effect [OF inv j16 f]
  obtain q data d where rd: "disk_read_sector_checked (fs_disk_ready s1) False (block_lba b) FS_SECTORS_PER_BLOCK
    (ce_data (fs_cache s1 ! j)) (fs_disk s1) = (q, data, d)" by (metis prod_cases3)
  have "responsive (fs_disk s1)" using resp responsive_cong [OF fe(5)] by simp
  then have "q = 0"
    using checked_succeed(1) [OF _ block_transfer [OF cache_invD(2) [OF fe(1)]], of "fs_disk s1" b] rd by (metis fst_conv)
  then show False using n nb j f fe(8) [OF resp] rd by (auto simp: cache_get_def cache_fill_def Let_def)
qed

lemma cache_get_good:
  assumes "good (Suc n) s" and "b < sb_total_blocks (fs_sb s)"
  obtains k s' where "cache_get b wr s = (Some k, s')" "good n s'" "view s' = view s" "same_fs s s'" "fetched b wr k s'"
proof -
  have inv: "cache_inv s" using assms(1) by (rule good_inv)
  obtain k s' where g: "cache_get b wr s = (Some k, s')"
    using cache_get_answers [OF assms, of wr] by (cases "cache_get b wr s") auto
  note e = cache_get_Some [OF inv g]
  have a: "unat (fs_cache_age s') = Suc (unat (fs_cache_age s))"
    using assms(1) by (simp add: e(8) good_def unat_word_ariths)
  have "unat (ce_age (fs_cache s' ! l)) \<le> unat (fs_cache_age s')" if "l < 16" for l
  proof (cases "l = k")
    case False
    then show ?thesis using e(11) [OF that False] assms(1) that a by (auto simp: good_def intro: le_SucI)
  qed (simp add: e(10))
  then have "good n s'"
    using e(2) assms(1) a responsive_cong [OF e(9)] by (simp add: good_def)
  moreover have "fetched b wr k s'" using e(5-7) by (auto simp: fetched_def)
  ultimately show thesis using that g e(3,4) by blast
qed

lemma poke_effect:
  assumes inv: "cache_inv s" and k: "fetched b True k s"
    and local: "clip (f (slot_data s k)) = clip (f (view s b))"
  shows "cache_inv (poke k f s)" "view (poke k f s) = (view s)(b := clip (f (view s b)))" "same_fs s (poke k f s)"
    and "good n s \<Longrightarrow> good n (poke k f s)"
proof -
  define t where "t = poke k f s"
  have kk: "k < 16" "holds b (fs_cache s ! k)" "ce_dirty (fs_cache s ! k)" using k by (simp_all add: fetched_def)
  have len: "length (fs_cache s) = 16" using cache_invD(1) [OF inv] .
  have c: "fs_cache t = (fs_cache s)[k := ce_data_update f (fs_cache s ! k)]"
    "fs_disk t = fs_disk s" "same_fs s t" "fs_cache_age t = fs_cache_age s"
    by (simp_all add: t_def poke_def)
  have e: "ce_valid (fs_cache t ! l) = ce_valid (fs_cache s ! l)" "ce_block (fs_cache t ! l) = ce_block (fs_cache s ! l)"
    "holds x (fs_cache t ! l) = holds x (fs_cache s ! l)" "ce_dirty (fs_cache t ! l) = ce_dirty (fs_cache s ! l)"
    "ce_age (fs_cache t ! l) = ce_age (fs_cache s ! l)"
    "l \<noteq> k \<Longrightarrow> slot_data t l = slot_data s l" "slot_data t k = f (slot_data s k)" for l x
    by (cases "l = k"; simp add: c(1) slot_data_def holds_def len kk)+
  have db: "disk_block t = disk_block s" by (rule disk_block_cong) (simp add: c)
  have inv': "cache_inv t"
  proof (rule cache_invI)
    show "length (fs_cache t) = 16" "fs_disk_ready t" using len cache_invD(2) [OF inv] c by (simp_all add: same_fs_def)
    show "i = l" if i: "i < 16" "l < 16" "holds (ce_block (fs_cache t ! i)) (fs_cache t ! i)"
      "holds (ce_block (fs_cache t ! i)) (fs_cache t ! l)" for i l
      using i cache_invD(3) [OF inv i(1,2)] by (simp add: e)
    show "clip (slot_data t l) = disk_block t (ce_block (fs_cache t ! l))"
      if l: "l < 16" "ce_valid (fs_cache t ! l)" "\<not> ce_dirty (fs_cache t ! l)" for l
    proof -
      have "l \<noteq> k" using l(3) kk(3) by (auto simp: e)
      then show ?thesis using l cache_invD(4) [OF inv l(1)] by (simp add: e db holds_def)
    qed
  qed
  have "view t x = (if x = b then clip (f (view s b)) else view s x)" for x
  proof (rule viewI [OF inv'])
    show "clip (slot_data t l) = (if x = b then clip (f (view s b)) else view s x)" if "l < 16" "holds x (fs_cache t ! l)" for l
    proof (cases "l = k")
      case True
      then have "x = b" using that(2) kk(2) by (simp add: e) (simp add: holds_def)
      then show ?thesis using True local by (simp add: e)
    next
      case False
      then have "x \<noteq> b" using cache_invD(3) [OF inv that(1) kk(1), of b] kk(2) that(2) by (auto simp: e)
      then show ?thesis using False that view_held [OF inv that(1)] by (simp add: e)
    qed
    show "disk_block t x = (if x = b then clip (f (view s b)) else view s x)" if "\<forall>l < 16. \<not> holds x (fs_cache t ! l)"
      using that kk(1,2) by (auto simp: e db view_absent)
  qed
  then show "view (poke k f s) = (view s)(b := clip (f (view s b)))" by (auto simp: t_def [symmetric])
  show "cache_inv (poke k f s)" "same_fs s (poke k f s)" using inv' c by (simp_all add: t_def)
  show "good n (poke k f s)" if "good n s"
    using that inv' c(2,4) by (simp add: good_def t_def [symmetric] e)
qed

section \<open>Writing the dirty blocks back\<close>

definition flushed :: "fs \<Rightarrow> nat \<Rightarrow> int \<times> fs \<Rightarrow> bool" where
  "flushed s j = (\<lambda>(r, s'). cache_inv s' \<and> view s' = view s \<and> same_fs s s' \<and> fs_cache_age s' = fs_cache_age s \<and>
     ata_outcomes (fs_disk s') = ata_outcomes (fs_disk s) \<and>
     (\<forall>l < 16. ce_age (fs_cache s' ! l) = ce_age (fs_cache s ! l)) \<and>
     (\<forall>l < j. \<not> (ce_valid (fs_cache s' ! l) \<and> ce_dirty (fs_cache s' ! l))))"

lemma sync_effect:
  assumes inv: "cache_inv s" and y: "cache_sync s = (r, s')"
  shows "cache_inv s'" "view s' = view s" "same_fs s s'" "r = 0 \<or> r = -1"
    and "r = 0 \<Longrightarrow> disk_block s' = view s" "good n s \<Longrightarrow> good n s'" "good n s \<Longrightarrow> r = 0"
proof -
  define body where "body = (\<lambda>k (r :: int, s). case cache_flush_entry k s of (r', s1) \<Rightarrow>
              (if r' \<noteq> 0 then Return else Continue, r', s1))"
  obtain c q t where loop: "for_loop body [0..<16] (0, s) = (c, q, t)" by (metis prod_cases3)
  have rs: "(r, s') = (if c = Continue then (0, t) else (-1, t))"
    using y loop by (cases c) (auto simp: cache_sync_def body_def FS_CACHE_ENTRIES_def)
  have round: "case c of Continue \<Rightarrow> flushed s (Suc j) u' | Break \<Rightarrow> False
      | Return \<Rightarrow> flushed s 0 u' \<and> \<not> responsive (fs_disk s)"
    if j: "j < 16" and f: "flushed s j u" and b: "body j u = (c, u')" for j u c u'
  proof -
    obtain x v where u: "u = (x, v)" by (cases u)
    obtain x' v' where fl: "cache_flush_entry j v = (x', v')" by fastforce
    have v: "cache_inv v" using f by (simp add: flushed_def u)
    note fe = flush_effect [OF v j fl]
    have len: "length (fs_cache v) = 16" using cache_invD(1) [OF v] .
    have ages: "ce_age (fs_cache v' ! l) = ce_age (fs_cache v ! l)" for l
      using fe(7) len j by (cases "l = j") simp_all
    have "\<not> (ce_valid (fs_cache v' ! l) \<and> ce_dirty (fs_cache v' ! l))" if "l < Suc j" "x' = 0" for l
      using that f fe(7) len j by (cases "l = j") (auto simp: flushed_def u)
    then have "x' = 0 \<Longrightarrow> flushed s (Suc j) (x', v')" "flushed s 0 (x', v')"
      using f fe ages by (auto simp: flushed_def u intro: same_fs_trans)
    moreover have "x' \<noteq> 0 \<Longrightarrow> \<not> responsive (fs_disk s)"
      using fe(8) f responsive_cong [of "fs_disk v" "fs_disk s"] by (auto simp: flushed_def u)
    ultimately show ?thesis using b by (auto simp: body_def u fl)
  qed
  have "case c of Continue \<Rightarrow> flushed s 16 (q, t) | Break \<Rightarrow> False | Return \<Rightarrow> flushed s 0 (q, t) \<and> \<not> responsive (fs_disk s)"
    by (rule for_loop_upt [where P = "flushed s" and i = 0 and body = body and s = "(0, s)"])
      (use inv loop round in \<open>auto simp: flushed_def\<close>)
  then have t: "flushed s 0 (q, t)" "c = Continue \<Longrightarrow> flushed s 16 (q, t)" "c \<noteq> Continue \<Longrightarrow> \<not> responsive (fs_disk s)" "s' = t"
    using rs by (cases c; auto simp: flushed_def split: if_splits)+
  show "cache_inv s'" "view s' = view s" "same_fs s s'" using t(1,4) by (simp_all add: flushed_def)
  show "r = 0 \<or> r = -1" using rs by (auto split: if_splits)
  show "good n s \<Longrightarrow> r = 0" using t(3) rs by (auto simp: good_def split: if_splits)
  show "good n s \<Longrightarrow> good n s'"
    using t(1,4) responsive_cong [of "fs_disk s'" "fs_disk s"] by (auto simp: good_def flushed_def)
  show "disk_block s' = view s" if "r = 0"
  proof
    fix b
    have f: "flushed s 16 (q, s')" using that rs t by (auto split: if_splits)
    then have i: "cache_inv s'" by (simp add: flushed_def)
    have "view s' b = disk_block s' b"
      by (rule viewI [OF i]) (use f cache_invD(4) [OF i] in \<open>auto simp: flushed_def holds_def\<close>)
    then show "disk_block s' b = view s b" using f by (simp add: flushed_def)
  qed
qed

end
