(* ===== verification/Fs_Meta.thy ===== *)
theory Fs_Meta
  imports Fs_View
begin

text \<open>
  Inodes and bitmaps over the view: the layout that mounting accepts gives every structure its
  own blocks, an inode is read back as it was stored and storing it touches no other inode, and
  the bitmap operations find, set and clear exactly one bit.
\<close>

section \<open>The layout\<close>

text \<open>The layout in unbounded arithmetic.\<close>

definition layout_nat :: "super_block \<Rightarrow> bool" where
  "layout_nat sb \<longleftrightarrow>
     2 \<le> unat (sb_imap_start sb) \<and>
     unat (sb_imap_start sb) + unat (sb_imap_blocks sb) \<le> unat (sb_bmap_start sb) \<and>
     unat (sb_bmap_start sb) + unat (sb_bmap_blocks sb) \<le> unat (sb_inode_start sb) \<and>
     unat (sb_inode_start sb) + unat (sb_inode_blocks sb) \<le> unat (sb_first_data_block sb) \<and>
     unat (sb_first_data_block sb) < unat (sb_total_blocks sb) \<and>
     1 < unat (sb_total_inodes sb) \<and>
     unat (sb_total_inodes sb) \<le> 32768 * unat (sb_imap_blocks sb) \<and>
     unat (sb_total_blocks sb) \<le> 32768 * unat (sb_bmap_blocks sb) \<and>
     unat (sb_total_inodes sb) \<le> 56 * unat (sb_inode_blocks sb)"

lemma unat_sum64: "unat (ucast (x :: u32) + ucast (y :: u32) :: u64) = unat x + unat y"
  using unsigned_less [of x, where 'a = nat] unsigned_less [of y, where 'a = nat]
  by (simp add: unat_word_ariths unat_ucast_u64)

lemma round_up64:
  assumes "0 < c" and "c < 2 ^ 31"
  shows "unat ((ucast (x :: u32) + of_nat c - 1) div of_nat c :: u64) = (unat x + c - 1) div c"
proof -
  have "unat x < 2 ^ 32" using unsigned_less [of x, where 'a = nat] by simp
  then have s: "unat (ucast x + of_nat c :: u64) = unat x + c"
    using assms by (simp add: unat_word_ariths unat_ucast_u64 unat_of_nat)
  then have "ucast x + of_nat c \<noteq> (0 :: u64)" using assms by auto
  from unat_minus_one [OF this] have "unat (ucast x + of_nat c - 1 :: u64) = unat x + c - 1" using s by simp
  then show ?thesis using assms by (simp add: unat_div unat_of_nat)
qed

lemma round_up_le:
  assumes "0 < c"
  shows "((x :: nat) + c - 1) div c \<le> y \<longleftrightarrow> x \<le> c * y"
proof
  assume "(x + c - 1) div c \<le> y"
  then have "x + c - 1 < c * (y + 1)" using assms by (metis Suc_eq_plus1 div_less_iff_less_mult le_imp_less_Suc mult.commute)
  then show "x \<le> c * y" using assms by (simp add: algebra_simps)
next
  assume "x \<le> c * y"
  then have "x + c - 1 < c * (y + 1)" using assms by (simp add: algebra_simps)
  then show "(x + c - 1) div c \<le> y" using assms
    by (metis Suc_eq_plus1 div_less_iff_less_mult less_Suc_eq_le mult.commute)
qed

text \<open>No check of the mount code is weakened by wrap-around.\<close>

lemma layout_valid_iff:
  "layout_valid sb \<longleftrightarrow> sb_magic sb = FS_MAGIC \<and> sb_version sb = FS_FORMAT_VERSION \<and> sb_block_size sb = 4096 \<and> layout_nat sb"
proof -
  have b: "ucast (sb_total_blocks sb) \<le> FS_MAX_BLOCKS_LBA48"
    using unsigned_less [of "sb_total_blocks sb", where 'a = nat]
    by (simp add: word_le_nat_alt unat_ucast_u64 FS_MAX_BLOCKS_LBA48_def FS_ATA_LBA48_MAX_def FS_START_LBA_def)
  have r: "(ucast y :: u64) \<ge> (ucast x + 4096 * 8 - 1) div (4096 * 8) \<longleftrightarrow> unat x \<le> 32768 * unat y" for x y :: u32
    using round_up64 [of 32768 x] round_up_le [of 32768 "unat x" "unat y"] by (simp add: word_le_nat_alt unat_ucast_u64)
  have q: "(ucast y :: u64) \<ge> (ucast x + 56 - 1) div 56 \<longleftrightarrow> unat x \<le> 56 * unat y" for x y :: u32
    using round_up64 [of 56 x] round_up_le [of 56 "unat x" "unat y"] by (simp add: word_le_nat_alt unat_ucast_u64)
  show ?thesis
    unfolding layout_valid_def layout_nat_def Let_def r q
    using b by (auto simp: word_le_nat_alt word_less_nat_alt unat_sum64 unat_ucast_u64 FS_ROOT_INODE_def)
qed

section \<open>Inodes\<close>

definition inode_blk :: "super_block \<Rightarrow> u32 \<Rightarrow> u32" where
  "inode_blk sb nr = sb_inode_start sb + nr div INODES_PER_BLOCK"

lemma inode_block_eq: "inode_block nr s = inode_blk (fs_sb s) nr"
  by (simp add: inode_block_def inode_blk_def)

lemma unat_inode_blk:
  assumes "layout_nat sb" and "nr < sb_total_inodes sb"
  shows "unat (inode_blk sb nr) = unat (sb_inode_start sb) + unat nr div 56"
    and "inode_blk sb nr < sb_first_data_block sb" "inode_blk sb nr < sb_total_blocks sb"
    and "sb_inode_start sb \<le> inode_blk sb nr"
proof -
  have n: "unat nr < 56 * unat (sb_inode_blocks sb)"
    using assms by (simp add: layout_nat_def word_less_nat_alt)
  then have q: "unat nr div 56 < unat (sb_inode_blocks sb)" by (simp add: less_mult_imp_div_less mult.commute)
  have b: "unat (sb_inode_start sb) + unat (sb_inode_blocks sb) \<le> unat (sb_first_data_block sb)"
    "unat (sb_first_data_block sb) < unat (sb_total_blocks sb)"
    using assms(1) by (simp_all add: layout_nat_def)
  have "unat (sb_inode_start sb) + unat nr div 56 < 2 ^ 32"
    using q b unsigned_less [of "sb_total_blocks sb", where 'a = nat] by simp
  then show u: "unat (inode_blk sb nr) = unat (sb_inode_start sb) + unat nr div 56"
    by (simp add: inode_blk_def INODES_PER_BLOCK_def unat_word_ariths unat_div)
  show "inode_blk sb nr < sb_first_data_block sb" "inode_blk sb nr < sb_total_blocks sb" "sb_inode_start sb \<le> inode_blk sb nr"
    using q b by (simp_all add: word_less_nat_alt word_le_nat_alt u)
qed

lemma inode_offset_bound: "inode_offset nr + 72 \<le> 4096"
proof -
  have "unat (nr mod INODES_PER_BLOCK) < 56" by (simp add: INODES_PER_BLOCK_def unat_mod)
  then show ?thesis by (simp add: inode_offset_def)
qed

text \<open>Different inodes occupy different bytes.\<close>

lemma inode_apart:
  assumes "layout_nat sb" "n < sb_total_inodes sb" "m < sb_total_inodes sb" "n \<noteq> m" "inode_blk sb n = inode_blk sb m"
  shows "inode_offset n + 72 \<le> inode_offset m \<or> inode_offset m + 72 \<le> inode_offset n"
proof -
  have "unat n div 56 = unat m div 56"
    using unat_inode_blk(1) [OF assms(1,2)] unat_inode_blk(1) [OF assms(1,3)] assms(5) by simp
  moreover have "unat n \<noteq> unat m" using assms(4) unsigned_word_eqI by blast
  ultimately have "unat n mod 56 \<noteq> unat m mod 56" by (metis mult_div_mod_eq)
  then show ?thesis by (auto simp: inode_offset_def INODES_PER_BLOCK_def unat_mod)
qed

definition inode_at :: "super_block \<Rightarrow> (u32 \<Rightarrow> memory) \<Rightarrow> u32 \<Rightarrow> inode" where
  "inode_at sb V nr = read_inode (V (inode_blk sb nr)) (inode_offset nr)"

definition set_inode :: "super_block \<Rightarrow> u32 \<Rightarrow> inode \<Rightarrow> (u32 \<Rightarrow> memory) \<Rightarrow> u32 \<Rightarrow> memory" where
  "set_inode sb nr ino V = V(inode_blk sb nr := write_inode (inode_offset nr) ino (V (inode_blk sb nr)))"

lemma inode_at_set [simp]: "length (ino_direct ino) = 11 \<Longrightarrow> inode_at sb (set_inode sb nr ino V) nr = ino"
  by (simp add: inode_at_def set_inode_def)

lemma inode_at_set_other:
  assumes "layout_nat sb" "nr < sb_total_inodes sb" "m < sb_total_inodes sb" "m \<noteq> nr" "length (ino_direct ino) = 11"
  shows "inode_at sb (set_inode sb nr ino V) m = inode_at sb V m"
proof (cases "inode_blk sb m = inode_blk sb nr")
  case True
  then have "read_inode (write_inode (inode_offset nr) ino (V (inode_blk sb nr))) (inode_offset m) =
    read_inode (V (inode_blk sb nr)) (inode_offset m)"
    using inode_apart [OF assms(1-3) assms(4) [symmetric]]
    by (intro read_inode_cong write_inode_other [OF assms(5)]) auto
  then show ?thesis using True by (simp add: inode_at_def set_inode_def)
qed (simp add: inode_at_def set_inode_def)

section \<open>Stores inside a block\<close>

text \<open>A store that treats every byte on its own and does not reach behind the block.\<close>

definition bytewise :: "(memory \<Rightarrow> memory) \<Rightarrow> bool" where
  "bytewise f \<longleftrightarrow> (\<forall>m m' x. m x = m' x \<longrightarrow> f m x = f m' x) \<and> (\<forall>m x. 4096 \<le> x \<longrightarrow> f m x = m x)"

lemma bytewiseD: "bytewise f \<Longrightarrow> m x = m' x \<Longrightarrow> f m x = f m' x" "bytewise f \<Longrightarrow> 4096 \<le> x \<Longrightarrow> f m x = m x"
  unfolding bytewise_def by blast+

lemma bytewise_clip: "bytewise f \<Longrightarrow> clip (f m) = f (clip m)"
proof
  fix x assume f: "bytewise f"
  show "clip (f m) x = f (clip m) x"
  proof (cases "x < 4096")
    case True
    then have "f m x = f (clip m) x" by (intro bytewiseD(1) [OF f]) simp
    then show ?thesis using True by simp
  next
    case False
    then have "f (clip m) x = clip m x" by (intro bytewiseD(2) [OF f]) simp
    then show ?thesis using False by (simp add: clip_def)
  qed
qed

lemma bytewise_comp: "bytewise f \<Longrightarrow> bytewise g \<Longrightarrow> bytewise (\<lambda>m. f (g m))"
  unfolding bytewise_def [of "\<lambda>m. f (g m)"]
proof (intro conjI allI impI)
  fix m m' :: memory and x
  assume a: "bytewise f" "bytewise g"
  show "f (g m) x = f (g m') x" if "m x = m' x"
    using bytewiseD(1) [OF a(1), of "g m" x "g m'"] bytewiseD(1) [OF a(2), of m x m'] that by simp
  show "f (g m) x = m x" if "4096 \<le> x"
    using bytewiseD(2) [OF a(1) that, of "g m"] bytewiseD(2) [OF a(2) that, of m] by simp
qed

lemma bytewise_wr16: "a + 2 \<le> 4096 \<Longrightarrow> bytewise (wr16 a v)"
  by (simp add: bytewise_def wr16_def)

lemma bytewise_wr32: "a + 4 \<le> 4096 \<Longrightarrow> bytewise (wr32 a v)"
  unfolding wr32_def [abs_def] by (rule bytewise_comp [OF bytewise_wr16 bytewise_wr16]) simp_all

lemma bytewise_wr64: "a + 8 \<le> 4096 \<Longrightarrow> bytewise (wr64 a v)"
  unfolding wr64_def [abs_def] by (rule bytewise_comp [OF bytewise_wr32 bytewise_wr32]) simp_all

lemma bytewise_fold: "(\<And>k. k \<in> set ks \<Longrightarrow> bytewise (f k)) \<Longrightarrow> bytewise (fold f ks)"
proof (induction ks)
  case (Cons k ks)
  have "bytewise (\<lambda>m. fold f ks (f k m))" by (rule bytewise_comp) (simp_all add: Cons)
  then show ?case by (simp add: comp_def)
qed (simp add: bytewise_def)

lemma bytewise_write_inode: "a + 72 \<le> 4096 \<Longrightarrow> bytewise (write_inode a ino)"
  unfolding write_inode_def [abs_def]
  by (intro bytewise_comp [OF bytewise_wr32] bytewise_comp [OF bytewise_wr16] bytewise_wr64
      bytewise_comp [OF bytewise_fold] bytewise_wr32) auto

lemma bytewise_upd: "i < 4096 \<Longrightarrow> bytewise (\<lambda>m. m(i := g (m i)))"
  by (simp add: bytewise_def)

lemma memset_at: "memset a v n m x = (if a \<le> x \<and> x < a + n then v else m x)"
  by (simp add: memset_effect)

lemma bytewise_memset: "a + n \<le> 4096 \<Longrightarrow> bytewise (memset a v n)"
  by (auto simp: bytewise_def memset_at)

lemma poke_view:
  assumes "cache_inv s" and "fetched b True k s" and "bytewise f"
  shows "cache_inv (poke k f s)" "view (poke k f s) = (view s)(b := f (view s b))" "same_fs s (poke k f s)"
    and "good n s \<Longrightarrow> good n (poke k f s)"
proof -
  have c: "clip (f m) = f (clip m)" for m by (rule bytewise_clip [OF assms(3)])
  have "clip (f (slot_data s k)) = clip (f (view s b))"
    using fetched_data [OF assms(1,2)] by (simp add: c)
  note e = poke_effect [OF assms(1,2) this]
  show "cache_inv (poke k f s)" "view (poke k f s) = (view s)(b := f (view s b))" "same_fs s (poke k f s)"
    "good n s \<Longrightarrow> good n (poke k f s)"
    using e by (simp_all add: c)
qed

section \<open>Reading and storing inodes\<close>

lemma get_inode_good:
  assumes g: "good (Suc n) s" and l: "layout_nat (fs_sb s)" and v: "valid_inode nr s"
  obtains s' where "fs_get_inode nr s = (Some (inode_at (fs_sb s) (view s) nr), s')"
    "good n s'" "view s' = view s" "same_fs s s'"
proof -
  have nr: "nr < sb_total_inodes (fs_sb s)" using v by (simp add: valid_inode_def)
  obtain k s' where c: "cache_get (inode_block nr s) False s = (Some k, s')" "good n s'" "view s' = view s" "same_fs s s'"
    "fetched (inode_block nr s) False k s'"
    using cache_get_good [OF g, of "inode_block nr s" False] unat_inode_blk(3) [OF l nr] by (auto simp: inode_block_eq)
  have "read_inode (slot_data s' k) (inode_offset nr) = inode_at (fs_sb s) (view s) nr"
    unfolding inode_at_def using c(3) inode_offset_bound [of nr] fetched_byte [OF good_inv [OF c(2)] c(5)]
    by (intro read_inode_cong) (simp add: inode_block_eq)
  then show thesis using that c v by (simp add: fs_get_inode_def)
qed

lemma get_inode_invalid: "\<not> valid_inode nr s \<Longrightarrow> fs_get_inode nr s = (None, s)"
  by (simp add: fs_get_inode_def)

lemma put_inode_good:
  assumes g: "good (Suc n) s" and l: "layout_nat (fs_sb s)" and v: "valid_inode nr s"
  obtains s' where "fs_put_inode nr ino s = (0, s')" "good n s'" "view s' = set_inode (fs_sb s) nr ino (view s)" "same_fs s s'"
proof -
  have nr: "nr < sb_total_inodes (fs_sb s)" using v by (simp add: valid_inode_def)
  obtain k s' where c: "cache_get (inode_block nr s) True s = (Some k, s')" "good n s'" "view s' = view s" "same_fs s s'"
    "fetched (inode_block nr s) True k s'"
    using cache_get_good [OF g, of "inode_block nr s" True] unat_inode_blk(3) [OF l nr] by (auto simp: inode_block_eq)
  have "bytewise (write_inode (inode_offset nr) ino)" by (rule bytewise_write_inode [OF inode_offset_bound])
  note p = poke_view [OF good_inv [OF c(2)] c(5) this]
  show thesis
    using that [of "poke k (write_inode (inode_offset nr) ino) s'"] p(2) p(4) [OF c(2)] same_fs_trans [OF c(4) p(3)] c v
    by (simp add: fs_put_inode_def set_inode_def inode_block_eq)
qed

section \<open>Bitmaps\<close>

definition bm_bit :: "(u32 \<Rightarrow> memory) \<Rightarrow> u32 \<Rightarrow> nat \<Rightarrow> bool" where
  "bm_bit V base n = bit (V (base + of_nat (n div 32768)) (n mod 32768 div 8)) (n mod 8)"

definition bm_upd :: "(u8 \<Rightarrow> u8) \<Rightarrow> u32 \<Rightarrow> nat \<Rightarrow> (u32 \<Rightarrow> memory) \<Rightarrow> u32 \<Rightarrow> memory" where
  "bm_upd g base n V =
     (let b = base + of_nat (n div 32768); i = n mod 32768 div 8 in V(b := (V b)(i := g (V b i))))"

definition bm_set :: "u32 \<Rightarrow> nat \<Rightarrow> (u32 \<Rightarrow> memory) \<Rightarrow> u32 \<Rightarrow> memory" where
  "bm_set base n = bm_upd (\<lambda>x. x OR 2 ^ (n mod 8)) base n"

definition bm_clear :: "u32 \<Rightarrow> nat \<Rightarrow> (u32 \<Rightarrow> memory) \<Rightarrow> u32 \<Rightarrow> memory" where
  "bm_clear base n = bm_upd (\<lambda>x. x AND NOT (2 ^ (n mod 8))) base n"

text \<open>All bits below \<open>lim\<close> live in blocks of their own that the cache can fetch.\<close>

definition bm_range :: "u32 \<Rightarrow> nat \<Rightarrow> fs \<Rightarrow> bool" where
  "bm_range base lim s \<longleftrightarrow> sb_block_size (fs_sb s) = 4096 \<and>
     (\<forall>n < lim. unat base + n div 32768 < unat (sb_total_blocks (fs_sb s)))"

lemma bm_block:
  assumes "unat (base :: u32) + n div 32768 < 2 ^ 32"
  shows "unat (base + of_nat (n div 32768)) = unat base + n div 32768"
  using assms by (simp add: unat_word_ariths unat_of_nat)

lemma bm_same_byte:
  assumes "unat (base :: u32) + n div 32768 < 2 ^ 32" "unat base + m div 32768 < 2 ^ 32" and "m \<noteq> n"
  shows "base + of_nat (m div 32768) \<noteq> base + of_nat (n div 32768) \<or>
    m mod 32768 div 8 \<noteq> n mod 32768 div 8 \<or> m mod 8 \<noteq> n mod 8"
proof (rule ccontr)
  assume "\<not> ?thesis"
  then have e: "m div 32768 = n div 32768" "m mod 32768 div 8 = n mod 32768 div 8" "m mod 8 = n mod 8"
    using bm_block [OF assms(1)] bm_block [OF assms(2)] by auto
  have "k mod 32768 = 8 * (k mod 32768 div 8) + k mod 8" for k :: nat
    using mult_div_mod_eq [of 8 "k mod 32768"] mod_mod_cancel [of 8 32768 k] by simp
  then have "m mod 32768 = n mod 32768" using e by metis
  then show False using e(1) assms(3) by (metis mult_div_mod_eq)
qed

lemma bm_bit_set:
  assumes "unat base + n div 32768 < 2 ^ 32" "unat base + m div 32768 < 2 ^ 32"
  shows "bm_bit (bm_set base n V) base m = (bm_bit V base m \<or> m = n)"
    and "bm_bit (bm_clear base n V) base m = (bm_bit V base m \<and> m \<noteq> n)"
proof -
  have "m \<noteq> n \<Longrightarrow> base + of_nat (m div 32768) \<noteq> base + of_nat (n div 32768) \<or>
    m mod 32768 div 8 \<noteq> n mod 32768 div 8 \<or> m mod 8 \<noteq> n mod 8"
    by (rule bm_same_byte [OF assms])
  then show "bm_bit (bm_set base n V) base m = (bm_bit V base m \<or> m = n)"
    "bm_bit (bm_clear base n V) base m = (bm_bit V base m \<and> m \<noteq> n)"
    by (cases "m = n"; auto simp: bm_bit_def bm_set_def bm_clear_def bm_upd_def Let_def bit_or_mask8 bit_and_not_mask8)+
qed

lemma bm_address:
  assumes "bm_range base lim s" and "n < lim" and "n < 2 ^ 32"
  shows "base + of_nat n div bitmap_capacity s = base + of_nat (n div 32768)"
    and "base + of_nat (n div 32768) < sb_total_blocks (fs_sb s)"
    and "unat (of_nat n mod bitmap_capacity s) = n mod 32768"
proof -
  have cap: "bitmap_capacity s = 32768" using assms(1) by (simp add: bm_range_def bitmap_capacity_def)
  have r: "unat base + n div 32768 < unat (sb_total_blocks (fs_sb s))" using assms(1,2) by (simp add: bm_range_def)
  then have b: "unat base + n div 32768 < 2 ^ 32"
    using unsigned_less [of "sb_total_blocks (fs_sb s)", where 'a = nat] by simp
  have d: "unat (of_nat n div 32768 :: u32) = n div 32768" using assms(3) by (simp add: unat_div unat_of_nat)
  then have "unat (of_nat n div 32768 :: u32) = unat (of_nat (n div 32768) :: u32)" using b by (simp add: unat_of_nat)
  then have "(of_nat n div 32768 :: u32) = of_nat (n div 32768)" by (rule unsigned_word_eqI)
  then show "base + of_nat n div bitmap_capacity s = base + of_nat (n div 32768)" by (simp add: cap)
  show "base + of_nat (n div 32768) < sb_total_blocks (fs_sb s)"
    using r bm_block [OF b] by (simp add: word_less_nat_alt)
  show "unat (of_nat n mod bitmap_capacity s) = n mod 32768" using assms(3) by (simp add: cap unat_mod unat_of_nat)
qed

definition scanning :: "u32 \<Rightarrow> nat \<Rightarrow> nat \<Rightarrow> nat \<Rightarrow> fs \<Rightarrow> nat \<Rightarrow> int \<times> fs \<Rightarrow> bool" where
  "scanning base first lim m s j = (\<lambda>(r, s'). r = -1 \<and> view s' = view s \<and> same_fs s s' \<and> good (lim - j + m) s' \<and>
     (\<forall>n. first \<le> n \<and> n < j \<longrightarrow> bm_bit (view s) base n))"

definition claimed :: "u32 \<Rightarrow> nat \<Rightarrow> nat \<Rightarrow> nat \<Rightarrow> fs \<Rightarrow> int \<times> fs \<Rightarrow> bool" where
  "claimed base first lim m s = (\<lambda>(r, s'). \<exists>n. first \<le> n \<and> n < lim \<and> \<not> bm_bit (view s) base n \<and>
     (\<forall>i. first \<le> i \<and> i < n \<longrightarrow> bm_bit (view s) base i) \<and> r = sint (of_nat n :: u32) \<and>
     view s' = bm_set base n (view s) \<and> same_fs s s' \<and> good m s')"

lemma probe_round:
  assumes r: "bm_range base lim s" "lim \<le> 2 ^ 32" and j: "first \<le> j" "j < lim" and sc: "scanning base first lim m s j u"
    and p: "bitmap_probe base j u = (c, u')"
  shows "case c of Continue \<Rightarrow> scanning base first lim m s (Suc j) u' | Break \<Rightarrow> False | Return \<Rightarrow> claimed base first lim m s u'"
proof -
  obtain q t where u: "u = (q, t)" by (cases u)
  have t: "q = -1" "view t = view s" "same_fs s t" "good (Suc (lim - Suc j + m)) t"
    "\<And>n. first \<le> n \<Longrightarrow> n < j \<Longrightarrow> bm_bit (view s) base n"
    using sc j by (auto simp: scanning_def u Suc_diff_Suc)
  have rt: "bm_range base lim t" using r(1) t(3) by (simp add: bm_range_def same_fs_def)
  note ad = bm_address [OF rt j(2)]
  define b where "b = base + of_nat (j div 32768)"
  have j32: "j < 2 ^ 32" using j(2) r(2) by simp
  obtain k t1 where c1: "cache_get b True t = (Some k, t1)" "good (lim - Suc j + m) t1" "view t1 = view t" "same_fs t t1"
    "fetched b True k t1"
    using cache_get_good [OF t(4), of b True] ad(2) [OF j32] by (auto simp: b_def)
  define i where "i = j mod 32768"
  have i: "i div 8 < 4096" "i mod 8 = j mod 8" unfolding i_def by (auto simp: mod_mod_cancel less_mult_imp_div_less)
  have byte: "slot_data t1 k (i div 8) = view s b (i div 8)"
    using fetched_byte [OF good_inv [OF c1(2)] c1(5) i(1)] c1(3) t(2) by simp
  then have bb: "bit (slot_data t1 k (i div 8)) (i mod 8) = bm_bit (view s) base j"
    by (simp add: bm_bit_def b_def i(2) i_def mod_mod_cancel)
  have pr: "(c, u') = (if \<not> bm_bit (view s) base j
      then (Return, sint (of_nat j :: u32), poke k (\<lambda>m. m(i div 8 := m (i div 8) OR 2 ^ (i mod 8))) t1)
      else (Continue, q, t1))"
    using p c1(1) ad(1,3) [OF j32] bb by (auto simp: bitmap_probe_def u b_def Let_def i_def split: if_splits)
  show ?thesis
  proof (cases "bm_bit (view s) base j")
    case True
    have "first \<le> n \<Longrightarrow> n < Suc j \<Longrightarrow> bm_bit (view s) base n" for n
      using True t(5) by (cases "n = j") auto
    then show ?thesis using pr True t c1 same_fs_trans [OF t(3) c1(4)] by (auto simp: scanning_def)
  next
    case False
    have "bytewise (\<lambda>m. m(i div 8 := m (i div 8) OR 2 ^ (i mod 8)))" by (rule bytewise_upd [OF i(1)])
    note pv = poke_view [OF good_inv [OF c1(2)] c1(5) this]
    have "view (snd u') = bm_set base j (view s)" "same_fs s (snd u')" "good m (snd u')"
      using pr False pv(2) c1(3) t(2) same_fs_trans [OF t(3) same_fs_trans [OF c1(4) pv(3)]]
        good_less [OF pv(4) [OF c1(2)], of m]
      by (simp_all add: bm_set_def bm_upd_def b_def Let_def i(2)) (simp add: i_def)
    then show ?thesis using pr False t(5) j by (auto simp: claimed_def)
  qed
qed

text \<open>The lowest clear bit of the range is set; when there is none nothing changes.\<close>

lemma bitmap_allocate_good:
  assumes r: "bm_range base (unat lim) s" and g: "good (unat lim - unat first + m) s"
    and al: "bitmap_allocate base first lim s = (x, s')"
  shows "claimed base (unat first) (unat lim) m s (x, s') \<or>
    x = -1 \<and> view s' = view s \<and> same_fs s s' \<and> good m s' \<and>
    (\<forall>n. unat first \<le> n \<and> n < unat lim \<longrightarrow> bm_bit (view s) base n)"
proof (cases "unat first \<le> unat lim")
  case True
  obtain c u where loop: "for_loop (bitmap_probe base) [unat first..<unat lim] (-1, s) = (c, u)"
    by (cases "for_loop (bitmap_probe base) [unat first..<unat lim] (-1, s)")
  have l: "unat lim \<le> 2 ^ 32" using unsigned_less [of lim, where 'a = nat] by simp
  have "scanning base (unat first) (unat lim) m s (unat first) (-1, s)" using g by (auto simp: scanning_def)
  from for_loop_upt [where P = "scanning base (unat first) (unat lim) m s" and B = "\<lambda>_. False", OF this True
      probe_round [OF r l] loop]
  have "case c of Continue \<Rightarrow> scanning base (unat first) (unat lim) m s (unat lim) u | Break \<Rightarrow> False
    | Return \<Rightarrow> claimed base (unat first) (unat lim) m s u" .
  then show ?thesis using al loop
    by (cases c; cases u) (auto simp: bitmap_allocate_def scanning_def)
next
  case False
  then show ?thesis using al g by (auto simp: bitmap_allocate_def)
qed

lemma bitmap_free_good:
  assumes r: "bm_range base (Suc (unat n)) s" and g: "good (Suc m) s"
  shows "view (bitmap_free base n s) = bm_clear base (unat n) (view s)" "same_fs s (bitmap_free base n s)"
    and "good m (bitmap_free base n s)"
proof -
  have n32: "unat n < 2 ^ 32" using unsigned_less [of n, where 'a = nat] by simp
  note ad = bm_address [OF r lessI n32, simplified]
  define b where "b = base + of_nat (unat n div 32768)"
  define i where "i = unat n mod 32768"
  obtain k t1 where c1: "cache_get b True s = (Some k, t1)" "good m t1" "view t1 = view s" "same_fs s t1" "fetched b True k t1"
    using cache_get_good [OF g, of b True] ad(2) by (auto simp: b_def)
  have i: "i div 8 < 4096" "i mod 8 = unat n mod 8" unfolding i_def by (auto simp: mod_mod_cancel less_mult_imp_div_less)
  have "bytewise (\<lambda>m. m(i div 8 := m (i div 8) AND NOT (2 ^ (i mod 8))))" by (rule bytewise_upd [OF i(1)])
  note pv = poke_view [OF good_inv [OF c1(2)] c1(5) this]
  have f: "bitmap_free base n s = poke k (\<lambda>m. m(i div 8 := m (i div 8) AND NOT (2 ^ (i mod 8)))) t1"
    using c1(1) ad(1,3) by (simp add: bitmap_free_def b_def i_def Let_def)
  show "view (bitmap_free base n s) = bm_clear base (unat n) (view s)" "same_fs s (bitmap_free base n s)"
    "good m (bitmap_free base n s)"
    using pv(2) pv(4) [OF c1(2)] c1(3) same_fs_trans [OF c1(4) pv(3)]
    by (simp_all add: f bm_clear_def bm_upd_def b_def Let_def i(2)) (simp add: i_def)
qed

section \<open>Allocating data blocks\<close>

lemma layout_ranges:
  assumes "layout_nat (fs_sb s)" and "sb_block_size (fs_sb s) = 4096"
  shows "bm_range (sb_bmap_start (fs_sb s)) (unat (sb_total_blocks (fs_sb s))) s"
    and "bm_range (sb_imap_start (fs_sb s)) (unat (sb_total_inodes (fs_sb s))) s"
proof -
  have d: "n div 32768 < b" if "n < l" "l \<le> 32768 * b" for n l b :: nat
    using that by (simp add: less_mult_imp_div_less mult.commute)
  show "bm_range (sb_bmap_start (fs_sb s)) (unat (sb_total_blocks (fs_sb s))) s"
    "bm_range (sb_imap_start (fs_sb s)) (unat (sb_total_inodes (fs_sb s))) s"
    using assms d [of _ "unat (sb_total_blocks (fs_sb s))" "unat (sb_bmap_blocks (fs_sb s))"]
      d [of _ "unat (sb_total_inodes (fs_sb s))" "unat (sb_imap_blocks (fs_sb s))"]
    by (fastforce simp: bm_range_def layout_nat_def)+
qed

lemma sint_small: "n < 2 ^ 31 \<Longrightarrow> sint (of_nat n :: u32) = int n"
  by (simp add: signed_of_nat signed_take_bit_int_eq_self)

definition data_bits :: "fs \<Rightarrow> nat \<Rightarrow> bool" where
  "data_bits s n = bm_bit (view s) (sb_bmap_start (fs_sb s)) n"

lemma alloc_data_block_good:
  assumes l: "layout_nat (fs_sb s)" "sb_block_size (fs_sb s) = 4096" "unat (sb_total_blocks (fs_sb s)) \<le> 2 ^ 31"
    and g: "good (Suc (unat (sb_total_blocks (fs_sb s)) + m)) s" and al: "alloc_data_block s = (x, s')"
  shows "(\<exists>n. unat (sb_first_data_block (fs_sb s)) \<le> n \<and> n < unat (sb_total_blocks (fs_sb s)) \<and>
      \<not> data_bits s n \<and> (\<forall>i. unat (sb_first_data_block (fs_sb s)) \<le> i \<and> i < n \<longrightarrow> data_bits s i) \<and>
      x = int n \<and> view s' = (bm_set (sb_bmap_start (fs_sb s)) n (view s))(of_nat n := \<lambda>_. 0)) \<or>
    x = -1 \<and> view s' = view s \<and>
      (\<forall>i. unat (sb_first_data_block (fs_sb s)) \<le> i \<and> i < unat (sb_total_blocks (fs_sb s)) \<longrightarrow> data_bits s i)"
    and "same_fs s s'" "good m s'"
proof -
  let ?f = "unat (sb_first_data_block (fs_sb s))" and ?t = "unat (sb_total_blocks (fs_sb s))" and ?b = "sb_bmap_start (fs_sb s)"
  obtain y t where ba: "bitmap_allocate ?b (sb_first_data_block (fs_sb s)) (sb_total_blocks (fs_sb s)) s = (y, t)"
    by (cases "bitmap_allocate ?b (sb_first_data_block (fs_sb s)) (sb_total_blocks (fs_sb s)) s")
  have "good (?t - ?f + Suc m) s" using g by (rule good_less) simp
  from bitmap_allocate_good [OF layout_ranges(1) [OF l(1,2)] this ba]
  consider n where "?f \<le> n" "n < ?t" "\<not> data_bits s n" "\<forall>i. ?f \<le> i \<and> i < n \<longrightarrow> data_bits s i" "y = int n"
      "view t = bm_set ?b n (view s)" "same_fs s t" "good (Suc m) t"
    | "y = -1" "view t = view s" "same_fs s t" "good (Suc m) t" "\<forall>i. ?f \<le> i \<and> i < ?t \<longrightarrow> data_bits s i"
    unfolding claimed_def data_bits_def using l(3) sint_small by fastforce
  then have "((\<exists>n. ?f \<le> n \<and> n < ?t \<and> \<not> data_bits s n \<and> (\<forall>i. ?f \<le> i \<and> i < n \<longrightarrow> data_bits s i) \<and> x = int n \<and>
      view s' = (bm_set ?b n (view s))(of_nat n := \<lambda>_. 0)) \<or>
    x = -1 \<and> view s' = view s \<and> (\<forall>i. ?f \<le> i \<and> i < ?t \<longrightarrow> data_bits s i)) \<and> same_fs s s' \<and> good m s'"
  proof cases
    case 1
    have "n < 2 ^ 32" using 1(2) unsigned_less [of "sb_total_blocks (fs_sb s)", where 'a = nat] by simp
    then have "(of_nat n :: u32) < sb_total_blocks (fs_sb t)"
      using 1(2,7) by (simp add: same_fs_def word_less_nat_alt unat_of_nat)
    then obtain k u where c: "cache_get (of_nat n) True t = (Some k, u)" "good m u" "view u = view t" "same_fs t u"
      "fetched (of_nat n) True k u"
      using cache_get_good [OF 1(8), of "of_nat n" True] by metis
    have "bytewise (memset 0 0 4096)" by (rule bytewise_memset) simp
    note pv = poke_view [OF good_inv [OF c(2)] c(5) this]
    have z: "memset 0 0 4096 (view u b) = (\<lambda>_. 0)" for b
    proof
      fix i
      show "memset 0 0 4096 (view u b) i = 0"
        using fun_cong [OF view_clip [of u b], of i] by (auto simp: memset_at clip_def split: if_splits)
    qed
    have "x = int n" "s' = poke k (memset 0 0 4096) u"
      using al ba 1(5) c(1) by (auto simp: alloc_data_block_def FS_BLOCK_SIZE_def)
    then show ?thesis
      using 1 c pv(2) [unfolded z] pv(4) [OF c(2)] same_fs_trans [OF 1(7) same_fs_trans [OF c(4) pv(3)]] by auto
  next
    case 2
    then show ?thesis using al ba good_less [OF 2(4), of m] by (auto simp: alloc_data_block_def)
  qed
  then show "(\<exists>n. ?f \<le> n \<and> n < ?t \<and> \<not> data_bits s n \<and> (\<forall>i. ?f \<le> i \<and> i < n \<longrightarrow> data_bits s i) \<and> x = int n \<and>
      view s' = (bm_set ?b n (view s))(of_nat n := \<lambda>_. 0)) \<or>
    x = -1 \<and> view s' = view s \<and> (\<forall>i. ?f \<le> i \<and> i < ?t \<longrightarrow> data_bits s i)" "same_fs s s'" "good m s'"
    by blast+
qed

end
