(* ===== verification/Fs_Tree.thy ===== *)
theory Fs_Tree
  imports Fs_Disk
begin

text \<open>
  The block tree of an inode in kernel/fs.c: finding and creating the data block of a file
  offset through the direct, single, double and triple index blocks, and releasing the blocks
  of a tree.
\<close>

section \<open>Finding and creating data blocks\<close>

text \<open>
  Filling an empty pointer when the caller creates: the pointer is a field of the inode (a
  value that is returned) or entry \<open>i\<close> of the index block in slot \<open>k\<close> (a store through the
  pointer that was taken before the allocation).
\<close>

definition grow_pointer :: "u32 \<Rightarrow> bool \<Rightarrow> fs \<Rightarrow> u32 option \<times> fs" where
  "grow_pointer p create s =
     (if p = 0 \<and> create then
        case alloc_data_block s of (new_block, s1) \<Rightarrow>
          if new_block < 0 then (None, s1) else (Some (word_of_int new_block), s1)
      else (Some p, s))"

definition grow_entry :: "nat \<Rightarrow> nat \<Rightarrow> bool \<Rightarrow> fs \<Rightarrow> int \<times> fs" where
  "grow_entry k i create s =
     (if rd32 (slot_data s k) (4 * i) = 0 \<and> create then
        case alloc_data_block s of (new_block, s1) \<Rightarrow>
          if new_block < 0 then (-1, s1)
          else (0, poke k (wr32 (4 * i) (word_of_int new_block)) s1)
      else (0, s))"

text \<open>
  One level of the tree: open index block \<open>b\<close>, fill entry \<open>i\<close> when asked to, and read it.
  The result \<open>None\<close> stands for the return of -1.
\<close>

definition index_level :: "u32 \<Rightarrow> nat \<Rightarrow> bool \<Rightarrow> fs \<Rightarrow> u32 option \<times> fs" where
  "index_level b i create s =
     (case cache_get b create s of
        (None, s1) \<Rightarrow> (None, s1)
      | (Some k, s1) \<Rightarrow>
          (case grow_entry k i create s1 of (r, s2) \<Rightarrow>
             if r \<noteq> 0 then (None, s2) else (Some (rd32 (slot_data s2 k) (4 * i)), s2)))"

definition double_level :: "u32 \<Rightarrow> u64 \<Rightarrow> bool \<Rightarrow> fs \<Rightarrow> u32 option \<times> fs" where
  "double_level b index create s =
     (case index_level b (unat (index div 1024)) create s of
        (None, s1) \<Rightarrow> (None, s1)
      | (Some c, s1) \<Rightarrow> if c = 0 then (Some 0, s1) else index_level c (unat (index mod 1024)) create s1)"

definition triple_level :: "u32 \<Rightarrow> u64 \<Rightarrow> bool \<Rightarrow> fs \<Rightarrow> u32 option \<times> fs" where
  "triple_level b index create s =
     (case index_level b (unat (index div FS_DOUBLE_FILE_BLOCKS)) create s of
        (None, s1) \<Rightarrow> (None, s1)
      | (Some c, s1) \<Rightarrow>
          if c = 0 then (Some 0, s1)
          else case index_level c (unat (index div 1024 mod 1024)) create s1 of
            (None, s2) \<Rightarrow> (None, s2)
          | (Some c', s2) \<Rightarrow>
              if c' = 0 then (Some 0, s2) else index_level c' (unat (index mod 1024)) create s2)"

text \<open>The pointer to the root of a subtree, created when asked to, then the levels below it.\<close>

definition under_root ::
    "u32 \<Rightarrow> (u32 \<Rightarrow> inode \<Rightarrow> inode) \<Rightarrow> (u32 \<Rightarrow> fs \<Rightarrow> u32 option \<times> fs) \<Rightarrow> bool \<Rightarrow> inode \<Rightarrow> fs
      \<Rightarrow> u32 option \<times> inode \<times> fs" where
  "under_root p set_root below create ino s =
     (case grow_pointer p create s of
        (None, s1) \<Rightarrow> (None, ino, s1)
      | (Some q, s1) \<Rightarrow>
          (let ino' = set_root q ino in
           if q = 0 then (Some 0, ino', s1)
           else case below q s1 of (r, s2) \<Rightarrow> (r, ino', s2)))"

definition inode_data_block :: "inode \<Rightarrow> u64 \<Rightarrow> bool \<Rightarrow> fs \<Rightarrow> u32 option \<times> inode \<times> fs" where
  "inode_data_block ino index create s =
     (if index \<ge> FS_MAX_FILE_BLOCKS then (None, ino, s)
      else if index < 11 then
        case grow_pointer (ino_direct ino ! unat index) create s of
          (None, s1) \<Rightarrow> (None, ino, s1)
        | (Some q, s1) \<Rightarrow> (Some q, ino\<lparr>ino_direct := (ino_direct ino)[unat index := q]\<rparr>, s1)
      else let index1 = index - 11 in
      if index1 < FS_SINGLE_FILE_BLOCKS then
        under_root (ino_indirect_1 ino) (\<lambda>q. ino_indirect_1_update (\<lambda>_. q))
          (\<lambda>q. index_level q (unat index1) create) create ino s
      else let index2 = index1 - FS_SINGLE_FILE_BLOCKS in
      if index2 < FS_DOUBLE_FILE_BLOCKS then
        under_root (ino_indirect_2 ino) (\<lambda>q. ino_indirect_2_update (\<lambda>_. q))
          (\<lambda>q. double_level q index2 create) create ino s
      else let index3 = index2 - FS_DOUBLE_FILE_BLOCKS in
      if index3 \<ge> FS_TRIPLE_FILE_BLOCKS then (None, ino, s)
      else under_root (ino_indirect_3 ino) (\<lambda>q. ino_indirect_3_update (\<lambda>_. q))
             (\<lambda>q. triple_level q index3 create) create ino s)"

section \<open>Releasing blocks\<close>

definition index_entry :: "u32 \<Rightarrow> nat \<Rightarrow> fs \<Rightarrow> u32 \<times> fs" where
  "index_entry index_block i s =
     (case cache_get index_block False s of
        (None, s1) \<Rightarrow> (0, s1)
      | (Some k, s1) \<Rightarrow> (rd32 (slot_data s1 k) (4 * i), s1))"

definition free_block :: "u32 \<Rightarrow> fs \<Rightarrow> fs" where
  "free_block b s = bitmap_free (sb_bmap_start (fs_sb s)) b s"

text \<open>The loop over the entries of an index block, which is fetched anew in every round.\<close>

definition free_entries :: "(u32 \<Rightarrow> fs \<Rightarrow> fs) \<Rightarrow> u32 \<Rightarrow> fs \<Rightarrow> fs" where
  "free_entries release root_block s =
     (if root_block = 0 then s
      else free_block root_block
        (fold (\<lambda>i s. case index_entry root_block i s of (child, s1) \<Rightarrow>
                 if child \<noteq> 0 then release child s1 else s1)
           [0..<FS_INDIRECT_ENTRIES] s))"

definition free_single_index_block :: "u32 \<Rightarrow> fs \<Rightarrow> fs" where
  "free_single_index_block = free_entries free_block"

definition free_double_index_tree :: "u32 \<Rightarrow> fs \<Rightarrow> fs" where
  "free_double_index_tree = free_entries free_single_index_block"

definition free_triple_index_tree :: "u32 \<Rightarrow> fs \<Rightarrow> fs" where
  "free_triple_index_tree = free_entries free_double_index_tree"

definition free_inode_blocks :: "inode \<Rightarrow> fs \<Rightarrow> fs" where
  "free_inode_blocks ino s =
     free_triple_index_tree (ino_indirect_3 ino)
       (free_double_index_tree (ino_indirect_2 ino)
         (free_single_index_block (ino_indirect_1 ino)
           (fold (\<lambda>i s. if ino_direct ino ! i \<noteq> 0 then free_block (ino_direct ino ! i) s else s)
              [0..<FS_DIRECT_BLOCKS] s)))"

definition truncate_inode :: "u32 \<Rightarrow> inode \<Rightarrow> fs \<Rightarrow> int \<times> inode \<times> fs" where
  "truncate_inode inode_nr ino s =
     (if ino_type ino \<noteq> FS_TYPE_FILE then (-1, ino, s)
      else let ino' = ino\<lparr>ino_direct := replicate 11 0, ino_indirect_1 := 0, ino_indirect_2 := 0,
                          ino_indirect_3 := 0, ino_size := 0\<rparr>
           in case fs_put_inode inode_nr ino' (free_inode_blocks ino s) of (r, s1) \<Rightarrow> (r, ino', s1))"

section \<open>Undoing the growth of a file\<close>

definition rollback_entries :: "(u32 \<Rightarrow> fs \<Rightarrow> fs) \<Rightarrow> (u32 \<Rightarrow> u32 \<Rightarrow> fs \<Rightarrow> fs) \<Rightarrow> u32 \<Rightarrow> u32 \<Rightarrow> fs \<Rightarrow> fs" where
  "rollback_entries release below old_block new_block s =
     (if old_block = 0 \<and> new_block \<noteq> 0 then release new_block s
      else if old_block = 0 \<or> new_block = 0 then s
      else fold (\<lambda>i s. case index_entry old_block i s of (old_child, s1) \<Rightarrow>
                  case index_entry new_block i s1 of (new_child, s2) \<Rightarrow> below old_child new_child s2)
             [0..<FS_INDIRECT_ENTRIES] s)"

definition rollback_data :: "u32 \<Rightarrow> u32 \<Rightarrow> fs \<Rightarrow> fs" where
  "rollback_data old_data new_data s = (if old_data = 0 \<and> new_data \<noteq> 0 then free_block new_data s else s)"

definition rollback_single_added :: "u32 \<Rightarrow> u32 \<Rightarrow> fs \<Rightarrow> fs" where
  "rollback_single_added = rollback_entries free_single_index_block rollback_data"

definition rollback_double_added :: "u32 \<Rightarrow> u32 \<Rightarrow> fs \<Rightarrow> fs" where
  "rollback_double_added = rollback_entries free_double_index_tree rollback_single_added"

definition rollback_triple_added :: "u32 \<Rightarrow> u32 \<Rightarrow> fs \<Rightarrow> fs" where
  "rollback_triple_added = rollback_entries free_triple_index_tree rollback_double_added"

definition rollback_new_blocks :: "inode \<Rightarrow> inode \<Rightarrow> fs \<Rightarrow> fs" where
  "rollback_new_blocks old now s =
     rollback_triple_added (ino_indirect_3 old) (ino_indirect_3 now)
       (rollback_double_added (ino_indirect_2 old) (ino_indirect_2 now)
         (rollback_single_added (ino_indirect_1 old) (ino_indirect_1 now)
           (fold (\<lambda>i. rollback_data (ino_direct old ! i) (ino_direct now ! i)) [0..<FS_DIRECT_BLOCKS] s)))"

end
