(* ===== verification/Fs_Path.thy ===== *)
theory Fs_Path
  imports Fs_Tree
begin

text \<open>
  Directories and path names of kernel/fs.c.  A C string is the list of its characters up to
  the terminating zero; a directory entry has its inode number in the first four of its 64
  bytes and its name in the other 60.
\<close>

type_synonym c_string = "u8 list"

definition slash :: u8 where "slash = 0x2F"
definition dot_name :: c_string where "dot_name = [0x2E]"
definition dotdot_name :: c_string where "dotdot_name = [0x2E, 0x2E]"

definition put_bytes :: "nat \<Rightarrow> u8 list \<Rightarrow> memory \<Rightarrow> memory" where
  "put_bytes a xs m = (\<lambda>x. if a \<le> x \<and> x < a + length xs then xs ! (x - a) else m x)"

section \<open>Directory blocks\<close>

definition DIR_ENTRIES :: nat where "DIR_ENTRIES = 64"

definition entry_inode :: "memory \<Rightarrow> nat \<Rightarrow> u32" where
  "entry_inode m i = rd32 m (64 * i)"

definition entry_name :: "memory \<Rightarrow> nat \<Rightarrow> c_string" where
  "entry_name m i = takeWhile (\<lambda>c. c \<noteq> 0) (map m [64 * i + 4..<FS_BLOCK_SIZE])"

definition name_equal :: "c_string \<Rightarrow> c_string \<Rightarrow> bool" where
  "name_equal a b \<longleftrightarrow> length a < FS_NAME_MAX \<and> a = b"

definition find_entry :: "memory \<Rightarrow> c_string \<Rightarrow> nat option" where
  "find_entry m name = List.find (\<lambda>i. entry_inode m i \<noteq> 0 \<and> name_equal (entry_name m i) name) [0..<DIR_ENTRIES]"

definition free_entry :: "memory \<Rightarrow> nat option" where
  "free_entry m = List.find (\<lambda>i. entry_inode m i = 0) [0..<DIR_ENTRIES]"

definition set_entry :: "nat \<Rightarrow> u32 \<Rightarrow> c_string \<Rightarrow> memory \<Rightarrow> memory" where
  "set_entry i inode_nr name m =
     put_bytes (64 * i + 4) name (memset (64 * i + 4) 0 FS_NAME_MAX (wr32 (64 * i) inode_nr m))"

definition file_blocks :: "inode \<Rightarrow> u64" where
  "file_blocks ino = (ino_size ino + 4096 - 1) div 4096"

definition dir_blocks :: "inode \<Rightarrow> u64" where
  "dir_blocks ino = (if file_blocks ino = 0 then 1 else file_blocks ino)"

section \<open>Directories\<close>

definition dir_find_block ::
    "inode \<Rightarrow> c_string \<Rightarrow> nat \<Rightarrow> (u32 \<times> u32 \<times> nat) option \<times> fs
      \<Rightarrow> loop_ctl \<times> (u32 \<times> u32 \<times> nat) option \<times> fs" where
  "dir_find_block dir name b = (\<lambda>(r, s).
     case inode_data_block dir (of_nat b) False s of
       (None, _, s1) \<Rightarrow> (Continue, r, s1)
     | (Some data_block, _, s1) \<Rightarrow>
         if data_block = 0 then (Continue, r, s1)
         else case cache_get data_block False s1 of
           (None, s2) \<Rightarrow> (Return, None, s2)
         | (Some k, s2) \<Rightarrow>
             (case find_entry (slot_data s2 k) name of
                None \<Rightarrow> (Continue, r, s2)
              | Some i \<Rightarrow> (Return, Some (entry_inode (slot_data s2 k) i, data_block, i), s2)))"

definition dir_find :: "u32 \<Rightarrow> c_string \<Rightarrow> fs \<Rightarrow> (u32 \<times> u32 \<times> nat) option \<times> fs" where
  "dir_find dir_nr name s =
     (case fs_get_inode dir_nr s of
        (None, s1) \<Rightarrow> (None, s1)
      | (Some dir, s1) \<Rightarrow>
          if ino_type dir \<noteq> FS_TYPE_DIRECTORY then (None, s1)
          else snd (for_loop (dir_find_block dir name) [0..<unat (dir_blocks dir)] (None, s1)))"

text \<open>The block of round \<open>b\<close> when adding: an existing one, or in the last round a new one.\<close>

definition dir_add_block ::
    "u32 \<Rightarrow> c_string \<Rightarrow> u32 \<Rightarrow> nat \<Rightarrow> nat \<Rightarrow> bool \<times> inode \<times> fs \<Rightarrow> loop_ctl \<times> bool \<times> inode \<times> fs" where
  "dir_add_block dir_nr name inode_nr blocks b = (\<lambda>(r, dir, s).
     let store = (\<lambda>data_block dir s.
           case cache_get data_block True s of
             (None, s1) \<Rightarrow> (Return, False, dir, s1)
           | (Some k, s1) \<Rightarrow>
               (case free_entry (slot_data s1 k) of
                  None \<Rightarrow> (Continue, r, dir, s1)
                | Some i \<Rightarrow> (Return, True, dir, poke k (set_entry i inode_nr name) s1)))
     in if b = blocks then
          case inode_data_block dir (of_nat b) True s of
            (None, dir1, s1) \<Rightarrow> (Return, False, dir1, s1)
          | (Some data_block, dir1, s1) \<Rightarrow>
              (let dir2 = dir1\<lparr>ino_size := (of_nat b + 1) * 4096\<rparr> in
               case fs_put_inode dir_nr dir2 s1 of (e, s2) \<Rightarrow>
                 if e \<noteq> 0 then (Return, False, dir2, s2) else store data_block dir2 s2)
        else case inode_data_block dir (of_nat b) False s of
          (None, dir1, s1) \<Rightarrow> (Continue, r, dir1, s1)
        | (Some data_block, dir1, s1) \<Rightarrow>
            if data_block = 0 then (Continue, r, dir1, s1) else store data_block dir1 s1)"

definition dir_add :: "u32 \<Rightarrow> c_string \<Rightarrow> u32 \<Rightarrow> fs \<Rightarrow> bool \<times> fs" where
  "dir_add dir_nr name inode_nr s =
     (if length name = 0 \<or> length name \<ge> FS_NAME_MAX then (False, s)
      else case dir_find dir_nr name s of
        (Some _, s1) \<Rightarrow> (False, s1)
      | (None, s1) \<Rightarrow>
          (case fs_get_inode dir_nr s1 of
             (None, s2) \<Rightarrow> (False, s2)
           | (Some dir, s2) \<Rightarrow>
               if ino_type dir \<noteq> FS_TYPE_DIRECTORY then (False, s2)
               else let blocks = unat (dir_blocks dir) in
                 case for_loop (dir_add_block dir_nr name inode_nr blocks) [0..<Suc blocks] (False, dir, s2) of
                   (_, r, _, s3) \<Rightarrow> (r, s3)))"

definition only_dots :: "memory \<Rightarrow> bool" where
  "only_dots m =
     list_all (\<lambda>i. entry_inode m i = 0 \<or> entry_name m i = dot_name \<or> entry_name m i = dotdot_name)
       [0..<DIR_ENTRIES]"

definition dir_empty_block :: "inode \<Rightarrow> nat \<Rightarrow> bool \<times> fs \<Rightarrow> loop_ctl \<times> bool \<times> fs" where
  "dir_empty_block dir b = (\<lambda>(r, s).
     case inode_data_block dir (of_nat b) False s of
       (None, _, s1) \<Rightarrow> (Continue, r, s1)
     | (Some data_block, _, s1) \<Rightarrow>
         if data_block = 0 then (Continue, r, s1)
         else case cache_get data_block False s1 of
           (None, s2) \<Rightarrow> (Return, False, s2)
         | (Some k, s2) \<Rightarrow>
             if only_dots (slot_data s2 k) then (Continue, r, s2) else (Return, False, s2))"

definition dir_empty :: "u32 \<Rightarrow> fs \<Rightarrow> bool \<times> fs" where
  "dir_empty dir_nr s =
     (case fs_get_inode dir_nr s of
        (None, s1) \<Rightarrow> (False, s1)
      | (Some dir, s1) \<Rightarrow> snd (for_loop (dir_empty_block dir) [0..<unat (file_blocks dir)] (True, s1)))"

section \<open>Path names\<close>

text \<open>The next component of a path: none is left, it is too long, or it and the rest of the path.\<close>

datatype path_step = PathEnd | PathTooLong | PathComponent c_string c_string

fun component_loop :: "nat \<Rightarrow> c_string \<Rightarrow> c_string \<Rightarrow> path_step" where
  "component_loop n acc [] = PathComponent acc []"
| "component_loop n acc (c # p) =
     (if c = slash then PathComponent acc (c # p)
      else if n + 1 \<ge> FS_NAME_MAX then PathTooLong
      else component_loop (n + 1) (acc @ [c]) p)"

fun next_component :: "c_string \<Rightarrow> path_step" where
  "next_component [] = PathEnd"
| "next_component (c # p) = (if c = slash then next_component p else component_loop 0 [] (c # p))"

lemma component_loop_shorter:
  "component_loop n acc p = PathComponent c rest \<Longrightarrow> length rest \<le> length p"
  by (induction n acc p rule: component_loop.induct) (auto split: if_splits)

lemma next_component_shorter:
  "next_component p = PathComponent c rest \<Longrightarrow> length rest < length p"
proof (induction p rule: next_component.induct)
  case (2 c p)
  then show ?case using component_loop_shorter by (fastforce split: if_splits simp: FS_NAME_MAX_def)
qed simp

function lookup_loop :: "c_string \<Rightarrow> u32 \<Rightarrow> fs \<Rightarrow> (u32 \<times> inode) option \<times> fs" where
  "lookup_loop cursor current s =
     (case next_component cursor of
        PathTooLong \<Rightarrow> (None, s)
      | PathEnd \<Rightarrow>
          (case fs_get_inode current s of
             (None, s1) \<Rightarrow> (None, s1)
           | (Some info, s1) \<Rightarrow> (Some (current, info), s1))
      | PathComponent name rest \<Rightarrow>
          if name = dot_name then lookup_loop rest current s
          else case dir_find current name s of
            (None, s1) \<Rightarrow>
              if name = dotdot_name \<and> current = FS_ROOT_INODE then lookup_loop rest current s1 else (None, s1)
          | (Some (nr, _, _), s1) \<Rightarrow>
              (case fs_get_inode nr s1 of
                 (None, s2) \<Rightarrow> (None, s2)
               | (Some info, s2) \<Rightarrow>
                   if rest \<noteq> [] \<and> ino_type info \<noteq> FS_TYPE_DIRECTORY then (None, s2)
                   else lookup_loop rest nr s2))"
  by pat_completeness auto
termination
  by (relation "measure (\<lambda>(cursor, _). length cursor)") (simp_all add: next_component_shorter)

declare lookup_loop.simps [simp del]

definition fs_lookup_path :: "c_string option \<Rightarrow> u32 \<Rightarrow> fs \<Rightarrow> (u32 \<times> inode) option \<times> fs" where
  "fs_lookup_path path cwd_inode s =
     (case path of
        None \<Rightarrow> (None, s)
      | Some p \<Rightarrow>
          (let current = (if p \<noteq> [] \<and> hd p = slash then FS_ROOT_INODE else cwd_inode) in
           if \<not> fs_mounted s \<or> p = [] \<or> \<not> valid_inode current s then (None, s)
           else lookup_loop p current s))"

fun strip_slashes :: "nat \<Rightarrow> c_string \<Rightarrow> c_string" where
  "strip_slashes 0 p = []"
| "strip_slashes (Suc n) p = (if p ! n = slash then strip_slashes n p else take (Suc n) p)"

definition last_slash :: "c_string \<Rightarrow> int" where
  "last_slash p = fold (\<lambda>i r. if p ! i = slash then int i else r) [0..<length p] (-1)"

definition path_parent :: "c_string option \<Rightarrow> u32 \<Rightarrow> fs \<Rightarrow> (u32 \<times> c_string) option \<times> fs" where
  "path_parent path cwd_inode s =
     (case path of
        None \<Rightarrow> (None, s)
      | Some p \<Rightarrow>
          if length p \<ge> FS_PATH_MAX then (None, s)
          else let copy = strip_slashes (length p) p; sl = last_slash copy in
            if copy = [] then (None, s)
            else let leaf = (if sl < 0 then copy else drop (nat (sl + 1)) copy);
                     dir = (if sl < 0 then dot_name else if sl = 0 then take 1 copy else take (nat sl) copy)
                 in case fs_lookup_path (Some dir) cwd_inode s of
                      (None, s1) \<Rightarrow> (None, s1)
                    | (Some (parent, _), s1) \<Rightarrow> (Some (parent, leaf), s1))"

section \<open>Canonical paths\<close>

definition MAX_PARTS :: nat where "MAX_PARTS = 32"

text \<open>The components of one source string on top of those collected before; \<open>None\<close> for more than 32.\<close>

function collect_parts :: "c_string \<Rightarrow> c_string list \<Rightarrow> c_string list option" where
  "collect_parts p parts =
     (case next_component p of
        PathEnd \<Rightarrow> Some parts
      | PathTooLong \<Rightarrow> Some parts
      | PathComponent name rest \<Rightarrow>
          if name = dot_name then collect_parts rest parts
          else if name = dotdot_name then collect_parts rest (butlast parts)
          else if length parts \<ge> MAX_PARTS then None
          else collect_parts rest (parts @ [name]))"
  by pat_completeness auto
termination
  by (relation "measure (\<lambda>(p, _). length p)") (simp_all add: next_component_shorter)

declare collect_parts.simps [simp del]

fun join_parts :: "c_string list \<Rightarrow> c_string \<Rightarrow> c_string option" where
  "join_parts [] out = Some out"
| "join_parts (n # ns) out =
     (if length out + length n + 1 \<ge> FS_PATH_MAX then None
      else join_parts ns (out @ n @ (if ns \<noteq> [] then [slash] else [])))"

definition canonicalize :: "c_string \<Rightarrow> c_string \<Rightarrow> c_string option" where
  "canonicalize path cwd =
     (case (if path \<noteq> [] \<and> hd path = slash then Some [] else collect_parts cwd []) of
        None \<Rightarrow> None
      | Some parts \<Rightarrow>
          (case collect_parts path parts of
             None \<Rightarrow> None
           | Some [] \<Rightarrow> Some [slash]
           | Some parts \<Rightarrow> join_parts parts [slash]))"

end
