(* ===== verification/Fs_Service.thy ===== *)
theory Fs_Service
  imports Fs_Path
begin

text \<open>
  The operations of kernel/fs.c on whole files and the request handler of the file-system
  service.  Results of C functions are kept as in the source; an outer \<open>None\<close> stands for the
  access through a null pointer that \<^verbatim>\<open>fs_read_inode\<close> and \<^verbatim>\<open>fs_write_inode\<close> would make when a block
  cannot be brought into the cache.
\<close>

section \<open>Creating and removing names\<close>

definition dot_entries :: "u32 \<Rightarrow> u32 \<Rightarrow> memory \<Rightarrow> memory" where
  "dot_entries inode_nr parent_nr m =
     put_bytes (64 + 4) (dotdot_name @ [0]) (wr32 64 parent_nr
       (put_bytes 4 (dot_name @ [0]) (wr32 0 inode_nr m)))"

text \<open>The body of a new directory: a block with the two dot entries; \<open>None\<close> when it cannot be had.\<close>

definition create_dir_block :: "u32 \<Rightarrow> u32 \<Rightarrow> inode \<Rightarrow> fs \<Rightarrow> inode option \<times> fs" where
  "create_dir_block inode_nr parent_nr ino s =
     (case alloc_data_block s of (block, s1) \<Rightarrow>
        if block < 0 then (None, bitmap_free (sb_imap_start (fs_sb s1)) inode_nr s1)
        else let b = word_of_int block;
                 ino' = ino\<lparr>ino_size := 4096, ino_direct := (ino_direct ino)[0 := b]\<rparr>
             in case cache_get b True s1 of
                  (None, s2) \<Rightarrow>
                    (None, bitmap_free (sb_imap_start (fs_sb s2)) inode_nr (free_block b s2))
                | (Some k, s2) \<Rightarrow> (Some ino', poke k (dot_entries inode_nr parent_nr) s2))"

definition link_new_inode :: "u32 \<Rightarrow> c_string \<Rightarrow> u32 \<Rightarrow> inode \<Rightarrow> fs \<Rightarrow> bool \<times> fs" where
  "link_new_inode parent_nr leaf inode_nr ino s =
     (case fs_put_inode inode_nr ino s of (e, s1) \<Rightarrow>
        case (if e \<noteq> 0 then (False, s1) else dir_add parent_nr leaf inode_nr s1) of (ok, s2) \<Rightarrow>
          if ok then (True, s2)
          else (False, bitmap_free (sb_imap_start (fs_sb s2)) inode_nr (free_inode_blocks ino s2)))"

definition count_subdirectory :: "u32 \<Rightarrow> fs \<Rightarrow> fs" where
  "count_subdirectory parent_nr s =
     (case fs_get_inode parent_nr s of
        (None, s1) \<Rightarrow> s1
      | (Some parent, s1) \<Rightarrow> snd (fs_put_inode parent_nr (parent\<lparr>ino_links := ino_links parent + 1\<rparr>) s1))"

definition fs_create_path :: "c_string option \<Rightarrow> u32 \<Rightarrow> u16 \<Rightarrow> fs \<Rightarrow> u32 option \<times> fs" where
  "fs_create_path path cwd_inode type s =
     (case path_parent path cwd_inode s of
        (None, s1) \<Rightarrow> (None, s1)
      | (Some (parent_nr, leaf), s1) \<Rightarrow>
          if leaf = dot_name \<or> leaf = dotdot_name then (None, s1)
          else case dir_find parent_nr leaf s1 of
            (Some _, s2) \<Rightarrow> (None, s2)
          | (None, s2) \<Rightarrow>
              (case bitmap_allocate (sb_imap_start (fs_sb s2)) (FS_ROOT_INODE + 1)
                      (sb_total_inodes (fs_sb s2)) s2 of (got, s3) \<Rightarrow>
                 if got < 0 then (None, s3)
                 else let inode_nr = word_of_int got;
                          ino = zero_inode\<lparr>ino_type := type, ino_links := 1\<rparr>
                      in case (if type = FS_TYPE_DIRECTORY then create_dir_block inode_nr parent_nr ino s3
                               else (Some ino, s3)) of
                           (None, s4) \<Rightarrow> (None, s4)
                         | (Some ino', s4) \<Rightarrow>
                             (case link_new_inode parent_nr leaf inode_nr ino' s4 of (ok, s5) \<Rightarrow>
                                if \<not> ok then (None, s5)
                                else (Some inode_nr,
                                      if type = FS_TYPE_DIRECTORY then count_subdirectory parent_nr s5 else s5))))"

definition uncount_subdirectory :: "u32 \<Rightarrow> u16 \<Rightarrow> fs \<Rightarrow> fs" where
  "uncount_subdirectory parent_nr type s =
     (case fs_get_inode parent_nr s of
        (None, s1) \<Rightarrow> s1
      | (Some parent, s1) \<Rightarrow>
          if type = FS_TYPE_DIRECTORY \<and> ino_links parent > 0
          then snd (fs_put_inode parent_nr (parent\<lparr>ino_links := ino_links parent - 1\<rparr>) s1) else s1)"

text \<open>The end of an unlink: the entry is gone, the inode is released now or kept for its open files.\<close>

definition drop_inode :: "u32 \<Rightarrow> inode \<Rightarrow> fs \<Rightarrow> bool \<times> fs" where
  "drop_inode inode_nr ino s =
     (let ino1 = ino\<lparr>ino_links := 0\<rparr>;
          (ino2, s1) =
            (if fs_refs s (unat inode_nr) = 0
             then (zero_inode, let s' = free_inode_blocks ino1 s
                               in bitmap_free (sb_imap_start (fs_sb s')) inode_nr s')
             else (ino1, s))
      in case fs_put_inode inode_nr ino2 s1 of (e, s2) \<Rightarrow>
           if e \<noteq> 0 then (False, s2)
           else case cache_sync s2 of (e, s3) \<Rightarrow> (e = 0, s3))"

definition fs_unlink_path :: "c_string option \<Rightarrow> u32 \<Rightarrow> fs \<Rightarrow> bool \<times> fs" where
  "fs_unlink_path path cwd_inode s =
     (case path_parent path cwd_inode s of
        (None, s1) \<Rightarrow> (False, s1)
      | (Some (parent_nr, leaf), s1) \<Rightarrow>
          if leaf = dot_name \<or> leaf = dotdot_name then (False, s1)
          else case dir_find parent_nr leaf s1 of
            (None, s2) \<Rightarrow> (False, s2)
          | (Some (inode_nr, block_nr, index), s2) \<Rightarrow>
              (case fs_get_inode inode_nr s2 of
                 (None, s3) \<Rightarrow> (False, s3)
               | (Some ino, s3) \<Rightarrow>
                   (case (if ino_type ino = FS_TYPE_DIRECTORY then dir_empty inode_nr s3 else (True, s3)) of
                      (no_names, s4) \<Rightarrow>
                        if \<not> no_names then (False, s4)
                        else case cache_get block_nr True s4 of
                          (None, s5) \<Rightarrow> (False, s5)
                        | (Some k, s5) \<Rightarrow>
                            drop_inode inode_nr ino
                              (uncount_subdirectory parent_nr (ino_type ino)
                                (poke k (memset (64 * index) 0 64) s5)))))"

section \<open>Reading and writing files\<close>

definition FS_BLOCK :: u64 where "FS_BLOCK = 4096"

definition chunk_at :: "u64 \<Rightarrow> u32 \<Rightarrow> u32" where
  "chunk_at file_offset rest =
     (let chunk = 4096 - ucast (file_offset mod FS_BLOCK) in if chunk > rest then rest else chunk)"

lemma unat_block_offset: "unat (ucast (x mod FS_BLOCK) :: u32) = unat x mod 4096"
proof -
  have "unat (x mod FS_BLOCK) = unat x mod 4096" by (simp add: FS_BLOCK_def unat_mod)
  moreover have "unat (ucast y :: u32) = unat y" if "unat y < 4096" for y :: u64
    using that by (simp add: unsigned_ucast_eq take_bit_nat_eq_self_iff)
  ultimately show ?thesis by simp
qed

lemma unat_chunk_at: "unat (chunk_at off rest) = min (4096 - unat off mod 4096) (unat rest)"
proof -
  have "(ucast (off mod FS_BLOCK) :: u32) \<le> 4096"
    by (simp add: word_le_nat_alt unat_block_offset less_imp_le)
  then have "unat (4096 - ucast (off mod FS_BLOCK) :: u32) = 4096 - unat off mod 4096"
    by (subst unat_sub) (simp_all add: unat_block_offset)
  then show ?thesis by (auto simp: chunk_at_def Let_def word_less_nat_alt)
qed

lemma chunk_progress:
  assumes "done' < (length' :: u32)"
  shows "unat length' - unat (done' + chunk_at off (length' - done')) < unat length' - unat done'"
proof -
  have d: "unat done' < unat length'" using assms by (simp add: word_less_nat_alt)
  have c: "unat (chunk_at off (length' - done')) = min (4096 - unat off mod 4096) (unat length' - unat done')"
    using assms by (simp add: unat_chunk_at unat_sub)
  have "unat (done' + chunk_at off (length' - done')) = unat done' + unat (chunk_at off (length' - done'))"
    using c d unsigned_less [of length', where 'a = nat] by (subst unat_word_ariths(1)) simp
  moreover have "0 < unat (chunk_at off (length' - done'))" using c d by simp
  ultimately show ?thesis using d by linarith
qed

text \<open>
  The loop of \<^verbatim>\<open>fs_read_inode\<close>.  A result \<open>None\<close> is the copy from the null pointer that the source
  makes when the block cannot be cached.
\<close>

function read_loop ::
    "inode \<Rightarrow> u64 \<Rightarrow> u32 \<Rightarrow> u32 \<Rightarrow> memory \<Rightarrow> fs \<Rightarrow> (int \<times> memory \<times> fs) option" where
  "read_loop ino offset len done' out s =
     (if done' < len then
        let file_offset = offset + ucast done'; chunk = chunk_at file_offset (len - done') in
        case inode_data_block ino (file_offset div FS_BLOCK) False s of
          (None, _, s1) \<Rightarrow> Some (-1, out, s1)
        | (Some block_nr, ino', s1) \<Rightarrow>
            if block_nr = 0
            then read_loop ino' offset len (done' + chunk) (memset (unat done') 0 (unat chunk) out) s1
            else (case cache_get block_nr False s1 of
                    (None, s2) \<Rightarrow> None
                  | (Some k, s2) \<Rightarrow>
                      read_loop ino' offset len (done' + chunk)
                        (put_bytes (unat done')
                          (map (\<lambda>i. slot_data s2 k (unat (file_offset mod FS_BLOCK) + i)) [0..<unat chunk]) out) s2)
      else Some (sint done', out, s))"
  by pat_completeness auto
termination
  by (relation "measure (\<lambda>(_, _, len, done', _). unat len - unat done')")
    (auto simp: chunk_progress)

declare read_loop.simps [simp del]

definition fs_read_inode ::
    "u32 \<Rightarrow> u64 \<Rightarrow> bool \<Rightarrow> memory \<Rightarrow> u32 \<Rightarrow> fs \<Rightarrow> (int \<times> memory \<times> fs) option" where
  "fs_read_inode inode_nr offset buffer_null buf len s =
     (if buffer_null then Some (-1, buf, s)
      else case fs_get_inode inode_nr s of
        (None, s1) \<Rightarrow> Some (-1, buf, s1)
      | (Some ino, s1) \<Rightarrow>
          if ino_type ino \<noteq> FS_TYPE_FILE then Some (-1, buf, s1)
          else if offset \<ge> ino_size ino \<or> len = 0 then Some (0, buf, s1)
          else let len' = (if ino_size ino - offset < ucast len then ucast (ino_size ino - offset) else len) in
            if offset > (- 1) - ucast len' then Some (-1, buf, s1)
            else read_loop ino offset len' 0 buf s1)"

definition undo_write :: "u32 \<Rightarrow> inode \<Rightarrow> inode \<Rightarrow> fs \<Rightarrow> fs" where
  "undo_write inode_nr old_inode ino s = snd (fs_put_inode inode_nr old_inode (rollback_new_blocks old_inode ino s))"

text \<open>One round of the write loop: \<open>Inl\<close> the way out with -1, \<open>Inr\<close> the inode after the chunk.\<close>

definition write_chunk ::
    "inode \<Rightarrow> u64 \<Rightarrow> u8 list \<Rightarrow> fs \<Rightarrow> ((inode \<times> fs) + (inode \<times> fs)) option" where
  "write_chunk ino file_offset bytes s =
     (case inode_data_block ino (file_offset div FS_BLOCK) True s of
        (None, ino', s1) \<Rightarrow> Some (Inl (ino', s1))
      | (Some block_nr, ino', s1) \<Rightarrow>
          if block_nr = 0 then Some (Inl (ino', s1))
          else (case cache_get block_nr True s1 of
                  (None, s2) \<Rightarrow> Some (Inl (ino', s2))
                | (Some _, s2) \<Rightarrow>
                    (case cache_get block_nr True s2 of
                       (None, s3) \<Rightarrow> None
                     | (Some k, s3) \<Rightarrow>
                         Some (Inr (ino', poke k (put_bytes (unat (file_offset mod FS_BLOCK)) bytes) s3)))))"

function write_loop ::
    "inode \<Rightarrow> u64 \<Rightarrow> memory \<Rightarrow> u32 \<Rightarrow> u32 \<Rightarrow> fs \<Rightarrow> ((inode \<times> fs) + (u32 \<times> inode \<times> fs)) option" where
  "write_loop ino offset input len done' s =
     (if done' < len then
        let file_offset = offset + ucast done'; chunk = chunk_at file_offset (len - done') in
        case write_chunk ino file_offset (map (\<lambda>i. input (unat done' + i)) [0..<unat chunk]) s of
          None \<Rightarrow> None
        | Some (Inl e) \<Rightarrow> Some (Inl e)
        | Some (Inr (ino', s')) \<Rightarrow> write_loop ino' offset input len (done' + chunk) s'
      else Some (Inr (done', ino, s)))"
  by pat_completeness auto
termination
  by (relation "measure (\<lambda>(_, _, _, len, done', _). unat len - unat done')")
    (auto simp: chunk_progress)

declare write_loop.simps [simp del]

definition fs_write_inode ::
    "u32 \<Rightarrow> u64 \<Rightarrow> bool \<Rightarrow> memory \<Rightarrow> u32 \<Rightarrow> fs \<Rightarrow> (int \<times> fs) option" where
  "fs_write_inode inode_nr offset buffer_null buf len s =
     (if buffer_null then Some (-1, s)
      else case fs_get_inode inode_nr s of
        (None, s1) \<Rightarrow> Some (-1, s1)
      | (Some old_inode, s1) \<Rightarrow>
          if ino_type old_inode \<noteq> FS_TYPE_FILE \<or> offset > FS_MAX_FILE_SIZE \<or>
             ucast len > FS_MAX_FILE_SIZE - offset \<or> offset > (- 1) - ucast len
          then Some (-1, s1)
          else (case write_loop old_inode offset buf len 0 s1 of
                  None \<Rightarrow> None
                | Some (Inl (ino, s2)) \<Rightarrow> Some (-1, undo_write inode_nr old_inode ino s2)
                | Some (Inr (done', ino, s2)) \<Rightarrow>
                    (let ino' = (if offset + ucast done' > ino_size ino
                                 then ino\<lparr>ino_size := offset + ucast done'\<rparr> else ino) in
                     case fs_put_inode inode_nr ino' s2 of (e, s3) \<Rightarrow>
                       (case (if e \<noteq> 0 then (-1, s3) else cache_sync s3) of (e', s4) \<Rightarrow>
                          if e' \<noteq> 0 then Some (-1, undo_write inode_nr old_inode ino' s4)
                          else Some (sint done', s4)))))"

definition fs_stat_path :: "c_string option \<Rightarrow> u32 \<Rightarrow> fs \<Rightarrow> (u32 \<times> inode) option \<times> fs" where
  "fs_stat_path path cwd_inode s = fs_lookup_path path cwd_inode s"

section \<open>Open references\<close>

definition release_inode :: "u32 \<Rightarrow> fs \<Rightarrow> fs" where
  "release_inode inode_nr s =
     (if \<not> valid_inode inode_nr s \<or> fs_refs s (unat inode_nr) = 0 then s
      else let s1 = s\<lparr>fs_refs := (fs_refs s)(unat inode_nr := fs_refs s (unat inode_nr) - 1)\<rparr> in
        if fs_refs s1 (unat inode_nr) \<noteq> 0 then s1
        else (case fs_get_inode inode_nr s1 of
                (None, s2) \<Rightarrow> s2
              | (Some ino, s2) \<Rightarrow>
                  if ino_links ino \<noteq> 0 then s2
                  else let s3 = snd (fs_put_inode inode_nr zero_inode (free_inode_blocks ino s2)) in
                    snd (cache_sync (bitmap_free (sb_imap_start (fs_sb s3)) inode_nr s3))))"

definition fs_release_inode :: "u32 \<Rightarrow> fs \<Rightarrow> fs" where
  "fs_release_inode inode_nr s = snd (cache_sync (release_inode inode_nr s))"

section \<open>Listing a directory\<close>

definition list_entry ::
    "memory \<Rightarrow> u32 \<Rightarrow> nat \<Rightarrow> u32 \<times> memory \<Rightarrow> loop_ctl \<times> u32 \<times> memory" where
  "list_entry m len i = (\<lambda>(done', buf).
     if entry_inode m i = 0 \<or> done' \<ge> len then (Continue, done', buf)
     else let n = of_nat (length (entry_name m i)) in
       if n + 1 > len - done' then (Return, done', buf)
       else (Continue, done' + n + 1,
             (put_bytes (unat done') (entry_name m i) buf)(unat (done' + n) := 0x0A)))"

definition list_block ::
    "inode \<Rightarrow> u32 \<Rightarrow> nat \<Rightarrow> int \<times> u32 \<times> memory \<times> fs \<Rightarrow> loop_ctl \<times> int \<times> u32 \<times> memory \<times> fs" where
  "list_block dir len b = (\<lambda>(r, done', buf, s).
     case inode_data_block dir (of_nat b) False s of
       (None, _, s1) \<Rightarrow> (Continue, r, done', buf, s1)
     | (Some data_block, _, s1) \<Rightarrow>
         if data_block = 0 then (Continue, r, done', buf, s1)
         else (case cache_get data_block False s1 of
                 (None, s2) \<Rightarrow> (Return, -1, done', buf, s2)
               | (Some k, s2) \<Rightarrow>
                   (case for_loop (list_entry (slot_data s2 k) len) [0..<DIR_ENTRIES] (done', buf) of
                      (Continue, done'', buf') \<Rightarrow> (Continue, r, done'', buf', s2)
                    | (_, done'', buf') \<Rightarrow> (Return, sint done'', done'', buf', s2))))"

definition list_inode :: "u32 \<Rightarrow> bool \<Rightarrow> memory \<Rightarrow> u32 \<Rightarrow> fs \<Rightarrow> int \<times> memory \<times> fs" where
  "list_inode inode_nr buffer_null buf len s =
     (case fs_get_inode inode_nr s of
        (None, s1) \<Rightarrow> (-1, buf, s1)
      | (Some dir, s1) \<Rightarrow>
          if ino_type dir \<noteq> FS_TYPE_DIRECTORY \<or> buffer_null then (-1, buf, s1)
          else (case for_loop (list_block dir len) [0..<unat (file_blocks dir)] (0, 0, buf, s1) of
                  (Continue, _, done', buf', s2) \<Rightarrow> (sint done', buf', s2)
                | (_, r, _, buf', s2) \<Rightarrow> (r, buf', s2)))"

definition fs_list_path :: "c_string option \<Rightarrow> u32 \<Rightarrow> bool \<Rightarrow> memory \<Rightarrow> u32 \<Rightarrow> fs \<Rightarrow> int \<times> memory \<times> fs" where
  "fs_list_path path cwd_inode buffer_null buf len s =
     (case fs_lookup_path (if path = None \<or> path = Some [] then Some dot_name else path) cwd_inode s of
        (None, s1) \<Rightarrow> (-1, buf, s1)
      | (Some (inode_nr, _), s1) \<Rightarrow> list_inode inode_nr buffer_null buf len s1)"

end
