(* ===== verification/Fs_Files.thy ===== *)
theory Fs_Files
  imports Fs_Meta Fs_Service
begin

text \<open>
  Files over the view: the block of a file offset is the one the index tree names, and reading
  a file returns exactly the bytes stored in these blocks, zeroes where there is no block.
\<close>

section \<open>The index tree\<close>

fun tree_lookup :: "(u32 \<Rightarrow> memory) \<Rightarrow> nat \<Rightarrow> u32 \<Rightarrow> nat \<Rightarrow> u32" where
  "tree_lookup V 0 b i = b"
| "tree_lookup V (Suc d) b i =
     (if b = 0 then 0 else tree_lookup V d (rd32 (V b) (4 * (i div 1024 ^ d))) (i mod 1024 ^ d))"

text \<open>Every pointer on the way to block \<open>i\<close>, the last one included, names a block of the disk.\<close>

fun tree_ok :: "u32 \<Rightarrow> (u32 \<Rightarrow> memory) \<Rightarrow> nat \<Rightarrow> u32 \<Rightarrow> nat \<Rightarrow> bool" where
  "tree_ok tot V 0 b i \<longleftrightarrow> b < tot"
| "tree_ok tot V (Suc d) b i \<longleftrightarrow>
     b < tot \<and> (b \<noteq> 0 \<longrightarrow> tree_ok tot V d (rd32 (V b) (4 * (i div 1024 ^ d))) (i mod 1024 ^ d))"

definition MAX_BLOCKS :: nat where
  "MAX_BLOCKS = 11 + 1024 + 1024 ^ 2 + 1024 ^ 3"

text \<open>Which tree of the inode block \<open>i\<close> belongs to, with its depth, root and index.\<close>

definition in_tree :: "inode \<Rightarrow> nat \<Rightarrow> nat \<times> u32 \<times> nat" where
  "in_tree ino i =
     (if i < 11 then (0, ino_direct ino ! i, 0)
      else if i < 11 + 1024 then (1, ino_indirect_1 ino, i - 11)
      else if i < 11 + 1024 + 1024 ^ 2 then (2, ino_indirect_2 ino, i - (11 + 1024))
      else (3, ino_indirect_3 ino, i - (11 + 1024 + 1024 ^ 2)))"

definition file_block :: "(u32 \<Rightarrow> memory) \<Rightarrow> inode \<Rightarrow> nat \<Rightarrow> u32" where
  "file_block V ino i = (case in_tree ino i of (d, b, j) \<Rightarrow> tree_lookup V d b j)"

definition block_ok :: "u32 \<Rightarrow> (u32 \<Rightarrow> memory) \<Rightarrow> inode \<Rightarrow> nat \<Rightarrow> bool" where
  "block_ok tot V ino i \<longleftrightarrow> (case in_tree ino i of (d, b, j) \<Rightarrow> tree_ok tot V d b j)"

lemma tree_lookup_bound: "tree_ok tot V d b i \<Longrightarrow> tree_lookup V d b i < tot"
  by (induction d arbitrary: b i) auto

lemma file_block_bound: "block_ok tot V ino i \<Longrightarrow> file_block V ino i < tot"
  by (auto simp: block_ok_def file_block_def split: prod.splits intro: tree_lookup_bound)

section \<open>Looking up a block\<close>

lemma rd32_view:
  assumes "cache_inv s" and "fetched b wr k s" and "a + 4 \<le> 4096"
  shows "rd32 (slot_data s k) a = rd32 (view s b) a"
  using fetched_byte [OF assms(1,2)] assms(3) by (intro rd32_cong) simp

lemma index_level_lookup:
  assumes g: "good (Suc n) s" and b: "b < sb_total_blocks (fs_sb s)" and i: "i < 1024"
  obtains s' where "index_level b i False s = (Some (rd32 (view s b) (4 * i)), s')" "good n s'" "view s' = view s" "same_fs s s'"
proof -
  obtain k s' where c: "cache_get b False s = (Some k, s')" "good n s'" "view s' = view s" "same_fs s s'" "fetched b False k s'"
    using cache_get_good [OF g b, of False] by blast
  have "rd32 (slot_data s' k) (4 * i) = rd32 (view s b) (4 * i)"
    using rd32_view [OF good_inv [OF c(2)] c(5), of "4 * i"] c(3) i by simp
  then show thesis using that c by (simp add: index_level_def grow_entry_def)
qed

lemma double_level_lookup:
  assumes g: "good (Suc (Suc n)) s" and t: "tree_ok (sb_total_blocks (fs_sb s)) (view s) 2 b (unat j)" and b: "b \<noteq> 0" and j: "unat j < 1024 ^ 2"
  obtains s' where "double_level b j False s = (Some (tree_lookup (view s) 2 b (unat j)), s')" "good n s'" "view s' = view s" "same_fs s s'"
proof -
  define c where "c = rd32 (view s b) (4 * (unat j div 1024))"
  have t1: "b < sb_total_blocks (fs_sb s)" "c \<noteq> 0 \<Longrightarrow> c < sb_total_blocks (fs_sb s)"
    "tree_lookup (view s) 2 b (unat j) = (if c = 0 then 0 else rd32 (view s c) (4 * (unat j mod 1024)))"
    using t b by (auto simp: numeral_2_eq_2 c_def)
  have q: "unat j div 1024 < 1024" using j by (simp add: power2_eq_square less_mult_imp_div_less)
  obtain s1 where s1: "index_level b (unat j div 1024) False s = (Some c, s1)" "good (Suc n) s1" "view s1 = view s" "same_fs s s1"
    using index_level_lookup [OF g t1(1) q] unfolding c_def by blast
  have u: "unat (j div 1024) = unat j div 1024" "unat (j mod 1024) = unat j mod 1024" by (simp_all add: unat_div unat_mod)
  show thesis
  proof (cases "c = 0")
    case True
    then show thesis using that [of s1] s1 t1(3) good_less [OF s1(2), of n] by (simp add: double_level_def u)
  next
    case False
    then have "c < sb_total_blocks (fs_sb s1)" using t1(2) s1(4) by (simp add: same_fs_def)
    then obtain s2 where "index_level c (unat j mod 1024) False s1 = (Some (rd32 (view s1 c) (4 * (unat j mod 1024))), s2)"
      "good n s2" "view s2 = view s1" "same_fs s1 s2"
      using index_level_lookup [OF s1(2), of c "unat j mod 1024"] by auto
    then show thesis using that [of s2] s1 t1(3) False same_fs_trans [OF s1(4)] by (simp add: double_level_def u)
  qed
qed

lemma div_mod_1024: "(x :: nat) mod 1048576 div 1024 = x div 1024 mod 1024"
  using mod_mult2_eq [of x 1024 1024] by simp

lemma triple_level_lookup:
  assumes g: "good (Suc (Suc (Suc n))) s" and t: "tree_ok (sb_total_blocks (fs_sb s)) (view s) 3 b (unat j)" and b: "b \<noteq> 0" and j: "unat j < 1024 ^ 3"
  obtains s' where "triple_level b j False s = (Some (tree_lookup (view s) 3 b (unat j)), s')" "good n s'" "view s' = view s" "same_fs s s'"
proof -
  define c where "c = rd32 (view s b) (4 * (unat j div 1024 ^ 2))"
  have n3: "3 = Suc 2" by simp
  have t1: "b < sb_total_blocks (fs_sb s)" "c \<noteq> 0 \<Longrightarrow> tree_ok (sb_total_blocks (fs_sb s)) (view s) 2 c (unat j mod 1024 ^ 2)"
    "tree_lookup (view s) 3 b (unat j) = (if c = 0 then 0 else tree_lookup (view s) 2 c (unat j mod 1024 ^ 2))"
    using t b unfolding n3 tree_ok.simps(2) tree_lookup.simps(2) by (auto simp: c_def numeral_2_eq_2)
  have q: "unat j div 1024 ^ 2 < 1024" using j by (simp add: less_mult_imp_div_less)
  obtain s1 where s1: "index_level b (unat j div 1024 ^ 2) False s = (Some c, s1)" "good (Suc (Suc n)) s1" "view s1 = view s" "same_fs s s1"
    using index_level_lookup [OF g t1(1) q] unfolding c_def by blast
  have u: "unat (j div FS_DOUBLE_FILE_BLOCKS) = unat j div 1024 ^ 2"
    "unat (j div 1024 mod 1024) = unat (j mod FS_DOUBLE_FILE_BLOCKS) div 1024"
    "unat (j mod 1024) = unat (j mod FS_DOUBLE_FILE_BLOCKS) mod 1024" "unat (j mod FS_DOUBLE_FILE_BLOCKS) = unat j mod 1024 ^ 2"
    by (simp_all add: FS_DOUBLE_FILE_BLOCKS_def unat_div unat_mod power2_eq_square mod_mod_cancel div_mod_1024)
  show thesis
  proof (cases "c = 0")
    case True
    then show thesis using that [of s1] s1 t1(3) good_less [OF s1(2), of n] by (simp add: triple_level_def u)
  next
    case False
    define i where "i = j mod FS_DOUBLE_FILE_BLOCKS"
    have w: "unat (j div 1024 mod 1024) = unat (i div 1024)" "unat (j mod 1024) = unat (i mod 1024)"
      unfolding i_def u(2,3) by (simp_all add: unat_div unat_mod)
    have e: "triple_level b j False s = double_level c i False s1"
      using s1(1) False unfolding triple_level_def double_level_def w u(1) by simp
    have "tree_ok (sb_total_blocks (fs_sb s1)) (view s1) 2 c (unat i)" "unat i < 1024 ^ 2"
      using t1(2) [OF False] s1(3,4) u(4) by (simp_all add: i_def same_fs_def)
    then obtain s2 where "double_level c i False s1 = (Some (tree_lookup (view s1) 2 c (unat i)), s2)" "good n s2" "view s2 = view s1" "same_fs s1 s2"
      using double_level_lookup [OF s1(2) _ False] by blast
    then show thesis using that [of s2] e s1(3) t1(3) False same_fs_trans [OF s1(4)] u(4) by (simp add: i_def)
  qed
qed

text \<open>The three kinds of subtree under one name, and the root pointer each has in the inode.\<close>

definition level :: "nat \<Rightarrow> u32 \<Rightarrow> u64 \<Rightarrow> bool \<Rightarrow> fs \<Rightarrow> u32 option \<times> fs" where
  "level d b j create s =
     (if d = 1 then index_level b (unat j) create s
      else if d = 2 then double_level b j create s else triple_level b j create s)"

definition set_root :: "nat \<Rightarrow> u32 \<Rightarrow> inode \<Rightarrow> inode" where
  "set_root d q ino =
     (if d = 1 then ino\<lparr>ino_indirect_1 := q\<rparr> else if d = 2 then ino\<lparr>ino_indirect_2 := q\<rparr> else ino\<lparr>ino_indirect_3 := q\<rparr>)"

lemma level_eqs:
  "set_root 1 = (\<lambda>q. ino_indirect_1_update (\<lambda>_. q))" "set_root 2 = (\<lambda>q. ino_indirect_2_update (\<lambda>_. q))"
  "set_root 3 = (\<lambda>q. ino_indirect_3_update (\<lambda>_. q))"
  "level 1 = (\<lambda>b j. index_level b (unat j))" "level 2 = double_level" "level 3 = triple_level"
  by (simp_all add: set_root_def level_def fun_eq_iff)

lemma level_index_less: "unat idx < MAX_BLOCKS \<Longrightarrow> \<not> FS_MAX_FILE_BLOCKS \<le> idx"
  by (simp add: word_le_nat_alt MAX_BLOCKS_def FS_MAX_FILE_BLOCKS_def FS_SINGLE_FILE_BLOCKS_def
      FS_DOUBLE_FILE_BLOCKS_def FS_TRIPLE_FILE_BLOCKS_def)

lemma data_block_dispatch:
  assumes i: "unat idx < MAX_BLOCKS" "11 \<le> unat idx"
  obtains d p j where "in_tree ino (unat idx) = (d, p, unat j)" "d \<in> {1, 2, 3}" "unat j < 1024 ^ d" "set_root d p ino = ino"
    "\<And>create s. inode_data_block ino idx create s = under_root p (set_root d) (\<lambda>q. level d q j create) create ino s"
proof -
  have m: "\<not> FS_MAX_FILE_BLOCKS \<le> idx" using i(1) by (rule level_index_less)
  have w: "\<not> idx < 11" "unat (idx - 11) = unat idx - 11" using i by (simp_all add: word_less_nat_alt word_le_nat_alt unat_sub)
  note idb = inode_data_block_def level_eqs Let_def in_tree_def
  consider "unat idx < 11 + 1024" | "11 + 1024 \<le> unat idx" "unat idx < 11 + 1024 + 1024 ^ 2"
    | "11 + 1024 + 1024 ^ 2 \<le> unat idx" by linarith
  then show thesis
  proof cases
    case 1
    have "idx - 11 < FS_SINGLE_FILE_BLOCKS" using 1 w i by (simp add: word_less_nat_alt FS_SINGLE_FILE_BLOCKS_def)
    then show thesis using that [of 1 "ino_indirect_1 ino" "idx - 11"] 1 w m i by (simp add: idb del: One_nat_def)
  next
    case 2
    have w2: "\<not> idx - 11 < FS_SINGLE_FILE_BLOCKS" "unat (idx - 11 - FS_SINGLE_FILE_BLOCKS) = unat idx - (11 + 1024)"
      using 2 w by (simp_all add: word_less_nat_alt word_le_nat_alt FS_SINGLE_FILE_BLOCKS_def unat_sub)
    then have "idx - 11 - FS_SINGLE_FILE_BLOCKS < FS_DOUBLE_FILE_BLOCKS" using 2 by (simp add: word_less_nat_alt FS_DOUBLE_FILE_BLOCKS_def)
    then show thesis using that [of 2 "ino_indirect_2 ino" "idx - 11 - FS_SINGLE_FILE_BLOCKS"] 2 w w2 m by (simp add: idb del: One_nat_def)
  next
    case 3
    define j where "j = idx - 11 - FS_SINGLE_FILE_BLOCKS - FS_DOUBLE_FILE_BLOCKS"
    have w2: "\<not> idx - 11 < FS_SINGLE_FILE_BLOCKS" "unat (idx - 11 - FS_SINGLE_FILE_BLOCKS) = unat idx - (11 + 1024)"
      using 3 w by (simp_all add: word_less_nat_alt word_le_nat_alt FS_SINGLE_FILE_BLOCKS_def unat_sub)
    then have w3: "\<not> idx - 11 - FS_SINGLE_FILE_BLOCKS < FS_DOUBLE_FILE_BLOCKS" "unat j = unat idx - (11 + 1024 + 1024 ^ 2)"
      using 3 by (simp_all add: j_def word_less_nat_alt word_le_nat_alt FS_DOUBLE_FILE_BLOCKS_def unat_sub)
    then have "\<not> FS_TRIPLE_FILE_BLOCKS \<le> j" "unat j < 1024 ^ 3"
      using i 3 by (simp_all add: word_le_nat_alt FS_TRIPLE_FILE_BLOCKS_def MAX_BLOCKS_def)
    then show thesis using that [of 3 "ino_indirect_3 ino" j] 3 w w2 w3 m by (simp add: idb j_def [symmetric])
  qed
qed

lemma level_lookup:
  assumes g: "good (3 + n) s" and t: "tree_ok (sb_total_blocks (fs_sb s)) (view s) d b (unat j)" and b: "b \<noteq> 0"
    and d: "d \<in> {1, 2, 3}" "unat j < 1024 ^ d"
  obtains s' where "level d b j False s = (Some (tree_lookup (view s) d b (unat j)), s')" "good n s'" "view s' = view s" "same_fs s s'"
proof -
  consider "d = 1" | "d = 2" | "d = 3" using d(1) by blast
  then show thesis
  proof cases
    case 1
    have g1: "good (Suc n) s" using good_less [OF g] by simp
    have "b < sb_total_blocks (fs_sb s)" "unat j < 1024" using t d(2) 1 by simp_all
    from index_level_lookup [OF g1 this] show thesis using that 1 b unfolding level_def by auto
  next
    case 2
    have g2: "good (Suc (Suc n)) s" using good_less [OF g] by simp
    from double_level_lookup [OF g2 t [unfolded 2] b d(2) [unfolded 2]] show thesis using that 2 unfolding level_def by auto
  next
    case 3
    have g3: "good (Suc (Suc (Suc n))) s" using g by (simp add: numeral_3_eq_3)
    from triple_level_lookup [OF g3 t [unfolded 3] b d(2) [unfolded 3]] show thesis using that 3 unfolding level_def by auto
  qed
qed

lemma data_block_lookup:
  assumes g: "good (3 + n) s" and ok: "block_ok (sb_total_blocks (fs_sb s)) (view s) ino (unat idx)" and i: "unat idx < MAX_BLOCKS"
    and dir: "length (ino_direct ino) = 11"
  obtains s' where "inode_data_block ino idx False s = (Some (file_block (view s) ino (unat idx)), ino, s')"
    "good n s'" "view s' = view s" "same_fs s s'"
proof (cases "unat idx < 11")
  case True
  have gn: "good n s" using good_less [OF g] by simp
  have "idx < 11" using True by (simp add: word_less_nat_alt)
  then show thesis using that [of s] gn level_index_less [OF i] True dir
    by (simp add: inode_data_block_def grow_pointer_def file_block_def in_tree_def)
next
  case False
  have gn: "good n s" using good_less [OF g] by simp
  from False obtain d p j where t: "in_tree ino (unat idx) = (d, p, unat j)" "d \<in> {1, 2, 3}" "unat j < 1024 ^ d" "set_root d p ino = ino"
    "\<And>create s. inode_data_block ino idx create s = under_root p (set_root d) (\<lambda>q. level d q j create) create ino s"
    using data_block_dispatch [OF i, of ino] by (metis not_less)
  have fb: "file_block (view s) ino (unat idx) = tree_lookup (view s) d p (unat j)"
    "tree_ok (sb_total_blocks (fs_sb s)) (view s) d p (unat j)"
    using ok t(1) by (simp_all add: file_block_def block_ok_def)
  show thesis
  proof (cases "p = 0")
    case True
    have "tree_lookup (view s) d 0 (unat j) = 0" using t(2) by (cases d) auto
    then show thesis using that [of s] True t(4,5) fb gn by (simp add: under_root_def grow_pointer_def Let_def)
  next
    case False
    from level_lookup [OF g fb(2) False t(2,3)] obtain s'
      where "level d p j False s = (Some (tree_lookup (view s) d p (unat j)), s')" "good n s'" "view s' = view s" "same_fs s s'" by blast
    then show thesis using that [of s'] False t(4,5) fb by (simp add: under_root_def grow_pointer_def Let_def)
  qed
qed

section \<open>Reading\<close>

definition file_byte :: "(u32 \<Rightarrow> memory) \<Rightarrow> inode \<Rightarrow> nat \<Rightarrow> u8" where
  "file_byte V ino a =
     (let b = file_block V ino (a div 4096) in if b = 0 then 0 else V b (a mod 4096))"

text \<open>The blocks a transfer of bytes \<open>a\<close> to \<open>e\<close> touches.\<close>

definition span_ok :: "u32 \<Rightarrow> (u32 \<Rightarrow> memory) \<Rightarrow> inode \<Rightarrow> nat \<Rightarrow> nat \<Rightarrow> bool" where
  "span_ok tot V ino a e \<longleftrightarrow> (\<forall>x. a \<le> x \<and> x < e \<longrightarrow> block_ok tot V ino (x div 4096))"

definition span_blocks :: "nat \<Rightarrow> nat \<Rightarrow> nat" where
  "span_blocks a e = (if a < e then (e + 4095) div 4096 - a div 4096 else 0)"

lemma span_blocks_step:
  assumes "a < e" and "c = min (4096 - a mod 4096) (e - a)"
  shows "Suc (span_blocks (a + c) e) \<le> span_blocks a e"
proof -
  have r: "a mod 4096 < 4096" "4096 * (a div 4096) + a mod 4096 = a" by simp_all
  have c: "a + c = 4096 * (a div 4096 + 1) \<and> a + c \<le> e \<or> a + c = e"
  proof (cases "4096 - a mod 4096 \<le> e - a")
    case True
    then have cm: "c + a mod 4096 = 4096" and "a + c \<le> e" using assms r(1) by (auto simp: min_def)
    have "a + c = 4096 * (q + 1)" if "4096 * q + t = a" "c + t = 4096" for q t :: nat using that by auto
    from this [OF r(2) cm] have "a + c = 4096 * (a div 4096 + 1)" .
    with \<open>a + c \<le> e\<close> show ?thesis by blast
  qed (use assms in \<open>simp add: min_def\<close>)
  have pos: "a div 4096 < (e + 4095) div 4096"
  proof -
    have "a div 4096 * 4096 < e" using assms(1) by (metis div_times_less_eq_dividend le_less_trans)
    then show ?thesis by linarith
  qed
  from c show ?thesis
  proof
    assume b: "a + c = 4096 * (a div 4096 + 1) \<and> a + c \<le> e"
    then have "(a + c) div 4096 = a div 4096 + 1" by (metis nonzero_mult_div_cancel_left zero_neq_numeral)
    then show ?thesis using assms(1) pos by (auto simp: span_blocks_def Suc_diff_Suc)
  qed (use assms(1) pos in \<open>auto simp: span_blocks_def\<close>)
qed

lemma chunk_byte:
  assumes "x < (c :: nat)" and "c \<le> 4096 - a mod 4096"
  shows "(a + x) div 4096 = a div 4096" "(a + x) mod 4096 = a mod 4096 + x"
proof -
  have "a mod 4096 + x < 4096" using assms by simp
  moreover have "a + x = 4096 * (a div 4096) + (a mod 4096 + x)" by simp
  ultimately show "(a + x) div 4096 = a div 4096" "(a + x) mod 4096 = a mod 4096 + x"
    by (metis div_mult_self4 div_less add_0_right zero_neq_numeral, metis mod_mult_self4 mod_less)
qed

lemma unat_add_u32_u64:
  assumes "unat (off :: u64) + unat (n :: u32) < 2 ^ 64"
  shows "unat (off + ucast n) = unat off + unat n"
  using assms by (simp add: unat_word_ariths unat_ucast_u64)

lemma read_chunk:
  assumes g: "good (4 + n) s" and ok: "block_ok (sb_total_blocks (fs_sb s)) (view s) ino (unat fo div 4096)"
    and fo: "unat fo div 4096 < MAX_BLOCKS" and dir: "length (ino_direct ino) = 11" and d: "done' < len"
    and c: "chunk = chunk_at fo (len - done')" "fo = offset + ucast done'"
  shows "\<exists>s'. read_loop ino offset len done' out s = read_loop ino offset len (done' + chunk)
      (\<lambda>x. if unat done' \<le> x \<and> x < unat done' + unat chunk then file_byte (view s) ino (unat fo + x - unat done') else out x) s' \<and>
    good n s' \<and> view s' = view s \<and> same_fs s s'"
proof -
  have cb: "unat chunk \<le> 4096 - unat fo mod 4096" by (simp add: c unat_chunk_at)
  have ub: "unat (fo div FS_BLOCK) = unat fo div 4096" "unat (fo mod FS_BLOCK) = unat fo mod 4096"
    by (simp_all add: FS_BLOCK_def unat_div unat_mod)
  have g3: "good (3 + Suc n) s" using g by (simp add: numeral_eq_Suc)
  obtain s1 where s1: "inode_data_block ino (fo div FS_BLOCK) False s = (Some (file_block (view s) ino (unat fo div 4096)), ino, s1)"
    "good (Suc n) s1" "view s1 = view s" "same_fs s s1"
    using data_block_lookup [OF g3, of ino "fo div FS_BLOCK"] ok fo dir by (auto simp: ub)
  let ?b = "file_block (view s) ino (unat fo div 4096)"
  have fb: "file_byte (view s) ino (unat fo + x) = (if ?b = 0 then 0 else view s ?b (unat fo mod 4096 + x))" if "x < unat chunk" for x
    using chunk_byte [OF that cb] by (simp add: file_byte_def Let_def)
  have fd: "file_byte (view s) ino (unat fo + x - unat done') =
      (if ?b = 0 then 0 else view s ?b (unat fo mod 4096 + (x - unat done')))" if "unat done' \<le> x" "x < unat done' + unat chunk" for x
    using fb [of "x - unat done'"] that by simp
  have b: "?b < sb_total_blocks (fs_sb s)"
    by (rule file_block_bound [OF ok])
  show ?thesis
  proof (cases "?b = 0")
    case True
    have "read_loop ino offset len done' out s = read_loop ino offset len (done' + chunk) (memset (unat done') 0 (unat chunk) out) s1"
      using s1(1) True d c by (subst read_loop.simps) (simp add: Let_def)
    moreover have "memset (unat done') 0 (unat chunk) out = (\<lambda>x. if unat done' \<le> x \<and> x < unat done' + unat chunk
      then file_byte (view s) ino (unat fo + x - unat done') else out x)"
      using True fd by (auto simp: memset_at fun_eq_iff)
    ultimately show ?thesis using s1 good_less [OF s1(2), of n] by auto
  next
    case False
    have "?b < sb_total_blocks (fs_sb s1)" using b s1(4) by (simp add: same_fs_def)
    then obtain k s2 where s2: "cache_get ?b False s1 = (Some k, s2)" "good n s2" "view s2 = view s1" "same_fs s1 s2" "fetched ?b False k s2"
      using cache_get_good [OF s1(2), of ?b False] by blast
    have bt: "slot_data s2 k (unat fo mod 4096 + x) = view s ?b (unat fo mod 4096 + x)" if "x < unat chunk" for x
      using fetched_byte [OF good_inv [OF s2(2)] s2(5), of "unat fo mod 4096 + x"] that cb s2(3) s1(3) by simp
    have "read_loop ino offset len done' out s = read_loop ino offset len (done' + chunk)
      (put_bytes (unat done') (map (\<lambda>i. slot_data s2 k (unat (fo mod FS_BLOCK) + i)) [0..<unat chunk]) out) s2"
      using s1(1) s2(1) False d c by (subst read_loop.simps) (simp add: Let_def)
    moreover have "put_bytes (unat done') (map (\<lambda>i. slot_data s2 k (unat (fo mod FS_BLOCK) + i)) [0..<unat chunk]) out =
      (\<lambda>x. if unat done' \<le> x \<and> x < unat done' + unat chunk then file_byte (view s) ino (unat fo + x - unat done') else out x)"
      using False fd by (auto simp: put_bytes_def fun_eq_iff ub bt)
    ultimately show ?thesis using s2 s1 same_fs_trans [OF s1(4) s2(4)] by auto
  qed
qed

lemma read_loop_good:
  assumes "good (4 * span_blocks (unat offset + unat done') (unat offset + unat len) + m) s"
    and "span_ok (sb_total_blocks (fs_sb s)) (view s) ino (unat offset + unat done') (unat offset + unat len)"
    and "unat offset + unat len \<le> 4096 * MAX_BLOCKS" and "length (ino_direct ino) = 11"
    and "unat done' \<le> unat len" and "unat len < 2 ^ 31"
  shows "\<exists>s'. read_loop ino offset len done' out s = Some (int (unat len),
      (\<lambda>x. if unat done' \<le> x \<and> x < unat len then file_byte (view s) ino (unat offset + x) else out x), s') \<and>
    good m s' \<and> view s' = view s \<and> same_fs s s'"
  using assms
proof (induction "unat len - unat done'" arbitrary: done' out s rule: less_induct)
  case less
  show ?case
  proof (cases "done' < len")
    case False
    then have "done' = len" using less.prems(5) by (simp add: word_less_nat_alt unsigned_word_eqI)
    moreover have "sint len = int (unat len)" using sint_small [OF less.prems(6)] by simp
    moreover have "read_loop ino offset len len out s = Some (sint len, out, s)" by (subst read_loop.simps) simp
    moreover have "(\<lambda>x. if unat len \<le> x \<and> x < unat len then file_byte (view s) ino (unat offset + x) else out x) = out"
      by (auto simp: fun_eq_iff)
    ultimately show ?thesis using less.prems(1) by (simp add: span_blocks_def)
  next
    case True
    have b64: "unat offset + unat len < 2 ^ 64" using less.prems(3) by (simp add: MAX_BLOCKS_def)
    define fo where "fo = offset + ucast done'"
    define c where "c = chunk_at fo (len - done')"
    have fo: "unat fo = unat offset + unat done'"
      using unat_add_u32_u64 [of offset done'] b64 less.prems(5) by (simp add: fo_def)
    have D: "unat done' < unat len" using True by (simp add: word_less_nat_alt)
    have cc: "unat c = min (4096 - unat fo mod 4096) (unat len - unat done')"
      using True by (simp add: c_def unat_chunk_at unat_sub)
    have dc: "unat (done' + c) = unat done' + unat c"
      using cc D unsigned_less [of len, where 'a = nat] by (subst unat_word_ariths(1)) simp
    have step: "Suc (span_blocks (unat fo + unat c) (unat offset + unat len)) \<le> span_blocks (unat fo) (unat offset + unat len)"
      by (rule span_blocks_step) (use cc fo D in auto)
    define m' where "m' = 4 * span_blocks (unat fo + unat c) (unat offset + unat len) + m"
    have "good (4 + m') s" using less.prems(1) step fo by (intro good_less [OF less.prems(1)]) (simp add: m'_def)
    moreover have "block_ok (sb_total_blocks (fs_sb s)) (view s) ino (unat fo div 4096)"
      using less.prems(2) D fo by (simp add: span_ok_def)
    moreover have "unat fo div 4096 < MAX_BLOCKS"
      using fo D less.prems(3) by (simp add: less_mult_imp_div_less mult.commute)
    ultimately obtain s' where s': "read_loop ino offset len done' out s = read_loop ino offset len (done' + c)
      (\<lambda>x. if unat done' \<le> x \<and> x < unat done' + unat c then file_byte (view s) ino (unat fo + x - unat done') else out x) s'"
      "good m' s'" "view s' = view s" "same_fs s s'"
      using read_chunk [OF _ _ _ less.prems(4) True c_def fo_def] by blast
    have cpos: "0 < unat c" "unat done' + unat c \<le> unat len" using cc D by auto
    define out' where "out' = (\<lambda>x. if unat done' \<le> x \<and> x < unat done' + unat c
        then file_byte (view s) ino (unat fo + x - unat done') else out x)"
    have "unat len - unat (done' + c) < unat len - unat done'" using dc cpos D by simp
    moreover have "good (4 * span_blocks (unat offset + unat (done' + c)) (unat offset + unat len) + m) s'"
      using s'(2) by (simp add: m'_def dc fo add.assoc)
    moreover have "span_ok (sb_total_blocks (fs_sb s')) (view s') ino (unat offset + unat (done' + c)) (unat offset + unat len)"
      using less.prems(2) s'(3,4) by (simp add: span_ok_def same_fs_def dc)
    moreover have "unat (done' + c) \<le> unat len" using dc cpos by simp
    ultimately obtain s'' where s'': "read_loop ino offset len (done' + c) out' s' = Some (int (unat len),
      (\<lambda>x. if unat (done' + c) \<le> x \<and> x < unat len then file_byte (view s') ino (unat offset + x) else out' x), s'')"
      "good m s''" "view s'' = view s'" "same_fs s' s''"
      using less.hyps [of "done' + c" s' out'] less.prems(3,4,6) by blast
    have "(\<lambda>x. if unat (done' + c) \<le> x \<and> x < unat len then file_byte (view s') ino (unat offset + x) else out' x) =
      (\<lambda>x. if unat done' \<le> x \<and> x < unat len then file_byte (view s) ino (unat offset + x) else out x)"
      unfolding s'(3) using cpos fo by (auto simp: fun_eq_iff out'_def dc)
    then show ?thesis using s'(1,3) s'' same_fs_trans [OF s'(4) s''(4)] by (auto simp: out'_def)
  qed
qed

lemma span_blocks_le: "span_blocks a (a + n) \<le> n div 4096 + 2"
proof -
  have r: "a mod 4096 < 4096" "4096 * (a div 4096) + a mod 4096 = a" by simp_all
  have "(4096 * q + t + n + 4095) div 4096 - q \<le> n div 4096 + 2" if "t < 4096" for q t
  proof -
    have "4096 * q + t + n + 4095 = 4096 * q + (t + n + 4095)" by simp
    then have "(4096 * q + t + n + 4095) div 4096 - q = (t + n + 4095) div 4096" by (metis add_diff_cancel_left' div_mult_self4 zero_neq_numeral)
    also have "\<dots> \<le> (n + 2 * 4096) div 4096" using that by (intro div_le_mono) simp
    finally show ?thesis by simp
  qed
  from this [OF r(1), of "a div 4096"] have "(a + n + 4095) div 4096 - a div 4096 \<le> n div 4096 + 2" by (simp only: r(2))
  then show ?thesis by (cases "a < a + n") (simp_all only: span_blocks_def if_True if_False le0)
qed

lemma read_inode_good:
  assumes g: "good (4 * (unat len div 4096) + 9 + m) s" and l: "layout_nat (fs_sb s)" and v: "valid_inode nr s"
    and ino: "ino = inode_at (fs_sb s) (view s) nr" "ino_type ino = FS_TYPE_FILE" "unat (ino_size ino) \<le> 4096 * MAX_BLOCKS"
    and n: "n = min (unat len) (unat (ino_size ino) - unat offset)" "unat len < 2 ^ 31"
    and sp: "span_ok (sb_total_blocks (fs_sb s)) (view s) ino (unat offset) (unat offset + n)"
  shows "\<exists>s'. fs_read_inode nr offset False buf len s =
      Some (int n, (\<lambda>x. if x < n then file_byte (view s) ino (unat offset + x) else buf x), s') \<and>
    good m s' \<and> view s' = view s \<and> same_fs s s'"
proof -
  have g1: "good (Suc (4 * (unat len div 4096) + 8 + m)) s" by (rule good_less [OF g]) simp
  obtain s1 where s1: "fs_get_inode nr s = (Some ino, s1)" "good (4 * (unat len div 4096) + 8 + m) s1" "view s1 = view s" "same_fs s s1"
    using get_inode_good [OF g1 l v] ino(1) by metis
  show ?thesis
  proof (cases "ino_size ino \<le> offset \<or> len = 0")
    case True
    then have "n = 0" using n(1) by (auto simp: word_le_nat_alt)
    then show ?thesis using True s1 ino(2) good_less [OF s1(2), of m] by (auto simp: fs_read_inode_def)
  next
    case False
    then have o: "unat offset < unat (ino_size ino)" by (simp add: word_le_nat_alt not_le)
    define len' where "len' = (if ino_size ino - offset < ucast len then ucast (ino_size ino - offset) else len)"
    have df: "unat (ino_size ino - offset) = unat (ino_size ino) - unat offset" using o by (simp add: unat_sub word_le_nat_alt)
    have len': "unat len' = n"
    proof (cases "ino_size ino - offset < ucast len")
      case True
      then have "unat (ino_size ino) - unat offset < unat len" by (simp add: word_less_nat_alt unat_ucast_u64 df)
      moreover have "unat (ucast (ino_size ino - offset) :: u32) = unat (ino_size ino) - unat offset"
        using calculation n(2) by (simp add: unsigned_ucast_eq df take_bit_nat_eq_self_iff)
      ultimately show ?thesis using True n(1) by (simp add: len'_def)
    next
      case False
      then show ?thesis using n(1) by (simp add: len'_def word_less_nat_alt unat_ucast_u64 df)
    qed
    have ov: "\<not> offset > (- 1) - ucast len'"
    proof -
      have "unat ((- 1 :: u64) - ucast len') = 2 ^ 64 - 1 - n"
        by (subst unat_sub) (simp_all add: unat_ucast_u64 len' unsigned_minus_1_eq_mask mask_eq_exp_minus_1)
      moreover have "unat offset + n \<le> 2 ^ 64 - 1" using n(1) ino(3) o by (simp add: MAX_BLOCKS_def)
      ultimately show ?thesis by (simp add: word_less_nat_alt)
    qed
    have sb: "span_blocks (unat offset) (unat offset + n) \<le> unat len div 4096 + 2"
      using span_blocks_le [of "unat offset" n] n(1) div_le_mono [of n "unat len" 4096] by simp
    have "good (4 * span_blocks (unat offset + unat (0 :: u32)) (unat offset + unat len') + m) s1"
      by (rule good_less [OF s1(2)]) (use sb len' in simp)
    moreover have "span_ok (sb_total_blocks (fs_sb s1)) (view s1) ino (unat offset + unat (0 :: u32)) (unat offset + unat len')"
      using sp s1(3,4) len' by (simp add: same_fs_def)
    moreover have "unat offset + unat len' \<le> 4096 * MAX_BLOCKS" using len' n ino(3) o by simp
    moreover have "length (ino_direct ino) = 11" by (simp add: ino(1) inode_at_def)
    moreover have "unat (0 :: u32) \<le> unat len'" "unat len' < 2 ^ 31" using len' n by simp_all
    ultimately obtain s' where "read_loop ino offset len' 0 buf s1 = Some (int (unat len'),
        (\<lambda>x. if unat (0 :: u32) \<le> x \<and> x < unat len' then file_byte (view s1) ino (unat offset + x) else buf x), s')"
      "good m s'" "view s' = view s1" "same_fs s1 s'"
      using read_loop_good by blast
    then have "read_loop ino offset len' 0 buf s1 = Some (int n, (\<lambda>x. if x < n then file_byte (view s) ino (unat offset + x) else buf x), s')"
      "good m s'" "view s' = view s" "same_fs s1 s'"
      by (simp_all add: len' s1(3) cong: if_cong)
    then show ?thesis
      using s1 False ino(2) ov same_fs_trans [OF s1(4)] by (auto simp: fs_read_inode_def Let_def len'_def [symmetric])
  qed
qed

end
