(* ===== verification/Fs_Names.thy ===== *)
theory Fs_Names
  imports Fs_Path
begin

text \<open>
  Path names: what the component scanner returns, what the canonical form of a path is, and
  that the canonical form is a fixed point.
\<close>

section \<open>Components\<close>

lemma dropWhile_hd: "dropWhile P p = a # r \<Longrightarrow> \<not> P a"
  using hd_dropWhile [of P p] by simp

function split_path :: "c_string \<Rightarrow> c_string list" where
  "split_path p =
     (let q = dropWhile (\<lambda>c. c = slash) p in
      if q = [] then [] else takeWhile (\<lambda>c. c \<noteq> slash) q # split_path (dropWhile (\<lambda>c. c \<noteq> slash) q))"
  by pat_completeness auto
termination
proof (relation "measure length", goal_cases)
  case (2 p x)
  have "length (dropWhile (\<lambda>c. c = slash) p) \<le> length p" by (rule length_dropWhile_le)
  moreover have "length (dropWhile (\<lambda>c. c \<noteq> slash) (dropWhile (\<lambda>c. c = slash) p)) < length (dropWhile (\<lambda>c. c = slash) p)"
  proof (cases "dropWhile (\<lambda>c. c = slash) p")
    case (Cons a q)
    then have "a \<noteq> slash" by (rule dropWhile_hd)
    then show ?thesis unfolding Cons using length_dropWhile_le [of "\<lambda>c. c \<noteq> slash" q] by simp
  qed (use 2 in simp)
  ultimately show ?case using 2 by simp
qed simp

declare split_path.simps [simp del]

lemma split_path_eq:
  "split_path p =
     (case dropWhile (\<lambda>c. c = slash) p of
        [] \<Rightarrow> []
      | a # r \<Rightarrow> takeWhile (\<lambda>c. c \<noteq> slash) (a # r) # split_path (dropWhile (\<lambda>c. c \<noteq> slash) (a # r)))"
  by (subst split_path.simps) (simp add: Let_def split: list.splits del: dropWhile_eq_Nil_conv)


lemma component_loop_eq:
  assumes "n < 60"
  shows "component_loop n acc p =
    (if n + length (takeWhile (\<lambda>c. c \<noteq> slash) p) < 60
     then PathComponent (acc @ takeWhile (\<lambda>c. c \<noteq> slash) p) (dropWhile (\<lambda>c. c \<noteq> slash) p) else PathTooLong)"
  using assms
proof (induction n acc p rule: component_loop.induct)
  case (2 n acc c p)
  show ?case
  proof (cases "c = slash \<or> n + 1 \<ge> 60")
    case True
    then show ?thesis using 2(2) by (auto simp: FS_NAME_MAX_def)
  next
    case False
    then show ?thesis using 2(1) by (simp add: FS_NAME_MAX_def)
  qed
qed (simp add: FS_NAME_MAX_def)

lemma next_component_eq:
  "next_component p =
     (case dropWhile (\<lambda>c. c = slash) p of
        [] \<Rightarrow> PathEnd
      | c # q \<Rightarrow> if length (takeWhile (\<lambda>c. c \<noteq> slash) (c # q)) < 60
          then PathComponent (takeWhile (\<lambda>c. c \<noteq> slash) (c # q)) (dropWhile (\<lambda>c. c \<noteq> slash) (c # q)) else PathTooLong)"
  by (induction p rule: next_component.induct) (simp_all add: component_loop_eq del: component_loop.simps)

lemma next_component_split:
  "next_component p =
     (case split_path p of
        [] \<Rightarrow> PathEnd
      | c # _ \<Rightarrow> if length c < 60 then PathComponent c (dropWhile (\<lambda>c. c \<noteq> slash) (dropWhile (\<lambda>c. c = slash) p))
                 else PathTooLong)"
  by (subst split_path_eq) (simp add: next_component_eq split: list.splits del: dropWhile_eq_Nil_conv)

lemma split_rest: "split_path p = c # cs \<Longrightarrow> split_path (dropWhile (\<lambda>c. c \<noteq> slash) (dropWhile (\<lambda>c. c = slash) p)) = cs"
  by (subst (asm) split_path_eq) (simp split: list.splits)

lemma split_parts: "c \<in> set (split_path p) \<Longrightarrow> c \<noteq> [] \<and> slash \<notin> set c"
proof (induction p rule: split_path.induct)
  case (1 p)
  show ?case
  proof (cases "dropWhile (\<lambda>c. c = slash) p")
    case Nil
    then show ?thesis using 1(2) by (simp add: split_path_eq [of p] del: dropWhile_eq_Nil_conv)
  next
    case (Cons a r)
    then have "a \<noteq> slash" by (rule dropWhile_hd)
    then have f: "takeWhile (\<lambda>c. c \<noteq> slash) (a # r) \<noteq> [] \<and> slash \<notin> set (takeWhile (\<lambda>c. c \<noteq> slash) (a # r))"
      by (auto dest: set_takeWhileD)
    have "c = takeWhile (\<lambda>c. c \<noteq> slash) (a # r) \<or> c \<in> set (split_path (dropWhile (\<lambda>c. c \<noteq> slash) (a # r)))"
      using 1(2) by (subst (asm) split_path_eq) (simp add: Cons)
    then show ?thesis using f 1(1) [OF refl] Cons by auto
  qed
qed

section \<open>Resolving dots\<close>

definition resolve :: "c_string list \<Rightarrow> c_string \<Rightarrow> c_string list" where
  "resolve parts c = (if c = dot_name then parts else if c = dotdot_name then butlast parts else parts @ [c])"

definition canon_part :: "c_string \<Rightarrow> bool" where
  "canon_part c \<longleftrightarrow> c \<noteq> [] \<and> length c < 60 \<and> slash \<notin> set c \<and> c \<noteq> dot_name \<and> c \<noteq> dotdot_name"

text \<open>The components the scanner reaches: those before the first one that is too long.\<close>

definition short_parts :: "c_string \<Rightarrow> c_string list" where
  "short_parts p = takeWhile (\<lambda>c. length c < 60) (split_path p)"

lemma collect_parts_eq:
  assumes "collect_parts p parts = Some parts'"
  shows "parts' = foldl resolve parts (short_parts p)"
  using assms
proof (induction p parts rule: collect_parts.induct)
  case (1 p parts)
  show ?case
  proof (cases "split_path p")
    case Nil
    then show ?thesis using 1(4) by (subst (asm) collect_parts.simps) (simp add: next_component_split short_parts_def)
  next
    case (Cons c cs)
    define rest where "rest = dropWhile (\<lambda>c. c \<noteq> slash) (dropWhile (\<lambda>c. c = slash) p)"
    have sr: "split_path rest = cs" using split_rest [OF Cons] by (simp add: rest_def)
    show ?thesis
    proof (cases "length c < 60")
      case False
      then show ?thesis using 1(4) Cons by (subst (asm) collect_parts.simps) (simp add: next_component_split short_parts_def)
    next
      case True
      have nc: "next_component p = PathComponent c rest" using Cons True by (simp add: next_component_split rest_def)
      have sp: "short_parts p = c # short_parts rest" using Cons True sr by (simp add: short_parts_def)
      have cp: "(if c = dot_name then collect_parts rest parts else if c = dotdot_name then collect_parts rest (butlast parts)
          else if length parts \<ge> MAX_PARTS then None else collect_parts rest (parts @ [c])) = Some parts'"
        using 1(4) by (subst (asm) collect_parts.simps) (simp add: nc)
      show ?thesis
        using cp 1(1-3) [OF nc] by (auto simp: sp resolve_def split: if_splits)
    qed
  qed
qed

lemma resolve_canon:
  assumes "\<forall>c \<in> set parts. canon_part c" and "\<forall>c \<in> set cs. c \<noteq> [] \<and> slash \<notin> set c \<and> length c < 60"
  shows "\<forall>c \<in> set (foldl resolve parts cs). canon_part c"
  using assms
proof (induction cs arbitrary: parts)
  case (Cons c cs)
  have "\<forall>c \<in> set (resolve parts c). canon_part c"
    using Cons.prems by (auto simp: resolve_def canon_part_def dest: in_set_butlastD)
  with Cons show ?case by simp
qed simp

lemma short_parts_set: "c \<in> set (short_parts p) \<Longrightarrow> c \<noteq> [] \<and> slash \<notin> set c \<and> length c < 60"
  unfolding short_parts_def using split_parts set_takeWhileD by fastforce

lemma collect_parts_length:
  assumes "collect_parts p parts = Some parts'" and "length parts \<le> 32"
  shows "length parts' \<le> 32"
  using assms
proof (induction p parts rule: collect_parts.induct)
  case (1 p parts)
  show ?case
  proof (cases "next_component p")
    case (PathComponent c rest)
    have cp: "(if c = dot_name then collect_parts rest parts else if c = dotdot_name then collect_parts rest (butlast parts)
        else if length parts \<ge> MAX_PARTS then None else collect_parts rest (parts @ [c])) = Some parts'"
      using 1(4) by (subst (asm) collect_parts.simps) (simp add: PathComponent)
    show ?thesis using cp 1(1-3) [OF PathComponent] 1(5) by (auto simp: MAX_PARTS_def split: if_splits)
  qed (use 1(4,5) in \<open>auto simp: collect_parts.simps [of p]\<close>)
qed

section \<open>Canonical paths\<close>

definition render :: "c_string list \<Rightarrow> c_string" where
  "render parts = (if parts = [] then [slash] else concat (map (\<lambda>c. slash # c) parts))"

lemma join_parts_Some:
  "ns \<noteq> [] \<Longrightarrow> join_parts ns out = Some r \<Longrightarrow> r = out @ tl (concat (map (\<lambda>c. slash # c) ns)) \<and> length r < 255"
proof (induction ns out rule: join_parts.induct)
  case (2 n ns out)
  have ok: "length out + length n + 1 < 256" using 2(3) by (auto simp: FS_PATH_MAX_def split: if_splits)
  show ?case
  proof (cases "ns = []")
    case True
    then show ?thesis using 2(3) ok by (auto simp: FS_PATH_MAX_def split: if_splits)
  next
    case False
    then have "join_parts ns (out @ n @ [slash]) = Some r" using 2(3) ok by (simp add: FS_PATH_MAX_def)
    then show ?thesis using 2(1) False ok by (cases ns) (auto simp: FS_PATH_MAX_def)
  qed
qed simp

lemma join_parts_short:
  "ns \<noteq> [] \<Longrightarrow> length out + length (concat (map (\<lambda>c. slash # c) ns)) < 256 \<Longrightarrow>
   join_parts ns out = Some (out @ tl (concat (map (\<lambda>c. slash # c) ns)))"
proof (induction ns out rule: join_parts.induct)
  case (2 n ns out)
  then show ?case by (cases ns) (auto simp: FS_PATH_MAX_def)
qed simp

lemma join_render: "parts \<noteq> [] \<Longrightarrow> [slash] @ tl (concat (map (\<lambda>c. slash # c) parts)) = render parts"
  by (cases parts) (simp_all add: render_def)

lemma canonicalize_parts:
  assumes "canonicalize path cwd = Some out"
  defines "parts \<equiv> foldl resolve (if path \<noteq> [] \<and> hd path = slash then [] else foldl resolve [] (short_parts cwd)) (short_parts path)"
  shows "out = render parts" "length parts \<le> 32" "\<forall>c \<in> set parts. canon_part c" "length out < 255"
proof -
  define base where "base = (if path \<noteq> [] \<and> hd path = slash then Some [] else collect_parts cwd [])"
  obtain b where b: "base = Some b" using assms(1) by (auto simp: canonicalize_def base_def split: option.splits)
  obtain ps where ps: "collect_parts path b = Some ps"
    using assms(1) b by (auto simp: canonicalize_def base_def [symmetric] split: option.splits)
  have out: "(if ps = [] then Some [slash] else join_parts ps [slash]) = Some out"
    using assms(1) b ps by (cases ps) (auto simp: canonicalize_def base_def [symmetric])
  have be: "b = (if path \<noteq> [] \<and> hd path = slash then [] else foldl resolve [] (short_parts cwd))" "length b \<le> 32"
    using b collect_parts_eq [of cwd "[]" b] collect_parts_length [of cwd "[]" b] by (auto simp: base_def split: if_splits)
  have pp: "ps = parts" using collect_parts_eq [OF ps] be(1) by (simp add: parts_def)
  have sc: "\<forall>c \<in> set (foldl resolve qs (short_parts p)). canon_part c" if "\<forall>c \<in> set qs. canon_part c" for p qs
    using that short_parts_set by (intro resolve_canon) auto
  show "length parts \<le> 32" using collect_parts_length [OF ps be(2)] by (simp add: pp)
  show "\<forall>c \<in> set parts. canon_part c" unfolding parts_def
    by (intro sc) (use sc [of "[]" cwd] in simp)
  show "out = render parts" "length out < 255"
    using out join_parts_Some [of ps "[slash]" out] join_render [of ps] pp by (auto simp: render_def split: if_splits)
qed

lemma split_render:
  assumes "\<forall>c \<in> set parts. c \<noteq> [] \<and> slash \<notin> set c"
  shows "split_path (concat (map (\<lambda>c. slash # c) parts)) = parts"
  using assms
proof (induction parts)
  case (Cons c cs)
  define rest where "rest = concat (map (\<lambda>c. slash # c) cs)"
  have c: "c \<noteq> []" "\<And>x. x \<in> set c \<Longrightarrow> x \<noteq> slash" using Cons.prems by auto
  have r: "rest = [] \<or> hd rest = slash" by (cases cs) (simp_all add: rest_def)
  obtain a c' where ac: "c = a # c'" using c(1) by (cases c) auto
  have d: "dropWhile (\<lambda>c. c = slash) (slash # c @ rest) = a # c' @ rest" using c(2) by (simp add: ac)
  have t: "takeWhile (\<lambda>c. c \<noteq> slash) (c @ rest) = c" "dropWhile (\<lambda>c. c \<noteq> slash) (c @ rest) = rest"
    using c(2) r by (cases rest; simp add: takeWhile_append2 dropWhile_append2)+
  have "split_path (slash # c @ rest) = c # split_path rest"
    by (subst split_path_eq, subst d) (use t in \<open>simp add: ac del: takeWhile.simps dropWhile.simps\<close>)
  then show ?case using Cons by (simp add: rest_def)
qed (simp add: split_path_eq)

lemma collect_canon:
  assumes "\<forall>c \<in> set (split_path p). canon_part c" and "length parts + length (split_path p) \<le> 32"
  shows "collect_parts p parts = Some (parts @ split_path p)"
  using assms
proof (induction "split_path p" arbitrary: p parts)
  case Nil
  then show ?case by (subst collect_parts.simps) (simp add: next_component_split flip: Nil(1))
next
  case (Cons c cs)
  define rest where "rest = dropWhile (\<lambda>c. c \<noteq> slash) (dropWhile (\<lambda>c. c = slash) p)"
  have e: "split_path p = c # cs" and sr: "split_path rest = cs" using Cons(2) split_rest [of p c cs] by (simp_all add: rest_def)
  have c: "canon_part c" using Cons(3) e by simp
  then have nc: "next_component p = PathComponent c rest" using e by (simp add: next_component_split rest_def canon_part_def)
  have "collect_parts rest (parts @ [c]) = Some ((parts @ [c]) @ split_path rest)"
    using Cons(1) [of rest "parts @ [c]"] Cons(3,4) e sr by simp
  then show ?case using c nc e sr Cons(4) by (subst collect_parts.simps) (simp add: canon_part_def MAX_PARTS_def)
qed

lemma canonicalize_fixed:
  assumes "length parts \<le> 32" and "\<forall>c \<in> set parts. canon_part c" and "length (render parts) < 255"
  shows "canonicalize (render parts) cwd = Some (render parts)"
proof -
  have s: "split_path (render parts) = parts"
  proof (cases "parts = []")
    case True
    then show ?thesis by (simp add: render_def split_path_eq)
  next
    case False
    then show ?thesis using split_render [of parts] assms(2) by (simp add: render_def canon_part_def)
  qed
  have "collect_parts (render parts) [] = Some parts"
    using collect_canon [of "render parts" "[]"] s assms(1,2) by simp
  moreover have "render parts \<noteq> [] \<and> hd (render parts) = slash" by (cases parts) (simp_all add: render_def)
  moreover have "parts \<noteq> [] \<Longrightarrow> join_parts parts [slash] = Some (render parts)"
    using join_parts_short [of parts "[slash]"] join_render [of parts] assms(3) by (simp add: render_def)
  ultimately show ?thesis by (cases parts) (auto simp: canonicalize_def render_def)
qed

end
