(* ===== verification/Fs_Requests.thy ===== *)
theory Fs_Requests
  imports Fs_Service
begin

text \<open>
  Mounting and the request handler of kernel/fs.c, with the entry points other parts of the
  kernel call directly.  The reference table comes from the kernel heap, whose state is passed
  along.
\<close>

section \<open>Mounting\<close>

text \<open>The new reference table: the old one is given back first.\<close>

definition alloc_refs :: "fs \<Rightarrow> 'a heap_scheme \<Rightarrow> (int \<times> fs \<times> 'a heap_scheme) option" where
  "alloc_refs s h =
     (case (if fs_open_refs s \<noteq> 0 then kfree (fs_open_refs s) h else Some (0, h)) of
        None \<Rightarrow> None
      | Some (_, h1) \<Rightarrow>
          (let s1 = s\<lparr>fs_open_refs := 0\<rparr>; n = ucast (sb_total_inodes (fs_sb s)) in
           if n > (- 1) div 4 then Some (-1, s1, h1)
           else (case kmalloc (n * 4) h1 of
                   None \<Rightarrow> None
                 | Some (p, h2) \<Rightarrow>
                     if p = 0 then Some (-1, s1, h2)
                     else Some (0, s1\<lparr>fs_open_refs := p,
                                      fs_refs := (\<lambda>i. if i < unat n then 0 else fs_refs s i)\<rparr>, h2))))"

definition fs_init :: "fs \<Rightarrow> 'a heap_scheme \<Rightarrow> (int \<times> fs \<times> 'a heap_scheme) option" where
  "fs_init s h =
     (let s1 = (cache_drop s)\<lparr>fs_mounted := False\<rparr> in
      case disk_read_sector_checked (fs_disk_ready s1) False (block_lba 1) 1 (\<lambda>_. 0) (fs_disk s1) of
        (e, sector, d) \<Rightarrow>
          if e \<noteq> 0 then Some (-1, s1\<lparr>fs_disk := d\<rparr>, h)
          else let sb = read_super_block sector;
                   s2 = s1\<lparr>fs_disk := d, fs_sb := sb, fs_mounted := layout_valid sb\<rparr>
               in if \<not> fs_mounted s2 then Some (-1, s2, h) else alloc_refs s2 h)"

section \<open>Requests\<close>

record fs_request =
  rq_operation :: u32
  rq_flags :: u32
  rq_offset :: u64
  rq_length :: u32
  rq_buffer_null :: bool
  rq_buffer :: memory
  rq_result :: int
  rq_name :: c_string
  rq_cwd_path :: c_string
  rq_cwd_inode :: u32
  rq_inode_nr :: u32
  rq_result_type :: u32
  rq_stat_size :: u64
  rq_stat_links :: u32
  rq_result_inode :: u32
  rq_result_path :: c_string

definition FS_REQUEST_OPEN :: u32 where "FS_REQUEST_OPEN = 1"
definition FS_REQUEST_READ :: u32 where "FS_REQUEST_READ = 2"
definition FS_REQUEST_WRITE :: u32 where "FS_REQUEST_WRITE = 3"
definition FS_REQUEST_UNLINK :: u32 where "FS_REQUEST_UNLINK = 4"
definition FS_REQUEST_LIST :: u32 where "FS_REQUEST_LIST = 5"
definition FS_REQUEST_STAT :: u32 where "FS_REQUEST_STAT = 6"
definition FS_REQUEST_MKDIR :: u32 where "FS_REQUEST_MKDIR = 7"
definition FS_REQUEST_CHDIR :: u32 where "FS_REQUEST_CHDIR = 8"
definition FS_REQUEST_GETCWD :: u32 where "FS_REQUEST_GETCWD = 9"
definition FS_REQUEST_RELEASE :: u32 where "FS_REQUEST_RELEASE = 10"

lemmas fs_request_codes = FS_REQUEST_OPEN_def FS_REQUEST_READ_def FS_REQUEST_WRITE_def
  FS_REQUEST_UNLINK_def FS_REQUEST_LIST_def FS_REQUEST_STAT_def FS_REQUEST_MKDIR_def
  FS_REQUEST_CHDIR_def FS_REQUEST_GETCWD_def FS_REQUEST_RELEASE_def

text \<open>
  One handler per case of the switch.  The first component of a result tells whether the case
  ends with \<^verbatim>\<open>break\<close> (and the dirty blocks are then written back) or with \<^verbatim>\<open>return\<close>.
\<close>

definition open_target :: "c_string \<Rightarrow> u32 \<Rightarrow> fs \<Rightarrow> (u32 \<times> inode) option \<times> fs" where
  "open_target canonical flags s =
     (case fs_stat_path (Some canonical) FS_ROOT_INODE s of
        (Some t, s1) \<Rightarrow> (Some t, s1)
      | (None, s1) \<Rightarrow>
          if flags AND 0x01 = 0 then (None, s1)
          else (case fs_create_path (Some canonical) FS_ROOT_INODE FS_TYPE_FILE s1 of
                  (None, s2) \<Rightarrow> (None, s2)
                | (Some inode_nr, s2) \<Rightarrow>
                    (case fs_get_inode inode_nr s2 of
                       (None, s3) \<Rightarrow> (None, s3)
                     | (Some ino, s3) \<Rightarrow> (Some (inode_nr, ino), s3))))"

definition handle_open :: "c_string \<Rightarrow> fs_request \<Rightarrow> fs \<Rightarrow> bool \<times> fs_request \<times> fs" where
  "handle_open canonical rq s =
     (case open_target canonical (rq_flags rq) s of
        (None, s1) \<Rightarrow> (False, rq, s1)
      | (Some (inode_nr, ino), s1) \<Rightarrow>
          if ino_type ino \<noteq> FS_TYPE_FILE then (False, rq, s1)
          else (case (if rq_flags rq AND 0x02 \<noteq> 0 then truncate_inode inode_nr ino s1 else (0, ino, s1)) of
                  (e, ino', s2) \<Rightarrow>
                    if e \<noteq> 0 then (False, rq, s2)
                    else (True,
                          rq\<lparr>rq_inode_nr := inode_nr, rq_result_inode := inode_nr,
                             rq_result_type := ucast (ino_type ino'), rq_stat_size := ino_size ino',
                             rq_result := 0\<rparr>,
                          s2\<lparr>fs_refs := (fs_refs s2)(unat inode_nr := fs_refs s2 (unat inode_nr) + 1)\<rparr>)))"

definition handle_read :: "c_string \<Rightarrow> fs_request \<Rightarrow> fs \<Rightarrow> (bool \<times> fs_request \<times> fs) option" where
  "handle_read canonical rq s =
     (case (if rq_inode_nr rq \<noteq> 0 then (Some (rq_inode_nr rq), s)
            else (case fs_stat_path (Some canonical) FS_ROOT_INODE s of
                    (None, s1) \<Rightarrow> (None, s1) | (Some (nr, _), s1) \<Rightarrow> (Some nr, s1))) of
        (None, s1) \<Rightarrow> Some (False, rq, s1)
      | (Some inode_nr, s1) \<Rightarrow>
          (case fs_read_inode inode_nr (rq_offset rq) (rq_buffer_null rq) (rq_buffer rq) (rq_length rq) s1 of
             None \<Rightarrow> None
           | Some (r, buf, s2) \<Rightarrow> Some (True, rq\<lparr>rq_result := r, rq_buffer := buf\<rparr>, s2)))"

definition write_target :: "c_string \<Rightarrow> fs_request \<Rightarrow> fs \<Rightarrow> u32 option \<times> fs" where
  "write_target canonical rq s =
     (if rq_inode_nr rq \<noteq> 0 then (Some (rq_inode_nr rq), s)
      else (case fs_stat_path (Some canonical) FS_ROOT_INODE s of
              (Some (nr, _), s1) \<Rightarrow> (Some nr, s1)
            | (None, s1) \<Rightarrow> fs_create_path (Some canonical) FS_ROOT_INODE FS_TYPE_FILE s1))"

definition handle_write :: "c_string \<Rightarrow> fs_request \<Rightarrow> fs \<Rightarrow> (bool \<times> fs_request \<times> fs) option" where
  "handle_write canonical rq s =
     (case write_target canonical rq s of
        (None, s1) \<Rightarrow> Some (False, rq, s1)
      | (Some inode_nr, s1) \<Rightarrow>
          (case fs_write_inode inode_nr (rq_offset rq) (rq_buffer_null rq) (rq_buffer rq) (rq_length rq) s1 of
             None \<Rightarrow> None
           | Some (r, s2) \<Rightarrow> Some (True, rq\<lparr>rq_result := r\<rparr>, s2)))"

definition handle_stat :: "c_string \<Rightarrow> fs_request \<Rightarrow> fs \<Rightarrow> bool \<times> fs_request \<times> fs" where
  "handle_stat canonical rq s =
     (case fs_stat_path (Some canonical) FS_ROOT_INODE s of
        (None, s1) \<Rightarrow> (False, rq, s1)
      | (Some (inode_nr, ino), s1) \<Rightarrow>
          (True, rq\<lparr>rq_result_inode := inode_nr, rq_stat_size := ino_size ino,
                    rq_stat_links := ucast (ino_links ino), rq_result_type := ucast (ino_type ino),
                    rq_result := 0\<rparr>, s1))"

definition handle_mkdir :: "c_string \<Rightarrow> fs_request \<Rightarrow> fs \<Rightarrow> bool \<times> fs_request \<times> fs" where
  "handle_mkdir canonical rq s =
     (case fs_create_path (Some canonical) FS_ROOT_INODE FS_TYPE_DIRECTORY s of
        (None, s1) \<Rightarrow> (True, rq\<lparr>rq_result := -1\<rparr>, s1)
      | (Some nr, s1) \<Rightarrow> (True, rq\<lparr>rq_result_inode := nr, rq_result := 0\<rparr>, s1))"

definition handle_chdir :: "c_string \<Rightarrow> fs_request \<Rightarrow> fs \<Rightarrow> bool \<times> fs_request \<times> fs" where
  "handle_chdir canonical rq s =
     (case fs_stat_path (Some canonical) FS_ROOT_INODE s of
        (None, s1) \<Rightarrow> (False, rq, s1)
      | (Some (inode_nr, ino), s1) \<Rightarrow>
          if ino_type ino \<noteq> FS_TYPE_DIRECTORY then (False, rq, s1)
          else (True, rq\<lparr>rq_result_inode := inode_nr, rq_result := 0\<rparr>, s1))"

definition handle_getcwd :: "fs_request \<Rightarrow> bool \<times> fs_request" where
  "handle_getcwd rq =
     (if rq_buffer_null rq \<or> rq_length rq = 0 \<or>
         length (rq_cwd_path rq) + 1 > unat (rq_length rq) then (False, rq)
      else let path = (if rq_cwd_path rq \<noteq> [] then rq_cwd_path rq else [slash]) in
        (True, rq\<lparr>rq_buffer := put_bytes 0 (path @ [0]) (rq_buffer rq), rq_result := int (length path)\<rparr>))"

definition fs_dispatch :: "c_string \<Rightarrow> fs_request \<Rightarrow> fs \<Rightarrow> (bool \<times> fs_request \<times> fs) option" where
  "fs_dispatch canonical rq s =
     (let op = rq_operation rq in
      if op = FS_REQUEST_OPEN then Some (handle_open canonical rq s)
      else if op = FS_REQUEST_RELEASE then Some (True, rq\<lparr>rq_result := 0\<rparr>, release_inode (rq_inode_nr rq) s)
      else if op = FS_REQUEST_READ then handle_read canonical rq s
      else if op = FS_REQUEST_WRITE then handle_write canonical rq s
      else if op = FS_REQUEST_UNLINK then
        Some (case fs_unlink_path (Some canonical) FS_ROOT_INODE s of (ok, s1) \<Rightarrow>
                (True, rq\<lparr>rq_result := (if ok then 0 else -1)\<rparr>, s1))
      else if op = FS_REQUEST_LIST then
        Some (case fs_list_path (Some canonical) FS_ROOT_INODE (rq_buffer_null rq) (rq_buffer rq) (rq_length rq) s of
                (r, buf, s1) \<Rightarrow> (True, rq\<lparr>rq_result := r, rq_buffer := buf\<rparr>, s1))
      else if op = FS_REQUEST_STAT then Some (handle_stat canonical rq s)
      else if op = FS_REQUEST_MKDIR then Some (handle_mkdir canonical rq s)
      else if op = FS_REQUEST_CHDIR then Some (handle_chdir canonical rq s)
      else if op = FS_REQUEST_GETCWD then Some (case handle_getcwd rq of (b, rq') \<Rightarrow> (b, rq', s))
      else Some (True, rq, s))"

definition fs_service_handle :: "fs_request \<Rightarrow> fs \<Rightarrow> (fs_request \<times> fs) option" where
  "fs_service_handle rq s =
     (let rq0 = rq\<lparr>rq_result := -1\<rparr> in
      if \<not> fs_mounted s then Some (rq0, s)
      else (case canonicalize (rq_name rq0) (rq_cwd_path rq0) of
              None \<Rightarrow> Some (rq0, s)
            | Some canonical \<Rightarrow>
                (case fs_dispatch canonical (rq0\<lparr>rq_result_path := canonical\<rparr>) s of
                   None \<Rightarrow> None
                 | Some (finished, rq1, s1) \<Rightarrow>
                     Some (rq1, if finished \<and> rq_operation rq1 \<noteq> FS_REQUEST_READ \<and>
                                   rq_operation rq1 \<noteq> FS_REQUEST_GETCWD
                                then snd (cache_sync s1) else s1))))"

section \<open>Direct entry points\<close>

definition fs_find_file :: "c_string option \<Rightarrow> fs \<Rightarrow> inode option \<times> fs" where
  "fs_find_file filename s =
     (case fs_stat_path filename FS_ROOT_INODE s of
        (None, s1) \<Rightarrow> (None, s1)
      | (Some (_, ino), s1) \<Rightarrow> (if ino_type ino = FS_TYPE_FILE then Some ino else None, s1))"

definition fs_create_file :: "c_string option \<Rightarrow> fs \<Rightarrow> u32 option \<times> fs" where
  "fs_create_file filename s = fs_create_path filename FS_ROOT_INODE FS_TYPE_FILE s"

definition fs_read_file ::
    "c_string option \<Rightarrow> u64 \<Rightarrow> bool \<Rightarrow> memory \<Rightarrow> u32 \<Rightarrow> fs \<Rightarrow> (int \<times> memory \<times> fs) option" where
  "fs_read_file filename offset buffer_null buf len s =
     (case fs_stat_path filename FS_ROOT_INODE s of
        (None, s1) \<Rightarrow> Some (-1, buf, s1)
      | (Some (inode_nr, ino), s1) \<Rightarrow>
          if ino_type ino \<noteq> FS_TYPE_FILE then Some (-1, buf, s1)
          else fs_read_inode inode_nr offset buffer_null buf len s1)"

definition fs_write_file ::
    "c_string option \<Rightarrow> u64 \<Rightarrow> bool \<Rightarrow> memory \<Rightarrow> u32 \<Rightarrow> fs \<Rightarrow> (int \<times> fs) option" where
  "fs_write_file filename offset buffer_null buf len s =
     (case fs_stat_path filename FS_ROOT_INODE s of
        (Some (inode_nr, _), s1) \<Rightarrow> fs_write_inode inode_nr offset buffer_null buf len s1
      | (None, s1) \<Rightarrow>
          (case fs_create_file filename s1 of
             (None, s2) \<Rightarrow> Some (-1, s2)
           | (Some _, s2) \<Rightarrow>
               (case fs_stat_path filename FS_ROOT_INODE s2 of
                  (None, s3) \<Rightarrow> Some (-1, s3)
                | (Some (inode_nr, _), s3) \<Rightarrow> fs_write_inode inode_nr offset buffer_null buf len s3)))"

definition fs_unlink_file :: "c_string option \<Rightarrow> fs \<Rightarrow> bool \<times> fs" where
  "fs_unlink_file filename s = fs_unlink_path filename FS_ROOT_INODE s"

definition fs_list_root :: "bool \<Rightarrow> memory \<Rightarrow> u32 \<Rightarrow> fs \<Rightarrow> int \<times> memory \<times> fs" where
  "fs_list_root buffer_null buf len s = fs_list_path (Some [slash]) FS_ROOT_INODE buffer_null buf len s"

end
