(* ===== verification/Fs_Safety.thy ===== *)
theory Fs_Safety
  imports Fs_Files Fs_Names Fs_Requests
begin

text \<open>
  What the file system promises: the cache implements a plain store of blocks and makes it
  durable, mounting accepts exactly the layouts that keep the structures apart, inodes and
  bitmaps behave as tables, files are read as stored, and path names have one canonical form.
\<close>

section \<open>The cache as a store of blocks\<close>

datatype block_op = ReadByte u32 nat | WriteByte u32 nat u8 | Sync

fun cached_op :: "block_op \<Rightarrow> fs \<Rightarrow> u8 option \<times> fs" where
  "cached_op (ReadByte b x) s =
     (case cache_get b False s of (None, s1) \<Rightarrow> (None, s1) | (Some k, s1) \<Rightarrow> (Some (slot_data s1 k x), s1))"
| "cached_op (WriteByte b x v) s =
     (case cache_get b True s of (None, s1) \<Rightarrow> (None, s1) | (Some k, s1) \<Rightarrow> (Some v, poke k (\<lambda>m. m(x := v)) s1))"
| "cached_op Sync s = (case cache_sync s of (r, s1) \<Rightarrow> (if r = 0 then Some 0 else None, s1))"

text \<open>The specification: \<open>tot\<close> blocks, read and written directly.\<close>

fun plain_op :: "u32 \<Rightarrow> block_op \<Rightarrow> (u32 \<Rightarrow> memory) \<Rightarrow> u8 option \<times> (u32 \<Rightarrow> memory)" where
  "plain_op tot (ReadByte b x) V = (if b < tot then Some (V b x) else None, V)"
| "plain_op tot (WriteByte b x v) V = (if b < tot then (Some v, V(b := (V b)(x := v))) else (None, V))"
| "plain_op tot Sync V = (Some 0, V)"

fun run_ops :: "('o \<Rightarrow> 's \<Rightarrow> 'r \<times> 's) \<Rightarrow> 'o list \<Rightarrow> 's \<Rightarrow> 'r list \<times> 's" where
  "run_ops step [] s = ([], s)"
| "run_ops step (x # xs) s =
     (case step x s of (r, s1) \<Rightarrow> case run_ops step xs s1 of (rs, s2) \<Rightarrow> (r # rs, s2))"

fun in_block :: "block_op \<Rightarrow> bool" where
  "in_block (ReadByte b x) = (x < 4096)"
| "in_block (WriteByte b x v) = (x < 4096)"
| "in_block Sync = True"

lemma cached_op_refines:
  assumes g: "good (Suc n) s" and i: "in_block x"
  shows "plain_op (sb_total_blocks (fs_sb s)) x (view s) = (fst (cached_op x s), view (snd (cached_op x s)))"
    and "good n (snd (cached_op x s))" "fs_sb (snd (cached_op x s)) = fs_sb s"
    and "x = Sync \<Longrightarrow> disk_block (snd (cached_op x s)) = view s"
proof -
  have "plain_op (sb_total_blocks (fs_sb s)) x (view s) = (fst (cached_op x s), view (snd (cached_op x s))) \<and>
    good n (snd (cached_op x s)) \<and> fs_sb (snd (cached_op x s)) = fs_sb s \<and>
    (x = Sync \<longrightarrow> disk_block (snd (cached_op x s)) = view s)"
  proof (cases x)
    case (ReadByte b y)
    show ?thesis
    proof (cases "b < sb_total_blocks (fs_sb s)")
      case True
      then obtain k s1 where c: "cache_get b False s = (Some k, s1)" "good n s1" "view s1 = view s" "same_fs s s1" "fetched b False k s1"
        using cache_get_good [OF g, of b False] by blast
      then show ?thesis using True ReadByte i fetched_byte [OF good_inv [OF c(2)] c(5), of y] by (simp add: same_fs_def)
    next
      case False
      then show ?thesis using ReadByte cache_get_fails [of s b False] good_less [OF g, of n] by (simp add: not_less)
    qed
  next
    case (WriteByte b y v)
    show ?thesis
    proof (cases "b < sb_total_blocks (fs_sb s)")
      case True
      then obtain k s1 where c: "cache_get b True s = (Some k, s1)" "good n s1" "view s1 = view s" "same_fs s s1" "fetched b True k s1"
        using cache_get_good [OF g, of b True] by blast
      have "bytewise (\<lambda>m. m(y := v))" using bytewise_upd [of y "\<lambda>_. v"] WriteByte i by simp
      note p = poke_view [OF good_inv [OF c(2)] c(5) this]
      show ?thesis using True WriteByte c p(2) p(4) [OF c(2)] p(3) by (simp add: same_fs_def)
    next
      case False
      then show ?thesis using WriteByte cache_get_fails [of s b True] good_less [OF g, of n] by (simp add: not_less)
    qed
  next
    case Sync
    obtain r s1 where y: "cache_sync s = (r, s1)" by fastforce
    note e = sync_effect [OF good_inv [OF g] y]
    show ?thesis using Sync y e(2,3) e(5) e(6) [OF g] e(7) [OF g] good_less [of "Suc n" s1 n] by (simp add: same_fs_def)
  qed
  then show "plain_op (sb_total_blocks (fs_sb s)) x (view s) = (fst (cached_op x s), view (snd (cached_op x s)))"
    "good n (snd (cached_op x s))" "fs_sb (snd (cached_op x s)) = fs_sb s"
    "x = Sync \<Longrightarrow> disk_block (snd (cached_op x s)) = view s" by blast+
qed

lemma run_refines:
  assumes "good (length ops + m) s" and "list_all in_block ops"
  shows "run_ops (plain_op (sb_total_blocks (fs_sb s))) ops (view s) =
      (fst (run_ops cached_op ops s), view (snd (run_ops cached_op ops s)))"
    and "good m (snd (run_ops cached_op ops s))" "fs_sb (snd (run_ops cached_op ops s)) = fs_sb s"
proof -
  have "run_ops (plain_op (sb_total_blocks (fs_sb s))) ops (view s) =
      (fst (run_ops cached_op ops s), view (snd (run_ops cached_op ops s))) \<and>
    good m (snd (run_ops cached_op ops s)) \<and> fs_sb (snd (run_ops cached_op ops s)) = fs_sb s"
    using assms
  proof (induction ops arbitrary: s)
    case (Cons x xs)
    have g: "good (Suc (length xs + m)) s" using Cons.prems(1) by simp
    note r = cached_op_refines [OF g, of x]
    obtain v s1 where c: "cached_op x s = (v, s1)" by fastforce
    obtain rs s2 where c2: "run_ops cached_op xs s1 = (rs, s2)" by fastforce
    show ?case using r Cons.IH [of s1] Cons.prems c c2 by (simp split: prod.splits)
  qed simp
  then show "run_ops (plain_op (sb_total_blocks (fs_sb s))) ops (view s) =
      (fst (run_ops cached_op ops s), view (snd (run_ops cached_op ops s)))"
    "good m (snd (run_ops cached_op ops s))" "fs_sb (snd (run_ops cached_op ops s)) = fs_sb s" by blast+
qed

section \<open>A small file system\<close>

text \<open>
  Two blocks are in the cache and not yet on disk: the first inode block with a file of 3 bytes
  as inode 2, and the file's only block.
\<close>

definition small_sb :: super_block where
  "small_sb = \<lparr>sb_magic = FS_MAGIC, sb_version = FS_FORMAT_VERSION, sb_block_size = 4096, sb_flags = 0,
     sb_total_inodes = 100, sb_total_blocks = 64, sb_imap_start = 2, sb_imap_blocks = 1, sb_bmap_start = 3,
     sb_bmap_blocks = 1, sb_inode_start = 4, sb_inode_blocks = 2, sb_first_data_block = 6\<rparr>"

definition small_file :: inode where
  "small_file = zero_inode\<lparr>ino_size := 3, ino_type := FS_TYPE_FILE, ino_links := 1, ino_direct := (replicate 11 0)[0 := 9]\<rparr>"

definition small_fs :: fs where
  "small_fs = \<lparr>fs_sb = small_sb, fs_mounted = True, fs_open_refs = 1, fs_refs = (\<lambda>_. 0),
     fs_cache = [\<lparr>ce_block = 4, ce_age = 1, ce_valid = True, ce_dirty = True, ce_data = write_inode 144 small_file (\<lambda>_. 0)\<rparr>,
                 \<lparr>ce_block = 9, ce_age = 2, ce_valid = True, ce_dirty = True, ce_data = (\<lambda>x. of_nat x + 65)\<rparr>]
       @ replicate 14 zero_entry,
     fs_cache_age = 2, fs_disk_ready = True, fs_disk = lazy_drive\<rparr>"

lemma lazy_responsive: "responsive lazy_drive"
proof -
  have "\<exists>k < unat ATA_TIMEOUT. odd (t + k)" for t :: nat
    by (cases "odd t") (auto simp: ATA_TIMEOUT_def intro: exI [of _ 0] exI [of _ 1])
  then show ?thesis by (simp add: responsive_def lazy_drive_def) blast
qed

lemma small_cache:
  "k < 16 \<Longrightarrow> fs_cache small_fs ! k =
     (if k = 0 then \<lparr>ce_block = 4, ce_age = 1, ce_valid = True, ce_dirty = True, ce_data = write_inode 144 small_file (\<lambda>_. 0)\<rparr>
      else if k = 1 then \<lparr>ce_block = 9, ce_age = 2, ce_valid = True, ce_dirty = True, ce_data = (\<lambda>x. of_nat x + 65)\<rparr>
      else zero_entry)"
  by (simp add: small_fs_def nth_append nth_Cons' numeral_2_eq_2)

lemma small_good: "n \<le> 1000000 \<Longrightarrow> good n small_fs"
proof -
  assume n: "n \<le> 1000000"
  have "cache_inv small_fs"
  proof (rule cache_invI)
    show "length (fs_cache small_fs) = 16" "fs_disk_ready small_fs" by (simp_all add: small_fs_def)
  qed (auto simp: small_cache holds_def zero_entry_def split: if_splits)
  moreover have "responsive (fs_disk small_fs)" using lazy_responsive by (simp add: small_fs_def)
  moreover have "unat (ce_age (fs_cache small_fs ! k)) \<le> unat (fs_cache_age small_fs)" if "k < 16" for k
    using small_cache [OF that] by (simp add: zero_entry_def small_fs_def)
  ultimately show ?thesis using n by (simp add: good_def small_fs_def)
qed

lemma small_layout: "layout_nat small_sb"
  by (simp add: layout_nat_def small_sb_def)

lemma small_view:
  "view small_fs 4 = clip (write_inode 144 small_file (\<lambda>_. 0))" "view small_fs 9 = clip (\<lambda>x. of_nat x + 65)"
proof -
  have inv: "cache_inv small_fs" using good_inv [OF small_good [of 0]] by simp
  show "view small_fs 4 = clip (write_inode 144 small_file (\<lambda>_. 0))"
    using view_held [OF inv, of 0 4] by (simp add: small_cache holds_def slot_data_def)
  show "view small_fs 9 = clip (\<lambda>x. of_nat x + 65)"
    using view_held [OF inv, of 1 9] by (simp add: small_cache holds_def slot_data_def)
qed

lemma small_inode: "inode_at small_sb (view small_fs) 2 = small_file"
proof -
  have d: "length (ino_direct small_file) = 11" by (simp add: small_file_def)
  have "inode_blk small_sb 2 = 4" "inode_offset 2 = 144"
    by (simp_all add: inode_blk_def small_sb_def INODES_PER_BLOCK_def inode_offset_def)
  moreover have "read_inode (clip (write_inode 144 small_file (\<lambda>_. 0))) 144 = read_inode (write_inode 144 small_file (\<lambda>_. 0)) 144"
    by (rule read_inode_cong) simp
  ultimately show ?thesis using read_write_inode [OF d] by (simp add: inode_at_def small_view)
qed

lemma small_mounted: "fs_sb small_fs = small_sb" "valid_inode 2 small_fs"
  by (simp_all add: small_fs_def small_sb_def valid_inode_def)

section \<open>Properties\<close>

text \<open>
  C34: The write-back cache refines a plain store of blocks.  Over a drive that answers, every
  sequence of byte reads, byte writes and syncs through the cache returns what the same sequence
  returns on the plain store, whatever is evicted and written back on the way, and leaves the
  plain store as the view of the result; after a sync the disk itself holds that store.
\<close>

theorem cache_refines_blocks:
  assumes "good (Suc (length ops)) s" and "list_all in_block ops"
  shows "run_ops (plain_op (sb_total_blocks (fs_sb s))) ops (view s) =
      (fst (run_ops cached_op ops s), view (snd (run_ops cached_op ops s))) \<and>
    disk_block (snd (cached_op Sync (snd (run_ops cached_op ops s)))) = view (snd (run_ops cached_op ops s))"
proof -
  have g: "good (length ops + 1) s" using assms(1) by simp
  have "good (Suc 0) (snd (run_ops cached_op ops s))" using run_refines(2) [OF g assms(2)] by simp
  from cached_op_refines(4) [OF this, of Sync] run_refines(1) [OF g assms(2)] show ?thesis by simp
qed

theorem cache_refines_blocks_witness:
  "fst (run_ops cached_op [WriteByte 9 0 7, Sync, ReadByte 9 0, ReadByte 9 2, ReadByte 99 0] small_fs) =
     [Some 7, Some 0, Some 7, Some 67, None]"
proof -
  define ops where "ops = [WriteByte 9 0 7, Sync, ReadByte 9 0, ReadByte 9 2, ReadByte 99 0]"
  have "good (Suc (length ops)) small_fs" "list_all in_block ops" by (simp_all add: ops_def small_good)
  from cache_refines_blocks [OF this]
  have "fst (run_ops cached_op ops small_fs) = fst (run_ops (plain_op 64) ops (view small_fs))"
    by (simp add: small_mounted small_sb_def)
  also have "\<dots> = [Some 7, Some 0, Some 7, Some 67, None]" by (simp add: ops_def small_view)
  finally show ?thesis by (simp add: ops_def)
qed

text \<open>
  C38: Writing dirty blocks back never loses data: whatever the drive reports, \<^verbatim>\<open>cache_sync\<close>
  leaves every block as the rest of the file system sees it and keeps the cache consistent, and
  when it returns 0 the disk holds exactly that state.
\<close>

theorem cache_sync_durable:
  assumes "cache_inv s"
  shows "case cache_sync s of (r, s') \<Rightarrow> cache_inv s' \<and> view s' = view s \<and>
    (if r = 0 then disk_block s' = view s else r = -1)"
proof -
  obtain r s' where y: "cache_sync s = (r, s')" by fastforce
  note e = sync_effect [OF assms y]
  show ?thesis using e(1,2,4,5) y by auto
qed

theorem cache_sync_durable_witness:
  "case cache_sync small_fs of (r, s') \<Rightarrow> r = 0 \<longrightarrow> disk_block s' 9 2 = 67"
proof -
  obtain r s' where y: "cache_sync small_fs = (r, s')" by fastforce
  show ?thesis using cache_sync_durable [OF good_inv [OF small_good [of 0]]] y by (auto simp: small_view)
qed

text \<open>
  C39: The checks on the super block are exact and do not wrap: a volume is mounted only if its
  inode bitmap, block bitmap, inode table and data area are in this order, do not overlap and
  are large enough for the numbers of inodes and blocks, and every such volume passes.
\<close>

theorem mount_checks_exact:
  "layout_valid sb \<longleftrightarrow>
     sb_magic sb = FS_MAGIC \<and> sb_version sb = FS_FORMAT_VERSION \<and> sb_block_size sb = 4096 \<and>
     2 \<le> unat (sb_imap_start sb) \<and>
     unat (sb_imap_start sb) + unat (sb_imap_blocks sb) \<le> unat (sb_bmap_start sb) \<and>
     unat (sb_bmap_start sb) + unat (sb_bmap_blocks sb) \<le> unat (sb_inode_start sb) \<and>
     unat (sb_inode_start sb) + unat (sb_inode_blocks sb) \<le> unat (sb_first_data_block sb) \<and>
     unat (sb_first_data_block sb) < unat (sb_total_blocks sb) \<and>
     1 < unat (sb_total_inodes sb) \<and>
     unat (sb_total_inodes sb) \<le> 32768 * unat (sb_imap_blocks sb) \<and>
     unat (sb_total_blocks sb) \<le> 32768 * unat (sb_bmap_blocks sb) \<and>
     unat (sb_total_inodes sb) \<le> 56 * unat (sb_inode_blocks sb)"
  unfolding layout_valid_iff layout_nat_def ..

text \<open>
  C37: An inode is read back as it was stored, and storing it changes no other inode, no bitmap
  and no data block.
\<close>

theorem inode_store_roundtrip:
  assumes "good (Suc (Suc n)) s" and "layout_valid (fs_sb s)" and "valid_inode nr s" and "length (ino_direct ino) = 11"
  shows "\<exists>s1 s2. fs_put_inode nr ino s = (0, s1) \<and> fs_get_inode nr s1 = (Some ino, s2) \<and> good n s2 \<and>
    (\<forall>m. m \<noteq> nr \<longrightarrow> m < sb_total_inodes (fs_sb s) \<longrightarrow> inode_at (fs_sb s) (view s2) m = inode_at (fs_sb s) (view s) m) \<and>
    (\<forall>b. b < sb_inode_start (fs_sb s) \<or> sb_first_data_block (fs_sb s) \<le> b \<longrightarrow> view s2 b = view s b)"
proof -
  have l: "layout_nat (fs_sb s)" using assms(2) by (simp add: layout_valid_iff)
  have nr: "nr < sb_total_inodes (fs_sb s)" using assms(3) by (simp add: valid_inode_def)
  obtain s1 where s1: "fs_put_inode nr ino s = (0, s1)" "good (Suc n) s1" "view s1 = set_inode (fs_sb s) nr ino (view s)" "same_fs s s1"
    using put_inode_good [OF assms(1) l assms(3)] by blast
  have sb: "fs_sb s1 = fs_sb s" "valid_inode nr s1" using s1(4) assms(3) by (simp_all add: same_fs_def valid_inode_def)
  obtain s2 where s2: "fs_get_inode nr s1 = (Some (inode_at (fs_sb s) (view s1) nr), s2)" "good n s2" "view s2 = view s1" "same_fs s1 s2"
    using get_inode_good [OF s1(2)] l sb by metis
  have "inode_blk (fs_sb s) nr \<noteq> b" if "b < sb_inode_start (fs_sb s) \<or> sb_first_data_block (fs_sb s) \<le> b" for b
    using that unat_inode_blk(2,4) [OF l nr] by auto
  then have "view s2 b = view s b" if "b < sb_inode_start (fs_sb s) \<or> sb_first_data_block (fs_sb s) \<le> b" for b
    using that s1(3) s2(3) by (auto simp: set_inode_def)
  then show ?thesis
    using s1 s2 inode_at_set [OF assms(4)] inode_at_set_other [OF l nr _ _ assms(4)] by auto
qed

theorem inode_store_roundtrip_witness:
  "\<exists>s1 s2. fs_put_inode 5 small_file small_fs = (0, s1) \<and> fs_get_inode 5 s1 = (Some small_file, s2) \<and>
    inode_at small_sb (view s2) 2 = small_file"
proof -
  have "layout_valid (fs_sb small_fs)" using small_layout by (simp add: layout_valid_iff small_mounted) (simp add: small_sb_def)
  moreover have "valid_inode 5 small_fs" by (simp add: valid_inode_def small_mounted small_sb_def)
  moreover have "length (ino_direct small_file) = 11" by (simp add: small_file_def)
  moreover have "good (Suc (Suc 0)) small_fs" by (rule small_good) simp
  ultimately obtain s1 s2 where s: "fs_put_inode 5 small_file small_fs = (0, s1)" "fs_get_inode 5 s1 = (Some small_file, s2)"
    "\<forall>m. m \<noteq> 5 \<longrightarrow> m < sb_total_inodes small_sb \<longrightarrow> inode_at small_sb (view s2) m = inode_at small_sb (view small_fs) m"
    using inode_store_roundtrip [of 0 small_fs 5 small_file] unfolding small_mounted by metis
  have "(2 :: u32) \<noteq> 5" "(2 :: u32) < sb_total_inodes small_sb" by (simp_all add: small_sb_def)
  then have "inode_at small_sb (view s2) 2 = small_file" using s(3) small_inode by metis
  then show ?thesis using s(1,2) by blast
qed

text \<open>The bits of the block bitmap live in front of the data area.\<close>

lemma bitmap_home:
  assumes "layout_nat sb" and "j < unat (sb_total_blocks sb)"
  shows "unat (sb_bmap_start sb) + j div 32768 < unat (sb_first_data_block sb)"
    and "unat (sb_bmap_start sb) + j div 32768 < 2 ^ 32"
    and "unat (sb_first_data_block sb) \<le> unat c \<Longrightarrow> sb_bmap_start sb + of_nat (j div 32768) \<noteq> c"
proof -
  have "j div 32768 < unat (sb_bmap_blocks sb)"
    using assms by (simp add: layout_nat_def less_mult_imp_div_less mult.commute)
  then show *: "unat (sb_bmap_start sb) + j div 32768 < unat (sb_first_data_block sb)" using assms(1) by (simp add: layout_nat_def)
  then show "unat (sb_bmap_start sb) + j div 32768 < 2 ^ 32"
    using unsigned_less [of "sb_first_data_block sb", where 'a = nat] by simp
  with * show "unat (sb_first_data_block sb) \<le> unat c \<Longrightarrow> sb_bmap_start sb + of_nat (j div 32768) \<noteq> c"
    using bm_block [of "sb_bmap_start sb" j] by auto
qed

lemma bitmap_free_effect:
  assumes l: "layout_valid (fs_sb s)" and g: "good (Suc m) s" and b: "b < sb_total_blocks (fs_sb s)"
    and s': "s' = bitmap_free (sb_bmap_start (fs_sb s)) b s"
  shows "\<forall>i < unat (sb_total_blocks (fs_sb s)). data_bits s' i = (data_bits s i \<and> i \<noteq> unat b)"
    and "\<forall>c. sb_first_data_block (fs_sb s) \<le> c \<longrightarrow> view s' c = view s c"
proof -
  have l: "layout_nat (fs_sb s)" "sb_block_size (fs_sb s) = 4096" using l by (simp_all add: layout_valid_iff)
  have b: "unat b < unat (sb_total_blocks (fs_sb s))" using b by (simp add: word_less_nat_alt)
  have f: "unat (sb_first_data_block (fs_sb s)) < unat (sb_total_blocks (fs_sb s))" using l(1) by (simp add: layout_nat_def)
  have "bm_range (sb_bmap_start (fs_sb s)) (Suc (unat b)) s"
    unfolding bm_range_def
  proof (intro conjI allI impI l(2))
    fix n assume "n < Suc (unat b)"
    then show "unat (sb_bmap_start (fs_sb s)) + n div 32768 < unat (sb_total_blocks (fs_sb s))"
      using bitmap_home(1) [OF l(1), of n] b f by linarith
  qed
  note e = bitmap_free_good [OF this g, folded s']
  have "fs_sb s' = fs_sb s" using e(2) by (simp add: same_fs_def)
  then show "\<forall>i < unat (sb_total_blocks (fs_sb s)). data_bits s' i = (data_bits s i \<and> i \<noteq> unat b)"
    using bm_bit_set(2) bitmap_home(2) [OF l(1)] b by (simp add: data_bits_def e(1))
  show "\<forall>c. sb_first_data_block (fs_sb s) \<le> c \<longrightarrow> view s' c = view s c"
    using bitmap_home(3) [OF l(1) b] by (auto simp: e(1) bm_clear_def bm_upd_def Let_def word_le_nat_alt)
qed

text \<open>
  C36: Allocating a data block takes the lowest block of the data area that is free in the block
  bitmap, marks exactly that bit, clears the block and leaves every other data block alone; it
  fails only when no block is free, and then changes nothing.  Freeing a block clears exactly its
  bit in the bitmap and leaves every data block alone.
\<close>

theorem data_blocks_first_fit:
  assumes "good (Suc (unat (sb_total_blocks (fs_sb s)) + m)) s" and "layout_valid (fs_sb s)"
    and "unat (sb_total_blocks (fs_sb s)) \<le> 2 ^ 31" and "alloc_data_block s = (x, s')"
  shows "((\<exists>n. unat (sb_first_data_block (fs_sb s)) \<le> n \<and> n < unat (sb_total_blocks (fs_sb s)) \<and> x = int n \<and>
      \<not> data_bits s n \<and> (\<forall>i. unat (sb_first_data_block (fs_sb s)) \<le> i \<and> i < n \<longrightarrow> data_bits s i) \<and>
      view s' (of_nat n) = (\<lambda>_. 0) \<and>
      (\<forall>c. sb_first_data_block (fs_sb s) \<le> c \<and> c \<noteq> of_nat n \<longrightarrow> view s' c = view s c) \<and>
      (\<forall>i < unat (sb_total_blocks (fs_sb s)). data_bits s' i = (data_bits s i \<or> i = n))) \<or>
    x = -1 \<and> view s' = view s \<and>
      (\<forall>i. unat (sb_first_data_block (fs_sb s)) \<le> i \<and> i < unat (sb_total_blocks (fs_sb s)) \<longrightarrow> data_bits s i)) \<and>
    good m s' \<and>
    (\<forall>b < sb_total_blocks (fs_sb s).
      (\<forall>i < unat (sb_total_blocks (fs_sb s)).
         data_bits (bitmap_free (sb_bmap_start (fs_sb s)) b s) i = (data_bits s i \<and> i \<noteq> unat b)) \<and>
      (\<forall>c. sb_first_data_block (fs_sb s) \<le> c \<longrightarrow> view (bitmap_free (sb_bmap_start (fs_sb s)) b s) c = view s c))"
proof -
  let ?b = "sb_bmap_start (fs_sb s)" and ?t = "unat (sb_total_blocks (fs_sb s))"
  have l: "layout_nat (fs_sb s)" "sb_block_size (fs_sb s) = 4096" using assms(2) by (simp_all add: layout_valid_iff)
  note al = alloc_data_block_good [OF l assms(3,1,4)]
  have sb: "fs_sb s' = fs_sb s" using al(2) by (simp add: same_fs_def)
  have bits: "data_bits s' i = (data_bits s i \<or> i = n)"
    if n: "unat (sb_first_data_block (fs_sb s)) \<le> n" "n < ?t" "view s' = (bm_set ?b n (view s))(of_nat n := \<lambda>_. 0)" "i < ?t" for n i
  proof -
    have "unat (of_nat n :: u32) = n" using n(2) unsigned_less [of "sb_total_blocks (fs_sb s)", where 'a = nat] by (simp add: unat_of_nat)
    then have "?b + of_nat (i div 32768) \<noteq> of_nat n" using bitmap_home(3) [OF l(1) n(4)] n(1) by simp
    then show ?thesis
      using bm_bit_set(1) [of ?b n i "view s"] bitmap_home(2) [OF l(1)] n(2,4) by (simp add: data_bits_def sb n(3) bm_bit_def)
  qed
  have other: "view s' c = view s c"
    if "n < ?t" "view s' = (bm_set ?b n (view s))(of_nat n := \<lambda>_. 0)" "sb_first_data_block (fs_sb s) \<le> c" "c \<noteq> of_nat n" for n c
    using that bitmap_home(3) [OF l(1) that(1), of c] by (auto simp: bm_set_def bm_upd_def Let_def word_le_nat_alt)
  have free: "(\<forall>i < ?t. data_bits (bitmap_free ?b b s) i = (data_bits s i \<and> i \<noteq> unat b)) \<and>
      (\<forall>c. sb_first_data_block (fs_sb s) \<le> c \<longrightarrow> view (bitmap_free ?b b s) c = view s c)" if "b < sb_total_blocks (fs_sb s)" for b
    using bitmap_free_effect [OF assms(2,1) that refl] by blast
  from al(1) show ?thesis
  proof
    assume "\<exists>n. unat (sb_first_data_block (fs_sb s)) \<le> n \<and> n < ?t \<and> \<not> data_bits s n \<and>
      (\<forall>i. unat (sb_first_data_block (fs_sb s)) \<le> i \<and> i < n \<longrightarrow> data_bits s i) \<and> x = int n \<and>
      view s' = (bm_set ?b n (view s))(of_nat n := \<lambda>_. 0)"
    then obtain n where n: "unat (sb_first_data_block (fs_sb s)) \<le> n" "n < ?t" "\<not> data_bits s n"
      "\<forall>i. unat (sb_first_data_block (fs_sb s)) \<le> i \<and> i < n \<longrightarrow> data_bits s i" "x = int n"
      "view s' = (bm_set ?b n (view s))(of_nat n := \<lambda>_. 0)" by blast
    have "view s' (of_nat n) = (\<lambda>_. 0)" by (simp add: n(6))
    then show ?thesis using n(1-5) al(3) bits [OF n(1,2,6)] other [OF n(2,6)] free by blast
  qed (use al(3) free in blast)
qed

lemma small_bits: "\<not> data_bits small_fs 6" "data_bits small_fs 10"
proof -
  have "view small_fs 3 = disk_block small_fs 3"
    by (rule view_absent) (auto simp: small_cache holds_def zero_entry_def)
  then show "\<not> data_bits small_fs 6" "data_bits small_fs 10"
    by (simp_all add: data_bits_def bm_bit_def small_mounted small_sb_def disk_block_def disk_byte_def clip_def small_fs_def lazy_drive_def sector_byte_def)
qed

theorem data_blocks_first_fit_witness:
  "\<exists>s'. alloc_data_block small_fs = (6, s') \<and> data_bits s' 6 \<and> view s' 6 = (\<lambda>_. 0) \<and> view s' 9 2 = 67 \<and>
     data_bits small_fs 10 \<and> \<not> data_bits (bitmap_free 3 10 small_fs) 10"
proof -
  obtain x s' where al: "alloc_data_block small_fs = (x, s')" by fastforce
  have l: "layout_valid (fs_sb small_fs)" using small_layout by (simp add: layout_valid_iff small_mounted) (simp add: small_sb_def)
  have g: "good (Suc (unat (sb_total_blocks (fs_sb small_fs)) + 0)) small_fs" "unat (sb_total_blocks (fs_sb small_fs)) \<le> 2 ^ 31"
    by (auto simp: small_mounted small_sb_def intro!: small_good)
  have sb: "sb_first_data_block (fs_sb small_fs) = 6" "sb_total_blocks (fs_sb small_fs) = 64" "sb_bmap_start (fs_sb small_fs) = 3"
    by (simp_all add: small_mounted small_sb_def)
  note t = data_blocks_first_fit [OF g(1) l g(2) al, unfolded sb]
  from t [THEN conjunct1] small_bits(1)
  obtain n where n: "6 \<le> n" "n < 64" "x = int n" "\<forall>i. 6 \<le> i \<and> i < n \<longrightarrow> data_bits small_fs i" "view s' (of_nat n) = (\<lambda>_. 0)"
    "\<forall>c. (6 :: u32) \<le> c \<and> c \<noteq> of_nat n \<longrightarrow> view s' c = view small_fs c" "data_bits s' n" by auto
  have n6: "n = 6" using n(1,4) small_bits(1) by (cases "n = 6") auto
  have "view s' 9 = view small_fs 9" using n(6) n6 by simp
  then have "view s' 9 2 = 67" by (simp add: small_view)
  moreover have "\<not> data_bits (bitmap_free 3 10 small_fs) 10"
    using t [THEN conjunct2, THEN conjunct2, THEN spec [of _ 10]] by simp
  ultimately show ?thesis using al n n6 small_bits(2) by auto
qed

text \<open>
  C35: Reading a file returns and delivers exactly the stored bytes: the result is the number of
  bytes between the offset and the end of the file, at most the requested length, the buffer
  holds the bytes of the file's blocks through all index levels with zeroes for missing blocks,
  nothing behind them is written, and no block of the file system changes.
\<close>

theorem fs_read_inode_exact:
  assumes "good (4 * (unat len div 4096) + 9 + m) s" and "layout_valid (fs_sb s)" and "valid_inode nr s"
    and "ino = inode_at (fs_sb s) (view s) nr" and "ino_type ino = FS_TYPE_FILE" and "unat (ino_size ino) \<le> 4096 * MAX_BLOCKS"
    and "n = min (unat len) (unat (ino_size ino) - unat offset)" and "unat len < 2 ^ 31"
    and "span_ok (sb_total_blocks (fs_sb s)) (view s) ino (unat offset) (unat offset + n)"
  shows "\<exists>s'. fs_read_inode nr offset False buf len s =
      Some (int n, (\<lambda>x. if x < n then file_byte (view s) ino (unat offset + x) else buf x), s') \<and> view s' = view s \<and> good m s'"
proof -
  have l: "layout_nat (fs_sb s)" using assms(2) by (simp add: layout_valid_iff)
  show ?thesis using read_inode_good [OF assms(1) l assms(3-9)] by blast
qed

theorem fs_read_inode_exact_witness:
  "\<exists>buf s'. fs_read_inode 2 1 False (\<lambda>_. 0) 10 small_fs = Some (2, buf, s') \<and> buf 0 = 66 \<and> buf 1 = 67 \<and> buf 2 = 0"
proof -
  have l: "layout_valid (fs_sb small_fs)" using small_layout by (simp add: layout_valid_iff small_mounted) (simp add: small_sb_def)
  have sf: "ino_type small_file = FS_TYPE_FILE" "unat (ino_size small_file) = 3" by (simp_all add: small_file_def)
  have fb: "in_tree small_file 0 = (0, 9, 0)" by (simp add: in_tree_def small_file_def)
  have sp: "span_ok (sb_total_blocks (fs_sb small_fs)) (view small_fs) small_file (unat (1 :: u64)) (unat (1 :: u64) + 2)"
    unfolding span_ok_def
  proof (intro allI impI)
    fix x :: nat assume "unat (1 :: u64) \<le> x \<and> x < unat (1 :: u64) + 2"
    then have "x div 4096 = 0" by simp
    moreover have "block_ok (sb_total_blocks (fs_sb small_fs)) (view small_fs) small_file 0"
      unfolding block_ok_def fb by (simp add: small_mounted) (simp add: small_sb_def)
    ultimately show "block_ok (sb_total_blocks (fs_sb small_fs)) (view small_fs) small_file (x div 4096)" by simp
  qed
  have g: "good (4 * (unat (10 :: u32) div 4096) + 9 + 0) small_fs" by (rule small_good) simp
  have ino: "small_file = inode_at (fs_sb small_fs) (view small_fs) 2" by (simp only: small_mounted small_inode)
  have "unat (ino_size small_file) \<le> 4096 * MAX_BLOCKS" "2 = min (unat (10 :: u32)) (unat (ino_size small_file) - unat (1 :: u64))"
    "unat (10 :: u32) < 2 ^ 31" by (simp_all add: sf MAX_BLOCKS_def)
  from fs_read_inode_exact [OF g l small_mounted(2) ino sf(1) this sp, of "\<lambda>_. 0"]
  obtain s' where r: "fs_read_inode 2 1 False (\<lambda>_. 0) 10 small_fs =
      Some (int 2, (\<lambda>x. if x < 2 then file_byte (view small_fs) small_file (unat (1 :: u64) + x) else 0), s')" by blast
  have "file_byte (view small_fs) small_file (unat (1 :: u64) + 0) = 66" "file_byte (view small_fs) small_file (unat (1 :: u64) + 1) = 67"
    by (simp_all add: file_byte_def file_block_def fb small_view)
  with r show ?thesis by simp
qed


lemma split_example:
  "split_path [0x61, 0x2F, 0x2E, 0x2E, 0x2F, 0x62] = [[0x61], [0x2E, 0x2E], [0x62]]" "split_path [0x2F, 0x63] = [[0x63]]"
  by (simp_all add: split_path_eq slash_def)


text \<open>
  A component of 60 or more characters ends the scan of \<^verbatim>\<open>canonicalize\<close> like the end of the path, so
  that the request is carried out on the directory before it instead of being refused.
\<close>

lemma canonicalize_overlong:
  assumes "60 \<le> length c" and "slash \<notin> set c"
  shows "canonicalize (slash # c @ rest) cwd = Some [slash]"
proof -
  have "takeWhile (\<lambda>x. x \<noteq> slash) (c @ rest) = c @ takeWhile (\<lambda>x. x \<noteq> slash) rest"
    using assms(2) by (intro takeWhile_append2) auto
  then have "\<not> length (takeWhile (\<lambda>x. x \<noteq> slash) (c @ rest)) < 60" using assms(1) by simp
  then have "next_component (slash # c @ rest) = PathTooLong"
    using assms by (cases c) (auto simp: next_component_eq)
  then show ?thesis by (simp add: canonicalize_def collect_parts.simps)
qed

text \<open>
  A request for the current directory with an empty directory name and a buffer of one byte
  passes the length check and stores two bytes.
\<close>

lemma getcwd_overrun:
  assumes "rq_cwd_path rq = []" and "rq_length rq = 1" and "\<not> rq_buffer_null rq"
  shows "\<exists>rq'. handle_getcwd rq = (True, rq') \<and> rq_buffer rq' = (rq_buffer rq)(0 := slash, 1 := 0)"
  using assms by (auto simp: handle_getcwd_def put_bytes_def fun_eq_iff less_Suc_eq nth_Cons')

text \<open>
  When the reference table cannot be allocated, mounting reports failure but leaves the file
  system marked as mounted, with no table.
\<close>

lemma mount_without_table:
  assumes "fs_open_refs s = 0" and "kmalloc (ucast (sb_total_inodes (fs_sb s)) * 4) h = Some (0, h')" and "fs_mounted s"
  shows "\<exists>s'. alloc_refs s h = Some (-1, s', h') \<and> fs_mounted s' \<and> fs_open_refs s' = 0"
proof -
  have "\<not> ucast (sb_total_inodes (fs_sb s)) > (- 1 :: u64) div 4"
    using unsigned_less [of "sb_total_inodes (fs_sb s)", where 'a = nat]
    by (simp add: word_less_nat_alt unat_ucast_u64 unat_div unsigned_minus_1_eq_mask mask_eq_exp_minus_1)
  then show ?thesis using assms by (simp add: alloc_refs_def Let_def)
qed

end
