(* ===== verification/Links.thy ===== *)
theory Links
  imports Os_Prelude
begin

text \<open>
  Lists of kernel objects.  The kernel threads its lists through pointer fields of the objects:
  the scheduler ring, the threads and children of a process, queues of waiting senders, sleepers
  and futex waiters, memory areas.  This theory holds the two loops that walk such lists and the
  lemmas on the chains of pointers they walk; a component instantiates \<open>link_list\<close> with its own
  head and link fields.  A loop that does not come to an end has the value \<open>None\<close>.
\<close>

section \<open>Walking a list\<close>

text \<open>\<^verbatim>\<open>while (!stop(cur)) { prev = cur; cur = cur->next; }\<close>\<close>

partial_function (option) chase ::
    "(u64 \<Rightarrow> u64) \<Rightarrow> (u64 \<Rightarrow> bool) \<Rightarrow> u64 \<Rightarrow> u64 \<Rightarrow> (u64 \<times> u64) option" where
  "chase nxt stop prev cur = (if stop cur then Some (prev, cur) else chase nxt stop cur (nxt cur))"

text \<open>
  \<^verbatim>\<open>while (!stop(p)) { n = p->next; body(p); p = n; }\<close>: the link is read before the body runs.
\<close>

partial_function (option) each ::
    "('s \<Rightarrow> u64 \<Rightarrow> u64) \<Rightarrow> (u64 \<Rightarrow> 's \<Rightarrow> bool) \<Rightarrow> (u64 \<Rightarrow> 's \<Rightarrow> 's option) \<Rightarrow> u64 \<Rightarrow> 's \<Rightarrow> 's option" where
  "each nxt stop body p s =
     (if stop p s then Some s
      else case body p s of None \<Rightarrow> None | Some s' \<Rightarrow> each nxt stop body (nxt s p) s')"

text \<open>A store through \<^verbatim>\<open>struct x** link\<close>: the head of the list, or the link field of \<open>prev\<close>.\<close>

definition set_link :: "(u64 \<Rightarrow> 's \<Rightarrow> 's) \<Rightarrow> (u64 \<Rightarrow> u64 \<Rightarrow> 's \<Rightarrow> 's) \<Rightarrow> u64 \<Rightarrow> u64 \<Rightarrow> 's \<Rightarrow> 's" where
  "set_link set_hd set_nx prev v s = (if prev = 0 then set_hd v s else set_nx prev v s)"

text \<open>The removal loop that several lists of the kernel share.\<close>

definition list_unlink ::
    "('s \<Rightarrow> u64) \<Rightarrow> ('s \<Rightarrow> u64 \<Rightarrow> u64) \<Rightarrow> (u64 \<Rightarrow> 's \<Rightarrow> 's) \<Rightarrow> (u64 \<Rightarrow> u64 \<Rightarrow> 's \<Rightarrow> 's) \<Rightarrow> u64 \<Rightarrow> 's
      \<Rightarrow> (bool \<times> 's) option" where
  "list_unlink hd_of nx set_hd set_nx victim s =
     (case chase (nx s) (\<lambda>p. p = 0 \<or> p = victim) 0 (hd_of s) of
        None \<Rightarrow> None
      | Some (prev, cur) \<Rightarrow>
          Some (if cur = victim then (True, set_link set_hd set_nx prev (nx s victim) s) else (False, s)))"

lemma list_unlink_cases:
  assumes "list_unlink hd_of nx set_hd set_nx v s = Some (b, s')"
  obtains "s' = s" | "s' = set_hd (nx s v) s" | q where "q \<noteq> 0" "s' = set_nx q (nx s v) s"
  using assms by (auto simp: list_unlink_def set_link_def split: option.splits if_splits)

text \<open>The monadic fold a walk over a list computes.\<close>

fun foldo :: "('a \<Rightarrow> 's \<Rightarrow> 's option) \<Rightarrow> 'a list \<Rightarrow> 's \<Rightarrow> 's option" where
  "foldo f [] s = Some s"
| "foldo f (x # xs) s = (case f x s of None \<Rightarrow> None | Some s' \<Rightarrow> foldo f xs s')"

lemma foldo_append:
  "foldo f (xs @ ys) s = (case foldo f xs s of None \<Rightarrow> None | Some s' \<Rightarrow> foldo f ys s')"
  by (induction xs arbitrary: s) (auto split: option.splits)

lemma foldo_cong [fundef_cong]:
  "xs = ys \<Longrightarrow> s = t \<Longrightarrow> (\<And>x s. x \<in> set ys \<Longrightarrow> f x s = g x s) \<Longrightarrow> foldo f xs s = foldo g ys t"
  by (induction ys arbitrary: xs s t) (auto split: option.splits)

lemma foldo_total: "(\<And>x s. x \<in> set xs \<Longrightarrow> f x s = Some (g x s)) \<Longrightarrow> foldo f xs s = Some (fold g xs s)"
  by (induction xs arbitrary: s) auto

lemma foldo_invariant:
  assumes "P s" and "\<And>x s. x \<in> set xs \<Longrightarrow> P s \<Longrightarrow> \<exists>s'. f x s = Some s' \<and> P s'"
  shows "\<exists>s'. foldo f xs s = Some s' \<and> P s'"
  using assms
proof (induction xs arbitrary: s)
  case (Cons x xs)
  then obtain s1 where "f x s = Some s1" "P s1" by fastforce
  with Cons.IH [of s1] Cons.prems(2) show ?case by auto
qed simp

section \<open>Chains of pointers\<close>

fun lseg :: "(u64 \<Rightarrow> u64) \<Rightarrow> u64 \<Rightarrow> u64 list \<Rightarrow> u64 \<Rightarrow> bool" where
  "lseg nxt p [] q \<longleftrightarrow> p = q"
| "lseg nxt p (x # xs) q \<longleftrightarrow> p = x \<and> lseg nxt (nxt x) xs q"

text \<open>A list that ends with the null pointer.\<close>

definition chain :: "(u64 \<Rightarrow> u64) \<Rightarrow> u64 \<Rightarrow> u64 list \<Rightarrow> bool" where
  "chain nxt p xs \<longleftrightarrow> lseg nxt p xs 0 \<and> 0 \<notin> set xs \<and> distinct xs"

text \<open>A ring that leads from \<open>p\<close> over \<open>xs\<close> back to \<open>p\<close>.\<close>

definition ring :: "(u64 \<Rightarrow> u64) \<Rightarrow> u64 \<Rightarrow> u64 list \<Rightarrow> bool" where
  "ring nxt p xs \<longleftrightarrow> lseg nxt (nxt p) xs p \<and> 0 \<notin> set (p # xs) \<and> distinct (p # xs)"

lemma lseg_append: "lseg nxt p (xs @ ys) q \<longleftrightarrow> (\<exists>m. lseg nxt p xs m \<and> lseg nxt m ys q)"
  by (induction xs arbitrary: p) auto

lemma lseg_cong:
  "(\<And>x. x \<in> set xs \<Longrightarrow> nxt' x = nxt x) \<Longrightarrow> lseg nxt' p xs q = lseg nxt p xs q"
  by (induction xs arbitrary: p) auto

lemma lseg_upd_other: "y \<notin> set xs \<Longrightarrow> lseg (nxt(y := v)) p xs q = lseg nxt p xs q"
  by (rule lseg_cong) auto

lemma lseg_start: "lseg nxt p xs q \<Longrightarrow> p = (if xs = [] then q else hd xs)"
  by (cases xs) auto

lemma chain_Nil [simp]: "chain nxt p [] \<longleftrightarrow> p = 0"
  by (simp add: chain_def)

lemma chain_Cons: "chain nxt p (x # xs) \<longleftrightarrow> p = x \<and> x \<noteq> 0 \<and> x \<notin> set xs \<and> chain nxt (nxt x) xs"
  by (auto simp: chain_def)

lemma chain_0 [simp]: "chain nxt 0 xs \<longleftrightarrow> xs = []"
  by (cases xs) (auto simp: chain_def)

lemma chain_cong:
  "(\<And>x. x \<in> set xs \<Longrightarrow> nxt' x = nxt x) \<Longrightarrow> chain nxt' p xs = chain nxt p xs"
  using lseg_cong [of xs nxt' nxt p 0] by (simp add: chain_def)

lemma chain_upd_other: "y \<notin> set xs \<Longrightarrow> chain (nxt(y := v)) p xs = chain nxt p xs"
  by (rule chain_cong) auto

lemma chain_unique: "chain nxt p xs \<Longrightarrow> chain nxt p ys \<Longrightarrow> xs = ys"
proof (induction xs arbitrary: p ys)
  case (Cons x xs)
  then show ?case by (cases ys) (auto simp: chain_Cons)
qed auto

lemma chase_lseg:
  assumes "lseg nxt p xs q" and "stop q"
  shows "chase nxt stop prev p =
    Some (last (prev # takeWhile (\<lambda>x. \<not> stop x) xs), case dropWhile (\<lambda>x. \<not> stop x) xs of [] \<Rightarrow> q | x # _ \<Rightarrow> x)"
  using assms
proof (induction xs arbitrary: p prev)
  case (Cons x xs)
  then show ?case by (auto simp: chase.simps [of nxt stop prev x])
qed (simp add: chase.simps)

lemma chase_chain_find:
  assumes "chain nxt p (ys @ v # zs)" and "\<And>y. y \<in> set ys \<Longrightarrow> \<not> stop y" and "stop v"
  shows "chase nxt (\<lambda>x. x = 0 \<or> stop x) prev p = Some (last (prev # ys), v)"
proof -
  have "takeWhile (\<lambda>x. \<not> (x = 0 \<or> stop x)) (ys @ v # zs) = ys"
    "dropWhile (\<lambda>x. \<not> (x = 0 \<or> stop x)) (ys @ v # zs) = v # zs"
    using assms by (auto simp: chain_def takeWhile_append dropWhile_append)
  moreover have "lseg nxt p (ys @ v # zs) 0" using assms(1) by (simp add: chain_def)
  ultimately show ?thesis by (simp add: chase_lseg)
qed

lemma chase_chain_end:
  assumes "chain nxt p xs" and "\<And>y. y \<in> set xs \<Longrightarrow> \<not> stop y"
  shows "chase nxt (\<lambda>x. x = 0 \<or> stop x) prev p = Some (last (prev # xs), 0)"
proof -
  have "takeWhile (\<lambda>x. \<not> (x = 0 \<or> stop x)) xs = xs" "dropWhile (\<lambda>x. \<not> (x = 0 \<or> stop x)) xs = []"
    using assms by (auto simp: chain_def)
  moreover have "lseg nxt p xs 0" using assms(1) by (simp add: chain_def)
  ultimately show ?thesis using chase_lseg [of nxt p xs 0 "\<lambda>x. x = 0 \<or> stop x" prev] by (simp only: list.case simp_thms)
qed

text \<open>
  A walk whose body keeps the links of the objects that are still to come is a fold over the
  list.
\<close>

lemma each_lseg:
  assumes "lseg (nxt s) p xs q" and "distinct xs" and "\<And>s. stop q s"
    and "\<And>x s. x \<in> set xs \<Longrightarrow> \<not> stop x s"
    and "\<And>ys x zs s s' y. xs = ys @ x # zs \<Longrightarrow> body x s = Some s' \<Longrightarrow> y \<in> set zs \<Longrightarrow> nxt s' y = nxt s y"
  shows "each nxt stop body p s = foldo body xs s"
  using assms
proof (induction xs arbitrary: p s)
  case Nil
  then show ?case by (simp add: each.simps)
next
  case (Cons x xs)
  show ?case
  proof (cases "body x s")
    case None
    then show ?thesis using Cons.prems by (subst each.simps) simp
  next
    case (Some s')
    have "nxt s' y = nxt s y" if "y \<in> set xs" for y
      using Cons.prems(5) [of "[]" x xs s s' y] Some that by simp
    then have "lseg (nxt s') (nxt s x) xs q"
      using Cons.prems(1) lseg_cong [of xs "nxt s'" "nxt s"] by simp
    moreover have "nxt s2 y = nxt s1 y" if "xs = ys @ z # zs" "body z s1 = Some s2" "y \<in> set zs" for ys z zs s1 s2 y
      using Cons.prems(5) [of "x # ys" z zs s1 s2 y] that by simp
    ultimately have "each nxt stop body (nxt s x) s' = foldo body xs s'"
      using Cons.prems by (intro Cons.IH) auto
    then show ?thesis using Cons.prems Some by (subst each.simps) simp
  qed
qed

lemma each_chain:
  assumes "chain (nxt s) p xs" and "\<And>x s. stop x s \<longleftrightarrow> x = 0"
    and "\<And>ys x zs s s' y. xs = ys @ x # zs \<Longrightarrow> body x s = Some s' \<Longrightarrow> y \<in> set zs \<Longrightarrow> nxt s' y = nxt s y"
  shows "each nxt stop body p s = foldo body xs s"
proof (rule each_lseg [where q = 0])
  show "\<not> stop x s" if "x \<in> set xs" for x s using assms(1) that by (auto simp: chain_def assms(2))
qed (use assms in \<open>auto simp: chain_def\<close>)

text \<open>
  A walk with an invariant on the objects that are still to come and the state: \<open>J\<close> holds when
  the walk stops.
\<close>

lemma each_inv:
  assumes "I xs s" and "\<And>s. I [] s \<Longrightarrow> stop q s \<and> J s"
    and "\<And>x ys s. I (x # ys) s \<Longrightarrow>
      (stop x s \<and> J s) \<or>
      (\<not> stop x s \<and> nxt s x = (case ys of [] \<Rightarrow> q | y # _ \<Rightarrow> y) \<and> (\<exists>s'. body x s = Some s' \<and> I ys s'))"
  shows "\<exists>s'. each nxt stop body (case xs of [] \<Rightarrow> q | x # _ \<Rightarrow> x) s = Some s' \<and> J s'"
  using assms(1)
proof (induction xs arbitrary: s)
  case Nil
  then show ?case using assms(2) by (simp add: each.simps)
next
  case (Cons x xs)
  from assms(3) [OF Cons.prems] consider (stop) "stop x s" "J s"
    | (go) s1 where "\<not> stop x s" "nxt s x = (case xs of [] \<Rightarrow> q | y # _ \<Rightarrow> y)" "body x s = Some s1" "I xs s1"
    by blast
  then show ?case
  proof cases
    case stop
    then show ?thesis by (simp add: each.simps)
  next
    case go
    then show ?thesis using Cons.IH [OF go(4)] by (subst each.simps) simp
  qed
qed

section \<open>The interface of a linked list\<close>

text \<open>
  What a list needs of the objects it is threaded through: a head and a link field that are
  written independently of each other.
\<close>

locale link_list =
  fixes hd_of :: "'s \<Rightarrow> u64"
    and nx :: "'s \<Rightarrow> u64 \<Rightarrow> u64"
    and set_hd :: "u64 \<Rightarrow> 's \<Rightarrow> 's"
    and set_nx :: "u64 \<Rightarrow> u64 \<Rightarrow> 's \<Rightarrow> 's"
  assumes hd_set_hd: "hd_of (set_hd v s) = v"
    and nx_set_hd: "nx (set_hd v s) = nx s"
    and hd_set_nx: "hd_of (set_nx p v s) = hd_of s"
    and nx_set_nx: "nx (set_nx p v s) = (nx s)(p := v)"
begin

lemmas link_simps = hd_set_hd nx_set_hd hd_set_nx nx_set_nx

lemma push:
  assumes "chain (nx s) (hd_of s) xs" and "p \<noteq> 0" and "p \<notin> set xs"
  shows "chain (nx (set_hd p (set_nx p (hd_of s) s))) p (p # xs)"
  using assms by (simp add: chain_Cons chain_upd_other link_simps)

text \<open>Writing the link that leads to \<open>zs\<close> replaces the rest of the list.\<close>

lemma relink:
  assumes "chain (nx s) (hd_of s) (ys @ zs)" and "chain (nx s) q ws" and "set ys \<inter> set ws = {}"
  shows "chain (nx (set_link set_hd set_nx (last (0 # ys)) q s)) (hd_of (set_link set_hd set_nx (last (0 # ys)) q s)) (ys @ ws)"
proof (cases ys rule: rev_cases)
  case Nil
  then show ?thesis using assms by (simp add: set_link_def link_simps)
next
  case (snoc us u)
  have "lseg (nx s) (hd_of s) (us @ [u]) (nx s u)" "u \<noteq> 0" "u \<notin> set us" "u \<notin> set ws"
    using assms by (auto simp: snoc chain_def lseg_append)
  moreover have "lseg ((nx s)(u := q)) q ws 0"
    using assms(2) \<open>u \<notin> set ws\<close> by (simp add: lseg_upd_other chain_def)
  ultimately have "lseg ((nx s)(u := q)) (hd_of s) (ys @ ws) 0"
    by (auto simp: snoc lseg_append lseg_upd_other)
  moreover have "distinct (ys @ ws)" "0 \<notin> set (ys @ ws)" using assms by (auto simp: chain_def)
  ultimately show ?thesis using \<open>u \<noteq> 0\<close> by (simp add: chain_def snoc set_link_def link_simps)
qed

lemma suffix_chain:
  assumes "chain (nx s) (hd_of s) (ys @ v # zs)"
  shows "chain (nx s) (nx s v) zs"
  using assms by (auto simp: chain_def lseg_append)

lemma unlink_found:
  assumes "chain (nx s) (hd_of s) (ys @ v # zs)"
  shows "list_unlink hd_of nx set_hd set_nx v s = Some (True, set_link set_hd set_nx (last (0 # ys)) (nx s v) s)"
    and "chain (nx (set_link set_hd set_nx (last (0 # ys)) (nx s v) s))
           (hd_of (set_link set_hd set_nx (last (0 # ys)) (nx s v) s)) (ys @ zs)"
proof -
  have "chase (nx s) (\<lambda>p. p = 0 \<or> p = v) 0 (hd_of s) = Some (last (0 # ys), v)"
    using assms by (intro chase_chain_find [where zs = zs]) (auto simp: chain_def)
  then show "list_unlink hd_of nx set_hd set_nx v s = Some (True, set_link set_hd set_nx (last (0 # ys)) (nx s v) s)"
    by (simp add: list_unlink_def)
  show "chain (nx (set_link set_hd set_nx (last (0 # ys)) (nx s v) s))
          (hd_of (set_link set_hd set_nx (last (0 # ys)) (nx s v) s)) (ys @ zs)"
    using assms suffix_chain [OF assms] by (intro relink) (auto simp: chain_def)
qed

lemma unlink_absent:
  assumes "chain (nx s) (hd_of s) xs" and "v \<notin> set xs" and "v \<noteq> 0"
  shows "list_unlink hd_of nx set_hd set_nx v s = Some (False, s)"
proof -
  have "chase (nx s) (\<lambda>p. p = 0 \<or> p = v) 0 (hd_of s) = Some (last (0 # xs), 0)"
    using assms by (intro chase_chain_end) auto
  then show ?thesis using assms(3) by (simp add: list_unlink_def)
qed

lemma set_link_other: "u \<notin> set ys \<Longrightarrow> nx (set_link set_hd set_nx (last (0 # ys)) v s) u = nx s u"
  by (cases ys rule: rev_cases) (auto simp: set_link_def link_simps)

lemma unlink:
  assumes "chain (nx s) (hd_of s) xs" and "v \<noteq> 0"
  shows "\<exists>s'. list_unlink hd_of nx set_hd set_nx v s = Some (v \<in> set xs, s') \<and>
    chain (nx s') (hd_of s') (remove1 v xs) \<and> (\<forall>u. u \<notin> set xs \<longrightarrow> nx s' u = nx s u)"
proof (cases "v \<in> set xs")
  case True
  then obtain ys zs where xs: "xs = ys @ v # zs" "v \<notin> set ys" by (meson split_list_first)
  have "remove1 v xs = ys @ zs" by (simp add: xs remove1_append)
  moreover have "chain (nx s) (hd_of s) (ys @ v # zs)" using assms(1) xs(1) by simp
  ultimately show ?thesis
    using unlink_found [of s ys v zs] True set_link_other [of _ ys "nx s v" s] by (simp add: xs)
next
  case False
  then show ?thesis using unlink_absent [of s xs v] assms by (simp add: remove1_idem)
qed

text \<open>Inserting behind the elements a walk passes.\<close>

lemma insert_at:
  assumes "chain (nx s) (hd_of s) (ys @ zs)" and "p \<noteq> 0" and "p \<notin> set (ys @ zs)"
    and "q = (case zs of [] \<Rightarrow> 0 | z # _ \<Rightarrow> z)"
  shows "chain (nx (set_link set_hd set_nx (last (0 # ys)) p (set_nx p q s)))
           (hd_of (set_link set_hd set_nx (last (0 # ys)) p (set_nx p q s))) (ys @ p # zs)"
proof (rule relink)
  have "chain (nx s) q zs"
    using assms(1,4) by (cases zs) (auto simp: chain_def lseg_append)
  then show "chain (nx (set_nx p q s)) p (p # zs)"
    using assms(2,3) by (simp add: chain_Cons chain_upd_other link_simps)
  show "chain (nx (set_nx p q s)) (hd_of (set_nx p q s)) (ys @ zs)"
    using assms(1,3) by (simp add: chain_upd_other link_simps)
  show "set ys \<inter> set (p # zs) = {}" using assms(1,3) by (auto simp: chain_def)
qed

end

end
