(* ===== verification/Objects.thy ===== *)
theory Objects
  imports Links Kalloc Paging Fs_Requests
begin

text \<open>
  The kernel objects of thread.h, process.h, ipc.h and file.h and the state they live in.  The
  objects of one type form a store indexed by their address, as the headers of the kernel heap
  do; the pages and heap blocks that carry them are accounted for by the physical memory manager
  and the heap, whose state the kernel state extends.  A null pointer is the address 0.
\<close>

section \<open>Threads\<close>

datatype thread_state = TASK_READY | TASK_RUNNING | TASK_BLOCKED | TASK_ZOMBIE | TASK_DEAD

datatype thread_lifecycle =
    THREAD_JOINABLE_RUNNING
  | THREAD_JOINABLE_ZOMBIE
  | THREAD_DETACHED_RUNNING
  | THREAD_DETACHED_ZOMBIE
  | THREAD_REAPED

definition IPC_ANY :: int where "IPC_ANY = -1"

record message =
  source_pid :: u32
  msg_type :: u32
  msg_value :: u64

record thread =
  rsp :: u64
  user_rsp :: u64
  object_paddr :: u64
  stack_base :: u64
  tid :: u32
  ticks :: u32
  priority :: u32
  sched_next :: u64
  status :: thread_state
  waiting_lock :: u64
  kernel_stack_top :: u64
  user_stack_base :: u64
  user_stack_top :: u64
  user_stack_paddr :: u64
  tls_base :: u64
  tls_paddr :: u64
  exit_status :: int
  thread_process :: u64
  process_next :: u64
  join_waiter :: u64
  lifecycle :: thread_lifecycle
  lifecycle_claimed :: bool
  futex_waiting :: bool
  futex_bucket :: u32
  futex_result :: int
  futex_process :: u64
  futex_uaddr :: u64
  futex_prev :: u64
  futex_next :: u64
  ipc_sending :: bool
  ipc_receiving :: bool
  ipc_receive_from :: int
  ipc_status :: int
  ipc_message :: message
  ipc_waiting_for :: u64
  ipc_sender_head :: u64
  ipc_sender_tail :: u64
  ipc_next_sender :: u64
  wake_tick :: u64
  sleeping :: bool
  sleep_next :: u64

text \<open>A thread object after \<^verbatim>\<open>memset(thread, 0, PAGE_SIZE)\<close>.\<close>

definition zero_thread :: thread where
  "zero_thread =
     \<lparr>rsp = 0, user_rsp = 0, object_paddr = 0, stack_base = 0, tid = 0, ticks = 0, priority = 0,
      sched_next = 0, status = TASK_READY, waiting_lock = 0, kernel_stack_top = 0,
      user_stack_base = 0, user_stack_top = 0, user_stack_paddr = 0, tls_base = 0, tls_paddr = 0,
      exit_status = 0, thread_process = 0, process_next = 0, join_waiter = 0,
      lifecycle = THREAD_JOINABLE_RUNNING, lifecycle_claimed = False, futex_waiting = False,
      futex_bucket = 0, futex_result = 0, futex_process = 0, futex_uaddr = 0, futex_prev = 0,
      futex_next = 0, ipc_sending = False, ipc_receiving = False, ipc_receive_from = 0,
      ipc_status = 0, ipc_message = \<lparr>source_pid = 0, msg_type = 0, msg_value = 0\<rparr>,
      ipc_waiting_for = 0, ipc_sender_head = 0, ipc_sender_tail = 0, ipc_next_sender = 0,
      wake_tick = 0, sleeping = False, sleep_next = 0\<rparr>"

section \<open>Processes, memory areas and files\<close>

datatype process_state = PROCESS_RUNNING | PROCESS_ZOMBIE | PROCESS_DEAD

definition MAX_OPEN_FILES :: nat where "MAX_OPEN_FILES = 32"
definition STD_FILE_COUNT :: nat where "STD_FILE_COUNT = 3"

record vm_area =
  vma_start :: u64
  vma_end :: u64
  vma_flags :: u64
  vma_file :: u64
  vma_offset :: u64
  vma_next :: u64

record process =
  proc_paddr :: u64
  pid :: u32
  proc_state :: process_state
  proc_exit_status :: int
  exit_waited :: bool
  cr3_paddr :: u64
  parent :: u64
  child_head :: u64
  sibling_next :: u64
  next_all :: u64
  main_thread :: u64
  thread_head :: u64
  thread_count :: u32
  next_thread_stack_top :: u64
  next_thread_tls_top :: u64
  next_mmap_base :: u64
  cwd_inode :: u32
  cwd_path :: c_string
  vma_head :: u64
  exit_requested :: bool
  kill_status :: int
  terminal_controller :: bool
  proc_name :: c_string
  stdio :: "u64 list"
  files :: "u64 list"

definition zero_process :: process where
  "zero_process =
     \<lparr>proc_paddr = 0, pid = 0, proc_state = PROCESS_RUNNING, proc_exit_status = 0,
      exit_waited = False, cr3_paddr = 0, parent = 0, child_head = 0, sibling_next = 0, next_all = 0,
      main_thread = 0, thread_head = 0, thread_count = 0, next_thread_stack_top = 0,
      next_thread_tls_top = 0, next_mmap_base = 0, cwd_inode = 0, cwd_path = [], vma_head = 0,
      exit_requested = False, kill_status = 0, terminal_controller = False, proc_name = [],
      stdio = replicate STD_FILE_COUNT 0, files = replicate MAX_OPEN_FILES 0\<rparr>"

datatype file_object_kind = FILE_OBJECT_REGULAR | FILE_OBJECT_PIPE_READ | FILE_OBJECT_PIPE_WRITE

definition PIPE_CAPACITY :: nat where "PIPE_CAPACITY = 4096"

record pipe_object =
  pipe_data :: "nat \<Rightarrow> u8"
  pipe_head :: u32
  pipe_tail :: u32
  pipe_count :: u32
  pipe_readers :: u32
  pipe_writers :: u32

record file_object =
  file_refs :: u32
  file_inode_nr :: u32
  file_offset :: u64
  file_flags :: u32
  file_kind :: file_object_kind
  file_pipe :: u64

section \<open>The kernel state\<close>

text \<open>
  The registers of the CPU that the kernel saves and loads when it switches threads: the stack
  pointer and the callee-saved registers, the interrupt flag, the two per-CPU stack slots of
  \<^verbatim>\<open>current_cpu\<close>, the stack of the task state segment, CR3 and the FS base.
\<close>

record cpu =
  reg_rsp :: u64
  reg_rbp :: u64
  reg_rbx :: u64
  reg_r12 :: u64
  reg_r13 :: u64
  reg_r14 :: u64
  reg_r15 :: u64
  reg_rip :: u64
  cpu_if :: bool
  cpu_kernel_rsp :: u64
  cpu_user_rsp :: u64
  cpu_tss_rsp0 :: u64
  cpu_cr3 :: u64
  cpu_fs_base :: u64

text \<open>The link-time addresses of the assembly routines a new thread starts in.\<close>

record entry_points =
  return_to_user :: u64
  return_to_user_with_arg :: u64
  syscall_child_return :: u64

record kern = heap +
  thread_at :: "u64 \<Rightarrow> thread"
  process_at :: "u64 \<Rightarrow> process"
  vma_at :: "u64 \<Rightarrow> vm_area"
  file_at :: "u64 \<Rightarrow> file_object"
  pipe_at :: "u64 \<Rightarrow> pipe_object"
  current_thread :: u64
  next_tid :: u32
  preempt_disable_count :: u32
  need_resched :: bool
  kernel_process :: u64
  process_list :: u64
  next_pid :: u32
  system_ticks :: u64
  sleep_head :: u64
  futex_head :: "nat \<Rightarrow> u64"
  waiter_count :: u32
  active_file_objects :: u32
  active_pipe_objects :: u32
  foreground_pid :: u32
  tty_initialized :: bool
  the_cpu :: cpu
  the_fs :: fs
  entries :: entry_points

text \<open>
  The static data of the kernel before any thread or process exists: every variable is zero but
  the two counters that number threads and processes.
\<close>

definition zero_cpu :: cpu where
  "zero_cpu = \<lparr>reg_rsp = 0, reg_rbp = 0, reg_rbx = 0, reg_r12 = 0, reg_r13 = 0, reg_r14 = 0, reg_r15 = 0, reg_rip = 0,
     cpu_if = False, cpu_kernel_rsp = 0, cpu_user_rsp = 0, cpu_tss_rsp0 = 0, cpu_cr3 = 0, cpu_fs_base = 0\<rparr>"

definition start_kern :: "heap \<Rightarrow> fs \<Rightarrow> entry_points \<Rightarrow> kern" where
  "start_kern h f e = heap.extend h
     \<lparr>thread_at = (\<lambda>_. zero_thread), process_at = (\<lambda>_. zero_process),
      vma_at = (\<lambda>_. \<lparr>vma_start = 0, vma_end = 0, vma_flags = 0, vma_file = 0, vma_offset = 0, vma_next = 0\<rparr>),
      file_at = (\<lambda>_. \<lparr>file_refs = 0, file_inode_nr = 0, file_offset = 0, file_flags = 0,
                       file_kind = FILE_OBJECT_REGULAR, file_pipe = 0\<rparr>),
      pipe_at = (\<lambda>_. \<lparr>pipe_data = (\<lambda>_. 0), pipe_head = 0, pipe_tail = 0, pipe_count = 0,
                       pipe_readers = 0, pipe_writers = 0\<rparr>),
      current_thread = 0, next_tid = 1, preempt_disable_count = 0, need_resched = False,
      kernel_process = 0, process_list = 0, next_pid = 1, system_ticks = 0, sleep_head = 0,
      futex_head = (\<lambda>_. 0), waiter_count = 0, active_file_objects = 0, active_pipe_objects = 0,
      foreground_pid = 0, tty_initialized = False, the_cpu = zero_cpu, the_fs = f, entries = e\<rparr>"

text \<open>\<^verbatim>\<open>t->field = ...\<close>\<close>

definition upd_thread :: "u64 \<Rightarrow> (thread \<Rightarrow> thread) \<Rightarrow> kern \<Rightarrow> kern" where
  "upd_thread t f s = s\<lparr>thread_at := (thread_at s)(t := f (thread_at s t))\<rparr>"

definition upd_process :: "u64 \<Rightarrow> (process \<Rightarrow> process) \<Rightarrow> kern \<Rightarrow> kern" where
  "upd_process p f s = s\<lparr>process_at := (process_at s)(p := f (process_at s p))\<rparr>"

definition upd_vma :: "u64 \<Rightarrow> (vm_area \<Rightarrow> vm_area) \<Rightarrow> kern \<Rightarrow> kern" where
  "upd_vma p f s = s\<lparr>vma_at := (vma_at s)(p := f (vma_at s p))\<rparr>"

definition upd_file :: "u64 \<Rightarrow> (file_object \<Rightarrow> file_object) \<Rightarrow> kern \<Rightarrow> kern" where
  "upd_file p f s = s\<lparr>file_at := (file_at s)(p := f (file_at s p))\<rparr>"

definition upd_pipe :: "u64 \<Rightarrow> (pipe_object \<Rightarrow> pipe_object) \<Rightarrow> kern \<Rightarrow> kern" where
  "upd_pipe p f s = s\<lparr>pipe_at := (pipe_at s)(p := f (pipe_at s p))\<rparr>"

lemmas upd_defs = upd_thread_def upd_process_def upd_vma_def upd_file_def upd_pipe_def

lemma thread_at_upd [simp]:
  "thread_at (upd_thread t f s) = (thread_at s)(t := f (thread_at s t))"
  by (simp add: upd_thread_def)

lemma process_at_upd [simp]:
  "process_at (upd_process p f s) = (process_at s)(p := f (process_at s p))"
  by (simp add: upd_process_def)

lemma upd_thread_frame [simp]:
  "process_at (upd_thread t f s) = process_at s" "current_thread (upd_thread t f s) = current_thread s"
  "kernel_process (upd_thread t f s) = kernel_process s" "process_list (upd_thread t f s) = process_list s"
  "sleep_head (upd_thread t f s) = sleep_head s" "system_ticks (upd_thread t f s) = system_ticks s"
  "futex_head (upd_thread t f s) = futex_head s" "waiter_count (upd_thread t f s) = waiter_count s"
  "need_resched (upd_thread t f s) = need_resched s" "the_cpu (upd_thread t f s) = the_cpu s"
  "preempt_disable_count (upd_thread t f s) = preempt_disable_count s" "pipe_at (upd_thread t f s) = pipe_at s"
  "file_at (upd_thread t f s) = file_at s" "vma_at (upd_thread t f s) = vma_at s"
  by (simp_all add: upd_thread_def)

lemma upd_process_frame [simp]:
  "thread_at (upd_process t f s) = thread_at s" "current_thread (upd_process t f s) = current_thread s"
  "kernel_process (upd_process t f s) = kernel_process s" "process_list (upd_process t f s) = process_list s"
  "vma_at (upd_process t f s) = vma_at s" "the_cpu (upd_process t f s) = the_cpu s"
  "need_resched (upd_process t f s) = need_resched s" "sleep_head (upd_process t f s) = sleep_head s"
  "preempt_disable_count (upd_process t f s) = preempt_disable_count s"
  "futex_head (upd_process t f s) = futex_head s" "waiter_count (upd_process t f s) = waiter_count s"
  "pipe_at (upd_process t f s) = pipe_at s" "file_at (upd_process t f s) = file_at s"
  by (simp_all add: upd_process_def)

text \<open>What an operation of the memory manager leaves alone.\<close>

lemma kern_more:
  assumes "pmm.more s' = pmm.more (s :: kern)"
  shows "thread_at s' = thread_at s" "process_at s' = process_at s" "vma_at s' = vma_at s"
    "file_at s' = file_at s" "pipe_at s' = pipe_at s" "current_thread s' = current_thread s"
    "next_tid s' = next_tid s" "preempt_disable_count s' = preempt_disable_count s"
    "need_resched s' = need_resched s" "kernel_process s' = kernel_process s"
    "process_list s' = process_list s" "next_pid s' = next_pid s" "the_cpu s' = the_cpu s"
    "the_fs s' = the_fs s" "sleep_head s' = sleep_head s" "system_ticks s' = system_ticks s"
    "futex_head s' = futex_head s" "waiter_count s' = waiter_count s"
  using assms by (cases s; cases s'; simp)+

end
