(* ===== verification/Threads.thy ===== *)
theory Threads
  imports Objects "HOL-Library.Monad_Syntax"
begin

text \<open>
  Thread objects and the scheduler ring of kernel/thread.c, the sleep queue of kernel/timer.c
  they are taken from when they are freed, and the register switch of kernel/switch.S.  A
  function that may loop for ever or stop in a failed \<^verbatim>\<open>ASSERT\<close> has an optional result, with \<open>None\<close>
  for not returning.
\<close>

section \<open>The scheduler ring\<close>

abbreviation ring_next :: "kern \<Rightarrow> u64 \<Rightarrow> u64" where
  "ring_next s t \<equiv> sched_next (thread_at s t)"

definition set_sched_next :: "u64 \<Rightarrow> u64 \<Rightarrow> kern \<Rightarrow> kern" where
  "set_sched_next t v = upd_thread t (sched_next_update (\<lambda>_. v))"

definition set_status :: "u64 \<Rightarrow> thread_state \<Rightarrow> kern \<Rightarrow> kern" where
  "set_status t v = upd_thread t (status_update (\<lambda>_. v))"

definition thread_in_scheduler_ring :: "u64 \<Rightarrow> kern \<Rightarrow> bool option" where
  "thread_in_scheduler_ring wanted s =
     (let cur = current_thread s in
      if wanted = 0 \<or> cur = 0 then Some False
      else if cur = wanted then Some True
      else do {
        (_, p) \<leftarrow> chase (ring_next s) (\<lambda>p. p = cur \<or> p = wanted) cur (ring_next s cur);
        Some (p = wanted)
      })"

definition thread_append :: "u64 \<Rightarrow> kern \<Rightarrow> kern option" where
  "thread_append new_thread s =
     do {
       dup \<leftarrow> (if new_thread = 0 \<or> status (thread_at s new_thread) \<noteq> TASK_READY then Some True
               else thread_in_scheduler_ring new_thread s);
       let cur = current_thread s;
       if dup then Some s
       else if cur = 0 then
         Some (set_status new_thread TASK_RUNNING
                 (set_sched_next new_thread new_thread (s\<lparr>current_thread := new_thread\<rparr>)))
       else do {
         (_, tail) \<leftarrow> chase (ring_next s) (\<lambda>p. ring_next s p = cur) 0 cur;
         Some (set_sched_next new_thread cur (set_sched_next tail new_thread s))
       }
     }"

definition thread_remove_from_scheduler :: "u64 \<Rightarrow> kern \<Rightarrow> kern option" where
  "thread_remove_from_scheduler victim s =
     (let cur = current_thread s in
      if victim = 0 \<or> cur = 0 \<or> victim = cur then Some s
      else do {
        (_, previous) \<leftarrow> chase (ring_next s) (\<lambda>p. ring_next s p = cur \<or> ring_next s p = victim) 0 cur;
        Some (if ring_next s previous = victim
              then set_sched_next victim 0 (set_sched_next previous (ring_next s victim) s) else s)
      })"

text \<open>The members of the ring from the current thread on, as the memory manager walks them.\<close>

definition ring_members :: "kern \<Rightarrow> u64 list option" where
  "ring_members s =
     (let cur = current_thread s in
      if cur = 0 then Some []
      else each (\<lambda>_. ring_next s) (\<lambda>p _. p = cur) (\<lambda>p xs. Some (xs @ [p])) (ring_next s cur) [cur])"

definition with_ring :: "kern \<Rightarrow> kern option" where
  "with_ring s =
     do {
       ts \<leftarrow> ring_members s;
       Some (s\<lparr>live_threads := map (\<lambda>t. \<lparr>lt_object_paddr = object_paddr (thread_at s t),
                                        lt_stack_base = stack_base (thread_at s t)\<rparr>) ts\<rparr>)
     }"

text \<open>Calls into the memory manager, which looks at the ring before it hands out or takes back a page.\<close>

definition k_alloc_page :: "page_owner \<Rightarrow> kern \<Rightarrow> (u64 \<times> kern) option" where
  "k_alloc_page ow s = do { s1 \<leftarrow> with_ring s; Some (alloc_page_owned ow s1) }"

definition k_free_page :: "u64 \<Rightarrow> page_owner \<Rightarrow> kern \<Rightarrow> (int \<times> kern) option" where
  "k_free_page paddr ow s = do { s1 \<leftarrow> with_ring s; Some (free_page_owned paddr ow s1) }"

section \<open>Threads of a process\<close>

definition set_thread_head :: "u64 \<Rightarrow> u64 \<Rightarrow> kern \<Rightarrow> kern" where
  "set_thread_head p v = upd_process p (thread_head_update (\<lambda>_. v))"

definition set_process_next :: "u64 \<Rightarrow> u64 \<Rightarrow> kern \<Rightarrow> kern" where
  "set_process_next t v = upd_thread t (process_next_update (\<lambda>_. v))"

definition is_live :: "thread_state \<Rightarrow> bool" where
  "is_live st \<longleftrightarrow> st \<noteq> TASK_ZOMBIE \<and> st \<noteq> TASK_DEAD"

definition process_live_thread_count :: "u64 \<Rightarrow> kern \<Rightarrow> u32 option" where
  "process_live_thread_count p s =
     (if p = 0 then Some 0
      else each (\<lambda>_ t. process_next (thread_at s t)) (\<lambda>t _. t = 0)
             (\<lambda>t live. Some (if is_live (status (thread_at s t)) then live + 1 else live))
             (thread_head (process_at s p)) 0)"

definition link_thread_to_process :: "u64 \<Rightarrow> u64 \<Rightarrow> kern \<Rightarrow> kern" where
  "link_thread_to_process p t s =
     (if p = 0 \<or> t = 0 then s
      else let s1 = upd_thread t (\<lambda>x. x\<lparr>thread_process := p, process_next := thread_head (process_at s p)\<rparr>) s;
               s2 = upd_process p (\<lambda>x. x\<lparr>thread_head := t, thread_count := thread_count x + 1\<rparr>) s1
           in if main_thread (process_at s2 p) = 0 then upd_process p (main_thread_update (\<lambda>_. t)) s2 else s2)"

definition unlink_thread_from_process :: "u64 \<Rightarrow> kern \<Rightarrow> kern option" where
  "unlink_thread_from_process victim s =
     (let p = thread_process (thread_at s victim) in
      if victim = 0 \<or> p = 0 then Some s
      else do {
        (found, s1) \<leftarrow> list_unlink (\<lambda>s. thread_head (process_at s p)) (\<lambda>s t. process_next (thread_at s t))
                         (set_thread_head p) set_process_next victim s;
        let s2 = (if found then
                    upd_process p (\<lambda>x. x\<lparr>main_thread := (if main_thread x = victim then thread_head x else main_thread x),
                                         thread_count := (if thread_count x \<noteq> 0 then thread_count x - 1 else thread_count x)\<rparr>) s1
                  else s1);
        Some (upd_thread victim (\<lambda>x. x\<lparr>process_next := 0, thread_process := 0\<rparr>) s2)
      })"

definition thread_find_by_tid :: "u64 \<Rightarrow> u32 \<Rightarrow> kern \<Rightarrow> u64 option" where
  "thread_find_by_tid p wanted s =
     (if p = 0 \<or> wanted = 0 then Some 0
      else do {
        (_, t) \<leftarrow> chase (\<lambda>t. process_next (thread_at s t)) (\<lambda>t. t = 0 \<or> tid (thread_at s t) = wanted) 0
                    (thread_head (process_at s p));
        Some t
      })"

section \<open>The sleep queue of timer.c\<close>

definition set_sleep_head :: "u64 \<Rightarrow> kern \<Rightarrow> kern" where
  "set_sleep_head v s = s\<lparr>sleep_head := v\<rparr>"

definition set_sleep_next :: "u64 \<Rightarrow> u64 \<Rightarrow> kern \<Rightarrow> kern" where
  "set_sleep_next t v = upd_thread t (sleep_next_update (\<lambda>_. v))"

abbreviation sleep_link :: "kern \<Rightarrow> u64 \<Rightarrow> u64" where
  "sleep_link s t \<equiv> sleep_next (thread_at s t)"

definition sleep_unlink_locked :: "u64 \<Rightarrow> kern \<Rightarrow> kern option" where
  "sleep_unlink_locked victim s =
     do {
       (_, s1) \<leftarrow> list_unlink sleep_head sleep_link set_sleep_head set_sleep_next victim s;
       Some (upd_thread victim (\<lambda>x. x\<lparr>sleep_next := 0, sleeping := False\<rparr>) s1)
     }"

definition timer_cancel_thread_sleep :: "u64 \<Rightarrow> kern \<Rightarrow> kern option" where
  "timer_cancel_thread_sleep t s =
     (if t = 0 \<or> \<not> sleeping (thread_at s t) then Some s else sleep_unlink_locked t s)"

section \<open>Thread objects\<close>

definition thread_alloc_for_process :: "u64 \<Rightarrow> u32 \<Rightarrow> kern \<Rightarrow> (u64 \<times> kern) option" where
  "thread_alloc_for_process p prio s =
     do {
       (object, s1) \<leftarrow> k_alloc_page PAGE_OWNER_THREAD s;
       if object = 0 then Some (0, s1)
       else do {
         (stack, s2) \<leftarrow> k_alloc_page PAGE_OWNER_THREAD s1;
         if stack = 0 then do { (_, s3) \<leftarrow> k_free_page object PAGE_OWNER_THREAD s2; Some (0, s3) }
         else
           let t = P2V object;
               s3 = upd_thread t (\<lambda>_. zero_thread
                      \<lparr>object_paddr := object, stack_base := P2V stack, ticks := prio, priority := prio,
                       status := TASK_READY, lifecycle := THREAD_JOINABLE_RUNNING, tid := next_tid s2,
                       ipc_receive_from := IPC_ANY\<rparr>) s2
           in Some (t, link_thread_to_process p t (s3\<lparr>next_tid := next_tid s2 + 1\<rparr>))
       }
     }"

text \<open>Giving back the two user pages of a thread; a failure is only reported.\<close>

definition unmap_thread_pages :: "u64 \<Rightarrow> kern \<Rightarrow> kern option" where
  "unmap_thread_pages t s =
     (let p = thread_process (thread_at s t); cr3 = cr3_paddr (process_at s p) in
      if p = 0 \<or> cr3 = 0 then Some s
      else do {
        s0 \<leftarrow> with_ring s;
        let s1 = (if user_stack_paddr (thread_at s t) \<noteq> 0
                  then snd (unmap_user_page cr3 (user_stack_base (thread_at s t)) PAGE_OWNER_USER s0) else s0);
        Some (if tls_paddr (thread_at s t) \<noteq> 0
              then snd (unmap_user_page cr3 (tls_base (thread_at s t)) PAGE_OWNER_USER s1) else s1)
      })"

definition thread_free_object :: "u64 \<Rightarrow> kern \<Rightarrow> kern option" where
  "thread_free_object t s =
     (if t = 0 then Some s
      else do {
        in_ring \<leftarrow> thread_in_scheduler_ring t s;
        if t = current_thread s \<or> in_ring then None
        else do {
          s1 \<leftarrow> timer_cancel_thread_sleep t s;
          let object = object_paddr (thread_at s1 t);
          let stack = (if stack_base (thread_at s1 t) = 0 then 0 else V2P (stack_base (thread_at s1 t)));
          s2 \<leftarrow> unmap_thread_pages t s1;
          s3 \<leftarrow> unlink_thread_from_process t (upd_thread t (\<lambda>x. x\<lparr>user_stack_paddr := 0, tls_paddr := 0\<rparr>) s2);
          let s4 = upd_thread t (\<lambda>x. x\<lparr>object_paddr := 0, stack_base := 0\<rparr>) s3;
          (_, s5) \<leftarrow> (if stack \<noteq> 0 then k_free_page stack PAGE_OWNER_THREAD s4 else Some (0, s4));
          (_, s6) \<leftarrow> (if object \<noteq> 0 then k_free_page object PAGE_OWNER_THREAD s5 else Some (0, s5));
          Some s6
        }
      })"

definition thread_unblock :: "u64 \<Rightarrow> kern \<Rightarrow> kern" where
  "thread_unblock t s =
     (if t = 0 \<or> status (thread_at s t) \<noteq> TASK_BLOCKED then s
      else upd_thread t (\<lambda>x. x\<lparr>waiting_lock := 0, status := TASK_READY\<rparr>) s)"

definition reap_kernel_thread :: "u64 \<Rightarrow> kern \<Rightarrow> kern option" where
  "reap_kernel_thread victim s =
     (if victim = 0 \<or> victim = current_thread s \<or> status (thread_at s victim) \<noteq> TASK_ZOMBIE then Some s
      else do {
        s1 \<leftarrow> thread_remove_from_scheduler victim s;
        thread_free_object victim (upd_thread victim (\<lambda>x. x\<lparr>status := TASK_DEAD, lifecycle := THREAD_REAPED\<rparr>) s1)
      })"

definition reap_detached_one :: "u64 \<Rightarrow> kern \<Rightarrow> kern option" where
  "reap_detached_one scan s =
     (if status (thread_at s scan) = TASK_ZOMBIE \<and> lifecycle (thread_at s scan) = THREAD_DETACHED_ZOMBIE then do {
        s1 \<leftarrow> thread_remove_from_scheduler scan s;
        thread_free_object scan (upd_thread scan (\<lambda>x. x\<lparr>status := TASK_DEAD, lifecycle := THREAD_REAPED\<rparr>) s1)
      } else Some s)"

definition thread_reap_detached :: "kern \<Rightarrow> kern option" where
  "thread_reap_detached s =
     (let cur = current_thread s in
      if cur = 0 then Some s
      else each ring_next (\<lambda>p _. p = cur) reap_detached_one (ring_next s cur) s)"

section \<open>Kernel stacks and the register switch\<close>

definition kload :: "u64 \<Rightarrow> kern \<Rightarrow> u64" where
  "kload va s = tbl s (V2P va) (unat (V2P va AND 0xFFF) div 8)"

definition kstore :: "u64 \<Rightarrow> u64 \<Rightarrow> kern \<Rightarrow> kern" where
  "kstore va v s = set_tbl (V2P va) (unat (V2P va AND 0xFFF) div 8) v s"

definition push_reg :: "u64 \<Rightarrow> kern \<Rightarrow> kern" where
  "push_reg v s =
     (let sp = reg_rsp (the_cpu s) - 8 in kstore sp v (s\<lparr>the_cpu := (the_cpu s)\<lparr>reg_rsp := sp\<rparr>\<rparr>))"

definition pop_reg :: "kern \<Rightarrow> u64 \<times> kern" where
  "pop_reg s =
     (let sp = reg_rsp (the_cpu s) in (kload sp s, s\<lparr>the_cpu := (the_cpu s)\<lparr>reg_rsp := sp + 8\<rparr>\<rparr>))"

text \<open>
  The call of \<^verbatim>\<open>switch_to\<close> pushes its return address; the routine saves the six callee-saved
  registers, exchanges the stack pointers and restores the registers of the other thread.
\<close>

definition switch_to :: "u64 \<Rightarrow> u64 \<Rightarrow> kern \<Rightarrow> kern" where
  "switch_to cur nxt s =
     (let c = the_cpu s;
          s1 = push_reg (reg_r15 c) (push_reg (reg_r14 c) (push_reg (reg_r13 c) (push_reg (reg_r12 c)
                 (push_reg (reg_rbx c) (push_reg (reg_rbp c) (push_reg (reg_rip c) s))))));
          s2 = upd_thread cur (rsp_update (\<lambda>_. reg_rsp (the_cpu s1))) s1;
          s3 = s2\<lparr>the_cpu := (the_cpu s2)\<lparr>reg_rsp := rsp (thread_at s2 nxt)\<rparr>\<rparr>;
          (r15, s4) = pop_reg s3; (r14, s5) = pop_reg s4; (r13, s6) = pop_reg s5; (r12, s7) = pop_reg s6;
          (rbx, s8) = pop_reg s7; (rbp, s9) = pop_reg s8; (rip, s10) = pop_reg s9
      in s10\<lparr>the_cpu := (the_cpu s10)\<lparr>reg_r15 := r15, reg_r14 := r14, reg_r13 := r13, reg_r12 := r12,
                                       reg_rbx := rbx, reg_rbp := rbp, reg_rip := rip\<rparr>\<rparr>)"

definition sizeof_thread_context :: u64 where "sizeof_thread_context = 56"

text \<open>A context with zeroed registers and a return address at \<open>sp\<close>.\<close>

definition store_context :: "u64 \<Rightarrow> u64 \<Rightarrow> kern \<Rightarrow> kern" where
  "store_context sp rip s = kstore (sp + 48) rip (fold (\<lambda>i. kstore (sp + 8 * of_nat i) 0) [0..<7] s)"

definition thread_create :: "u64 \<Rightarrow> u32 \<Rightarrow> kern \<Rightarrow> (u64 \<times> kern) option" where
  "thread_create fn prio s =
     do {
       (t, s1) \<leftarrow> thread_alloc_for_process (kernel_process s) prio s;
       if t = 0 then Some (0, s1)
       else
         let stack_top = stack_base (thread_at s1 t) + 4096 - sizeof_thread_context
         in Some (t, upd_thread t (rsp_update (\<lambda>_. stack_top)) (store_context stack_top fn s1))
     }"

end
