(* ===== verification/Areas.thy ===== *)
theory Areas
  imports Threads
begin

text \<open>
  Memory areas of a process (kernel/process.c): the sorted list of areas, anonymous mappings,
  their removal, and the growth of a stack on a page fault.
\<close>

section \<open>Flags\<close>

definition VM_READ :: u64 where "VM_READ = 1"
definition VM_WRITE :: u64 where "VM_WRITE = 2"
definition VM_EXEC :: u64 where "VM_EXEC = 4"
definition VM_GROWSDOWN :: u64 where "VM_GROWSDOWN = 8"
definition VM_ANON :: u64 where "VM_ANON = 16"
definition VM_PRIVATE :: u64 where "VM_PRIVATE = 32"

definition MMAP_PROT_READ :: u32 where "MMAP_PROT_READ = 1"
definition MMAP_PROT_WRITE :: u32 where "MMAP_PROT_WRITE = 2"
definition MMAP_PROT_EXEC :: u32 where "MMAP_PROT_EXEC = 4"
definition MMAP_MAP_PRIVATE :: u32 where "MMAP_MAP_PRIVATE = 0x02"
definition MMAP_MAP_ANON :: u32 where "MMAP_MAP_ANON = 0x20"

definition user_limit :: u64 where "user_limit = 0x0000800000000000"

definition sizeof_vm_area :: u64 where "sizeof_vm_area = 48"

section \<open>The list of areas\<close>

definition k_kmalloc :: "u64 \<Rightarrow> kern \<Rightarrow> (u64 \<times> kern) option" where
  "k_kmalloc n s = do { s1 \<leftarrow> with_ring s; kmalloc n s1 }"

definition k_kfree :: "u64 \<Rightarrow> kern \<Rightarrow> kern option" where
  "k_kfree p s = do { s1 \<leftarrow> with_ring s; (_, s2) \<leftarrow> kfree p s1; Some s2 }"

abbreviation area_next :: "kern \<Rightarrow> u64 \<Rightarrow> u64" where
  "area_next s a \<equiv> vma_next (vma_at s a)"

definition set_vma_head :: "u64 \<Rightarrow> u64 \<Rightarrow> kern \<Rightarrow> kern" where
  "set_vma_head p v = upd_process p (vma_head_update (\<lambda>_. v))"

definition set_vma_next :: "u64 \<Rightarrow> u64 \<Rightarrow> kern \<Rightarrow> kern" where
  "set_vma_next a v = upd_vma a (vma_next_update (\<lambda>_. v))"

definition process_free_vmas :: "u64 \<Rightarrow> kern \<Rightarrow> kern option" where
  "process_free_vmas p s =
     (if p = 0 then Some s
      else each area_next (\<lambda>a _. a = 0) k_kfree (vma_head (process_at s p)) (set_vma_head p 0 s))"

definition area_overlaps :: "u64 \<Rightarrow> u64 \<Rightarrow> vm_area \<Rightarrow> bool" where
  "area_overlaps start end' a \<longleftrightarrow> start < vma_end a \<and> vma_start a < end'"

definition vma_overlaps :: "u64 \<Rightarrow> u64 \<Rightarrow> u64 \<Rightarrow> kern \<Rightarrow> bool option" where
  "vma_overlaps p start end' s =
     do {
       (_, a) \<leftarrow> chase (area_next s) (\<lambda>a. a = 0 \<or> area_overlaps start end' (vma_at s a)) 0
                   (if p = 0 then 0 else vma_head (process_at s p));
       Some (a \<noteq> 0)
     }"

definition process_add_vma :: "u64 \<Rightarrow> u64 \<Rightarrow> u64 \<Rightarrow> u64 \<Rightarrow> u64 \<Rightarrow> kern \<Rightarrow> (int \<times> kern) option" where
  "process_add_vma p start end' flags offset s =
     do {
       overlap \<leftarrow> (if p = 0 \<or> start = 0 \<or> start \<ge> end' \<or> start AND 0xFFF \<noteq> 0 \<or> end' AND 0xFFF \<noteq> 0 \<or>
                      end' > user_limit then Some True
                   else vma_overlaps p start end' s);
       if overlap then Some (-1, s)
       else do {
         (area, s1) \<leftarrow> k_kmalloc sizeof_vm_area s;
         if area = 0 then Some (-1, s1)
         else do {
           let s2 = upd_vma area (\<lambda>_. \<lparr>vma_start = start, vma_end = end', vma_flags = flags, vma_file = 0,
                                      vma_offset = offset, vma_next = 0\<rparr>) s1;
           (prev, cur) \<leftarrow> chase (area_next s2) (\<lambda>a. a = 0 \<or> \<not> vma_start (vma_at s2 a) < start) 0
                            (vma_head (process_at s2 p));
           Some (0, set_link (set_vma_head p) set_vma_next prev area (set_vma_next area cur s2))
         }
       }
     }"

definition find_vma_locked :: "u64 \<Rightarrow> u64 \<Rightarrow> kern \<Rightarrow> u64 option" where
  "find_vma_locked p address s =
     do {
       (_, a) \<leftarrow> chase (area_next s)
                   (\<lambda>a. a = 0 \<or> address \<ge> vma_start (vma_at s a) \<and> address < vma_end (vma_at s a)) 0
                   (if p = 0 then 0 else vma_head (process_at s p));
       Some a
     }"

section \<open>Anonymous mappings\<close>

definition mmap_vm_flags :: "u32 \<Rightarrow> u64" where
  "mmap_vm_flags prot =
     VM_ANON OR VM_PRIVATE OR (if prot AND MMAP_PROT_READ \<noteq> 0 then VM_READ else 0) OR
     (if prot AND MMAP_PROT_WRITE \<noteq> 0 then VM_WRITE else 0) OR
     (if prot AND MMAP_PROT_EXEC \<noteq> 0 then VM_EXEC else 0)"

text \<open>The search for a hole above \<open>start\<close>: the inner \<open>None\<close> when the address space ends before one is found.\<close>

partial_function (option) find_hole :: "u64 \<Rightarrow> u64 \<Rightarrow> u64 \<Rightarrow> kern \<Rightarrow> u64 option option" where
  "find_hole p start len s =
     (case vma_overlaps p start (start + len) s of
        None \<Rightarrow> None
      | Some overlap \<Rightarrow>
          if \<not> overlap then Some (Some start)
          else if start + len > user_top \<or> len > user_limit - (start + len) then Some None
          else find_hole p (start + len) len s)"

definition map_one_page :: "u64 \<Rightarrow> u64 \<Rightarrow> u64 \<Rightarrow> nat \<Rightarrow> kern \<Rightarrow> loop_ctl \<times> kern" where
  "map_one_page cr3 start pte_flags i s =
     (case alloc_page_owned PAGE_OWNER_USER s of (page, s1) \<Rightarrow>
        if page = 0 then (Return, s1)
        else case map_page cr3 (start + of_nat i * 4096) page pte_flags s1 of (r, s2) \<Rightarrow>
          if r \<noteq> 0 then (Return, snd (free_page_owned page PAGE_OWNER_USER s2)) else (Continue, s2))"

text \<open>
  The loop of \<^verbatim>\<open>process_mmap\<close> over the pages, with the number of pages that were mapped, and the
  roll-back of a loop that failed at page \<open>i\<close>: the mapped pages and the area are given back.
\<close>

definition map_pages_loop :: "u64 \<Rightarrow> u64 \<Rightarrow> u64 \<Rightarrow> nat \<Rightarrow> kern \<Rightarrow> loop_ctl \<times> nat \<times> kern" where
  "map_pages_loop cr3 start pte_flags pages s =
     for_loop (\<lambda>i (n, s). case map_one_page cr3 start pte_flags i s of
                 (Continue, s1) \<Rightarrow> (Continue, Suc i, s1)
               | (c, s1) \<Rightarrow> (c, i, s1)) [0..<pages] (0, s)"

definition undo_mmap :: "u64 \<Rightarrow> u64 \<Rightarrow> nat \<Rightarrow> kern \<Rightarrow> kern option" where
  "undo_mmap p start i s =
     do {
       let s1 = fold (\<lambda>j s. snd (unmap_user_page (cr3_paddr (process_at s p)) (start + of_nat j * 4096)
                                   PAGE_OWNER_USER s)) [0..<i] s;
       (prev, area) \<leftarrow> chase (area_next s1) (\<lambda>a. a = 0 \<or> vma_start (vma_at s1 a) = start) 0
                         (vma_head (process_at s1 p));
       if area \<noteq> 0 then k_kfree area (set_link (set_vma_head p) set_vma_next prev (area_next s1 area) s1)
       else Some s1
     }"

definition mmap_refused :: "u64 \<Rightarrow> u64 \<Rightarrow> u64 \<Rightarrow> u32 \<Rightarrow> u32 \<Rightarrow> kern \<Rightarrow> bool" where
  "mmap_refused p hint len prot flags s \<longleftrightarrow>
     p = 0 \<or> p = kernel_process s \<or> len = 0 \<or>
     flags AND (MMAP_MAP_PRIVATE OR MMAP_MAP_ANON) \<noteq> MMAP_MAP_PRIVATE OR MMAP_MAP_ANON \<or>
     prot AND NOT (MMAP_PROT_READ OR MMAP_PROT_WRITE OR MMAP_PROT_EXEC) \<noteq> 0 \<or>
     (hint \<noteq> 0 \<and> hint AND 0xFFF \<noteq> 0) \<or> len > (- 1) - 0xFFF"

text \<open>The address of a mapping: the hint, or the first hole from the process's mapping base on.\<close>

definition mmap_place :: "u64 \<Rightarrow> u64 \<Rightarrow> u64 \<Rightarrow> kern \<Rightarrow> u64 option option" where
  "mmap_place p hint len s =
     (let start = (if hint \<noteq> 0 then hint else next_mmap_base (process_at s p)) in
      if start = 0 \<or> start > user_top \<or> len > user_limit - start then Some None
      else do {
        overlap \<leftarrow> vma_overlaps p start (start + len) s;
        if overlap \<or> start + len > user_limit then
          (if hint \<noteq> 0 then Some None else find_hole p start len s)
        else Some (Some start)
      })"

definition process_mmap ::
    "u64 \<Rightarrow> u64 \<Rightarrow> u64 \<Rightarrow> u32 \<Rightarrow> u32 \<Rightarrow> kern \<Rightarrow> (int \<times> u64 \<times> kern) option" where
  "process_mmap p hint len0 prot flags s =
     (let len = (len0 + 0xFFF) AND PTE_ADDR_MASK;
          pte_flags = (if prot AND MMAP_PROT_WRITE \<noteq> 0 then PTE_US OR PTE_RW else PTE_US) in
      if mmap_refused p hint len0 prot flags s \<or> len = 0 then Some (-1, 0, s)
      else do {
        place \<leftarrow> mmap_place p hint len s;
        case place of
          None \<Rightarrow> Some (-1, 0, s)
        | Some start \<Rightarrow> do {
            (r, s1) \<leftarrow> process_add_vma p start (start + len) (mmap_vm_flags prot) 0 s;
            if r \<noteq> 0 then Some (-1, 0, s1)
            else do {
              s2 \<leftarrow> with_ring s1;
              case map_pages_loop (cr3_paddr (process_at s2 p)) start pte_flags (unat (len div 4096)) s2 of
                (Continue, _, s3) \<Rightarrow>
                  Some (0, start, if hint = 0 then upd_process p (next_mmap_base_update (\<lambda>_. start + len + 4096)) s3 else s3)
              | (_, i, s3) \<Rightarrow> do { s4 \<leftarrow> undo_mmap p start i s3; Some (-1, 0, s4) }
            }
          }
      })"

text \<open>
  The loop of \<^verbatim>\<open>process_munmap\<close>: pages whose table exists are unmapped; \<open>Return\<close> when that fails.
\<close>

definition unmap_one_page :: "u64 \<Rightarrow> u64 \<Rightarrow> nat \<Rightarrow> kern \<Rightarrow> loop_ctl \<times> kern" where
  "unmap_one_page cr3 address i s =
     (let page = address + of_nat i * 4096 in
      if get_user_pte cr3 page s \<noteq> None then
        case unmap_user_page cr3 page PAGE_OWNER_USER s of (r, s1) \<Rightarrow>
          if r \<noteq> 0 then (Return, s1) else (Continue, s1)
      else (Continue, s))"

definition cut_area :: "u64 \<Rightarrow> u64 \<Rightarrow> u64 \<Rightarrow> u64 \<Rightarrow> u64 \<Rightarrow> kern \<Rightarrow> kern option" where
  "cut_area p area suffix address end' s =
     (if suffix \<noteq> 0 then Some (upd_vma area (\<lambda>a. a\<lparr>vma_end := address, vma_next := suffix\<rparr>) s)
      else if address = vma_start (vma_at s area) \<and> end' = vma_end (vma_at s area) then do {
        (_, s1) \<leftarrow> list_unlink (\<lambda>s. vma_head (process_at s p)) area_next (set_vma_head p) set_vma_next area s;
        k_kfree area s1
      }
      else if address = vma_start (vma_at s area) then Some (upd_vma area (vma_start_update (\<lambda>_. end')) s)
      else Some (upd_vma area (vma_end_update (\<lambda>_. address)) s))"

definition make_suffix :: "u64 \<Rightarrow> u64 \<Rightarrow> u64 \<Rightarrow> kern \<Rightarrow> ((bool \<times> u64) \<times> kern) option" where
  "make_suffix area address end' s =
     (if address > vma_start (vma_at s area) \<and> end' < vma_end (vma_at s area) then do {
        (suffix, s1) \<leftarrow> k_kmalloc sizeof_vm_area s;
        if suffix = 0 then Some ((False, 0), s1)
        else Some ((True, suffix), upd_vma suffix (\<lambda>_. (vma_at s1 area)\<lparr>vma_start := end'\<rparr>) s1)
      } else Some ((True, 0), s))"

definition process_munmap :: "u64 \<Rightarrow> u64 \<Rightarrow> u64 \<Rightarrow> kern \<Rightarrow> (int \<times> kern) option" where
  "process_munmap p address len0 s =
     (let len = (len0 + 0xFFF) AND PTE_ADDR_MASK; end' = address + len in
      if p = 0 \<or> address = 0 \<or> address AND 0xFFF \<noteq> 0 \<or> len0 = 0 \<or> len0 > (- 1) - 0xFFF \<or>
         len = 0 \<or> address > (- 1) - len then Some (-1, s)
      else do {
        area \<leftarrow> find_vma_locked p address s;
        let a = vma_at s area;
        if area = 0 \<or> end' > vma_end a \<or> vma_flags a AND VM_ANON = 0 \<or> vma_flags a AND VM_GROWSDOWN \<noteq> 0
        then Some (-1, s)
        else do {
          ((ok, suffix), s1) \<leftarrow> make_suffix area address end' s;
          if \<not> ok then Some (-1, s1)
          else do {
            s2 \<leftarrow> with_ring s1;
            case for_loop (unmap_one_page (cr3_paddr (process_at s2 p)) address) [0..<unat (len div 4096)] s2 of
              (Continue, s3) \<Rightarrow> do { s4 \<leftarrow> cut_area p area suffix address end' s3; Some (0, s4) }
            | (_, s3) \<Rightarrow> do { s4 \<leftarrow> (if suffix \<noteq> 0 then k_kfree suffix s3 else Some s3); Some (-1, s4) }
          }
        }
      })"

definition process_handle_page_fault :: "u64 \<Rightarrow> u64 \<Rightarrow> u64 \<Rightarrow> kern \<Rightarrow> (int \<times> kern) option" where
  "process_handle_page_fault p address0 error_code s =
     (if p = 0 \<or> address0 = 0 \<or> address0 > user_top then Some (-1, s)
      else do {
        let address = address0 AND PTE_ADDR_MASK;
        let cr3 = cr3_paddr (process_at s p);
        area \<leftarrow> find_vma_locked p address s;
        let flags = vma_flags (vma_at s area);
        if area = 0 \<or> flags AND VM_GROWSDOWN = 0 \<or>
           (case get_user_pte cr3 address s of None \<Rightarrow> False | Some (pt, i) \<Rightarrow> tbl s pt i AND PTE_P \<noteq> 0) \<or>
           (error_code AND 0x2 \<noteq> 0 \<and> flags AND VM_WRITE = 0)
        then Some (-1, s)
        else do {
          (page, s1) \<leftarrow> k_alloc_page PAGE_OWNER_USER s;
          if page = 0 then Some (-1, s1)
          else case map_page cr3 address page (PTE_US OR (if flags AND VM_WRITE \<noteq> 0 then PTE_RW else 0)) s1 of
            (r, s2) \<Rightarrow>
              if r \<noteq> 0 then Some (-1, snd (free_page_owned page PAGE_OWNER_USER s2)) else Some (0, s2)
        }
      })"

end
