(* ===== verification/Processes.thy ===== *)
theory Processes
  imports Areas
begin

text \<open>
  Process objects of kernel/process.c: allocation, the list of all processes, parents and
  children, creation of processes and threads, and reaping.
\<close>

section \<open>Process objects\<close>

definition init_process :: "u64 \<Rightarrow> u64 \<Rightarrow> process" where
  "init_process paddr nxt = zero_process
     \<lparr>proc_paddr := paddr, proc_state := PROCESS_RUNNING, next_thread_stack_top := 0x00007FFFE0000000,
      next_thread_tls_top := 0x00007FFFD0000000, next_mmap_base := 0x0000600000000000,
      cwd_inode := FS_ROOT_INODE, cwd_path := [slash],
      proc_name := [0x70, 0x72, 0x6F, 0x63, 0x65, 0x73, 0x73], next_all := nxt\<rparr>"

definition alloc_process :: "kern \<Rightarrow> (u64 \<times> kern) option" where
  "alloc_process s =
     do {
       (paddr, s1) \<leftarrow> k_alloc_page PAGE_OWNER_PROCESS s;
       if paddr = 0 then Some (0, s1)
       else do {
         ts \<leftarrow> ring_members s1;
         if list_ex (\<lambda>t. object_paddr (thread_at s1 t) = paddr) ts then None
         else
           let p = P2V paddr in
           Some (p, (upd_process p (\<lambda>_. init_process paddr (process_list s1)) s1)\<lparr>process_list := p\<rparr>)
       }
     }"

definition set_process_list :: "u64 \<Rightarrow> kern \<Rightarrow> kern" where
  "set_process_list v s = s\<lparr>process_list := v\<rparr>"

definition set_next_all :: "u64 \<Rightarrow> u64 \<Rightarrow> kern \<Rightarrow> kern" where
  "set_next_all p v = upd_process p (next_all_update (\<lambda>_. v))"

definition unlink_process :: "u64 \<Rightarrow> kern \<Rightarrow> kern option" where
  "unlink_process victim s =
     do {
       (_, s1) \<leftarrow> list_unlink process_list (\<lambda>s p. next_all (process_at s p)) set_process_list set_next_all victim s;
       Some (set_next_all victim 0 s1)
     }"

definition free_process_object :: "u64 \<Rightarrow> kern \<Rightarrow> kern option" where
  "free_process_object p s =
     (if p = 0 then Some s
      else do {
        let paddr = proc_paddr (process_at s p);
        s1 \<leftarrow> unlink_process p (upd_process p (proc_paddr_update (\<lambda>_. 0)) s);
        (_, s2) \<leftarrow> k_free_page paddr PAGE_OWNER_PROCESS s1;
        Some s2
      })"

definition set_child_head :: "u64 \<Rightarrow> u64 \<Rightarrow> kern \<Rightarrow> kern" where
  "set_child_head p v = upd_process p (child_head_update (\<lambda>_. v))"

definition set_sibling_next :: "u64 \<Rightarrow> u64 \<Rightarrow> kern \<Rightarrow> kern" where
  "set_sibling_next p v = upd_process p (sibling_next_update (\<lambda>_. v))"

definition link_child :: "u64 \<Rightarrow> u64 \<Rightarrow> kern \<Rightarrow> kern" where
  "link_child child par s =
     (if child = 0 then s
      else let s1 = upd_process child (\<lambda>x. x\<lparr>parent := par, sibling_next := 0\<rparr>) s in
        if par \<noteq> 0 then set_child_head par child (set_sibling_next child (child_head (process_at s1 par)) s1)
        else s1)"

definition unlink_child :: "u64 \<Rightarrow> kern \<Rightarrow> kern option" where
  "unlink_child child s =
     (let par = parent (process_at s child) in
      if child = 0 \<or> par = 0 then Some s
      else do {
        (_, s1) \<leftarrow> list_unlink (\<lambda>s. child_head (process_at s par)) (\<lambda>s p. sibling_next (process_at s p))
                     (set_child_head par) set_sibling_next child s;
        Some (upd_process child (\<lambda>x. x\<lparr>parent := 0, sibling_next := 0\<rparr>) s1)
      })"

definition process_init :: "kern \<Rightarrow> kern option" where
  "process_init s =
     do {
       (p, s1) \<leftarrow> alloc_process s;
       let s2 = s1\<lparr>kernel_process := p\<rparr>;
       Some (if p = 0 then s2
             else upd_process p (\<lambda>x. x\<lparr>pid := 0, proc_name := [0x6B, 0x65, 0x72, 0x6E, 0x65, 0x6C],
                                       cr3_paddr := BOOT_KERNEL_PML4_PADDR\<rparr>) s2)
     }"

definition thread_init :: "kern \<Rightarrow> kern option" where
  "thread_init s =
     do {
       s1 \<leftarrow> process_init s;
       if kernel_process s1 = 0 then Some s1
       else do {
         (t, s2) \<leftarrow> thread_alloc_for_process (kernel_process s1) 5 s1;
         if t = 0 then Some s2
         else do {
           (_, s3) \<leftarrow> k_free_page (V2P (stack_base (thread_at s2 t))) PAGE_OWNER_THREAD s2;
           Some ((upd_thread t (\<lambda>x. x\<lparr>stack_base := 0, status := TASK_RUNNING, sched_next := t\<rparr>) s3)
                   \<lparr>current_thread := t\<rparr>)
         }
       }
     }"

definition process_current :: "kern \<Rightarrow> u64" where
  "process_current s = (if current_thread s = 0 then 0 else thread_process (thread_at s (current_thread s)))"

definition process_find_by_pid :: "u32 \<Rightarrow> kern \<Rightarrow> u64 option" where
  "process_find_by_pid n s =
     do {
       (_, p) \<leftarrow> chase (\<lambda>p. next_all (process_at s p)) (\<lambda>p. p = 0 \<or> pid (process_at s p) = n) 0 (process_list s);
       Some p
     }"

definition process_is_single_threaded :: "u64 \<Rightarrow> kern \<Rightarrow> bool" where
  "process_is_single_threaded p s \<longleftrightarrow>
     p \<noteq> 0 \<and> thread_count (process_at s p) = 1 \<and> main_thread (process_at s p) \<noteq> 0 \<and>
     thread_process (thread_at s (main_thread (process_at s p))) = p"

definition thread_find_by_pid :: "u32 \<Rightarrow> kern \<Rightarrow> u64 option" where
  "thread_find_by_pid n s =
     do { p \<leftarrow> process_find_by_pid n s; Some (if p = 0 then 0 else main_thread (process_at s p)) }"

definition release_process_address_space :: "u64 \<Rightarrow> kern \<Rightarrow> kern option" where
  "release_process_address_space p s =
     (if p = 0 then Some s
      else do {
        let cr3 = cr3_paddr (process_at s p) AND PTE_ADDR_MASK;
        let s1 = upd_process p (cr3_paddr_update (\<lambda>_. 0)) s;
        if cr3 = 0 \<or> cr3 = BOOT_KERNEL_PML4_PADDR then process_free_vmas p s1
        else do {
          let s2 = (if p = process_current s1
                    then s1\<lparr>the_cpu := (the_cpu s1)\<lparr>cpu_cr3 := BOOT_KERNEL_PML4_PADDR\<rparr>\<rparr> else s1);
          s3 \<leftarrow> with_ring s2;
          process_free_vmas p (destroy_user_address_space cr3 s3)
        }
      })"

section \<open>User threads\<close>

text \<open>
  The kernel stack of a new user thread: the frame that \<^verbatim>\<open>iretq\<close> pops, with the argument above it,
  and below it a context that returns into the routine that executes \<^verbatim>\<open>iretq\<close>.
\<close>

definition push_word :: "u64 \<Rightarrow> u64 \<times> kern \<Rightarrow> u64 \<times> kern" where
  "push_word v = (\<lambda>(sp, s). (sp - 8, kstore (sp - 8) v s))"

definition setup_user_thread :: "u64 \<Rightarrow> u64 \<Rightarrow> u64 \<Rightarrow> u64 \<Rightarrow> bool \<Rightarrow> kern \<Rightarrow> kern" where
  "setup_user_thread t entry user_sp arg with_arg s =
     (let s1 = upd_thread t (user_rsp_update (\<lambda>_. user_sp)) s;
          top = kernel_stack_top (thread_at s1 t);
          frame0 = (if with_arg then push_word arg (top, s1) else (top, s1));
          (sp, s2) = push_word entry (push_word 0x23 (push_word 0x202 (push_word user_sp (push_word 0x1B frame0))));
          context = sp - sizeof_thread_context;
          start = (if with_arg then return_to_user_with_arg (entries s2) else return_to_user (entries s2))
      in upd_thread t (rsp_update (\<lambda>_. context)) (store_context context start s2))"

definition allocate_user_thread_stack :: "u64 \<Rightarrow> u64 \<Rightarrow> kern \<Rightarrow> (int \<times> kern) option" where
  "allocate_user_thread_stack p t s =
     (let cr3 = cr3_paddr (process_at s p) in
      if p = 0 \<or> t = 0 \<or> cr3 = 0 then Some (-1, s)
      else do {
        (stack, s1) \<leftarrow> k_alloc_page PAGE_OWNER_USER s;
        let top = next_thread_stack_top (process_at s1 p);
        if stack = 0 then Some (-1, s1)
        else if top < 2 * 4096 then Some (-1, snd (free_page_owned stack PAGE_OWNER_USER s1))
        else
          let base = top - 4096;
              s2 = upd_process p (next_thread_stack_top_update (\<lambda>_. base - 4096)) s1
          in case map_page cr3 base stack (PTE_RW OR PTE_US) s2 of (r, s3) \<Rightarrow>
               if r \<noteq> 0 then Some (-1, snd (free_page_owned stack PAGE_OWNER_USER s3))
               else Some (0, upd_thread t (\<lambda>x. x\<lparr>user_stack_base := base, user_stack_top := top,
                                                 user_stack_paddr := stack\<rparr>) s3)
      })"

definition process_allocate_thread_tls :: "u64 \<Rightarrow> u64 \<Rightarrow> kern \<Rightarrow> (int \<times> kern) option" where
  "process_allocate_thread_tls p t s =
     (let cr3 = cr3_paddr (process_at s p) in
      if p = 0 \<or> t = 0 \<or> cr3 = 0 then Some (-1, s)
      else do {
        (page, s1) \<leftarrow> k_alloc_page PAGE_OWNER_USER s;
        let top = next_thread_tls_top (process_at s1 p);
        if page = 0 then Some (-1, s1)
        else if top < 4096 then Some (-1, snd (free_page_owned page PAGE_OWNER_USER s1))
        else
          let base = top - 4096;
              s2 = upd_process p (next_thread_tls_top_update (\<lambda>_. base - 4096)) s1
          in case map_page cr3 base page (PTE_RW OR PTE_US) s2 of (r, s3) \<Rightarrow>
               if r \<noteq> 0 then Some (-1, snd (free_page_owned page PAGE_OWNER_USER s3))
               else Some (0, upd_thread t (\<lambda>x. x\<lparr>tls_base := base, tls_paddr := page\<rparr>)
                               (kstore (P2V page) base s3))
      })"

section \<open>Creating processes\<close>

text \<open>The failure paths of the creation functions.\<close>

definition drop_process :: "u64 \<Rightarrow> kern \<Rightarrow> (u64 \<times> kern) option" where
  "drop_process p s =
     do { s1 \<leftarrow> unlink_child p s; s2 \<leftarrow> free_process_object p s1; Some (0, s2) }"

definition drop_thread :: "u64 \<Rightarrow> kern \<Rightarrow> kern option" where
  "drop_thread t s = thread_free_object t (set_status t TASK_DEAD s)"

definition drop_space :: "u64 \<Rightarrow> kern \<Rightarrow> kern option" where
  "drop_space cr3 s = do { s1 \<leftarrow> with_ring s; Some (destroy_user_address_space cr3 s1) }"

definition abandon_process :: "u64 \<Rightarrow> u64 \<Rightarrow> kern \<Rightarrow> (u64 \<times> kern) option" where
  "abandon_process p t s =
     do {
       s1 \<leftarrow> drop_thread t s;
       s2 \<leftarrow> drop_space (cr3_paddr (process_at s1 p)) s1;
       drop_process p s2
     }"

definition abandon_with_areas :: "u64 \<Rightarrow> u64 \<Rightarrow> kern \<Rightarrow> (u64 \<times> kern) option" where
  "abandon_with_areas p t s =
     do {
       s1 \<leftarrow> drop_thread t s;
       s2 \<leftarrow> drop_space (cr3_paddr (process_at s1 p)) s1;
       s3 \<leftarrow> unlink_child p s2;
       s4 \<leftarrow> process_free_vmas p s3;
       s5 \<leftarrow> free_process_object p s4;
       Some (0, s5)
     }"

definition new_process :: "kern \<Rightarrow> (u64 \<times> kern) option" where
  "new_process s =
     do {
       (p, s1) \<leftarrow> alloc_process s;
       if p = 0 then Some (0, s1)
       else
         let s2 = (upd_process p (\<lambda>x. x\<lparr>pid := next_pid s1, parent := process_current s1\<rparr>) s1)
                    \<lparr>next_pid := next_pid s1 + 1\<rparr>
         in Some (p, if process_current s1 \<noteq> 0 then link_child p (process_current s1) s2 else s2)
     }"

definition set_kernel_stack_top :: "u64 \<Rightarrow> kern \<Rightarrow> kern" where
  "set_kernel_stack_top t = upd_thread t (\<lambda>x. x\<lparr>kernel_stack_top := stack_base x + 4096\<rparr>)"

definition create_user_stack :: "u64 \<Rightarrow> u64 \<Rightarrow> u64 \<Rightarrow> kern \<Rightarrow> (bool \<times> kern) option" where
  "create_user_stack p t va s =
     do {
       (stack, s1) \<leftarrow> k_alloc_page PAGE_OWNER_USER s;
       if stack = 0 then Some (False, s1)
       else case map_page (cr3_paddr (process_at s1 p)) va stack (PTE_RW OR PTE_US) s1 of (r, s2) \<Rightarrow>
         if r \<noteq> 0 then Some (False, snd (free_page_owned stack PAGE_OWNER_USER s2))
         else Some (True, upd_thread t (\<lambda>x. x\<lparr>user_stack_base := va, user_stack_top := va + 4096,
                                             user_stack_paddr := stack\<rparr>) s2)
     }"

definition process_create :: "u64 \<Rightarrow> u32 \<Rightarrow> kern \<Rightarrow> (u64 \<times> kern) option" where
  "process_create app prio s =
     do {
       (p, s1) \<leftarrow> new_process s;
       if p = 0 then Some (0, s1)
       else do {
         s1' \<leftarrow> with_ring s1;
         let (cr3, s2) = create_page_dir s1';
         let s3 = upd_process p (cr3_paddr_update (\<lambda>_. cr3)) s2;
         if cr3 = 0 then drop_process p s3
         else do {
           (t, s4) \<leftarrow> thread_alloc_for_process p prio s3;
           if t = 0 then do { s5 \<leftarrow> drop_space cr3 s4; drop_process p s5 }
           else do {
             (ok, s5) \<leftarrow> create_user_stack p t 0xC0000000 (set_kernel_stack_top t s4);
             if \<not> ok then abandon_process p t s5
             else do {
               (r, s6) \<leftarrow> process_add_vma p 0xC0000000 (0xC0000000 + 4096)
                             (VM_READ OR VM_WRITE OR VM_ANON OR VM_PRIVATE) 0 s5;
               if r \<noteq> 0 then abandon_process p t s6
               else do {
                 (r', s7) \<leftarrow> process_allocate_thread_tls p t s6;
                 if r' \<noteq> 0 then abandon_process p t s7
                 else Some (p, setup_user_thread t app (0xC0000000 + 4096) 0 False s7)
               }
             }
           }
         }
       }
     }"

record elf_load_vma =
  lv_start :: u64
  lv_end :: u64
  lv_flags :: u64
  lv_offset :: u64

definition load_vma_flags :: "u64 \<Rightarrow> u64" where
  "load_vma_flags f =
     VM_PRIVATE OR (if f AND 4 \<noteq> 0 then VM_READ else 0) OR (if f AND 2 \<noteq> 0 then VM_WRITE else 0) OR
     (if f AND 1 \<noteq> 0 then VM_EXEC else 0)"

text \<open>Entering the areas of an image; the first component tells whether all of them were entered.\<close>

fun add_load_vmas :: "u64 \<Rightarrow> elf_load_vma list \<Rightarrow> kern \<Rightarrow> (bool \<times> kern) option" where
  "add_load_vmas p [] s = Some (True, s)"
| "add_load_vmas p (v # vs) s =
     do {
       (r, s1) \<leftarrow> process_add_vma p (lv_start v) (lv_end v) (load_vma_flags (lv_flags v)) (lv_offset v) s;
       if r \<noteq> 0 then Some (False, s1) else add_load_vmas p vs s1
     }"

definition process_create_loaded ::
    "u64 \<Rightarrow> u64 \<Rightarrow> u64 \<Rightarrow> u32 \<Rightarrow> elf_load_vma list \<Rightarrow> kern \<Rightarrow> (u64 \<times> kern) option" where
  "process_create_loaded entry cr3 user_sp prio vmas s =
     do {
       (p, s1) \<leftarrow> new_process s;
       if p = 0 then do { s2 \<leftarrow> drop_space cr3 s1; Some (0, s2) }
       else do {
         (t, s2) \<leftarrow> thread_alloc_for_process p prio (upd_process p (cr3_paddr_update (\<lambda>_. cr3)) s1);
         if t = 0 then do { s3 \<leftarrow> drop_space cr3 s2; drop_process p s3 }
         else do {
           let top = (user_sp AND PTE_ADDR_MASK) + 4096;
           (ok, s3) \<leftarrow> add_load_vmas p vmas
             (upd_thread t (\<lambda>x. x\<lparr>user_stack_top := top, user_stack_base := top - 4096\<rparr>) (set_kernel_stack_top t s2));
           if \<not> ok then abandon_with_areas p t s3
           else do {
             (r, s4) \<leftarrow> process_add_vma p (top - 8 * 1024 * 1024) top
                           (VM_READ OR VM_WRITE OR VM_GROWSDOWN OR VM_ANON OR VM_PRIVATE) 0 s3;
             if r \<noteq> 0 then abandon_with_areas p t s4
             else do {
               (r', s5) \<leftarrow> process_allocate_thread_tls p t s4;
               if r' \<noteq> 0 then abandon_process p t s5
               else Some (p, setup_user_thread t entry user_sp 0 False s5)
             }
           }
         }
       }
     }"

definition process_create_thread :: "u64 \<Rightarrow> u64 \<Rightarrow> u64 \<Rightarrow> kern \<Rightarrow> (int \<times> u32 \<times> kern) option" where
  "process_create_thread p entry arg s =
     (let x = process_at s p in
      if p = 0 \<or> p = kernel_process s \<or> entry = 0 \<or> proc_state x \<noteq> PROCESS_RUNNING \<or> exit_requested x
      then Some (-1, 0, s)
      else do {
        readable \<leftarrow> user_range_is_readable (cr3_paddr x) entry 1 s;
        if \<not> readable then Some (-1, 0, s)
        else do {
          (t, s1) \<leftarrow> thread_alloc_for_process p
                       (if main_thread x = 0 then 5 else priority (thread_at s (main_thread x))) s;
          if t = 0 then Some (-1, 0, s1)
          else do {
            (r, s2) \<leftarrow> allocate_user_thread_stack p t (set_kernel_stack_top t s1);
            if r \<noteq> 0 then do { s3 \<leftarrow> drop_thread t s2; Some (-1, 0, s3) }
            else do {
              (r', s3) \<leftarrow> process_allocate_thread_tls p t s2;
              if r' \<noteq> 0 then do { s4 \<leftarrow> drop_thread t s3; Some (-1, 0, s4) }
              else do {
                s4 \<leftarrow> thread_append t (setup_user_thread t entry (user_stack_top (thread_at s3 t)) arg True s3);
                Some (0, tid (thread_at s4 t), s4)
              }
            }
          }
        }
      })"

section \<open>Reaping\<close>

definition find_child :: "u32 \<Rightarrow> kern \<Rightarrow> u64 option" where
  "find_child n s =
     (let par = process_current s in
      if par = 0 then Some 0
      else do {
        let head = child_head (process_at s par);
        (_, c) \<leftarrow> chase (\<lambda>c. sibling_next (process_at s c))
                    (\<lambda>c. c = 0 \<or> (if n = 0 then proc_state (process_at s c) = PROCESS_ZOMBIE else pid (process_at s c) = n))
                    0 head;
        Some (if c = 0 \<and> n = 0 then head else c)
      })"

definition reap_process :: "u64 \<Rightarrow> kern \<Rightarrow> kern option" where
  "reap_process p s =
     (let t = main_thread (process_at s p) in
      if p = 0 \<or> p = kernel_process s \<or> proc_state (process_at s p) \<noteq> PROCESS_ZOMBIE \<or> t = 0 \<or>
         t = current_thread s \<or> status (thread_at s t) \<noteq> TASK_ZOMBIE \<or> \<not> process_is_single_threaded p s
      then Some s
      else do {
        s1 \<leftarrow> release_process_address_space p s;
        s2 \<leftarrow> thread_remove_from_scheduler t s1;
        s3 \<leftarrow> thread_free_object t (set_status t TASK_DEAD s2);
        s4 \<leftarrow> unlink_child p s3;
        free_process_object p (upd_process p (proc_state_update (\<lambda>_. PROCESS_DEAD)) s4)
      })"

definition process_discard :: "u64 \<Rightarrow> kern \<Rightarrow> (int \<times> kern) option" where
  "process_discard p s =
     (let t = main_thread (process_at s p) in
      if p = 0 \<or> p = kernel_process s \<or> proc_state (process_at s p) \<noteq> PROCESS_RUNNING \<or> t = 0 \<or>
         status (thread_at s t) \<noteq> TASK_READY \<or> \<not> process_is_single_threaded p s
      then Some (-1, s)
      else do {
        in_ring \<leftarrow> thread_in_scheduler_ring t s;
        if in_ring then Some (-1, s)
        else do {
          s1 \<leftarrow> release_process_address_space p s;
          s2 \<leftarrow> unlink_child p s1;
          s3 \<leftarrow> thread_free_object t (set_status t TASK_DEAD s2);
          s4 \<leftarrow> free_process_object p (upd_process p (proc_state_update (\<lambda>_. PROCESS_DEAD)) s3);
          Some (0, s4)
        }
      })"

definition reap_if_orphan :: "u64 \<Rightarrow> kern \<Rightarrow> kern option" where
  "reap_if_orphan p s =
     (if p \<noteq> kernel_process s \<and> parent (process_at s p) = 0 \<and> proc_state (process_at s p) = PROCESS_ZOMBIE
      then reap_process p s else Some s)"

definition process_reap_orphans :: "kern \<Rightarrow> kern option" where
  "process_reap_orphans s =
     each (\<lambda>s p. next_all (process_at s p)) (\<lambda>p _. p = 0) reap_if_orphan (process_list s) s"

section \<open>Statistics\<close>

record process_runtime_stats =
  st_processes :: u32
  st_running :: u32
  st_zombie :: u32
  st_threads :: u32

definition process_get_runtime_stats :: "kern \<Rightarrow> process_runtime_stats option" where
  "process_get_runtime_stats s =
     each (\<lambda>_ p. next_all (process_at s p)) (\<lambda>p _. p = 0)
       (\<lambda>p st. Some (st\<lparr>st_processes := st_processes st + 1,
                        st_threads := st_threads st + thread_count (process_at s p),
                        st_running := st_running st + (if proc_state (process_at s p) = PROCESS_RUNNING then 1 else 0),
                        st_zombie := st_zombie st + (if proc_state (process_at s p) = PROCESS_ZOMBIE then 1 else 0)\<rparr>))
       (process_list s) \<lparr>st_processes = 0, st_running = 0, st_zombie = 0, st_threads = 0\<rparr>"

definition user_entry :: "u64 \<Rightarrow> bool" where
  "user_entry e \<longleftrightarrow> e AND (PTE_P OR PTE_US) = PTE_P OR PTE_US"

definition count_pt :: "u64 \<Rightarrow> kern \<Rightarrow> u32 \<Rightarrow> u32" where
  "count_pt pt s = fold (\<lambda>l n. if user_entry (tbl s pt l) then n + 1 else n) [0..<512]"

definition count_pd :: "u64 \<Rightarrow> kern \<Rightarrow> u32 \<Rightarrow> u32" where
  "count_pd pd s = fold (\<lambda>k n. if user_entry (tbl s pd k) \<and> tbl s pd k AND PTE_PS = 0
                               then count_pt (tbl s pd k AND PTE_ADDR_MASK) s n else n) [0..<512]"

definition count_pdpt :: "u64 \<Rightarrow> kern \<Rightarrow> u32 \<Rightarrow> u32" where
  "count_pdpt pdpt s = fold (\<lambda>j n. if user_entry (tbl s pdpt j) \<and> tbl s pdpt j AND PTE_PS = 0
                                   then count_pd (tbl s pdpt j AND PTE_ADDR_MASK) s n else n) [0..<512]"

definition process_count_user_pages :: "u64 \<Rightarrow> kern \<Rightarrow> u32" where
  "process_count_user_pages p s =
     (let cr3 = cr3_paddr (process_at s p) in
      if p = 0 \<or> cr3 = 0 then 0
      else let pml4 = cr3 AND PTE_ADDR_MASK in
        fold (\<lambda>i n. if user_entry (tbl s pml4 i) then count_pdpt (tbl s pml4 i AND PTE_ADDR_MASK) s n else n)
          [0..<256] 0)"

record process_info =
  pi_pid :: u32
  pi_ppid :: u32
  pi_state :: process_state
  pi_threads :: u32
  pi_user_pages :: u32
  pi_name :: c_string

definition info_of :: "kern \<Rightarrow> u64 \<Rightarrow> process_info" where
  "info_of s p =
     (let x = process_at s p in
      \<lparr>pi_pid = pid x, pi_ppid = (if parent x = 0 then 0 else pid (process_at s (parent x))),
       pi_state = proc_state x, pi_threads = thread_count x,
       pi_user_pages = process_count_user_pages p s, pi_name = take 31 (proc_name x)\<rparr>)"

definition process_snapshot :: "nat \<Rightarrow> kern \<Rightarrow> process_info list option" where
  "process_snapshot capacity s =
     (if capacity = 0 then Some []
      else each (\<lambda>_ p. next_all (process_at s p)) (\<lambda>p out. p = 0 \<or> \<not> length out < capacity)
             (\<lambda>p out. Some (out @ [info_of s p])) (process_list s) [])"

end
