(* ===== verification/Scheduler.thy ===== *)
theory Scheduler
  imports Processes
begin

text \<open>
  The scheduler of kernel/thread.c, with blocking, joining and detaching of threads, and the
  clock tick and the sleep queue of kernel/timer.c.  \<^verbatim>\<open>schedule\<close> ends in the register switch, so
  its result is the state in which the next thread goes on; what a blocked thread does when it is
  switched to again is a function of its own.
\<close>

section \<open>Choosing the next thread\<close>

definition check_scheduler_invariants :: "kern \<Rightarrow> unit option" where
  "check_scheduler_invariants s =
     do {
       ts \<leftarrow> (if current_thread s = 0 then None else ring_members s);
       if list_all (\<lambda>t. t \<noteq> 0 \<and> thread_process (thread_at s t) \<noteq> 0) ts \<and> length ts < 4096 \<and>
          length (filter (\<lambda>t. status (thread_at s t) = TASK_RUNNING) ts) \<le> 1
       then Some () else None
     }"

definition is_idle :: "thread_state \<Rightarrow> bool" where
  "is_idle st \<longleftrightarrow> st = TASK_BLOCKED \<or> st = TASK_ZOMBIE \<or> st = TASK_DEAD"

text \<open>The loop over the ring: the inner \<open>None\<close> when it comes back to the current thread.\<close>

partial_function (option) pick_next :: "(u64 \<Rightarrow> u64) \<Rightarrow> (u64 \<Rightarrow> bool) \<Rightarrow> u64 \<Rightarrow> u64 \<Rightarrow> u64 option option" where
  "pick_next nxt idle cur p =
     (if \<not> idle p then Some (Some p)
      else if nxt p = cur then Some None
      else pick_next nxt idle cur (nxt p))"

text \<open>The registers and per-CPU slots that are loaded before the stacks are exchanged.\<close>

definition load_cpu :: "u64 \<Rightarrow> u64 \<Rightarrow> kern \<Rightarrow> kern" where
  "load_cpu previous nxt s =
     (let s1 = (if thread_process (thread_at s previous) \<noteq> kernel_process s
                then upd_thread previous (user_rsp_update (\<lambda>_. cpu_user_rsp (the_cpu s))) s else s);
          x = thread_at s1 nxt;
          c1 = (the_cpu s1)\<lparr>cpu_user_rsp := user_rsp x\<rparr>;
          c2 = (if kernel_stack_top x \<noteq> 0
                then c1\<lparr>cpu_tss_rsp0 := kernel_stack_top x, cpu_kernel_rsp := kernel_stack_top x\<rparr> else c1);
          next_cr3 = cr3_paddr (process_at s1 (thread_process x));
          c3 = (if next_cr3 \<noteq> cr3_paddr (process_at s1 (thread_process (thread_at s1 previous)))
                then c2\<lparr>cpu_cr3 := next_cr3\<rparr> else c2)
      in s1\<lparr>the_cpu := c3\<lparr>cpu_fs_base := (if thread_process x = kernel_process s1 then 0 else tls_base x)\<rparr>\<rparr>)"

definition switch_threads :: "u64 \<Rightarrow> u64 \<Rightarrow> kern \<Rightarrow> kern" where
  "switch_threads previous nxt s =
     (let s1 = load_cpu previous nxt s;
          s2 = (if status (thread_at s1 previous) = TASK_RUNNING then set_status previous TASK_READY s1 else s1);
          s3 = (set_status nxt TASK_RUNNING s2)\<lparr>current_thread := nxt\<rparr>
      in switch_to previous nxt s3)"

definition schedule :: "kern \<Rightarrow> kern option" where
  "schedule s =
     (let cur = current_thread s in
      if cur = 0 \<or> ring_next s cur = cur then Some s
      else do {
        _ \<leftarrow> check_scheduler_invariants s;
        s1 \<leftarrow> process_reap_orphans s;
        s2 \<leftarrow> thread_reap_detached s1;
        nxt \<leftarrow> pick_next (ring_next s2) (\<lambda>p. is_idle (status (thread_at s2 p))) (current_thread s2)
                 (ring_next s2 (current_thread s2));
        case nxt of
          None \<Rightarrow> Some s2
        | Some n \<Rightarrow>
            if status (thread_at s2 n) \<noteq> TASK_READY then None
            else Some (switch_threads (current_thread s2) n s2)
      })"

section \<open>Preemption\<close>

text \<open>
  A function that ends in \<^verbatim>\<open>schedule\<close> gives the state in which \<^verbatim>\<open>schedule\<close> is left: on the stack
  of the next thread, which goes on to restore the interrupt flag it saved before it was switched
  away.
\<close>

definition thread_preempt_disable :: "kern \<Rightarrow> kern" where
  "thread_preempt_disable s = s\<lparr>preempt_disable_count := preempt_disable_count s + 1\<rparr>"

definition thread_preempt_enable :: "kern \<Rightarrow> kern option" where
  "thread_preempt_enable s =
     (if preempt_disable_count s = 0 then None
      else Some (s\<lparr>preempt_disable_count := preempt_disable_count s - 1\<rparr>))"

definition thread_request_reschedule :: "kern \<Rightarrow> kern" where
  "thread_request_reschedule s = s\<lparr>need_resched := True\<rparr>"

definition thread_current_user_rsp :: "kern \<Rightarrow> u64" where
  "thread_current_user_rsp s = (if current_thread s = 0 then 0 else user_rsp (thread_at s (current_thread s)))"

definition thread_set_current_user_rsp :: "u64 \<Rightarrow> kern \<Rightarrow> kern" where
  "thread_set_current_user_rsp v s =
     (let s1 = (if current_thread s \<noteq> 0 then upd_thread (current_thread s) (user_rsp_update (\<lambda>_. v)) s else s)
      in s1\<lparr>the_cpu := (the_cpu s1)\<lparr>cpu_user_rsp := v\<rparr>\<rparr>)"

definition cli :: "kern \<Rightarrow> kern" where
  "cli s = s\<lparr>the_cpu := (the_cpu s)\<lparr>cpu_if := False\<rparr>\<rparr>"

definition thread_preempt_point :: "kern \<Rightarrow> kern option" where
  "thread_preempt_point s =
     (if current_thread s = 0 \<or> preempt_disable_count s \<noteq> 0 \<or> \<not> need_resched s then Some s
      else schedule ((cli s)\<lparr>need_resched := False\<rparr>))"

definition thread_yield :: "kern \<Rightarrow> kern option" where
  "thread_yield s = schedule ((cli s)\<lparr>need_resched := False\<rparr>)"

text \<open>\<^verbatim>\<open>thread_block\<close> up to the switch, and its loop when the thread is switched to again.\<close>

definition thread_block :: "kern \<Rightarrow> kern option" where
  "thread_block s =
     (if current_thread s = 0 then None else schedule (set_status (current_thread s) TASK_BLOCKED (cli s)))"

definition thread_block_again :: "kern \<Rightarrow> kern option" where
  "thread_block_again s =
     (if status (thread_at s (current_thread s)) = TASK_BLOCKED then schedule (cli s) else Some s)"

section \<open>The clock\<close>

definition wake_first :: "u64 \<Rightarrow> kern \<Rightarrow> kern option" where
  "wake_first t s =
     (let s1 = upd_thread t (\<lambda>x. x\<lparr>sleep_next := 0, sleeping := False\<rparr>) (set_sleep_head (sleep_link s t) s)
      in Some (if status (thread_at s1 t) = TASK_BLOCKED then thread_unblock t s1 else s1))"

definition timer_wake_sleepers :: "kern \<Rightarrow> kern option" where
  "timer_wake_sleepers s =
     each sleep_link (\<lambda>t s. t = 0 \<or> \<not> wake_tick (thread_at s t) \<le> system_ticks s) wake_first (sleep_head s) s"

text \<open>\<^verbatim>\<open>thread_sleep_ticks\<close> up to the switch: the thread joins the queue behind the earlier wake-ups.\<close>

definition sleep_enqueue :: "u64 \<Rightarrow> u64 \<Rightarrow> kern \<Rightarrow> kern option" where
  "sleep_enqueue t n s =
     (if sleeping (thread_at s t) then Some s
      else do {
        let wake = system_ticks s + n;
        let s1 = upd_thread t (\<lambda>x. x\<lparr>wake_tick := wake, sleeping := True\<rparr>) s;
        (prev, cur) \<leftarrow> chase (sleep_link s1) (\<lambda>p. p = 0 \<or> \<not> wake_tick (thread_at s1 p) \<le> wake) 0 (sleep_head s1);
        Some (set_link set_sleep_head set_sleep_next prev t (set_sleep_next t cur s1))
      })"

definition thread_sleep_ticks :: "u64 \<Rightarrow> kern \<Rightarrow> kern option" where
  "thread_sleep_ticks n s =
     (let cur = current_thread s in
      if cur = 0 \<or> n = 0 then (if cur \<noteq> 0 then thread_yield s else Some s)
      else do {
        s1 \<leftarrow> sleep_enqueue cur n (cli s);
        schedule (set_status cur TASK_BLOCKED s1)
      })"

definition timer_interrupt_handler :: "kern \<Rightarrow> kern option" where
  "timer_interrupt_handler s =
     do {
       s1 \<leftarrow> timer_wake_sleepers (s\<lparr>system_ticks := system_ticks s + 1\<rparr>);
       let cur = current_thread s1;
       if cur = 0 then Some s1
       else
         let s2 = upd_thread cur (\<lambda>x. x\<lparr>ticks := ticks x - 1\<rparr>) s1;
             s3 = (if ticks (thread_at s2 cur) = 0
                   then thread_request_reschedule (upd_thread cur (\<lambda>x. x\<lparr>ticks := priority x\<rparr>) s2) else s2)
         in thread_preempt_point s3
     }"

section \<open>Joining and detaching\<close>

definition may_claim :: "u64 \<Rightarrow> kern \<Rightarrow> bool" where
  "may_claim target s \<longleftrightarrow>
     target \<noteq> 0 \<and> target \<noteq> current_thread s \<and> current_thread s \<noteq> 0 \<and>
     thread_process (thread_at s target) = thread_process (thread_at s (current_thread s)) \<and>
     (lifecycle (thread_at s target) = THREAD_JOINABLE_RUNNING \<or>
      lifecycle (thread_at s target) = THREAD_JOINABLE_ZOMBIE) \<and>
     \<not> lifecycle_claimed (thread_at s target)"

text \<open>
  \<^verbatim>\<open>thread_join\<close>: the claim, with the result \<open>None\<close> for -1 and otherwise whether the caller has to
  wait; and what follows the wait.
\<close>

definition join_claim :: "u64 \<Rightarrow> kern \<Rightarrow> bool option \<times> kern" where
  "join_claim target s =
     (if \<not> may_claim target s then (None, s)
      else let s1 = upd_thread target (lifecycle_claimed_update (\<lambda>_. True)) s in
        if status (thread_at s1 target) \<noteq> TASK_ZOMBIE
        then (Some True, upd_thread target (join_waiter_update (\<lambda>_. current_thread s1)) s1)
        else (Some False, s1))"

definition join_finish :: "u64 \<Rightarrow> kern \<Rightarrow> (int \<times> kern) option" where
  "join_finish target s =
     do {
       let s1 = upd_thread target (join_waiter_update (\<lambda>_. 0)) s;
       let result = exit_status (thread_at s1 target);
       s2 \<leftarrow> reap_kernel_thread target s1;
       Some (result, s2)
     }"

definition thread_detach :: "u64 \<Rightarrow> kern \<Rightarrow> (int \<times> kern) option" where
  "thread_detach target s =
     (if \<not> may_claim target s then Some (-1, s)
      else let s1 = upd_thread target (lifecycle_claimed_update (\<lambda>_. True)) s in
        if status (thread_at s1 target) = TASK_ZOMBIE then do {
          s2 \<leftarrow> reap_kernel_thread target (upd_thread target (lifecycle_update (\<lambda>_. THREAD_DETACHED_ZOMBIE)) s1);
          Some (0, s2)
        }
        else Some (0, upd_thread target (lifecycle_update (\<lambda>_. THREAD_DETACHED_RUNNING)) s1))"

end
