(* ===== verification/Sched_Ring.thy ===== *)
theory Sched_Ring
  imports Scheduler
begin

text \<open>
  The scheduler ring as a list: every operation on the pointers of the ring is the expected
  operation on the list of its members that starts with the current thread.
\<close>

section \<open>Rings of pointers\<close>

lemma lseg_succ: "lseg nxt p (us @ [u]) q \<Longrightarrow> x \<in> set us \<Longrightarrow> nxt x \<in> set (tl (us @ [u]))"
proof (induction us arbitrary: p)
  case (Cons a us)
  show ?case
  proof (cases "x = a")
    case True
    then show ?thesis using Cons.prems by (cases us) auto
  next
    case False
    then have "nxt x \<in> set (tl (us @ [u]))" using Cons by auto
    then show ?thesis by (cases us) auto
  qed
qed simp

lemma lseg_last: "lseg nxt p (us @ [u]) q \<Longrightarrow> nxt u = q"
  by (simp add: lseg_append)

lemma chase_find:
  assumes "lseg nxt p (ys @ x # zs) q" and "\<And>y. y \<in> set ys \<Longrightarrow> \<not> stop y" and "stop x"
  shows "chase nxt stop prev p = Some (last (prev # ys), x)"
  using assms
proof (induction ys arbitrary: p prev)
  case Nil
  then show ?case by (simp add: chase.simps)
next
  case (Cons y ys)
  then have "chase nxt stop y (nxt y) = Some (last (y # ys), x)" by simp
  with Cons.prems show ?case by (subst chase.simps) simp
qed

lemma ring_parts:
  assumes "ring nxt c xs"
  shows "c \<noteq> 0" "c \<notin> set xs" "0 \<notin> set xs" "distinct xs" "lseg nxt (nxt c) xs c" "lseg nxt c (c # xs) c"
  using assms by (auto simp: ring_def)

lemma ring_cong:
  assumes "\<And>x. x \<in> set (c # xs) \<Longrightarrow> nxt' x = nxt x"
  shows "ring nxt' c xs = ring nxt c xs"
  using assms lseg_cong [of xs nxt' nxt "nxt c" c] by (simp add: ring_def)

lemma ring_rotate:
  assumes "ring nxt c (ys @ n # zs)"
  shows "ring nxt n (zs @ c # ys)"
  using assms by (auto simp: ring_def lseg_append)

lemma ring_next_in: "ring nxt c xs \<Longrightarrow> nxt c = (if xs = [] then c else hd xs)"
  by (cases xs) (auto simp: ring_def)

text \<open>The predecessor of \<open>c\<close> is the last member, that of a member \<open>v\<close> the one before it.\<close>

lemma ring_pred:
  assumes "ring nxt c (ys @ zs)" and "v = (case zs of [] \<Rightarrow> c | z # _ \<Rightarrow> z)"
  shows "nxt (last (c # ys)) = v"
    and "chase nxt (\<lambda>p. nxt p = c \<or> nxt p = v) 0 c = Some (last (0 # butlast (c # ys)), last (c # ys))"
proof -
  define us where "us = butlast (c # ys)"
  define u where "u = last (c # ys)"
  have cy: "c # ys = us @ [u]" unfolding us_def u_def by (rule append_butlast_last_id [symmetric]) simp
  have "lseg nxt c ((c # ys) @ zs) c" using ring_parts(6) [OF assms(1)] by simp
  then have seg: "lseg nxt c (c # ys) v"
    unfolding lseg_append using assms(2) by (cases zs) auto
  then have last: "nxt u = v" using lseg_last cy by metis
  then show "nxt (last (c # ys)) = v" by (simp add: u_def)
  have "nxt x \<noteq> c \<and> nxt x \<noteq> v" if "x \<in> set us" for x
  proof -
    have "nxt x \<in> set (tl (us @ [u]))" using lseg_succ [of nxt c us u v x] seg that cy by simp
    then have "nxt x \<in> set ys" using cy by (metis list.sel(3))
    then show ?thesis using assms by (cases zs) (auto simp: ring_def)
  qed
  moreover have "lseg nxt c (us @ u # []) v" using seg cy by simp
  ultimately show "chase nxt (\<lambda>p. nxt p = c \<or> nxt p = v) 0 c = Some (last (0 # butlast (c # ys)), last (c # ys))"
    using last unfolding us_def [symmetric] u_def [symmetric]
    by (intro chase_find [where zs = "[]" and q = v]) auto
qed

lemma ring_insert:
  assumes "ring nxt c xs" and "t \<noteq> 0" and "t \<notin> set (c # xs)"
  shows "ring (nxt(last (c # xs) := t, t := c)) c (xs @ [t])"
proof -
  let ?n = "nxt(last (c # xs) := t, t := c)"
  define us where "us = butlast (c # xs)"
  define u where "u = last (c # xs)"
  have cy: "c # xs = us @ [u]" unfolding us_def u_def by (rule append_butlast_last_id [symmetric]) simp
  have d: "distinct (us @ [u])" using assms(1) by (simp add: cy [symmetric] ring_def)
  have "lseg nxt c (us @ [u]) c" using ring_parts(6) [OF assms(1)] by (simp add: cy)
  then have "lseg nxt c us u" by (simp add: lseg_append)
  then have "lseg ?n c us u"
    using d assms(3) unfolding cy u_def [symmetric] by (simp add: lseg_upd_other)
  then have "lseg ?n c (us @ [u]) t"
    using assms(3) unfolding u_def [symmetric] cy by (auto simp: lseg_append)
  then have "lseg ?n c (c # xs @ [t]) c" unfolding cy [symmetric] append_Cons [symmetric] lseg_append by simp
  then show ?thesis using assms by (auto simp: ring_def)
qed

lemma ring_remove:
  assumes "ring nxt c (ys @ v # zs)"
  shows "ring (nxt(last (c # ys) := nxt v, v := 0)) c (ys @ zs)"
proof -
  let ?n = "nxt(last (c # ys) := nxt v, v := 0)"
  define us where "us = butlast (c # ys)"
  define u where "u = last (c # ys)"
  have cy: "c # ys = us @ [u]" unfolding us_def u_def by (rule append_butlast_last_id [symmetric]) simp
  have d: "distinct (us @ [u] @ v # zs)"
    using assms unfolding append_assoc [symmetric] cy [symmetric] by (simp add: ring_def)
  have "lseg nxt c ((us @ [u]) @ v # zs) c" using ring_parts(6) [OF assms] by (simp add: cy [symmetric])
  then have seg: "lseg nxt c us u" "lseg nxt (nxt v) zs c" by (auto simp: lseg_append)
  have "lseg ?n c us u" "lseg ?n (nxt v) zs c"
    using d seg unfolding u_def [symmetric] by (simp_all add: lseg_upd_other)
  then have "lseg ?n c ((us @ [u]) @ zs) c"
    using d unfolding u_def [symmetric] by (auto simp: lseg_append)
  then have "lseg ?n c (c # ys @ zs) c" by (simp add: cy [symmetric])
  then show ?thesis using assms by (auto simp: ring_def)
qed

lemma pick_next_lseg:
  assumes "lseg nxt p xs c" and "xs \<noteq> []" and "c \<notin> set xs"
  shows "pick_next nxt idle c p = Some (case dropWhile idle xs of [] \<Rightarrow> None | x # _ \<Rightarrow> Some x)"
  using assms
proof (induction xs arbitrary: p)
  case (Cons x xs)
  show ?case
  proof (cases "idle x")
    case True
    have "nxt x = c \<longleftrightarrow> xs = []" using Cons.prems lseg_start [of nxt "nxt x" xs c] by (cases xs) auto
    then show ?thesis using Cons True by (cases "xs = []") (simp_all add: pick_next.simps [of nxt idle c x])
  qed (use Cons.prems in \<open>simp add: pick_next.simps\<close>)
qed simp

section \<open>The ring of the kernel state\<close>

abbreviation sched_ring :: "kern \<Rightarrow> u64 list \<Rightarrow> bool" where
  "sched_ring s xs \<equiv> ring (ring_next s) (current_thread s) xs"

lemma ring_next_set: "ring_next (set_sched_next p v s) = (ring_next s)(p := v)"
  by (auto simp: set_sched_next_def)

lemma set_sched_next_frame [simp]:
  "current_thread (set_sched_next p v s) = current_thread s"
  "sched_next (thread_at (set_sched_next p v s) t) = (if t = p then v else ring_next s t)"
  "status (thread_at (set_sched_next p v s) t) = status (thread_at s t)"
  by (simp_all add: set_sched_next_def)

lemma set_status_frame [simp]:
  "current_thread (set_status p v s) = current_thread s"
  "sched_next (thread_at (set_status p v s) t) = ring_next s t"
  "status (thread_at (set_status p v s) t) = (if t = p then v else status (thread_at s t))"
  by (simp_all add: set_status_def)

lemma ring_members_ring:
  assumes "sched_ring s xs"
  shows "ring_members s = Some (current_thread s # xs)"
proof -
  have "foldo (\<lambda>p ys. Some (ys @ [p])) xs zs = Some (zs @ xs)" for zs
    by (induction xs arbitrary: zs) auto
  moreover have "each (\<lambda>_. ring_next s) (\<lambda>p _. p = current_thread s) (\<lambda>p xs. Some (xs @ [p]))
      (ring_next s (current_thread s)) [current_thread s] = foldo (\<lambda>p ys. Some (ys @ [p])) xs [current_thread s]"
    using ring_parts [OF assms] by (intro each_lseg [where q = "current_thread s"]) auto
  ultimately show ?thesis using ring_parts(1) [OF assms] by (simp add: ring_members_def)
qed

lemma in_ring:
  assumes "sched_ring s xs" and "t \<noteq> 0"
  shows "thread_in_scheduler_ring t s = Some (t \<in> set (current_thread s # xs))"
proof (cases "t \<in> set xs")
  case True
  then obtain ys zs where xs: "xs = ys @ t # zs" "t \<notin> set ys" by (meson split_list_first)
  have "chase (ring_next s) (\<lambda>p. p = current_thread s \<or> p = t) (current_thread s) (ring_next s (current_thread s)) =
      Some (last (current_thread s # ys), t)"
    using ring_parts [OF assms(1)] xs by (intro chase_find [where zs = zs and q = "current_thread s"]) auto
  then show ?thesis using assms True ring_parts(1,2) [OF assms(1)] by (auto simp: thread_in_scheduler_ring_def Let_def)
next
  case False
  have "takeWhile (\<lambda>p. \<not> (p = current_thread s \<or> p = t)) xs = xs" "dropWhile (\<lambda>p. \<not> (p = current_thread s \<or> p = t)) xs = []"
    using ring_parts(2) [OF assms(1)] False by auto
  then have "chase (ring_next s) (\<lambda>p. p = current_thread s \<or> p = t) (current_thread s) (ring_next s (current_thread s)) =
      Some (last (current_thread s # xs), current_thread s)"
    using chase_lseg [OF ring_parts(5) [OF assms(1)], of "\<lambda>p. p = current_thread s \<or> p = t"]
    by (simp only: list.case simp_thms)
  then show ?thesis using assms False ring_parts(1) [OF assms(1)] by (auto simp: thread_in_scheduler_ring_def Let_def)
qed

lemma append_ring:
  assumes "sched_ring s xs" and "t \<noteq> 0" and "status (thread_at s t) = TASK_READY" and "t \<notin> set (current_thread s # xs)"
  shows "\<exists>s'. thread_append t s = Some s' \<and> sched_ring s' (xs @ [t]) \<and> current_thread s' = current_thread s \<and>
    (\<forall>p. status (thread_at s' p) = status (thread_at s p))"
proof -
  let ?c = "current_thread s" and ?u = "last (current_thread s # xs)"
  let ?s = "set_sched_next t ?c (set_sched_next ?u t s)"
  have "chase (ring_next s) (\<lambda>p. ring_next s p = ?c) 0 ?c = Some (last (0 # butlast (?c # xs)), ?u)"
    using ring_pred(2) [of "ring_next s" ?c xs "[]"] assms(1) by simp
  then have "thread_append t s = Some ?s"
    using assms in_ring [OF assms(1,2)] ring_parts(1) [OF assms(1)] by (simp add: thread_append_def Let_def)
  moreover have "sched_ring ?s (xs @ [t])"
    using ring_insert [OF assms(1,2,4)] unfolding ring_next_set by simp
  moreover have "\<forall>p. status (thread_at ?s p) = status (thread_at s p)" by simp
  moreover have "current_thread ?s = current_thread s" by simp
  ultimately show ?thesis by blast
qed

lemma remove_ring:
  assumes "sched_ring s xs" and "v \<noteq> 0" and "v \<noteq> current_thread s"
  shows "\<exists>s'. thread_remove_from_scheduler v s = Some s' \<and> sched_ring s' (remove1 v xs) \<and>
    current_thread s' = current_thread s \<and> (v \<notin> set xs \<longrightarrow> s' = s) \<and>
    (\<forall>p. thread_at s' p = (thread_at s p)\<lparr>sched_next := ring_next s' p\<rparr>) \<and>
    (\<exists>f. s' = s\<lparr>thread_at := f\<rparr>)"
proof (cases "v \<in> set xs")
  case True
  then obtain ys zs where xs: "xs = ys @ v # zs" "v \<notin> set ys" by (meson split_list_first)
  let ?c = "current_thread s" and ?u = "last (current_thread s # ys)"
  let ?s = "set_sched_next v 0 (set_sched_next ?u (ring_next s v) s)"
  have r: "ring (ring_next s) ?c (ys @ v # zs)" using assms(1) xs(1) by simp
  have "chase (ring_next s) (\<lambda>p. ring_next s p = ?c \<or> ring_next s p = v) 0 ?c = Some (last (0 # butlast (?c # ys)), ?u)"
    "ring_next s ?u = v"
    using ring_pred [of "ring_next s" ?c ys "v # zs" v] r by simp_all
  then have "thread_remove_from_scheduler v s = Some ?s"
    using assms ring_parts(1) [OF assms(1)] by (simp add: thread_remove_from_scheduler_def Let_def)
  moreover have "sched_ring ?s (remove1 v xs)" using ring_remove [OF r] xs unfolding ring_next_set by (simp add: remove1_append)
  moreover have "\<forall>p. thread_at ?s p = (thread_at s p)\<lparr>sched_next := ring_next ?s p\<rparr>"
    by (auto simp: set_sched_next_def)
  moreover have "\<exists>f. ?s = s\<lparr>thread_at := f\<rparr>" by (auto simp: set_sched_next_def upd_thread_def)
  moreover have "current_thread ?s = current_thread s" by simp
  ultimately show ?thesis using True by blast
next
  case False
  let ?c = "current_thread s"
  define us where "us = butlast (?c # xs)"
  define u where "u = last (?c # xs)"
  have cy: "?c # xs = us @ [u]" unfolding us_def u_def by (rule append_butlast_last_id [symmetric]) simp
  have seg: "lseg (ring_next s) ?c (us @ [u]) ?c" using ring_parts(6) [OF assms(1)] by (simp add: cy)
  have u: "ring_next s u = ?c" using lseg_last [OF seg] .
  have "\<not> (ring_next s x = ?c \<or> ring_next s x = v)" if "x \<in> set us" for x
    using lseg_succ [OF seg that] False ring_parts(2) [OF assms(1)] by (auto simp: cy [symmetric])
  then have "chase (ring_next s) (\<lambda>p. ring_next s p = ?c \<or> ring_next s p = v) 0 ?c = Some (last (0 # us), u)"
    using seg u False ring_parts(2) [OF assms(1)] by (intro chase_find [where zs = "[]" and q = ?c]) auto
  then have "thread_remove_from_scheduler v s = Some s"
    using assms u ring_parts(1) [OF assms(1)] by (simp add: thread_remove_from_scheduler_def Let_def)
  moreover have "\<exists>f. s = s\<lparr>thread_at := f\<rparr>" by (rule exI [of _ "thread_at s"]) simp
  ultimately show ?thesis using assms(1) False by (simp add: remove1_idem)
qed

end
