(* ===== verification/Mem_Frame.thy ===== *)
theory Mem_Frame
  imports Objects
begin

text \<open>
  What the memory manager and the heap leave alone: whatever a call does to page accounting, page
  frames and heap headers, the objects of the kernel, its lists and the list of live threads stay
  as they were.
\<close>

section \<open>Pages and page tables\<close>

lemma env_fail: "same_env s (s\<lparr>pmm_fail_allocations := k\<rparr>)"
  by (simp add: same_env_def)

lemma env_alloc: "same_env s (snd (alloc_pages_owned n ow s))"
  by (auto simp: alloc_pages_owned_def alloc_pages_owned_locked_def same_env_mark env_fail
      intro: fold_same_env split: option.split)

lemma env_free: "same_env s (snd (free_pages_owned pa n ow s))"
  by (auto simp: free_pages_owned_def Let_def same_env_release intro: fold_same_env)

lemma env_alloc_page: "same_env s (snd (alloc_page_owned ow s))"
  unfolding alloc_page_owned_def by (rule env_alloc)

lemma env_free_page: "same_env s (snd (free_page_owned pa ow s))"
  unfolding free_page_owned_def by (rule env_free)

lemma env_acquire: "same_env s (snd (pmm_acquire_user_mapping pa s))"
  by (simp add: pmm_acquire_user_mapping_def Let_def same_env_def)

lemma env_release: "same_env s (snd (pmm_release_user_mapping pa s))"
  by (simp add: pmm_release_user_mapping_def Let_def same_env_def)

lemma env_set_tbl: "same_env s (set_tbl pa i v s)"
  by (simp add: set_tbl_def same_env_def)

lemma env_zero_frame: "same_env s (zero_frame pa s)"
  by (simp add: zero_frame_def same_env_def)

lemma env_undo: "same_env s (undo_table t i n s)"
  unfolding undo_table_def by (auto intro: same_env_trans [OF env_set_tbl env_free_page])

lemma env_ensure: "same_env s (snd (ensure_table t i fl s))"
proof (cases "alloc_page_owned PAGE_OWNER_PAGE_TABLE s")
  case (Pair a s1)
  then have "same_env s s1" using env_alloc_page [of s PAGE_OWNER_PAGE_TABLE] by simp
  then have "same_env s (set_tbl t i v (zero_frame a s1))" "same_env s s1" for v
    by (auto intro: same_env_trans [OF _ env_set_tbl] same_env_trans [OF _ env_zero_frame])
  then show ?thesis by (simp add: ensure_table_def Pair env_set_tbl)
qed

lemma env_with_table:
  assumes "\<And>s. same_env s (undo s)"
    and "\<And>undo' t' s. (\<And>s. same_env s (undo' s)) \<Longrightarrow> same_env s (snd (rest undo' t' s))"
  shows "same_env s (snd (with_table undo t i fl rest s))"
proof (cases "ensure_table t i fl s")
  case (Pair r s1)
  have e: "same_env s s1" using env_ensure [of s t i fl] Pair by simp
  show ?thesis
  proof (cases r)
    case None
    then show ?thesis using e Pair same_env_trans [OF e assms(1)] by (simp add: with_table_def)
  next
    case (Some n)
    have "same_env s1 (snd (rest (undo \<circ> undo_table t i n) (tbl s1 t i AND PTE_ADDR_MASK) s1))"
      by (rule assms(2)) (auto intro: same_env_trans [OF env_undo assms(1)])
    then show ?thesis using e Pair Some by (auto simp: with_table_def intro: same_env_trans)
  qed
qed

lemma env_map_leaf:
  assumes "\<And>s. same_env s (undo s)"
  shows "same_env s (snd (map_leaf i pa fl undo pt s))"
proof -
  have u: "same_env s (undo (set_tbl p k v t))" if "same_env s t" for p k v t
    using same_env_trans [OF same_env_trans [OF that env_set_tbl] assms] .
  have a: "same_env s (snd (pmm_acquire_user_mapping pa (set_tbl p k v s)))" for p k v
    using same_env_trans [OF env_set_tbl env_acquire] .
  then show ?thesis
    by (auto simp: map_leaf_def Let_def env_set_tbl u split: prod.splits) (metis snd_conv u a)+
qed

lemma env_map_page: "same_env s (snd (map_page cr3 va pa fl s))"
  unfolding map_page_def
  by (auto intro!: env_with_table env_map_leaf)

lemma env_prune: "same_env s (prune_tables cr3 va s)"
proof -
  have f: "same_env s (snd (free_page_owned p ow (set_tbl t i v u)))" if "same_env s u" for p ow t i v u
    using same_env_trans [OF same_env_trans [OF that env_set_tbl] env_free_page] .
  show ?thesis by (simp add: prune_tables_def Let_def f)
qed

lemma env_unmap: "same_env s (snd (unmap_user_page cr3 va ow s))"
proof (cases "get_user_pte cr3 va s")
  case (Some e)
  obtain pt i where e: "e = (pt, i)" by (cases e)
  have r: "same_env s (snd (if ow = PAGE_OWNER_USER then pmm_release_user_mapping p (set_tbl pt i 0 s)
      else free_page_owned p ow (set_tbl pt i 0 s)))" for p
    using same_env_trans [OF env_set_tbl env_release] same_env_trans [OF env_set_tbl env_free_page] by auto
  have "same_env s (snd (case (if ow = PAGE_OWNER_USER then pmm_release_user_mapping p (set_tbl pt i 0 s)
      else free_page_owned p ow (set_tbl pt i 0 s)) of (r, s2) \<Rightarrow> if r \<noteq> 0 then (- 1 :: int, s2) else (0, prune_tables cr3 va s2)))" for p
    using r [of p] by (auto split: prod.splits intro: same_env_trans [OF _ env_prune])
  from this [of "tbl s pt i AND PTE_ADDR_MASK"] show ?thesis
    by (cases "ow = PAGE_OWNER_USER") (simp_all add: unmap_user_page_def Some e Let_def)
qed (simp add: unmap_user_page_def)

lemma env_create: "same_env s (snd (create_page_dir s))" for s :: "'a pmm_scheme"
proof (cases "alloc_page_owned PAGE_OWNER_PAGE_TABLE s")
  case (Pair a s1)
  then have "same_env s s1" using env_alloc_page [of s PAGE_OWNER_PAGE_TABLE] by simp
  moreover have "same_env t (copy_kernel_half a t)" for t :: "'a pmm_scheme"
    unfolding copy_kernel_half_def by (rule fold_same_env) (rule env_set_tbl)
  ultimately show ?thesis
    using same_env_trans [OF same_env_trans [OF _ env_zero_frame [of s1 a]], of s "copy_kernel_half a (zero_frame a s1)"]
    by (simp add: create_page_dir_def Pair)
qed

lemma env_destroy_pt: "same_env s (destroy_pt pt s)"
  unfolding destroy_pt_def Let_def
  by (rule fold_same_env) (auto intro: same_env_trans [OF env_release env_set_tbl] env_set_tbl)

lemma env_destroy_pd: "same_env s (destroy_pd pd s)"
  unfolding destroy_pd_def Let_def
  by (rule fold_same_env)
    (auto intro: same_env_trans [OF same_env_trans [OF env_destroy_pt env_free_page] env_set_tbl])

lemma env_destroy_pdpt: "same_env s (destroy_pdpt pdpt s)"
  unfolding destroy_pdpt_def Let_def
  by (rule fold_same_env)
    (auto intro: same_env_trans [OF same_env_trans [OF env_destroy_pd env_free_page] env_set_tbl])

lemma env_destroy: "same_env s (destroy_user_address_space cr3 s)"
proof -
  have "same_env s (fold (\<lambda>i s. if tbl s cr3 i AND PTE_P = 0 then s
      else set_tbl cr3 i 0 (snd (free_page_owned (tbl s cr3 i AND PTE_ADDR_MASK) PAGE_OWNER_PAGE_TABLE
             (destroy_pdpt (tbl s cr3 i AND PTE_ADDR_MASK) s)))) [0..<256] s)"
    by (rule fold_same_env)
      (auto intro: same_env_trans [OF same_env_trans [OF env_destroy_pdpt env_free_page] env_set_tbl])
  from same_env_trans [OF this env_free_page] show ?thesis
    unfolding destroy_user_address_space_def Let_def by simp
qed

lemmas env_pages = env_alloc_page env_free_page env_acquire env_release env_set_tbl env_zero_frame
  env_map_page env_unmap env_create env_destroy

lemma env_kern:
  assumes "same_env s (s' :: kern)"
  shows "pmm.more s' = pmm.more s" "live_threads s' = live_threads s"
  using assms by (simp_all add: same_env_def)

section \<open>The heap\<close>

definition same_kern :: "'a heap_scheme \<Rightarrow> 'a heap_scheme \<Rightarrow> bool" where
  "same_kern s s' \<longleftrightarrow> heap.more s' = heap.more s \<and> live_threads s' = live_threads s"

lemma same_kern_refl [simp, intro]: "same_kern s s"
  by (simp add: same_kern_def)

lemma same_kern_trans [trans]: "same_kern s t \<Longrightarrow> same_kern t u \<Longrightarrow> same_kern s u"
  by (simp add: same_kern_def)

lemma env_same_kern: "same_env s s' \<Longrightarrow> same_kern s s'" for s :: "'a heap_scheme"
  by (cases s; cases s') (simp add: same_env_def same_kern_def)

lemma kern_heap_more:
  assumes "same_kern s (s' :: kern)"
  shows "thread_at s' = thread_at s" "process_at s' = process_at s" "vma_at s' = vma_at s"
    "file_at s' = file_at s" "pipe_at s' = pipe_at s" "current_thread s' = current_thread s"
    "next_tid s' = next_tid s" "preempt_disable_count s' = preempt_disable_count s"
    "need_resched s' = need_resched s" "kernel_process s' = kernel_process s"
    "process_list s' = process_list s" "next_pid s' = next_pid s" "the_cpu s' = the_cpu s"
    "the_fs s' = the_fs s" "sleep_head s' = sleep_head s" "system_ticks s' = system_ticks s"
    "futex_head s' = futex_head s" "waiter_count s' = waiter_count s"
    "active_file_objects s' = active_file_objects s" "active_pipe_objects s' = active_pipe_objects s"
    "foreground_pid s' = foreground_pid s" "entries s' = entries s"
  using assms by (cases s; cases s'; simp add: same_kern_def)+

lemma same_kern_upd [simp]: "same_kern s (upd_arena a f s)" "same_kern s (upd_block a g s)"
  by (simp_all add: same_kern_def upd_arena_def upd_block_def)

lemma same_kern_link: "same_kern s (link_arena a s)" "same_kern s (unlink_arena a s)"
  by (auto simp: link_arena_def unlink_arena_def Let_def same_kern_def upd_arena_def)

lemma same_kern_blocks:
  "same_kern s (split_block b n s)" "same_kern s (merge_with_next b s)" "same_kern s (snd (take_block n a b s))"
  by (auto simp: split_block_def merge_with_next_def take_block_def Let_def same_kern_def upd_arena_def upd_block_def)

lemma same_kern_create: "same_kern s (snd (create_arena n s))"
proof -
  have a: "same_kern s s1" if "alloc_pages_owned k ow s = (pa, s1)" for k ow pa s1
    using env_same_kern [OF env_alloc [of s k ow]] that by simp
  have z: "same_kern t (zero_pages pa k t)" for pa k and t :: "'a heap_scheme"
    unfolding zero_pages_def by (induction k) (auto simp: same_kern_def)
  have "same_kern s (link_arena a (upd_block b f (upd_arena c g (zero_pages pa k s1))))"
    if "same_kern s s1" for a b c f g pa k s1
    using same_kern_trans [OF same_kern_trans [OF same_kern_trans [OF same_kern_trans [OF that z]
      same_kern_upd(1)] same_kern_upd(2)] same_kern_link(1)] .
  then show ?thesis
    by (auto simp: create_arena_def Let_def split: option.splits prod.splits dest: a)
qed

lemma same_kern_kmalloc_loop:
  assumes "kmalloc_loop n s = Some r"
  shows "same_kern s (snd r)"
proof (rule kmalloc_loop.raw_induct [OF _ assms, where P = "\<lambda>n s r. same_kern s (snd r)"])
  fix loop n and s :: "'a heap_scheme" and r
  assume ih: "\<And>n s r. loop n s = Some r \<Longrightarrow> same_kern s (snd r)"
    and body: "(case search_arenas n (heap_arenas s) s of None \<Rightarrow> None
      | Some (arena, block) \<Rightarrow>
          if block \<noteq> 0 then Some (take_block n arena block s)
          else case create_arena n s of (a, s1) \<Rightarrow> if a = 0 then Some (0, s1) else loop n s1) = Some r"
  obtain a s1 where c: "create_arena n s = (a, s1)" by (cases "create_arena n s")
  then have "same_kern s s1" using same_kern_create [of s n] by simp
  then show "same_kern s (snd r)"
    using body ih [of n s1 r] c
    by (auto simp: same_kern_blocks(3) same_kern_create split: option.splits prod.splits if_splits intro: same_kern_trans)
qed

lemma same_kern_kmalloc: "kmalloc n s = Some (p, s') \<Longrightarrow> same_kern s s'"
  by (auto simp: kmalloc_def split: if_splits option.splits dest: same_kern_kmalloc_loop)

lemma same_kern_reclaim: "same_kern s (reclaim_empty_arena a s)"
proof -
  have f: "same_kern s s2" if "free_pages_owned pa k ow (unlink_arena a s) = (r, s2)" for pa k ow r s2
    using same_kern_trans [OF same_kern_link(2) [of s a] env_same_kern [OF env_free [of "unlink_arena a s" pa k ow]]] that by simp
  then show ?thesis
    by (auto simp: reclaim_empty_arena_def Let_def split: prod.splits intro: same_kern_trans [OF _ same_kern_link(1)])
qed

lemma same_kern_kfree:
  assumes "kfree p s = Some (r, s')"
  shows "same_kern s s'"
proof -
  have m: "same_kern s (merge_with_next b (upd_arena a f (upd_block c g s)))" for a b c f g
    by (rule same_kern_trans [OF same_kern_trans [OF same_kern_upd(2) same_kern_upd(1)] same_kern_blocks(2)])
  have "same_kern s (reclaim_empty_arena d (merge_with_next e (merge_with_next b (upd_arena a f (upd_block c g s)))))"
    "same_kern s (reclaim_empty_arena d (merge_with_next b (upd_arena a f (upd_block c g s))))" for a b c d e f g
    by (rule same_kern_trans [OF same_kern_trans [OF m same_kern_blocks(2)] same_kern_reclaim])
      (rule same_kern_trans [OF m same_kern_reclaim])
  then show ?thesis using assms by (auto simp: kfree_def Let_def split: if_splits option.splits)
qed

end
