(* ===== verification/Thread_Lists.thy ===== *)
theory Thread_Lists
  imports Sched_Ring Mem_Frame
begin

text \<open>
  Freeing thread objects: the sleep queue and the lists of the threads of each process stay
  well-formed, the call returns, and nothing but the freed thread and links to it change.
\<close>

section \<open>The lists as instances of the list interface\<close>

interpretation sleepq: link_list sleep_head sleep_link set_sleep_head set_sleep_next
  by unfold_locales (auto simp: set_sleep_head_def set_sleep_next_def upd_thread_def)

interpretation members: link_list "\<lambda>s. thread_head (process_at s p)" "\<lambda>s t. process_next (thread_at s t)"
    "set_thread_head p" set_process_next for p
  by unfold_locales (auto simp: set_thread_head_def set_process_next_def upd_thread_def upd_process_def)

abbreviation sleepers :: "kern \<Rightarrow> u64 list \<Rightarrow> bool" where
  "sleepers s zs \<equiv> chain (sleep_link s) (sleep_head s) zs"

definition threads_of :: "kern \<Rightarrow> u64 \<Rightarrow> u64 list \<Rightarrow> bool" where
  "threads_of s p ts \<longleftrightarrow>
     chain (\<lambda>t. process_next (thread_at s t)) (thread_head (process_at s p)) ts \<and>
     (\<forall>t \<in> set ts. thread_process (thread_at s t) = p)"

definition lists_ok :: "kern \<Rightarrow> bool" where
  "lists_ok s \<longleftrightarrow> (\<exists>zs. sleepers s zs) \<and> (\<forall>p. p \<noteq> 0 \<longrightarrow> (\<exists>ts. threads_of s p ts))"

section \<open>The frame of freeing a thread\<close>

text \<open>A thread without its links in the two lists, and a process without its list of threads.\<close>

definition core :: "thread \<Rightarrow> thread" where
  "core x = x\<lparr>sleep_next := 0, process_next := 0\<rparr>"

definition pcore :: "process \<Rightarrow> process" where
  "pcore x = x\<lparr>thread_head := 0, main_thread := 0, thread_count := 0\<rparr>"

lemma core_simps [simp]:
  "core (x\<lparr>sleep_next := v\<rparr>) = core x" "core (x\<lparr>process_next := v\<rparr>) = core x"
  "pcore (y\<lparr>thread_head := v\<rparr>) = pcore y" "pcore (y\<lparr>main_thread := v\<rparr>) = pcore y"
  "pcore (y\<lparr>thread_count := n\<rparr>) = pcore y"
  by (simp_all add: core_def pcore_def)

lemma core_fields:
  assumes "core x = core y"
  shows "status x = status y" "sched_next x = sched_next y" "lifecycle x = lifecycle y"
    "thread_process x = thread_process y" "object_paddr x = object_paddr y" "stack_base x = stack_base y"
    "rsp x = rsp y" "user_rsp x = user_rsp y" "kernel_stack_top x = kernel_stack_top y" "tls_base x = tls_base y"
  using arg_cong [OF assms, of status] arg_cong [OF assms, of sched_next] arg_cong [OF assms, of lifecycle]
    arg_cong [OF assms, of thread_process] arg_cong [OF assms, of object_paddr] arg_cong [OF assms, of stack_base]
    arg_cong [OF assms, of rsp] arg_cong [OF assms, of user_rsp] arg_cong [OF assms, of kernel_stack_top]
    arg_cong [OF assms, of tls_base]
  by (simp_all add: core_def)

lemma pcore_fields:
  assumes "pcore x = pcore y"
  shows "proc_state x = proc_state y" "parent x = parent y" "cr3_paddr x = cr3_paddr y" "pid x = pid y"
    "next_all x = next_all y"
  using arg_cong [OF assms, of proc_state] arg_cong [OF assms, of parent] arg_cong [OF assms, of cr3_paddr]
    arg_cong [OF assms, of pid] arg_cong [OF assms, of next_all]
  by (simp_all add: pcore_def)

definition thread_frame :: "u64 \<Rightarrow> kern \<Rightarrow> kern \<Rightarrow> bool" where
  "thread_frame v s s' \<longleftrightarrow>
     current_thread s' = current_thread s \<and> kernel_process s' = kernel_process s \<and>
     process_list s' = process_list s \<and> the_cpu s' = the_cpu s \<and> need_resched s' = need_resched s \<and>
     preempt_disable_count s' = preempt_disable_count s \<and>
     sched_next (thread_at s' v) = ring_next s v \<and> status (thread_at s' v) = status (thread_at s v) \<and>
     (\<forall>t. t \<noteq> v \<longrightarrow> core (thread_at s' t) = core (thread_at s t)) \<and>
     (\<forall>p. pcore (process_at s' p) = pcore (process_at s p))"

lemma thread_frame_refl [simp]: "thread_frame v s s"
  by (simp add: thread_frame_def)

lemma thread_frame_trans [trans]: "thread_frame v s s1 \<Longrightarrow> thread_frame v s1 s2 \<Longrightarrow> thread_frame v s s2"
  by (simp add: thread_frame_def)

lemma thread_frame_same:
  assumes "thread_at s' = thread_at s" "process_at s' = process_at s" "current_thread s' = current_thread s"
    "kernel_process s' = kernel_process s" "process_list s' = process_list s" "the_cpu s' = the_cpu s"
    "need_resched s' = need_resched s" "preempt_disable_count s' = preempt_disable_count s"
  shows "thread_frame v s s'"
  using assms by (simp add: thread_frame_def)

lemma thread_frame_env: "same_env s s' \<Longrightarrow> thread_frame v s s'"
  using kern_more [OF env_kern(1)] by (intro thread_frame_same) auto

lemma lists_ok_same:
  assumes "thread_at s' = thread_at s" "process_at s' = process_at s" "sleep_head s' = sleep_head s"
  shows "lists_ok s' = lists_ok s"
  by (simp add: lists_ok_def threads_of_def assms)

lemma lists_ok_env: "same_env s s' \<Longrightarrow> lists_ok s' = lists_ok s"
  using kern_more [OF env_kern(1)] by (intro lists_ok_same) auto

section \<open>The steps of freeing a thread\<close>

lemma frame_links:
  "thread_frame v s (set_sleep_head w s)" "thread_frame v s (set_sleep_next q w s)"
  "thread_frame v s (set_thread_head p w s)" "thread_frame v s (set_process_next q w s)"
  by (simp_all add: thread_frame_def set_sleep_head_def set_sleep_next_def set_thread_head_def set_process_next_def)

lemma frame_self:
  assumes "\<And>x. sched_next (f x) = sched_next x" and "\<And>x. status (f x) = status x"
  shows "thread_frame v s (upd_thread v f s)"
  using assms by (simp add: thread_frame_def)

lemma with_ring_ok:
  assumes "sched_ring s xs"
  obtains ls where "with_ring s = Some (s\<lparr>live_threads := ls\<rparr>)"
  using ring_members_ring [OF assms] by (simp add: with_ring_def)

lemma thread_frame_live [simp]: "thread_frame v s (s\<lparr>live_threads := ls\<rparr>)"
  by (rule thread_frame_same) simp_all

lemma lists_ok_live [simp]: "lists_ok (s\<lparr>live_threads := ls\<rparr>) = lists_ok s"
  by (rule lists_ok_same) simp_all

lemma threads_of_cong:
  assumes "\<And>t. t \<in> set ts \<Longrightarrow> process_next (thread_at s' t) = process_next (thread_at s t)"
    and "\<And>t. t \<in> set ts \<Longrightarrow> thread_process (thread_at s' t) = thread_process (thread_at s t)"
    and "thread_head (process_at s' p) = thread_head (process_at s p)"
  shows "threads_of s' p ts = threads_of s p ts"
  using assms chain_cong [of ts "\<lambda>t. process_next (thread_at s' t)" "\<lambda>t. process_next (thread_at s t)"]
  by (simp add: threads_of_def)

lemma cancel_sleep:
  assumes "lists_ok s" and "t \<noteq> 0"
  shows "\<exists>s'. timer_cancel_thread_sleep t s = Some s' \<and> thread_frame t s s' \<and> lists_ok s'"
proof (cases "sleeping (thread_at s t)")
  case True
  obtain zs where zs: "sleepers s zs" using assms(1) by (auto simp: lists_ok_def)
  obtain s1 where s1: "list_unlink sleep_head sleep_link set_sleep_head set_sleep_next t s = Some (t \<in> set zs, s1)"
    "sleepers s1 (remove1 t zs)"
    using sleepq.unlink [OF zs assms(2)] by blast
  let ?s = "upd_thread t (\<lambda>x. x\<lparr>sleep_next := 0, sleeping := False\<rparr>) s1"
  have fr: "thread_frame t s s1 \<and> process_at s1 = process_at s \<and>
      (\<forall>u. process_next (thread_at s1 u) = process_next (thread_at s u) \<and>
           thread_process (thread_at s1 u) = thread_process (thread_at s u))"
    using s1(1) by (rule list_unlink_cases)
      (simp_all add: frame_links, simp_all add: set_sleep_head_def set_sleep_next_def)
  have "t \<notin> set (remove1 t zs)" using zs by (simp add: chain_def)
  then have "chain (sleep_link ?s) (sleep_head s1) (remove1 t zs) = sleepers s1 (remove1 t zs)"
    by (intro chain_cong) auto
  then have "sleepers ?s (remove1 t zs)" using s1(2) by simp
  moreover have "threads_of ?s p ts = threads_of s p ts" for p ts
    by (rule threads_of_cong) (auto simp: fr)
  ultimately have "lists_ok ?s" using assms(1) by (auto simp: lists_ok_def)
  moreover have "thread_frame t s1 ?s" by (rule frame_self) simp_all
  ultimately show ?thesis
    using s1(1) True assms(2) thread_frame_trans [OF conjunct1 [OF fr]]
    by (auto simp: timer_cancel_thread_sleep_def sleep_unlink_locked_def)
qed (use assms in \<open>simp add: timer_cancel_thread_sleep_def\<close>)

lemma unmap_pages:
  assumes "sched_ring s xs"
  shows "\<exists>s'. unmap_thread_pages t s = Some s' \<and> thread_frame t s s' \<and> lists_ok s' = lists_ok s"
proof -
  obtain ls where w: "with_ring s = Some (s\<lparr>live_threads := ls\<rparr>)" using with_ring_ok [OF assms] .
  define s0 where "s0 = s\<lparr>live_threads := ls\<rparr>"
  have "\<exists>s'. unmap_thread_pages t s = Some s' \<and> (s' = s \<or> same_env s0 s')"
    using w by (auto simp: unmap_thread_pages_def Let_def s0_def env_unmap same_env_trans [OF env_unmap env_unmap])
  then obtain s' where s': "unmap_thread_pages t s = Some s'" "s' = s \<or> same_env s0 s'" by blast
  moreover have "thread_frame t s s0" "lists_ok s0 = lists_ok s" by (simp_all add: s0_def)
  ultimately show ?thesis
    using thread_frame_trans thread_frame_env lists_ok_env [of s0 s'] by blast
qed

lemma free_k_page:
  assumes "sched_ring s xs"
  shows "\<exists>r s'. k_free_page pa ow s = Some (r, s') \<and> thread_frame t s s' \<and> lists_ok s' = lists_ok s"
proof -
  obtain ls where w: "with_ring s = Some (s\<lparr>live_threads := ls\<rparr>)" using with_ring_ok [OF assms] .
  let ?s = "s\<lparr>live_threads := ls\<rparr>"
  obtain r s' where f: "free_page_owned pa ow ?s = (r, s')" by fastforce
  then have e: "same_env ?s s'" using env_free_page [of ?s pa ow] by simp
  have "thread_frame t s s'" by (rule thread_frame_trans [OF thread_frame_live thread_frame_env [OF e]])
  moreover have "lists_ok s' = lists_ok s" using lists_ok_env [OF e] by simp
  ultimately show ?thesis using w f by (simp add: k_free_page_def)
qed

lemma frame_threads:
  assumes "thread_frame v s s'"
  shows "ring_next s' t = ring_next s t" "status (thread_at s' t) = status (thread_at s t)"
  using assms core_fields [of "thread_at s' t" "thread_at s t"] by (cases "t = v"; simp add: thread_frame_def)+

lemma frame_ring: "thread_frame v s s' \<Longrightarrow> sched_ring s xs \<Longrightarrow> sched_ring s' xs"
  using frame_threads(1) [of v s s'] by (simp add: thread_frame_def)

lemma members_other:
  assumes "threads_of s p ts" and "threads_of s q us" and "p \<noteq> q"
  shows "set ts \<inter> set us = {}"
  using assms by (auto simp: threads_of_def)

text \<open>Taking a thread out of the list of its process.\<close>

lemma unlink_member:
  assumes "lists_ok s" and "t \<noteq> 0"
  shows "\<exists>s'. unlink_thread_from_process t s = Some s' \<and> thread_frame t s s' \<and> lists_ok s'"
proof (cases "thread_process (thread_at s t) = 0")
  case False
  let ?p = "thread_process (thread_at s t)"
  obtain ts where ts: "threads_of s ?p ts" using assms(1) False by (auto simp: lists_ok_def)
  then have ch: "chain (\<lambda>t. process_next (thread_at s t)) (thread_head (process_at s ?p)) ts"
    by (simp add: threads_of_def)
  obtain s1 where s1: "list_unlink (\<lambda>s. thread_head (process_at s ?p)) (\<lambda>s t. process_next (thread_at s t))
      (set_thread_head ?p) set_process_next t s = Some (t \<in> set ts, s1)"
    "chain (\<lambda>t. process_next (thread_at s1 t)) (thread_head (process_at s1 ?p)) (remove1 t ts)"
    "\<And>u. u \<notin> set ts \<Longrightarrow> process_next (thread_at s1 u) = process_next (thread_at s u)"
    using members.unlink [OF ch assms(2)] by blast
  define s2 where "s2 = (if t \<in> set ts then
      upd_process ?p (\<lambda>x. x\<lparr>main_thread := (if main_thread x = t then thread_head x else main_thread x),
        thread_count := (if thread_count x \<noteq> 0 then thread_count x - 1 else thread_count x)\<rparr>) s1 else s1)"
  let ?s = "upd_thread t (\<lambda>x. x\<lparr>process_next := 0, thread_process := 0\<rparr>) s2"
  have eq: "unlink_thread_from_process t s = Some ?s"
    using s1(1) False assms(2) by (auto simp: unlink_thread_from_process_def Let_def s2_def)
  have fr: "thread_frame t s s1" using s1(1) by (rule list_unlink_cases) (simp_all add: frame_links)
  moreover have "thread_frame t s1 s2" by (simp add: s2_def thread_frame_def)
  moreover have "thread_frame t s2 ?s" by (rule frame_self) simp_all
  ultimately have frame: "thread_frame t s ?s" by (blast intro: thread_frame_trans)
  have other: "thread_process (thread_at s1 u) = thread_process (thread_at s u)" "sleep_link s1 u = sleep_link s u"
    "sleep_head s1 = sleep_head s" "q \<noteq> ?p \<Longrightarrow> thread_head (process_at s1 q) = thread_head (process_at s q)" for u q
    using s1(1) by (rule list_unlink_cases; simp add: set_thread_head_def set_process_next_def)+
  have s2: "thread_at s2 = thread_at s1" "thread_head (process_at s2 q) = thread_head (process_at s1 q)" for q
    by (simp_all add: s2_def)
  have out: "t \<notin> set (remove1 t ts)" using ch by (simp add: chain_def)
  have "chain (\<lambda>u. process_next (thread_at ?s u)) h (remove1 t ts) = chain (\<lambda>u. process_next (thread_at s1 u)) h (remove1 t ts)" for h
    using out by (intro chain_cong) (auto simp: s2)
  then have own: "threads_of ?s ?p (remove1 t ts)"
    using ts s1(2) out set_remove1_subset [of t ts] by (auto simp: threads_of_def s2 other)
  have "threads_of ?s q us" if us: "threads_of s q us" "q \<noteq> ?p" for q us
  proof -
    have d: "t \<notin> set us" "\<And>u. u \<in> set us \<Longrightarrow> u \<notin> set ts"
      using us members_other [OF ts us(1)] by (auto simp: threads_of_def)
    have "threads_of ?s q us = threads_of s q us"
    proof (rule threads_of_cong)
      fix u assume "u \<in> set us"
      then have "u \<noteq> t" "u \<notin> set ts" using d by auto
      then show "process_next (thread_at ?s u) = process_next (thread_at s u)"
        "thread_process (thread_at ?s u) = thread_process (thread_at s u)"
        by (simp_all add: s2 other s1(3))
    qed (simp add: s2 other us(2))
    then show ?thesis using us(1) by simp
  qed
  then have "\<exists>us. threads_of ?s q us" if "q \<noteq> 0" for q
    using own assms(1) that unfolding lists_ok_def by (cases "q = ?p") blast+
  moreover have "sleepers ?s zs = sleepers s zs" for zs
    using chain_cong [of zs "sleep_link ?s" "sleep_link s"] by (simp add: s2 other, simp add: s2_def other)
  ultimately have "lists_ok ?s" using assms(1) by (simp add: lists_ok_def)
  then show ?thesis using eq frame by blast
qed (use assms in \<open>simp add: unlink_thread_from_process_def\<close>)

section \<open>Waking a thread\<close>

definition roused :: "thread \<Rightarrow> thread" where
  "roused x = (if status x = TASK_BLOCKED then x\<lparr>waiting_lock := 0, status := TASK_READY\<rparr> else x)"

lemma roused_fields [simp]:
  "ipc_sending (roused x) = ipc_sending x" "ipc_waiting_for (roused x) = ipc_waiting_for x" "ipc_message (roused x) = ipc_message x"
  "ipc_receiving (roused x) = ipc_receiving x" "ipc_status (roused x) = ipc_status x" "ipc_next_sender (roused x) = ipc_next_sender x"
  "ipc_sender_head (roused x) = ipc_sender_head x" "ipc_sender_tail (roused x) = ipc_sender_tail x" "status (roused x) \<noteq> TASK_BLOCKED"
  "sleeping (roused x) = sleeping x" "sleep_next (roused x) = sleep_next x" "wake_tick (roused x) = wake_tick x"
  by (simp_all add: roused_def)

lemma unblock_thread: "t \<noteq> 0 \<Longrightarrow> thread_at (thread_unblock t s) u = (if u = t then roused (thread_at s u) else thread_at s u)"
  by (simp add: thread_unblock_def roused_def)

end
