(* ===== verification/Sched_Reap.thy ===== *)
theory Sched_Reap
  imports Thread_Lists
begin

text \<open>
  Freeing threads that have left the ring, and the sweep that frees the detached threads that
  have ended.
\<close>

lemma lists_ok_upd:
  assumes "\<And>x. process_next (f x) = process_next x" "\<And>x. thread_process (f x) = thread_process x"
    "\<And>x. sleep_next (f x) = sleep_next x"
  shows "lists_ok (upd_thread t f s) = lists_ok s"
proof -
  have "threads_of (upd_thread t f s) p ts = threads_of s p ts" for p ts
    by (rule threads_of_cong) (simp_all add: assms)
  moreover have "sleepers (upd_thread t f s) zs = sleepers s zs" for zs
  proof -
    have "chain (sleep_link (upd_thread t f s)) h zs = chain (sleep_link s) h zs" for h
      by (rule chain_cong) (simp add: assms)
    then show ?thesis by simp
  qed
  ultimately show ?thesis by (simp add: lists_ok_def)
qed

lemma free_object:
  assumes ring: "sched_ring s xs" and ok: "lists_ok s" and t: "t \<noteq> 0" "t \<notin> set (current_thread s # xs)"
  shows "\<exists>s'. thread_free_object t s = Some s' \<and> thread_frame t s s' \<and> lists_ok s'"
proof -
  note tr [trans] = thread_frame_trans
  obtain s1 where s1: "timer_cancel_thread_sleep t s = Some s1" "thread_frame t s s1" "lists_ok s1"
    using cancel_sleep [OF ok t(1)] by blast
  note r1 = frame_ring [OF s1(2) ring]
  obtain s2 where s2: "unmap_thread_pages t s1 = Some s2" "thread_frame t s1 s2" "lists_ok s2"
    using unmap_pages [OF r1, of t] s1(3) by blast
  let ?a = "upd_thread t (\<lambda>x. x\<lparr>user_stack_paddr := 0, tls_paddr := 0\<rparr>) s2"
  have a: "thread_frame t s2 ?a" "lists_ok ?a"
    using s2(3) by (auto intro: frame_self simp: lists_ok_upd)
  obtain s3 where s3: "unlink_thread_from_process t ?a = Some s3" "thread_frame t ?a s3" "lists_ok s3"
    using unlink_member [OF a(2) t(1)] by blast
  let ?b = "upd_thread t (\<lambda>x. x\<lparr>object_paddr := 0, stack_base := 0\<rparr>) s3"
  have b: "thread_frame t s3 ?b" "lists_ok ?b"
    using s3(3) by (auto intro: frame_self simp: lists_ok_upd)
  have f1: "thread_frame t s ?b"
    using s1(2) s2(2) a(1) s3(2) b(1) by (blast intro: thread_frame_trans)
  have free: "\<exists>r u'. (if c then k_free_page pa ow u else Some (0, u)) = Some (r, u') \<and> thread_frame t u u' \<and> lists_ok u'"
    if "sched_ring u xs" "lists_ok u" for u c pa ow
    using free_k_page [OF that(1), of pa ow t] that(2) by auto
  let ?st = "if stack_base (thread_at s1 t) = 0 then 0 else V2P (stack_base (thread_at s1 t))"
  obtain r4 s4 where s4: "(if ?st \<noteq> 0 then k_free_page ?st PAGE_OWNER_THREAD ?b else Some (0, ?b)) = Some (r4, s4)"
    "thread_frame t ?b s4" "lists_ok s4"
    using free [OF frame_ring [OF f1 ring] b(2), of "?st \<noteq> 0" ?st PAGE_OWNER_THREAD] by blast
  have f2: "thread_frame t s s4" by (rule thread_frame_trans [OF f1 s4(2)])
  let ?ob = "object_paddr (thread_at s1 t)"
  obtain r5 s5 where s5: "(if ?ob \<noteq> 0 then k_free_page ?ob PAGE_OWNER_THREAD s4 else Some (0, s4)) = Some (r5, s5)"
    "thread_frame t s4 s5" "lists_ok s5"
    using free [OF frame_ring [OF f2 ring] s4(3), of "?ob \<noteq> 0" ?ob PAGE_OWNER_THREAD] by blast
  have "thread_free_object t s = Some s5"
    using t in_ring [OF ring t(1)] s1(1) s2(1) s3(1) s4(1) s5(1)
    by (simp add: thread_free_object_def Let_def del: if_split cong: if_cong)
  then show ?thesis using thread_frame_trans [OF f2 s5(2)] s5(3) by blast
qed

section \<open>Reaping\<close>

text \<open>A thread without its links in the ring and the two lists.\<close>

definition rcore :: "thread \<Rightarrow> thread" where
  "rcore x = (core x)\<lparr>sched_next := 0\<rparr>"

definition reap_frame :: "u64 set \<Rightarrow> kern \<Rightarrow> kern \<Rightarrow> bool" where
  "reap_frame V s s' \<longleftrightarrow>
     current_thread s' = current_thread s \<and> kernel_process s' = kernel_process s \<and>
     process_list s' = process_list s \<and> the_cpu s' = the_cpu s \<and> need_resched s' = need_resched s \<and>
     preempt_disable_count s' = preempt_disable_count s \<and>
     (\<forall>t. t \<notin> V \<longrightarrow> rcore (thread_at s' t) = rcore (thread_at s t)) \<and>
     (\<forall>p. pcore (process_at s' p) = pcore (process_at s p))"

lemma reap_frame_refl [simp]: "reap_frame V s s"
  by (simp add: reap_frame_def)

lemma reap_frame_trans: "reap_frame V s s1 \<Longrightarrow> reap_frame W s1 s2 \<Longrightarrow> reap_frame (V \<union> W) s s2"
  by (simp add: reap_frame_def)

lemma thread_reap_frame: "thread_frame v s s' \<Longrightarrow> reap_frame {v} s s'"
  by (auto simp: thread_frame_def reap_frame_def rcore_def)

lemma rcore_fields:
  assumes "rcore x = rcore y"
  shows "status x = status y" "lifecycle x = lifecycle y" "thread_process x = thread_process y"
    "rsp x = rsp y" "user_rsp x = user_rsp y" "kernel_stack_top x = kernel_stack_top y" "tls_base x = tls_base y"
  using arg_cong [OF assms, of status] arg_cong [OF assms, of lifecycle] arg_cong [OF assms, of thread_process]
    arg_cong [OF assms, of rsp] arg_cong [OF assms, of user_rsp] arg_cong [OF assms, of kernel_stack_top]
    arg_cong [OF assms, of tls_base]
  by (simp_all add: rcore_def core_def)

lemma reap_one:
  assumes ring: "sched_ring s xs" and ok: "lists_ok s" and v: "v \<in> set xs"
    and f: "\<And>x. sched_next (f x) = sched_next x" "\<And>x. process_next (f x) = process_next x"
      "\<And>x. thread_process (f x) = thread_process x" "\<And>x. sleep_next (f x) = sleep_next x"
  shows "\<exists>s1 s'. thread_remove_from_scheduler v s = Some s1 \<and> thread_free_object v (upd_thread v f s1) = Some s' \<and>
    sched_ring s' (remove1 v xs) \<and> lists_ok s' \<and> reap_frame {v} s s'"
proof -
  have v': "v \<noteq> 0" "v \<noteq> current_thread s" using v ring_parts(2,3) [OF ring] by auto
  obtain s1 g where s1: "thread_remove_from_scheduler v s = Some s1" "sched_ring s1 (remove1 v xs)"
    "current_thread s1 = current_thread s" "\<And>p. thread_at s1 p = (thread_at s p)\<lparr>sched_next := ring_next s1 p\<rparr>"
    "s1 = s\<lparr>thread_at := g\<rparr>"
    using remove_ring [OF ring v'] by blast
  have same: "process_next (thread_at s1 t) = process_next (thread_at s t) \<and>
      thread_process (thread_at s1 t) = thread_process (thread_at s t) \<and> sleep_link s1 t = sleep_link s t \<and>
      rcore (thread_at s1 t) = rcore (thread_at s t)" for t
  proof -
    obtain c where "thread_at s1 t = (thread_at s t)\<lparr>sched_next := c\<rparr>" using s1(4) by blast
    then show ?thesis by (simp add: rcore_def core_def)
  qed
  let ?u = "upd_thread v f s1"
  have heads: "process_at s1 = process_at s" "sleep_head s1 = sleep_head s" "kernel_process s1 = kernel_process s"
    "process_list s1 = process_list s" "the_cpu s1 = the_cpu s" "need_resched s1 = need_resched s"
    "preempt_disable_count s1 = preempt_disable_count s"
    by (simp_all add: s1(5))
  have "lists_ok s1 = lists_ok s"
  proof -
    have "threads_of s1 p ts = threads_of s p ts" for p ts
      using same heads by (intro threads_of_cong) auto
    moreover have "sleepers s1 zs = sleepers s zs" for zs
      using chain_cong [of zs "sleep_link s1" "sleep_link s"] same heads by simp
    ultimately show ?thesis by (simp add: lists_ok_def)
  qed
  then have ok1: "lists_ok ?u" using ok lists_ok_upd [of f v s1] f by simp
  have "ring_next ?u = ring_next s1" using f(1) by auto
  then have r1: "sched_ring ?u (remove1 v xs)" using s1(2) by simp
  have out: "v \<notin> set (current_thread ?u # remove1 v xs)"
    using v' s1(3) ring_parts(4) [OF ring] by simp
  obtain s' where s': "thread_free_object v ?u = Some s'" "thread_frame v ?u s'" "lists_ok s'"
    using free_object [OF r1 ok1 v'(1) out] by blast
  have "reap_frame {v} s ?u" using same heads s1(3) by (auto simp: reap_frame_def)
  then have "reap_frame {v} s s'"
    using reap_frame_trans [OF _ thread_reap_frame [OF s'(2)]] by fastforce
  then show ?thesis using s1(1) s'(1,3) frame_ring [OF s'(2) r1] by blast
qed

text \<open>The sweep over the ring frees exactly the detached threads that have ended.\<close>

definition reapable :: "kern \<Rightarrow> u64 \<Rightarrow> bool" where
  "reapable s t \<longleftrightarrow> status (thread_at s t) = TASK_ZOMBIE \<and> lifecycle (thread_at s t) = THREAD_DETACHED_ZOMBIE"

lemma reap_detached:
  assumes ring: "sched_ring s xs" and ok: "lists_ok s"
  shows "\<exists>s'. thread_reap_detached s = Some s' \<and> sched_ring s' (filter (\<lambda>t. \<not> reapable s t) xs) \<and>
    lists_ok s' \<and> reap_frame {t \<in> set xs. reapable s t} s s'"
proof -
  let ?c = "current_thread s" and ?V = "{t \<in> set xs. reapable s t}"
  define I where "I rest u \<longleftrightarrow> (\<exists>seen. xs = seen @ rest \<and> lists_ok u \<and> reap_frame {t \<in> set seen. reapable s t} s u \<and>
      sched_ring u (filter (\<lambda>t. \<not> reapable s t) seen @ rest))" for rest u
  have "I xs s" using ring ok by (auto simp: I_def)
  then have "\<exists>s'. each ring_next (\<lambda>p _. p = ?c) reap_detached_one (case xs of [] \<Rightarrow> ?c | x # _ \<Rightarrow> x) s = Some s' \<and> I [] s'"
  proof (rule each_inv)
    fix u assume "I [] u"
    then show "?c = ?c \<and> I [] u" by simp
  next
    fix x rest u assume i: "I (x # rest) u"
    then obtain seen where i: "xs = seen @ x # rest" "lists_ok u" "reap_frame {t \<in> set seen. reapable s t} s u"
      "sched_ring u (filter (\<lambda>t. \<not> reapable s t) seen @ x # rest)"
      by (auto simp: I_def)
    let ?k = "filter (\<lambda>t. \<not> reapable s t) seen"
    have cur: "current_thread u = ?c" using i(3) by (simp add: reap_frame_def)
    have x: "x \<noteq> ?c" "x \<notin> set ?k" "x \<notin> set seen" using i(1) ring_parts [OF i(4)] ring_parts(4) [OF ring] by (auto simp: cur)
    have nx: "ring_next u x = (case rest of [] \<Rightarrow> ?c | y # _ \<Rightarrow> y)"
      using ring_parts(5) [OF i(4)] by (cases rest) (auto simp: lseg_append cur)
    have "rcore (thread_at u x) = rcore (thread_at s x)" using i(3) x(3) by (simp add: reap_frame_def)
    then have re: "reapable s x = (status (thread_at u x) = TASK_ZOMBIE \<and> lifecycle (thread_at u x) = THREAD_DETACHED_ZOMBIE)"
      using rcore_fields(1,2) [of "thread_at u x" "thread_at s x"] by (simp add: reapable_def)
    have "\<exists>u'. reap_detached_one x u = Some u' \<and> I rest u'"
    proof (cases "reapable s x")
      case False
      then have "I rest u" using i unfolding I_def
        by (intro exI [of _ "seen @ [x]"]) (auto simp: reap_frame_def)
      then show ?thesis using False re by (auto simp: reap_detached_one_def)
    next
      case True
      let ?f = "\<lambda>x. x\<lparr>status := TASK_DEAD, lifecycle := THREAD_REAPED\<rparr>"
      obtain u1 u' where u: "thread_remove_from_scheduler x u = Some u1" "thread_free_object x (upd_thread x ?f u1) = Some u'"
        "sched_ring u' (remove1 x (?k @ x # rest))" "lists_ok u'" "reap_frame {x} u u'"
        using reap_one [OF i(4) i(2), of x ?f] by auto
      have "remove1 x (?k @ x # rest) = ?k @ rest" using x(3) by (simp add: remove1_append)
      moreover have "{t \<in> set seen. reapable s t} \<union> {x} = {t \<in> set (seen @ [x]). reapable s t}" using True by auto
      ultimately have "I rest u'"
        using u(3,4) reap_frame_trans [OF i(3) u(5)] i(1) True unfolding I_def
        by (intro exI [of _ "seen @ [x]"]) simp
      then show ?thesis using True re u(1,2) by (auto simp: reap_detached_one_def)
    qed
    then show "x = ?c \<and> I [] u \<or>
        x \<noteq> ?c \<and> ring_next u x = (case rest of [] \<Rightarrow> ?c | y # _ \<Rightarrow> y) \<and> (\<exists>s'. reap_detached_one x u = Some s' \<and> I rest s')"
      using x(1) nx by blast
  qed
  moreover have "(case xs of [] \<Rightarrow> ?c | x # _ \<Rightarrow> x) = ring_next s ?c" using ring_next_in [OF ring] by (cases xs) auto
  moreover have "?c \<noteq> 0" using ring_parts(1) [OF ring] .
  ultimately show ?thesis by (auto simp: thread_reap_detached_def I_def)
qed

end
