(* ===== verification/Sched_Switch.thy ===== *)
theory Sched_Switch
  imports Sched_Reap
begin

text \<open>
  The register switch: what \<^verbatim>\<open>switch_to\<close> leaves on the stack of the thread it leaves, and what it
  takes from the stack of the thread it enters.
\<close>

section \<open>Words of kernel memory\<close>

definition slot :: "u64 \<Rightarrow> nat" where
  "slot va = unat (V2P va) div 8"

lemma slot_cell:
  "pfn (V2P a) = pfn (V2P b) \<and> unat (V2P a AND 0xFFF) div 8 = unat (V2P b AND 0xFFF) div 8 \<longleftrightarrow> slot a = slot b"
proof -
  have split: "n div 4096 = m div 4096 \<and> n mod 4096 div 8 = m mod 4096 div 8 \<longleftrightarrow> n div 8 = m div 8" for n m :: nat
  proof -
    have "k div 4096 = k div 8 div 512" "k mod 4096 div 8 = k div 8 mod 512" for k :: nat
      using mod_mult2_eq [of k 8 512] by (simp_all add: div_mult2_eq [symmetric])
    then show ?thesis by (metis div_mult_mod_eq)
  qed
  show ?thesis unfolding slot_def pfn_def and_FFF_unat using split by simp
qed

lemma kload_kstore: "kload a (kstore b v s) = (if slot a = slot b then v else kload a s)"
  using slot_cell [of a b] by (auto simp: kload_def kstore_def tbl_def set_tbl_def)

lemma slot_inj:
  assumes "slot (x - a) = slot (x - b)" and "8 dvd uint a" "8 dvd uint b"
  shows "a = b"
proof -
  have low: "uint (V2P (x - c)) mod 8 = uint (V2P x) mod 8" if "8 dvd uint c" for c
  proof -
    have "uint (V2P (x - c)) = (uint (V2P x) - uint c) mod 2 ^ 64"
      unfolding V2P_def by (simp add: uint_word_ariths mod_simps algebra_simps)
    then have "uint (V2P (x - c)) mod 8 = (uint (V2P x) - uint c) mod 8"
      by (simp add: mod_mod_cancel)
    also have "\<dots> = uint (V2P x) mod 8" using that by (metis mod_diff_right_eq mod_0_imp_dvd dvd_imp_mod_0 diff_zero)
    finally show ?thesis .
  qed
  have "uint (V2P (x - a)) div 8 = uint (V2P (x - b)) div 8"
    using arg_cong [OF assms(1), of int] by (simp add: slot_def zdiv_int)
  with low [OF assms(2)] low [OF assms(3)] have "uint (V2P (x - a)) = uint (V2P (x - b))"
    by (metis div_mult_mod_eq)
  then have "V2P (x - a) = V2P (x - b)" by (metis word_of_int_uint)
  then show ?thesis by (simp add: V2P_def)
qed

section \<open>Saved contexts\<close>

definition regs :: "cpu \<Rightarrow> u64 list" where
  "regs c = [reg_r15 c, reg_r14 c, reg_r13 c, reg_r12 c, reg_rbx c, reg_rbp c, reg_rip c]"

text \<open>The seven words from \<open>sp\<close> on, and the seven words below \<open>sp\<close> that the switch writes.\<close>

definition context_at :: "kern \<Rightarrow> u64 \<Rightarrow> u64 list" where
  "context_at s sp = map (\<lambda>i. kload (sp + 8 * of_nat i) s) [0..<7]"

definition context_slots :: "u64 \<Rightarrow> nat set" where
  "context_slots sp = (\<lambda>i. slot (sp + 8 * of_nat i)) ` {0..<7}"

lemma kstore_frame [simp]:
  "thread_at (kstore a v s) = thread_at s" "process_at (kstore a v s) = process_at s"
  "the_cpu (kstore a v s) = the_cpu s" "current_thread (kstore a v s) = current_thread s"
  "kernel_process (kstore a v s) = kernel_process s"
  by (simp_all add: kstore_def set_tbl_def)

lemma kload_frame [simp]:
  "kload a (s\<lparr>the_cpu := c\<rparr>) = kload a s" "kload a (upd_thread t f s) = kload a s"
  "kload a (s\<lparr>current_thread := t\<rparr>) = kload a s"
  by (simp_all add: kload_def tbl_def upd_thread_def)

lemma push_frame [simp]:
  "thread_at (push_reg v s) = thread_at s" "process_at (push_reg v s) = process_at s"
  "current_thread (push_reg v s) = current_thread s" "kernel_process (push_reg v s) = kernel_process s"
  "the_cpu (push_reg v s) = (the_cpu s)\<lparr>reg_rsp := reg_rsp (the_cpu s) - 8\<rparr>"
  "kload a (push_reg v s) = (if slot a = slot (reg_rsp (the_cpu s) - 8) then v else kload a s)"
  by (simp_all add: push_reg_def Let_def kload_kstore)

definition saved :: "kern \<Rightarrow> kern" where
  "saved s = (let c = the_cpu s in
     push_reg (reg_r15 c) (push_reg (reg_r14 c) (push_reg (reg_r13 c) (push_reg (reg_r12 c)
       (push_reg (reg_rbx c) (push_reg (reg_rbp c) (push_reg (reg_rip c) s)))))))"

lemma saved_frame [simp]:
  "thread_at (saved s) = thread_at s" "process_at (saved s) = process_at s"
  "current_thread (saved s) = current_thread s" "kernel_process (saved s) = kernel_process s"
  "the_cpu (saved s) = (the_cpu s)\<lparr>reg_rsp := reg_rsp (the_cpu s) - 56\<rparr>"
  by (simp_all add: saved_def Let_def)

lemma slot_neq [simp]:
  "8 dvd uint a \<Longrightarrow> 8 dvd uint b \<Longrightarrow> slot (x - a) = slot (x - b) \<longleftrightarrow> a = b"
  using slot_inj by blast

lemma upt_7: "[0..<7] = [0, 1, 2, 3, 4, 5, 6]"
  by (simp add: upt_rec)

lemma saved_context: "context_at (saved s) (reg_rsp (the_cpu s) - 56) = regs (the_cpu s)"
  by (simp add: saved_def Let_def context_at_def regs_def upt_7)

lemma saved_other:
  assumes "slot a \<notin> context_slots (reg_rsp (the_cpu s) - 56)"
  shows "kload a (saved s) = kload a s"
  using assms by (simp add: saved_def Let_def context_slots_def image_iff atLeastLessThan_upt upt_7)

definition popped :: "kern \<Rightarrow> kern" where
  "popped s =
     (let (r15, s4) = pop_reg s; (r14, s5) = pop_reg s4; (r13, s6) = pop_reg s5; (r12, s7) = pop_reg s6;
          (rbx, s8) = pop_reg s7; (rbp, s9) = pop_reg s8; (rip, s10) = pop_reg s9
      in s10\<lparr>the_cpu := (the_cpu s10)\<lparr>reg_r15 := r15, reg_r14 := r14, reg_r13 := r13, reg_r12 := r12,
                                       reg_rbx := rbx, reg_rbp := rbp, reg_rip := rip\<rparr>\<rparr>)"

lemma switch_to_steps:
  "switch_to cur nxt s =
     (let s2 = upd_thread cur (rsp_update (\<lambda>_. reg_rsp (the_cpu (saved s)))) (saved s)
      in popped (s2\<lparr>the_cpu := (the_cpu s2)\<lparr>reg_rsp := rsp (thread_at s2 nxt)\<rparr>\<rparr>))"
  unfolding switch_to_def saved_def popped_def Let_def ..

lemma popped_frame [simp]:
  "thread_at (popped s) = thread_at s" "process_at (popped s) = process_at s"
  "current_thread (popped s) = current_thread s" "kernel_process (popped s) = kernel_process s"
  "kload a (popped s) = kload a s"
  by (simp_all add: popped_def pop_reg_def Let_def)

lemma popped_cpu:
  "regs (the_cpu (popped s)) = context_at s (reg_rsp (the_cpu s))"
  "reg_rsp (the_cpu (popped s)) = reg_rsp (the_cpu s) + 56"
  "cpu_cr3 (the_cpu (popped s)) = cpu_cr3 (the_cpu s)" "cpu_fs_base (the_cpu (popped s)) = cpu_fs_base (the_cpu s)"
  "cpu_kernel_rsp (the_cpu (popped s)) = cpu_kernel_rsp (the_cpu s)"
  "cpu_user_rsp (the_cpu (popped s)) = cpu_user_rsp (the_cpu s)"
  "cpu_tss_rsp0 (the_cpu (popped s)) = cpu_tss_rsp0 (the_cpu s)"
  by (simp_all add: popped_def pop_reg_def Let_def regs_def context_at_def upt_7 ac_simps)

lemma context_at_frame [simp]:
  "context_at (s\<lparr>the_cpu := c\<rparr>) = context_at s" "context_at (upd_thread t f s) = context_at s"
  "context_at (s\<lparr>current_thread := t\<rparr>) = context_at s"
  by (simp_all add: context_at_def fun_eq_iff)

lemma context_saved_other:
  assumes "context_slots sp \<inter> context_slots (reg_rsp (the_cpu s) - 56) = {}"
  shows "context_at (saved s) sp = context_at s sp"
proof -
  have "slot (sp + 8 * of_nat i) \<notin> context_slots (reg_rsp (the_cpu s) - 56)" if "i < 7" for i
  proof -
    have "slot (sp + 8 * of_nat i) \<in> context_slots sp" using that by (auto simp: context_slots_def)
    then show ?thesis using assms by blast
  qed
  then show ?thesis by (simp add: context_at_def saved_other)
qed

text \<open>The effect of the switch.\<close>

lemma switch_to_frame [simp]:
  "thread_at (switch_to a b s) = (thread_at s)(a := (thread_at s a)\<lparr>rsp := reg_rsp (the_cpu s) - 56\<rparr>)"
  "process_at (switch_to a b s) = process_at s" "current_thread (switch_to a b s) = current_thread s"
  "kernel_process (switch_to a b s) = kernel_process s"
  "cpu_cr3 (the_cpu (switch_to a b s)) = cpu_cr3 (the_cpu s)"
  "cpu_fs_base (the_cpu (switch_to a b s)) = cpu_fs_base (the_cpu s)"
  "cpu_kernel_rsp (the_cpu (switch_to a b s)) = cpu_kernel_rsp (the_cpu s)"
  "cpu_user_rsp (the_cpu (switch_to a b s)) = cpu_user_rsp (the_cpu s)"
  "cpu_tss_rsp0 (the_cpu (switch_to a b s)) = cpu_tss_rsp0 (the_cpu s)"
  by (simp_all add: switch_to_steps Let_def popped_cpu)

lemma switch_to_regs:
  assumes "a \<noteq> b"
  shows "regs (the_cpu (switch_to a b s)) = context_at (saved s) (rsp (thread_at s b))"
    and "reg_rsp (the_cpu (switch_to a b s)) = rsp (thread_at s b) + 56"
    and "kload w (switch_to a b s) = kload w (saved s)"
  using assms by (simp_all add: switch_to_steps Let_def popped_cpu)

section \<open>New contexts\<close>

lemma slot_add [simp]:
  assumes "8 dvd uint a" and "8 dvd uint b"
  shows "slot (x + a) = slot (x + b) \<longleftrightarrow> a = b"
proof -
  have neg: "8 dvd uint (- c)" if "8 dvd uint c" for c :: u64
  proof -
    have "uint (- c) = (- uint c) mod 2 ^ 64" by (simp add: uint_word_ariths)
    moreover have "(8 :: int) dvd 2 ^ 64" by simp
    ultimately show ?thesis using that by (metis dvd_mod dvd_minus_iff)
  qed
  show ?thesis using slot_neq [OF neg [OF assms(1)] neg [OF assms(2)], of x] by simp
qed

lemma slot_add_0 [simp]:
  "8 dvd uint a \<Longrightarrow> slot (x + a) = slot x \<longleftrightarrow> a = 0" "8 dvd uint a \<Longrightarrow> slot x = slot (x + a) \<longleftrightarrow> a = 0"
  using slot_add [of a 0 x] by auto

lemma store_context_frame [simp]:
  "thread_at (store_context sp rip s) = thread_at s" "process_at (store_context sp rip s) = process_at s"
  "the_cpu (store_context sp rip s) = the_cpu s" "current_thread (store_context sp rip s) = current_thread s"
  by (simp_all add: store_context_def upt_7)

lemma store_context_at: "context_at (store_context sp rip s) sp = [0, 0, 0, 0, 0, 0, rip]"
  by (simp add: store_context_def context_at_def upt_7 kload_kstore)

lemma store_context_other:
  assumes "8 dvd uint a" and "a \<notin> {0, 8, 16, 24, 32, 40, 48}"
  shows "kload (sp + a) (store_context sp rip s) = kload (sp + a) s"
  using assms by (simp add: store_context_def upt_7 kload_kstore)

text \<open>The words a new user thread finds on its stack: the frame for \<^verbatim>\<open>iretq\<close>, and above it the argument.\<close>

lemma kstore_entries [simp]: "entries (kstore a v s) = entries s" "entries (upd_thread t f s) = entries s"
  by (simp_all add: kstore_def set_tbl_def upd_thread_def)

lemma setup_user_thread_stack:
  fixes s :: kern and t :: u64
  defines "tp \<equiv> kernel_stack_top (thread_at s t)"
  shows "rsp (thread_at (setup_user_thread t entry usp arg w s) t) = (if w then tp - 104 else tp - 96)"
    and "user_rsp (thread_at (setup_user_thread t entry usp arg w s) t) = usp"
    and "context_at (setup_user_thread t entry usp arg w s) (if w then tp - 104 else tp - 96) =
      [0, 0, 0, 0, 0, 0, if w then return_to_user_with_arg (entries s) else return_to_user (entries s)]"
    and "map (\<lambda>a. kload (tp - (if w then 48 else 40) + a) (setup_user_thread t entry usp arg w s)) [0, 8, 16, 24, 32] =
      [entry, 0x23, 0x202, usp, 0x1B]"
    and "w \<Longrightarrow> kload (tp - 8) (setup_user_thread t entry usp arg w s) = arg"
  by (cases w; simp add: setup_user_thread_def push_word_def Let_def store_context_def upt_7 kload_kstore
      sizeof_thread_context_def context_at_def tp_def)+

lemma thread_create_context:
  assumes "thread_create fn prio s = Some (t, s')" and "t \<noteq> 0"
  shows "context_at s' (rsp (thread_at s' t)) = [0, 0, 0, 0, 0, 0, fn]"
    and "rsp (thread_at s' t) + 56 = stack_base (thread_at s' t) + 4096"
proof -
  obtain s1 where "s' = (let sp = stack_base (thread_at s1 t) + 4096 - sizeof_thread_context
      in upd_thread t (rsp_update (\<lambda>_. sp)) (store_context sp fn s1))"
    using assms by (auto simp: thread_create_def bind_eq_Some_conv Let_def split: if_splits)
  then show "context_at s' (rsp (thread_at s' t)) = [0, 0, 0, 0, 0, 0, fn]"
    "rsp (thread_at s' t) + 56 = stack_base (thread_at s' t) + 4096"
    by (simp_all add: store_context_at sizeof_thread_context_def Let_def)
qed

end
