(* ===== verification/Sched_Safety.thy ===== *)
theory Sched_Safety
  imports Sched_Switch Kalloc_Safety Fs_Safety
begin

text \<open>
  The properties of the scheduler: which thread runs next, with which registers and address
  space, and how long a ready thread waits.
\<close>

section \<open>One call of the scheduler\<close>

text \<open>No process without a parent waits to be reaped.\<close>

definition no_orphans :: "kern \<Rightarrow> bool" where
  "no_orphans s \<longleftrightarrow> (\<exists>ps. chain (\<lambda>p. next_all (process_at s p)) (process_list s) ps \<and>
     (\<forall>p \<in> set ps. p = kernel_process s \<or> parent (process_at s p) \<noteq> 0 \<or> proc_state (process_at s p) \<noteq> PROCESS_ZOMBIE))"

lemma each_idle:
  assumes "chain (nxt s) p xs" and "\<And>x. x \<in> set xs \<Longrightarrow> body x s = Some s"
  shows "each nxt (\<lambda>p _. p = 0) body p s = Some s"
  using assms
proof (induction xs arbitrary: p)
  case Nil
  then show ?case by (simp add: chain_def each.simps)
next
  case (Cons x xs)
  then have "each nxt (\<lambda>p _. p = 0) body (nxt s x) s = Some s" by (simp add: chain_Cons)
  with Cons.prems show ?case by (subst each.simps) (simp add: chain_Cons)
qed

lemma reap_orphans_none: "no_orphans s \<Longrightarrow> process_reap_orphans s = Some s"
  unfolding process_reap_orphans_def no_orphans_def
  by (auto intro!: each_idle simp: reap_if_orphan_def)

text \<open>The state in which the scheduler is called: the other members of the ring are \<open>xs\<close>.\<close>

definition sched_ok :: "kern \<Rightarrow> u64 list \<Rightarrow> bool" where
  "sched_ok s xs \<longleftrightarrow> sched_ring s xs \<and> lists_ok s \<and> no_orphans s \<and> length xs < 4095 \<and>
     (\<forall>t \<in> set (current_thread s # xs). thread_process (thread_at s t) \<noteq> 0) \<and>
     (\<forall>t \<in> set xs. status (thread_at s t) \<noteq> TASK_RUNNING) \<and>
     cpu_cr3 (the_cpu s) = cr3_paddr (process_at s (thread_process (thread_at s (current_thread s))))"

abbreviation idle_in :: "kern \<Rightarrow> u64 \<Rightarrow> bool" where
  "idle_in s t \<equiv> is_idle (status (thread_at s t))"

abbreviation survivors :: "kern \<Rightarrow> u64 list \<Rightarrow> u64 list" where
  "survivors s xs \<equiv> filter (\<lambda>t. \<not> reapable s t) xs"

lemma check_ok: "sched_ok s xs \<Longrightarrow> check_scheduler_invariants s = Some ()"
proof -
  assume ok: "sched_ok s xs"
  then have r: "sched_ring s xs" by (simp add: sched_ok_def)
  have none: "filter (\<lambda>t. status (thread_at s t) = TASK_RUNNING) xs = []"
    using ok by (auto simp: sched_ok_def filter_empty_conv)
  show ?thesis
    using ok ring_parts(1,3) [OF r] none
    by (auto simp: check_scheduler_invariants_def ring_members_ring [OF r] sched_ok_def list_all_iff)
qed

lemma no_orphans_reap:
  assumes "no_orphans s" and "reap_frame V s s'"
  shows "no_orphans s'"
proof -
  have "pcore (process_at s' p) = pcore (process_at s p)" for p using assms(2) by (simp add: reap_frame_def)
  note same = pcore_fields [OF this]
  have "chain (\<lambda>p. next_all (process_at s' p)) q ps = chain (\<lambda>p. next_all (process_at s p)) q ps" for q ps
    by (simp add: same)
  then show ?thesis using assms by (simp add: no_orphans_def reap_frame_def same)
qed

lemma sched_ok_reaped:
  assumes "sched_ok s xs"
  obtains u where "thread_reap_detached s = Some u" "sched_ok u (survivors s xs)"
    "reap_frame {t \<in> set xs. reapable s t} s u"
proof -
  have r: "sched_ring s xs" "lists_ok s" "no_orphans s" using assms by (simp_all add: sched_ok_def)
  obtain u where u: "thread_reap_detached s = Some u" "sched_ring u (survivors s xs)" "lists_ok u"
    "reap_frame {t \<in> set xs. reapable s t} s u"
    using reap_detached [OF r(1,2)] by blast
  have cur: "current_thread u = current_thread s" using u(4) by (simp add: reap_frame_def)
  have keep: "rcore (thread_at u t) = rcore (thread_at s t)" if "t \<in> set (current_thread s # survivors s xs)" for t
    using u(4) that ring_parts(2) [OF r(1)] by (auto simp: reap_frame_def)
  have procs: "cr3_paddr (process_at u p) = cr3_paddr (process_at s p)" for p
    using u(4) by (intro pcore_fields(3)) (simp add: reap_frame_def)
  have fields: "thread_process (thread_at u t) = thread_process (thread_at s t)" "status (thread_at u t) = status (thread_at s t)"
    if "t \<in> set (current_thread s # survivors s xs)" for t
    using rcore_fields(1,3) [OF keep [OF that]] by simp_all
  have "length (survivors s xs) < 4095" using assms length_filter_le [of _ xs] by (meson le_less_trans sched_ok_def)
  moreover have "\<forall>t \<in> set (current_thread s # survivors s xs). thread_process (thread_at u t) \<noteq> 0"
    using assms fields(1) by (auto simp: sched_ok_def)
  moreover have "\<forall>t \<in> set (survivors s xs). status (thread_at u t) \<noteq> TASK_RUNNING"
    using assms fields(2) by (auto simp: sched_ok_def)
  moreover have "cpu_cr3 (the_cpu u) = cr3_paddr (process_at u (thread_process (thread_at u (current_thread s))))"
    using assms fields(1) [of "current_thread s"] u(4) by (simp add: sched_ok_def reap_frame_def procs)
  ultimately have "sched_ok u (survivors s xs)"
    using u(2,3) no_orphans_reap [OF r(3) u(4)] unfolding sched_ok_def cur by simp
  with u that show thesis by blast
qed

section \<open>The switch\<close>

lemma load_cpu_frame [simp]:
  "thread_at (load_cpu p n s) =
     (if thread_process (thread_at s p) \<noteq> kernel_process s
      then (thread_at s)(p := (thread_at s p)\<lparr>user_rsp := cpu_user_rsp (the_cpu s)\<rparr>) else thread_at s)"
  "process_at (load_cpu p n s) = process_at s" "kernel_process (load_cpu p n s) = kernel_process s"
  "reg_rsp (the_cpu (load_cpu p n s)) = reg_rsp (the_cpu s)" "regs (the_cpu (load_cpu p n s)) = regs (the_cpu s)"
  "kload a (load_cpu p n s) = kload a s"
  by (simp_all add: load_cpu_def Let_def regs_def)

lemma load_cpu_heads [simp]:
  "sleep_head (load_cpu p n s) = sleep_head s" "process_list (load_cpu p n s) = process_list s"
  by (simp_all add: load_cpu_def Let_def)

lemma load_cpu_cpu:
  assumes "p \<noteq> n"
  shows "cpu_user_rsp (the_cpu (load_cpu p n s)) = user_rsp (thread_at s n)"
    "kernel_stack_top (thread_at s n) \<noteq> 0 \<Longrightarrow> cpu_kernel_rsp (the_cpu (load_cpu p n s)) = kernel_stack_top (thread_at s n)"
    "kernel_stack_top (thread_at s n) \<noteq> 0 \<Longrightarrow> cpu_tss_rsp0 (the_cpu (load_cpu p n s)) = kernel_stack_top (thread_at s n)"
    "cpu_fs_base (the_cpu (load_cpu p n s)) =
       (if thread_process (thread_at s n) = kernel_process s then 0 else tls_base (thread_at s n))"
    "cpu_cr3 (the_cpu s) = cr3_paddr (process_at s (thread_process (thread_at s p))) \<Longrightarrow>
     cpu_cr3 (the_cpu (load_cpu p n s)) = cr3_paddr (process_at s (thread_process (thread_at s n)))"
  using assms by (auto simp: load_cpu_def Let_def)

lemma switch_heads [simp]:
  "sleep_head (switch_to p n s) = sleep_head s" "process_list (switch_to p n s) = process_list s"
  by (simp_all add: switch_to_steps saved_def popped_def pop_reg_def push_reg_def kstore_def set_tbl_def Let_def)

lemma switch_threads_fields:
  "current_thread (switch_threads p n s) = n" "process_at (switch_threads p n s) = process_at s"
  "kernel_process (switch_threads p n s) = kernel_process s" "process_list (switch_threads p n s) = process_list s"
  "sleep_head (switch_threads p n s) = sleep_head s"
  "sched_next (thread_at (switch_threads p n s) t) = sched_next (thread_at s t)"
  "process_next (thread_at (switch_threads p n s) t) = process_next (thread_at s t)"
  "sleep_next (thread_at (switch_threads p n s) t) = sleep_next (thread_at s t)"
  "thread_process (thread_at (switch_threads p n s) t) = thread_process (thread_at s t)"
  by (auto simp: switch_threads_def set_status_def Let_def)

lemma switch_threads_status:
  "status (thread_at (switch_threads p n s) t) =
     (if t = n then TASK_RUNNING
      else if t = p \<and> status (thread_at s p) = TASK_RUNNING then TASK_READY else status (thread_at s t))"
  by (auto simp: switch_threads_def set_status_def Let_def)

lemma switch_threads_cpu:
  assumes "p \<noteq> n"
  shows "cpu_user_rsp (the_cpu (switch_threads p n s)) = user_rsp (thread_at s n)"
    "kernel_stack_top (thread_at s n) \<noteq> 0 \<Longrightarrow> cpu_kernel_rsp (the_cpu (switch_threads p n s)) = kernel_stack_top (thread_at s n)"
    "kernel_stack_top (thread_at s n) \<noteq> 0 \<Longrightarrow> cpu_tss_rsp0 (the_cpu (switch_threads p n s)) = kernel_stack_top (thread_at s n)"
    "cpu_fs_base (the_cpu (switch_threads p n s)) =
       (if thread_process (thread_at s n) = kernel_process s then 0 else tls_base (thread_at s n))"
    "cpu_cr3 (the_cpu s) = cr3_paddr (process_at s (thread_process (thread_at s p))) \<Longrightarrow>
     cpu_cr3 (the_cpu (switch_threads p n s)) = cr3_paddr (process_at s (thread_process (thread_at s n)))"
    "thread_process (thread_at s p) \<noteq> kernel_process s \<Longrightarrow>
     user_rsp (thread_at (switch_threads p n s) p) = cpu_user_rsp (the_cpu s)"
  using load_cpu_cpu [OF assms, of s] assms by (simp_all add: switch_threads_def Let_def set_status_def)

lemma lists_ok_links:
  assumes "\<And>t. process_next (thread_at s' t) = process_next (thread_at s t)"
    and "\<And>t. thread_process (thread_at s' t) = thread_process (thread_at s t)"
    and "\<And>t. sleep_next (thread_at s' t) = sleep_next (thread_at s t)"
    and "process_at s' = process_at s" "sleep_head s' = sleep_head s"
  shows "lists_ok s' = lists_ok s"
proof -
  have "threads_of s' p ts = threads_of s p ts" for p ts by (rule threads_of_cong) (simp_all add: assms)
  then show ?thesis using chain_cong [of _ "sleep_link s'" "sleep_link s"] by (simp add: lists_ok_def assms)
qed

lemma switch_sched_ok:
  assumes ok: "sched_ok s (as @ n # bs)"
  shows "sched_ok (switch_threads (current_thread s) n s) (bs @ current_thread s # as)"
proof -
  let ?c = "current_thread s" and ?s = "switch_threads (current_thread s) n s"
  have r: "sched_ring s (as @ n # bs)" using ok by (simp add: sched_ok_def)
  have n: "?c \<noteq> n" using ring_parts(2) [OF r] by auto
  have "sched_ring ?s (bs @ ?c # as)" using ring_rotate [OF r] by (simp add: switch_threads_fields)
  moreover have "lists_ok ?s = lists_ok s" by (rule lists_ok_links) (simp_all add: switch_threads_fields)
  moreover have "no_orphans ?s = no_orphans s" by (simp add: no_orphans_def switch_threads_fields)
  moreover have "\<forall>t \<in> set (bs @ ?c # as). status (thread_at ?s t) \<noteq> TASK_RUNNING"
    using ok ring_parts(4) [OF r] n by (auto simp: sched_ok_def switch_threads_status)
  moreover have "cpu_cr3 (the_cpu ?s) = cr3_paddr (process_at s (thread_process (thread_at s n)))"
    using ok load_cpu_cpu(5) [OF n] by (simp add: switch_threads_def Let_def sched_ok_def set_status_def)
  ultimately show ?thesis using ok by (auto simp: sched_ok_def switch_threads_fields)
qed

lemma schedule_cases:
  assumes ok: "sched_ok s xs" and ys: "survivors s xs \<noteq> []"
  obtains u where "sched_ok u (survivors s xs)" "reap_frame {t \<in> set xs. reapable s t} s u"
    "schedule s = Some (case dropWhile (idle_in s) (survivors s xs) of [] \<Rightarrow> u | n # _ \<Rightarrow> switch_threads (current_thread s) n u)"
proof -
  let ?ys = "survivors s xs" and ?c = "current_thread s"
  obtain u where u: "thread_reap_detached s = Some u" "sched_ok u ?ys" "reap_frame {t \<in> set xs. reapable s t} s u"
    using sched_ok_reaped [OF ok] .
  have r: "sched_ring s xs" "sched_ring u ?ys" using ok u(2) by (simp_all add: sched_ok_def)
  have cur: "current_thread u = ?c" using u(3) by (simp add: reap_frame_def)
  have "xs \<noteq> []" using ys by auto
  then have nx: "ring_next s ?c \<noteq> ?c" using ring_next_in [OF r(1)] ring_parts(2) [OF r(1)] by (cases xs) auto
  have st: "status (thread_at u t) = status (thread_at s t)" if "t \<in> set ?ys" for t
    using u(3) that rcore_fields(1) [of "thread_at u t" "thread_at s t"] by (auto simp: reap_frame_def)
  have "pick_next (ring_next u) (idle_in u) ?c (ring_next u ?c) =
      Some (case dropWhile (idle_in u) ?ys of [] \<Rightarrow> None | x # _ \<Rightarrow> Some x)"
    using pick_next_lseg [OF ring_parts(5) [OF r(2)] ys ring_parts(2) [OF r(2)]] by (simp add: cur)
  moreover have "dropWhile (idle_in u) ?ys = dropWhile (idle_in s) ?ys" by (intro dropWhile_cong) (simp_all add: st)
  moreover have "status (thread_at u n) = TASK_READY" if "dropWhile (idle_in s) ?ys = n # zs" for n zs
  proof -
    have n: "n \<in> set ?ys" "\<not> idle_in s n" using that set_dropWhileD [of n "idle_in s" ?ys] hd_dropWhile [of "idle_in s" ?ys]
      by auto
    moreover have "status (thread_at u n) \<noteq> TASK_RUNNING" using u(2) n(1) by (auto simp: sched_ok_def)
    ultimately show ?thesis using st [OF n(1)] by (cases "status (thread_at s n)") (simp_all add: is_idle_def)
  qed
  moreover have "process_reap_orphans s = Some s" using ok by (intro reap_orphans_none) (simp add: sched_ok_def)
  ultimately have "schedule s = Some (case dropWhile (idle_in s) ?ys of [] \<Rightarrow> u | n # _ \<Rightarrow> switch_threads ?c n u)"
    using nx check_ok [OF ok] u(1) ring_parts(1) [OF r(1)] cur
    by (cases "dropWhile (idle_in s) ?ys") (simp_all add: schedule_def del: dropWhile_eq_Nil_conv)
  with u(2,3) that show thesis by blast
qed

lemma switch_threads_leave:
  assumes "p \<noteq> n"
  shows "rsp (thread_at (switch_threads p n s) p) = reg_rsp (the_cpu s) - 56"
    and "context_at (switch_threads p n s) (reg_rsp (the_cpu s) - 56) = regs (the_cpu s)"
proof -
  let ?m = "(set_status n TASK_RUNNING (if status (thread_at (load_cpu p n s) p) = TASK_RUNNING
      then set_status p TASK_READY (load_cpu p n s) else load_cpu p n s))\<lparr>current_thread := n\<rparr>"
  have sw: "switch_threads p n s = switch_to p n ?m" by (simp add: switch_threads_def Let_def)
  have c: "reg_rsp (the_cpu ?m) = reg_rsp (the_cpu s)" "regs (the_cpu ?m) = regs (the_cpu s)"
    by (simp_all add: set_status_def)
  show "rsp (thread_at (switch_threads p n s) p) = reg_rsp (the_cpu s) - 56"
    unfolding sw using c(1) by simp
  have "context_at (switch_to p n ?m) w = context_at (saved ?m) w" for w
    by (simp add: context_at_def switch_to_regs(3) [OF assms])
  then show "context_at (switch_threads p n s) (reg_rsp (the_cpu s) - 56) = regs (the_cpu s)"
    unfolding sw using saved_context [of ?m] c by simp
qed

lemma switch_threads_enter:
  assumes "p \<noteq> n" and "context_slots (rsp (thread_at s n)) \<inter> context_slots (reg_rsp (the_cpu s) - 56) = {}"
  shows "regs (the_cpu (switch_threads p n s)) = context_at s (rsp (thread_at s n))"
    and "reg_rsp (the_cpu (switch_threads p n s)) = rsp (thread_at s n) + 56"
proof -
  let ?m = "(set_status n TASK_RUNNING (if status (thread_at (load_cpu p n s) p) = TASK_RUNNING
      then set_status p TASK_READY (load_cpu p n s) else load_cpu p n s))\<lparr>current_thread := n\<rparr>"
  have sw: "switch_threads p n s = switch_to p n ?m" by (simp add: switch_threads_def Let_def)
  have c: "reg_rsp (the_cpu ?m) = reg_rsp (the_cpu s)" "rsp (thread_at ?m n) = rsp (thread_at s n)"
    using assms(1) by (simp_all add: set_status_def)
  have "context_at ?m w = context_at s w" for w by (simp add: context_at_def set_status_def)
  then show "regs (the_cpu (switch_threads p n s)) = context_at s (rsp (thread_at s n))"
    unfolding sw using switch_to_regs(1) [OF assms(1), of ?m] context_saved_other [of "rsp (thread_at s n)" ?m] assms(2) c
    by simp
  show "reg_rsp (the_cpu (switch_threads p n s)) = rsp (thread_at s n) + 56"
    unfolding sw using switch_to_regs(2) [OF assms(1), of ?m] c by simp
qed

section \<open>Waiting for the processor\<close>

text \<open>
  What may happen between two calls of the scheduler while \<open>t\<close> waits: threads may be blocked and
  woken, removed, and added behind \<open>t\<close>.
\<close>

definition undisturbed :: "u64 \<Rightarrow> kern \<Rightarrow> kern \<Rightarrow> bool" where
  "undisturbed t u s \<longleftrightarrow>
     (\<forall>as bs. sched_ok u (as @ t # bs) \<and> status (thread_at u t) = TASK_READY \<longrightarrow>
        (\<exists>as' bs'. sched_ok s (as' @ t # bs') \<and> length as' \<le> length as) \<and> status (thread_at s t) = TASK_READY)"

lemma undisturbed_refl: "undisturbed t u u"
  by (auto simp: undisturbed_def)

lemma sched_ok_upd:
  assumes "sched_ok s xs"
    and f: "\<And>y. sched_next (f y) = sched_next y" "\<And>y. process_next (f y) = process_next y"
      "\<And>y. thread_process (f y) = thread_process y" "\<And>y. sleep_next (f y) = sleep_next y"
    and st: "x \<in> set xs \<Longrightarrow> status (f (thread_at s x)) \<noteq> TASK_RUNNING"
  shows "sched_ok (upd_thread x f s) xs"
proof -
  have "ring_next (upd_thread x f s) = ring_next s" using f(1) by (auto simp: fun_eq_iff)
  moreover have "lists_ok (upd_thread x f s) = lists_ok s" by (rule lists_ok_links) (simp_all add: f)
  moreover have "thread_process (thread_at (upd_thread x f s) t) = thread_process (thread_at s t)" for t using f by simp
  moreover have "no_orphans (upd_thread x f s) = no_orphans s" by (simp add: no_orphans_def)
  moreover have "\<forall>t \<in> set xs. status (thread_at (upd_thread x f s) t) \<noteq> TASK_RUNNING"
    using assms(1) st by (auto simp: sched_ok_def)
  ultimately show ?thesis using assms(1) unfolding sched_ok_def by simp
qed

lemma undisturbed_block: "x \<noteq> t \<Longrightarrow> undisturbed t u (set_status x TASK_BLOCKED u)"
  unfolding undisturbed_def set_status_def by (auto intro!: exI sched_ok_upd)

lemma undisturbed_unblock: "undisturbed t u (thread_unblock x u)"
proof -
  have "sched_ok (thread_unblock x u) xs" if "sched_ok u xs" for xs
    unfolding thread_unblock_def using that by (auto intro!: sched_ok_upd)
  moreover have "status (thread_at (thread_unblock x u) t) = TASK_READY" if "status (thread_at u t) = TASK_READY"
    using that by (simp add: thread_unblock_def)
  ultimately show ?thesis by (auto simp: undisturbed_def)
qed

lemma schedule_progress:
  assumes ok: "sched_ok s (as @ t # bs)" and t: "status (thread_at s t) = TASK_READY"
  shows "\<exists>u. schedule s = Some u \<and> (current_thread u = t \<or>
    (\<exists>as' bs'. sched_ok u (as' @ t # bs') \<and> length as' < length as \<and> status (thread_at u t) = TASK_READY))"
proof -
  let ?c = "current_thread s" and ?sa = "survivors s as" and ?xs = "as @ t # bs"
  have live: "\<not> reapable s t" "\<not> idle_in s t" using t by (simp_all add: reapable_def is_idle_def)
  have ys: "survivors s ?xs = ?sa @ t # survivors s bs" using live by simp
  obtain u where u: "sched_ok u (survivors s ?xs)" "reap_frame {t \<in> set ?xs. reapable s t} s u"
    and run: "schedule s = Some (case dropWhile (idle_in s) (survivors s ?xs) of [] \<Rightarrow> u | n # _ \<Rightarrow> switch_threads ?c n u)"
    using schedule_cases [OF ok] ys by auto
  have cur: "current_thread u = ?c" using u(2) by (simp add: reap_frame_def)
  have tu: "status (thread_at u t) = TASK_READY"
    using u(2) live(1) t rcore_fields(1) [of "thread_at u t" "thread_at s t"] by (simp add: reap_frame_def)
  show ?thesis
  proof (cases "dropWhile (idle_in s) ?sa")
    case Nil
    then have "dropWhile (idle_in s) (survivors s ?xs) = t # survivors s bs"
      using live by (simp add: ys dropWhile_append)
    then show ?thesis using run by (simp add: switch_threads_fields)
  next
    case (Cons n rest)
    then have split: "?sa = takeWhile (idle_in s) ?sa @ n # rest"
      using takeWhile_dropWhile_id [of "idle_in s" ?sa] by simp
    have d: "dropWhile (idle_in s) (survivors s ?xs) = n # rest @ t # survivors s bs"
    proof -
      have n: "\<not> idle_in s n" using Cons hd_dropWhile [of "idle_in s" ?sa] by simp
      obtain tw where tw: "?sa = tw @ n # rest" "\<And>x. x \<in> set tw \<Longrightarrow> idle_in s x"
        using split set_takeWhileD [of _ "idle_in s" ?sa] by blast
      have "dropWhile (idle_in s) (?sa @ zs) = n # rest @ zs" for zs
        unfolding tw(1) using tw(2) n by (simp add: dropWhile_append2)
      then show ?thesis by (simp only: ys)
    qed
    have "sched_ok u (takeWhile (idle_in s) ?sa @ n # (rest @ t # survivors s bs))"
      using u(1) unfolding ys by (subst (asm) split) simp
    from switch_sched_ok [OF this]
    have ok': "sched_ok (switch_threads ?c n u) (rest @ t # (survivors s bs @ ?c # takeWhile (idle_in s) ?sa))"
      by (simp add: cur)
    then have "t \<noteq> n" by (auto simp: sched_ok_def switch_threads_status)
    then have "status (thread_at (switch_threads ?c n u) t) = TASK_READY" using tu by (simp add: switch_threads_status)
    moreover have "length rest < length as"
      using arg_cong [OF split, of length] length_filter_le [of "\<lambda>t. \<not> reapable s t" as] by simp
    ultimately show ?thesis using run d ok' by auto
  qed
qed

section \<open>A kernel with three threads\<close>

text \<open>
  Thread 0x1000 of the kernel process runs, thread 0x2000 of the same process is blocked, and
  thread 0x3000 of a user process is ready.
\<close>

definition demo_thread :: "u64 \<Rightarrow> u64 \<Rightarrow> u64 \<Rightarrow> thread_state \<Rightarrow> u64 \<Rightarrow> thread" where
  "demo_thread nxt member p st sp = zero_thread
     \<lparr>sched_next := nxt, process_next := member, thread_process := p, status := st, rsp := sp,
      kernel_stack_top := sp + 0x100, user_rsp := 0x7000, tls_base := 0x8000\<rparr>"

definition demo_kern :: kern where
  "demo_kern = (start_kern small_heap small_fs \<lparr>return_to_user = 0, return_to_user_with_arg = 0, syscall_child_return = 0\<rparr>)
     \<lparr>thread_at := (\<lambda>_. zero_thread)(
         0x1000 := demo_thread 0x2000 0x2000 0x9000 TASK_RUNNING 0xFFFF800000001100,
         0x2000 := demo_thread 0x3000 0 0x9000 TASK_BLOCKED 0xFFFF800000002100,
         0x3000 := demo_thread 0x1000 0 0xA000 TASK_READY 0xFFFF800000003100),
      process_at := (\<lambda>_. zero_process)(
         0x9000 := zero_process\<lparr>thread_head := 0x1000, thread_count := 2, cr3_paddr := 0x100000\<rparr>,
         0xA000 := zero_process\<lparr>thread_head := 0x3000, thread_count := 1, cr3_paddr := 0x200000\<rparr>),
      current_thread := 0x1000, kernel_process := 0x9000,
      the_cpu := zero_cpu\<lparr>cpu_cr3 := 0x100000, reg_rsp := 0xFFFF800000001200, reg_rip := 0x1234\<rparr>\<rparr>"

lemma demo_kern_simps [simp]:
  "thread_at demo_kern = (\<lambda>_. zero_thread)(
         0x1000 := demo_thread 0x2000 0x2000 0x9000 TASK_RUNNING 0xFFFF800000001100,
         0x2000 := demo_thread 0x3000 0 0x9000 TASK_BLOCKED 0xFFFF800000002100,
         0x3000 := demo_thread 0x1000 0 0xA000 TASK_READY 0xFFFF800000003100)"
  "process_at demo_kern = (\<lambda>_. zero_process)(
         0x9000 := zero_process\<lparr>thread_head := 0x1000, thread_count := 2, cr3_paddr := 0x100000\<rparr>,
         0xA000 := zero_process\<lparr>thread_head := 0x3000, thread_count := 1, cr3_paddr := 0x200000\<rparr>)"
  "current_thread demo_kern = 0x1000" "kernel_process demo_kern = 0x9000" "process_list demo_kern = 0" "sleep_head demo_kern = 0"
  "the_cpu demo_kern = zero_cpu\<lparr>cpu_cr3 := 0x100000, reg_rsp := 0xFFFF800000001200, reg_rip := 0x1234\<rparr>"
  by (simp_all add: demo_kern_def start_kern_def heap.defs)

lemma demo_fields [simp]:
  "sched_next (demo_thread n m p st sp) = n" "process_next (demo_thread n m p st sp) = m"
  "thread_process (demo_thread n m p st sp) = p" "status (demo_thread n m p st sp) = st"
  "rsp (demo_thread n m p st sp) = sp" "user_rsp (demo_thread n m p st sp) = 0x7000"
  "kernel_stack_top (demo_thread n m p st sp) = sp + 0x100" "tls_base (demo_thread n m p st sp) = 0x8000"
  by (simp_all add: demo_thread_def)

lemma demo_sched_ok: "sched_ok demo_kern [0x2000, 0x3000]"
proof -
  have "threads_of demo_kern 0x9000 [0x1000, 0x2000]" "threads_of demo_kern 0xA000 [0x3000]"
    by (simp_all add: threads_of_def chain_def)
  moreover have "threads_of demo_kern p []" if "p \<noteq> 0x9000" "p \<noteq> 0xA000" for p
    using that by (simp add: threads_of_def chain_def zero_process_def)
  moreover have "sleepers demo_kern []" by (simp add: chain_def)
  ultimately have "lists_ok demo_kern" unfolding lists_ok_def by metis
  moreover have "no_orphans demo_kern" unfolding no_orphans_def by (rule exI [of _ "[]"]) (simp add: chain_def)
  ultimately show ?thesis by (simp add: sched_ok_def ring_def)
qed

lemma demo_survivors: "survivors demo_kern [0x2000, 0x3000] = [0x2000, 0x3000]"
  by (simp add: reapable_def)

section \<open>Properties\<close>





text \<open>
  C19: A thread that is switched away goes on where it was.  As long as its saved stack pointer and
  the seven words it was left with on its stack stay as they are and the thread that leaves the
  processor uses other stack memory, switching back restores the callee-saved registers, the stack
  pointer and the return address.
\<close>

theorem switch_context_roundtrip:
  assumes "p \<noteq> n" and "m \<noteq> p"
    and "rsp (thread_at u p) = rsp (thread_at (switch_threads p n s) p)"
    and "context_at u (rsp (thread_at u p)) = context_at (switch_threads p n s) (rsp (thread_at u p))"
    and "context_slots (rsp (thread_at u p)) \<inter> context_slots (reg_rsp (the_cpu u) - 56) = {}"
  shows "regs (the_cpu (switch_threads m p u)) = regs (the_cpu s) \<and>
    reg_rsp (the_cpu (switch_threads m p u)) = reg_rsp (the_cpu s)"
  using switch_threads_leave [OF assms(1), of s] switch_threads_enter [OF assms(2), of u] assms(3-5)
  by simp

theorem switch_context_roundtrip_witness:
  "regs (the_cpu (switch_threads 0x3000 0x1000 (switch_threads 0x1000 0x3000 demo_kern))) = [0, 0, 0, 0, 0, 0, 0x1234] \<and>
     reg_rsp (the_cpu (switch_threads 0x3000 0x1000 (switch_threads 0x1000 0x3000 demo_kern))) = 0xFFFF800000001200"
proof -
  let ?s = "switch_threads 0x1000 0x3000 demo_kern"
  have d: "context_slots 0xFFFF800000003100 \<inter> context_slots 0xFFFF8000000011C8 = {}"
    by (simp add: context_slots_def slot_def V2P_def PAGE_OFFSET_def atLeastLessThan_upt upt_7)
  have sp: "rsp (thread_at ?s 0x1000) = 0xFFFF8000000011C8" using switch_threads_leave(1) [of "0x1000" "0x3000" demo_kern] by simp
  have "reg_rsp (the_cpu ?s) = 0xFFFF800000003138"
    using switch_threads_enter(2) [of "0x1000" "0x3000" demo_kern] d by simp
  then show ?thesis
    using switch_context_roundtrip [of "0x1000" "0x3000" "0x3000" ?s demo_kern] sp d
    by (simp add: Int_commute regs_def zero_cpu_def)
qed

text \<open>
  C20: New threads start where they should.  The first switch to a kernel thread enters its
  function with cleared registers and an empty stack; the first switch to a user thread enters the
  routine that executes \<^verbatim>\<open>iretq\<close>, with the entry point, the user code and stack segments, the flags
  with interrupts enabled and the user stack pointer on the stack, and above them the argument of
  a thread that takes one.
\<close>

theorem new_thread_starts:
  "(thread_create fn prio s = Some (t, s') \<and> t \<noteq> 0 \<and> p \<noteq> t \<and>
      context_slots (rsp (thread_at s' t)) \<inter> context_slots (reg_rsp (the_cpu s') - 56) = {} \<longrightarrow>
      regs (the_cpu (switch_threads p t s')) = [0, 0, 0, 0, 0, 0, fn] \<and>
      reg_rsp (the_cpu (switch_threads p t s')) = stack_base (thread_at s' t) + 4096) \<and>
   (s' = setup_user_thread t entry usp arg w s \<and> p \<noteq> t \<and>
      context_slots (rsp (thread_at s' t)) \<inter> context_slots (reg_rsp (the_cpu s') - 56) = {} \<longrightarrow>
      (let sp = kernel_stack_top (thread_at s t) - (if w then 48 else 40);
           start = (if w then return_to_user_with_arg (entries s) else return_to_user (entries s)) in
       regs (the_cpu (switch_threads p t s')) = [0, 0, 0, 0, 0, 0, start] \<and>
       reg_rsp (the_cpu (switch_threads p t s')) = sp \<and> cpu_user_rsp (the_cpu (switch_threads p t s')) = usp \<and>
       map (\<lambda>a. kload (sp + a) s') [0, 8, 16, 24, 32] = [entry, 0x23, 0x202, usp, 0x1B] \<and>
       (w \<longrightarrow> kload (sp + 40) s' = arg)))"
proof (intro conjI impI; elim conjE)
  assume "thread_create fn prio s = Some (t, s')" "t \<noteq> 0" "p \<noteq> t"
    "context_slots (rsp (thread_at s' t)) \<inter> context_slots (reg_rsp (the_cpu s') - 56) = {}"
  then show "regs (the_cpu (switch_threads p t s')) = [0, 0, 0, 0, 0, 0, fn]"
    "reg_rsp (the_cpu (switch_threads p t s')) = stack_base (thread_at s' t) + 4096"
    using thread_create_context switch_threads_enter by simp_all
next
  assume s': "s' = setup_user_thread t entry usp arg w s" and p: "p \<noteq> t"
    and d: "context_slots (rsp (thread_at s' t)) \<inter> context_slots (reg_rsp (the_cpu s') - 56) = {}"
  note st = setup_user_thread_stack [where t = t and entry = entry and usp = usp and arg = arg and w = w and s = s, folded s']
  show "let sp = kernel_stack_top (thread_at s t) - (if w then 48 else 40);
           start = (if w then return_to_user_with_arg (entries s) else return_to_user (entries s)) in
       regs (the_cpu (switch_threads p t s')) = [0, 0, 0, 0, 0, 0, start] \<and>
       reg_rsp (the_cpu (switch_threads p t s')) = sp \<and> cpu_user_rsp (the_cpu (switch_threads p t s')) = usp \<and>
       map (\<lambda>a. kload (sp + a) s') [0, 8, 16, 24, 32] = [entry, 0x23, 0x202, usp, 0x1B] \<and>
       (w \<longrightarrow> kload (sp + 40) s' = arg)"
    using switch_threads_enter [OF p d] switch_threads_cpu(1) [OF p, of s'] st
    by (cases w) (simp_all add: Let_def)
qed

theorem new_thread_starts_witness:
  "(let s' = setup_user_thread 0x3000 0x400000 0x7FF0 42 True demo_kern in
      reg_rsp (the_cpu (switch_threads 0x1000 0x3000 s')) = 0xFFFF8000000031D0 \<and>
      kload 0xFFFF8000000031D0 s' = 0x400000 \<and> kload 0xFFFF8000000031F8 s' = 42)"
proof -
  let ?s = "setup_user_thread 0x3000 0x400000 0x7FF0 42 True demo_kern"
  have sp: "rsp (thread_at ?s 0x3000) = 0xFFFF800000003198"
    using setup_user_thread_stack(1) [where t = "0x3000" and s = demo_kern and w = True] by simp
  have c: "the_cpu ?s = the_cpu demo_kern" by (simp add: setup_user_thread_def push_word_def Let_def)
  have "context_slots 0xFFFF800000003198 \<inter> context_slots 0xFFFF8000000011C8 = {}"
    by (simp add: context_slots_def slot_def V2P_def PAGE_OFFSET_def atLeastLessThan_upt upt_7)
  then show ?thesis
    using new_thread_starts [where s = demo_kern and t = "0x3000" and entry = "0x400000" and usp = "0x7FF0" and
        arg = 42 and w = True and p = "0x1000" and s' = ?s] sp c
    by (simp add: Let_def)
qed

section \<open>A scheduler call that cannot return\<close>

text \<open>
  When the sweep frees the last other member of the ring while the current thread still runs, the
  loop starts and stops at the current thread and the assertion on its status fails.
\<close>

lemma schedule_alone_stops:
  assumes ok: "sched_ok s xs" and xs: "xs \<noteq> []" "survivors s xs = []"
    and cur: "status (thread_at s (current_thread s)) = TASK_RUNNING"
  shows "schedule s = None"
proof -
  let ?c = "current_thread s"
  obtain u where u: "thread_reap_detached s = Some u" "sched_ok u []" "reap_frame {t \<in> set xs. reapable s t} s u"
    using sched_ok_reaped [OF ok] xs(2) by metis
  have r: "sched_ring s xs" "sched_ring u []" using ok u(2) by (simp_all add: sched_ok_def)
  have c: "current_thread u = ?c" "rcore (thread_at u ?c) = rcore (thread_at s ?c)"
    using u(3) ring_parts(2) [OF r(1)] by (auto simp: reap_frame_def)
  have "status (thread_at u ?c) = TASK_RUNNING" using rcore_fields(1) [OF c(2)] cur by simp
  moreover have "ring_next u ?c = ?c" using ring_next_in [OF r(2)] c(1) by simp
  ultimately have "pick_next (ring_next u) (idle_in u) ?c (ring_next u ?c) = Some (Some ?c)"
    by (simp add: pick_next.simps is_idle_def)
  moreover have "ring_next s ?c \<noteq> ?c" using ring_next_in [OF r(1)] ring_parts(2) [OF r(1)] xs(1) by (cases xs) auto
  moreover have "process_reap_orphans s = Some s" using ok by (intro reap_orphans_none) (simp add: sched_ok_def)
  ultimately show ?thesis
    using check_ok [OF ok] u(1) c(1) ring_parts(1) [OF r(1)] \<open>status (thread_at u ?c) = TASK_RUNNING\<close> by (simp add: schedule_def)
qed

end
