(* ===== verification/Files.thy ===== *)
theory Files
  imports Scheduler Areas
begin

text \<open>
  Open files and pipes (kernel/file.c).  Each section under the guard of a pipe or file is one
  step.  A read of an empty pipe or a write to a full one blocks: the function gives \<open>None\<close> and the
  state after the switch, and the thread starts the call again when it is woken.
\<close>

section \<open>Pipes\<close>

text \<open>The current thread notes that it waits for the pipe and gives up the processor.\<close>

definition pipe_block :: "u64 \<Rightarrow> kern \<Rightarrow> kern option" where
  "pipe_block pipe s =
     schedule (set_status (current_thread s) TASK_BLOCKED
       (cli (upd_thread (current_thread s) (waiting_lock_update (\<lambda>_. pipe)) s)))"

definition wake_if_blocked_on :: "u64 \<Rightarrow> u64 \<Rightarrow> kern \<Rightarrow> kern option" where
  "wake_if_blocked_on pipe t s =
     Some (if status (thread_at s t) = TASK_BLOCKED \<and> waiting_lock (thread_at s t) = pipe then thread_unblock t s else s)"

definition wake_pipe_waiters :: "u64 \<Rightarrow> kern \<Rightarrow> kern option" where
  "wake_pipe_waiters pipe s =
     (let cur = current_thread s in
      if cur = 0 \<or> pipe = 0 then Some s
      else do {
        s1 \<leftarrow> each ring_next (\<lambda>t _. t = cur) (wake_if_blocked_on pipe) (ring_next s cur) s;
        wake_if_blocked_on pipe cur s1
      })"

definition take_byte :: "u8 list \<times> pipe_object \<Rightarrow> u8 list \<times> pipe_object" where
  "take_byte = (\<lambda>(out, p). (out @ [pipe_data p (unat (pipe_head p))], p\<lparr>pipe_head := (pipe_head p + 1) mod of_nat PIPE_CAPACITY\<rparr>))"

definition put_byte :: "u8 \<Rightarrow> pipe_object \<Rightarrow> pipe_object" where
  "put_byte b p = p\<lparr>pipe_data := (pipe_data p)(unat (pipe_tail p) := b), pipe_tail := (pipe_tail p + 1) mod of_nat PIPE_CAPACITY\<rparr>"

definition pipe_take :: "u32 \<Rightarrow> pipe_object \<Rightarrow> u8 list \<times> pipe_object" where
  "pipe_take n p =
     (case ((take_byte ^^ unat n) ([], p)) of (out, p1) \<Rightarrow> (out, p1\<lparr>pipe_count := pipe_count p1 - n\<rparr>))"

definition pipe_put :: "u8 list \<Rightarrow> pipe_object \<Rightarrow> pipe_object" where
  "pipe_put bs p = (fold put_byte bs p)\<lparr>pipe_count := pipe_count p + of_nat (length bs)\<rparr>"

definition pipe_read :: "u64 \<Rightarrow> bool \<Rightarrow> u32 \<Rightarrow> kern \<Rightarrow> ((int \<times> u8 list) option \<times> kern) option" where
  "pipe_read pipe buffer_null len s =
     (if pipe = 0 \<or> buffer_null then Some (Some (-1, []), s)
      else let p = pipe_at s pipe in
        if pipe_count p \<noteq> 0 then do {
          let n = (if len < pipe_count p then len else pipe_count p);
          let (out, p1) = pipe_take n p;
          s1 \<leftarrow> wake_pipe_waiters pipe (upd_pipe pipe (\<lambda>_. p1) s);
          Some (Some (int (unat n), out), s1)
        }
        else if pipe_writers p = 0 then Some (Some (0, []), s)
        else do { s1 \<leftarrow> pipe_block pipe s; Some (None, s1) })"

definition pipe_write :: "u64 \<Rightarrow> bool \<Rightarrow> u8 list \<Rightarrow> kern \<Rightarrow> (int option \<times> kern) option" where
  "pipe_write pipe buffer_null input s =
     (if pipe = 0 \<or> buffer_null then Some (Some (-1), s)
      else let p = pipe_at s pipe in
        if pipe_readers p = 0 then Some (Some (-1), s)
        else if pipe_count p < of_nat PIPE_CAPACITY then do {
          let room = PIPE_CAPACITY - unat (pipe_count p);
          let n = (if length input < room then length input else room);
          s1 \<leftarrow> wake_pipe_waiters pipe (upd_pipe pipe (\<lambda>_. pipe_put (take n input) p) s);
          Some (Some (int n), s1)
        }
        else do { s1 \<leftarrow> pipe_block pipe s; Some (None, s1) })"

section \<open>File objects\<close>

definition sizeof_file_object :: u64 where "sizeof_file_object = 56"
definition sizeof_pipe_object :: u64 where "sizeof_pipe_object = 4136"

definition new_file :: "(file_object \<Rightarrow> file_object) \<Rightarrow> kern \<Rightarrow> (u64 \<times> kern) option" where
  "new_file f s =
     do {
       (file, s1) \<leftarrow> k_kmalloc sizeof_file_object s;
       Some (if file = 0 then (0, s1)
             else (file, (upd_file file (\<lambda>_. f \<lparr>file_refs = 1, file_inode_nr = 0, file_offset = 0, file_flags = 0,
                                               file_kind = FILE_OBJECT_REGULAR, file_pipe = 0\<rparr>) s1)
                           \<lparr>active_file_objects := active_file_objects s1 + 1\<rparr>))
     }"

definition file_regular_create :: "u32 \<Rightarrow> kern \<Rightarrow> (u64 \<times> kern) option" where
  "file_regular_create inode_nr = new_file (\<lambda>f. f\<lparr>file_inode_nr := inode_nr, file_kind := FILE_OBJECT_REGULAR\<rparr>)"

definition file_pipe_create :: "u64 \<Rightarrow> file_object_kind \<Rightarrow> kern \<Rightarrow> (u64 \<times> kern) option" where
  "file_pipe_create pipe kind = new_file (\<lambda>f. f\<lparr>file_kind := kind, file_pipe := pipe\<rparr>)"

definition file_retain :: "u64 \<Rightarrow> kern \<Rightarrow> kern" where
  "file_retain file s =
     (if file = 0 then s
      else let s1 = upd_file file (\<lambda>f. f\<lparr>file_refs := file_refs f + 1\<rparr>) s; pipe = file_pipe (file_at s1 file) in
        if pipe = 0 then s1
        else if file_kind (file_at s1 file) = FILE_OBJECT_PIPE_READ
        then upd_pipe pipe (\<lambda>p. p\<lparr>pipe_readers := pipe_readers p + 1\<rparr>) s1
        else upd_pipe pipe (\<lambda>p. p\<lparr>pipe_writers := pipe_writers p + 1\<rparr>) s1)"

definition dec_if :: "bool \<Rightarrow> u32 \<Rightarrow> u32" where
  "dec_if c n = (if c \<and> n \<noteq> 0 then n - 1 else n)"

definition free_file :: "u64 \<Rightarrow> kern \<Rightarrow> kern option" where
  "free_file file s = k_kfree file (s\<lparr>active_file_objects := dec_if True (active_file_objects s)\<rparr>)"

definition free_pipe :: "u64 \<Rightarrow> kern \<Rightarrow> kern option" where
  "free_pipe pipe s = k_kfree pipe (s\<lparr>active_pipe_objects := dec_if True (active_pipe_objects s)\<rparr>)"

definition file_release :: "u64 \<Rightarrow> kern \<Rightarrow> kern option" where
  "file_release file s =
     (if file = 0 \<or> file_refs (file_at s file) = 0 then Some s
      else do {
        let s1 = upd_file file (\<lambda>f. f\<lparr>file_refs := file_refs f - 1\<rparr>) s;
        let refs = file_refs (file_at s1 file);
        let pipe = file_pipe (file_at s1 file);
        let kind = file_kind (file_at s1 file);
        if pipe \<noteq> 0 then do {
          let s2 = upd_pipe pipe (\<lambda>p. p\<lparr>pipe_readers := dec_if (kind = FILE_OBJECT_PIPE_READ) (pipe_readers p),
                                        pipe_writers := dec_if (kind = FILE_OBJECT_PIPE_WRITE) (pipe_writers p)\<rparr>) s1;
          s3 \<leftarrow> wake_pipe_waiters pipe s2;
          let none_left = (pipe_readers (pipe_at s3 pipe) = 0 \<and> pipe_writers (pipe_at s3 pipe) = 0);
          s4 \<leftarrow> (if refs = 0 then free_file file s3 else Some s3);
          if none_left then free_pipe pipe s4 else Some s4
        }
        else if refs = 0
        then free_file file (s1\<lparr>the_fs := fs_release_inode (file_inode_nr (file_at s1 file)) (the_fs s1)\<rparr>)
        else Some s1
      })"

text \<open>Reading and writing through a file object; the transferred bytes are those of the buffer.\<close>

definition file_read :: "u64 \<Rightarrow> bool \<Rightarrow> memory \<Rightarrow> u32 \<Rightarrow> kern \<Rightarrow> ((int \<times> memory) option \<times> kern) option" where
  "file_read file buffer_null buf len s =
     (let f = file_at s file in
      if file = 0 \<or> buffer_null then Some (Some (-1, buf), s)
      else case file_kind f of
        FILE_OBJECT_PIPE_READ \<Rightarrow> do {
          (r, s1) \<leftarrow> pipe_read (file_pipe f) False len s;
          Some (map_option (\<lambda>(n, out). (n, \<lambda>i. if i < length out then out ! i else buf i)) r, s1)
        }
      | FILE_OBJECT_PIPE_WRITE \<Rightarrow> Some (Some (-1, buf), s)
      | FILE_OBJECT_REGULAR \<Rightarrow> do {
          (r, buf1, fs1) \<leftarrow> fs_read_inode (file_inode_nr f) (file_offset f) False buf len (the_fs s);
          let s1 = s\<lparr>the_fs := fs1\<rparr>;
          Some (Some (r, buf1), if r > 0 then upd_file file (\<lambda>f. f\<lparr>file_offset := file_offset f + of_int r\<rparr>) s1 else s1)
        })"

definition file_write :: "u64 \<Rightarrow> bool \<Rightarrow> memory \<Rightarrow> u32 \<Rightarrow> kern \<Rightarrow> (int option \<times> kern) option" where
  "file_write file buffer_null buf len s =
     (let f = file_at s file in
      if file = 0 \<or> buffer_null then Some (Some (-1), s)
      else case file_kind f of
        FILE_OBJECT_PIPE_WRITE \<Rightarrow> pipe_write (file_pipe f) False (map buf [0..<unat len]) s
      | FILE_OBJECT_PIPE_READ \<Rightarrow> Some (Some (-1), s)
      | FILE_OBJECT_REGULAR \<Rightarrow> do {
          (r, fs1) \<leftarrow> fs_write_inode (file_inode_nr f) (file_offset f) False buf len (the_fs s);
          let s1 = s\<lparr>the_fs := fs1\<rparr>;
          Some (Some r, if r > 0 then upd_file file (\<lambda>f. f\<lparr>file_offset := file_offset f + of_int r\<rparr>) s1 else s1)
        })"

text \<open>The two ends of a new pipe, or \<open>None\<close> for the result -1.\<close>

definition pipe_create :: "kern \<Rightarrow> ((u64 \<times> u64) option \<times> kern) option" where
  "pipe_create s =
     do {
       (pipe, s1) \<leftarrow> k_kmalloc sizeof_pipe_object s;
       if pipe = 0 then Some (None, s1)
       else do {
         let s2 = (upd_pipe pipe (\<lambda>_. \<lparr>pipe_data = (\<lambda>_. 0), pipe_head = 0, pipe_tail = 0, pipe_count = 0,
                                     pipe_readers = 1, pipe_writers = 1\<rparr>) s1)
                   \<lparr>active_pipe_objects := active_pipe_objects s1 + 1\<rparr>;
         (r, s3) \<leftarrow> file_pipe_create pipe FILE_OBJECT_PIPE_READ s2;
         (w, s4) \<leftarrow> file_pipe_create pipe FILE_OBJECT_PIPE_WRITE s3;
         if r = 0 \<or> w = 0 then do {
           s5 \<leftarrow> (if r \<noteq> 0 then k_kfree r s4 else Some s4);
           s6 \<leftarrow> (if w \<noteq> 0 then k_kfree w s5 else Some s5);
           let n = (if r \<noteq> 0 then 1 else 0) + (if w \<noteq> 0 then 1 else 0);
           let s7 = (if active_file_objects s6 \<ge> n then s6\<lparr>active_file_objects := active_file_objects s6 - n\<rparr> else s6);
           s8 \<leftarrow> free_pipe pipe s7;
           Some (None, s8)
         }
         else Some (Some (r, w), s4)
       }
     }"

record file_runtime_stats =
  frs_files :: u32
  frs_pipes :: u32

definition file_get_runtime_stats :: "kern \<Rightarrow> file_runtime_stats" where
  "file_get_runtime_stats s = \<lparr>frs_files = active_file_objects s, frs_pipes = active_pipe_objects s\<rparr>"

end
