(* ===== verification/Pipe_Safety.thy ===== *)
theory Pipe_Safety
  imports Files Sched_Safety
begin

text \<open>
  Pipes as bounded queues of bytes: the ring buffer of a pipe represents a list, and every read
  and write is the operation on that list.
\<close>

section \<open>The ring buffer\<close>

definition pipe_ok :: "pipe_object \<Rightarrow> bool" where
  "pipe_ok p \<longleftrightarrow> unat (pipe_head p) < PIPE_CAPACITY \<and> unat (pipe_count p) \<le> PIPE_CAPACITY \<and>
     unat (pipe_tail p) = (unat (pipe_head p) + unat (pipe_count p)) mod PIPE_CAPACITY"

definition pipe_bytes :: "pipe_object \<Rightarrow> u8 list" where
  "pipe_bytes p = map (\<lambda>i. pipe_data p ((unat (pipe_head p) + i) mod PIPE_CAPACITY)) [0..<unat (pipe_count p)]"

lemma length_pipe_bytes [simp]: "length (pipe_bytes p) = unat (pipe_count p)"
  by (simp add: pipe_bytes_def)

lemma next_slot:
  assumes "unat (w :: u32) < PIPE_CAPACITY"
  shows "unat ((w + 1) mod of_nat PIPE_CAPACITY) = (unat w + 1) mod PIPE_CAPACITY"
proof -
  have "unat (w + 1) = unat w + 1" using assms by (simp add: PIPE_CAPACITY_def unat_word_ariths)
  then show ?thesis by (simp add: unat_mod PIPE_CAPACITY_def)
qed

lemma take_bytes:
  assumes "unat (pipe_head p) < PIPE_CAPACITY"
  shows "\<exists>h. (take_byte ^^ n) ([], p) =
      (map (\<lambda>i. pipe_data p ((unat (pipe_head p) + i) mod PIPE_CAPACITY)) [0..<n], p\<lparr>pipe_head := h\<rparr>) \<and>
    unat h = (unat (pipe_head p) + n) mod PIPE_CAPACITY"
proof (induction n)
  case 0
  show ?case using assms by (intro exI [of _ "pipe_head p"]) simp
next
  case (Suc n)
  then obtain h where h: "(take_byte ^^ n) ([], p) =
      (map (\<lambda>i. pipe_data p ((unat (pipe_head p) + i) mod PIPE_CAPACITY)) [0..<n], p\<lparr>pipe_head := h\<rparr>)"
    "unat h = (unat (pipe_head p) + n) mod PIPE_CAPACITY" by blast
  have "unat ((h + 1) mod of_nat PIPE_CAPACITY) = (unat (pipe_head p) + Suc n) mod PIPE_CAPACITY"
    using next_slot [of h] h(2) by (simp add: PIPE_CAPACITY_def mod_Suc_eq)
  then show ?case by (intro exI [of _ "(h + 1) mod of_nat PIPE_CAPACITY"]) (simp add: h(1), simp add: take_byte_def h(2))
qed

lemma pipe_take:
  assumes "pipe_ok p" and "n \<le> pipe_count p"
  shows "fst (pipe_take n p) = take (unat n) (pipe_bytes p)"
    and "pipe_ok (snd (pipe_take n p))"
    and "pipe_bytes (snd (pipe_take n p)) = drop (unat n) (pipe_bytes p)"
    and "pipe_readers (snd (pipe_take n p)) = pipe_readers p" "pipe_writers (snd (pipe_take n p)) = pipe_writers p"
proof -
  obtain h where h: "(take_byte ^^ unat n) ([], p) =
      (map (\<lambda>i. pipe_data p ((unat (pipe_head p) + i) mod PIPE_CAPACITY)) [0..<unat n], p\<lparr>pipe_head := h\<rparr>)"
    "unat h = (unat (pipe_head p) + unat n) mod PIPE_CAPACITY"
    using take_bytes [of p "unat n"] assms(1) by (auto simp: pipe_ok_def)
  have n: "unat n \<le> unat (pipe_count p)" "unat (pipe_count p - n) = unat (pipe_count p) - unat n"
    using assms(2) by (simp_all add: word_le_nat_alt unat_sub)
  have t: "pipe_take n p = (take (unat n) (pipe_bytes p), p\<lparr>pipe_head := h, pipe_count := pipe_count p - n\<rparr>)"
    using n(1) by (simp add: pipe_take_def h(1) pipe_bytes_def take_map)
  show "fst (pipe_take n p) = take (unat n) (pipe_bytes p)" by (simp add: t)
  have "(unat h + (unat (pipe_count p) - unat n)) mod PIPE_CAPACITY = (unat (pipe_head p) + unat (pipe_count p)) mod PIPE_CAPACITY"
    using n(1) unfolding h(2) by (simp only: mod_add_left_eq) simp
  then show "pipe_ok (snd (pipe_take n p))" using assms(1) n h(2)
    by (auto simp: t pipe_ok_def PIPE_CAPACITY_def)
  show "pipe_bytes (snd (pipe_take n p)) = drop (unat n) (pipe_bytes p)"
    using n h(2) by (simp add: t pipe_bytes_def drop_map mod_simps) (simp add: list_eq_iff_nth_eq ac_simps)
  show "pipe_readers (snd (pipe_take n p)) = pipe_readers p" "pipe_writers (snd (pipe_take n p)) = pipe_writers p"
    by (simp_all add: t)
qed

lemma slot_same:
  assumes "i < c" and "j < c"
  shows "(t + i) mod c = (t + j) mod c \<longleftrightarrow> i = (j :: nat)"
proof -
  have "k = l" if "l \<le> k" "k < c" "(t + k) mod c = (t + l) mod c" for k l :: nat
  proof -
    have "c dvd k - l" using that mod_eq_dvd_iff_nat [of "t + l" "t + k" c] by simp
    then show ?thesis using that by (meson diff_le_self dvd_imp_le le_less_trans less_imp_diff_less not_less zero_less_diff le_antisym not_le)
  qed
  then show ?thesis using assms by (metis nat_le_linear)
qed

lemma put_bytes:
  assumes "unat (pipe_tail p) < PIPE_CAPACITY" and "length bs \<le> PIPE_CAPACITY"
  shows "\<exists>d w. fold put_byte bs p = p\<lparr>pipe_data := d, pipe_tail := w\<rparr> \<and>
    unat w = (unat (pipe_tail p) + length bs) mod PIPE_CAPACITY \<and>
    (\<forall>i < PIPE_CAPACITY. d ((unat (pipe_tail p) + i) mod PIPE_CAPACITY) =
       (if i < length bs then bs ! i else pipe_data p ((unat (pipe_tail p) + i) mod PIPE_CAPACITY)))"
  using assms(2)
proof (induction bs rule: rev_induct)
  case Nil
  then show ?case using assms(1) by (intro exI [of _ "pipe_data p"] exI [of _ "pipe_tail p"]) simp
next
  case (snoc b bs)
  then obtain d w where d: "fold put_byte bs p = p\<lparr>pipe_data := d, pipe_tail := w\<rparr>"
    "unat w = (unat (pipe_tail p) + length bs) mod PIPE_CAPACITY"
    "\<forall>i < PIPE_CAPACITY. d ((unat (pipe_tail p) + i) mod PIPE_CAPACITY) =
       (if i < length bs then bs ! i else pipe_data p ((unat (pipe_tail p) + i) mod PIPE_CAPACITY))" by auto
  let ?t = "unat (pipe_tail p)"
  have inj: "(?t + i) mod PIPE_CAPACITY = (?t + length bs) mod PIPE_CAPACITY \<longleftrightarrow> i = length bs" if "i < PIPE_CAPACITY" for i
    using that snoc.prems by (intro slot_same) auto
  have "unat ((w + 1) mod of_nat PIPE_CAPACITY) = (?t + length (bs @ [b])) mod PIPE_CAPACITY"
    using next_slot [of w] d(2) by (simp add: PIPE_CAPACITY_def mod_Suc_eq)
  moreover have "fold put_byte (bs @ [b]) p = p\<lparr>pipe_data := d(unat w := b), pipe_tail := (w + 1) mod of_nat PIPE_CAPACITY\<rparr>"
    by (simp add: d(1) put_byte_def)
  moreover have "\<forall>i < PIPE_CAPACITY. (d(unat w := b)) ((?t + i) mod PIPE_CAPACITY) =
      (if i < length (bs @ [b]) then (bs @ [b]) ! i else pipe_data p ((?t + i) mod PIPE_CAPACITY))"
    using d(2,3) inj by (auto simp: nth_append)
  ultimately show ?case by blast
qed

lemma pipe_put:
  assumes ok: "pipe_ok p" and room: "length bs \<le> PIPE_CAPACITY - unat (pipe_count p)"
  shows "pipe_ok (pipe_put bs p)" and "pipe_bytes (pipe_put bs p) = pipe_bytes p @ bs"
    and "pipe_readers (pipe_put bs p) = pipe_readers p" "pipe_writers (pipe_put bs p) = pipe_writers p"
proof -
  let ?c = "unat (pipe_count p)" and ?h = "unat (pipe_head p)" and ?n = "length bs"
  have le: "?c \<le> PIPE_CAPACITY" "?c + ?n \<le> PIPE_CAPACITY" "unat (pipe_tail p) < PIPE_CAPACITY"
    using ok room by (auto simp: pipe_ok_def PIPE_CAPACITY_def)
  obtain d w where d: "fold put_byte bs p = p\<lparr>pipe_data := d, pipe_tail := w\<rparr>"
    "unat w = (unat (pipe_tail p) + ?n) mod PIPE_CAPACITY"
    "\<And>i. i < PIPE_CAPACITY \<Longrightarrow> d ((unat (pipe_tail p) + i) mod PIPE_CAPACITY) =
       (if i < ?n then bs ! i else pipe_data p ((unat (pipe_tail p) + i) mod PIPE_CAPACITY))"
    using put_bytes [of p bs] le by auto
  have tail: "unat (pipe_tail p) = (?h + ?c) mod PIPE_CAPACITY" using ok by (simp add: pipe_ok_def)
  have put: "pipe_put bs p = p\<lparr>pipe_data := d, pipe_tail := w, pipe_count := pipe_count p + of_nat ?n\<rparr>"
    by (simp add: pipe_put_def d(1))
  have cnt: "unat (pipe_count p + of_nat ?n) = ?c + ?n"
    using le by (simp add: unat_word_ariths unat_of_nat PIPE_CAPACITY_def)
  show "pipe_ok (pipe_put bs p)"
    using ok le cnt d(2) by (simp add: put pipe_ok_def tail mod_add_left_eq add.assoc)
  have new: "d ((?h + i) mod PIPE_CAPACITY) = bs ! (i - ?c)" if "?c \<le> i" "i < ?c + ?n" for i
  proof -
    have e: "(unat (pipe_tail p) + (i - ?c)) mod PIPE_CAPACITY = (?h + i) mod PIPE_CAPACITY"
      using that(1) unfolding tail by (simp only: mod_add_left_eq) simp
    have "i - ?c < PIPE_CAPACITY" "i - ?c < ?n" using that le by linarith+
    from d(3) [OF this(1)] this(2) show ?thesis unfolding e by simp
  qed
  have old: "d ((?h + i) mod PIPE_CAPACITY) = pipe_data p ((?h + i) mod PIPE_CAPACITY)" if "i < ?c" for i
  proof -
    have "(?h + ?c + (PIPE_CAPACITY - ?c + i)) mod PIPE_CAPACITY = (?h + i + PIPE_CAPACITY) mod PIPE_CAPACITY"
      using le(1) by (intro arg_cong [where f = "\<lambda>n. n mod PIPE_CAPACITY"]) simp
    then have e: "(unat (pipe_tail p) + (PIPE_CAPACITY - ?c + i)) mod PIPE_CAPACITY = (?h + i) mod PIPE_CAPACITY"
      unfolding tail by (simp add: mod_add_left_eq)
    have "PIPE_CAPACITY - ?c + i < PIPE_CAPACITY" "\<not> PIPE_CAPACITY - ?c + i < ?n" using that le by auto
    from d(3) [OF this(1)] this(2) show ?thesis unfolding e by simp
  qed
  show "pipe_bytes (pipe_put bs p) = pipe_bytes p @ bs"
    using new old by (intro nth_equalityI) (auto simp: put pipe_bytes_def cnt nth_append)
  show "pipe_readers (pipe_put bs p) = pipe_readers p" "pipe_writers (pipe_put bs p) = pipe_writers p"
    by (simp_all add: put)
qed

section \<open>Waking the threads that wait for a pipe\<close>

definition blocked_on :: "u64 \<Rightarrow> thread \<Rightarrow> bool" where
  "blocked_on p x \<longleftrightarrow> status x = TASK_BLOCKED \<and> waiting_lock x = p"

definition wake_set :: "u64 \<Rightarrow> u64 set \<Rightarrow> (u64 \<Rightarrow> thread) \<Rightarrow> u64 \<Rightarrow> thread" where
  "wake_set p T f t = (if t \<in> T \<and> blocked_on p (f t) then (f t)\<lparr>waiting_lock := 0, status := TASK_READY\<rparr> else f t)"

definition woken :: "u64 \<Rightarrow> u64 set \<Rightarrow> kern \<Rightarrow> kern" where
  "woken p T s = s\<lparr>thread_at := wake_set p T (thread_at s)\<rparr>"

lemma wake_set_union: "wake_set p A (wake_set p B f) = wake_set p (A \<union> B) f"
  by (auto simp: wake_set_def blocked_on_def fun_eq_iff)

lemma wake_set_single:
  "wake_set p {t} f = (if blocked_on p (f t) then f(t := (f t)\<lparr>waiting_lock := 0, status := TASK_READY\<rparr>) else f)"
  by (auto simp: wake_set_def fun_eq_iff)

lemma wake_one: "t \<noteq> 0 \<Longrightarrow> wake_if_blocked_on p t s = Some (woken p {t} s)"
  by (simp add: wake_if_blocked_on_def woken_def wake_set_single blocked_on_def thread_unblock_def upd_thread_def)

lemma woken_woken: "woken p A (woken p B s) = woken p (A \<union> B) s"
  by (simp add: woken_def wake_set_union)

lemma woken_frame [simp]:
  "pipe_at (woken p T s) = pipe_at s" "current_thread (woken p T s) = current_thread s"
  "ring_next (woken p T s) t = ring_next s t"
  by (simp_all add: woken_def wake_set_def)

lemma woken_none [simp]: "woken p {} s = s"
proof -
  have "wake_set p {} (thread_at s) = thread_at s" by (simp add: wake_set_def fun_eq_iff)
  then show ?thesis by (simp add: woken_def)
qed

lemma foldo_wake: "0 \<notin> set xs \<Longrightarrow> foldo (wake_if_blocked_on p) xs s = Some (woken p (set xs) s)"
  by (induction xs arbitrary: s) (simp_all add: wake_one woken_woken)

lemma wake_waiters:
  assumes ring: "sched_ring s xs" and p: "p \<noteq> 0"
  shows "wake_pipe_waiters p s = Some (woken p (set (current_thread s # xs)) s)"
proof -
  note r = ring_parts [OF ring]
  have "each ring_next (\<lambda>t _. t = current_thread s) (wake_if_blocked_on p) (ring_next s (current_thread s)) s =
      foldo (wake_if_blocked_on p) xs s"
  proof (rule each_lseg [where q = "current_thread s"])
    fix ys x zs u u' y
    assume "xs = ys @ x # zs" "wake_if_blocked_on p x u = Some u'"
    moreover then have "x \<noteq> 0" using r(3) by auto
    ultimately show "ring_next u' y = ring_next u y" by (auto simp: wake_one)
  qed (use r in auto)
  then show ?thesis using r(1,3) p by (simp add: wake_pipe_waiters_def Let_def foldo_wake wake_one woken_woken)
qed

section \<open>Reading and writing\<close>

text \<open>A bounded queue of bytes.\<close>

definition queue_take :: "nat \<Rightarrow> u8 list \<Rightarrow> u8 list \<times> u8 list" where
  "queue_take n q = (take n q, drop n q)"

definition queue_put :: "u8 list \<Rightarrow> u8 list \<Rightarrow> nat \<times> u8 list" where
  "queue_put bs q = (let k = min (length bs) (4096 - length q) in (k, q @ take k bs))"

lemma pipe_at_upd [simp]: "pipe_at (upd_pipe p f s) = (pipe_at s)(p := f (pipe_at s p))"
  by (simp add: upd_pipe_def)

lemma upd_pipe_frame [simp]:
  "current_thread (upd_pipe p f s) = current_thread s" "thread_at (upd_pipe p f s) = thread_at s"
  by (simp_all add: upd_pipe_def)

lemma pipe_read_some:
  assumes ring: "sched_ring s xs" and ok: "pipe_ok (pipe_at s p)" and p: "p \<noteq> 0" "pipe_bytes (pipe_at s p) \<noteq> []"
  shows "\<exists>x. pipe_ok x \<and> (fst (queue_take (unat n) (pipe_bytes (pipe_at s p))), pipe_bytes x) = queue_take (unat n) (pipe_bytes (pipe_at s p)) \<and>
    pipe_readers x = pipe_readers (pipe_at s p) \<and> pipe_writers x = pipe_writers (pipe_at s p) \<and>
    pipe_read p False n s = Some (Some (int (length (fst (queue_take (unat n) (pipe_bytes (pipe_at s p))))),
        fst (queue_take (unat n) (pipe_bytes (pipe_at s p)))),
      woken p (set (current_thread s # xs)) (upd_pipe p (\<lambda>_. x) s))"
proof -
  let ?x = "pipe_at s p"
  define k where "k = (if n < pipe_count ?x then n else pipe_count ?x)"
  have k: "k \<le> pipe_count ?x" "unat k = min (unat n) (length (pipe_bytes ?x))"
    by (auto simp: k_def word_le_nat_alt word_less_nat_alt)
  have nz: "pipe_count ?x \<noteq> 0" using p(2) by (auto simp: pipe_bytes_def)
  have ring': "sched_ring (upd_pipe p (\<lambda>_. y) s) xs" for y using ring by simp
  have "pipe_read p False n s = Some (Some (int (unat k), fst (pipe_take k ?x)),
      woken p (set (current_thread s # xs)) (upd_pipe p (\<lambda>_. snd (pipe_take k ?x)) s))"
    using p(1) nz wake_waiters [OF ring' p(1)]
    by (simp add: pipe_read_def Let_def k_def [symmetric] case_prod_unfold)
  then show ?thesis
    using pipe_take [OF ok k(1)] k(2) by (intro exI [of _ "snd (pipe_take k ?x)"]) (simp add: queue_take_def min_def)
qed

lemma pipe_write_some:
  assumes ring: "sched_ring s xs" and ok: "pipe_ok (pipe_at s p)" and p: "p \<noteq> 0" "pipe_readers (pipe_at s p) \<noteq> 0"
    "length (pipe_bytes (pipe_at s p)) < PIPE_CAPACITY"
  shows "\<exists>x. pipe_ok x \<and> pipe_bytes x = snd (queue_put bs (pipe_bytes (pipe_at s p))) \<and>
    pipe_readers x = pipe_readers (pipe_at s p) \<and> pipe_writers x = pipe_writers (pipe_at s p) \<and>
    pipe_write p False bs s = Some (Some (int (fst (queue_put bs (pipe_bytes (pipe_at s p))))),
      woken p (set (current_thread s # xs)) (upd_pipe p (\<lambda>_. x) s))"
proof -
  let ?x = "pipe_at s p"
  define k where "k = (if length bs < PIPE_CAPACITY - unat (pipe_count ?x) then length bs else PIPE_CAPACITY - unat (pipe_count ?x))"
  have k: "k = fst (queue_put bs (pipe_bytes ?x))" "length (take k bs) \<le> PIPE_CAPACITY - unat (pipe_count ?x)"
    by (auto simp: k_def queue_put_def Let_def PIPE_CAPACITY_def)
  have room: "pipe_count ?x < of_nat PIPE_CAPACITY"
    using p(3) by (simp add: word_less_nat_alt PIPE_CAPACITY_def)
  have ring': "sched_ring (upd_pipe p (\<lambda>_. y) s) xs" for y using ring by simp
  have "pipe_write p False bs s = Some (Some (int k),
      woken p (set (current_thread s # xs)) (upd_pipe p (\<lambda>_. pipe_put (take k bs) ?x) s))"
    using p(1,2) room wake_waiters [OF ring' p(1)] by (simp add: pipe_write_def Let_def k_def [symmetric])
  then show ?thesis using pipe_put [OF ok k(2)] k(1)
    by (intro exI [of _ "pipe_put (take k bs) ?x"]) (simp add: queue_put_def Let_def)
qed

section \<open>Properties\<close>

text \<open>
  C21: A pipe is a first-in first-out queue of at most 4096 bytes.  A read of a pipe that is not
  empty returns at once with the oldest bytes, as many as asked for and available, and removes
  exactly them; a write that finds room appends the first bytes that fit and returns their number.
  Both wake exactly the members of the ring that are blocked on the pipe.  A read of an empty pipe
  returns 0 when no writer is left and otherwise blocks; a write fails when no reader is left and
  blocks when the pipe is full.
\<close>

theorem pipe_fifo:
  assumes "sched_ring s xs" and "pipe_ok (pipe_at s p)" and "p \<noteq> 0"
  shows "let q = pipe_bytes (pipe_at s p); ring = set (current_thread s # xs) in
    (if q \<noteq> [] then \<exists>x. pipe_ok x \<and> pipe_bytes x = snd (queue_take (unat n) q) \<and>
         pipe_read p False n s = Some (Some (int (length (fst (queue_take (unat n) q))), fst (queue_take (unat n) q)),
           woken p ring (upd_pipe p (\<lambda>_. x) s))
     else if pipe_writers (pipe_at s p) = 0 then pipe_read p False n s = Some (Some (0, []), s)
     else pipe_read p False n s = map_option (Pair None) (pipe_block p s)) \<and>
    (if pipe_readers (pipe_at s p) = 0 then pipe_write p False bs s = Some (Some (-1), s)
     else if length q < 4096 then \<exists>x. pipe_ok x \<and> pipe_bytes x = snd (queue_put bs q) \<and>
         pipe_write p False bs s = Some (Some (int (fst (queue_put bs q))), woken p ring (upd_pipe p (\<lambda>_. x) s))
     else pipe_write p False bs s = map_option (Pair None) (pipe_block p s))"
proof -
  let ?x = "pipe_at s p"
  have e: "pipe_bytes ?x = [] \<longleftrightarrow> pipe_count ?x = 0"
    using length_pipe_bytes [of ?x] by (metis length_0_conv unat_eq_zero)
  have full: "pipe_count ?x < of_nat PIPE_CAPACITY \<longleftrightarrow> length (pipe_bytes ?x) < 4096"
    by (simp add: word_less_nat_alt PIPE_CAPACITY_def)
  have r: "\<exists>x. pipe_ok x \<and> pipe_bytes x = snd (queue_take (unat n) (pipe_bytes ?x)) \<and>
      pipe_read p False n s = Some (Some (int (length (fst (queue_take (unat n) (pipe_bytes ?x)))), fst (queue_take (unat n) (pipe_bytes ?x))),
        woken p (set (current_thread s # xs)) (upd_pipe p (\<lambda>_. x) s))" if "pipe_bytes ?x \<noteq> []"
    using pipe_read_some [OF assms that, of n] by (metis snd_conv)
  have w: "\<exists>x. pipe_ok x \<and> pipe_bytes x = snd (queue_put bs (pipe_bytes ?x)) \<and>
      pipe_write p False bs s = Some (Some (int (fst (queue_put bs (pipe_bytes ?x)))),
        woken p (set (current_thread s # xs)) (upd_pipe p (\<lambda>_. x) s))"
    if "pipe_readers ?x \<noteq> 0" "length (pipe_bytes ?x) < 4096"
    using pipe_write_some [OF assms that(1), of bs] that(2) by (auto simp: PIPE_CAPACITY_def)
  have r0: "pipe_read p False n s = (if pipe_writers ?x = 0 then Some (Some (0, []), s) else map_option (Pair None) (pipe_block p s))"
    if "pipe_bytes ?x = []"
    using assms(3) that e by (cases "pipe_block p s") (simp_all add: pipe_read_def Let_def)
  have w0: "pipe_write p False bs s = (if pipe_readers ?x = 0 then Some (Some (-1), s) else map_option (Pair None) (pipe_block p s))"
    if "pipe_readers ?x = 0 \<or> \<not> length (pipe_bytes ?x) < 4096"
    using assms(3) that full by (cases "pipe_block p s") (auto simp: pipe_write_def Let_def)
  show ?thesis unfolding Let_def using r w r0 w0 by (auto simp del: length_pipe_bytes)
qed

definition demo_pipe :: pipe_object where
  "demo_pipe = \<lparr>pipe_data = (\<lambda>_. 0)(4095 := 1, 0 := 2, 1 := 3), pipe_head = 4095, pipe_tail = 2, pipe_count = 3,
     pipe_readers = 1, pipe_writers = 1\<rparr>"

theorem pipe_fifo_witness:
  "(let s = upd_pipe 0x5000 (\<lambda>_. demo_pipe) demo_kern in
    (\<exists>s'. pipe_read 0x5000 False 2 s = Some (Some (2, [1, 2]), s') \<and> pipe_bytes (pipe_at s' 0x5000) = [3]) \<and>
    (\<exists>s'. pipe_write 0x5000 False [7] s = Some (Some 1, s') \<and> pipe_bytes (pipe_at s' 0x5000) = [1, 2, 3, 7]))"
proof -
  let ?s = "upd_pipe 0x5000 (\<lambda>_. demo_pipe) demo_kern"
  have ring: "sched_ring ?s [0x2000, 0x3000]" using demo_sched_ok by (simp add: sched_ok_def)
  have x: "pipe_at ?s 0x5000 = demo_pipe" "pipe_readers demo_pipe = 1" "pipe_ok demo_pipe"
    by (simp_all add: demo_pipe_def pipe_ok_def PIPE_CAPACITY_def)
  have c: "pipe_bytes demo_pipe = [1, 2, 3]" by (simp add: demo_pipe_def pipe_bytes_def PIPE_CAPACITY_def upt_rec)
  show ?thesis
    using pipe_fifo [OF ring, of "0x5000" 2 "[7]"] x by (auto simp: c Let_def queue_take_def queue_put_def)
qed

end
