(* ===== verification/Sync.thy ===== *)
theory Sync
  imports Scheduler
begin

text \<open>
  The spin locks and mutexes of kernel/sync.c.  On the single CPU a lock that is held is never
  released while another acquisition spins with interrupts disabled, so the spin loop returns at
  once or never.  Of the saved flags register only the interrupt flag, bit 9, is ever read.
\<close>

section \<open>Spin locks\<close>

record spinlock =
  lock_flag :: u32
  saved_rflags :: u64

definition spinlock_init :: spinlock where
  "spinlock_init = \<lparr>lock_flag = 0, saved_rflags = 0\<rparr>"

definition RFLAGS_IF :: u64 where "RFLAGS_IF = 0x200"

definition rflags :: "kern \<Rightarrow> u64" where
  "rflags s = (if cpu_if (the_cpu s) then RFLAGS_IF else 0)"

definition sti :: "kern \<Rightarrow> kern" where
  "sti s = s\<lparr>the_cpu := (the_cpu s)\<lparr>cpu_if := True\<rparr>\<rparr>"

definition spinlock_acquire :: "spinlock \<Rightarrow> kern \<Rightarrow> (spinlock \<times> kern) option" where
  "spinlock_acquire l s =
     (if lock_flag l = 1 then None
      else Some (\<lparr>lock_flag = 1, saved_rflags = rflags s\<rparr>, thread_preempt_disable (cli s)))"

definition spinlock_release :: "spinlock \<Rightarrow> kern \<Rightarrow> (spinlock \<times> kern) option" where
  "spinlock_release l s =
     do {
       s1 \<leftarrow> thread_preempt_enable s;
       Some (l\<lparr>lock_flag := 0\<rparr>, if saved_rflags l AND RFLAGS_IF \<noteq> 0 then sti s1 else s1)
     }"

section \<open>Mutexes\<close>

record mutex =
  mtx_guard :: spinlock
  is_locked :: u32

definition mutex_init :: mutex where
  "mutex_init = \<lparr>mtx_guard = spinlock_init, is_locked = 0\<rparr>"

text \<open>
  One round of the loop of \<^verbatim>\<open>mutex_acquire\<close>: the mutex at address \<open>m\<close> is taken, or the thread notes
  what it waits for.  In the second case it calls \<^verbatim>\<open>thread_block\<close> next and starts over when it runs
  again.
\<close>

definition mutex_attempt :: "u64 \<Rightarrow> mutex \<Rightarrow> kern \<Rightarrow> (bool \<times> mutex \<times> kern) option" where
  "mutex_attempt m x s =
     do {
       (g, s1) \<leftarrow> spinlock_acquire (mtx_guard x) s;
       let free = (is_locked x = 0);
       let s2 = (if free then s1 else upd_thread (current_thread s1) (waiting_lock_update (\<lambda>_. m)) s1);
       (g', s3) \<leftarrow> spinlock_release g s2;
       Some (free, \<lparr>mtx_guard = g', is_locked = (if free then 1 else is_locked x)\<rparr>, s3)
     }"

text \<open>The first thread of the ring behind the current one that is blocked on the mutex, or 0.\<close>

definition mutex_waiter :: "u64 \<Rightarrow> kern \<Rightarrow> u64 option" where
  "mutex_waiter m s =
     (let cur = current_thread s in
      if cur = 0 then Some 0
      else do {
        (_, t) \<leftarrow> chase (ring_next s)
                    (\<lambda>t. t = cur \<or> status (thread_at s t) = TASK_BLOCKED \<and> waiting_lock (thread_at s t) = m) cur (ring_next s cur);
        Some (if t = cur then 0 else t)
      })"

definition mutex_release :: "u64 \<Rightarrow> mutex \<Rightarrow> kern \<Rightarrow> (mutex \<times> kern) option" where
  "mutex_release m x s =
     do {
       (g, s1) \<leftarrow> spinlock_acquire (mtx_guard x) s;
       t \<leftarrow> mutex_waiter m s1;
       (g', s2) \<leftarrow> spinlock_release g (if t \<noteq> 0 then thread_unblock t s1 else s1);
       Some (\<lparr>mtx_guard = g', is_locked = 0\<rparr>, if t \<noteq> 0 then thread_request_reschedule s2 else s2)
     }"

text \<open>\<^verbatim>\<open>thread_block_with_lock\<close> up to the switch: the status changes before the guard is released.\<close>

definition thread_block_with_lock :: "spinlock \<Rightarrow> kern \<Rightarrow> (spinlock \<times> kern) option" where
  "thread_block_with_lock guard s =
     (if current_thread s = 0 then None
      else do {
        (g, s1) \<leftarrow> spinlock_release guard (set_status (current_thread s) TASK_BLOCKED (cli s));
        s2 \<leftarrow> schedule s1;
        Some (g, s2)
      })"

end
