(* ===== verification/Mutex_Safety.thy ===== *)
theory Mutex_Safety
  imports Sync Sched_Safety
begin

text \<open>
  Threads that use one mutex, step by step: the rounds of \<^verbatim>\<open>mutex_acquire\<close>, the calls of
  \<^verbatim>\<open>thread_block\<close> and \<^verbatim>\<open>mutex_release\<close>, and the clock ticks that may switch threads between any two
  of them.
\<close>

section \<open>Steps\<close>

text \<open>Where a thread is: outside, refused and about to block, blocked, or inside the critical section.\<close>

datatype location = Outside | Refused | Asleep | Inside

record lock_system =
  sys_mutex :: mutex
  sys_kern :: kern
  sys_loc :: "u64 \<Rightarrow> location"

inductive lock_step :: "u64 \<Rightarrow> lock_system \<Rightarrow> lock_system \<Rightarrow> bool" for m where
  enter: "current_thread k = t \<Longrightarrow> loc t = Outside \<Longrightarrow> mutex_attempt m x k = Some (True, x', k') \<Longrightarrow>
    lock_step m \<lparr>sys_mutex = x, sys_kern = k, sys_loc = loc\<rparr> \<lparr>sys_mutex = x', sys_kern = k', sys_loc = loc(t := Inside)\<rparr>"
| refuse: "current_thread k = t \<Longrightarrow> loc t = Outside \<Longrightarrow> mutex_attempt m x k = Some (False, x', k') \<Longrightarrow>
    lock_step m \<lparr>sys_mutex = x, sys_kern = k, sys_loc = loc\<rparr> \<lparr>sys_mutex = x', sys_kern = k', sys_loc = loc(t := Refused)\<rparr>"
| block: "current_thread k = t \<Longrightarrow> loc t = Refused \<Longrightarrow> thread_block k = Some k' \<Longrightarrow>
    lock_step m \<lparr>sys_mutex = x, sys_kern = k, sys_loc = loc\<rparr> \<lparr>sys_mutex = x, sys_kern = k', sys_loc = loc(t := Asleep)\<rparr>"
| again: "current_thread k = t \<Longrightarrow> loc t = Asleep \<Longrightarrow> status (thread_at k t) = TASK_BLOCKED \<Longrightarrow> thread_block_again k = Some k' \<Longrightarrow>
    lock_step m \<lparr>sys_mutex = x, sys_kern = k, sys_loc = loc\<rparr> \<lparr>sys_mutex = x, sys_kern = k', sys_loc = loc\<rparr>"
| wake: "current_thread k = t \<Longrightarrow> loc t = Asleep \<Longrightarrow> status (thread_at k t) \<noteq> TASK_BLOCKED \<Longrightarrow>
    lock_step m \<lparr>sys_mutex = x, sys_kern = k, sys_loc = loc\<rparr> \<lparr>sys_mutex = x, sys_kern = k, sys_loc = loc(t := Outside)\<rparr>"
| leave: "current_thread k = t \<Longrightarrow> loc t = Inside \<Longrightarrow> mutex_release m x k = Some (x', k') \<Longrightarrow>
    lock_step m \<lparr>sys_mutex = x, sys_kern = k, sys_loc = loc\<rparr> \<lparr>sys_mutex = x', sys_kern = k', sys_loc = loc(t := Outside)\<rparr>"
| tick: "timer_interrupt_handler k = Some k' \<Longrightarrow>
    lock_step m \<lparr>sys_mutex = x, sys_kern = k, sys_loc = loc\<rparr> \<lparr>sys_mutex = x, sys_kern = k', sys_loc = loc\<rparr>"

definition lock_start :: "kern \<Rightarrow> lock_system" where
  "lock_start k = \<lparr>sys_mutex = mutex_init, sys_kern = k, sys_loc = (\<lambda>_. Outside)\<rparr>"

section \<open>Mutual exclusion\<close>

lemma attempt_cases:
  assumes "mutex_attempt m x k = Some (b, x', k')"
  shows "b \<longleftrightarrow> is_locked x = 0" and "is_locked x' = (if b then 1 else is_locked x)"
    and "lock_flag (mtx_guard x) \<noteq> 1" and "lock_flag (mtx_guard x') = 0"
  using assms by (auto simp: mutex_attempt_def bind_eq_Some_conv spinlock_acquire_def spinlock_release_def Let_def split: if_splits)

lemma release_cases:
  assumes "mutex_release m x k = Some (x', k')"
  shows "is_locked x' = 0" "lock_flag (mtx_guard x') = 0"
  using assms by (auto simp: mutex_release_def bind_eq_Some_conv spinlock_acquire_def spinlock_release_def Let_def split: if_splits)

definition lock_inv :: "lock_system \<Rightarrow> bool" where
  "lock_inv c \<longleftrightarrow> lock_flag (mtx_guard (sys_mutex c)) = 0 \<and>
     (\<forall>t u. sys_loc c t = Inside \<longrightarrow> sys_loc c u = Inside \<longrightarrow> t = u) \<and>
     (is_locked (sys_mutex c) = 0 \<longleftrightarrow> (\<forall>t. sys_loc c t \<noteq> Inside))"

lemma lock_inv_move:
  assumes "lock_inv \<lparr>sys_mutex = x, sys_kern = k, sys_loc = loc\<rparr>" and "loc t \<noteq> Inside" "l \<noteq> Inside"
    and "is_locked x' = is_locked x" "lock_flag (mtx_guard x') = 0"
  shows "lock_inv \<lparr>sys_mutex = x', sys_kern = k', sys_loc = loc(t := l)\<rparr>"
proof -
  have "(loc(t := l)) u = Inside \<longleftrightarrow> loc u = Inside" for u using assms(2,3) by simp
  then show ?thesis using assms by (simp add: lock_inv_def del: fun_upd_apply)
qed

lemma lock_step_inv: "lock_step m c c' \<Longrightarrow> lock_inv c \<Longrightarrow> lock_inv c'"
proof (induction rule: lock_step.induct)
  case (enter k t loc x x' k')
  then show ?case using attempt_cases [OF enter(3)] by (auto simp: lock_inv_def)
next
  case (refuse k t loc x x' k')
  then show ?case using attempt_cases [OF refuse(3)] by (intro lock_inv_move) auto
next
  case (block k t loc k' x)
  then show ?case by (intro lock_inv_move [OF block(4)]) (auto simp: lock_inv_def)
next
  case (wake k t loc x)
  then show ?case by (intro lock_inv_move [OF wake(4)]) (auto simp: lock_inv_def)
next
  case (leave k t loc x x' k')
  then show ?case using release_cases [OF leave(3)] by (auto simp: lock_inv_def)
qed (auto simp: lock_inv_def)

lemma lock_reachable_inv: "(lock_step m)\<^sup>*\<^sup>* c c' \<Longrightarrow> lock_inv c \<Longrightarrow> lock_inv c'"
  by (induction rule: rtranclp_induct) (auto intro: lock_step_inv)

section \<open>Steps of the scheduler when nothing has ended\<close>

lemma each_idle_lseg:
  assumes "lseg (nxt s) p xs q" and "stop q s" and "\<And>x. x \<in> set xs \<Longrightarrow> \<not> stop x s \<and> body x s = Some s"
  shows "each nxt stop body p s = Some s"
  using assms
proof (induction xs arbitrary: p)
  case Nil
  then show ?case by (simp add: each.simps)
next
  case (Cons x xs)
  then have "each nxt stop body (nxt s x) s = Some s" by simp
  with Cons.prems show ?case by (subst each.simps) simp
qed

lemma reap_none:
  assumes "sched_ring s xs" and "survivors s xs = xs"
  shows "thread_reap_detached s = Some s"
proof -
  have live: "\<not> reapable s t" if "t \<in> set xs" for t using assms(2) that by (metis filter_id_conv)
  have "each ring_next (\<lambda>p _. p = current_thread s) reap_detached_one (ring_next s (current_thread s)) s = Some s"
    using ring_parts [OF assms(1)] live by (intro each_idle_lseg) (auto simp: reap_detached_one_def reapable_def)
  then show ?thesis by (simp add: thread_reap_detached_def Let_def)
qed

lemma schedule_quiet:
  assumes ok: "sched_ok s xs" and xs: "xs \<noteq> []" "survivors s xs = xs"
  shows "schedule s = Some (case dropWhile (idle_in s) xs of [] \<Rightarrow> s | n # _ \<Rightarrow> switch_threads (current_thread s) n s)"
proof -
  let ?c = "current_thread s"
  have r: "sched_ring s xs" using ok by (simp add: sched_ok_def)
  have nx: "ring_next s ?c \<noteq> ?c" using ring_next_in [OF r] ring_parts(2) [OF r] xs(1) by (cases xs) auto
  have ready: "status (thread_at s n) = TASK_READY" if "dropWhile (idle_in s) xs = n # zs" for n zs
  proof -
    have n: "n \<in> set xs" "\<not> idle_in s n" using that set_dropWhileD [of n "idle_in s" xs] hd_dropWhile [of "idle_in s" xs] by auto
    moreover have "status (thread_at s n) \<noteq> TASK_RUNNING" using ok n(1) by (auto simp: sched_ok_def)
    ultimately show ?thesis by (cases "status (thread_at s n)") (simp_all add: is_idle_def)
  qed
  have "process_reap_orphans s = Some s" using ok by (intro reap_orphans_none) (simp add: sched_ok_def)
  then show ?thesis
    using nx check_ok [OF ok] reap_none [OF r xs(2)] ring_parts(1) [OF r] ready
      pick_next_lseg [OF ring_parts(5) [OF r] xs(1) ring_parts(2) [OF r], of "idle_in s"]
    by (cases "dropWhile (idle_in s) xs") (simp_all add: schedule_def del: dropWhile_eq_Nil_conv)
qed

section \<open>Two threads\<close>

text \<open>Thread \<open>a\<close> runs with its last time slice, thread \<open>b\<close> is the other member of the ring.\<close>

definition duo :: "kern \<Rightarrow> u64 \<Rightarrow> u64 \<Rightarrow> bool" where
  "duo k a b \<longleftrightarrow> sched_ok k [b] \<and> current_thread k = a \<and> sleep_head k = 0 \<and> preempt_disable_count k = 0 \<and>
     status (thread_at k a) = TASK_RUNNING \<and> status (thread_at k b) \<noteq> TASK_ZOMBIE \<and>
     ticks (thread_at k a) = 1 \<and> ticks (thread_at k b) = 1 \<and> priority (thread_at k a) = 1 \<and> priority (thread_at k b) = 1"

lemma switch_threads_rest [simp]:
  "ticks (thread_at (switch_threads p n s) t) = ticks (thread_at s t)"
  "priority (thread_at (switch_threads p n s) t) = priority (thread_at s t)"
  "waiting_lock (thread_at (switch_threads p n s) t) = waiting_lock (thread_at s t)"
  by (auto simp: switch_threads_def set_status_def Let_def)

lemma switch_threads_count [simp]: "preempt_disable_count (switch_threads p n s) = preempt_disable_count s"
  by (simp add: switch_threads_def load_cpu_def set_status_def switch_to_steps saved_def popped_def pop_reg_def push_reg_def
      kstore_def set_tbl_def Let_def)

lemma duo_schedule:
  assumes "duo k a b" and "status (thread_at k b) = TASK_READY"
  shows "schedule k = Some (switch_threads a b k)" and "duo (switch_threads a b k) b a"
    and "status (thread_at (switch_threads a b k) a) = TASK_READY"
proof -
  have k: "sched_ok k [b]" "current_thread k = a" using assms(1) by (simp_all add: duo_def)
  have ne: "a \<noteq> b" using k ring_parts(2) by (fastforce simp: sched_ok_def)
  show "schedule k = Some (switch_threads a b k)"
    using schedule_quiet [OF k(1)] assms(2) k(2) by (simp add: reapable_def is_idle_def)
  show "status (thread_at (switch_threads a b k) a) = TASK_READY"
    using assms(1) ne by (simp add: switch_threads_status duo_def)
  then show "duo (switch_threads a b k) b a"
    using switch_sched_ok [of k "[]" b "[]"] assms(1) k ne by (simp add: duo_def switch_threads_fields switch_threads_status)
qed

text \<open>A section under a spin lock leaves interrupts and preemption as it found them.\<close>

lemma spin_section:
  assumes "lock_flag g = 0" and "preempt_disable_count k = 0"
  shows "spinlock_acquire g k = Some (\<lparr>lock_flag = 1, saved_rflags = rflags k\<rparr>, thread_preempt_disable (cli k))"
    and "spinlock_release \<lparr>lock_flag = 1, saved_rflags = rflags k\<rparr> (thread_preempt_disable (cli k)) =
      Some (\<lparr>lock_flag = 0, saved_rflags = rflags k\<rparr>, k)"
    and "spinlock_release \<lparr>lock_flag = 1, saved_rflags = rflags k\<rparr> (upd_thread t f (thread_preempt_disable (cli k))) =
      Some (\<lparr>lock_flag = 0, saved_rflags = rflags k\<rparr>, upd_thread t f k)"
  using assms
  by (cases k; cases "the_cpu k"; simp add: spinlock_acquire_def spinlock_release_def thread_preempt_enable_def
      thread_preempt_disable_def cli_def sti_def rflags_def RFLAGS_IF_def upd_thread_def)+

lemma attempt_exact:
  assumes "lock_flag (mtx_guard x) = 0" and "preempt_disable_count k = 0"
  shows "mutex_attempt m x k =
    Some (is_locked x = 0, \<lparr>mtx_guard = \<lparr>lock_flag = 0, saved_rflags = rflags k\<rparr>, is_locked = (if is_locked x = 0 then 1 else is_locked x)\<rparr>,
      if is_locked x = 0 then k else upd_thread (current_thread k) (waiting_lock_update (\<lambda>_. m)) k)"
proof -
  have "current_thread (thread_preempt_disable (cli k)) = current_thread k"
    by (simp add: thread_preempt_disable_def cli_def)
  then show ?thesis using spin_section [OF assms] by (simp add: mutex_attempt_def)
qed

lemma release_exact:
  assumes "lock_flag (mtx_guard x) = 0" and "preempt_disable_count k = 0" and "sched_ring k [b]"
    and "status (thread_at k b) \<noteq> TASK_BLOCKED"
  shows "mutex_release m x k = Some (\<lparr>mtx_guard = \<lparr>lock_flag = 0, saved_rflags = rflags k\<rparr>, is_locked = 0\<rparr>, k)"
proof -
  let ?k = "thread_preempt_disable (cli k)" and ?c = "current_thread k"
  have f: "current_thread ?k = ?c" "thread_at ?k = thread_at k" by (simp_all add: thread_preempt_disable_def cli_def)
  have r: "?c \<noteq> 0" "ring_next k ?c = b" "ring_next k b = ?c" "b \<noteq> ?c" using assms(3) by (auto simp: ring_def)
  have "chase (ring_next k) (\<lambda>t. t = ?c \<or> status (thread_at k t) = TASK_BLOCKED \<and> waiting_lock (thread_at k t) = m) ?c b = Some (b, ?c)"
    using r assms(4) by (subst chase.simps) (simp add: chase.simps)
  then have "mutex_waiter m ?k = Some 0" using r by (simp add: mutex_waiter_def Let_def f)
  then show ?thesis using spin_section [OF assms(1,2)] by (simp add: mutex_release_def)
qed

lemma sched_ok_scalars:
  "sched_ok (k\<lparr>system_ticks := n\<rparr>) xs = sched_ok k xs" "sched_ok (k\<lparr>need_resched := r\<rparr>) xs = sched_ok k xs"
  "sched_ok (cli k) xs = sched_ok k xs"
proof -
  have "lists_ok (k\<lparr>system_ticks := n\<rparr>) = lists_ok k" "lists_ok (k\<lparr>need_resched := r\<rparr>) = lists_ok k" "lists_ok (cli k) = lists_ok k"
    by (rule lists_ok_same; simp add: cli_def)+
  then show "sched_ok (k\<lparr>system_ticks := n\<rparr>) xs = sched_ok k xs" "sched_ok (k\<lparr>need_resched := r\<rparr>) xs = sched_ok k xs"
    "sched_ok (cli k) xs = sched_ok k xs"
    by (simp_all add: sched_ok_def no_orphans_def cli_def)
qed

text \<open>The clock switches to the other thread when it is ready.\<close>

lemma duo_tick:
  assumes d: "duo k a b" and b: "status (thread_at k b) = TASK_READY"
  obtains k' where "timer_interrupt_handler k = Some k'" "duo k' b a" "status (thread_at k' a) = TASK_READY"
    "\<And>t. waiting_lock (thread_at k' t) = waiting_lock (thread_at k t)"
proof -
  let ?k1 = "k\<lparr>system_ticks := system_ticks k + 1\<rparr>"
  let ?k2 = "upd_thread a (\<lambda>x. x\<lparr>ticks := priority x\<rparr>) (upd_thread a (\<lambda>x. x\<lparr>ticks := ticks x - 1\<rparr>) ?k1)"
  let ?k3 = "(cli (thread_request_reschedule ?k2))\<lparr>need_resched := False\<rparr>"
  have k: "sched_ok k [b]" "current_thread k = a" "sleep_head k = 0" "preempt_disable_count k = 0" "ticks (thread_at k a) = 1"
    "priority (thread_at k a) = 1" using d by (simp_all add: duo_def)
  have a: "a \<noteq> 0" using k(1,2) ring_parts(1) by (fastforce simp: sched_ok_def)
  have "timer_wake_sleepers ?k1 = Some ?k1" using k(3) by (simp add: timer_wake_sleepers_def each.simps)
  then have "timer_interrupt_handler k = schedule ?k3"
    using k a by (simp add: timer_interrupt_handler_def Let_def thread_preempt_point_def thread_request_reschedule_def)
  moreover have "sched_ok ?k1 [b]" using k(1) by (simp only: sched_ok_scalars)
  then have "sched_ok ?k3 [b]"
    unfolding sched_ok_scalars thread_request_reschedule_def
    by (intro sched_ok_upd) (use b in \<open>auto simp: sched_ok_scalars\<close>)
  then have "duo ?k3 a b" using d by (simp add: duo_def cli_def thread_request_reschedule_def)
  moreover have "status (thread_at ?k3 b) = TASK_READY" using b by (auto simp: cli_def thread_request_reschedule_def)
  moreover have "waiting_lock (thread_at ?k3 t) = waiting_lock (thread_at k t)" for t
    by (simp add: cli_def thread_request_reschedule_def)
  ultimately show thesis using duo_schedule [of ?k3 a b] that [of "switch_threads a b ?k3"] by simp
qed

section \<open>Properties\<close>

text \<open>
  C26: Mutual exclusion.  However the rounds of \<^verbatim>\<open>mutex_acquire\<close>, the calls of \<^verbatim>\<open>thread_block\<close> and
  \<^verbatim>\<open>mutex_release\<close> and the clock ticks of any number of threads interleave, at most one thread is
  inside the critical section, and the mutex is marked as taken exactly when one is.
\<close>

theorem mutex_exclusive:
  assumes "(lock_step m)\<^sup>*\<^sup>* (lock_start k) c"
  shows "(\<forall>t u. sys_loc c t = Inside \<longrightarrow> sys_loc c u = Inside \<longrightarrow> t = u) \<and>
    (is_locked (sys_mutex c) \<noteq> 0 \<longleftrightarrow> (\<exists>t. sys_loc c t = Inside))"
proof -
  have "lock_inv (lock_start k)" by (simp add: lock_inv_def lock_start_def mutex_init_def spinlock_init_def)
  then show ?thesis using lock_reachable_inv [OF assms] by (auto simp: lock_inv_def)
qed

theorem mutex_exclusive_witness:
  "\<exists>c. (lock_step 0x6000)\<^sup>*\<^sup>* (lock_start demo_kern) c \<and> sys_loc c 0x1000 = Inside \<and> is_locked (sys_mutex c) \<noteq> 0"
proof -
  let ?x = "\<lparr>mtx_guard = \<lparr>lock_flag = 0, saved_rflags = rflags demo_kern\<rparr>, is_locked = 1\<rparr>"
  let ?c = "\<lparr>sys_mutex = ?x, sys_kern = demo_kern, sys_loc = (\<lambda>_. Outside)(0x1000 := Inside)\<rparr>"
  have "mutex_attempt 0x6000 mutex_init demo_kern = Some (True, ?x, demo_kern)"
    by (subst attempt_exact) (simp_all add: mutex_init_def spinlock_init_def demo_kern_def start_kern_def heap.defs)
  then have "lock_step 0x6000 (lock_start demo_kern) ?c" unfolding lock_start_def by (intro lock_step.enter) simp_all
  then have r: "(lock_step 0x6000)\<^sup>*\<^sup>* (lock_start demo_kern) ?c" by blast
  moreover have "sys_loc ?c 0x1000 = Inside" by simp
  ultimately show ?thesis using mutex_exclusive [OF r] by blast
qed

section \<open>A lost wake-up\<close>

text \<open>
  The guard of the mutex is released before the refused thread blocks.  When the owner releases
  the mutex in between, it finds no blocked thread to wake, and the refused thread then blocks
  although the mutex is free and nobody is left to wake it.
\<close>

lemma mutex_lost_wakeup:
  assumes d: "duo k a b" and b: "status (thread_at k b) = TASK_READY"
  shows "\<exists>c. (lock_step m)\<^sup>*\<^sup>* (lock_start k) c \<and> is_locked (sys_mutex c) = 0 \<and> (\<forall>t. sys_loc c t \<noteq> Inside) \<and>
    sys_loc c b = Asleep \<and> status (thread_at (sys_kern c) b) = TASK_BLOCKED \<and> waiting_lock (thread_at (sys_kern c) b) = m \<and>
    (\<forall>t. t \<noteq> b \<longrightarrow> sys_loc c t = Outside)"
proof -
  let ?O = "\<lambda>_. Outside"
  let ?sys = "\<lambda>x k loc. \<lparr>sys_mutex = x, sys_kern = k, sys_loc = loc\<rparr>"
  let ?held = "\<lambda>k. \<lparr>mtx_guard = \<lparr>lock_flag = 0, saved_rflags = rflags k\<rparr>, is_locked = 1\<rparr>"
  have ne: "a \<noteq> b" using d ring_parts(2) by (fastforce simp: duo_def sched_ok_def)
  have cnt: "preempt_disable_count u = 0" "current_thread u = p" if "duo u p q" for u p q using that by (simp_all add: duo_def)
  have 1: "lock_step m (lock_start k) (?sys (?held k) k (?O(a := Inside)))"
    unfolding lock_start_def using attempt_exact [of mutex_init k m] cnt [OF d]
    by (intro lock_step.enter) (simp_all add: mutex_init_def spinlock_init_def)
  obtain k1 where k1: "timer_interrupt_handler k = Some k1" "duo k1 b a" "status (thread_at k1 a) = TASK_READY"
    using duo_tick [OF d b] by metis
  have 2: "lock_step m (?sys (?held k) k (?O(a := Inside))) (?sys (?held k) k1 (?O(a := Inside)))"
    by (rule lock_step.tick [OF k1(1)])
  let ?k2 = "upd_thread b (waiting_lock_update (\<lambda>_. m)) k1"
  have 3: "lock_step m (?sys (?held k) k1 (?O(a := Inside))) (?sys (?held k1) ?k2 (?O(a := Inside, b := Refused)))"
    using attempt_exact [of "?held k" k1 m] cnt [OF k1(2)] ne by (intro lock_step.refuse) simp_all
  have d2: "duo ?k2 b a" "status (thread_at ?k2 a) = TASK_READY"
    using k1(2,3) sched_ok_upd [of k1 "[a]" "waiting_lock_update (\<lambda>_. m)" b] ne by (auto simp: duo_def)
  have wl: "waiting_lock (thread_at ?k2 b) = m" by simp
  obtain k3 where k3: "timer_interrupt_handler ?k2 = Some k3" "duo k3 a b" "status (thread_at k3 b) = TASK_READY"
    "waiting_lock (thread_at k3 b) = m" using duo_tick [OF d2] wl by metis
  have 4: "lock_step m (?sys (?held k1) ?k2 (?O(a := Inside, b := Refused))) (?sys (?held k1) k3 (?O(a := Inside, b := Refused)))"
    by (rule lock_step.tick [OF k3(1)])
  let ?free = "(?held k3)\<lparr>is_locked := 0\<rparr>"
  have 5: "lock_step m (?sys (?held k1) k3 (?O(a := Inside, b := Refused))) (?sys ?free k3 ((?O(a := Inside, b := Refused))(a := Outside)))"
    using release_exact [of "?held k1" k3 b m] cnt [OF k3(2)] k3(2,3) ne by (intro lock_step.leave) (simp_all add: duo_def sched_ok_def)
  obtain k4 where k4: "timer_interrupt_handler k3 = Some k4" "duo k4 b a" "status (thread_at k4 a) = TASK_READY"
    "waiting_lock (thread_at k4 b) = m" using duo_tick [OF k3(2,3)] k3(4) by metis
  have 6: "lock_step m (?sys ?free k3 ((?O(a := Inside, b := Refused))(a := Outside))) (?sys ?free k4 (?O(b := Refused)))"
    using lock_step.tick [OF k4(1), of m ?free "?O(b := Refused)"] ne by (simp add: fun_upd_twist fun_upd_idem)
  let ?k5 = "switch_threads b a (set_status b TASK_BLOCKED (cli k4))"
  have blk: "thread_block k4 = Some ?k5"
  proof -
    have "sched_ok (set_status b TASK_BLOCKED (cli k4)) [a]"
      unfolding set_status_def using k4(2,3) by (intro sched_ok_upd) (auto simp: sched_ok_scalars duo_def)
    moreover have "b \<noteq> 0" using k4(2) ring_parts(1) [of "ring_next k4" b "[a]"] by (auto simp: duo_def sched_ok_def)
    ultimately show ?thesis using schedule_quiet [of "set_status b TASK_BLOCKED (cli k4)" "[a]"] k4(2,3) ne
      by (simp add: thread_block_def duo_def sched_ok_def reapable_def is_idle_def set_status_def cli_def)
  qed
  have 7: "lock_step m (?sys ?free k4 (?O(b := Refused))) (?sys ?free ?k5 ((?O(b := Refused))(b := Asleep)))"
    using cnt [OF k4(2)] blk by (intro lock_step.block) simp_all
  have "(lock_step m)\<^sup>*\<^sup>* (lock_start k) (?sys ?free ?k5 ((?O(b := Refused))(b := Asleep)))"
    using 1 2 3 4 5 6 7 by (meson converse_rtranclp_into_rtranclp rtranclp.rtrancl_refl)
  moreover have "status (thread_at ?k5 b) = TASK_BLOCKED" using ne by (simp add: switch_threads_status set_status_def)
  moreover have "waiting_lock (thread_at ?k5 b) = m" using k4(4) by (simp add: set_status_def cli_def)
  ultimately show ?thesis by (intro exI conjI) (auto split: if_splits)
qed

end
