(* ===== verification/Ipc.thy ===== *)
theory Ipc
  imports Scheduler
begin

text \<open>
  Message passing between threads (kernel/ipc.c).  A sender whose receiver does not wait for it
  joins the receiver's queue of senders and blocks; a receiver without a matching sender blocks.
  Each section under \<^verbatim>\<open>ipc_lock\<close> is one step.  The functions that may block give the result \<open>None\<close>
  when the thread has been switched away; what they return when it runs again is a function of
  its own.
\<close>

section \<open>Queues of senders\<close>

definition source_matches :: "u64 \<Rightarrow> u64 \<Rightarrow> kern \<Rightarrow> bool" where
  "source_matches receiver sender s \<longleftrightarrow>
     ipc_receive_from (thread_at s receiver) = IPC_ANY \<or>
     ipc_receive_from (thread_at s receiver) = sint (pid (process_at s (thread_process (thread_at s sender))))"

definition enqueue_sender :: "u64 \<Rightarrow> u64 \<Rightarrow> kern \<Rightarrow> kern" where
  "enqueue_sender receiver sender s =
     (let s1 = upd_thread sender (ipc_next_sender_update (\<lambda>_. 0)) s;
          tail = ipc_sender_tail (thread_at s1 receiver);
          s2 = (if tail \<noteq> 0 then upd_thread tail (ipc_next_sender_update (\<lambda>_. sender)) s1
                else upd_thread receiver (ipc_sender_head_update (\<lambda>_. sender)) s1)
      in upd_thread receiver (ipc_sender_tail_update (\<lambda>_. sender)) s2)"

text \<open>Taking \<open>sender\<close> out of the queue, with its predecessor \<open>previous\<close> or 0.\<close>

definition drop_sender :: "u64 \<Rightarrow> u64 \<Rightarrow> u64 \<Rightarrow> kern \<Rightarrow> kern" where
  "drop_sender receiver previous sender s =
     (let nxt = ipc_next_sender (thread_at s sender);
          s1 = (if previous \<noteq> 0 then upd_thread previous (ipc_next_sender_update (\<lambda>_. nxt)) s
                else upd_thread receiver (ipc_sender_head_update (\<lambda>_. nxt)) s);
          s2 = (if ipc_sender_tail (thread_at s1 receiver) = sender
                then upd_thread receiver (ipc_sender_tail_update (\<lambda>_. previous)) s1 else s1)
      in upd_thread sender (ipc_next_sender_update (\<lambda>_. 0)) s2)"

abbreviation sender_next :: "kern \<Rightarrow> u64 \<Rightarrow> u64" where
  "sender_next s t \<equiv> ipc_next_sender (thread_at s t)"

definition remove_sender :: "u64 \<Rightarrow> u64 \<Rightarrow> kern \<Rightarrow> kern option" where
  "remove_sender receiver sender s =
     do {
       (previous, current) \<leftarrow> chase (sender_next s) (\<lambda>t. t = 0 \<or> t = sender) 0 (ipc_sender_head (thread_at s receiver));
       Some (if current = 0 then s else drop_sender receiver previous current s)
     }"

definition dequeue_matching_sender :: "u64 \<Rightarrow> kern \<Rightarrow> (u64 \<times> kern) option" where
  "dequeue_matching_sender receiver s =
     do {
       (previous, sender) \<leftarrow> chase (sender_next s) (\<lambda>t. t = 0 \<or> source_matches receiver t s) 0
                               (ipc_sender_head (thread_at s receiver));
       Some (if sender = 0 then (0, s) else (sender, drop_sender receiver previous sender s))
     }"

section \<open>Sending and receiving\<close>

definition send_refused :: "u64 \<Rightarrow> bool \<Rightarrow> kern \<Rightarrow> bool" where
  "send_refused destination msg_null s \<longleftrightarrow>
     destination = 0 \<or> msg_null \<or> destination = current_thread s \<or>
     status (thread_at s destination) = TASK_ZOMBIE \<or> status (thread_at s destination) = TASK_DEAD \<or>
     current_thread s = 0 \<or> thread_process (thread_at s (current_thread s)) = 0 \<or>
     thread_process (thread_at s destination) = 0"

text \<open>The section of \<^verbatim>\<open>ipc_send\<close> under the lock; the result tells whether the message was delivered.\<close>

definition send_section :: "u64 \<Rightarrow> message \<Rightarrow> kern \<Rightarrow> bool \<times> kern" where
  "send_section destination msg s =
     (let cur = current_thread s;
          stamped = msg\<lparr>source_pid := pid (process_at s (thread_process (thread_at s cur)))\<rparr> in
      if ipc_receiving (thread_at s destination) \<and> source_matches destination cur s
      then (True, thread_unblock destination
              (upd_thread destination (\<lambda>x. x\<lparr>ipc_message := stamped, ipc_receiving := False, ipc_receive_from := IPC_ANY\<rparr>) s))
      else (False, enqueue_sender destination cur
              (upd_thread cur (\<lambda>x. x\<lparr>ipc_message := stamped, ipc_sending := True, ipc_status := 0,
                                    ipc_waiting_for := destination\<rparr>) s)))"

definition ipc_send :: "u64 \<Rightarrow> bool \<Rightarrow> message \<Rightarrow> kern \<Rightarrow> (int option \<times> kern) option" where
  "ipc_send destination msg_null msg s =
     (if send_refused destination msg_null s then Some (Some (-1), s)
      else case send_section destination msg s of
        (True, s1) \<Rightarrow> Some (Some 0, s1)
      | (False, s1) \<Rightarrow> do { s2 \<leftarrow> thread_block s1; Some (None, s2) })"

definition ipc_send_resumed :: "kern \<Rightarrow> int" where
  "ipc_send_resumed s = ipc_status (thread_at s (current_thread s))"

text \<open>The section of \<^verbatim>\<open>ipc_receive\<close> under the lock, with the message if a sender was waiting.\<close>

definition receive_section :: "int \<Rightarrow> kern \<Rightarrow> (message option \<times> kern) option" where
  "receive_section from s =
     do {
       let cur = current_thread s;
       (sender, s1) \<leftarrow> dequeue_matching_sender cur (upd_thread cur (ipc_receive_from_update (\<lambda>_. from)) s);
       Some (if sender \<noteq> 0
             then (Some (ipc_message (thread_at s1 sender)),
                   upd_thread cur (ipc_receive_from_update (\<lambda>_. IPC_ANY))
                     (thread_unblock sender
                       (upd_thread sender (\<lambda>x. x\<lparr>ipc_sending := False, ipc_status := 0, ipc_waiting_for := 0\<rparr>) s1)))
             else (None, upd_thread cur (ipc_receiving_update (\<lambda>_. True)) s1))
     }"

definition ipc_receive :: "int \<Rightarrow> bool \<Rightarrow> kern \<Rightarrow> ((int \<times> message option) option \<times> kern) option" where
  "ipc_receive from msg_null s =
     (if msg_null then Some (Some (-1, None), s)
      else do {
        (got, s1) \<leftarrow> receive_section from s;
        case got of
          Some m \<Rightarrow> Some (Some (0, Some m), s1)
        | None \<Rightarrow> do { s2 \<leftarrow> thread_block s1; Some (None, s2) }
      })"

definition ipc_receive_resumed :: "kern \<Rightarrow> int \<times> message option" where
  "ipc_receive_resumed s =
     (let x = thread_at s (current_thread s) in
      if ipc_status x \<noteq> 0 then (ipc_status x, None) else (0, Some (ipc_message x)))"

section \<open>Threads that end\<close>

definition abort_sender :: "u64 \<Rightarrow> kern \<Rightarrow> kern option" where
  "abort_sender t s =
     Some (thread_unblock t
       (upd_thread t (\<lambda>x. x\<lparr>ipc_next_sender := 0, ipc_sending := False, ipc_waiting_for := 0, ipc_status := -1\<rparr>) s))"

definition ipc_abort_thread :: "u64 \<Rightarrow> kern \<Rightarrow> kern option" where
  "ipc_abort_thread target s =
     (if target = 0 then Some s
      else do {
        let x = thread_at s target;
        s1 \<leftarrow> (if ipc_sending x \<and> ipc_waiting_for x \<noteq> 0 then remove_sender (ipc_waiting_for x) target s else Some s);
        let head = ipc_sender_head (thread_at s1 target);
        each sender_next (\<lambda>t _. t = 0) abort_sender head
          (upd_thread target (\<lambda>x. x\<lparr>ipc_sending := False, ipc_receiving := False, ipc_waiting_for := 0,
                                   ipc_receive_from := IPC_ANY, ipc_sender_head := 0, ipc_sender_tail := 0\<rparr>) s1)
      })"

definition ipc_abort_current :: "kern \<Rightarrow> kern option" where
  "ipc_abort_current s = ipc_abort_thread (current_thread s) s"

end
