(* ===== verification/Ipc_Safety.thy ===== *)
theory Ipc_Safety
  imports Ipc Sched_Safety
begin

text \<open>
  Message queues as lists: the linked queue of senders of every receiver represents a list of
  threads, and sending, receiving and aborting are the operations on these mailboxes.
\<close>

section \<open>Queues of senders as lists\<close>

interpretation senders: link_list "\<lambda>s. ipc_sender_head (thread_at s r)" sender_next
    "\<lambda>v. upd_thread r (ipc_sender_head_update (\<lambda>_. v))" "\<lambda>t v. upd_thread t (ipc_next_sender_update (\<lambda>_. v))" for r
  by unfold_locales (auto simp: upd_thread_def)

definition queues :: "kern \<Rightarrow> (u64 \<Rightarrow> u64 list) \<Rightarrow> bool" where
  "queues s Q \<longleftrightarrow>
     (\<forall>r. r \<noteq> 0 \<longrightarrow> chain (sender_next s) (ipc_sender_head (thread_at s r)) (Q r) \<and> ipc_sender_tail (thread_at s r) = last (0 # Q r)) \<and>
     (\<forall>r r' t. r \<noteq> 0 \<longrightarrow> r' \<noteq> 0 \<longrightarrow> t \<in> set (Q r) \<longrightarrow> t \<in> set (Q r') \<longrightarrow> r = r')"

lemma queues_chain:
  assumes "queues s Q" and "r \<noteq> 0"
  shows "chain (sender_next s) (ipc_sender_head (thread_at s r)) (Q r)" "ipc_sender_tail (thread_at s r) = last (0 # Q r)"
  using assms by (simp_all add: queues_def)

lemma queues_disjoint: "queues s Q \<Longrightarrow> r \<noteq> 0 \<Longrightarrow> r' \<noteq> 0 \<Longrightarrow> t \<in> set (Q r) \<Longrightarrow> t \<in> set (Q r') \<Longrightarrow> r = r'"
  by (simp add: queues_def)

lemma queues_upd:
  assumes q: "queues s Q" and d: "d \<noteq> 0"
    and new: "chain (sender_next s') (ipc_sender_head (thread_at s' d)) ws" "ipc_sender_tail (thread_at s' d) = last (0 # ws)"
    and heads: "\<And>r. r \<noteq> d \<Longrightarrow> ipc_sender_head (thread_at s' r) = ipc_sender_head (thread_at s r) \<and>
      ipc_sender_tail (thread_at s' r) = ipc_sender_tail (thread_at s r)"
    and links: "\<And>r t. r \<noteq> 0 \<Longrightarrow> r \<noteq> d \<Longrightarrow> t \<in> set (Q r) \<Longrightarrow> sender_next s' t = sender_next s t \<and> t \<notin> set ws"
  shows "queues s' (Q(d := ws))"
proof -
  have old: "chain (sender_next s') (ipc_sender_head (thread_at s r)) (Q r)" if "r \<noteq> 0" "r \<noteq> d" for r
  proof -
    have "chain (sender_next s') p (Q r) = chain (sender_next s) p (Q r)" for p
      using links [OF that] by (intro chain_cong) blast
    then show ?thesis using queues_chain(1) [OF q that(1)] by simp
  qed
  show ?thesis unfolding queues_def
  proof (intro conjI allI impI)
    fix r :: u64 assume r: "r \<noteq> 0"
    show "chain (sender_next s') (ipc_sender_head (thread_at s' r)) ((Q(d := ws)) r)"
      using new(1) old [OF r] heads [of r] by (cases "r = d") simp_all
    show "ipc_sender_tail (thread_at s' r) = last (0 # (Q(d := ws)) r)"
      using new(2) queues_chain(2) [OF q r] heads [of r] by (cases "r = d") simp_all
  next
    fix r r' t assume r: "r \<noteq> 0" "r' \<noteq> 0" "t \<in> set ((Q(d := ws)) r)" "t \<in> set ((Q(d := ws)) r')"
    show "r = r'" using r links [of r t] links [of r' t] queues_disjoint [OF q r(1,2), of t]
      by (cases "r = d"; cases "r' = d") simp_all
  qed
qed

lemma tail_none:
  assumes "queues s Q" and "r \<noteq> 0"
  shows "ipc_sender_tail (thread_at s r) = 0 \<longleftrightarrow> Q r = []"
proof -
  have "0 \<notin> set (Q r)" "ipc_sender_tail (thread_at s r) = last (0 # Q r)"
    using queues_chain [OF assms] by (auto simp: chain_def)
  then show ?thesis by (metis last.simps last_in_set)
qed

lemma sender_fields:
  "ipc_sender_head (thread_at (upd_thread t (ipc_next_sender_update f) s) r) = ipc_sender_head (thread_at s r)"
  "ipc_sender_tail (thread_at (upd_thread t (ipc_next_sender_update f) s) r) = ipc_sender_tail (thread_at s r)"
  "r \<noteq> d \<Longrightarrow> thread_at (upd_thread d g s) r = thread_at s r"
  by (cases "t = r"; simp)+

lemma sender_tail_link:
  "ipc_sender_tail (thread_at (set_link (\<lambda>v. upd_thread d (ipc_sender_head_update (\<lambda>_. v)))
     (\<lambda>t v. upd_thread t (ipc_next_sender_update (\<lambda>_. v))) p q s) r) = ipc_sender_tail (thread_at s r)"
  unfolding set_link_def by (cases "p = 0"; cases "r = d"; cases "r = p") simp_all

lemma sender_heads:
  assumes "r \<noteq> d"
  shows "ipc_sender_head (thread_at (enqueue_sender d c s) r) = ipc_sender_head (thread_at s r)"
    "ipc_sender_tail (thread_at (enqueue_sender d c s) r) = ipc_sender_tail (thread_at s r)"
    "ipc_sender_head (thread_at (drop_sender d p c s) r) = ipc_sender_head (thread_at s r)"
    "ipc_sender_tail (thread_at (drop_sender d p c s) r) = ipc_sender_tail (thread_at s r)"
  unfolding enqueue_sender_def drop_sender_def Let_def
  by (simp_all only: sender_fields assms not_False_eq_True if_distrib [where f = thread_at] if_distrib [where f = "\<lambda>f. f r"]
      if_distrib [where f = ipc_sender_head] if_distrib [where f = ipc_sender_tail] if_cancel)

lemma enqueue_queues:
  assumes q: "queues s Q" and d: "d \<noteq> 0" and c: "c \<noteq> 0" "\<And>r. r \<noteq> 0 \<Longrightarrow> c \<notin> set (Q r)"
  shows "queues (enqueue_sender d c s) (Q(d := Q d @ [c]))"
proof (rule queues_upd [OF q d])
  let ?s1 = "upd_thread c (ipc_next_sender_update (\<lambda>_. 0)) s"
  let ?l = "set_link (\<lambda>v. upd_thread d (ipc_sender_head_update (\<lambda>_. v))) (\<lambda>t v. upd_thread t (ipc_next_sender_update (\<lambda>_. v)))
    (last (0 # Q d)) c ?s1"
  have tail: "ipc_sender_tail (thread_at ?s1 d) = last (0 # Q d)" using queues_chain(2) [OF q d] by (cases "d = c") simp_all
  have e: "enqueue_sender d c s = upd_thread d (ipc_sender_tail_update (\<lambda>_. c)) ?l"
    unfolding enqueue_sender_def Let_def tail set_link_def by simp
  have "chain (sender_next ?l) (ipc_sender_head (thread_at ?l d)) (Q d @ [c])"
    using senders.insert_at [of s d "Q d" "[]" c 0] queues_chain(1) [OF q d] c d by simp
  moreover have nx: "sender_next (upd_thread d (ipc_sender_tail_update (\<lambda>_. c)) ?l) t = sender_next ?l t" for t
    by (cases "t = d") simp_all
  moreover have "ipc_sender_head (thread_at (upd_thread d (ipc_sender_tail_update (\<lambda>_. c)) ?l) d) = ipc_sender_head (thread_at ?l d)"
    by simp
  ultimately show "chain (sender_next (enqueue_sender d c s)) (ipc_sender_head (thread_at (enqueue_sender d c s) d)) (Q d @ [c])"
    unfolding e by simp
  have "ipc_sender_tail (thread_at (upd_thread d (ipc_sender_tail_update (\<lambda>_. c)) s1) d) = c" for s1 by simp
  then show "ipc_sender_tail (thread_at (enqueue_sender d c s) d) = last (0 # (Q d @ [c]))" unfolding e by simp
  fix r
  show "ipc_sender_head (thread_at (enqueue_sender d c s) r) = ipc_sender_head (thread_at s r) \<and>
      ipc_sender_tail (thread_at (enqueue_sender d c s) r) = ipc_sender_tail (thread_at s r)" if "r \<noteq> d"
    using sender_heads(1,2) [OF that] by simp
  fix t
  assume r: "r \<noteq> 0" "r \<noteq> d" "t \<in> set (Q r)"
  then have "t \<notin> set (Q d)" "t \<noteq> c" using queues_disjoint [OF q r(1) d r(3)] c by auto
  then show "sender_next (enqueue_sender d c s) t = sender_next s t \<and> t \<notin> set (Q d @ [c])"
    using senders.set_link_other [of t "Q d" d c ?s1] unfolding e nx by simp
qed

lemma drop_queues:
  assumes q: "queues s Q" and d: "d \<noteq> 0" and Q: "Q d = ys @ v # zs"
  shows "queues (drop_sender d (last (0 # ys)) v s) (Q(d := ys @ zs))"
proof (rule queues_upd [OF q d])
  let ?l = "set_link (\<lambda>v. upd_thread d (ipc_sender_head_update (\<lambda>_. v))) (\<lambda>t v. upd_thread t (ipc_next_sender_update (\<lambda>_. v)))
    (last (0 # ys)) (sender_next s v) s"
  let ?t = "if ipc_sender_tail (thread_at ?l d) = v then upd_thread d (ipc_sender_tail_update (\<lambda>_. last (0 # ys))) ?l else ?l"
  let ?d = "drop_sender d (last (0 # ys)) v s"
  have e: "?d = upd_thread v (ipc_next_sender_update (\<lambda>_. 0)) ?t"
    unfolding drop_sender_def Let_def set_link_def by simp
  have c: "chain (sender_next s) (ipc_sender_head (thread_at s d)) (ys @ v # zs)" using queues_chain(1) [OF q d] Q by simp
  have v: "v \<notin> set (ys @ zs)" "v \<noteq> 0" "0 \<notin> set ys" using c by (auto simp: chain_def)
  have nx: "sender_next ?d = (sender_next ?l)(v := 0)" unfolding e by (auto simp: fun_eq_iff)
  have hd: "ipc_sender_head (thread_at ?d d) = ipc_sender_head (thread_at ?l d)" unfolding e by simp
  show "chain (sender_next ?d) (ipc_sender_head (thread_at ?d d)) (ys @ zs)"
    unfolding nx hd using senders.unlink_found(2) [OF c] v(1) by (simp add: chain_upd_other)
  have tl: "ipc_sender_tail (thread_at ?l d) = last (0 # ys @ v # zs)"
    using queues_chain(2) [OF q d] Q by (simp add: sender_tail_link)
  have "last (0 # ys @ v # zs) = v \<longleftrightarrow> zs = []" using v(1) by (cases zs rule: rev_cases) auto
  then show "ipc_sender_tail (thread_at ?d d) = last (0 # ys @ zs)"
    unfolding e using tl by (cases "zs = []") (auto simp: last_append)
  fix r
  show "ipc_sender_head (thread_at ?d r) = ipc_sender_head (thread_at s r) \<and>
      ipc_sender_tail (thread_at ?d r) = ipc_sender_tail (thread_at s r)" if "r \<noteq> d"
    using sender_heads(3,4) [OF that] by simp
  fix t
  assume r: "r \<noteq> 0" "r \<noteq> d" "t \<in> set (Q r)"
  then have "t \<notin> set (Q d)" using queues_disjoint [OF q r(1) d r(3)] by auto
  then show "sender_next ?d t = sender_next s t \<and> t \<notin> set (ys @ zs)"
    using senders.set_link_other [of t ys d "sender_next s v" s] Q fun_cong [OF nx, of t] by auto
qed

section \<open>Mailboxes\<close>

text \<open>The thread without the links of the queues, which the queue operations do not change.\<close>

definition mcore :: "thread \<Rightarrow> thread" where
  "mcore x = x\<lparr>ipc_next_sender := 0, ipc_sender_head := 0, ipc_sender_tail := 0\<rparr>"

lemma mcore_upd:
  "mcore (thread_at (upd_thread u (ipc_next_sender_update f) s) t) = mcore (thread_at s t)"
  "mcore (thread_at (upd_thread u (ipc_sender_head_update f) s) t) = mcore (thread_at s t)"
  "mcore (thread_at (upd_thread u (ipc_sender_tail_update f) s) t) = mcore (thread_at s t)"
  by (cases "t = u"; simp add: mcore_def)+

lemma mcore_queue:
  "mcore (thread_at (enqueue_sender d c s) t) = mcore (thread_at s t)"
  "mcore (thread_at (drop_sender d p c s) t) = mcore (thread_at s t)"
  unfolding enqueue_sender_def drop_sender_def Let_def
  by (simp_all only: mcore_upd if_distrib [where f = thread_at] if_distrib [where f = "\<lambda>f. f t"]
      if_distrib [where f = mcore] if_cancel)

lemma mcore_fields:
  assumes "mcore x = mcore y"
  shows "ipc_sending x = ipc_sending y" "ipc_waiting_for x = ipc_waiting_for y" "ipc_message x = ipc_message y"
    "status x = status y" "ipc_receiving x = ipc_receiving y" "ipc_receive_from x = ipc_receive_from y"
    "ipc_status x = ipc_status y" "thread_process x = thread_process y"
proof -
  have "ipc_sending (mcore x) = ipc_sending (mcore y)" "ipc_waiting_for (mcore x) = ipc_waiting_for (mcore y)"
    "ipc_message (mcore x) = ipc_message (mcore y)" "status (mcore x) = status (mcore y)"
    "ipc_receiving (mcore x) = ipc_receiving (mcore y)" "ipc_receive_from (mcore x) = ipc_receive_from (mcore y)"
    "ipc_status (mcore x) = ipc_status (mcore y)" "thread_process (mcore x) = thread_process (mcore y)"
    by (simp_all only: assms)
  then show "ipc_sending x = ipc_sending y" "ipc_waiting_for x = ipc_waiting_for y" "ipc_message x = ipc_message y"
    "status x = status y" "ipc_receiving x = ipc_receiving y" "ipc_receive_from x = ipc_receive_from y"
    "ipc_status x = ipc_status y" "thread_process x = thread_process y" by (simp_all add: mcore_def)
qed

lemmas enqueue_fields = mcore_fields [OF mcore_queue(1)]
  and drop_fields = mcore_fields [OF mcore_queue(2)]

lemma queue_scalars [simp]:
  "current_thread (enqueue_sender d c s) = current_thread s" "process_at (enqueue_sender d c s) = process_at s"
  "current_thread (drop_sender d p c s) = current_thread s" "process_at (drop_sender d p c s) = process_at s"
  by (simp_all add: enqueue_sender_def drop_sender_def Let_def)

text \<open>A thread waits in the mailbox of a receiver exactly when it is sending to it.\<close>

definition mailboxes :: "kern \<Rightarrow> (u64 \<Rightarrow> u64 list) \<Rightarrow> bool" where
  "mailboxes s Q \<longleftrightarrow> queues s Q \<and>
     (\<forall>r t. r \<noteq> 0 \<longrightarrow> (t \<in> set (Q r) \<longleftrightarrow> t \<noteq> 0 \<and> ipc_sending (thread_at s t) \<and> ipc_waiting_for (thread_at s t) = r))"

lemma mailboxes_member:
  "mailboxes s Q \<Longrightarrow> r \<noteq> 0 \<Longrightarrow> t \<in> set (Q r) \<longleftrightarrow> t \<noteq> 0 \<and> ipc_sending (thread_at s t) \<and> ipc_waiting_for (thread_at s t) = r"
  by (simp add: mailboxes_def)

lemma queues_frame:
  assumes "\<And>t. ipc_next_sender (thread_at s' t) = ipc_next_sender (thread_at s t) \<and>
      ipc_sender_head (thread_at s' t) = ipc_sender_head (thread_at s t) \<and> ipc_sender_tail (thread_at s' t) = ipc_sender_tail (thread_at s t)"
  shows "queues s' Q = queues s Q"
proof -
  have "sender_next s' = sender_next s" using assms by (simp add: fun_eq_iff)
  then show ?thesis using assms by (simp add: queues_def)
qed

lemma mailboxes_frame:
  assumes "\<And>t. ipc_next_sender (thread_at s' t) = ipc_next_sender (thread_at s t) \<and>
      ipc_sender_head (thread_at s' t) = ipc_sender_head (thread_at s t) \<and> ipc_sender_tail (thread_at s' t) = ipc_sender_tail (thread_at s t)"
    and "\<And>t. ipc_sending (thread_at s' t) = ipc_sending (thread_at s t) \<and> ipc_waiting_for (thread_at s' t) = ipc_waiting_for (thread_at s t)"
  shows "mailboxes s' Q = mailboxes s Q"
  using queues_frame [of s' s Q, OF assms(1)] assms(2) by (simp add: mailboxes_def)

section \<open>Sending\<close>

abbreviation stamp :: "message \<Rightarrow> kern \<Rightarrow> message" where
  "stamp m s \<equiv> m\<lparr>source_pid := pid (process_at s (thread_process (thread_at s (current_thread s))))\<rparr>"

lemma send_queued:
  assumes m: "mailboxes s Q" and c: "current_thread s = c" "c \<noteq> 0" "\<not> ipc_sending (thread_at s c)" and d: "d \<noteq> 0"
    and busy: "\<not> (ipc_receiving (thread_at s d) \<and> source_matches d c s)"
  shows "\<exists>s'. send_section d msg s = (False, s') \<and> mailboxes s' (Q(d := Q d @ [c])) \<and> ipc_message (thread_at s' c) = stamp msg s"
proof -
  let ?s1 = "upd_thread c (\<lambda>x. x\<lparr>ipc_message := stamp msg s, ipc_sending := True, ipc_status := 0, ipc_waiting_for := d\<rparr>) s"
  let ?s2 = "enqueue_sender d c ?s1"
  have e: "send_section d msg s = (False, ?s2)" using busy c by (simp add: send_section_def Let_def)
  have out: "c \<notin> set (Q r)" if "r \<noteq> 0" for r using mailboxes_member [OF m that] c(3) by simp
  have "queues ?s1 Q" using m by (subst queues_frame [of _ s]) (auto simp: mailboxes_def)
  then have "queues ?s2 (Q(d := Q d @ [c]))" using d c(2) out by (rule enqueue_queues)
  moreover have "t \<in> set ((Q(d := Q d @ [c])) r) \<longleftrightarrow> t \<noteq> 0 \<and> ipc_sending (thread_at ?s2 t) \<and> ipc_waiting_for (thread_at ?s2 t) = r"
    if "r \<noteq> 0" for r t
    unfolding enqueue_fields using mailboxes_member [OF m that, of t] out [OF that] c(2) by (cases "t = c"; cases "r = d") auto
  ultimately have "mailboxes ?s2 (Q(d := Q d @ [c]))" by (simp add: mailboxes_def)
  moreover have "ipc_message (thread_at ?s2 c) = stamp msg s" by (simp add: enqueue_fields)
  ultimately show ?thesis using e by blast
qed

lemma send_delivered:
  assumes m: "mailboxes s Q" and d: "d \<noteq> 0" and ready: "ipc_receiving (thread_at s d)" "source_matches d (current_thread s) s"
  shows "\<exists>s'. send_section d msg s = (True, s') \<and> mailboxes s' Q \<and> ipc_message (thread_at s' d) = stamp msg s \<and>
    \<not> ipc_receiving (thread_at s' d) \<and> status (thread_at s' d) \<noteq> TASK_BLOCKED"
proof -
  let ?s1 = "thread_unblock d
    (upd_thread d (\<lambda>x. x\<lparr>ipc_message := stamp msg s, ipc_receiving := False, ipc_receive_from := IPC_ANY\<rparr>) s)"
  have "mailboxes ?s1 Q" using m d by (subst mailboxes_frame [of _ s]) (auto simp: unblock_thread)
  then show ?thesis using ready d by (simp add: send_section_def Let_def unblock_thread)
qed

section \<open>Receiving\<close>

abbreviation accepts :: "int \<Rightarrow> kern \<Rightarrow> u64 \<Rightarrow> bool" where
  "accepts want s t \<equiv> want = IPC_ANY \<or> want = sint (pid (process_at s (thread_process (thread_at s t))))"

lemma find_split:
  "find P xs = Some v \<Longrightarrow> \<exists>ys zs. xs = ys @ v # zs \<and> P v \<and> (\<forall>y \<in> set ys. \<not> P y)"
  by (induction xs) (force split: if_splits dest: spec intro: exI [of _ "_ # _"])+

lemma receive_from_frame:
  "mailboxes (upd_thread c (ipc_receive_from_update f) s) Q = mailboxes s Q"
  "mailboxes (upd_thread c (ipc_receiving_update g) s) Q = mailboxes s Q"
  "mailboxes (thread_unblock t s) Q = mailboxes s Q"
  by (rule mailboxes_frame; simp add: thread_unblock_def)+

lemma queues_receive_from: "queues (upd_thread c (ipc_receive_from_update f) s) Q = queues s Q"
  by (rule queues_frame) simp

lemma dequeue_none:
  assumes "queues s Q" and "c \<noteq> 0" and "\<And>t. t \<in> set (Q c) \<Longrightarrow> \<not> source_matches c t s"
  shows "dequeue_matching_sender c s = Some (0, s)"
  using chase_chain_end [OF queues_chain(1) [OF assms(1,2)], of "\<lambda>t. source_matches c t s" 0] assms(3)
  by (simp add: dequeue_matching_sender_def)

lemma dequeue_some:
  assumes "queues s Q" and "c \<noteq> 0" and "Q c = ys @ v # zs" "source_matches c v s" "\<And>t. t \<in> set ys \<Longrightarrow> \<not> source_matches c t s"
  shows "dequeue_matching_sender c s = Some (v, drop_sender c (last (0 # ys)) v s)" "v \<noteq> 0" "v \<notin> set (ys @ zs)"
proof -
  have ch: "chain (sender_next s) (ipc_sender_head (thread_at s c)) (ys @ v # zs)" using queues_chain(1) [OF assms(1,2)] assms(3) by simp
  then show v: "v \<noteq> 0" "v \<notin> set (ys @ zs)" by (auto simp: chain_def)
  show "dequeue_matching_sender c s = Some (v, drop_sender c (last (0 # ys)) v s)"
    using chase_chain_find [OF ch, of "\<lambda>t. source_matches c t s" 0] assms(4,5) v(1) by (simp add: dequeue_matching_sender_def)
qed

lemma matches_now: "source_matches c t (upd_thread c (ipc_receive_from_update (\<lambda>_. want)) s) = accepts want s t"
  by (simp add: source_matches_def)

lemma receive_none:
  assumes m: "mailboxes s Q" and c: "current_thread s = c" "c \<noteq> 0" and none: "find (accepts want s) (Q c) = None"
  shows "\<exists>s'. receive_section want s = Some (None, s') \<and> mailboxes s' Q \<and> ipc_receiving (thread_at s' c) \<and>
    ipc_receive_from (thread_at s' c) = want"
proof -
  let ?s0 = "upd_thread c (ipc_receive_from_update (\<lambda>_. want)) s"
  have "queues ?s0 Q" using m by (simp add: queues_receive_from mailboxes_def)
  moreover have "\<not> source_matches c t ?s0" if "t \<in> set (Q c)" for t
    using none that unfolding matches_now find_None_iff by blast
  ultimately have "dequeue_matching_sender c ?s0 = Some (0, ?s0)" using c(2) by (intro dequeue_none)
  then have "receive_section want s = Some (None, upd_thread c (ipc_receiving_update (\<lambda>_. True)) ?s0)"
    unfolding receive_section_def Let_def c(1) by simp
  moreover have "mailboxes (upd_thread c (ipc_receiving_update (\<lambda>_. True)) ?s0) Q" using m by (simp add: receive_from_frame)
  ultimately show ?thesis by (intro exI conjI) auto
qed

lemma receive_some:
  assumes m: "mailboxes s Q" and c: "current_thread s = c" "c \<noteq> 0" and found: "find (accepts want s) (Q c) = Some v"
  shows "\<exists>s'. receive_section want s = Some (Some (ipc_message (thread_at s v)), s') \<and> mailboxes s' (Q(c := remove1 v (Q c))) \<and>
    ipc_status (thread_at s' v) = 0 \<and> status (thread_at s' v) \<noteq> TASK_BLOCKED"
proof -
  obtain ys zs where Q: "Q c = ys @ v # zs" and v: "accepts want s v" "\<forall>y \<in> set ys. \<not> accepts want s y"
    using find_split [OF found] by blast
  let ?s0 = "upd_thread c (ipc_receive_from_update (\<lambda>_. want)) s"
  let ?s1 = "drop_sender c (last (0 # ys)) v ?s0"
  let ?s2 = "upd_thread v (\<lambda>x. x\<lparr>ipc_sending := False, ipc_status := 0, ipc_waiting_for := 0\<rparr>) ?s1"
  let ?s3 = "upd_thread c (ipc_receive_from_update (\<lambda>_. IPC_ANY)) (thread_unblock v ?s2)"
  have q: "queues ?s0 Q" using m by (simp add: queues_receive_from mailboxes_def)
  have dq: "dequeue_matching_sender c ?s0 = Some (v, ?s1)" "v \<noteq> 0" "v \<notin> set (ys @ zs)"
    using dequeue_some [OF q c(2) Q] v by (simp_all add: matches_now)
  have "receive_section want s = Some (Some (ipc_message (thread_at ?s1 v)), ?s3)"
    unfolding receive_section_def Let_def c(1) using dq(1,2) by simp
  moreover have "ipc_message (thread_at ?s1 v) = ipc_message (thread_at s v)" by (simp add: drop_fields)
  moreover have "mailboxes ?s3 (Q(c := ys @ zs))"
  proof -
    have "queues ?s2 (Q(c := ys @ zs))" using drop_queues [OF q c(2) Q] by (subst queues_frame [of _ ?s1]) auto
    moreover have "t \<in> set ((Q(c := ys @ zs)) r) \<longleftrightarrow> t \<noteq> 0 \<and> ipc_sending (thread_at ?s2 t) \<and> ipc_waiting_for (thread_at ?s2 t) = r"
      if "r \<noteq> 0" for r t
      using mailboxes_member [OF m that, of t] mailboxes_member [OF m c(2), of v] mailboxes_member [OF m that, of v] Q dq(2,3)
      by (cases "t = v"; cases "r = c") (auto simp: drop_fields)
    ultimately have "mailboxes ?s2 (Q(c := ys @ zs))" by (simp add: mailboxes_def)
    then show ?thesis by (simp add: receive_from_frame)
  qed
  moreover have "remove1 v (Q c) = ys @ zs" using Q dq(3) by (simp add: remove1_append)
  moreover have "ipc_status (thread_at ?s3 v) = 0 \<and> status (thread_at ?s3 v) \<noteq> TASK_BLOCKED"
    using dq(2) by (simp add: unblock_thread)
  ultimately show ?thesis by (intro exI conjI) auto
qed

section \<open>Aborting\<close>

lemma queues_cong: "(\<And>r. r \<noteq> 0 \<Longrightarrow> Q r = Q' r) \<Longrightarrow> queues s Q = queues s Q'"
  by (simp add: queues_def)

lemma abort_leave:
  assumes m: "mailboxes s Q" and t: "t \<noteq> 0"
  shows "\<exists>s'. (if ipc_sending (thread_at s t) \<and> ipc_waiting_for (thread_at s t) \<noteq> 0
      then remove_sender (ipc_waiting_for (thread_at s t)) t s else Some s) = Some s' \<and>
    queues s' (\<lambda>r. removeAll t (Q r)) \<and> (\<forall>u. mcore (thread_at s' u) = mcore (thread_at s u))"
proof (cases "ipc_sending (thread_at s t) \<and> ipc_waiting_for (thread_at s t) \<noteq> 0")
  case True
  define w where "w = ipc_waiting_for (thread_at s t)"
  have w: "w \<noteq> 0" using True by (simp add: w_def)
  have q: "queues s Q" using m by (simp add: mailboxes_def)
  have "t \<in> set (Q w)" using mailboxes_member [OF m w, of t] True t by (simp add: w_def)
  then obtain ys zs where Q: "Q w = ys @ t # zs" by (meson split_list)
  have ch: "chain (sender_next s) (ipc_sender_head (thread_at s w)) (ys @ t # zs)" using queues_chain(1) [OF q w] Q by simp
  then have ns: "t \<notin> set (ys @ zs)" by (auto simp: chain_def)
  have "chase (sender_next s) (\<lambda>u. u = 0 \<or> u = t) 0 (ipc_sender_head (thread_at s w)) = Some (last (0 # ys), t)"
    using ch ns by (intro chase_chain_find) auto
  then have r: "remove_sender w t s = Some (drop_sender w (last (0 # ys)) t s)" using t by (simp add: remove_sender_def)
  have "(Q(w := ys @ zs)) r = removeAll t (Q r)" if "r \<noteq> 0" for r
    using mailboxes_member [OF m that, of t] Q ns by (cases "r = w") (auto simp: w_def removeAll_id)
  then have "queues (drop_sender w (last (0 # ys)) t s) (\<lambda>r. removeAll t (Q r))"
    using drop_queues [OF q w Q] queues_cong [of "Q(w := ys @ zs)" "\<lambda>r. removeAll t (Q r)"] by simp
  then show ?thesis using True r mcore_queue(2) by (simp add: w_def)
next
  case False
  then have "Q r = removeAll t (Q r)" if "r \<noteq> 0" for r using mailboxes_member [OF m that, of t] that by (auto simp: removeAll_id)
  then have "queues s (\<lambda>r. removeAll t (Q r))" using m queues_cong [of Q "\<lambda>r. removeAll t (Q r)" s] by (simp add: mailboxes_def)
  then show ?thesis unfolding if_not_P [OF False] by simp
qed

definition aborted :: "thread \<Rightarrow> thread" where
  "aborted x = roused (x\<lparr>ipc_next_sender := 0, ipc_sending := False, ipc_waiting_for := 0, ipc_status := -1\<rparr>)"

lemma abort_walk:
  assumes "chain (sender_next s) p xs"
  shows "\<exists>s'. each sender_next (\<lambda>t _. t = 0) abort_sender p s = Some s' \<and>
    (\<forall>t. thread_at s' t = (if t \<in> set xs then aborted (thread_at s t) else thread_at s t))"
proof -
  let ?g = "\<lambda>t s. thread_unblock t
       (upd_thread t (\<lambda>x. x\<lparr>ipc_next_sender := 0, ipc_sending := False, ipc_waiting_for := 0, ipc_status := -1\<rparr>) s)"
  have xs: "distinct xs" "0 \<notin> set xs" using assms by (auto simp: chain_def)
  have step: "thread_at (?g t s) u = (if u = t then aborted (thread_at s u) else thread_at s u)" if "t \<noteq> 0" for t u s
    using that by (simp add: unblock_thread aborted_def)
  have "each sender_next (\<lambda>t _. t = 0) abort_sender p s = foldo abort_sender xs s"
    using assms
  proof (rule each_chain)
    fix ys x zs s s' y assume "xs = ys @ x # zs" "abort_sender x s = Some s'" "y \<in> set zs"
    moreover have "y \<noteq> x" "x \<noteq> 0" using calculation xs by auto
    ultimately show "sender_next s' y = sender_next s y" using step [of x s y] by (auto simp: abort_sender_def)
  qed simp
  then have "each sender_next (\<lambda>t _. t = 0) abort_sender p s = Some (fold ?g xs s)"
    using foldo_total [of xs abort_sender ?g s] by (simp add: abort_sender_def)
  moreover have "thread_at (fold ?g xs s) t = (if t \<in> set xs then aborted (thread_at s t) else thread_at s t)" for t
    using xs
  proof (induction xs arbitrary: s)
    case (Cons x xs)
    then show ?case using step [of x s t] by auto
  qed simp
  ultimately show ?thesis by blast
qed

lemma aborted_fields [simp]:
  "ipc_next_sender (aborted x) = 0" "ipc_sender_head (aborted x) = ipc_sender_head x" "ipc_sender_tail (aborted x) = ipc_sender_tail x"
  "\<not> ipc_sending (aborted x)" "ipc_status (aborted x) = -1" "status (aborted x) \<noteq> TASK_BLOCKED" "ipc_receiving (aborted x) = ipc_receiving x"
  by (simp_all add: aborted_def)

lemma abort_mailboxes:
  assumes m: "mailboxes s Q" and t: "t \<noteq> 0"
  shows "\<exists>s'. ipc_abort_thread t s = Some s' \<and> mailboxes s' ((\<lambda>r. removeAll t (Q r))(t := [])) \<and>
    (\<forall>u \<in> set (Q t) - {t}. ipc_status (thread_at s' u) = -1 \<and> status (thread_at s' u) \<noteq> TASK_BLOCKED) \<and>
    \<not> ipc_sending (thread_at s' t) \<and> \<not> ipc_receiving (thread_at s' t)"
proof -
  let ?Q = "\<lambda>r. removeAll t (Q r)"
  obtain s1 where s1: "(if ipc_sending (thread_at s t) \<and> ipc_waiting_for (thread_at s t) \<noteq> 0
      then remove_sender (ipc_waiting_for (thread_at s t)) t s else Some s) = Some s1" "queues s1 ?Q"
    "\<And>u. mcore (thread_at s1 u) = mcore (thread_at s u)" using abort_leave [OF m t] by blast
  let ?s2 = "upd_thread t (\<lambda>x. x\<lparr>ipc_sending := False, ipc_receiving := False, ipc_waiting_for := 0,
                 ipc_receive_from := IPC_ANY, ipc_sender_head := 0, ipc_sender_tail := 0\<rparr>) s1"
  have nx: "sender_next ?s2 = sender_next s1" by (auto simp: fun_eq_iff)
  have "chain (sender_next ?s2) (ipc_sender_head (thread_at s1 t)) (?Q t)" unfolding nx by (rule queues_chain(1) [OF s1(2) t])
  then obtain s3 where s3: "each sender_next (\<lambda>t _. t = 0) abort_sender (ipc_sender_head (thread_at s1 t)) ?s2 = Some s3"
    "\<And>u. thread_at s3 u = (if u \<in> set (?Q t) then aborted (thread_at ?s2 u) else thread_at ?s2 u)" using abort_walk by blast
  have "ipc_abort_thread t s = Some s3" unfolding ipc_abort_thread_def Let_def using t s1(1) s3(1) by simp
  moreover have "queues s3 (?Q(t := []))"
    using s1(2) t
  proof (rule queues_upd)
    fix r u assume r: "r \<noteq> 0" "r \<noteq> t" "u \<in> set (?Q r)"
    then show "sender_next s3 u = sender_next s1 u \<and> u \<notin> set []"
      using queues_disjoint [OF s1(2) r(1) t r(3)] by (auto simp: s3(2))
  qed (auto simp: s3(2))
  moreover have "u \<in> set ((?Q(t := [])) r) \<longleftrightarrow> u \<noteq> 0 \<and> ipc_sending (thread_at s3 u) \<and> ipc_waiting_for (thread_at s3 u) = r" if "r \<noteq> 0" for r u
    using mailboxes_member [OF m that, of u] mailboxes_member [OF m t, of u] mcore_fields(1,2) [OF s1(3) [of u]]
    by (cases "u = t"; cases "u \<in> set (Q t)"; cases "r = t") (auto simp: s3(2))
  moreover have "ipc_status (thread_at s3 u) = -1 \<and> status (thread_at s3 u) \<noteq> TASK_BLOCKED" if "u \<in> set (Q t) - {t}" for u
    using that by (simp add: s3(2))
  moreover have "\<not> ipc_sending (thread_at s3 t) \<and> \<not> ipc_receiving (thread_at s3 t)" by (simp add: s3(2))
  ultimately show ?thesis by (auto simp: mailboxes_def)
qed

section \<open>Properties\<close>

definition demo_mail :: kern where
  "demo_mail = upd_thread 0x2000 (\<lambda>x. x\<lparr>ipc_sending := True, ipc_waiting_for := 0x1000, ipc_message := \<lparr>source_pid = 7, msg_type = 1, msg_value = 42\<rparr>\<rparr>)
     (upd_thread 0x1000 (\<lambda>x. x\<lparr>ipc_sender_head := 0x2000, ipc_sender_tail := 0x2000\<rparr>) demo_kern)"

lemma demo_mailboxes: "mailboxes demo_mail ((\<lambda>_. [])(0x1000 := [0x2000]))"
proof -
  have "ipc_sending (thread_at demo_kern t) = False" "ipc_sender_head (thread_at demo_kern t) = 0"
    "ipc_sender_tail (thread_at demo_kern t) = 0" "ipc_next_sender (thread_at demo_kern t) = 0" for t
    by (auto simp: demo_thread_def zero_thread_def)
  then show ?thesis unfolding mailboxes_def queues_def demo_mail_def by (auto simp: chain_Cons simp del: demo_kern_simps)
qed

text \<open>
  C22: Messages.  The linked queues of senders are mailboxes in order of arrival.  A message to a
  thread that waits for this sender is delivered and the receiver is woken; otherwise the sender
  joins the end of the receiver's mailbox and blocks.  A receiver takes the message of the first
  sender in its mailbox that it accepts, and that sender is woken with success; it blocks as
  receiving when there is none.  When a thread is aborted, it leaves the mailbox it waits in, and
  every thread that waits in its own mailbox is woken with an error.  The loops over the queues end.
\<close>

theorem ipc_mailboxes:
  assumes "mailboxes s Q" and "current_thread s = c" and "c \<noteq> 0"
  shows "(\<not> send_refused d False s \<longrightarrow> \<not> ipc_sending (thread_at s c) \<longrightarrow>
      (\<exists>s'. if ipc_receiving (thread_at s d) \<and> source_matches d c s
        then ipc_send d False msg s = Some (Some 0, s') \<and> mailboxes s' Q \<and> ipc_message (thread_at s' d) = stamp msg s \<and>
          \<not> ipc_receiving (thread_at s' d) \<and> status (thread_at s' d) \<noteq> TASK_BLOCKED
        else ipc_send d False msg s = map_option (Pair None) (thread_block s') \<and> mailboxes s' (Q(d := Q d @ [c])) \<and>
          ipc_message (thread_at s' c) = stamp msg s)) \<and>
    (\<exists>s'. case find (accepts want s) (Q c) of
        Some v \<Rightarrow> ipc_receive want False s = Some (Some (0, Some (ipc_message (thread_at s v))), s') \<and>
          mailboxes s' (Q(c := remove1 v (Q c))) \<and> ipc_status (thread_at s' v) = 0 \<and> status (thread_at s' v) \<noteq> TASK_BLOCKED
      | None \<Rightarrow> ipc_receive want False s = map_option (Pair None) (thread_block s') \<and> mailboxes s' Q \<and>
          ipc_receiving (thread_at s' c) \<and> ipc_receive_from (thread_at s' c) = want) \<and>
    (t \<noteq> 0 \<longrightarrow> (\<exists>s'. ipc_abort_thread t s = Some s' \<and> mailboxes s' ((\<lambda>r. removeAll t (Q r))(t := [])) \<and>
      (\<forall>u \<in> set (Q t) - {t}. ipc_status (thread_at s' u) = -1 \<and> status (thread_at s' u) \<noteq> TASK_BLOCKED) \<and>
      \<not> ipc_sending (thread_at s' t) \<and> \<not> ipc_receiving (thread_at s' t)))"
proof (intro conjI impI)
  assume r: "\<not> send_refused d False s" "\<not> ipc_sending (thread_at s c)"
  then have d: "d \<noteq> 0" by (simp add: send_refused_def)
  show "\<exists>s'. if ipc_receiving (thread_at s d) \<and> source_matches d c s
        then ipc_send d False msg s = Some (Some 0, s') \<and> mailboxes s' Q \<and> ipc_message (thread_at s' d) = stamp msg s \<and>
          \<not> ipc_receiving (thread_at s' d) \<and> status (thread_at s' d) \<noteq> TASK_BLOCKED
        else ipc_send d False msg s = map_option (Pair None) (thread_block s') \<and> mailboxes s' (Q(d := Q d @ [c])) \<and>
          ipc_message (thread_at s' c) = stamp msg s"
  proof (cases "ipc_receiving (thread_at s d) \<and> source_matches d c s")
    case True
    then show ?thesis using send_delivered [OF assms(1) d, of msg] assms(2) r(1) by (auto simp: ipc_send_def)
  next
    case False
    obtain s' where s': "send_section d msg s = (False, s')" "mailboxes s' (Q(d := Q d @ [c]))" "ipc_message (thread_at s' c) = stamp msg s"
      using send_queued [OF assms r(2) d False, of msg] by blast
    have "ipc_send d False msg s = map_option (Pair None) (thread_block s')"
      using r(1) s'(1) by (simp add: ipc_send_def) (cases "thread_block s'"; simp)
    then show ?thesis unfolding if_not_P [OF False] using s'(2,3) by blast
  qed
next
  show "\<exists>s'. case find (accepts want s) (Q c) of
        Some v \<Rightarrow> ipc_receive want False s = Some (Some (0, Some (ipc_message (thread_at s v))), s') \<and>
          mailboxes s' (Q(c := remove1 v (Q c))) \<and> ipc_status (thread_at s' v) = 0 \<and> status (thread_at s' v) \<noteq> TASK_BLOCKED
      | None \<Rightarrow> ipc_receive want False s = map_option (Pair None) (thread_block s') \<and> mailboxes s' Q \<and>
          ipc_receiving (thread_at s' c) \<and> ipc_receive_from (thread_at s' c) = want"
  proof (cases "find (accepts want s) (Q c)")
    case None
    obtain s' where s': "receive_section want s = Some (None, s')" "mailboxes s' Q" "ipc_receiving (thread_at s' c)"
      "ipc_receive_from (thread_at s' c) = want" using receive_none [OF assms None] by blast
    have "ipc_receive want False s = map_option (Pair None) (thread_block s')"
      using s'(1) by (simp add: ipc_receive_def) (cases "thread_block s'"; simp)
    then show ?thesis unfolding None using s'(2-4) by auto
  next
    case (Some v)
    then show ?thesis using receive_some [OF assms Some] by (auto simp: ipc_receive_def)
  qed
qed (rule abort_mailboxes [OF assms(1)])

theorem ipc_mailboxes_witness:
  "\<exists>s'. ipc_receive IPC_ANY False demo_mail = Some (Some (0, Some \<lparr>source_pid = 7, msg_type = 1, msg_value = 42\<rparr>), s') \<and>
    mailboxes s' (\<lambda>_. [])"
proof -
  have c: "current_thread demo_mail = 0x1000" "(0x1000 :: u64) \<noteq> 0" by (simp_all add: demo_mail_def)
  have m: "ipc_message (thread_at demo_mail 0x2000) = \<lparr>source_pid = 7, msg_type = 1, msg_value = 42\<rparr>" by (simp add: demo_mail_def)
  have e: "((\<lambda>_. []) :: u64 \<Rightarrow> u64 list)(0x1000 := []) = (\<lambda>_. [])" by auto
  show ?thesis
    using ipc_mailboxes [OF demo_mailboxes c, where want = IPC_ANY, THEN conjunct2, THEN conjunct1] by (auto simp: m e)
qed

section \<open>A delivered message that is lost\<close>

text \<open>
  Only a blocking send clears the status of a thread, so the -1 of a send that was aborted stays.
  When the thread later waits for a message and one is delivered, the receive reports the old
  failure and drops the message, although its sender was told that it was delivered.
\<close>

lemma stale_status_loses_message:
  assumes "ipc_receiving (thread_at s t)" and "source_matches t (current_thread s) s" and "ipc_status (thread_at s t) \<noteq> 0"
    and "send_section t msg s = (r, s1)" and "thread_at s2 t = thread_at s1 t" and "current_thread s2 = t"
  shows "r \<and> ipc_receive_resumed s2 = (ipc_status (thread_at s t), None)"
proof -
  have "ipc_status (thread_at s1 t) = ipc_status (thread_at s t)" and r: r
    using assms(1,2,4) by (auto simp: send_section_def Let_def thread_unblock_def upd_thread_def)
  with assms(3,5,6) show ?thesis by (simp add: ipc_receive_resumed_def)
qed

end
