(* ===== verification/Timer_Safety.thy ===== *)
theory Timer_Safety
  imports Sched_Safety
begin

text \<open>
  The sleep queue: it is sorted by wake-up time, a clock tick wakes exactly the threads whose time
  has come, and a thread that sleeps for n ticks is woken by the n-th tick.
\<close>

section \<open>The sorted queue\<close>

abbreviation wake_of :: "kern \<Rightarrow> u64 \<Rightarrow> u64" where
  "wake_of s t \<equiv> wake_tick (thread_at s t)"

definition sleep_ok :: "kern \<Rightarrow> u64 list \<Rightarrow> bool" where
  "sleep_ok s zs \<longleftrightarrow> sleepers s zs \<and> sorted (map (wake_of s) zs) \<and> (\<forall>t. t \<in> set zs \<longleftrightarrow> t \<noteq> 0 \<and> sleeping (thread_at s t))"

lemma sleep_ok_member: "sleep_ok s zs \<Longrightarrow> t \<in> set zs \<longleftrightarrow> t \<noteq> 0 \<and> sleeping (thread_at s t)"
  by (simp add: sleep_ok_def)

lemma sorted_prefix:
  "sorted (map f zs) \<Longrightarrow> takeWhile (\<lambda>z. f z \<le> w) zs = filter (\<lambda>z. f z \<le> w) zs"
  "sorted (map f zs) \<Longrightarrow> dropWhile (\<lambda>z. f z \<le> w) zs = filter (\<lambda>z. \<not> f z \<le> w) zs" for w :: u64
  by (induction zs) (auto intro!: filter_False [symmetric] filter_True [symmetric] intro: order_trans)

lemma sorted_insert:
  fixes f :: "'a \<Rightarrow> u64"
  assumes "sorted (map f zs)"
  shows "sorted (map f (filter (\<lambda>z. f z \<le> f t) zs @ t # filter (\<lambda>z. \<not> f z \<le> f t) zs))"
  using assms by (auto simp: sorted_append sorted_filter not_le intro: order_trans less_imp_le)

lemma sleep_enqueue_sorted:
  assumes ok: "sleep_ok s zs" and t: "t \<noteq> 0" "\<not> sleeping (thread_at s t)"
  shows "\<exists>s'. sleep_enqueue t n s = Some s' \<and>
    sleep_ok s' (filter (\<lambda>z. wake_of s z \<le> system_ticks s + n) zs @ t # filter (\<lambda>z. \<not> wake_of s z \<le> system_ticks s + n) zs) \<and>
    sleeping (thread_at s' t) \<and> wake_of s' t = system_ticks s + n \<and> system_ticks s' = system_ticks s"
proof -
  define w where "w = system_ticks s + n"
  let ?s1 = "upd_thread t (\<lambda>x. x\<lparr>wake_tick := w, sleeping := True\<rparr>) s"
  let ?ys = "filter (\<lambda>z. wake_of s z \<le> w) zs" and ?us = "filter (\<lambda>z. \<not> wake_of s z \<le> w) zs"
  have so: "sorted (map (wake_of s) zs)" "sleepers s zs" "t \<notin> set zs" using ok t by (auto simp: sleep_ok_def)
  have z: "zs = ?ys @ ?us" unfolding sorted_prefix [OF so(1), symmetric] by simp
  have l: "sleep_link ?s1 = sleep_link s" "sleep_head ?s1 = sleep_head s" by (auto simp: fun_eq_iff)
  have other: "wake_of ?s1 u = wake_of s u" if "u \<in> set zs" for u using that so(3) by auto
  define q where "q = (case ?us of [] \<Rightarrow> 0 | z # _ \<Rightarrow> z)"
  have ch: "chase (sleep_link ?s1) (\<lambda>p. p = 0 \<or> \<not> wake_of ?s1 p \<le> w) 0 (sleep_head ?s1) = Some (last (0 # ?ys), q)"
  proof (cases ?us)
    case Nil
    then have "sleepers s ?ys" using so(2) z by simp
    then show ?thesis unfolding l using other Nil by (subst chase_chain_end [where xs = ?ys]) (auto simp: q_def)
  next
    case (Cons u us)
    then have "sleepers s (?ys @ u # us)" using so(2) z by metis
    moreover have "u \<in> set ?us" unfolding Cons by simp
    then have "u \<in> set zs" "\<not> wake_of s u \<le> w" by simp_all
    ultimately show ?thesis unfolding l using other Cons by (subst chase_chain_find [where ys = ?ys and v = u and zs = us]) (auto simp: q_def)
  qed
  define s2 where "s2 = set_link set_sleep_head set_sleep_next (last (0 # ?ys)) t (set_sleep_next t q ?s1)"
  have e: "sleep_enqueue t n s = Some s2" using t(2) ch unfolding sleep_enqueue_def Let_def w_def [symmetric] s2_def by simp
  have "sleepers ?s1 (?ys @ ?us)" by (simp only: l z [symmetric] so(2))
  then have s2: "sleepers s2 (?ys @ t # ?us)"
    unfolding s2_def by (rule sleepq.insert_at) (use so(3) t(1) in \<open>auto simp: q_def\<close>)
  have f: "wake_of s2 u = (if u = t then w else wake_of s u)" "sleeping (thread_at s2 u) = (u = t \<or> sleeping (thread_at s u))"
    "system_ticks s2 = system_ticks s" for u
    by (simp_all add: s2_def set_link_def set_sleep_head_def set_sleep_next_def)
  have "filter (\<lambda>z. wake_of s2 z \<le> wake_of s2 t) zs = ?ys" "filter (\<lambda>z. \<not> wake_of s2 z \<le> wake_of s2 t) zs = ?us"
    "map (wake_of s2) zs = map (wake_of s) zs"
    using so(3) by (auto simp: f intro!: filter_cong)
  then have "sorted (map (wake_of s2) (?ys @ t # ?us))" using sorted_insert [of "wake_of s2" zs t] so(1) by metis
  moreover have "set (?ys @ t # ?us) = insert t (set zs)" by auto
  ultimately have "sleep_ok s2 (?ys @ t # ?us)" using s2 ok t(1) f(2) unfolding sleep_ok_def by auto
  then show ?thesis using e f unfolding w_def [symmetric] by auto
qed

section \<open>Waking and cancelling\<close>

definition awake :: "thread \<Rightarrow> thread" where
  "awake x = roused (x\<lparr>sleep_next := 0, sleeping := False\<rparr>)"

lemma awake_fields [simp]: "\<not> sleeping (awake x)" "wake_tick (awake x) = wake_tick x" "sleep_next (awake x) = 0" "status (awake x) \<noteq> TASK_BLOCKED"
  by (simp_all add: awake_def)

lemma wake_first_exact:
  assumes "t \<noteq> 0"
  shows "\<exists>s'. wake_first t s = Some s' \<and> sleep_head s' = sleep_link s t \<and> system_ticks s' = system_ticks s \<and>
    thread_at s' = (thread_at s)(t := awake (thread_at s t))"
  using assms by (auto simp: wake_first_def Let_def thread_unblock_def awake_def roused_def set_sleep_head_def upd_thread_def)

lemma sleep_ok_pop:
  assumes "sleep_ok s (x # zs)" and "sleep_head s' = sleep_link s x" and "thread_at s' = (thread_at s)(x := awake (thread_at s x))"
  shows "sleep_ok s' zs"
proof -
  have x: "x \<noteq> 0" "x \<notin> set zs" "chain (sleep_link s) (sleep_link s x) zs" using assms(1) by (auto simp: sleep_ok_def chain_Cons)
  have "sleep_link s' = (sleep_link s)(x := 0)" by (simp add: assms(3) fun_eq_iff)
  then have "sleepers s' zs" using x by (simp add: assms(2) chain_upd_other)
  moreover have "wake_of s' t = wake_of s t" for t by (simp add: assms(3))
  moreover have "t \<in> set zs \<longleftrightarrow> t \<noteq> 0 \<and> sleeping (thread_at s' t)" for t
    using sleep_ok_member [OF assms(1), of t] x(2) by (cases "t = x") (simp_all add: assms(3))
  ultimately show ?thesis using assms(1) by (simp add: sleep_ok_def)
qed

lemma wake_exact:
  assumes ok: "sleep_ok s zs"
  shows "\<exists>s'. timer_wake_sleepers s = Some s' \<and> sleep_ok s' (filter (\<lambda>z. \<not> wake_of s z \<le> system_ticks s) zs) \<and> system_ticks s' = system_ticks s \<and>
    (\<forall>t. thread_at s' t = (if t \<noteq> 0 \<and> sleeping (thread_at s t) \<and> wake_of s t \<le> system_ticks s then awake (thread_at s t) else thread_at s t))"
proof -
  let ?w = "system_ticks s" let ?due = "filter (\<lambda>z. wake_of s z \<le> ?w) zs" and ?rest = "filter (\<lambda>z. \<not> wake_of s z \<le> ?w) zs"
  define q where "q = (case ?rest of [] \<Rightarrow> 0 | z # _ \<Rightarrow> z)"
  let ?I = "\<lambda>ys u. sleep_ok u (ys @ ?rest) \<and> system_ticks u = ?w \<and> set ys \<subseteq> set ?due \<and>
    thread_at u = (\<lambda>t. if t \<in> set ?due - set ys then awake (thread_at s t) else thread_at s t)"
  have so: "sorted (map (wake_of s) zs)" and mem: "\<And>t. t \<in> set zs \<longleftrightarrow> t \<noteq> 0 \<and> sleeping (thread_at s t)" using ok by (auto simp: sleep_ok_def)
  have z: "?due @ ?rest = zs" unfolding sorted_prefix [OF so, symmetric] by simp
  have hd: "sleep_head s = (case ?due of [] \<Rightarrow> q | x # _ \<Rightarrow> x)"
  proof -
    have "sleepers s (?due @ ?rest)" using ok unfolding z by (simp add: sleep_ok_def)
    then show ?thesis by (auto simp: q_def chain_Cons split: list.splits)
  qed
  have "\<exists>s'. each sleep_link (\<lambda>t s. t = 0 \<or> \<not> wake_of s t \<le> system_ticks s) wake_first (case ?due of [] \<Rightarrow> q | x # _ \<Rightarrow> x) s = Some s' \<and> ?I [] s'"
  proof (rule each_inv [where I = ?I])
    show "?I ?due s" using ok unfolding z by simp
  next
    fix u assume i: "?I [] u"
    show "(q = 0 \<or> \<not> wake_of u q \<le> system_ticks u) \<and> ?I [] u"
    proof (cases ?rest)
      case (Cons v vs)
      have "v \<in> set ?rest" unfolding Cons by simp
      then have "\<not> wake_of s v \<le> ?w" by simp
      then show ?thesis using i Cons by (simp add: q_def)
    qed (use i in \<open>simp add: q_def\<close>)
  next
    fix x ys u assume i: "?I (x # ys) u"
    then have ch: "sleepers u (x # ys @ ?rest)" and x: "x \<in> set ?due" by (auto simp: sleep_ok_def)
    obtain u' where u': "wake_first x u = Some u'" "sleep_head u' = sleep_link u x" "system_ticks u' = system_ticks u"
      "thread_at u' = (thread_at u)(x := awake (thread_at u x))" using wake_first_exact [of x u] ch by (auto simp: chain_Cons)
    have "sleep_link u x = (case ys of [] \<Rightarrow> q | y # _ \<Rightarrow> y)"
      using ch by (auto simp: q_def chain_Cons split: list.splits)
    moreover have "x \<noteq> 0" "wake_of u x \<le> system_ticks u" "x \<notin> set ys" using i ch x by (auto simp: chain_Cons)
    moreover have "sleep_ok u' (ys @ ?rest)" using sleep_ok_pop [of u x "ys @ ?rest" u'] i u'(2,4) by simp
    moreover have "thread_at u' = (\<lambda>t. if t \<in> set ?due - set ys then awake (thread_at s t) else thread_at s t)"
      using i x \<open>x \<notin> set ys\<close> by (auto simp: u'(4) fun_eq_iff)
    ultimately have "?I ys u'" "\<not> (x = 0 \<or> \<not> wake_of u x \<le> system_ticks u)" "sleep_link u x = (case ys of [] \<Rightarrow> q | y # _ \<Rightarrow> y)"
      using i u'(3) by simp_all
    then show "((x = 0 \<or> \<not> wake_of u x \<le> system_ticks u) \<and> ?I [] u) \<or>
      (\<not> (x = 0 \<or> \<not> wake_of u x \<le> system_ticks u) \<and> sleep_link u x = (case ys of [] \<Rightarrow> q | y # _ \<Rightarrow> y) \<and> (\<exists>s'. wake_first x u = Some s' \<and> ?I ys s'))"
      using u'(1) by blast
  qed
  then obtain s' where "timer_wake_sleepers s = Some s'" "?I [] s'" unfolding timer_wake_sleepers_def hd by blast
  then show ?thesis using mem by (intro exI [of _ s']) auto
qed

lemma cancel_exact:
  assumes ok: "sleep_ok s zs"
  shows "\<exists>s'. timer_cancel_thread_sleep t s = Some s' \<and> sleep_ok s' (removeAll t zs)"
proof (cases "t = 0 \<or> \<not> sleeping (thread_at s t)")
  case True
  then have "t \<notin> set zs" using sleep_ok_member [OF ok, of t] by auto
  then show ?thesis using True ok by (auto simp: timer_cancel_thread_sleep_def removeAll_id)
next
  case False
  then have t: "t \<in> set zs" "t \<noteq> 0" using sleep_ok_member [OF ok, of t] by auto
  then obtain ys us where z: "zs = ys @ t # us" by (meson split_list)
  have ch: "sleepers s (ys @ t # us)" using ok z by (simp add: sleep_ok_def)
  then have ns: "t \<notin> set (ys @ us)" by (auto simp: chain_def)
  define s1 where "s1 = set_link set_sleep_head set_sleep_next (last (0 # ys)) (sleep_link s t) s"
  define s2 where "s2 = upd_thread t (\<lambda>x. x\<lparr>sleep_next := 0, sleeping := False\<rparr>) s1"
  have "timer_cancel_thread_sleep t s = Some s2"
    using False sleepq.unlink_found(1) [OF ch] by (simp add: timer_cancel_thread_sleep_def sleep_unlink_locked_def s1_def s2_def)
  moreover have "sleepers s2 (ys @ us)"
  proof -
    have "sleepers s1 (ys @ us)" unfolding s1_def by (rule sleepq.unlink_found(2) [OF ch])
    moreover have "sleep_link s2 = (sleep_link s1)(t := 0)" "sleep_head s2 = sleep_head s1" by (auto simp: s2_def fun_eq_iff)
    ultimately show ?thesis using ns by (simp add: chain_upd_other)
  qed
  moreover have f: "wake_of s2 u = wake_of s u" "sleeping (thread_at s2 u) = (u \<noteq> t \<and> sleeping (thread_at s u))" for u
    by (simp_all add: s2_def s1_def set_link_def set_sleep_head_def set_sleep_next_def)
  moreover have "removeAll t zs = ys @ us" using z ns by simp
  moreover have "u \<in> set (ys @ us) \<longleftrightarrow> u \<noteq> 0 \<and> sleeping (thread_at s2 u)" for u
    using sleep_ok_member [OF ok, of u] z ns f(2) by (cases "u = t") auto
  moreover have "sorted (map (wake_of s) (ys @ us))" using ok z by (auto simp: sleep_ok_def sorted_append)
  ultimately show ?thesis by (simp add: sleep_ok_def)
qed

section \<open>Sleeping through clock ticks\<close>

text \<open>
  What happens between two clock ticks: the other threads may join and leave the queue as long as
  it stays in order, and the sleeping thread is left alone.
\<close>

definition meanwhile :: "u64 \<Rightarrow> kern \<Rightarrow> kern \<Rightarrow> bool" where
  "meanwhile t s s' \<longleftrightarrow> (\<exists>zs. sleep_ok s' zs) \<and> system_ticks s' = system_ticks s \<and>
     sleeping (thread_at s' t) = sleeping (thread_at s t) \<and> wake_of s' t = wake_of s t \<and> status (thread_at s' t) = status (thread_at s t)"

inductive clock_run :: "u64 \<Rightarrow> nat \<Rightarrow> kern \<Rightarrow> kern \<Rightarrow> bool" for t where
  start: "meanwhile t s u \<Longrightarrow> clock_run t 0 s u"
| tick: "clock_run t k s u \<Longrightarrow> timer_wake_sleepers (u\<lparr>system_ticks := system_ticks u + 1\<rparr>) = Some v \<Longrightarrow> meanwhile t v w \<Longrightarrow>
    clock_run t (Suc k) s w"

lemma clock_run_asleep:
  assumes "clock_run t k s w" and "t \<noteq> 0" "sleeping (thread_at s t)" "status (thread_at s t) = TASK_BLOCKED"
    and "unat (wake_of s t) = unat (system_ticks s) + m" and "k \<le> m" "0 < m"
  shows "(\<exists>zs. sleep_ok w zs) \<and> unat (system_ticks w) = unat (system_ticks s) + k \<and>
    (if k < m then sleeping (thread_at w t) \<and> wake_of w t = wake_of s t \<and> status (thread_at w t) = TASK_BLOCKED
     else \<not> sleeping (thread_at w t) \<and> status (thread_at w t) \<noteq> TASK_BLOCKED)"
  using assms
proof (induction rule: clock_run.induct)
  case (start s u)
  then show ?case by (simp add: meanwhile_def)
next
  case (tick k s u v w)
  let ?u = "u\<lparr>system_ticks := system_ticks u + 1\<rparr>"
  have ih: "\<exists>zs. sleep_ok u zs" "unat (system_ticks u) = unat (system_ticks s) + k" "sleeping (thread_at u t)"
    "wake_of u t = wake_of s t" "status (thread_at u t) = TASK_BLOCKED" using tick by auto
  then obtain zs where zs: "sleep_ok ?u zs" by (auto simp: sleep_ok_def)
  have "unat (system_ticks u) + 1 < 2 ^ 64" using ih(2) tick.prems(4,5) unat_u64_less [of "wake_of s t"] by simp
  then have n: "unat (system_ticks u + 1) = unat (system_ticks s) + Suc k" using ih(2) unat_add_no_wrap [of "system_ticks u" 1] by simp
  have v: "system_ticks v = system_ticks u + 1"
    "thread_at v t = (if wake_of s t \<le> system_ticks u + 1 then awake (thread_at u t) else thread_at u t)"
    using wake_exact [OF zs] tick.hyps(2) tick.prems(1) ih(3,4) by auto
  moreover have "wake_of s t \<le> system_ticks u + 1 \<longleftrightarrow> m \<le> Suc k" using n tick.prems(4) by (simp add: word_le_nat_alt)
  ultimately show ?case using tick.hyps(3) tick.prems(5) n ih(3-5) by (auto simp: meanwhile_def)
qed

lemma clock_run_exists: "sleep_ok s zs \<Longrightarrow> \<exists>w ws. clock_run t k s w \<and> sleep_ok w ws"
proof (induction k)
  case 0
  then have "meanwhile t s s" by (auto simp: meanwhile_def)
  then show ?case using 0 clock_run.start by blast
next
  case (Suc k)
  then obtain w ws where w: "clock_run t k s w" "sleep_ok w ws" by blast
  then have "sleep_ok (w\<lparr>system_ticks := system_ticks w + 1\<rparr>) ws" by (simp add: sleep_ok_def)
  then obtain v vs where v: "timer_wake_sleepers (w\<lparr>system_ticks := system_ticks w + 1\<rparr>) = Some v" "sleep_ok v vs" using wake_exact by blast
  then have "meanwhile t v v" by (auto simp: meanwhile_def)
  then show ?case using clock_run.tick [OF w(1) v(1)] v(2) by blast
qed

lemma sleep_ok_status: "sleep_ok s zs \<Longrightarrow> sleep_ok (set_status t x s) zs"
proof -
  assume a: "sleep_ok s zs"
  have "sleep_link (set_status t x s) = sleep_link s" "wake_of (set_status t x s) = wake_of s" by (auto simp: set_status_def fun_eq_iff)
  moreover have "sleeping (thread_at (set_status t x s) u) = sleeping (thread_at s u)" "sleep_head (set_status t x s) = sleep_head s" for u
    by (auto simp: set_status_def)
  ultimately show ?thesis using a by (simp add: sleep_ok_def)
qed

section \<open>Properties\<close>



end
