(* ===== verification/Futex.thy ===== *)
theory Futex
  imports Scheduler
begin

text \<open>
  Futexes (kernel/futex.c): threads wait on a user address in one of 64 buckets, which are doubly
  linked lists of threads.  Each section under the bucket lock is one step.
\<close>

definition FUTEX_BUCKET_COUNT :: nat where "FUTEX_BUCKET_COUNT = 64"
definition FUTEX_ERR_INVAL :: int where "FUTEX_ERR_INVAL = -1"
definition FUTEX_ERR_AGAIN :: int where "FUTEX_ERR_AGAIN = -2"
definition FUTEX_ERR_INTR :: int where "FUTEX_ERR_INTR = -4"

definition futex_hash :: "u64 \<Rightarrow> u64 \<Rightarrow> u32" where
  "futex_hash p address =
     (let v = ((p XOR drop_bit 12 address) XOR drop_bit 27 address) * 0x9E3779B185EBCA87
      in ucast (drop_bit 32 v) AND 63)"

definition valid_address :: "u64 \<Rightarrow> u64 \<Rightarrow> kern \<Rightarrow> bool option" where
  "valid_address p address s =
     (if p \<noteq> 0 \<and> p \<noteq> kernel_process s \<and> address AND 3 = 0 \<and> cr3_paddr (process_at s p) \<noteq> 0
      then user_range_is_writable (cr3_paddr (process_at s p)) address 4 s else Some False)"

definition set_bucket :: "nat \<Rightarrow> u64 \<Rightarrow> kern \<Rightarrow> kern" where
  "set_bucket i t s = s\<lparr>futex_head := (futex_head s)(i := t)\<rparr>"

definition unlink_waiter_locked :: "nat \<Rightarrow> u64 \<Rightarrow> kern \<Rightarrow> kern" where
  "unlink_waiter_locked i t s =
     (let x = thread_at s t;
          s1 = (if futex_prev x \<noteq> 0 then upd_thread (futex_prev x) (futex_next_update (\<lambda>_. futex_next x)) s
                else if futex_head s i = t then set_bucket i (futex_next x) s else s);
          y = thread_at s1 t;
          s2 = (if futex_next y \<noteq> 0 then upd_thread (futex_next y) (futex_prev_update (\<lambda>_. futex_prev y)) s1 else s1);
          s3 = upd_thread t (\<lambda>x. x\<lparr>futex_prev := 0, futex_next := 0, futex_waiting := False\<rparr>) s2
      in if waiter_count s3 \<noteq> 0 then s3\<lparr>waiter_count := waiter_count s3 - 1\<rparr> else s3)"

definition enqueue_waiter_locked :: "nat \<Rightarrow> u64 \<Rightarrow> u64 \<Rightarrow> u64 \<Rightarrow> kern \<Rightarrow> kern" where
  "enqueue_waiter_locked i t p address s =
     (let s1 = upd_thread t (\<lambda>x. x\<lparr>futex_waiting := True, futex_bucket := of_nat i, futex_process := p,
                                  futex_uaddr := address, futex_prev := 0, futex_next := futex_head s i\<rparr>) s;
          s2 = (if futex_head s1 i \<noteq> 0 then upd_thread (futex_head s1 i) (futex_prev_update (\<lambda>_. t)) s1 else s1)
      in (set_bucket i t s2)\<lparr>waiter_count := waiter_count s2 + 1\<rparr>)"

definition futex_init :: "kern \<Rightarrow> kern" where
  "futex_init s = fold (\<lambda>i. set_bucket i 0) [0..<FUTEX_BUCKET_COUNT] (s\<lparr>waiter_count := 0\<rparr>)"

text \<open>The 32-bit value at a user address of the active address space.\<close>

definition load_user_u32 :: "u64 \<Rightarrow> kern \<Rightarrow> u32 option option" where
  "load_user_u32 address s =
     do {
       (r, bs) \<leftarrow> copy_from_user False (cpu_cr3 (the_cpu s)) address 4 s;
       Some (if r \<noteq> 0 then None
             else Some (ucast (bs ! 0) OR push_bit 8 (ucast (bs ! 1)) OR push_bit 16 (ucast (bs ! 2)) OR push_bit 24 (ucast (bs ! 3))))
     }"

text \<open>
  \<^verbatim>\<open>futex_wait\<close> up to the call of \<^verbatim>\<open>thread_block\<close>: \<open>Some r\<close> when it returns \<open>r\<close> at once, \<open>None\<close> when
  the thread has joined the bucket.
\<close>

definition futex_wait_section :: "u64 \<Rightarrow> u64 \<Rightarrow> u32 \<Rightarrow> kern \<Rightarrow> (int option \<times> kern) option" where
  "futex_wait_section p address expected s =
     (let cur = current_thread s in
      if cur = 0 \<or> thread_process (thread_at s cur) \<noteq> p then Some (Some FUTEX_ERR_INVAL, s)
      else do {
        ok \<leftarrow> valid_address p address s;
        if \<not> ok \<or> exit_requested (process_at s p) then Some (Some FUTEX_ERR_INVAL, s)
        else do {
          actual \<leftarrow> load_user_u32 address s;
          case actual of
            None \<Rightarrow> Some (Some FUTEX_ERR_INVAL, s)
          | Some v \<Rightarrow>
              if v \<noteq> expected then Some (Some FUTEX_ERR_AGAIN, s)
              else
                let s1 = upd_thread cur (\<lambda>x. x\<lparr>futex_result := 0, status := TASK_BLOCKED\<rparr>) s
                in Some (None, enqueue_waiter_locked (unat (futex_hash p address)) cur p address s1)
        }
      })"

definition futex_wait :: "u64 \<Rightarrow> u64 \<Rightarrow> u32 \<Rightarrow> kern \<Rightarrow> (int option \<times> kern) option" where
  "futex_wait p address expected s =
     do {
       (r, s1) \<leftarrow> futex_wait_section p address expected s;
       case r of Some v \<Rightarrow> Some (Some v, s1) | None \<Rightarrow> do { s2 \<leftarrow> thread_block s1; Some (None, s2) }
     }"

definition futex_wait_resumed :: "kern \<Rightarrow> int" where
  "futex_wait_resumed s = futex_result (thread_at s (current_thread s))"

text \<open>One waiter leaves its bucket with a result.\<close>

definition wake_waiter :: "nat \<Rightarrow> int \<Rightarrow> u64 \<Rightarrow> kern \<Rightarrow> kern" where
  "wake_waiter i result t s =
     thread_unblock t (upd_thread t (futex_result_update (\<lambda>_. result)) (unlink_waiter_locked i t s))"

definition wake_if_waiting :: "nat \<Rightarrow> u64 \<Rightarrow> u64 \<Rightarrow> u64 \<Rightarrow> nat \<times> kern \<Rightarrow> (nat \<times> kern) option" where
  "wake_if_waiting i p address t = (\<lambda>(woke, s).
     Some (if futex_process (thread_at s t) = p \<and> futex_uaddr (thread_at s t) = address
           then (Suc woke, wake_waiter i 0 t s) else (woke, s)))"

definition futex_wake :: "u64 \<Rightarrow> u64 \<Rightarrow> u32 \<Rightarrow> kern \<Rightarrow> (int \<times> kern) option" where
  "futex_wake p address count s =
     do {
       ok \<leftarrow> valid_address p address s;
       if \<not> ok then Some (FUTEX_ERR_INVAL, s)
       else if count = 0 then Some (0, s)
       else do {
         let i = unat (futex_hash p address);
         (woke, s1) \<leftarrow> each (\<lambda>(_, s) t. futex_next (thread_at s t)) (\<lambda>t (woke, _). t = 0 \<or> \<not> woke < unat count)
                          (wake_if_waiting i p address) (futex_head s i) (0, s);
         Some (int woke, if woke \<noteq> 0 then thread_request_reschedule s1 else s1)
       }
     }"

definition futex_cancel_thread :: "u64 \<Rightarrow> int \<Rightarrow> kern \<Rightarrow> kern" where
  "futex_cancel_thread t result s =
     (if t = 0 \<or> \<not> futex_waiting (thread_at s t) then s
      else wake_waiter (unat (futex_bucket (thread_at s t))) result t s)"

definition cancel_in_bucket :: "u64 \<Rightarrow> int \<Rightarrow> nat \<Rightarrow> kern \<Rightarrow> kern option" where
  "cancel_in_bucket p result i s =
     each (\<lambda>s t. futex_next (thread_at s t)) (\<lambda>t _. t = 0)
       (\<lambda>t s. Some (if futex_process (thread_at s t) = p then wake_waiter i result t s else s)) (futex_head s i) s"

definition futex_cancel_process :: "u64 \<Rightarrow> int \<Rightarrow> kern \<Rightarrow> kern option" where
  "futex_cancel_process p result s =
     (if p = 0 then Some s else foldo (cancel_in_bucket p result) [0..<FUTEX_BUCKET_COUNT] s)"

record futex_stats =
  fst_buckets :: nat
  fst_waiters :: u32
  fst_nonempty :: nat

definition futex_get_stats :: "kern \<Rightarrow> futex_stats" where
  "futex_get_stats s =
     \<lparr>fst_buckets = FUTEX_BUCKET_COUNT, fst_waiters = waiter_count s,
      fst_nonempty = fold (\<lambda>i n. if futex_head s i \<noteq> 0 then n + 1 else n) [0..<FUTEX_BUCKET_COUNT] 0\<rparr>"

end
