(* ===== verification/Lifecycle.thy ===== *)
theory Lifecycle
  imports Ipc Futex Files
begin

text \<open>
  The end of threads and processes and their duplication (kernel/process.c and kernel/thread.c):
  termination requests, waiting for children, exit, and \<^verbatim>\<open>fork\<close> with its copy of the address space.
  A function that ends in a switch gives the state after the switch.
\<close>

section \<open>The foreground process of the terminal\<close>

definition tty_set_foreground_pid :: "u32 \<Rightarrow> kern \<Rightarrow> kern" where
  "tty_set_foreground_pid n s = (if tty_initialized s then s\<lparr>foreground_pid := n\<rparr> else s)"

definition tty_get_foreground_pid :: "kern \<Rightarrow> u32" where
  "tty_get_foreground_pid s = (if tty_initialized s then foreground_pid s else 0)"

section \<open>Termination requests\<close>

definition interrupt_thread :: "u64 \<Rightarrow> kern \<Rightarrow> kern option" where
  "interrupt_thread t s =
     do {
       s1 \<leftarrow> timer_cancel_thread_sleep t s;
       s2 \<leftarrow> ipc_abort_thread t s1;
       Some (if status (thread_at s2 t) = TASK_BLOCKED then thread_unblock t s2 else s2)
     }"

definition request_process_termination :: "u32 \<Rightarrow> int \<Rightarrow> bool \<Rightarrow> kern \<Rightarrow> (int \<times> kern) option" where
  "request_process_termination n st reject_current s =
     do {
       p \<leftarrow> process_find_by_pid n s;
       if p = 0 \<or> p = kernel_process s \<or> proc_state (process_at s p) \<noteq> PROCESS_RUNNING \<or>
          (reject_current \<and> p = process_current s) then Some (-1, s)
       else do {
         s1 \<leftarrow> futex_cancel_process p FUTEX_ERR_INTR
                 (upd_process p (\<lambda>x. x\<lparr>exit_requested := True, kill_status := st\<rparr>) s);
         s2 \<leftarrow> each (\<lambda>s t. process_next (thread_at s t)) (\<lambda>t _. t = 0) interrupt_thread (thread_head (process_at s1 p)) s1;
         Some (0, thread_request_reschedule s2)
       }
     }"

definition process_request_kill :: "u32 \<Rightarrow> int \<Rightarrow> kern \<Rightarrow> (int \<times> kern) option" where
  "process_request_kill n st = request_process_termination n st True"

definition process_request_terminal_signal :: "u32 \<Rightarrow> int \<Rightarrow> kern \<Rightarrow> (int \<times> kern) option" where
  "process_request_terminal_signal n st = request_process_termination n st False"

section \<open>Waiting for a child\<close>

text \<open>
  One round of \<^verbatim>\<open>process_wait\<close>: the result and the exit status of a child that was reaped, or \<open>None\<close>
  when the caller has blocked; it then clears the foreground process and starts over.
\<close>

definition process_wait_round :: "u32 \<Rightarrow> u32 \<Rightarrow> kern \<Rightarrow> ((int \<times> int option) option \<times> kern) option" where
  "process_wait_round n options s =
     do {
       let par = process_current s;
       let controls_terminal = (par \<noteq> 0 \<and> terminal_controller (process_at s par));
       child \<leftarrow> find_child n s;
       if child = 0 then Some (Some (-1, None), s)
       else if proc_state (process_at s child) = PROCESS_ZOMBIE then do {
         let x = process_at s child;
         s1 \<leftarrow> reap_process child (upd_process child (exit_waited_update (\<lambda>_. True)) s);
         Some (Some (sint (pid x), Some (proc_exit_status x)), s1)
       }
       else if options AND 1 \<noteq> 0 then Some (Some (0, None), s)
       else do {
         s1 \<leftarrow> thread_block (if controls_terminal then tty_set_foreground_pid (pid (process_at s child)) s else s);
         Some (None, s1)
       }
     }"

definition process_wait_resumed :: "kern \<Rightarrow> kern" where
  "process_wait_resumed s =
     (let par = process_current s in
      if par \<noteq> 0 \<and> terminal_controller (process_at s par) then tty_set_foreground_pid 0 s else s)"

section \<open>Exit\<close>

definition disown_child :: "u64 \<Rightarrow> u64 \<Rightarrow> kern \<Rightarrow> kern option" where
  "disown_child p child s =
     Some (upd_process child (\<lambda>x. x\<lparr>parent := 0, sibling_next := 0\<rparr>)
             (set_child_head p (sibling_next (process_at s child)) s))"

definition reparent_children :: "u64 \<Rightarrow> kern \<Rightarrow> kern option" where
  "reparent_children p s =
     (if p = 0 then Some s
      else each (\<lambda>s c. sibling_next (process_at s c)) (\<lambda>c _. c = 0) (disown_child p) (child_head (process_at s p)) s)"

definition process_close_files :: "u64 \<Rightarrow> kern \<Rightarrow> kern option" where
  "process_close_files p s =
     (if p = 0 then Some s
      else
        let objects = filter (\<lambda>f. f \<noteq> 0) (stdio (process_at s p) @ files (process_at s p));
            s1 = upd_process p (\<lambda>x. x\<lparr>stdio := map (\<lambda>_. 0) (stdio x), files := map (\<lambda>_. 0) (files x)\<rparr>) s
        in foldo file_release objects s1)"

definition ended :: "thread_lifecycle \<Rightarrow> thread_lifecycle" where
  "ended l = (if l = THREAD_DETACHED_RUNNING then THREAD_DETACHED_ZOMBIE else THREAD_JOINABLE_ZOMBIE)"

definition discard_other_thread :: "u64 \<Rightarrow> kern \<Rightarrow> kern option" where
  "discard_other_thread victim s =
     (if victim = current_thread s then Some s
      else do {
        s1 \<leftarrow> ipc_abort_thread victim s;
        s2 \<leftarrow> thread_remove_from_scheduler victim s1;
        thread_free_object victim (set_status victim TASK_DEAD s2)
      })"

text \<open>The end of a thread that is not the last of its process, up to its first \<^verbatim>\<open>thread_yield\<close>.\<close>

definition thread_end :: "int \<Rightarrow> kern \<Rightarrow> kern option" where
  "thread_end st s =
     do {
       let cur = current_thread s;
       s1 \<leftarrow> ipc_abort_current (cli (futex_cancel_thread cur FUTEX_ERR_INTR s));
       let s2 = upd_thread cur (\<lambda>x. x\<lparr>exit_status := st, status := TASK_ZOMBIE, lifecycle := ended (lifecycle x)\<rparr>) s1;
       let waiter = join_waiter (thread_at s2 cur);
       thread_yield (if waiter \<noteq> 0 then thread_unblock waiter s2 else s2)
     }"

text \<open>
  \<^verbatim>\<open>process_exit\<close> up to its first \<^verbatim>\<open>thread_yield\<close>.  A thread without a process never gets out of the
  two exit functions, which call each other.
\<close>

definition process_exit :: "int \<Rightarrow> kern \<Rightarrow> kern option" where
  "process_exit st s =
     (let p = process_current s; cur = current_thread s in
      if p = kernel_process s then thread_end 0 s
      else if p = 0 then None
      else do {
        let s1 = upd_process p (exit_requested_update (\<lambda>_. True)) (cli s);
        let s2 = (if tty_get_foreground_pid s1 = pid (process_at s1 p) then tty_set_foreground_pid 0 s1 else s1);
        s3 \<leftarrow> futex_cancel_process p FUTEX_ERR_INTR s2;
        s4 \<leftarrow> ipc_abort_current s3;
        s5 \<leftarrow> each (\<lambda>s t. process_next (thread_at s t)) (\<lambda>t _. t = 0) discard_other_thread (thread_head (process_at s4 p)) s4;
        s6 \<leftarrow> process_close_files p s5;
        s7 \<leftarrow> release_process_address_space p s6;
        let s8 = upd_thread cur (\<lambda>x. x\<lparr>status := TASK_ZOMBIE, lifecycle := ended (lifecycle x)\<rparr>)
                   (upd_process p (\<lambda>x. x\<lparr>proc_exit_status := st, proc_state := PROCESS_ZOMBIE\<rparr>) s7);
        s9 \<leftarrow> reparent_children p s8;
        let par = parent (process_at s9 p);
        let pt = (if par = 0 then 0 else main_thread (process_at s9 par));
        thread_yield (if pt \<noteq> 0 \<and> status (thread_at s9 pt) = TASK_BLOCKED then thread_unblock pt s9 else s9)
      })"

definition thread_exit_with_status :: "int \<Rightarrow> kern \<Rightarrow> kern option" where
  "thread_exit_with_status st s =
     (let cur = current_thread s; p = thread_process (thread_at s cur) in
      if cur = 0 then None
      else do {
        live \<leftarrow> process_live_thread_count p s;
        if p \<noteq> kernel_process s \<and> live \<le> 1 then process_exit st s else thread_end st s
      })"

definition thread_exit :: "kern \<Rightarrow> kern option" where
  "thread_exit = thread_exit_with_status 0"

section \<open>Copying an address space\<close>

definition table_address :: "nat \<Rightarrow> nat \<Rightarrow> nat \<Rightarrow> nat \<Rightarrow> u64" where
  "table_address i j k l =
     push_bit 39 (of_nat i) OR push_bit 30 (of_nat j) OR push_bit 21 (of_nat k) OR push_bit 12 (of_nat l)"

definition child_entry_flags :: "u64 \<Rightarrow> u64" where
  "child_entry_flags entry =
     (let flags = entry AND 0xFFF in if entry AND PTE_RW \<noteq> 0 then (flags AND NOT PTE_RW) OR PTE_COW else flags)"

text \<open>A loop inside another: a return leaves both.\<close>

definition inner :: "loop_ctl \<times> kern \<Rightarrow> loop_ctl \<times> kern" where
  "inner r = (case r of (Return, s) \<Rightarrow> (Return, s) | (_, s) \<Rightarrow> (Continue, s))"

definition clone_entry :: "u64 \<Rightarrow> u64 \<Rightarrow> nat \<Rightarrow> nat \<Rightarrow> nat \<Rightarrow> nat \<Rightarrow> kern \<Rightarrow> loop_ctl \<times> kern" where
  "clone_entry child pt i j k l s =
     (let entry = tbl s pt l in
      if \<not> user_entry entry then (Continue, s)
      else case map_page child (table_address i j k l) (entry AND PTE_ADDR_MASK) (child_entry_flags entry) s of (r, s1) \<Rightarrow>
        if r \<noteq> 0 then (Return, destroy_user_address_space child s1) else (Continue, s1))"

definition clone_pt :: "u64 \<Rightarrow> u64 \<Rightarrow> nat \<Rightarrow> nat \<Rightarrow> nat \<Rightarrow> kern \<Rightarrow> loop_ctl \<times> kern" where
  "clone_pt child pd i j k s =
     (let e = tbl s pd k in
      if e AND PTE_P = 0 \<or> e AND PTE_PS \<noteq> 0 then (Continue, s)
      else inner (for_loop (clone_entry child (e AND PTE_ADDR_MASK) i j k) [0..<512] s))"

definition clone_pd :: "u64 \<Rightarrow> u64 \<Rightarrow> nat \<Rightarrow> nat \<Rightarrow> kern \<Rightarrow> loop_ctl \<times> kern" where
  "clone_pd child pdpt i j s =
     (let e = tbl s pdpt j in
      if e AND PTE_P = 0 \<or> e AND PTE_PS \<noteq> 0 then (Continue, s)
      else inner (for_loop (clone_pt child (e AND PTE_ADDR_MASK) i j) [0..<512] s))"

definition clone_pdpt :: "u64 \<Rightarrow> u64 \<Rightarrow> nat \<Rightarrow> kern \<Rightarrow> loop_ctl \<times> kern" where
  "clone_pdpt child pml4 i s =
     (let e = tbl s pml4 i in
      if e AND PTE_P = 0 then (Continue, s)
      else inner (for_loop (clone_pd child (e AND PTE_ADDR_MASK) i) [0..<512] s))"

text \<open>Write protection of the pages of the parent once the child is complete.\<close>

definition seal_entry :: "u64 \<Rightarrow> nat \<Rightarrow> kern \<Rightarrow> kern" where
  "seal_entry pt l s =
     (let e = tbl s pt l in
      if e AND (PTE_P OR PTE_US OR PTE_RW) \<noteq> PTE_P OR PTE_US OR PTE_RW then s
      else set_tbl pt l ((e AND NOT PTE_RW) OR PTE_COW) s)"

definition seal_pt :: "u64 \<Rightarrow> nat \<Rightarrow> kern \<Rightarrow> kern" where
  "seal_pt pd k s =
     (let e = tbl s pd k in
      if e AND PTE_P = 0 \<or> e AND PTE_PS \<noteq> 0 then s else fold (seal_entry (e AND PTE_ADDR_MASK)) [0..<512] s)"

definition seal_pd :: "u64 \<Rightarrow> nat \<Rightarrow> kern \<Rightarrow> kern" where
  "seal_pd pdpt j s =
     (let e = tbl s pdpt j in
      if e AND PTE_P = 0 \<or> e AND PTE_PS \<noteq> 0 then s else fold (seal_pt (e AND PTE_ADDR_MASK)) [0..<512] s)"

definition seal_pdpt :: "u64 \<Rightarrow> nat \<Rightarrow> kern \<Rightarrow> kern" where
  "seal_pdpt pml4 i s =
     (let e = tbl s pml4 i in if e AND PTE_P = 0 then s else fold (seal_pd (e AND PTE_ADDR_MASK)) [0..<512] s)"

definition clone_user_address_space :: "u64 \<Rightarrow> kern \<Rightarrow> u64 \<times> kern" where
  "clone_user_address_space parent_cr3 s =
     (case create_page_dir s of (child, s1) \<Rightarrow>
        if child = 0 then (0, s1)
        else case for_loop (clone_pdpt child parent_cr3) [0..<256] s1 of
          (Return, s2) \<Rightarrow> (0, s2)
        | (_, s2) \<Rightarrow> (child, fold (seal_pdpt parent_cr3) [0..<256] s2))"

section \<open>Fork\<close>

text \<open>Copying the areas of \<open>p\<close> to \<open>child\<close>; the first component tells whether all were copied.\<close>

definition copy_area :: "u64 \<Rightarrow> u64 \<Rightarrow> bool \<times> kern \<Rightarrow> (bool \<times> kern) option" where
  "copy_area child a = (\<lambda>(ok, s).
     do {
       let x = vma_at s a;
       (r, s1) \<leftarrow> process_add_vma child (vma_start x) (vma_end x) (vma_flags x) (vma_offset x) s;
       Some (r = 0, s1)
     })"

definition copy_areas :: "u64 \<Rightarrow> u64 \<Rightarrow> kern \<Rightarrow> (bool \<times> kern) option" where
  "copy_areas child par s =
     each (\<lambda>(_, s) a. area_next s a) (\<lambda>a (ok, _). a = 0 \<or> \<not> ok) (copy_area child) (vma_head (process_at s par)) (True, s)"

definition share_files :: "u64 \<Rightarrow> u64 \<Rightarrow> kern \<Rightarrow> kern" where
  "share_files child par s =
     (let std = stdio (process_at s par); fl = files (process_at s par);
          s1 = upd_process child (\<lambda>x. x\<lparr>stdio := std, files := fl\<rparr>) s
      in fold file_retain (filter (\<lambda>f. f \<noteq> 0) (std @ fl)) s1)"

definition fork_frame :: "u64 \<Rightarrow> u64 \<Rightarrow> kern \<Rightarrow> kern" where
  "fork_frame t syscall_frame s =
     (let frame = kernel_stack_top (thread_at s t) - 14 * 8;
          words = map (\<lambda>i. kload (syscall_frame + 8 * of_nat i) s) [0..<14];
          s1 = fold (\<lambda>i. kstore (frame + 8 * of_nat i) (words ! i)) [0..<14] s;
          context = frame - sizeof_thread_context
      in upd_thread t (rsp_update (\<lambda>_. context)) (store_context context (syscall_child_return (entries s)) s1))"

definition fork_failed :: "u64 \<Rightarrow> u64 \<Rightarrow> kern \<Rightarrow> (int \<times> kern) option" where
  "fork_failed child cr3 s =
     do {
       s1 \<leftarrow> drop_space cr3 s;
       s2 \<leftarrow> unlink_child child s1;
       s3 \<leftarrow> process_free_vmas child s2;
       s4 \<leftarrow> free_process_object child s3;
       Some (-1, s4)
     }"

definition process_fork :: "u64 \<Rightarrow> kern \<Rightarrow> (int \<times> kern) option" where
  "process_fork syscall_frame s =
     (let par = process_current s; cur = current_thread s in
      if cur = 0 \<or> par = 0 \<or> par = kernel_process s \<or> kernel_stack_top (thread_at s cur) = 0 \<or>
         \<not> process_is_single_threaded par s then Some (-1, s)
      else do {
        s0 \<leftarrow> with_ring s;
        let (cr3, s1) = clone_user_address_space (cr3_paddr (process_at s0 par)) s0;
        if cr3 = 0 then Some (-1, s1)
        else do {
          (child, s2) \<leftarrow> alloc_process s1;
          if child = 0 then do { s3 \<leftarrow> drop_space cr3 s2; Some (-1, s3) }
          else do {
            let px = process_at s2 par;
            let s3 = (upd_process child (\<lambda>x. x\<lparr>pid := next_pid s2, cr3_paddr := cr3,
                        next_thread_tls_top := next_thread_tls_top px, next_mmap_base := next_mmap_base px,
                        cwd_inode := cwd_inode px, cwd_path := cwd_path px\<rparr>) s2)\<lparr>next_pid := next_pid s2 + 1\<rparr>;
            (ok, s4) \<leftarrow> copy_areas child par s3;
            if \<not> ok then fork_failed child cr3 s4
            else do {
              let s5 = share_files child par (link_child child par s4);
              (t, s6) \<leftarrow> thread_alloc_for_process child (priority (thread_at s5 (main_thread (process_at s5 par)))) s5;
              if t = 0 then do { s7 \<leftarrow> process_close_files child s6; fork_failed child cr3 s7 }
              else do {
                let s7 = upd_thread t (\<lambda>x. x\<lparr>user_rsp := thread_current_user_rsp s6,
                           tls_base := tls_base (thread_at s6 (main_thread (process_at s6 par))), tls_paddr := 0\<rparr>)
                           (set_kernel_stack_top t s6);
                s8 \<leftarrow> thread_append t (fork_frame t syscall_frame s7);
                Some (sint (pid (process_at s8 child)), s8)
              }
            }
          }
        }
      })"

end
