(* ===== verification/Keyboard.thy ===== *)
theory Keyboard
  imports Os_Prelude
begin

text \<open>
  The keyboard driver (kernel/keyboard.c): the translation of scan codes with the state of the
  modifier keys, and the ring buffer of events between the interrupt and its reader.  The
  sections under \<^verbatim>\<open>keyboard_lock\<close> are single steps.
\<close>

datatype keyboard_event_type =
  KEYBOARD_EVENT_CHAR | KEYBOARD_EVENT_SWITCH_CONSOLE | KEYBOARD_EVENT_SCROLL_UP | KEYBOARD_EVENT_SCROLL_DOWN |
  KEYBOARD_EVENT_SPECIAL

definition KEY_SPECIAL_LEFT :: u8 where "KEY_SPECIAL_LEFT = 0"
definition KEY_SPECIAL_RIGHT :: u8 where "KEY_SPECIAL_RIGHT = 1"
definition KEY_SPECIAL_HOME :: u8 where "KEY_SPECIAL_HOME = 2"
definition KEY_SPECIAL_END :: u8 where "KEY_SPECIAL_END = 3"
definition KEY_SPECIAL_DELETE :: u8 where "KEY_SPECIAL_DELETE = 4"
definition KEY_SPECIAL_UP :: u8 where "KEY_SPECIAL_UP = 5"
definition KEY_SPECIAL_DOWN :: u8 where "KEY_SPECIAL_DOWN = 6"

record keyboard_event =
  ev_type :: keyboard_event_type
  ev_ch :: u8
  ev_console :: u8
  ev_special :: u8

definition zero_event :: keyboard_event where
  "zero_event = \<lparr>ev_type = KEYBOARD_EVENT_CHAR, ev_ch = 0, ev_console = 0, ev_special = 0\<rparr>"

definition KEYBOARD_QUEUE_SIZE :: u32 where "KEYBOARD_QUEUE_SIZE = 4096"

record keyboard =
  kb_queue :: "nat \<Rightarrow> keyboard_event"
  queue_head :: u32
  queue_tail :: u32
  shift_down :: bool
  caps_lock :: bool
  ctrl_down :: bool
  extended_scancode :: bool

definition keymap_normal :: "u8 list" where
  "keymap_normal =
     [0, 27, 49, 50, 51, 52, 53, 54, 55, 56, 57, 48, 45, 61, 8, 9, 113, 119, 101, 114, 116,
      121, 117, 105, 111, 112, 91, 93, 10, 0, 97, 115, 100, 102, 103, 104, 106, 107, 108,
      59, 39, 96, 0, 92, 122, 120, 99, 118, 98, 110, 109, 44, 46, 47, 0, 42, 0, 32, 0, 0,
      0, 0, 0, 0, 0, 0, 0, 0, 0, 0, 0, 0, 0, 0, 45, 0, 0, 0, 43, 0, 0, 0, 0, 0, 0, 0, 0, 0,
      0, 0]"

definition keymap_shift :: "u8 list" where
  "keymap_shift =
     [0, 27, 33, 64, 35, 36, 37, 94, 38, 42, 40, 41, 95, 43, 8, 9, 81, 87, 69, 82, 84, 89,
      85, 73, 79, 80, 123, 125, 10, 0, 65, 83, 68, 70, 71, 72, 74, 75, 76, 58, 34, 126, 0,
      124, 90, 88, 67, 86, 66, 78, 77, 60, 62, 63, 0, 42, 0, 32, 0, 0, 0, 0, 0, 0, 0, 0, 0,
      0, 0, 0, 0, 0, 0, 0, 45, 0, 0, 0, 43, 0, 0, 0, 0, 0, 0, 0, 0, 0, 0, 0]"

text \<open>The entries that the initialisers of the two tables of 128 characters leave out are 0.\<close>

definition keymap_at :: "u8 list \<Rightarrow> u8 \<Rightarrow> u8" where
  "keymap_at m code = (if unat code < length m then m ! unat code else 0)"

text \<open>The characters that end a line or interrupt a command; they replace the oldest event of a full queue.\<close>

definition line_control :: "u8 \<Rightarrow> bool" where
  "line_control c \<longleftrightarrow> c \<in> {10, 13, 0x03, 0x04, 0x0C, 0x15, 0x17, 0x1A, 0x1C}"

definition enqueue_event :: "keyboard_event \<Rightarrow> keyboard \<Rightarrow> keyboard" where
  "enqueue_event e k =
     (let nxt = (queue_head k + 1) mod KEYBOARD_QUEUE_SIZE in
      if nxt = queue_tail k \<and> (ev_type e \<noteq> KEYBOARD_EVENT_CHAR \<or> \<not> line_control (ev_ch e)) then k
      else let k1 = (if nxt = queue_tail k then k\<lparr>queue_tail := (queue_tail k + 1) mod KEYBOARD_QUEUE_SIZE\<rparr> else k)
        in k1\<lparr>kb_queue := (kb_queue k1)(unat (queue_head k1) := e), queue_head := nxt\<rparr>)"

definition keyboard_init :: "keyboard \<Rightarrow> keyboard" where
  "keyboard_init k =
     k\<lparr>queue_head := 0, queue_tail := 0, shift_down := False, caps_lock := False, ctrl_down := False,
       extended_scancode := False\<rparr>"

definition special_of :: "u8 \<Rightarrow> u8" where
  "special_of code =
     (if code = 0x4B then KEY_SPECIAL_LEFT
      else if code = 0x4D then KEY_SPECIAL_RIGHT
      else if code = 0x47 then KEY_SPECIAL_HOME
      else if code = 0x4F then KEY_SPECIAL_END
      else if code = 0x53 then KEY_SPECIAL_DELETE
      else if code = 0x48 then KEY_SPECIAL_UP
      else if code = 0x50 then KEY_SPECIAL_DOWN
      else 0xFF)"

text \<open>The second byte of an extended code; releases (bit 7 set) are ignored.\<close>

definition extended_key :: "u8 \<Rightarrow> keyboard \<Rightarrow> keyboard" where
  "extended_key code k =
     (if code AND 0x80 \<noteq> 0 then k
      else if code = 0x49 then enqueue_event (zero_event\<lparr>ev_type := KEYBOARD_EVENT_SCROLL_UP\<rparr>) k
      else if code = 0x51 then enqueue_event (zero_event\<lparr>ev_type := KEYBOARD_EVENT_SCROLL_DOWN\<rparr>) k
      else if special_of code \<noteq> 0xFF
      then enqueue_event (zero_event\<lparr>ev_type := KEYBOARD_EVENT_SPECIAL, ev_special := special_of code\<rparr>) k
      else k)"

definition key_char :: "u8 \<Rightarrow> keyboard \<Rightarrow> u8" where
  "key_char code k =
     (let normal = keymap_at keymap_normal code; shifted = keymap_at keymap_shift code in
      if 97 \<le> normal \<and> normal \<le> 122
      then (if ctrl_down k then normal - 97 + 1
            else if shift_down k \<noteq> caps_lock k then shifted else normal)
      else if ctrl_down k \<and> normal = 92 then 0x1C
      else if shift_down k then shifted else normal)"

definition plain_key :: "u8 \<Rightarrow> keyboard \<Rightarrow> keyboard" where
  "plain_key code k =
     (if 0x3B \<le> code \<and> code \<le> 0x3D
      then enqueue_event (zero_event\<lparr>ev_type := KEYBOARD_EVENT_SWITCH_CONSOLE, ev_console := code - 0x3B\<rparr>) k
      else if keymap_at keymap_normal code \<noteq> 0
      then enqueue_event (zero_event\<lparr>ev_type := KEYBOARD_EVENT_CHAR, ev_ch := key_char code k\<rparr>) k
      else k)"

definition keyboard_handle_scancode :: "u8 \<Rightarrow> keyboard \<Rightarrow> keyboard" where
  "keyboard_handle_scancode code k =
     (if code = 0xE0 then k\<lparr>extended_scancode := True\<rparr>
      else if extended_scancode k then extended_key code (k\<lparr>extended_scancode := False\<rparr>)
      else if code = 0x1D then k\<lparr>ctrl_down := True\<rparr>
      else if code = 0x9D then k\<lparr>ctrl_down := False\<rparr>
      else if code = 0x2A \<or> code = 0x36 then k\<lparr>shift_down := True\<rparr>
      else if code = 0xAA \<or> code = 0xB6 then k\<lparr>shift_down := False\<rparr>
      else if code = 0x3A then k\<lparr>caps_lock := \<not> caps_lock k\<rparr>
      else if code AND 0x80 = 0 then plain_key code k
      else k)"

definition keyboard_pop_event :: "keyboard \<Rightarrow> keyboard_event option \<times> keyboard" where
  "keyboard_pop_event k =
     (if queue_tail k \<noteq> queue_head k
      then (Some (kb_queue k (unat (queue_tail k))), k\<lparr>queue_tail := (queue_tail k + 1) mod KEYBOARD_QUEUE_SIZE\<rparr>)
      else (None, k))"

end
