(* ===== verification/Framebuffer.thy ===== *)
theory Framebuffer
  imports Os_Prelude
begin

text \<open>
  Text on the graphics screen (kernel/qemu_fb.c): glyphs of the console font drawn into a frame
  buffer of 1280 by 720 pixels.  The frame buffer is a store of 32-bit pixels indexed from its
  first pixel, the font a store of bytes.  Finding the device on the PCI bus, setting the mode and
  loading the font file are device and file access and are not part of the model; the state below
  is what they leave behind.
\<close>

section \<open>Geometry\<close>

record tty_geometry =
  columns :: u32
  visible_rows :: u32
  history_rows :: u32
  glyph_width :: u32
  glyph_height :: u32
  origin_x :: u32
  origin_y :: u32

definition FB_WIDTH :: u32 where "FB_WIDTH = 1280"
definition FB_HEIGHT :: u32 where "FB_HEIGHT = 720"
definition FB_MARGIN_X :: u32 where "FB_MARGIN_X = 24"
definition FB_MARGIN_Y :: u32 where "FB_MARGIN_Y = 24"
definition QEMU_FB_MAX_VISIBLE_CELLS :: u32 where "QEMU_FB_MAX_VISIBLE_CELLS = 200 * 60"

record framebuffer =
  font_data :: "nat \<Rightarrow> u8"
  font_headersize :: u32
  font_bytes_per_glyph :: u32
  font_height :: u32
  font_width :: u32
  fb_pixels :: "nat \<Rightarrow> u32"
  framebuffer_active :: bool
  fb_geometry :: tty_geometry
  rendered_cells :: "nat \<Rightarrow> u16"
  rendered_count :: u32
  rendered_cursor :: int
  rendered_valid :: bool

definition rgb :: "u32 list" where
  "rgb =
     [0x300824, 0x2A0810, 0x123012, 0x30300A,
      0x2A0810, 0x281028, 0x0A2A2A, 0xC8C8C8,
      0x707070, 0x5F87FF, 0x5FD75F, 0x5FD7D7,
      0xFF5F5F, 0xD75FD7, 0xFFD75F, 0xF2F2F2]"

section \<open>Clearing and drawing\<close>

definition qemu_fb_clear :: "u32 \<Rightarrow> framebuffer \<Rightarrow> framebuffer" where
  "qemu_fb_clear color f =
     (if \<not> framebuffer_active f then f
      else f\<lparr>fb_pixels := fold (\<lambda>i p. p(i := color)) [0..<unat FB_WIDTH * unat FB_HEIGHT] (fb_pixels f),
             rendered_valid := False, rendered_cursor := -1\<rparr>)"

text \<open>The end of \<^verbatim>\<open>qemu_fb_initialize\<close>, after the mode has been set and the buffer mapped.\<close>

definition fb_geometry_for :: "u32 \<Rightarrow> u32 \<Rightarrow> tty_geometry \<Rightarrow> tty_geometry" where
  "fb_geometry_for width height g =
     (let cols = (FB_WIDTH - 2 * FB_MARGIN_X) div width;
          rows = (FB_HEIGHT - 2 * FB_MARGIN_Y) div height
      in g\<lparr>columns := cols, visible_rows := rows, history_rows := 256, glyph_width := width, glyph_height := height,
           origin_x := (FB_WIDTH - cols * width) div 2, origin_y := (FB_HEIGHT - rows * height) div 2\<rparr>)"

definition fb_start :: "framebuffer \<Rightarrow> bool \<times> framebuffer" where
  "fb_start f =
     (let g = fb_geometry_for (font_width f) (font_height f) (fb_geometry f); f1 = f\<lparr>fb_geometry := g\<rparr> in
      if columns g < 40 \<or> columns g > 200 \<or> visible_rows g < 15 \<or> visible_rows g > 60 then (False, f1)
      else (True, qemu_fb_clear (rgb ! 0) (f1\<lparr>framebuffer_active := True\<rparr>)))"

definition qemu_fb_geometry :: "framebuffer \<Rightarrow> tty_geometry option" where
  "qemu_fb_geometry f = (if framebuffer_active f then Some (fb_geometry f) else None)"

text \<open>The pixel of a glyph row at position \<open>x\<close>, and the colours of a cell.\<close>

definition glyph_bit :: "framebuffer \<Rightarrow> u8 \<Rightarrow> u32 \<Rightarrow> u32 \<Rightarrow> bool" where
  "glyph_bit f ch y x \<longleftrightarrow>
     font_data f (unat (font_headersize f) + unat (ucast ch * font_bytes_per_glyph f) + unat (y * 2 + x div 8))
       AND drop_bit (unat (x AND 7)) 0x80 \<noteq> 0"

definition cell_colour :: "framebuffer \<Rightarrow> u16 \<Rightarrow> bool \<Rightarrow> u32 \<Rightarrow> u32 \<Rightarrow> u32" where
  "cell_colour f cell cur y x =
     (let ch = ucast cell :: u8; attr = ucast (drop_bit 8 cell) :: u8;
          fg = rgb ! unat (attr AND 15); bg = rgb ! unat (drop_bit 4 attr)
      in if cur then (if glyph_bit f ch y x then bg else fg) else (if glyph_bit f ch y x then fg else bg))"

definition pixel_index :: "framebuffer \<Rightarrow> u32 \<Rightarrow> u32 \<Rightarrow> u32 \<Rightarrow> u32 \<Rightarrow> nat" where
  "pixel_index f cell_x cell_y y x =
     unat ((origin_y (fb_geometry f) + cell_y * font_height f + y) * FB_WIDTH) +
     unat (origin_x (fb_geometry f)) + unat (cell_x * font_width f) + unat x"

definition render_cell :: "u32 \<Rightarrow> u32 \<Rightarrow> u16 \<Rightarrow> bool \<Rightarrow> framebuffer \<Rightarrow> framebuffer" where
  "render_cell cell_x cell_y cell cur f =
     fold (\<lambda>y. fold (\<lambda>x f. f\<lparr>fb_pixels := (fb_pixels f)(pixel_index f cell_x cell_y (of_nat y) (of_nat x) :=
                              cell_colour f cell cur (of_nat y) (of_nat x))\<rparr>) [0..<unat (font_width f)])
       [0..<unat (font_height f)] f"

definition cursor_on_screen :: "tty_geometry \<Rightarrow> u32 \<Rightarrow> u32 \<Rightarrow> bool \<Rightarrow> u32" where
  "cursor_on_screen g view_top cursor visible =
     (let row = cursor div columns g in
      if visible \<and> view_top \<le> row \<and> row < view_top + visible_rows g
      then (row - view_top) * columns g + cursor mod columns g
      else columns g * visible_rows g)"

text \<open>
  One round of the loop over the cells of the screen: the cell is drawn only when it, or the cursor
  on it, has changed.  \<open>cells\<close> is the store that the pointer argument points to.
\<close>

definition update_cell :: "(nat \<Rightarrow> u16) \<Rightarrow> u32 \<Rightarrow> u32 \<Rightarrow> u32 \<Rightarrow> u32 \<Rightarrow> nat \<Rightarrow> nat \<Rightarrow> framebuffer \<Rightarrow> framebuffer" where
  "update_cell cells line_count view_top visible_cells cursor_screen row col f =
     (let g = fb_geometry f;
          source = view_top + of_nat row;
          screen = of_nat row * columns g + of_nat col;
          cell = (if source < line_count then cells (unat (source * columns g + of_nat col)) else 0x0F20);
          f1 = (if \<not> rendered_valid f \<or> rendered_count f \<noteq> visible_cells \<or> rendered_cells f (unat screen) \<noteq> cell \<or>
                   sint screen = rendered_cursor f \<or> screen = cursor_screen
                then render_cell (of_nat col) (of_nat row) cell (screen = cursor_screen) f else f)
      in f1\<lparr>rendered_cells := (rendered_cells f1)(unat screen := cell)\<rparr>)"

definition qemu_fb_render_cells :: "(nat \<Rightarrow> u16) \<Rightarrow> u32 \<Rightarrow> u32 \<Rightarrow> u32 \<Rightarrow> bool \<Rightarrow> framebuffer \<Rightarrow> framebuffer" where
  "qemu_fb_render_cells cells line_count view_top cursor cursor_visible f =
     (let g = fb_geometry f; visible_cells = columns g * visible_rows g in
      if \<not> framebuffer_active f \<or> visible_cells = 0 \<or> visible_cells > QEMU_FB_MAX_VISIBLE_CELLS then f
      else let cursor_screen = cursor_on_screen g view_top cursor cursor_visible;
               f1 = fold (\<lambda>row. fold (update_cell cells line_count view_top visible_cells cursor_screen row) [0..<unat (columns g)])
                      [0..<unat (visible_rows g)] f
        in f1\<lparr>rendered_count := visible_cells,
              rendered_cursor := (if cursor_screen < visible_cells then sint cursor_screen else -1),
              rendered_valid := True\<rparr>)"

end
