(* ===== verification/Tty.thy ===== *)
theory Tty
  imports Lifecycle Keyboard Framebuffer
begin

text \<open>
  The terminals (kernel/tty.c): three consoles with a history each, the interpreter of colour
  sequences, the queue of typed characters and the service that reads and writes for user
  programs, and the keyboard interrupt that feeds them (kernel/idt.c).  The cells of all consoles
  lie in one allocation, so a console holds the index of its first cell and all consoles share one
  store of cells.  The VGA text memory is a store of cells of its own.
\<close>

section \<open>Consoles\<close>

definition VGA_WIDTH :: u32 where "VGA_WIDTH = 80"
definition VGA_HEIGHT :: u32 where "VGA_HEIGHT = 25"
definition VGA_DEFAULT_COLOR :: u8 where "VGA_DEFAULT_COLOR = 0x0F"
definition TTY_CONSOLE_COUNT :: nat where "TTY_CONSOLE_COUNT = 3"
definition TTY_INPUT_QUEUE_SIZE :: u32 where "TTY_INPUT_QUEUE_SIZE = 4096"
definition TTY_SERVICE_BUFFER_SIZE :: u64 where "TTY_SERVICE_BUFFER_SIZE = 4096"
definition TTY_ANSI_MAX_SEQUENCE :: u8 where "TTY_ANSI_MAX_SEQUENCE = 32"
definition TTY_MESSAGE_READ_REQUEST :: u32 where "TTY_MESSAGE_READ_REQUEST = 0x54545901"
definition TTY_MESSAGE_READ_REPLY :: u32 where "TTY_MESSAGE_READ_REPLY = 0x54545902"
definition TTY_MESSAGE_WRITE_REQUEST :: u32 where "TTY_MESSAGE_WRITE_REQUEST = 0x54545903"
definition TTY_MESSAGE_WRITE_REPLY :: u32 where "TTY_MESSAGE_WRITE_REPLY = 0x54545904"

datatype tty_ansi_state = TTY_ANSI_NORMAL | TTY_ANSI_ESC | TTY_ANSI_CSI | TTY_ANSI_DISCARD

record tty_console =
  con_cells :: nat
  con_cursor :: u32
  line_count :: u32
  view_top :: u32
  ansi_state :: tty_ansi_state
  ansi_length :: u8
  ansi_fg :: u8
  ansi_bg :: u8
  ansi_bold :: u8
  ansi_sequence :: "u8 list"

type_synonym screen = "(nat \<Rightarrow> u16) \<times> tty_console"

definition tty_history_cells :: "tty_geometry \<Rightarrow> u32" where
  "tty_history_cells g = columns g * history_rows g"

definition cell_of :: "u8 \<Rightarrow> u8 \<Rightarrow> u16" where
  "cell_of color c = push_bit 8 (ucast color) OR ucast c"

definition blank :: u16 where "blank = cell_of VGA_DEFAULT_COLOR 32"

definition console_ansi_reset :: "tty_console \<Rightarrow> tty_console" where
  "console_ansi_reset c =
     c\<lparr>ansi_state := TTY_ANSI_NORMAL, ansi_length := 0, ansi_fg := 0x0F, ansi_bg := 0, ansi_bold := 0\<rparr>"

definition console_clear :: "tty_geometry \<Rightarrow> screen \<Rightarrow> screen" where
  "console_clear g mc =
     (case mc of (m, c) \<Rightarrow>
        (fold (\<lambda>i m. m(con_cells c + i := blank)) [0..<unat (tty_history_cells g)] m,
         console_ansi_reset (c\<lparr>con_cursor := 0, line_count := 1, view_top := 0\<rparr>)))"

definition console_ansi_color :: "tty_console \<Rightarrow> u8" where
  "console_ansi_color c =
     (let fg = ansi_fg c AND 0x07;
          fg1 = (if 8 \<le> ansi_fg c \<or> ansi_bold c \<noteq> 0 then fg OR 0x08 else fg)
      in push_bit 4 (ansi_bg c AND 0x07) OR fg1)"

text \<open>The effect of one parameter of a colour sequence.\<close>

definition sgr_value :: "u32 \<Rightarrow> tty_console \<Rightarrow> tty_console" where
  "sgr_value v c =
     (if v = 0 then c\<lparr>ansi_fg := 0x0F, ansi_bg := 0, ansi_bold := 0\<rparr>
      else if v = 1 then c\<lparr>ansi_bold := 1\<rparr>
      else if 30 \<le> v \<and> v \<le> 37 then c\<lparr>ansi_fg := ucast (v - 30)\<rparr>
      else if 90 \<le> v \<and> v \<le> 97 then c\<lparr>ansi_fg := ucast (v - 90 + 8)\<rparr>
      else if 40 \<le> v \<and> v \<le> 47 then c\<lparr>ansi_bg := ucast (v - 40)\<rparr>
      else c)"

definition sgr_round :: "nat \<Rightarrow> u32 \<times> bool \<times> tty_console \<Rightarrow> loop_ctl \<times> u32 \<times> bool \<times> tty_console" where
  "sgr_round i st =
     (case st of (v, have_value, c) \<Rightarrow>
        let byte = (if i < unat (ansi_length c) then ansi_sequence c ! i else 59) in
        if 48 \<le> byte \<and> byte \<le> 57
        then (if v > 999 then (Return, st) else (Continue, v * 10 + ucast (byte - 48), True, c))
        else if byte \<noteq> 59 then (Return, st)
        else (Continue, 0, False, sgr_value (if have_value then v else 0) c))"

definition console_ansi_apply_sgr :: "tty_console \<Rightarrow> tty_console" where
  "console_ansi_apply_sgr c = snd (snd (snd (for_loop sgr_round [0..<Suc (unat (ansi_length c))] (0, False, c))))"

definition console_ansi_finish :: "u8 \<Rightarrow> tty_console \<Rightarrow> tty_console" where
  "console_ansi_finish byte c =
     (if ansi_state c = TTY_ANSI_ESC then
        (if byte = 91 then c\<lparr>ansi_state := TTY_ANSI_CSI, ansi_length := 0\<rparr>
         else if byte \<noteq> 27 then c\<lparr>ansi_state := TTY_ANSI_NORMAL, ansi_length := 0\<rparr>
         else c)
      else if ansi_state c = TTY_ANSI_DISCARD then
        (if byte = 27 then c\<lparr>ansi_state := TTY_ANSI_ESC\<rparr>
         else if 0x40 \<le> byte \<and> byte \<le> 0x7E then c\<lparr>ansi_state := TTY_ANSI_NORMAL\<rparr>
         else c)
      else if byte = 109 then (console_ansi_apply_sgr c)\<lparr>ansi_state := TTY_ANSI_NORMAL, ansi_length := 0\<rparr>
      else if 0x40 \<le> byte \<and> byte \<le> 0x7E then c\<lparr>ansi_state := TTY_ANSI_NORMAL, ansi_length := 0\<rparr>
      else if 48 \<le> byte \<and> byte \<le> 57 \<or> byte = 59 then
        (if ansi_length c < TTY_ANSI_MAX_SEQUENCE
         then c\<lparr>ansi_sequence := (ansi_sequence c)[unat (ansi_length c) := byte], ansi_length := ansi_length c + 1\<rparr>
         else c\<lparr>ansi_state := TTY_ANSI_DISCARD\<rparr>)
      else c\<lparr>ansi_state := TTY_ANSI_DISCARD\<rparr>)"

text \<open>The copy to lower indices goes forward, as \<^verbatim>\<open>memcpy\<close> of the kernel does.\<close>

definition console_scroll_history :: "tty_geometry \<Rightarrow> screen \<Rightarrow> screen" where
  "console_scroll_history g mc =
     (case mc of (m, c) \<Rightarrow>
        let all_cells = tty_history_cells g;
            kept = unat (all_cells - columns g);
            m1 = fold (\<lambda>i m. m(con_cells c + i := m (con_cells c + unat (columns g) + i))) [0..<kept] m;
            m2 = fold (\<lambda>i m. m(con_cells c + i := blank)) [kept..<unat all_cells] m1;
            c1 = c\<lparr>con_cursor := con_cursor c - columns g\<rparr>
        in (m2, if 1 < line_count c1 then c1\<lparr>line_count := line_count c1 - 1\<rparr> else c1))"

partial_function (option) console_make_cursor_room :: "tty_geometry \<Rightarrow> screen \<Rightarrow> screen option" where
  "console_make_cursor_room g mc =
     (if tty_history_cells g \<le> con_cursor (snd mc) then console_make_cursor_room g (console_scroll_history g mc) else Some mc)"

definition console_update_line_count :: "tty_geometry \<Rightarrow> tty_console \<Rightarrow> tty_console" where
  "console_update_line_count g c =
     (let rows = con_cursor c div columns g + 1;
          rows1 = (if history_rows g < rows then history_rows g else rows)
      in if line_count c < rows1 then c\<lparr>line_count := rows1\<rparr> else c)"

text \<open>The first row of the view that shows the newest lines.\<close>

definition bottom_of :: "tty_geometry \<Rightarrow> tty_console \<Rightarrow> u32" where
  "bottom_of g c = (if visible_rows g < line_count c then line_count c - visible_rows g else 0)"

definition console_follow_bottom :: "tty_geometry \<Rightarrow> tty_console \<Rightarrow> tty_console" where
  "console_follow_bottom g c = c\<lparr>view_top := bottom_of g c\<rparr>"

text \<open>Between the two calls that make room for the cursor.\<close>

definition place_char :: "tty_geometry \<Rightarrow> u8 \<Rightarrow> u8 \<Rightarrow> screen \<Rightarrow> screen" where
  "place_char g ch color mc =
     (case mc of (m, c) \<Rightarrow>
        if ch = 13 then (m, c\<lparr>con_cursor := (con_cursor c div columns g) * columns g\<rparr>)
        else if ch = 10 then (m, c\<lparr>con_cursor := (con_cursor c div columns g + 1) * columns g\<rparr>)
        else if ch = 8 then
          (if 0 < con_cursor c
           then let c1 = c\<lparr>con_cursor := con_cursor c - 1\<rparr> in (m(con_cells c1 + unat (con_cursor c1) := cell_of color 32), c1)
           else (m, c))
        else (m(con_cells c + unat (con_cursor c) := cell_of color ch), c\<lparr>con_cursor := con_cursor c + 1\<rparr>))"

definition console_put_char :: "tty_geometry \<Rightarrow> u8 \<Rightarrow> u8 \<Rightarrow> screen \<Rightarrow> screen option" where
  "console_put_char g ch color mc =
     do {
       mc1 \<leftarrow> console_make_cursor_room g mc;
       mc2 \<leftarrow> console_make_cursor_room g (place_char g ch color mc1);
       Some (fst mc2, console_update_line_count g (snd mc2))
     }"

definition console_put_user_char :: "tty_geometry \<Rightarrow> u8 \<Rightarrow> screen \<Rightarrow> screen option" where
  "console_put_user_char g byte mc =
     (case mc of (m, c) \<Rightarrow>
        if ansi_state c = TTY_ANSI_NORMAL then
          (if byte = 27 then Some (m, c\<lparr>ansi_state := TTY_ANSI_ESC, ansi_length := 0\<rparr>)
           else console_put_char g byte (console_ansi_color c) (m, c))
        else Some (m, console_ansi_finish byte c))"

section \<open>The terminal\<close>

record tty =
  tty_kern :: kern
  tty_cells :: "nat \<Rightarrow> u16"
  consoles :: "tty_console list"
  geometry :: tty_geometry
  active_console :: u32
  input_queue :: "nat \<Rightarrow> u8"
  input_head :: u32
  input_tail :: u32
  tty_input_service_task :: u64
  tty_output_service_task :: u64
  tty_input_reply_buffer :: "nat \<Rightarrow> u8"
  tty_output_request_buffer :: "nat \<Rightarrow> u8"
  vga :: "nat \<Rightarrow> u16"
  hw_cursor :: u16
  fb :: framebuffer

abbreviation initialized :: "tty \<Rightarrow> bool" where
  "initialized t \<equiv> tty_initialized (tty_kern t)"

abbreviation active :: "tty \<Rightarrow> tty_console" where
  "active t \<equiv> consoles t ! unat (active_console t)"

definition set_active :: "tty_console \<Rightarrow> tty \<Rightarrow> tty" where
  "set_active c t = t\<lparr>consoles := (consoles t)[unat (active_console t) := c]\<rparr>"

definition set_screen :: "screen \<Rightarrow> tty \<Rightarrow> tty" where
  "set_screen mc t = set_active (snd mc) (t\<lparr>tty_cells := fst mc\<rparr>)"

definition flush_vga :: "(nat \<Rightarrow> u16) \<Rightarrow> tty_console \<Rightarrow> (nat \<Rightarrow> u16) \<Rightarrow> (nat \<Rightarrow> u16)" where
  "flush_vga m c =
     fold (\<lambda>row. fold (\<lambda>col v. v(unat (of_nat row * VGA_WIDTH + of_nat col) :=
              if view_top c + of_nat row < line_count c
              then m (con_cells c + unat ((view_top c + of_nat row) * VGA_WIDTH + of_nat col)) else blank))
            [0..<unat VGA_WIDTH]) [0..<unat VGA_HEIGHT]"

definition vga_cursor_of :: "tty_geometry \<Rightarrow> tty_console \<Rightarrow> u16" where
  "vga_cursor_of g c =
     (let row = con_cursor c div columns g; col = con_cursor c mod columns g in
      if view_top c \<le> row \<and> row < view_top c + VGA_HEIGHT
      then ucast ((row - view_top c) * VGA_WIDTH + col) else ucast (VGA_WIDTH * VGA_HEIGHT - 1))"

definition flush_active_console :: "tty \<Rightarrow> tty" where
  "flush_active_console t =
     (let g = geometry t;
          c = (if bottom_of g (active t) < view_top (active t) then (active t)\<lparr>view_top := bottom_of g (active t)\<rparr> else active t);
          t1 = set_active c t in
      if framebuffer_active (fb t1)
      then let row = con_cursor c div columns g in
        t1\<lparr>fb := qemu_fb_render_cells (\<lambda>i. tty_cells t1 (con_cells c + i)) (line_count c) (view_top c) (con_cursor c)
                   (view_top c \<le> row \<and> row < view_top c + visible_rows g) (fb t1)\<rparr>
      else t1\<lparr>vga := flush_vga (tty_cells t1) c (vga t1), hw_cursor := vga_cursor_of g c\<rparr>)"

definition console_resume_live_view :: "tty \<Rightarrow> tty" where
  "console_resume_live_view t =
     (if view_top (active t) \<noteq> bottom_of (geometry t) (active t)
      then flush_active_console (set_active ((active t)\<lparr>view_top := bottom_of (geometry t) (active t)\<rparr>) t) else t)"

section \<open>Start-up\<close>

definition start_console :: "nat \<Rightarrow> tty \<Rightarrow> tty" where
  "start_console i t =
     (let c = (consoles t ! i)\<lparr>con_cells := i * unat (tty_history_cells (geometry t))\<rparr>;
          (m, c1) = console_clear (geometry t) (tty_cells t, c)
      in t\<lparr>tty_cells := m, consoles := (consoles t)[i := c1]\<rparr>)"

definition tty_init :: "tty \<Rightarrow> tty" where
  "tty_init t =
     (let bytes = of_nat TTY_CONSOLE_COUNT * ucast (tty_history_cells (geometry t)) * 2 :: u64 in
      if bytes = 0 \<or> bytes > 0xFFFFFFFF then t
      else let (pages, k) = alloc_pages_owned (unat ((bytes + 4096 - 1) div 4096)) PAGE_OWNER_TTY (tty_kern t);
               t1 = t\<lparr>tty_kern := k\<rparr> in
        if pages = 0 then t1
        else let t2 = fold start_console [0..<TTY_CONSOLE_COUNT] t1;
                 t3 = t2\<lparr>tty_cells := fold (\<lambda>i m. m(con_cells (consoles t2 ! 0) + i := vga t2 i))
                                         [0..<unat (VGA_WIDTH * VGA_HEIGHT)] (tty_cells t2)\<rparr>
          in t3\<lparr>consoles := (consoles t3)[0 := (consoles t3 ! 0)\<lparr>con_cursor := ucast (hw_cursor t3), line_count := VGA_HEIGHT, view_top := 0\<rparr>],
                active_console := 0, input_head := 0, input_tail := 0,
                tty_kern := (tty_kern t3)\<lparr>foreground_pid := 0, tty_initialized := True\<rparr>\<rparr>)"

definition tty_clear_active :: "tty \<Rightarrow> tty" where
  "tty_clear_active t =
     (if \<not> initialized t then t
      else flush_active_console (set_screen (console_clear (geometry t) (tty_cells t, active t)) t))"

text \<open>The argument \<open>None\<close> is the null pointer.\<close>

definition tty_use_framebuffer_geometry :: "tty_geometry option \<Rightarrow> tty \<Rightarrow> int \<times> tty" where
  "tty_use_framebuffer_geometry go t =
     (case go of None \<Rightarrow> (-1, t)
      | Some g \<Rightarrow>
          if columns g < 40 \<or> columns g > 200 \<or> visible_rows g < 15 \<or> visible_rows g > 60 \<or>
             history_rows g < visible_rows g \<or> history_rows g > 256 then (-1, t)
          else let t1 = tty_init (t\<lparr>geometry := g, tty_kern := (tty_kern t)\<lparr>tty_initialized := False\<rparr>\<rparr>);
                   t2 = (if initialized t1 then tty_clear_active t1 else t1)
            in (if initialized t2 then 0 else -1, t2))"

section \<open>Output\<close>

text \<open>The characters of a buffer go to the active console through \<open>emit\<close>, which shows the newest lines.\<close>

definition write_active :: "(u8 \<Rightarrow> screen \<Rightarrow> screen option) \<Rightarrow> u8 list \<Rightarrow> tty \<Rightarrow> tty option" where
  "write_active emit bs t =
     do {
       (m, c) \<leftarrow> foldo emit bs (tty_cells t, console_follow_bottom (geometry t) (active t));
       Some (flush_active_console (set_screen (m, console_follow_bottom (geometry t) c) t))
     }"

definition tty_write_colored :: "u8 list \<Rightarrow> u8 \<Rightarrow> tty \<Rightarrow> tty option" where
  "tty_write_colored bs color t =
     (if \<not> initialized t then Some t else write_active (\<lambda>b. console_put_char (geometry t) b color) bs t)"

definition tty_write :: "u8 list \<Rightarrow> tty \<Rightarrow> tty option" where
  "tty_write bs = tty_write_colored bs VGA_DEFAULT_COLOR"

definition tty_write_user :: "u8 list \<Rightarrow> tty \<Rightarrow> tty option" where
  "tty_write_user bs t =
     (if \<not> initialized t then Some t else write_active (console_put_user_char (geometry t)) bs t)"

definition tty_put_char_colored :: "u8 \<Rightarrow> u8 \<Rightarrow> tty \<Rightarrow> tty option" where
  "tty_put_char_colored c color = tty_write_colored [c] color"

definition tty_scroll_active :: "int \<Rightarrow> tty \<Rightarrow> tty" where
  "tty_scroll_active lines t =
     (if \<not> initialized t \<or> lines = 0 then t
      else let c = active t;
               top = max 0 (int (unat (view_top c)) + lines);
               top1 = (if int (unat (bottom_of (geometry t) c)) < top then int (unat (bottom_of (geometry t) c)) else top)
        in flush_active_console (set_active (c\<lparr>view_top := of_int top1\<rparr>) t))"

definition tty_switch :: "u32 \<Rightarrow> tty \<Rightarrow> tty" where
  "tty_switch index t =
     (if \<not> initialized t \<or> of_nat TTY_CONSOLE_COUNT \<le> index then t
      else flush_active_console (t\<lparr>active_console := index\<rparr>))"

section \<open>Input\<close>

definition wake_input_service :: "tty \<Rightarrow> tty" where
  "wake_input_service t =
     (let k = tty_kern t; svc = tty_input_service_task t in
      if svc \<noteq> 0 \<and> status (thread_at k svc) = TASK_BLOCKED then t\<lparr>tty_kern := thread_unblock svc k\<rparr> else t)"

definition tty_input_char :: "u8 \<Rightarrow> tty \<Rightarrow> tty" where
  "tty_input_char c t =
     (if \<not> initialized t then t
      else let t1 = console_resume_live_view t;
               nxt = (input_head t1 + 1) mod TTY_INPUT_QUEUE_SIZE in
        if nxt \<noteq> input_tail t1
        then wake_input_service (t1\<lparr>input_queue := (input_queue t1)(unat (input_head t1) := c), input_head := nxt\<rparr>)
        else if line_control c
        then wake_input_service (t1\<lparr>input_tail := (input_tail t1 + 1) mod TTY_INPUT_QUEUE_SIZE,
                                   input_queue := (input_queue t1)(unat (input_head t1) := c), input_head := nxt\<rparr>)
        else t1)"

definition tty_input_sequence :: "u8 list \<Rightarrow> tty \<Rightarrow> tty" where
  "tty_input_sequence cs t = fold tty_input_char cs t"

definition tty_handle_input_char :: "u8 \<Rightarrow> tty \<Rightarrow> tty option" where
  "tty_handle_input_char c t =
     (if c = 0x03 \<or> c = 0x1C \<or> c = 0x1A then
        (let pid = tty_get_foreground_pid (tty_kern t);
             st = (if c = 0x03 then 130 else if c = 0x1C then 131 else 148) in
         if pid \<noteq> 0 then do {
           (r, k) \<leftarrow> process_request_terminal_signal pid st (tty_kern t);
           let t1 = t\<lparr>tty_kern := k\<rparr>;
           Some (if r = 0 then t1 else tty_input_char c t1)
         }
         else Some (tty_input_char c t))
      else Some (tty_input_char c t))"

definition tty_take_input_char :: "tty \<Rightarrow> u8 option \<times> tty" where
  "tty_take_input_char t =
     (if input_tail t \<noteq> input_head t
      then (Some (input_queue t (unat (input_tail t))), t\<lparr>input_tail := (input_tail t + 1) mod TTY_INPUT_QUEUE_SIZE\<rparr>)
      else (None, t))"

text \<open>
  Taking the characters that have arrived, at most up to \<open>length\<close>: the loops of \<^verbatim>\<open>tty_read\<close> and of the
  input service between two waits.  The result is the number of characters in the buffer.
\<close>

definition take_round :: "nat \<Rightarrow> (nat \<Rightarrow> u8) \<times> nat \<times> tty \<Rightarrow> loop_ctl \<times> (nat \<Rightarrow> u8) \<times> nat \<times> tty" where
  "take_round i st =
     (case st of (buf, _, t) \<Rightarrow>
        case tty_take_input_char t of
          (Some c, t1) \<Rightarrow> (Continue, buf(i := c), Suc i, t1)
        | (None, t1) \<Rightarrow> (Break, st))"

definition take_available :: "nat \<Rightarrow> nat \<Rightarrow> (nat \<Rightarrow> u8) \<Rightarrow> tty \<Rightarrow> (nat \<Rightarrow> u8) \<times> nat \<times> tty" where
  "take_available count len buf t = snd (for_loop take_round [count..<len] (buf, count, t))"

text \<open>\<^verbatim>\<open>tty_read\<close> up to the point where it waits for a key: the result \<open>None\<close> says that it waits.\<close>

definition tty_read :: "u64 \<Rightarrow> (nat \<Rightarrow> u8) \<Rightarrow> tty \<Rightarrow> int option \<times> (nat \<Rightarrow> u8) \<times> tty" where
  "tty_read len buf t =
     (if \<not> initialized t \<or> len = 0 then (Some 0, buf, t)
      else case take_available 0 (unat len) buf t of
        (buf1, n, t1) \<Rightarrow> (if n = 0 then None else Some (int n), buf1, t1))"

section \<open>The terminal services\<close>

text \<open>
  The input service after it received a request for \<open>len\<close> characters.  It waits for the first
  character with interrupts off: the result \<open>None\<close> says that it blocked, and it starts over when it
  is woken.
\<close>

definition serve_read :: "u64 \<Rightarrow> tty \<Rightarrow> (u64 option \<times> tty) option" where
  "serve_read value t =
     (let len = (if value = 0 \<or> value > TTY_SERVICE_BUFFER_SIZE then 1 else value) in
      case tty_take_input_char t of
        (None, t1) \<Rightarrow> do { k \<leftarrow> thread_block (tty_kern t1); Some (None, t1\<lparr>tty_kern := k\<rparr>) }
      | (Some c, t1) \<Rightarrow>
          (case take_available 1 (unat len) ((tty_input_reply_buffer t1)(0 := c)) t1 of
             (buf, n, t2) \<Rightarrow> Some (Some (of_nat n), t2\<lparr>tty_input_reply_buffer := buf\<rparr>)))"

text \<open>Both services answer the process that sent the request, if it still runs.\<close>

definition service_reply :: "u32 \<Rightarrow> message \<Rightarrow> kern \<Rightarrow> kern option" where
  "service_reply client_pid reply k =
     do {
       client \<leftarrow> thread_find_by_pid client_pid k;
       if client \<noteq> 0 \<and> status (thread_at k client) \<noteq> TASK_ZOMBIE \<and> status (thread_at k client) \<noteq> TASK_DEAD
       then do { (_, k1) \<leftarrow> ipc_send client False reply k; Some k1 }
       else Some k
     }"

definition serve_write :: "message \<Rightarrow> tty \<Rightarrow> tty option" where
  "serve_write msg t =
     (if msg_type msg \<noteq> TTY_MESSAGE_WRITE_REQUEST \<or> msg_value msg = 0 then Some t
      else do {
        let len = msg_value msg;
        let valid = len \<noteq> 0 \<and> len \<le> TTY_SERVICE_BUFFER_SIZE;
        t1 \<leftarrow> (if valid then tty_write (map (tty_output_request_buffer t) [0..<unat len]) t else Some t);
        k \<leftarrow> service_reply (source_pid msg) \<lparr>source_pid = 0, msg_type = TTY_MESSAGE_WRITE_REPLY, msg_value = if valid then 0 else -1\<rparr> (tty_kern t1);
        Some (t1\<lparr>tty_kern := k\<rparr>)
      })"

definition tty_service_init :: "u64 \<Rightarrow> u64 \<Rightarrow> tty \<Rightarrow> tty option" where
  "tty_service_init input_main output_main t =
     (if \<not> initialized t then Some t
      else do {
        t1 \<leftarrow> (if tty_input_service_task t = 0 then do {
                 (th, k) \<leftarrow> thread_create input_main 5 (tty_kern t);
                 k1 \<leftarrow> (if th \<noteq> 0 then thread_append th k else Some k);
                 Some (t\<lparr>tty_input_service_task := th, tty_kern := k1\<rparr>) }
               else Some t);
        (if tty_output_service_task t1 = 0 then do {
           (th, k) \<leftarrow> thread_create output_main 5 (tty_kern t1);
           k1 \<leftarrow> (if th \<noteq> 0 then thread_append th k else Some k);
           Some (t1\<lparr>tty_output_service_task := th, tty_kern := k1\<rparr>) }
         else Some t1)
      })"

definition tty_service_write :: "u8 list \<Rightarrow> tty \<Rightarrow> (int \<times> tty) option" where
  "tty_service_write bs t =
     (if \<not> initialized t \<or> bs = [] \<or> unat TTY_SERVICE_BUFFER_SIZE < length bs then Some (-1, t)
      else do { t1 \<leftarrow> tty_write_user bs t; Some (0, t1) })"

text \<open>\<^verbatim>\<open>tty_service_read\<close> before it sends the request, and after it received the reply.\<close>

definition service_read_refused :: "bool \<Rightarrow> u64 \<Rightarrow> tty \<Rightarrow> bool" where
  "service_read_refused buffer_null len t \<longleftrightarrow>
     \<not> initialized t \<or> buffer_null \<or> len = 0 \<or> tty_input_service_task t = 0 \<or>
     status (thread_at (tty_kern t) (tty_input_service_task t)) \<in> {TASK_ZOMBIE, TASK_DEAD} \<or> len > TTY_SERVICE_BUFFER_SIZE"

definition service_read_finish :: "u64 \<Rightarrow> int \<Rightarrow> message \<Rightarrow> tty \<Rightarrow> int \<times> u8 list" where
  "service_read_finish len received reply t =
     (if received \<noteq> 0 \<or> msg_type reply \<noteq> TTY_MESSAGE_READ_REPLY \<or> msg_value reply > len then (-1, [])
      else (sint (ucast (msg_value reply) :: u32), map (tty_input_reply_buffer t) [0..<unat (msg_value reply)]))"

section \<open>The keyboard interrupt\<close>

definition special_sequences :: "u8 list list" where
  "special_sequences =
     [[27, 91, 68], [27, 91, 67], [27, 91, 72], [27, 91, 70], [27, 91, 51, 126], [27, 91, 65], [27, 91, 66]]"

definition handle_event :: "keyboard_event \<Rightarrow> tty \<Rightarrow> tty option" where
  "handle_event e t =
     (case ev_type e of
        KEYBOARD_EVENT_SWITCH_CONSOLE \<Rightarrow> Some (tty_switch (ucast (ev_console e)) t)
      | KEYBOARD_EVENT_SCROLL_UP \<Rightarrow> Some (tty_scroll_active (- sint (visible_rows (geometry t) - 1)) t)
      | KEYBOARD_EVENT_SCROLL_DOWN \<Rightarrow> Some (tty_scroll_active (sint (visible_rows (geometry t) - 1)) t)
      | KEYBOARD_EVENT_SPECIAL \<Rightarrow>
          Some (if unat (ev_special e) < length special_sequences
                then tty_input_sequence (special_sequences ! unat (ev_special e)) t else t)
      | KEYBOARD_EVENT_CHAR \<Rightarrow> tty_handle_input_char (ev_ch e) t)"

partial_function (option) handle_events :: "keyboard \<Rightarrow> tty \<Rightarrow> (keyboard \<times> tty) option" where
  "handle_events k t =
     (case keyboard_pop_event k of
        (None, k1) \<Rightarrow> Some (k1, t)
      | (Some e, k1) \<Rightarrow> (case handle_event e t of None \<Rightarrow> None | Some t1 \<Rightarrow> handle_events k1 t1))"

text \<open>
  The bytes that the controller has ready are \<open>first\<close> and \<open>rest\<close>; one interrupt takes at most 64 of
  them.
\<close>

definition isr33_keyboard :: "u8 \<Rightarrow> u8 list \<Rightarrow> keyboard \<Rightarrow> tty \<Rightarrow> (keyboard \<times> tty) option" where
  "isr33_keyboard first rest k t = handle_events (fold keyboard_handle_scancode (first # take 63 rest) k) t"

end
