(* ===== verification/Fb_Safety.thy ===== *)
theory Fb_Safety
  imports Framebuffer
begin

text \<open>
  Drawing on the graphics screen: updating only the cells that changed gives the same picture as
  drawing the whole screen, and no pixel outside the text grid is written.
\<close>

section \<open>The grid\<close>

lemma fold_rest:
  assumes "I xs s" and "\<And>x ys s. I (x # ys) s \<Longrightarrow> I ys (g x s)"
  shows "I [] (fold g xs s)"
  using assms(1) by (induction xs arbitrary: s) (auto dest: assms(2))

lemma fold_product: "fold (\<lambda>r. fold (g r) cs) rs s = fold (\<lambda>(r, c). g r c) (List.product rs cs) s"
proof (induction rs arbitrary: s)
  case (Cons r rs)
  have "fold (\<lambda>(r, c). g r c) (map (Pair r) cs) s = fold (g r) cs s" for s by (induction cs arbitrary: s) auto
  then show ?case using Cons by simp
qed simp

text \<open>The text grid fits on the screen.\<close>

definition grid_fits :: "framebuffer \<Rightarrow> bool" where
  "grid_fits f \<longleftrightarrow>
     0 < font_width f \<and> 0 < font_height f \<and>
     unat (origin_x (fb_geometry f)) + unat (columns (fb_geometry f)) * unat (font_width f) \<le> 1280 \<and>
     unat (origin_y (fb_geometry f)) + unat (visible_rows (fb_geometry f)) * unat (font_height f) \<le> 720"

abbreviation ncols :: "framebuffer \<Rightarrow> nat" where "ncols f \<equiv> unat (columns (fb_geometry f))"
abbreviation nrows :: "framebuffer \<Rightarrow> nat" where "nrows f \<equiv> unat (visible_rows (fb_geometry f))"
abbreviation gwidth :: "framebuffer \<Rightarrow> nat" where "gwidth f \<equiv> unat (font_width f)"
abbreviation gheight :: "framebuffer \<Rightarrow> nat" where "gheight f \<equiv> unat (font_height f)"

definition pixel :: "framebuffer \<Rightarrow> nat \<Rightarrow> nat \<Rightarrow> nat \<Rightarrow> nat \<Rightarrow> nat" where
  "pixel f row col y x =
     (unat (origin_y (fb_geometry f)) + row * gheight f + y) * 1280 + (unat (origin_x (fb_geometry f)) + col * gwidth f + x)"

lemma cell_bound:
  assumes "(i :: nat) < n" and "j < w"
  shows "i * w + j < n * w"
proof -
  have "i * w + j < Suc i * w" using assms(2) by simp
  also have "\<dots> \<le> n * w" using assms(1) by (intro mult_le_mono1) simp
  finally show ?thesis .
qed

lemma cell_inj:
  assumes "i * w + j = i' * w + j'" and "j < w" "j' < (w :: nat)"
  shows "i = i' \<and> j = j'"
proof -
  have "(i * w + j) div w = (i' * w + j') div w" "(i * w + j) mod w = (i' * w + j') mod w" using assms(1) by simp_all
  then show ?thesis using assms(2,3) by simp
qed

lemma pixel_bounds:
  assumes "grid_fits f" and "row < nrows f" "col < ncols f" "y < gheight f" "x < gwidth f"
  shows "unat (origin_y (fb_geometry f)) + row * gheight f + y < 720" "unat (origin_x (fb_geometry f)) + col * gwidth f + x < 1280"
    "pixel f row col y x < 1280 * 720"
proof -
  show a: "unat (origin_y (fb_geometry f)) + row * gheight f + y < 720"
    using assms(1) cell_bound [OF assms(2,4)] by (simp add: grid_fits_def)
  show b: "unat (origin_x (fb_geometry f)) + col * gwidth f + x < 1280"
    using assms(1) cell_bound [OF assms(3,5)] by (simp add: grid_fits_def)
  show "pixel f row col y x < 1280 * 720" using cell_bound [OF a b] by (simp add: pixel_def)
qed

lemma pixel_inj:
  assumes "grid_fits f" and "row < nrows f" "col < ncols f" "y < gheight f" "x < gwidth f"
    and "row' < nrows f" "col' < ncols f" "y' < gheight f" "x' < gwidth f" and "pixel f row col y x = pixel f row' col' y' x'"
  shows "row = row' \<and> col = col' \<and> y = y' \<and> x = x'"
proof -
  note b = pixel_bounds [OF assms(1-5)] and b' = pixel_bounds [OF assms(1,6-9)]
  have "row * gheight f + y = row' * gheight f + y'" "col * gwidth f + x = col' * gwidth f + x'"
    using cell_inj [OF assms(10) [unfolded pixel_def] b(2) b'(2)] by simp_all
  then show ?thesis using cell_inj [of row "gheight f" y row' y'] cell_inj [of col "gwidth f" x col' x'] assms by simp
qed

lemma pixel_index_nat:
  assumes "grid_fits f" and "row < nrows f" "col < ncols f" "y < gheight f" "x < gwidth f"
  shows "pixel_index f (of_nat col) (of_nat row) (of_nat y) (of_nat x) = pixel f row col y x"
proof -
  note b = pixel_bounds [OF assms]
  let ?g = "fb_geometry f"
  have s: "row * gheight f + y < 720" "col * gwidth f + x < 1280" using b by linarith+
  have u: "n < 1000000 \<Longrightarrow> unat (of_nat n :: u32) = n" for n by (simp add: unat_of_nat)
  have "(origin_y ?g + of_nat row * font_height f + of_nat y) * FB_WIDTH =
      of_nat ((unat (origin_y ?g) + row * gheight f + y) * 1280)"
    "of_nat col * font_width f = (of_nat (col * gwidth f) :: u32)" by (simp_all add: FB_WIDTH_def)
  moreover have "unat (of_nat ((unat (origin_y ?g) + row * gheight f + y) * 1280) :: u32) = (unat (origin_y ?g) + row * gheight f + y) * 1280"
    "unat (of_nat (col * gwidth f) :: u32) = col * gwidth f" "unat (of_nat x :: u32) = x"
    using u [of "(unat (origin_y ?g) + row * gheight f + y) * 1280"] u [of "col * gwidth f"] u [of x] b s by simp_all
  ultimately show ?thesis unfolding pixel_index_def pixel_def by (simp only: add.assoc)
qed

section \<open>Drawing one cell\<close>

definition shown :: "framebuffer \<Rightarrow> nat \<Rightarrow> nat \<Rightarrow> u16 \<Rightarrow> bool \<Rightarrow> bool" where
  "shown f row col cell cur \<longleftrightarrow>
     (\<forall>y < gheight f. \<forall>x < gwidth f. fb_pixels f (pixel f row col y x) = cell_colour f cell cur (of_nat y) (of_nat x))"

text \<open>The device without its pixels: what the place and the colours of a glyph depend on.\<close>

definition board :: "framebuffer \<Rightarrow> framebuffer" where
  "board f = f\<lparr>fb_pixels := \<lambda>_. 0\<rparr>"

lemma board_pixels [simp]: "board (f\<lparr>fb_pixels := p\<rparr>) = board f"
  by (simp add: board_def)

lemma board_fields:
  assumes "board f = board g"
  shows "fb_geometry f = fb_geometry g" "font_width f = font_width g" "font_height f = font_height g"
    "cell_colour f = cell_colour g" "pixel f = pixel g" "pixel_index f = pixel_index g" "grid_fits f = grid_fits g"
    "rendered_cells f = rendered_cells g" "rendered_valid f = rendered_valid g" "rendered_count f = rendered_count g"
    "rendered_cursor f = rendered_cursor g" "framebuffer_active f = framebuffer_active g"
proof -
  have g: "g = f\<lparr>fb_pixels := fb_pixels g\<rparr>" using assms by (cases f; cases g) (simp add: board_def)
  show "fb_geometry f = fb_geometry g" "font_width f = font_width g" "font_height f = font_height g"
    "cell_colour f = cell_colour g" "pixel f = pixel g" "pixel_index f = pixel_index g" "grid_fits f = grid_fits g"
    "rendered_cells f = rendered_cells g" "rendered_valid f = rendered_valid g" "rendered_count f = rendered_count g"
    "rendered_cursor f = rendered_cursor g" "framebuffer_active f = framebuffer_active g"
    by (subst g; simp add: fun_eq_iff cell_colour_def glyph_bit_def pixel_def pixel_index_def grid_fits_def Let_def)+
qed

text \<open>Drawing writes exactly the pixels of the cell.\<close>

lemma render_cell_fold:
  "render_cell cx cy cell cur f =
     fold (\<lambda>(y, x) f. f\<lparr>fb_pixels := (fb_pixels f)(pixel_index f cx cy (of_nat y) (of_nat x) := cell_colour f cell cur (of_nat y) (of_nat x))\<rparr>)
       (List.product [0..<gheight f] [0..<gwidth f]) f"
  unfolding render_cell_def by (simp only: fold_product)

lemma render_cell_exact:
  fixes cell :: u16 and cur :: bool
  assumes fits: "grid_fits f" and row: "row < nrows f" and col: "col < ncols f"
  defines "f' \<equiv> render_cell (of_nat col) (of_nat row) cell cur f"
  shows "board f' = board f" "shown f' row col cell cur"
    "\<And>i. (\<And>y x. y < gheight f \<Longrightarrow> x < gwidth f \<Longrightarrow> i \<noteq> pixel f row col y x) \<Longrightarrow> fb_pixels f' i = fb_pixels f i"
proof -
  let ?all = "List.product [0..<gheight f] [0..<gwidth f]"
  let ?I = "\<lambda>ys g. board g = board f \<and> set ys \<subseteq> set ?all \<and>
    (\<forall>i. (\<forall>y < gheight f. \<forall>x < gwidth f. i \<noteq> pixel f row col y x) \<longrightarrow> fb_pixels g i = fb_pixels f i) \<and>
    (\<forall>y < gheight f. \<forall>x < gwidth f. (y, x) \<notin> set ys \<longrightarrow>
       fb_pixels g (pixel f row col y x) = cell_colour f cell cur (of_nat y) (of_nat x))"
  have "?I [] f'"
    unfolding f'_def render_cell_fold
  proof (rule fold_rest)
    show "?I ?all f" by auto
  next
    fix p ys g assume i: "?I (p # ys) g"
    obtain y x where p: "p = (y, x)" by (cases p)
    have yx: "y < gheight f" "x < gwidth f" using i p by auto
    note b = board_fields [of g f, OF conjunct1 [OF i]]
    have e: "pixel_index g (of_nat col) (of_nat row) (of_nat y) (of_nat x) = pixel f row col y x"
      using pixel_index_nat [OF fits row col yx] by (simp add: b)
    let ?g = "g\<lparr>fb_pixels := (fb_pixels g)(pixel f row col y x := cell_colour f cell cur (of_nat y) (of_nat x))\<rparr>"
    have same: "pixel f row col y' x' = pixel f row col y x \<longleftrightarrow> y' = y \<and> x' = x" if "y' < gheight f" "x' < gwidth f" for y' x'
      using pixel_inj [OF fits row col that row col yx] by blast
    have "?I ys ?g" using i p yx same by auto
    then show "?I ys ((\<lambda>(y, x) f. f\<lparr>fb_pixels := (fb_pixels f)(pixel_index f (of_nat col) (of_nat row) (of_nat y) (of_nat x) :=
        cell_colour f cell cur (of_nat y) (of_nat x))\<rparr>) p g)" unfolding p by (simp add: e b(4))
  qed
  then have s: "board f' = board f" "\<forall>y < gheight f. \<forall>x < gwidth f. fb_pixels f' (pixel f row col y x) = cell_colour f cell cur (of_nat y) (of_nat x)"
    and o: "\<And>i. (\<forall>y < gheight f. \<forall>x < gwidth f. i \<noteq> pixel f row col y x) \<longrightarrow> fb_pixels f' i = fb_pixels f i" by simp_all
  show "board f' = board f" by (rule s(1))
  show "shown f' row col cell cur" using s(2) board_fields [OF s(1)] by (simp add: shown_def)
  show "fb_pixels f' i = fb_pixels f i" if "\<And>y x. y < gheight f \<Longrightarrow> x < gwidth f \<Longrightarrow> i \<noteq> pixel f row col y x" for i using that o by blast
qed

lemma render_cell_idle:
  assumes "grid_fits f" "row < nrows f" "col < ncols f" and "shown f row col cell cur"
  shows "render_cell (of_nat col) (of_nat row) cell cur f = f"
proof -
  let ?f = "render_cell (of_nat col) (of_nat row) cell cur f"
  note r = render_cell_exact [OF assms(1-3), where cell = cell and cur = cur]
  have "fb_pixels ?f i = fb_pixels f i" for i
  proof (cases "\<exists>y x. y < gheight f \<and> x < gwidth f \<and> i = pixel f row col y x")
    case True
    then show ?thesis using r(2) assms(4) board_fields [OF r(1)] by (auto simp: shown_def)
  next
    case False
    then show ?thesis by (intro r(3)) auto
  qed
  then have "fb_pixels ?f = fb_pixels f" by auto
  then show ?thesis using r(1) by (cases ?f; cases f) (simp add: board_def)
qed

text \<open>A cell that was drawn before stays when another cell is drawn.\<close>

lemma render_cell_other:
  assumes "grid_fits f" "row < nrows f" "col < ncols f" "row' < nrows f" "col' < ncols f" and "(row, col) \<noteq> (row', col')"
  shows "shown (render_cell (of_nat col) (of_nat row) cell cur f) row' col' cell' cur' = shown f row' col' cell' cur'"
proof -
  note r = render_cell_exact [OF assms(1-3), where cell = cell and cur = cur]
  have "fb_pixels (render_cell (of_nat col) (of_nat row) cell cur f) (pixel f row' col' y x) = fb_pixels f (pixel f row' col' y x)"
    if "y < gheight f" "x < gwidth f" for y x
    using pixel_inj [OF assms(1,4,5) that assms(2,3)] assms(6) by (intro r(3)) blast
  then show ?thesis using board_fields [OF r(1)] by (simp add: shown_def)
qed

section \<open>Drawing the screen\<close>

lemma fold_hom: "(\<And>x s. g x (h s) = h (g x s)) \<Longrightarrow> fold g xs (h s) = h (fold g xs s)"
  by (induction xs arbitrary: s) simp_all

lemma render_cell_hom:
  "render_cell cx cy cell cur (f\<lparr>rendered_valid := b\<rparr>) = (render_cell cx cy cell cur f)\<lparr>rendered_valid := b\<rparr>"
proof -
  have "pixel_index (f\<lparr>rendered_valid := b\<rparr>) = pixel_index f" "cell_colour (f\<lparr>rendered_valid := b\<rparr>) = cell_colour f" for f
    by (simp_all add: fun_eq_iff pixel_index_def cell_colour_def glyph_bit_def Let_def)
  then show ?thesis unfolding render_cell_fold
    by (subst fold_hom [where h = "\<lambda>f. f\<lparr>rendered_valid := b\<rparr>"]) auto
qed

definition seen :: "(nat \<Rightarrow> u16) \<Rightarrow> u32 \<Rightarrow> u32 \<Rightarrow> framebuffer \<Rightarrow> nat \<Rightarrow> nat \<Rightarrow> u16" where
  "seen cells line_count view_top f row col =
     (if view_top + of_nat row < line_count
      then cells (unat ((view_top + of_nat row) * columns (fb_geometry f) + of_nat col)) else 0x0F20)"

definition draw :: "(nat \<Rightarrow> u16) \<Rightarrow> u32 \<Rightarrow> u32 \<Rightarrow> u32 \<Rightarrow> nat \<times> nat \<Rightarrow> framebuffer \<Rightarrow> framebuffer" where
  "draw cells line_count view_top cur p f =
     (case p of (row, col) \<Rightarrow>
        (render_cell (of_nat col) (of_nat row) (seen cells line_count view_top f row col) (of_nat (row * ncols f + col) = cur) f)
          \<lparr>rendered_cells := (rendered_cells f)(row * ncols f + col := seen cells line_count view_top f row col)\<rparr>)"

definition picture :: "framebuffer \<Rightarrow> nat \<times> nat \<Rightarrow> bool" where
  "picture f p \<longleftrightarrow>
     (case p of (row, col) \<Rightarrow> rendered_valid f \<longrightarrow> rendered_count f = columns (fb_geometry f) * visible_rows (fb_geometry f) \<longrightarrow>
        shown f row col (rendered_cells f (row * ncols f + col)) (int (row * ncols f + col) = rendered_cursor f))"

text \<open>The picture on the screen is the one remembered in \<^verbatim>\<open>rendered_cells\<close>.\<close>

definition fb_ok :: "framebuffer \<Rightarrow> bool" where
  "fb_ok f \<longleftrightarrow> grid_fits f \<and> (\<forall>row < nrows f. \<forall>col < ncols f. picture f (row, col))"

lemma grid_small:
  assumes "grid_fits f"
  shows "ncols f \<le> 1280" "nrows f \<le> 720" "ncols f * nrows f \<le> 921600"
    "unat (columns (fb_geometry f) * visible_rows (fb_geometry f)) = ncols f * nrows f"
proof -
  have w: "0 < gwidth f" "0 < gheight f" using assms by (simp_all add: grid_fits_def unat_gt_0 word_neq_0_conv)
  have "ncols f * gwidth f \<le> 1280" "nrows f * gheight f \<le> 720" using assms by (simp_all add: grid_fits_def)
  then show c: "ncols f \<le> 1280" "nrows f \<le> 720" using w by (metis One_nat_def Suc_leI le_trans mult.right_neutral mult_le_mono2)+
  then show p: "ncols f * nrows f \<le> 921600" using mult_le_mono [of "ncols f" 1280 "nrows f" 720] by simp
  then show "unat (columns (fb_geometry f) * visible_rows (fb_geometry f)) = ncols f * nrows f"
    by (simp add: unat_word_ariths)
qed

lemma screen_nat:
  assumes "grid_fits f" "row < nrows f" "col < ncols f"
  shows "row * ncols f + col < ncols f * nrows f" "of_nat row * columns (fb_geometry f) + of_nat col = (of_nat (row * ncols f + col) :: u32)"
    "unat (of_nat (row * ncols f + col) :: u32) = row * ncols f + col" "sint (of_nat (row * ncols f + col) :: u32) = int (row * ncols f + col)"
proof -
  show b: "row * ncols f + col < ncols f * nrows f" using cell_bound [OF assms(2,3)] by (simp add: mult.commute)
  show "of_nat row * columns (fb_geometry f) + of_nat col = (of_nat (row * ncols f + col) :: u32)" by simp
  have s: "row * ncols f + col < 2 ^ 31" using b grid_small(3) [OF assms(1)] by simp
  show u: "unat (of_nat (row * ncols f + col) :: u32) = row * ncols f + col" using s by (simp add: unat_of_nat del: of_nat_add of_nat_mult)
  show "sint (of_nat (row * ncols f + col) :: u32) = int (row * ncols f + col)"
    using s by (simp add: sint_uint uint_nat u signed_take_bit_int_eq_self del: of_nat_add of_nat_mult)
qed

lemma update_draws:
  assumes fits: "grid_fits f" "row < nrows f" "col < ncols f" and pic: "picture f (row, col)"
    and vis: "vis = columns (fb_geometry f) * visible_rows (fb_geometry f)"
  shows "update_cell cells line_count view_top vis cur row col f = draw cells line_count view_top cur (row, col) f"
proof -
  let ?s = "row * ncols f + col" and ?c = "seen cells line_count view_top f row col"
  note sc = screen_nat [OF fits]
  let ?draws = "\<not> rendered_valid f \<or> rendered_count f \<noteq> vis \<or> rendered_cells f ?s \<noteq> ?c \<or> int ?s = rendered_cursor f \<or> of_nat ?s = cur"
  have "update_cell cells line_count view_top vis cur row col f =
      (let f1 = (if ?draws then render_cell (of_nat col) (of_nat row) ?c (of_nat ?s = cur) f else f)
       in f1\<lparr>rendered_cells := (rendered_cells f1)(?s := ?c)\<rparr>)"
    unfolding update_cell_def Let_def seen_def [symmetric] sc(2) sc(3,4) by (rule refl)
  moreover have "render_cell (of_nat col) (of_nat row) ?c (of_nat ?s = cur) f = f" if "\<not> ?draws"
    using that pic by (intro render_cell_idle [OF fits]) (simp add: picture_def vis)
  moreover have "rendered_cells (render_cell (of_nat col) (of_nat row) ?c (of_nat ?s = cur) f) = rendered_cells f"
    by (intro board_fields(8) render_cell_exact(1) fits)
  ultimately show ?thesis by (cases ?draws) (simp_all add: draw_def Let_def)
qed

text \<open>The device without its pixels and the remembered cells.\<close>

definition chassis :: "framebuffer \<Rightarrow> framebuffer" where
  "chassis f = f\<lparr>fb_pixels := \<lambda>_. 0, rendered_cells := \<lambda>_. 0\<rparr>"

lemma chassis_fields:
  assumes "chassis f = chassis g"
  shows "fb_geometry f = fb_geometry g" "font_width f = font_width g" "font_height f = font_height g"
    "cell_colour f = cell_colour g" "pixel f = pixel g" "grid_fits f = grid_fits g"
    "rendered_valid f = rendered_valid g" "rendered_count f = rendered_count g" "rendered_cursor f = rendered_cursor g"
    "seen cells n v f = seen cells n v g"
proof -
  have g: "g = f\<lparr>fb_pixels := fb_pixels g, rendered_cells := rendered_cells g\<rparr>" using assms by (cases f; cases g) (simp add: chassis_def)
  show "fb_geometry f = fb_geometry g" "font_width f = font_width g" "font_height f = font_height g"
    "cell_colour f = cell_colour g" "pixel f = pixel g" "grid_fits f = grid_fits g"
    "rendered_valid f = rendered_valid g" "rendered_count f = rendered_count g" "rendered_cursor f = rendered_cursor g"
    "seen cells n v f = seen cells n v g"
    by (subst g; simp add: fun_eq_iff cell_colour_def glyph_bit_def pixel_def grid_fits_def seen_def Let_def)+
qed

lemma shown_cells [simp]: "shown (f\<lparr>rendered_cells := r\<rparr>) = shown f"
  by (simp add: fun_eq_iff shown_def cell_colour_def glyph_bit_def pixel_def Let_def)

lemma draw_exact:
  fixes cells :: "nat \<Rightarrow> u16" and line_count view_top cur :: u32
  assumes fits: "grid_fits f" "row < nrows f" "col < ncols f"
  defines "f' \<equiv> draw cells line_count view_top cur (row, col) f"
  shows "chassis f' = chassis f" "rendered_cells f' = (rendered_cells f)(row * ncols f + col := seen cells line_count view_top f row col)"
    "shown f' row col (seen cells line_count view_top f row col) (of_nat (row * ncols f + col) = cur)"
    "\<And>r c cell k. r < nrows f \<Longrightarrow> c < ncols f \<Longrightarrow> (row, col) \<noteq> (r, c) \<Longrightarrow> shown f' r c cell k = shown f r c cell k"
    "\<And>i. (\<And>y x. y < gheight f \<Longrightarrow> x < gwidth f \<Longrightarrow> i \<noteq> pixel f row col y x) \<Longrightarrow> fb_pixels f' i = fb_pixels f i"
proof -
  define g where "g = render_cell (of_nat col) (of_nat row) (seen cells line_count view_top f row col) (of_nat (row * ncols f + col) = cur) f"
  have f': "f' = g\<lparr>rendered_cells := (rendered_cells f)(row * ncols f + col := seen cells line_count view_top f row col)\<rparr>"
    by (simp add: f'_def draw_def g_def)
  note r = render_cell_exact [OF fits, where cell = "seen cells line_count view_top f row col" and
      cur = "of_nat (row * ncols f + col) = cur", folded g_def]
  have "chassis g = chassis f" using r(1) by (cases f; cases g) (simp add: chassis_def board_def)
  then show "chassis f' = chassis f" by (simp add: f' chassis_def)
  show "rendered_cells f' = (rendered_cells f)(row * ncols f + col := seen cells line_count view_top f row col)" by (simp add: f')
  show "shown f' row col (seen cells line_count view_top f row col) (of_nat (row * ncols f + col) = cur)" using r(2) by (simp add: f')
  show "shown f' r c cell k = shown f r c cell k" if "r < nrows f" "c < ncols f" "(row, col) \<noteq> (r, c)" for r c cell k
    unfolding f' shown_cells g_def by (rule render_cell_other [OF fits that])
  show "fb_pixels f' i = fb_pixels f i" if "\<And>y x. y < gheight f \<Longrightarrow> x < gwidth f \<Longrightarrow> i \<noteq> pixel f row col y x" for i
    using r(3) [of i] that by (simp add: f')
qed

text \<open>Halfway through the screen: the cells \<open>ps\<close> are still to be drawn.\<close>

definition halfway :: "(nat \<Rightarrow> u16) \<Rightarrow> u32 \<Rightarrow> u32 \<Rightarrow> u32 \<Rightarrow> framebuffer \<Rightarrow> (nat \<times> nat) list \<Rightarrow> framebuffer \<Rightarrow> bool" where
  "halfway cells line_count view_top cur f ps g \<longleftrightarrow>
     chassis g = chassis f \<and> distinct ps \<and> set ps \<subseteq> {0..<nrows f} \<times> {0..<ncols f} \<and> (\<forall>p \<in> set ps. picture g p) \<and>
     (\<forall>r < nrows f. \<forall>c < ncols f. (r, c) \<notin> set ps \<longrightarrow>
        shown g r c (seen cells line_count view_top f r c) (of_nat (r * ncols f + c) = cur) \<and>
        rendered_cells g (r * ncols f + c) = seen cells line_count view_top f r c) \<and>
     (\<forall>i. (\<forall>r < nrows f. \<forall>c < ncols f. \<forall>y < gheight f. \<forall>x < gwidth f. i \<noteq> pixel f r c y x) \<longrightarrow> fb_pixels g i = fb_pixels f i)"

lemma halfway_draw:
  assumes fits: "grid_fits f" and h: "halfway cells line_count view_top cur f (p # ps) g"
  shows "halfway cells line_count view_top cur f ps (draw cells line_count view_top cur p g)"
proof -
  obtain row col where p: "p = (row, col)" by (cases p)
  have g: "chassis g = chassis f" and rc: "row < nrows f" "col < ncols f" and out: "(row, col) \<notin> set ps"
    using h by (auto simp: halfway_def p)
  note b = chassis_fields [OF g]
  have fg: "grid_fits g" "row < nrows g" "col < ncols g" using fits rc by (simp_all add: b)
  note d = draw_exact [OF fg, where cells = cells and line_count = line_count and view_top = view_top and cur = cur, unfolded b]
  let ?g = "draw cells line_count view_top cur (row, col) g"
  note b' = chassis_fields [OF d(1)]
  have idx: "r * ncols f + c = row * ncols f + col \<longleftrightarrow> r = row \<and> c = col" if "c < ncols f" for r c
    using cell_inj [of r "ncols f" c row col] that rc by blast
  have "picture ?g (r, c)" if "(r, c) \<in> set ps" for r c
  proof -
    have "r < nrows f" "c < ncols f" "(row, col) \<noteq> (r, c)" "picture g (r, c)" using h that out by (auto simp: halfway_def)
    then show ?thesis using d(2,4) idx [of c r] by (auto simp: picture_def b' b)
  qed
  moreover have "shown ?g r c (seen cells line_count view_top f r c) (of_nat (r * ncols f + c) = cur) \<and>
        rendered_cells ?g (r * ncols f + c) = seen cells line_count view_top f r c" if "r < nrows f" "c < ncols f" "(r, c) \<notin> set ps" for r c
  proof (cases "(r, c) = (row, col)")
    case True
    then show ?thesis using d(2,3) by simp
  next
    case False
    then have "(r, c) \<notin> set (p # ps)" using that p by auto
    then have "shown g r c (seen cells line_count view_top f r c) (of_nat (r * ncols f + c) = cur) \<and>
        rendered_cells g (r * ncols f + c) = seen cells line_count view_top f r c" using h that(1,2) unfolding halfway_def by blast
    moreover have "r * ncols f + c \<noteq> row * ncols f + col" using idx [OF that(2), of r] False by simp
    moreover have "(row, col) \<noteq> (r, c)" using False by auto
    ultimately show ?thesis using d(2) d(4) [OF that(1,2)] by (simp del: of_nat_add of_nat_mult)
  qed
  moreover have "fb_pixels ?g i = fb_pixels f i" if "\<forall>r < nrows f. \<forall>c < ncols f. \<forall>y < gheight f. \<forall>x < gwidth f. i \<noteq> pixel f r c y x" for i
    using that h d(5) [of i] rc by (auto simp: halfway_def)
  moreover have "chassis ?g = chassis f" using d(1) g by simp
  moreover have "distinct ps" "set ps \<subseteq> {0..<nrows f} \<times> {0..<ncols f}" using h by (auto simp: halfway_def)
  ultimately show ?thesis unfolding halfway_def p by auto
qed

lemma halfway_all:
  assumes "grid_fits f" and "halfway cells line_count view_top cur f ps g"
  shows "halfway cells line_count view_top cur f [] (fold (draw cells line_count view_top cur) ps g)"
  using assms(2) by (rule fold_rest) (rule halfway_draw [OF assms(1)])

lemma update_screen:
  assumes fits: "grid_fits f" and h: "halfway cells line_count view_top cur f ps g"
    and vis: "vis = columns (fb_geometry f) * visible_rows (fb_geometry f)"
  shows "fold (\<lambda>(r, c). update_cell cells line_count view_top vis cur r c) ps g = fold (draw cells line_count view_top cur) ps g"
  using h
proof (induction ps arbitrary: g)
  case (Cons p ps)
  obtain row col where p: "p = (row, col)" by (cases p)
  have g: "chassis g = chassis f" "row < nrows f" "col < ncols f" "picture g (row, col)" using Cons.prems by (auto simp: halfway_def p)
  note b = chassis_fields [OF g(1)]
  have "update_cell cells line_count view_top vis cur row col g = draw cells line_count view_top cur p g"
    unfolding p using fits g vis by (intro update_draws) (simp_all add: b)
  then show ?case using Cons.IH [OF halfway_draw [OF fits Cons.prems]] by (simp add: p)
qed simp

lemma draw_hom:
  "draw cells n v cur p (f\<lparr>rendered_valid := b\<rparr>) = (draw cells n v cur p f)\<lparr>rendered_valid := b\<rparr>"
  by (cases p) (simp add: draw_def render_cell_hom seen_def)

lemma halfway_start:
  assumes "fb_ok f"
  shows "halfway cells line_count view_top cur f (List.product [0..<nrows f] [0..<ncols f]) f"
  using assms by (auto simp: halfway_def fb_ok_def distinct_product)

lemma cursor_cell:
  assumes "grid_fits f" "row < nrows f" "col < ncols f" and "vis = columns (fb_geometry f) * visible_rows (fb_geometry f)"
  shows "int (row * ncols f + col) = (if cur < vis then sint cur else -1) \<longleftrightarrow> of_nat (row * ncols f + col) = cur"
proof -
  define n where "n = row * ncols f + col"
  note sc = screen_nat [OF assms(1-3), folded n_def]
  have v: "unat vis = ncols f * nrows f" using grid_small(4) [OF assms(1)] assms(4) by simp
  have i: "sint cur = int (unat cur)" if "cur < vis"
  proof -
    have "unat cur < ncols f * nrows f" using that unfolding word_less_nat_alt v .
    then have "unat cur < 921600" using grid_small(3) [OF assms(1)] by linarith
    then have "uint cur < 921600" using uint_nat [of cur] by linarith
    then have "sint cur = uint cur" unfolding sint_uint
      by (intro signed_take_bit_int_eq_self) (use uint_ge_0 [of cur] in \<open>simp_all, linarith\<close>)
    then show ?thesis using uint_nat [of cur] by metis
  qed
  have "of_nat n = cur" if a: "int n = (if cur < vis then sint cur else -1)"
  proof -
    have "cur < vis" using a by (cases "cur < vis") simp_all
    then have "int n = int (unat cur)" using a i by (simp only: if_True)
    then have "n = unat cur" by (simp only: of_nat_eq_iff)
    then show ?thesis by simp
  qed
  moreover have "int n = (if cur < vis then sint cur else -1)" if a: "of_nat n = cur"
  proof -
    have "cur < vis" using sc(1,3) v unfolding a by (simp add: word_less_nat_alt)
    then show ?thesis using sc(4) unfolding a by simp
  qed
  ultimately show ?thesis unfolding n_def by blast
qed

lemma picture_after:
  fixes cur vis :: u32
  assumes fits: "grid_fits f" and h: "halfway cells line_count view_top cur f [] g"
    and vis: "vis = columns (fb_geometry f) * visible_rows (fb_geometry f)"
  shows "fb_ok (g\<lparr>rendered_count := vis, rendered_cursor := (if cur < vis then sint cur else -1), rendered_valid := True\<rparr>)" (is "fb_ok ?g")
proof -
  have g: "chassis g = chassis f" using h by (simp add: halfway_def)
  note b = chassis_fields [OF g]
  have e: "grid_fits ?g = grid_fits g" "shown (g\<lparr>rendered_count := n, rendered_cursor := k, rendered_valid := v\<rparr>) = shown g" for n k v
    by (simp_all add: fun_eq_iff grid_fits_def shown_def cell_colour_def glyph_bit_def pixel_def Let_def)
  have "picture ?g (row, col)" if "row < nrows f" "col < ncols f" for row col
  proof -
    have "shown g row col (seen cells line_count view_top f row col) (of_nat (row * ncols f + col) = cur)"
      "rendered_cells g (row * ncols f + col) = seen cells line_count view_top f row col" using h that by (simp_all add: halfway_def)
    then have "shown g row col (rendered_cells g (row * ncols f + col)) (int (row * ncols f + col) = (if cur < vis then sint cur else -1))"
      by (simp only: cursor_cell [OF fits that vis])
    then show ?thesis using vis by (simp add: picture_def e b del: of_nat_add of_nat_mult split del: if_split)
  qed
  then show ?thesis using fits by (simp add: fb_ok_def e b)
qed

lemma clear_ok: "fb_ok f \<Longrightarrow> framebuffer_active f \<Longrightarrow> fb_ok (qemu_fb_clear colour f)"
  by (simp add: fb_ok_def qemu_fb_clear_def picture_def grid_fits_def)

text \<open>The grid of the console font of 12 by 24 pixels fits on the screen.\<close>

lemma fb_start_ok:
  assumes "font_width f = 12" "font_height f = 24"
  shows "fst (fb_start f)" "fb_ok (snd (fb_start f))" "framebuffer_active (snd (fb_start f))"
    "columns (fb_geometry (snd (fb_start f))) = 102" "visible_rows (fb_geometry (snd (fb_start f))) = 28"
proof -
  have g: "fb_geometry_for 12 24 (fb_geometry f) = (fb_geometry f)\<lparr>columns := 102, visible_rows := 28, history_rows := 256,
      glyph_width := 12, glyph_height := 24, origin_x := 28, origin_y := 24\<rparr>"
    by (simp add: fb_geometry_for_def FB_WIDTH_def FB_HEIGHT_def FB_MARGIN_X_def FB_MARGIN_Y_def)
  show "fst (fb_start f)" "fb_ok (snd (fb_start f))" "framebuffer_active (snd (fb_start f))"
    "columns (fb_geometry (snd (fb_start f))) = 102" "visible_rows (fb_geometry (snd (fb_start f))) = 28"
    by (simp_all add: fb_start_def Let_def assms g qemu_fb_clear_def fb_ok_def picture_def grid_fits_def)
qed

definition demo_fb :: framebuffer where
  "demo_fb = snd (fb_start \<lparr>font_data = \<lambda>i. if i = 32 + 65 * 48 then 0x80 else 0, font_headersize = 32, font_bytes_per_glyph = 48,
     font_height = 24, font_width = 12, fb_pixels = \<lambda>_. 0, framebuffer_active = False,
     fb_geometry = \<lparr>columns = 0, visible_rows = 0, history_rows = 0, glyph_width = 0, glyph_height = 0, origin_x = 0, origin_y = 0\<rparr>,
     rendered_cells = \<lambda>_. 0, rendered_count = 0, rendered_cursor = 0, rendered_valid = False\<rparr>)"

section \<open>Properties\<close>

text \<open>
  C24: Incremental drawing.  Redrawing only the cells that differ from the remembered picture leaves
  the frame buffer and the driver in exactly the state that redrawing every cell would leave, shows
  every visible cell with its glyph and colours and the cursor in inverse colours, touches no pixel
  outside the text grid, and keeps the remembered picture true; clearing the screen does too.
\<close>

theorem incremental_drawing:
  assumes ok: "fb_ok f" and active: "framebuffer_active f"
    and vis: "vis = columns (fb_geometry f) * visible_rows (fb_geometry f)" "vis \<noteq> 0" "vis \<le> QEMU_FB_MAX_VISIBLE_CELLS"
  shows "let f' = qemu_fb_render_cells cells line_count view_top cursor on f; cur = cursor_on_screen (fb_geometry f) view_top cursor on in
    f' = qemu_fb_render_cells cells line_count view_top cursor on (f\<lparr>rendered_valid := False\<rparr>) \<and> fb_ok f' \<and> fb_ok (qemu_fb_clear colour f) \<and>
    (\<forall>row < nrows f. \<forall>col < ncols f. \<forall>y < gheight f. \<forall>x < gwidth f. pixel f row col y x < 1280 * 720 \<and>
       fb_pixels f' (pixel f row col y x) =
         cell_colour f (seen cells line_count view_top f row col) (of_nat (row * ncols f + col) = cur) (of_nat y) (of_nat x)) \<and>
    (\<forall>i. (\<forall>row < nrows f. \<forall>col < ncols f. \<forall>y < gheight f. \<forall>x < gwidth f. i \<noteq> pixel f row col y x) \<longrightarrow> fb_pixels f' i = fb_pixels f i)"
proof -
  define cur where "cur = cursor_on_screen (fb_geometry f) view_top cursor on"
  define g where "g = fold (draw cells line_count view_top cur) (List.product [0..<nrows f] [0..<ncols f]) f"
  let ?fin = "\<lambda>g. g\<lparr>rendered_count := vis, rendered_cursor := (if cur < vis then sint cur else -1), rendered_valid := True\<rparr>"
  let ?off = "f\<lparr>rendered_valid := False\<rparr>"
  have fits: "grid_fits f" "grid_fits ?off" using ok by (simp_all add: fb_ok_def grid_fits_def)
  have off: "fb_ok ?off" using fits(2) by (simp add: fb_ok_def picture_def)
  have f': "qemu_fb_render_cells cells line_count view_top cursor on f = ?fin g"
    using active vis update_screen [OF fits(1) halfway_start [OF ok] vis(1), of cells line_count view_top cur]
    by (simp add: qemu_fb_render_cells_def Let_def fold_product not_less cur_def [symmetric] g_def)
  have "qemu_fb_render_cells cells line_count view_top cursor on ?off =
      ?fin (fold (draw cells line_count view_top cur) (List.product [0..<nrows f] [0..<ncols f]) ?off)"
    using active vis update_screen [OF fits(2) halfway_start [OF off], of vis cells line_count view_top cur]
    by (simp add: qemu_fb_render_cells_def Let_def fold_product not_less cur_def [symmetric])
  also have "\<dots> = ?fin g" unfolding g_def by (subst fold_hom [where h = "\<lambda>f. f\<lparr>rendered_valid := False\<rparr>"]) (simp_all add: draw_hom)
  finally have eq: "qemu_fb_render_cells cells line_count view_top cursor on f = qemu_fb_render_cells cells line_count view_top cursor on ?off"
    using f' by simp
  have h: "halfway cells line_count view_top cur f [] g" unfolding g_def by (rule halfway_all [OF fits(1) halfway_start [OF ok]])
  have "chassis g = chassis f" using h by (simp add: halfway_def)
  then have "fb_pixels (?fin g) (pixel f row col y x) =
      cell_colour f (seen cells line_count view_top f row col) (of_nat (row * ncols f + col) = cur) (of_nat y) (of_nat x)"
    if "row < nrows f" "col < ncols f" "y < gheight f" "x < gwidth f" for row col y x
    using h that chassis_fields [of g f] by (simp add: halfway_def shown_def del: of_nat_add of_nat_mult)
  moreover have "fb_pixels (?fin g) i = fb_pixels f i"
    if "\<forall>row < nrows f. \<forall>col < ncols f. \<forall>y < gheight f. \<forall>x < gwidth f. i \<noteq> pixel f row col y x" for i
    using h that by (simp add: halfway_def)
  ultimately show ?thesis
    using eq picture_after [OF fits(1) h vis(1)] clear_ok [OF ok active] pixel_bounds(3) [OF fits(1)] unfolding Let_def f' cur_def [symmetric] by auto
qed

theorem incremental_drawing_witness:
  "fb_ok demo_fb \<and>
   fb_pixels (qemu_fb_render_cells (\<lambda>_. 0x0F41) 1 0 5 True demo_fb) (pixel demo_fb 0 0 0 0) = 0xF2F2F2"
proof -
  have d: "fb_ok demo_fb" "framebuffer_active demo_fb" "columns (fb_geometry demo_fb) = 102" "visible_rows (fb_geometry demo_fb) = 28"
    unfolding demo_fb_def by (rule fb_start_ok; simp)+
  have f: "gheight demo_fb = 24" "gwidth demo_fb = 12"
    "font_data demo_fb = (\<lambda>i. if i = 32 + 65 * 48 then 0x80 else 0)" "font_headersize demo_fb = 32" "font_bytes_per_glyph demo_fb = 48"
    by (simp_all add: demo_fb_def fb_start_def qemu_fb_clear_def Let_def)
  have v: "2856 = columns (fb_geometry demo_fb) * visible_rows (fb_geometry demo_fb)" "2856 \<noteq> (0 :: u32)"
    "2856 \<le> QEMU_FB_MAX_VISIBLE_CELLS" by (simp_all add: d QEMU_FB_MAX_VISIBLE_CELLS_def)
  have cur: "cursor_on_screen (fb_geometry demo_fb) 0 5 True = 5" by (simp add: cursor_on_screen_def d)
  have "fb_pixels (qemu_fb_render_cells (\<lambda>_. 0x0F41) 1 0 5 True demo_fb) (pixel demo_fb 0 0 0 0) =
      cell_colour demo_fb (seen (\<lambda>_. 0x0F41) 1 0 demo_fb 0 0) False 0 0"
    using incremental_drawing [OF d(1,2) v, of "\<lambda>_. 0x0F41" 1 0 5 True, unfolded Let_def,
        THEN conjunct2, THEN conjunct2, THEN conjunct2, THEN conjunct1, rule_format, of 0 0 0 0] by (simp add: cur d f)
  also have "\<dots> = 0xF2F2F2" by (simp add: cell_colour_def seen_def glyph_bit_def f rgb_def)
  finally show ?thesis using d(1) by simp
qed

end
