(* ===== verification/Tty_Safety.thy ===== *)
theory Tty_Safety
  imports Tty Fb_Safety Sched_Safety
begin

text \<open>
  The terminals keep their state well-formed: cursors, line counts, views and colours stay in
  range, the loops end, and a console writes only to its own cells.
\<close>

section \<open>One console\<close>

definition geometry_ok :: "tty_geometry \<Rightarrow> bool" where
  "geometry_ok g \<longleftrightarrow>
     40 \<le> columns g \<and> columns g \<le> 200 \<and> 15 \<le> visible_rows g \<and> visible_rows g \<le> 60 \<and>
     visible_rows g \<le> history_rows g \<and> history_rows g \<le> 256"

abbreviation hist :: "tty_geometry \<Rightarrow> nat" where "hist g \<equiv> unat (tty_history_cells g)"

lemma geometry_nat:
  assumes "geometry_ok g"
  shows "40 \<le> unat (columns g)" "unat (columns g) \<le> 200" "15 \<le> unat (history_rows g)" "unat (history_rows g) \<le> 256"
    "hist g = unat (columns g) * unat (history_rows g)" "hist g \<le> 51200" "unat (columns g) \<le> hist g"
proof -
  show a: "40 \<le> unat (columns g)" "unat (columns g) \<le> 200" "15 \<le> unat (history_rows g)" "unat (history_rows g) \<le> 256"
    using assms by (auto simp: geometry_ok_def word_le_nat_alt)
  have "unat (columns g) * unat (history_rows g) \<le> 200 * 256" using a by (intro mult_le_mono) simp_all
  then show h: "hist g = unat (columns g) * unat (history_rows g)" "hist g \<le> 51200"
    by (simp_all add: tty_history_cells_def unat_word_ariths)
  show "unat (columns g) \<le> hist g" unfolding h(1) using a(3) by simp
qed

definition within :: "nat \<Rightarrow> nat \<Rightarrow> (nat \<Rightarrow> u16) \<Rightarrow> (nat \<Rightarrow> u16) \<Rightarrow> bool" where
  "within a n m m' \<longleftrightarrow> (\<forall>i. i < a \<or> a + n \<le> i \<longrightarrow> m' i = m i)"

lemma within_refl [simp]: "within a n m m"
  by (simp add: within_def)

lemma within_trans: "within a n m m1 \<Longrightarrow> within a n m1 m2 \<Longrightarrow> within a n m m2"
  by (simp add: within_def)

lemma within_mono: "within a n m m' \<Longrightarrow> a + n \<le> b + k \<Longrightarrow> b \<le> a \<Longrightarrow> within b k m m'"
  by (auto simp: within_def)

lemma within_fold:
  assumes "\<And>i. i \<in> set xs \<Longrightarrow> i < n"
  shows "within a n m (fold (\<lambda>i m. m(a + i := h i m)) xs m)"
  using assms
proof (induction xs arbitrary: m)
  case (Cons x xs)
  have "x < n" using Cons.prems by simp
  then have "within a n m (m(a + x := h x m))" by (simp add: within_def)
  moreover have "within a n (m(a + x := h x m)) (fold (\<lambda>i m. m(a + i := h i m)) xs (m(a + x := h x m)))"
    by (rule Cons.IH) (use Cons.prems in simp)
  ultimately show ?case unfolding fold_simps by (rule within_trans)
qed simp

definition console_typed :: "tty_geometry \<Rightarrow> tty_console \<Rightarrow> bool" where
  "console_typed g c \<longleftrightarrow>
     1 \<le> unat (line_count c) \<and> unat (line_count c) \<le> unat (history_rows g) \<and> unat (ansi_length c) \<le> 32 \<and>
     length (ansi_sequence c) = 32 \<and> unat (ansi_fg c) < 16 \<and> unat (ansi_bg c) < 8 \<and> unat (ansi_bold c) \<le> 1"

text \<open>A step of the console: it writes only its own cells and stays well-formed.\<close>

definition keeps :: "tty_geometry \<Rightarrow> screen \<Rightarrow> screen \<Rightarrow> bool" where
  "keeps g mc mc' \<longleftrightarrow>
     con_cells (snd mc') = con_cells (snd mc) \<and> console_typed g (snd mc') \<and>
     within (con_cells (snd mc)) (hist g) (fst mc) (fst mc')"

lemma keeps_trans: "keeps g mc mc1 \<Longrightarrow> keeps g mc1 mc2 \<Longrightarrow> keeps g mc mc2"
  by (auto simp: keeps_def intro: within_trans)

lemma scroll_keeps:
  assumes g: "geometry_ok g" and c: "console_typed g (snd mc)" and full: "hist g \<le> unat (con_cursor (snd mc))"
  shows "keeps g mc (console_scroll_history g mc)"
    "unat (con_cursor (snd (console_scroll_history g mc))) = unat (con_cursor (snd mc)) - unat (columns g)"
proof -
  obtain m c where mc: "mc = (m, c)" by (cases mc)
  note n = geometry_nat [OF g]
  have k: "unat (tty_history_cells g - columns g) \<le> hist g" using n by (simp add: unat_sub word_le_nat_alt)
  have "within (con_cells c) (hist g) m (fst (console_scroll_history g mc))"
    unfolding console_scroll_history_def mc Let_def prod.case fst_conv
    by (rule within_trans; rule within_fold) (use k in auto)
  moreover have "console_typed g (snd (console_scroll_history g mc))"
  proof -
    have "unat (line_count c - 1) = unat (line_count c) - 1" if "1 < line_count c"
      using that by (simp add: unat_sub word_less_nat_alt word_le_nat_alt)
    then show ?thesis using c unfolding console_scroll_history_def mc Let_def by (auto simp: console_typed_def word_less_nat_alt)
  qed
  ultimately show "keeps g mc (console_scroll_history g mc)"
    by (simp add: keeps_def mc) (simp add: console_scroll_history_def Let_def)
  show "unat (con_cursor (snd (console_scroll_history g mc))) = unat (con_cursor (snd mc)) - unat (columns g)"
    using full n(7) by (simp add: console_scroll_history_def mc Let_def unat_sub word_le_nat_alt)
qed

lemma make_room:
  assumes g: "geometry_ok g" and c: "console_typed g (snd mc)"
  shows "\<exists>mc'. console_make_cursor_room g mc = Some mc' \<and> keeps g mc mc' \<and> unat (con_cursor (snd mc')) < hist g"
  using c
proof (induction "unat (con_cursor (snd mc))" arbitrary: mc rule: less_induct)
  case less
  note n = geometry_nat [OF g]
  show ?case
  proof (cases "hist g \<le> unat (con_cursor (snd mc))")
    case True
    note s = scroll_keeps [OF g less.prems True]
    let ?mc = "console_scroll_history g mc"
    have "unat (con_cursor (snd ?mc)) < unat (con_cursor (snd mc))" using s(2) n(1,7) True by linarith
    moreover have "console_typed g (snd ?mc)" using s(1) by (simp add: keeps_def)
    ultimately obtain mc' where "console_make_cursor_room g ?mc = Some mc'" "keeps g ?mc mc'" "unat (con_cursor (snd mc')) < hist g"
      using less.hyps by blast
    then show ?thesis using True keeps_trans [OF s(1)] by (subst console_make_cursor_room.simps) (auto simp: word_le_nat_alt)
  next
    case False
    then show ?thesis using less.prems by (subst console_make_cursor_room.simps) (auto simp: word_le_nat_alt keeps_def)
  qed
qed

lemma within_one: "i < n \<Longrightarrow> within a n m (m(a + i := v))"
  by (simp add: within_def)

lemma place_char_keeps:
  assumes c: "console_typed g (snd mc)" and in_range: "unat (con_cursor (snd mc)) < hist g"
  shows "keeps g mc (place_char g ch color mc)"
proof -
  obtain m c where mc: "mc = (m, c)" by (cases mc)
  have "unat (con_cursor c - 1) < hist g" if "0 < con_cursor c"
    using that in_range mc by (simp add: unat_sub word_less_nat_alt word_le_nat_alt)
  then show ?thesis using c in_range by (simp add: place_char_def mc keeps_def console_typed_def Let_def within_one)
qed

lemma line_count_typed:
  assumes "geometry_ok g" and "console_typed g c"
  shows "console_typed g (console_update_line_count g c)"
proof -
  let ?r = "con_cursor c div columns g + 1"
  have "1 \<le> unat (line_count c)" "line_count c < ?r \<Longrightarrow> 1 \<le> unat ?r"
    using assms(2) by (auto simp: console_typed_def word_less_nat_alt)
  then show ?thesis using assms geometry_nat [OF assms(1)]
    by (auto simp: console_update_line_count_def Let_def console_typed_def word_less_nat_alt)
qed

lemma put_char:
  assumes g: "geometry_ok g" and c: "console_typed g (snd mc)"
  shows "\<exists>mc'. console_put_char g ch color mc = Some mc' \<and> keeps g mc mc' \<and> unat (con_cursor (snd mc')) < hist g"
proof -
  obtain mc1 where 1: "console_make_cursor_room g mc = Some mc1" "keeps g mc mc1" "unat (con_cursor (snd mc1)) < hist g"
    using make_room [OF g c] by blast
  have k: "keeps g mc1 (place_char g ch color mc1)" using 1 by (intro place_char_keeps) (simp_all add: keeps_def)
  then obtain mc2 where 2: "console_make_cursor_room g (place_char g ch color mc1) = Some mc2"
    "keeps g (place_char g ch color mc1) mc2" "unat (con_cursor (snd mc2)) < hist g"
    using make_room [OF g, of "place_char g ch color mc1"] by (auto simp: keeps_def)
  have "console_put_char g ch color mc = Some (fst mc2, console_update_line_count g (snd mc2))"
    by (simp add: console_put_char_def 1(1) 2(1))
  moreover have "keeps g mc mc2" by (meson keeps_trans 1(2) k 2(2))
  then have "keeps g mc (fst mc2, console_update_line_count g (snd mc2))"
    using line_count_typed [OF g, of "snd mc2"] by (auto simp: keeps_def console_update_line_count_def Let_def)
  moreover have "con_cursor (console_update_line_count g (snd mc2)) = con_cursor (snd mc2)" by (simp add: console_update_line_count_def Let_def)
  ultimately show ?thesis using 2(3) by simp
qed

section \<open>Colour sequences\<close>

definition same_place :: "tty_console \<Rightarrow> tty_console \<Rightarrow> bool" where
  "same_place c c' \<longleftrightarrow> con_cells c' = con_cells c \<and> con_cursor c' = con_cursor c"

lemma byte_le: "unat (ucast (x :: u32) :: u8) \<le> unat x"
  by (simp add: unsigned_ucast_eq take_bit_eq_mod)

lemma sgr_value_typed:
  assumes "console_typed g c"
  shows "console_typed g (sgr_value v c)" "same_place c (sgr_value v c)"
proof -
  have "unat (ucast (v - 30) :: u8) < 16" if "30 \<le> v" "v \<le> 37"
    using that byte_le [of "v - 30"] by (simp add: unat_sub word_le_nat_alt)
  moreover have "unat (ucast (v - 90 + 8) :: u8) < 16" if "90 \<le> v" "v \<le> 97"
    using that byte_le [of "v - 90 + 8"] by (simp add: unat_sub word_le_nat_alt)
  moreover have "unat (ucast (v - 40) :: u8) < 8" if "40 \<le> v" "v \<le> 47"
    using that byte_le [of "v - 40"] by (simp add: unat_sub word_le_nat_alt)
  ultimately show "console_typed g (sgr_value v c)" using assms by (simp add: sgr_value_def console_typed_def)
  show "same_place c (sgr_value v c)" by (simp add: sgr_value_def same_place_def)
qed

lemma apply_sgr_typed:
  assumes "console_typed g c"
  shows "console_typed g (console_ansi_apply_sgr c)" "same_place c (console_ansi_apply_sgr c)"
proof -
  let ?P = "\<lambda>st. console_typed g (snd (snd st)) \<and> same_place c (snd (snd st))"
  have "?P (snd (for_loop sgr_round [0..<Suc (unat (ansi_length c))] (0, False, c)))"
  proof (rule for_loop_invariant)
    show "?P (0, False, c)" using assms by (simp add: same_place_def)
    fix i and st :: "u32 \<times> bool \<times> tty_console" assume "?P st"
    then show "?P (snd (sgr_round i st))" using sgr_value_typed [of g "snd (snd st)"]
      by (cases st) (auto simp: sgr_round_def Let_def same_place_def)
  qed
  then show "console_typed g (console_ansi_apply_sgr c)" "same_place c (console_ansi_apply_sgr c)"
    by (simp_all add: console_ansi_apply_sgr_def)
qed

lemma ansi_finish_typed:
  assumes "console_typed g c"
  shows "console_typed g (console_ansi_finish byte c)" "same_place c (console_ansi_finish byte c)"
proof -
  note a = apply_sgr_typed [OF assms]
  have "unat (ansi_length c + 1) \<le> 32" if "ansi_length c < TTY_ANSI_MAX_SEQUENCE"
    using that by (simp add: TTY_ANSI_MAX_SEQUENCE_def word_less_nat_alt unat_word_ariths)
  then show "console_typed g (console_ansi_finish byte c)" using assms a(1) by (auto simp: console_ansi_finish_def console_typed_def)
  show "same_place c (console_ansi_finish byte c)" using a(2) by (auto simp: console_ansi_finish_def same_place_def)
qed

text \<open>
  One character of output keeps the console well-formed, with the cursor on one of its cells.
\<close>

definition cursor_ok :: "tty_geometry \<Rightarrow> tty_console \<Rightarrow> bool" where
  "cursor_ok g c \<longleftrightarrow> unat (con_cursor c) < hist g"

lemma put_char_ok:
  assumes "geometry_ok g" and "console_typed g (snd mc)"
  shows "\<exists>mc'. console_put_char g ch color mc = Some mc' \<and> keeps g mc mc' \<and> cursor_ok g (snd mc')"
  using put_char [OF assms, of ch color] by (simp add: cursor_ok_def)

lemma put_user_char_ok:
  assumes g: "geometry_ok g" and c: "console_typed g (snd mc)" "cursor_ok g (snd mc)"
  shows "\<exists>mc'. console_put_user_char g byte mc = Some mc' \<and> keeps g mc mc' \<and> cursor_ok g (snd mc')"
proof -
  obtain m k where mc: "mc = (m, k)" by (cases mc)
  show ?thesis
  proof (cases "ansi_state k = TTY_ANSI_NORMAL \<and> byte \<noteq> 27")
    case True
    then show ?thesis using put_char_ok [OF g c(1), of byte "console_ansi_color k"] by (simp add: console_put_user_char_def mc)
  next
    case False
    then show ?thesis using c ansi_finish_typed [of g k byte]
      by (auto simp: console_put_user_char_def mc keeps_def cursor_ok_def same_place_def console_typed_def)
  qed
qed

lemma write_keeps:
  assumes "\<And>b mc. console_typed g (snd mc) \<Longrightarrow> cursor_ok g (snd mc) \<Longrightarrow> \<exists>mc'. emit b mc = Some mc' \<and> keeps g mc mc' \<and> cursor_ok g (snd mc')"
    and "console_typed g (snd mc)" "cursor_ok g (snd mc)"
  shows "\<exists>mc'. foldo emit bs mc = Some mc' \<and> keeps g mc mc' \<and> cursor_ok g (snd mc')"
proof (rule foldo_invariant)
  show "keeps g mc mc \<and> cursor_ok g (snd mc)" using assms(2,3) by (simp add: keeps_def)
  fix b mc1 assume "keeps g mc mc1 \<and> cursor_ok g (snd mc1)"
  then show "\<exists>mc'. emit b mc1 = Some mc' \<and> keeps g mc mc' \<and> cursor_ok g (snd mc')"
    using assms(1) [of mc1 b] keeps_trans by (auto simp: keeps_def intro: within_trans)
qed

section \<open>The terminal\<close>

definition console_ok :: "tty_geometry \<Rightarrow> nat \<Rightarrow> tty_console \<Rightarrow> bool" where
  "console_ok g i c \<longleftrightarrow> con_cells c = i * hist g \<and> console_typed g c \<and> cursor_ok g c \<and> view_top c \<le> bottom_of g c"

definition tty_ok :: "tty \<Rightarrow> bool" where
  "tty_ok t \<longleftrightarrow>
     geometry_ok (geometry t) \<and> length (consoles t) = 3 \<and> (\<forall>i < 3. console_ok (geometry t) i (consoles t ! i)) \<and>
     active_console t < 3 \<and> input_head t < TTY_INPUT_QUEUE_SIZE \<and> input_tail t < TTY_INPUT_QUEUE_SIZE"

text \<open>Only cells of the active console have changed.\<close>

definition own_cells :: "tty \<Rightarrow> tty \<Rightarrow> bool" where
  "own_cells t t' \<longleftrightarrow> within (unat (active_console t) * hist (geometry t)) (hist (geometry t)) (tty_cells t) (tty_cells t')"

lemma tty_ok_active:
  assumes "tty_ok t"
  shows "unat (active_console t) < 3" "console_ok (geometry t) (unat (active_console t)) (active t)"
proof -
  show "unat (active_console t) < 3" using assms by (simp add: tty_ok_def word_less_nat_alt)
  then show "console_ok (geometry t) (unat (active_console t)) (active t)" using assms by (simp add: tty_ok_def)
qed

lemma set_active_ok:
  assumes "tty_ok t" and "console_ok (geometry t) (unat (active_console t)) c"
  shows "tty_ok (set_active c t)"
  using assms tty_ok_active(1) [OF assms(1)] by (auto simp: tty_ok_def set_active_def nth_list_update)

lemma set_screen_ok:
  assumes "tty_ok t" and "console_ok (geometry t) (unat (active_console t)) (snd mc)"
  shows "tty_ok (set_screen mc t)"
  using set_active_ok [of "t\<lparr>tty_cells := fst mc\<rparr>" "snd mc"] assms by (simp add: set_screen_def tty_ok_def)

lemma flush_fields [simp]:
  "tty_cells (flush_active_console t) = tty_cells t" "geometry (flush_active_console t) = geometry t"
  "active_console (flush_active_console t) = active_console t" "input_head (flush_active_console t) = input_head t"
  "input_tail (flush_active_console t) = input_tail t" "tty_kern (flush_active_console t) = tty_kern t"
  "input_queue (flush_active_console t) = input_queue t"
  by (simp_all add: flush_active_console_def set_active_def Let_def)

lemma flush_ok:
  assumes "tty_ok t"
  shows "tty_ok (flush_active_console t)"
proof -
  have "\<not> bottom_of (geometry t) (active t) < view_top (active t)"
    using tty_ok_active(2) [OF assms] by (simp add: console_ok_def not_less)
  then have "consoles (flush_active_console t) = consoles t" by (simp add: flush_active_console_def set_active_def Let_def)
  then show ?thesis using assms by (simp add: tty_ok_def)
qed

lemma follow_bottom_ok:
  assumes "con_cells c = i * hist g" "console_typed g c" "cursor_ok g c"
  shows "console_ok g i (console_follow_bottom g c)"
  using assms by (simp add: console_ok_def console_follow_bottom_def console_typed_def cursor_ok_def bottom_of_def)

lemma write_active_ok:
  assumes t: "tty_ok t"
    and emit: "\<And>b mc. console_typed (geometry t) (snd mc) \<Longrightarrow> cursor_ok (geometry t) (snd mc) \<Longrightarrow>
      \<exists>mc'. emit b mc = Some mc' \<and> keeps (geometry t) mc mc' \<and> cursor_ok (geometry t) (snd mc')"
  shows "\<exists>t'. write_active emit bs t = Some t' \<and> tty_ok t' \<and> own_cells t t'"
proof -
  let ?mc = "(tty_cells t, console_follow_bottom (geometry t) (active t))"
  note a = tty_ok_active [OF t]
  have ok: "console_ok (geometry t) (unat (active_console t)) (console_follow_bottom (geometry t) (active t))"
    using a(2) by (intro follow_bottom_ok) (simp_all add: console_ok_def)
  obtain m c where mc: "foldo emit bs ?mc = Some (m, c)" "keeps (geometry t) ?mc (m, c)" "cursor_ok (geometry t) c"
    using write_keeps [of "geometry t" emit ?mc bs, OF emit] ok by (auto simp: console_ok_def)
  let ?t = "flush_active_console (set_screen (m, console_follow_bottom (geometry t) c) t)"
  have "console_ok (geometry t) (unat (active_console t)) (console_follow_bottom (geometry t) c)"
    using mc(2,3) ok by (intro follow_bottom_ok) (simp_all add: keeps_def console_ok_def)
  then have "tty_ok ?t" using t by (intro flush_ok set_screen_ok) simp_all
  moreover have "own_cells t ?t" using mc(2) ok by (simp add: own_cells_def keeps_def console_ok_def set_screen_def set_active_def)
  ultimately show ?thesis using mc(1) by (simp add: write_active_def)
qed

lemma tty_write_ok:
  assumes t: "tty_ok t"
  shows "\<exists>t'. tty_write_colored bs color t = Some t' \<and> tty_ok t' \<and> own_cells t t'"
    "\<exists>t'. tty_write_user bs t = Some t' \<and> tty_ok t' \<and> own_cells t t'"
proof -
  have g: "geometry_ok (geometry t)" using t by (simp add: tty_ok_def)
  show "\<exists>t'. tty_write_colored bs color t = Some t' \<and> tty_ok t' \<and> own_cells t t'"
    using write_active_ok [OF t, of "\<lambda>b. console_put_char (geometry t) b color" bs] put_char_ok [OF g] t
    by (auto simp: tty_write_colored_def own_cells_def)
  show "\<exists>t'. tty_write_user bs t = Some t' \<and> tty_ok t' \<and> own_cells t t'"
    using write_active_ok [OF t, of "console_put_user_char (geometry t)" bs] put_user_char_ok [OF g] t
    by (auto simp: tty_write_user_def own_cells_def)
qed

lemma clear_keeps:
  assumes "geometry_ok g" and "console_typed g c"
  shows "keeps g (m, c) (console_clear g (m, c))" "cursor_ok g (snd (console_clear g (m, c)))" "view_top (snd (console_clear g (m, c))) = 0"
proof -
  have "within (con_cells c) (hist g) m (fst (console_clear g (m, c)))"
    unfolding console_clear_def prod.case fst_conv by (rule within_fold) simp
  then show "keeps g (m, c) (console_clear g (m, c))"
    using assms geometry_nat [OF assms(1)] by (simp add: keeps_def console_clear_def console_ansi_reset_def console_typed_def)
  show "cursor_ok g (snd (console_clear g (m, c)))" "view_top (snd (console_clear g (m, c))) = 0"
    using geometry_nat(1,7) [OF assms(1)] by (simp_all add: console_clear_def console_ansi_reset_def cursor_ok_def)
qed

lemma tty_clear_ok:
  assumes t: "tty_ok t"
  shows "tty_ok (tty_clear_active t)" "own_cells t (tty_clear_active t)"
proof -
  let ?mc = "console_clear (geometry t) (tty_cells t, active t)"
  note a = tty_ok_active [OF t]
  have g: "geometry_ok (geometry t)" using t by (simp add: tty_ok_def)
  note c = clear_keeps [OF g, of "active t" "tty_cells t"]
  have k: "console_ok (geometry t) (unat (active_console t)) (snd ?mc)" using c a(2) by (simp add: console_ok_def keeps_def)
  then show "tty_ok (tty_clear_active t)" using t by (simp add: tty_clear_active_def flush_ok set_screen_ok)
  show "own_cells t (tty_clear_active t)"
    using c(1) a(2) by (simp add: tty_clear_active_def own_cells_def set_screen_def set_active_def keeps_def console_ok_def)
qed

lemma view_ok: "console_ok g i c \<Longrightarrow> v \<le> bottom_of g c \<Longrightarrow> console_ok g i (c\<lparr>view_top := v\<rparr>)"
  by (simp add: console_ok_def console_typed_def cursor_ok_def bottom_of_def split: if_splits)

lemma scroll_clamp:
  assumes "0 \<le> u"
  shows "(of_int (if int (unat b) < u then int (unat b) else u) :: u32) \<le> b"
proof (cases "int (unat b) < u")
  case False
  then obtain k where k: "u = int k" "k \<le> unat b" using assms nonneg_int_cases [of u] by (metis not_less of_nat_le_iff)
  then have "k < 2 ^ 32" using unat_u32_less [of b] by linarith
  then show ?thesis using k by (simp add: word_le_nat_alt unat_of_nat)
qed simp

lemma tty_scroll_ok:
  assumes t: "tty_ok t"
  shows "tty_ok (tty_scroll_active lines t)" "tty_cells (tty_scroll_active lines t) = tty_cells t"
proof -
  let ?c = "active t"
  let ?b = "bottom_of (geometry t) ?c"
  let ?top = "max 0 (int (unat (view_top ?c)) + lines)"
  let ?top1 = "if int (unat ?b) < ?top then int (unat ?b) else ?top"
  have "(of_int ?top1 :: u32) \<le> ?b" by (rule scroll_clamp) simp
  then have "console_ok (geometry t) (unat (active_console t)) (?c\<lparr>view_top := of_int ?top1\<rparr>)"
    by (rule view_ok [OF tty_ok_active(2) [OF t]])
  then show "tty_ok (tty_scroll_active lines t)" unfolding tty_scroll_active_def Let_def using t by (simp add: flush_ok set_active_ok)
  show "tty_cells (tty_scroll_active lines t) = tty_cells t" by (simp add: tty_scroll_active_def Let_def set_active_def)
qed

lemma tty_switch_ok:
  assumes "tty_ok t"
  shows "tty_ok (tty_switch i t)" "tty_cells (tty_switch i t) = tty_cells t"
proof -
  have "tty_ok (t\<lparr>active_console := i\<rparr>)" if "i < 3" using assms that by (simp add: tty_ok_def)
  then show "tty_ok (tty_switch i t)" using assms by (simp add: tty_switch_def TTY_CONSOLE_COUNT_def flush_ok not_le)
  show "tty_cells (tty_switch i t) = tty_cells t" by (simp add: tty_switch_def)
qed

lemma queue_next: "(x + 1) mod TTY_INPUT_QUEUE_SIZE < TTY_INPUT_QUEUE_SIZE"
  by (simp add: TTY_INPUT_QUEUE_SIZE_def word_less_nat_alt unat_mod)

lemma resume_ok:
  assumes t: "tty_ok t"
  shows "tty_ok (console_resume_live_view t)" "tty_cells (console_resume_live_view t) = tty_cells t"
proof -
  have "console_ok (geometry t) (unat (active_console t)) ((active t)\<lparr>view_top := bottom_of (geometry t) (active t)\<rparr>)"
    by (rule view_ok [OF tty_ok_active(2) [OF t]]) simp
  then show "tty_ok (console_resume_live_view t)" using t by (simp add: console_resume_live_view_def flush_ok set_active_ok)
  show "tty_cells (console_resume_live_view t) = tty_cells t" by (simp add: console_resume_live_view_def set_active_def)
qed

lemma tty_ok_input:
  assumes "tty_ok t" "h < TTY_INPUT_QUEUE_SIZE" "q < TTY_INPUT_QUEUE_SIZE"
  shows "tty_ok (wake_input_service (t\<lparr>input_tail := q, input_queue := f, input_head := h\<rparr>))"
  using assms by (simp add: tty_ok_def wake_input_service_def Let_def)

lemma tty_input_ok:
  assumes t: "tty_ok t"
  shows "tty_ok (tty_input_char c t)" "tty_cells (tty_input_char c t) = tty_cells t"
proof -
  let ?t = "console_resume_live_view t"
  note r = resume_ok [OF t]
  have "tty_ok (wake_input_service (?t\<lparr>input_queue := f, input_head := (input_head ?t + 1) mod TTY_INPUT_QUEUE_SIZE\<rparr>))" for f
    using tty_ok_input [OF r(1) queue_next, of "input_tail ?t" "input_head ?t" f] r(1) by (simp add: tty_ok_def)
  moreover have "input_tail ?t < TTY_INPUT_QUEUE_SIZE" using r(1) by (simp add: tty_ok_def)
  ultimately show "tty_ok (tty_input_char c t)"
    using t r(1) tty_ok_input [OF r(1) _ queue_next, of "input_tail ?t"] by (simp add: tty_input_char_def Let_def)
  show "tty_cells (tty_input_char c t) = tty_cells t" using r(2) by (simp add: tty_input_char_def wake_input_service_def Let_def)
qed

lemma tty_take_ok: "tty_ok t \<Longrightarrow> tty_ok (snd (tty_take_input_char t))" "tty_cells (snd (tty_take_input_char t)) = tty_cells t"
  using queue_next [of "input_tail t"] by (simp_all add: tty_take_input_char_def tty_ok_def)

section \<open>Start-up\<close>

text \<open>A geometry whose consoles have room for the 80 by 25 cells of the text screen.\<close>

definition roomy :: "tty_geometry \<Rightarrow> bool" where
  "roomy g \<longleftrightarrow> geometry_ok g \<and> 25 \<le> history_rows g \<and> 2000 \<le> hist g"

definition sequences_ok :: "tty \<Rightarrow> bool" where
  "sequences_ok t \<longleftrightarrow> length (consoles t) = 3 \<and> (\<forall>i < 3. length (ansi_sequence (consoles t ! i)) = 32)"

lemma clear_fresh:
  assumes "geometry_ok g" and "length (ansi_sequence c) = 32" and "con_cells c = i * hist g"
  shows "console_ok g i (snd (console_clear g (m, c)))" "length (ansi_sequence (snd (console_clear g (m, c)))) = 32"
    "within (i * hist g) (hist g) m (fst (console_clear g (m, c)))"
proof -
  show "console_ok g i (snd (console_clear g (m, c)))" "length (ansi_sequence (snd (console_clear g (m, c)))) = 32"
    using assms geometry_nat [OF assms(1)]
    by (auto simp: console_ok_def console_clear_def console_ansi_reset_def console_typed_def cursor_ok_def)
  show "within (i * hist g) (hist g) m (fst (console_clear g (m, c)))"
    unfolding console_clear_def prod.case fst_conv assms(3) by (rule within_fold) simp
qed

lemma start_console:
  assumes "geometry_ok (geometry t)" and "sequences_ok t" and "i < 3"
  shows "\<exists>c m. start_console i t = t\<lparr>tty_cells := m, consoles := (consoles t)[i := c]\<rparr> \<and> console_ok (geometry t) i c \<and> length (ansi_sequence c) = 32 \<and>
    within 0 (3 * hist (geometry t)) (tty_cells t) m"
proof -
  let ?c = "(consoles t ! i)\<lparr>con_cells := i * hist (geometry t)\<rparr>"
  let ?mc = "console_clear (geometry t) (tty_cells t, ?c)"
  have c: "length (ansi_sequence ?c) = 32" "con_cells ?c = i * hist (geometry t)" using assms(2,3) by (simp_all add: sequences_ok_def)
  note f = clear_fresh [OF assms(1) c, of "tty_cells t"]
  have "console_ok (geometry t) i (snd ?mc)" "length (ansi_sequence (snd ?mc)) = 32" by (rule f)+
  moreover have "within 0 (3 * hist (geometry t)) (tty_cells t) (fst ?mc)"
  proof -
    note f(3)
    moreover have "i * hist (geometry t) + hist (geometry t) \<le> 3 * hist (geometry t)"
      using assms(3) by (metis Suc_leI add.commute mult_Suc mult_le_mono1)
    ultimately show ?thesis by - (rule within_mono, assumption, simp_all)
  qed
  ultimately show ?thesis by (cases ?mc) (auto simp: start_console_def Let_def)
qed

lemma all3: "(\<forall>i < 3. P i) \<longleftrightarrow> P 0 \<and> P 1 \<and> P (2 :: nat)"
  by (auto simp: numeral_3_eq_3 numeral_2_eq_2 less_Suc_eq)

lemma start_consoles:
  assumes "geometry_ok (geometry t)" and "sequences_ok t"
  shows "\<exists>m c0 c1 c2. fold start_console [0..<3] t = t\<lparr>tty_cells := m, consoles := [c0, c1, c2]\<rparr> \<and>
    console_ok (geometry t) 0 c0 \<and> console_ok (geometry t) 1 c1 \<and> console_ok (geometry t) 2 c2 \<and>
    within 0 (3 * hist (geometry t)) (tty_cells t) m"
proof -
  obtain a b d where abd: "consoles t = [a, b, d]" using assms(2) by (auto simp: sequences_ok_def length_Suc_conv numeral_3_eq_3)
  have seq: "length (ansi_sequence b) = 32" "length (ansi_sequence d) = 32"
    using assms(2) by (simp_all add: sequences_ok_def abd all3)
  obtain c0 m0 where 0: "start_console 0 t = t\<lparr>tty_cells := m0, consoles := [c0, b, d]\<rparr>" "console_ok (geometry t) 0 c0"
      "length (ansi_sequence c0) = 32" "within 0 (3 * hist (geometry t)) (tty_cells t) m0"
    using start_console [OF assms, of 0] by (auto simp: abd)
  let ?t0 = "t\<lparr>tty_cells := m0, consoles := [c0, b, d]\<rparr>"
  have "sequences_ok ?t0" using 0(3) seq by (simp add: sequences_ok_def all3)
  then obtain c1 m1 where 1: "start_console 1 ?t0 = ?t0\<lparr>tty_cells := m1, consoles := [c0, c1, d]\<rparr>" "console_ok (geometry t) 1 c1"
      "length (ansi_sequence c1) = 32" "within 0 (3 * hist (geometry t)) m0 m1"
    using start_console [of ?t0 1] assms(1) by auto
  let ?t1 = "?t0\<lparr>tty_cells := m1, consoles := [c0, c1, d]\<rparr>"
  have "sequences_ok ?t1" using 0(3) 1(3) seq by (simp add: sequences_ok_def all3)
  then obtain c2 m2 where 2: "start_console 2 ?t1 = ?t1\<lparr>tty_cells := m2, consoles := [c0, c1, c2]\<rparr>" "console_ok (geometry t) 2 c2"
      "within 0 (3 * hist (geometry t)) m1 m2"
    using start_console [of ?t1 2] assms(1) by auto
  have "[0..<3] = [0, 1, 2 :: nat]" by (simp add: upt_rec)
  then have "fold start_console [0..<3] t = t\<lparr>tty_cells := m2, consoles := [c0, c1, c2]\<rparr>" using 0(1) 1(1) 2(1) by simp
  moreover have "within 0 (3 * hist (geometry t)) (tty_cells t) m2" using 0(4) 1(4) 2(3) within_trans by blast
  ultimately show ?thesis using 0(2) 1(2) 2(2) by blast
qed

text \<open>The end of the start-up: the text on the screen becomes the contents of the first console.\<close>

definition adopt_screen :: "tty \<Rightarrow> tty" where
  "adopt_screen t = t\<lparr>tty_cells := fold (\<lambda>i m. m(con_cells (consoles t ! 0) + i := vga t i)) [0..<2000] (tty_cells t),
     consoles := (consoles t)[0 := (consoles t ! 0)\<lparr>con_cursor := ucast (hw_cursor t), line_count := VGA_HEIGHT, view_top := 0\<rparr>],
     active_console := 0, input_head := 0, input_tail := 0, tty_kern := (tty_kern t)\<lparr>foreground_pid := 0, tty_initialized := True\<rparr>\<rparr>"

lemma adopt_screen_fields:
  "initialized (adopt_screen t)" "geometry (adopt_screen t) = geometry t" "active_console (adopt_screen t) = 0"
  "consoles t = c # cs \<Longrightarrow> con_cells (consoles (adopt_screen t) ! 0) = con_cells c"
  "tty_cells (adopt_screen t) = fold (\<lambda>i m. m(con_cells (consoles t ! 0) + i := vga t i)) [0..<2000] (tty_cells t)"
  by (simp_all add: adopt_screen_def del: upt_rec_numeral)

lemma tty_init_split:
  "\<exists>p k. same_env (tty_kern t) k \<and>
     tty_init t = (let bytes = 3 * ucast (tty_history_cells (geometry t)) * 2 :: u64 in
       if bytes = 0 \<or> bytes > 0xFFFFFFFF then t else if p = 0 then t\<lparr>tty_kern := k\<rparr>
       else adopt_screen (fold start_console [0..<3] (t\<lparr>tty_kern := k\<rparr>))) \<and>
     (p, k) = alloc_pages_owned (unat ((3 * ucast (tty_history_cells (geometry t)) * 2 + 4096 - 1 :: u64) div 4096)) PAGE_OWNER_TTY (tty_kern t)"
proof -
  let ?n = "unat ((3 * ucast (tty_history_cells (geometry t)) * 2 + 4096 - 1 :: u64) div 4096)"
  obtain p k where pk: "alloc_pages_owned ?n PAGE_OWNER_TTY (tty_kern t) = (p, k)" by fastforce
  have v: "unat (VGA_WIDTH * VGA_HEIGHT) = 2000" by (simp add: VGA_WIDTH_def VGA_HEIGHT_def)
  have "same_env (tty_kern t) k" using env_alloc [of "tty_kern t" ?n PAGE_OWNER_TTY] pk by simp
  moreover have "tty_init t = (let bytes = 3 * ucast (tty_history_cells (geometry t)) * 2 :: u64 in
       if bytes = 0 \<or> bytes > 0xFFFFFFFF then t else if p = 0 then t\<lparr>tty_kern := k\<rparr>
       else adopt_screen (fold start_console [0..<3] (t\<lparr>tty_kern := k\<rparr>)))"
    unfolding tty_init_def Let_def TTY_CONSOLE_COUNT_def v adopt_screen_def using pk by simp
  ultimately show ?thesis using pk by (metis (no_types))
qed

lemma tty_init_cases:
  assumes "\<not> initialized t" and "initialized (tty_init t)"
  shows "\<exists>k. tty_init t = adopt_screen (fold start_console [0..<3] (t\<lparr>tty_kern := k\<rparr>))"
proof -
  obtain p :: u64 and k where k: "same_env (tty_kern t) k" and i: "tty_init t = (let bytes = 3 * ucast (tty_history_cells (geometry t)) * 2 :: u64 in
       if bytes = 0 \<or> bytes > 0xFFFFFFFF then t else if p = 0 then t\<lparr>tty_kern := k\<rparr>
       else adopt_screen (fold start_console [0..<3] (t\<lparr>tty_kern := k\<rparr>)))" using tty_init_split [of t] by blast
  have "\<not> tty_initialized k" using assms(1) k by (cases "tty_kern t"; cases k) (simp add: same_env_def)
  then show ?thesis using assms unfolding i Let_def by (auto split: if_splits)
qed

lemma tty_init_ok:
  assumes room: "roomy (geometry t)" and hw: "hw_cursor t < 2000" and seq: "sequences_ok t"
    and new: "\<not> initialized t" "initialized (tty_init t)"
  shows "tty_ok (tty_init t)" "within 0 (3 * hist (geometry t)) (tty_cells t) (tty_cells (tty_init t))"
proof -
  obtain k where i: "tty_init t = adopt_screen (fold start_console [0..<3] (t\<lparr>tty_kern := k\<rparr>))" using tty_init_cases [OF new] by blast
  have g: "geometry_ok (geometry t)" using room by (simp add: roomy_def)
  obtain m c0 c1 c2 where c: "fold start_console [0..<3] (t\<lparr>tty_kern := k\<rparr>) = t\<lparr>tty_kern := k, tty_cells := m, consoles := [c0, c1, c2]\<rparr>"
    "console_ok (geometry t) 0 c0" "console_ok (geometry t) 1 c1" "console_ok (geometry t) 2 c2" "within 0 (3 * hist (geometry t)) (tty_cells t) m"
    using start_consoles [of "t\<lparr>tty_kern := k\<rparr>"] g seq by (auto simp: sequences_ok_def)
  have "console_ok (geometry t) 0 (c0\<lparr>con_cursor := ucast (hw_cursor t), line_count := VGA_HEIGHT, view_top := 0\<rparr>)"
  proof -
    have "unat (hw_cursor t) < 2000" using hw by (simp add: word_less_nat_alt)
    then have "unat (ucast (hw_cursor t) :: u32) < hist (geometry t)" using room by (simp add: roomy_def unsigned_ucast_eq take_bit_eq_mod)
    then show ?thesis using c(2) room by (simp add: console_ok_def console_typed_def cursor_ok_def roomy_def VGA_HEIGHT_def word_le_nat_alt)
  qed
  then show "tty_ok (tty_init t)"
    using g c(3,4) unfolding i c(1) adopt_screen_def by (simp add: tty_ok_def all3 TTY_INPUT_QUEUE_SIZE_def)
  have "within 0 (3 * hist (geometry t)) m (fold (\<lambda>i m. m(0 + i := vga t i)) [0..<2000] m)"
    by (rule within_fold) (use room in \<open>simp add: roomy_def\<close>)
  then show "within 0 (3 * hist (geometry t)) (tty_cells t) (tty_cells (tty_init t))"
    using c(2) within_trans [OF c(5)] unfolding i c(1) adopt_screen_def by (simp add: console_ok_def)
qed

definition zero_console :: tty_console where
  "zero_console = \<lparr>con_cells = 0, con_cursor = 0, line_count = 0, view_top = 0, ansi_state = TTY_ANSI_NORMAL, ansi_length = 0,
     ansi_fg = 0, ansi_bg = 0, ansi_bold = 0, ansi_sequence = replicate 32 0\<rparr>"

definition demo_tty :: "tty_geometry \<Rightarrow> tty" where
  "demo_tty g = \<lparr>tty_kern = demo_kern, tty_cells = \<lambda>_. 0, consoles = replicate 3 zero_console, geometry = g, active_console = 0,
     input_queue = \<lambda>_. 0, input_head = 0, input_tail = 0, tty_input_service_task = 0, tty_output_service_task = 0,
     tty_input_reply_buffer = \<lambda>_. 0, tty_output_request_buffer = \<lambda>_. 0, vga = \<lambda>_. 0x0F41, hw_cursor = 0, fb = demo_fb\<rparr>"

lemma demo_alloc: "fst (alloc_pages_owned 3 PAGE_OWNER_TTY demo_kern) \<noteq> 0" "fst (alloc_pages_owned 1 PAGE_OWNER_TTY demo_kern) \<noteq> 0"
  by code_simp+

definition page_geometry :: tty_geometry where
  "page_geometry = \<lparr>columns = 80, visible_rows = 25, history_rows = 25, glyph_width = 8, glyph_height = 16, origin_x = 0, origin_y = 0\<rparr>"

definition tiny_geometry :: tty_geometry where
  "tiny_geometry = \<lparr>columns = 40, visible_rows = 15, history_rows = 15, glyph_width = 8, glyph_height = 16, origin_x = 0, origin_y = 0\<rparr>"

lemma demo_hist: "tty_history_cells page_geometry = 2000" "tty_history_cells tiny_geometry = 600"
  by (simp_all add: tty_history_cells_def page_geometry_def tiny_geometry_def)

lemma demo_init:
  assumes "g = page_geometry \<or> g = tiny_geometry"
  shows "\<exists>k. tty_init (demo_tty g) = adopt_screen (fold start_console [0..<3] ((demo_tty g)\<lparr>tty_kern := k\<rparr>))"
proof -
  let ?t = "demo_tty g"
  obtain p :: u64 and k where i: "tty_init ?t = (let bytes = 3 * ucast (tty_history_cells (geometry ?t)) * 2 :: u64 in
       if bytes = 0 \<or> bytes > 0xFFFFFFFF then ?t else if p = 0 then ?t\<lparr>tty_kern := k\<rparr>
       else adopt_screen (fold start_console [0..<3] (?t\<lparr>tty_kern := k\<rparr>)))"
    and p: "(p, k) = alloc_pages_owned (unat ((3 * ucast (tty_history_cells (geometry ?t)) * 2 + 4096 - 1 :: u64) div 4096)) PAGE_OWNER_TTY (tty_kern ?t)"
    using tty_init_split [of ?t] by blast
  have "p = fst (alloc_pages_owned (unat ((3 * ucast (tty_history_cells (geometry ?t)) * 2 + 4096 - 1 :: u64) div 4096)) PAGE_OWNER_TTY (tty_kern ?t))"
    using arg_cong [OF p, of fst] by simp
  then have "p \<noteq> 0" using assms demo_alloc by (auto simp: demo_tty_def demo_hist)
  then show ?thesis using assms unfolding i by (auto simp: demo_tty_def demo_hist)
qed

section \<open>A change of the geometry\<close>

lemma geometry_change:
  assumes seq: "sequences_ok t"
  shows "case tty_use_framebuffer_geometry go t of (r, t') \<Rightarrow>
    if r = 0 then \<exists>g. go = Some g \<and> geometry_ok g \<and> geometry t' = g \<and> tty_ok t' \<and>
      within 0 (max 2000 (3 * hist g)) (tty_cells t) (tty_cells t')
    else r = -1 \<and> (t' = t \<and> (\<forall>g. go = Some g \<longrightarrow> \<not> geometry_ok g) \<or> \<not> initialized t')"
proof (cases "\<exists>g. go = Some g \<and> geometry_ok g")
  case False
  then show ?thesis by (cases go) (auto simp: tty_use_framebuffer_geometry_def geometry_ok_def not_less not_le)
next
  case True
  then obtain g where go: "go = Some g" and g: "geometry_ok g" by blast
  define t0 where "t0 = t\<lparr>geometry := g, tty_kern := (tty_kern t)\<lparr>tty_initialized := False\<rparr>\<rparr>"
  have use: "tty_use_framebuffer_geometry go t =
      (let t2 = (if initialized (tty_init t0) then tty_clear_active (tty_init t0) else tty_init t0) in (if initialized t2 then 0 else -1, t2))"
    using g by (auto simp: tty_use_framebuffer_geometry_def go t0_def geometry_ok_def not_less not_le Let_def)
  show ?thesis
  proof (cases "initialized (tty_init t0)")
    case False
    then show ?thesis by (simp add: use)
  next
    case init: True
    have "\<not> initialized t0" "sequences_ok t0" "geometry_ok (geometry t0)" using seq g by (simp_all add: t0_def sequences_ok_def)
    with tty_init_cases [OF _ init] obtain k where k: "tty_init t0 = adopt_screen (fold start_console [0..<3] (t0\<lparr>tty_kern := k\<rparr>))" by blast
    obtain m c0 c1 c2 where c: "fold start_console [0..<3] (t0\<lparr>tty_kern := k\<rparr>) = t0\<lparr>tty_kern := k, tty_cells := m, consoles := [c0, c1, c2]\<rparr>"
      "console_ok g 0 c0" "console_ok g 1 c1" "console_ok g 2 c2" "within 0 (3 * hist g) (tty_cells t) m"
      using start_consoles [of "t0\<lparr>tty_kern := k\<rparr>"] \<open>sequences_ok t0\<close> g by (auto simp: t0_def sequences_ok_def)
    define m1 where "m1 = fold (\<lambda>i m. m(0 + i := vga t i)) [0..<2000] m"
    have w: "within 0 2000 m m1" unfolding m1_def by (rule within_fold) (simp del: upt_rec_numeral)
    let ?t1 = "tty_init t0"
    let ?c0 = "c0\<lparr>con_cursor := ucast (hw_cursor t), line_count := VGA_HEIGHT, view_top := 0\<rparr>"
    have t1: "geometry ?t1 = g" "consoles ?t1 = [?c0, c1, c2]" "active_console ?t1 = 0" "input_head ?t1 = 0" "input_tail ?t1 = 0"
      "tty_cells ?t1 = m1"
      using c(2) unfolding k c(1) adopt_screen_def by (simp_all add: t0_def console_ok_def m1_def del: upt_rec_numeral)
    have cc: "length (ansi_sequence ?c0) = 32" "con_cells ?c0 = 0 * hist g" using c(2) by (simp_all add: console_ok_def console_typed_def)
    note f = clear_fresh [OF g cc, of m1]
    let ?mc = "console_clear g (m1, ?c0)"
    have clr: "tty_clear_active ?t1 = flush_active_console (set_screen ?mc ?t1)"
      using init by (simp add: tty_clear_active_def t1)
    have "tty_ok (set_screen ?mc ?t1)"
      using g f(1) c(3,4) by (simp add: tty_ok_def set_screen_def set_active_def t1 all3 TTY_INPUT_QUEUE_SIZE_def)
    then have "tty_ok (tty_clear_active ?t1)" by (simp add: clr flush_ok)
    moreover have "within 0 (max 2000 (3 * hist g)) (tty_cells t) (tty_cells (tty_clear_active ?t1))"
    proof -
      have 1: "within 0 (max 2000 (3 * hist g)) m m1" by (rule within_mono [OF w]) simp_all
      have 2: "within 0 (max 2000 (3 * hist g)) m1 (fst ?mc)" by (rule within_mono [OF f(3)]) simp_all
      have 3: "within 0 (max 2000 (3 * hist g)) (tty_cells t) m" by (rule within_mono [OF c(5)]) simp_all
      have "tty_cells (tty_clear_active ?t1) = fst ?mc" unfolding clr by (simp add: set_screen_def set_active_def)
      then show ?thesis using within_trans [OF within_trans [OF 3 1] 2] by simp
    qed
    moreover have "initialized (tty_clear_active ?t1)" "geometry (tty_clear_active ?t1) = g"
      using init by (simp_all add: clr set_screen_def set_active_def t1)
    ultimately show ?thesis using init g unfolding use by (simp add: Let_def go)
  qed
qed

section \<open>The operations of the terminal\<close>

text \<open>Everything that changes the state of a running terminal, apart from a change of its geometry.\<close>

inductive tty_step :: "tty \<Rightarrow> tty \<Rightarrow> bool" where
  write_colored: "tty_write_colored bs color t = Some t' \<Longrightarrow> tty_step t t'"
| write_plain: "tty_write bs t = Some t' \<Longrightarrow> tty_step t t'"
| put_char_colored: "tty_put_char_colored ch color t = Some t' \<Longrightarrow> tty_step t t'"
| write_user: "tty_write_user bs t = Some t' \<Longrightarrow> tty_step t t'"
| clear: "tty_step t (tty_clear_active t)"
| scroll: "tty_step t (tty_scroll_active lines t)"
| switch: "tty_step t (tty_switch i t)"
| input_char: "tty_step t (tty_input_char ch t)"
| input_sequence: "tty_step t (tty_input_sequence chs t)"
| handle_input: "tty_handle_input_char ch t = Some t' \<Longrightarrow> tty_step t t'"
| read: "tty_read len buf t = (r, buf', t') \<Longrightarrow> tty_step t t'"
| serve_read: "serve_read len t = Some (n, t') \<Longrightarrow> tty_step t t'"
| serve_write: "serve_write msg t = Some t' \<Longrightarrow> tty_step t t'"
| service_init: "tty_service_init inp out t = Some t' \<Longrightarrow> tty_step t t'"
| service_write: "tty_service_write bs t = Some (r, t') \<Longrightarrow> tty_step t t'"
| event: "handle_event e t = Some t' \<Longrightarrow> tty_step t t'"

text \<open>What every step keeps: the state is well-formed and only cells of the active console changed.\<close>

definition tty_kept :: "tty \<Rightarrow> tty \<Rightarrow> bool" where
  "tty_kept t t' \<longleftrightarrow> tty_ok t' \<and> own_cells t t'"

lemma kept_same: "tty_ok t' \<Longrightarrow> tty_cells t' = tty_cells t \<Longrightarrow> tty_kept t t'"
  by (simp add: tty_kept_def own_cells_def)

lemma tty_ok_other [simp]:
  "tty_ok (t\<lparr>tty_kern := k\<rparr>) = tty_ok t" "tty_ok (t\<lparr>tty_input_reply_buffer := rb\<rparr>) = tty_ok t"
  "tty_ok (t\<lparr>tty_input_service_task := u\<rparr>) = tty_ok t"
  "tty_ok (t\<lparr>tty_output_service_task := u\<rparr>) = tty_ok t"
  by (simp_all add: tty_ok_def)

lemma own_cells_kern [simp]: "own_cells t (t'\<lparr>tty_kern := k\<rparr>) = own_cells t t'"
  by (simp add: own_cells_def)

lemma write_kept: "tty_ok t \<Longrightarrow> tty_write_colored bs color t = Some t' \<Longrightarrow> tty_kept t t'"
  "tty_ok t \<Longrightarrow> tty_write_user bs t = Some t' \<Longrightarrow> tty_kept t t'"
  using tty_write_ok(1) [of t bs color] tty_write_ok(2) [of t bs] by (auto simp: tty_kept_def)

lemma input_sequence_ok: "tty_ok t \<Longrightarrow> tty_ok (tty_input_sequence cs t) \<and> tty_cells (tty_input_sequence cs t) = tty_cells t"
  unfolding tty_input_sequence_def
proof (induction cs arbitrary: t)
  case (Cons c cs)
  then show ?case using tty_input_ok [OF Cons.prems, of c] by simp
qed simp

lemma handle_input_ok:
  assumes "tty_ok t" and "tty_handle_input_char c t = Some t'"
  shows "tty_ok t' \<and> tty_cells t' = tty_cells t"
proof -
  have k: "tty_ok (t\<lparr>tty_kern := k\<rparr>)" for k using assms(1) by simp
  have i: "tty_ok (tty_input_char c (t\<lparr>tty_kern := k\<rparr>)) \<and> tty_cells (tty_input_char c (t\<lparr>tty_kern := k\<rparr>)) = tty_cells t" for k
    using tty_input_ok [OF k, of c k] by simp
  show ?thesis using assms tty_input_ok [OF assms(1), of c] i by (auto simp: tty_handle_input_char_def Let_def split: if_splits Option.bind_splits)
qed

lemma take_available_ok:
  assumes "tty_ok t"
  shows "tty_ok (snd (snd (take_available n len buf t))) \<and> tty_cells (snd (snd (take_available n len buf t))) = tty_cells t"
  unfolding take_available_def
proof (rule for_loop_invariant)
  fix i and st :: "(nat \<Rightarrow> u8) \<times> nat \<times> tty"
  assume "tty_ok (snd (snd st)) \<and> tty_cells (snd (snd st)) = tty_cells t"
  then show "tty_ok (snd (snd (snd (take_round i st)))) \<and> tty_cells (snd (snd (snd (take_round i st)))) = tty_cells t"
    using tty_take_ok [of "snd (snd st)"] by (cases st) (auto simp: take_round_def split: prod.splits option.splits)
qed (use assms in simp)

lemma serve_ok:
  assumes "tty_ok t"
  shows "tty_read len buf t = (r, buf', t') \<Longrightarrow> tty_ok t' \<and> tty_cells t' = tty_cells t"
    and "serve_read v t = Some (n, t') \<Longrightarrow> tty_ok t' \<and> tty_cells t' = tty_cells t"
proof -
  show "tty_read len buf t = (r, buf', t') \<Longrightarrow> tty_ok t' \<and> tty_cells t' = tty_cells t"
    using assms take_available_ok [OF assms, of 0 "unat len" buf] by (auto simp: tty_read_def split: if_splits prod.splits)
  obtain o' t1 where t: "tty_take_input_char t = (o', t1)" by fastforce
  have t1: "tty_ok t1" "tty_cells t1 = tty_cells t" using tty_take_ok [of t] assms t by auto
  assume r: "serve_read v t = Some (n, t')"
  show "tty_ok t' \<and> tty_cells t' = tty_cells t"
  proof (cases o')
    case None
    then show ?thesis using r t t1 by (auto simp: serve_read_def Let_def split: Option.bind_splits)
  next
    case (Some c)
    define len where "len = (if v = 0 \<or> v > TTY_SERVICE_BUFFER_SIZE then 1 else v)"
    let ?a = "take_available 1 (unat len) ((tty_input_reply_buffer t1)(0 := c)) t1"
    have "t' = (snd (snd ?a))\<lparr>tty_input_reply_buffer := fst ?a\<rparr>"
      using r t Some by (auto simp: serve_read_def Let_def len_def split: prod.splits)
    then show ?thesis using take_available_ok [OF t1(1)] t1(2) by simp
  qed
qed

lemma tty_step_kept:
  assumes "tty_step t t'" and "tty_ok t"
  shows "tty_kept t t'"
  using assms
proof (induction rule: tty_step.induct)
  case (write_colored bs color t t')
  then show ?case by (blast intro: write_kept)
next
  case (write_plain bs t t')
  then show ?case unfolding tty_write_def by (blast intro: write_kept)
next
  case (put_char_colored ch color t t')
  then show ?case unfolding tty_put_char_colored_def by (blast intro: write_kept)
next
  case (write_user bs t t')
  then show ?case by (blast intro: write_kept)
next
  case (serve_write msg t t')
  note w = write_kept(1) [OF serve_write(2), of _ VGA_DEFAULT_COLOR, folded tty_write_def]
  have "tty_kept t t" using serve_write(2) by (simp add: kept_same)
  then show ?case using serve_write(1) w
    by (auto simp: serve_write_def tty_kept_def Let_def split: if_splits Option.bind_splits)
next
  case (service_init inp out t t')
  then show ?case by (auto simp: tty_service_init_def tty_kept_def own_cells_def split: if_splits Option.bind_splits)
next
  case (service_write bs t r t')
  then show ?case using write_kept(2) [of t bs] by (auto simp: tty_service_write_def kept_same split: if_splits Option.bind_splits)
next
  case (event e t t')
  then show ?case using tty_switch_ok [of t] tty_scroll_ok [of t] input_sequence_ok [of t] handle_input_ok [of t _ t']
    by (cases "ev_type e") (auto simp: handle_event_def intro!: kept_same split: if_splits)
next
  case (clear t)
  then show ?case by (simp add: tty_kept_def tty_clear_ok)
qed (auto simp: tty_scroll_ok tty_switch_ok tty_input_ok input_sequence_ok dest: handle_input_ok serve_ok intro!: kept_same)

section \<open>Properties\<close>

text \<open>
  C25: The terminal state is well-typed: the cursor of each of the three consoles is on one of its
  cells, its line count is between 1 and the number of lines, its view ends with the newest line at
  the latest, its colours and the length of its colour sequence are in range, and so are the
  active console and the indices of the input queue.  Every operation that writes, clears,
  scrolls, switches, reads or handles keys and requests keeps this and changes no cell but those
  of the active console, and writing returns for every text.  A change of the geometry that
  reports success leads to such a state for the new geometry, touching only the cells of the
  new consoles and the first 2000, where it copies the text screen; one that fails leaves the terminal
  as it was or switched off.  Start-up leads to such a state when the consoles have room for the
  80 by 25 cells of the text screen and the hardware cursor is on it, and then touches no other cell.
\<close>

theorem tty_typed:
  assumes "tty_ok t"
  shows "(\<forall>t'. tty_step t t' \<longrightarrow> tty_ok t' \<and> own_cells t t') \<and>
    (\<exists>t'. tty_write_colored bs color t = Some t') \<and> (\<exists>t'. tty_write_user bs t = Some t') \<and>
    (case tty_use_framebuffer_geometry go t of (r, t') \<Rightarrow>
       if r = 0 then \<exists>g. go = Some g \<and> geometry_ok g \<and> geometry t' = g \<and> tty_ok t' \<and>
         within 0 (max 2000 (3 * hist g)) (tty_cells t) (tty_cells t')
       else r = -1 \<and> (t' = t \<and> (\<forall>g. go = Some g \<longrightarrow> \<not> geometry_ok g) \<or> \<not> initialized t')) \<and>
    (\<forall>t0. roomy (geometry t0) \<longrightarrow> hw_cursor t0 < 2000 \<longrightarrow> sequences_ok t0 \<longrightarrow> \<not> initialized t0 \<longrightarrow> initialized (tty_init t0) \<longrightarrow>
      tty_ok (tty_init t0) \<and> within 0 (3 * hist (geometry t0)) (tty_cells t0) (tty_cells (tty_init t0)))"
proof -
  have "sequences_ok t" using assms by (simp add: tty_ok_def sequences_ok_def console_ok_def console_typed_def)
  note g = geometry_change [OF this, of go]
  have "\<forall>t'. tty_step t t' \<longrightarrow> tty_ok t' \<and> own_cells t t'" using tty_step_kept [OF _ assms] by (simp add: tty_kept_def)
  moreover have "\<exists>t'. tty_write_colored bs color t = Some t'" "\<exists>t'. tty_write_user bs t = Some t'" using tty_write_ok [OF assms] by blast+
  ultimately show ?thesis using g tty_init_ok by (intro conjI allI impI) simp_all
qed

theorem tty_typed_witness:
  "\<exists>t t'. t = tty_init (demo_tty page_geometry) \<and> tty_ok t \<and>
     tty_write_user [27, 91, 51, 49, 109, 72, 10] t = Some t' \<and> tty_ok t' \<and> own_cells t t'"
proof -
  let ?t = "demo_tty page_geometry" and ?bs = "[27, 91, 51, 49, 109, 72, 10]"
  have r: "roomy (geometry ?t)" by (simp add: roomy_def geometry_ok_def demo_tty_def demo_hist) (simp add: page_geometry_def)
  have h: "hw_cursor ?t < 2000" by (simp add: demo_tty_def)
  have s: "sequences_ok ?t" by (simp add: sequences_ok_def demo_tty_def zero_console_def)
  have n: "\<not> initialized ?t" by (simp add: demo_tty_def demo_kern_def start_kern_def heap.defs)
  have "initialized (tty_init ?t)" using demo_init [of page_geometry] by (auto simp: adopt_screen_fields)
  then have ok: "tty_ok (tty_init ?t)" by (rule tty_init_ok(1) [OF r h s n])
  note p = tty_typed [OF ok, where bs = ?bs]
  obtain t' where t': "tty_write_user ?bs (tty_init ?t) = Some t'" using p [THEN conjunct2, THEN conjunct2, THEN conjunct1] by blast
  show ?thesis using p [THEN conjunct1] tty_step.write_user [OF t'] t' ok by blast
qed

section \<open>A geometry that is too small\<close>

text \<open>
  The check of a new geometry accepts consoles of 40 by 15 cells.  Start-up then copies the 2000
  cells of the text screen into the first console, past the 1800 cells of all three consoles.
\<close>

lemma fold_store: "i < n \<Longrightarrow> fold (\<lambda>i m. m(a + i := v i)) [0..<n] m (a + i) = v i" for i :: nat
  by (induction n) (auto simp: less_Suc_eq)

lemma tty_geometry_overrun:
  "\<exists>t'. tty_use_framebuffer_geometry (Some tiny_geometry) (demo_tty page_geometry) = (0, t') \<and>
     3 * hist tiny_geometry \<le> 1900 \<and> tty_cells t' 1900 \<noteq> tty_cells (demo_tty page_geometry) 1900"
proof -
  have same: "(demo_tty page_geometry)\<lparr>geometry := tiny_geometry, tty_kern := (tty_kern (demo_tty page_geometry))\<lparr>tty_initialized := False\<rparr>\<rparr> =
      demo_tty tiny_geometry" by (simp add: demo_tty_def demo_kern_def start_kern_def heap.defs)
  obtain k where k: "tty_init (demo_tty tiny_geometry) = adopt_screen (fold start_console [0..<3] ((demo_tty tiny_geometry)\<lparr>tty_kern := k\<rparr>))"
    using demo_init [of tiny_geometry] by blast
  have g: "geometry_ok tiny_geometry" by (simp add: geometry_ok_def tiny_geometry_def)
  obtain m c0 c1 c2 where c: "fold start_console [0..<3] ((demo_tty tiny_geometry)\<lparr>tty_kern := k\<rparr>) =
      (demo_tty tiny_geometry)\<lparr>tty_kern := k, tty_cells := m, consoles := [c0, c1, c2]\<rparr>" "con_cells c0 = 0"
    using start_consoles [of "(demo_tty tiny_geometry)\<lparr>tty_kern := k\<rparr>"] g
    by (auto simp: demo_tty_def sequences_ok_def zero_console_def console_ok_def)
  let ?t1 = "tty_init (demo_tty tiny_geometry)"
  have t1: "initialized ?t1" "geometry ?t1 = tiny_geometry" "unat (active_console ?t1) = 0" "con_cells (consoles ?t1 ! 0) = 0" "tty_cells ?t1 1900 = 0x0F41"
    using c(2) fold_store [of 1900 2000 0 "vga (demo_tty tiny_geometry)" m] unfolding k c(1)
    by (simp_all add: adopt_screen_fields demo_tty_def del: upt_rec_numeral)
  let ?mc = "console_clear tiny_geometry (tty_cells ?t1, active ?t1)"
  have "within 0 600 (tty_cells ?t1) (fst ?mc)"
    unfolding console_clear_def prod.case fst_conv demo_hist t1(3) by (simp add: t1(4)) (rule within_fold [of _ _ 0, simplified], simp)
  then have "tty_cells (tty_clear_active ?t1) 1900 = 0x0F41"
    using t1 by (simp add: tty_clear_active_def set_screen_def set_active_def within_def)
  moreover have "initialized (tty_clear_active ?t1)" using t1(1) by (simp add: tty_clear_active_def set_screen_def set_active_def)
  moreover have "tty_use_framebuffer_geometry (Some tiny_geometry) (demo_tty page_geometry) = (0, tty_clear_active ?t1)"
    using t1(1) \<open>initialized (tty_clear_active ?t1)\<close> by (simp add: tty_use_framebuffer_geometry_def same Let_def) (simp add: tiny_geometry_def)
  ultimately show ?thesis by (simp add: demo_hist) (simp add: demo_tty_def)
qed

end
