(* ===== verification/User_Mutex.thy ===== *)
theory User_Mutex
  imports Os_Prelude
begin

text \<open>
  The mutex of user programs (usr/thread_runtime.h), built from atomic operations on a word and the
  futex system calls.  Every atomic access is a step of its own, and
  the steps of any number of threads interleave.  The kernel's side of a futex is the behaviour of
  its system calls: waiting returns at once unless the word has the expected value, and waking lets
  a waiting thread return.  The rule for a return of the wait has no condition, so that it covers
  both.  A thread calls \<^verbatim>\<open>user_mutex_unlock\<close> only after its \<^verbatim>\<open>user_mutex_lock\<close> has returned.
\<close>

section \<open>The atomic operations\<close>

record user_mutex =
  um_state :: u32
  um_owner :: u32

definition user_mutex_init :: user_mutex where
  "user_mutex_init = \<lparr>um_state = 0, um_owner = 0\<rparr>"

text \<open>\<^verbatim>\<open>__atomic_compare_exchange_n\<close>: success, the value left in \<^verbatim>\<open>expected\<close>, and the mutex.\<close>

definition compare_exchange :: "u32 \<Rightarrow> u32 \<Rightarrow> user_mutex \<Rightarrow> bool \<times> u32 \<times> user_mutex" where
  "compare_exchange expected desired m =
     (if um_state m = expected then (True, expected, m\<lparr>um_state := desired\<rparr>) else (False, um_state m, m))"

text \<open>
  Where a thread is: before the first exchange of \<^verbatim>\<open>user_mutex_lock\<close>, before the store of the owner,
  in the critical section, in the loop of a contended lock, in \<^verbatim>\<open>sys_futex_wait\<close>, and in
  \<^verbatim>\<open>user_mutex_unlock\<close> before the load of the state, the store of the owner and the exchange.
\<close>

datatype um_pc = UM_Outside | First_Try | Store_Owner | UM_Inside | Contending | UM_Waiting | Check_State | Clear_Owner | Release

definition lock_first :: "user_mutex \<Rightarrow> um_pc \<times> user_mutex" where
  "lock_first m =
     (case compare_exchange 0 1 m of (True, _, m1) \<Rightarrow> (Store_Owner, m1) | (False, _, m1) \<Rightarrow> (Contending, m1))"

text \<open>One round of the loop, up to the system call.\<close>

definition lock_round :: "user_mutex \<Rightarrow> um_pc \<times> user_mutex" where
  "lock_round m =
     (case compare_exchange 1 2 m of (_, expected, m1) \<Rightarrow> (if expected = 0 then Contending else UM_Waiting, m1))"

definition unlock_owner :: "u32 \<Rightarrow> user_mutex \<Rightarrow> um_pc" where
  "unlock_owner tid m = (if um_owner m \<noteq> tid then UM_Inside else Check_State)"

definition unlock_state :: "user_mutex \<Rightarrow> um_pc" where
  "unlock_state m = (if um_state m = 0 then UM_Inside else Clear_Owner)"

definition unlock_exchange :: "user_mutex \<Rightarrow> bool \<times> user_mutex" where
  "unlock_exchange m = (um_state m = 2, m\<lparr>um_state := 0\<rparr>)"

section \<open>Interleavings\<close>

record um_system =
  um_mutex :: user_mutex
  um_at :: "u32 \<Rightarrow> um_pc"

inductive um_step :: "um_system \<Rightarrow> um_system \<Rightarrow> bool" where
  call_lock: "um_at c t = UM_Outside \<Longrightarrow> um_step c (c\<lparr>um_at := (um_at c)(t := First_Try)\<rparr>)"
| first: "um_at c t = First_Try \<Longrightarrow> lock_first (um_mutex c) = (l, m) \<Longrightarrow> um_step c (c\<lparr>um_mutex := m, um_at := (um_at c)(t := l)\<rparr>)"
| own: "um_at c t = Store_Owner \<Longrightarrow>
    um_step c (c\<lparr>um_mutex := (um_mutex c)\<lparr>um_owner := t\<rparr>, um_at := (um_at c)(t := UM_Inside)\<rparr>)"
| round: "um_at c t = Contending \<Longrightarrow> lock_round (um_mutex c) = (l, m) \<Longrightarrow> um_step c (c\<lparr>um_mutex := m, um_at := (um_at c)(t := l)\<rparr>)"
| wait_returns: "um_at c t = UM_Waiting \<Longrightarrow> um_step c (c\<lparr>um_at := (um_at c)(t := Contending)\<rparr>)"
| check_owner: "um_at c t = UM_Inside \<Longrightarrow> um_step c (c\<lparr>um_at := (um_at c)(t := unlock_owner t (um_mutex c))\<rparr>)"
| check_state: "um_at c t = Check_State \<Longrightarrow> um_step c (c\<lparr>um_at := (um_at c)(t := unlock_state (um_mutex c))\<rparr>)"
| clear_owner: "um_at c t = Clear_Owner \<Longrightarrow>
    um_step c (c\<lparr>um_mutex := (um_mutex c)\<lparr>um_owner := 0\<rparr>, um_at := (um_at c)(t := Release)\<rparr>)"
| release: "um_at c t = Release \<Longrightarrow> unlock_exchange (um_mutex c) = (woke, m) \<Longrightarrow>
    um_step c (c\<lparr>um_mutex := m, um_at := (um_at c)(t := UM_Outside)\<rparr>)"

definition um_start :: um_system where
  "um_start = \<lparr>um_mutex = user_mutex_init, um_at = \<lambda>_. UM_Outside\<rparr>"

text \<open>The threads that hold the mutex.\<close>

definition holds_mutex :: "um_pc \<Rightarrow> bool" where
  "holds_mutex l \<longleftrightarrow> l \<in> {Store_Owner, UM_Inside, Check_State, Clear_Owner, Release}"

definition um_inv :: "um_system \<Rightarrow> bool" where
  "um_inv c \<longleftrightarrow>
     (\<forall>t u. holds_mutex (um_at c t) \<longrightarrow> holds_mutex (um_at c u) \<longrightarrow> t = u) \<and>
     (um_state (um_mutex c) = 0 \<longleftrightarrow> (\<forall>t. \<not> holds_mutex (um_at c t)))"

lemma um_inv_move:
  assumes "um_inv c" and "holds_mutex l = holds_mutex (um_at c t)" and "um_state m = 0 \<longleftrightarrow> um_state (um_mutex c) = 0"
  shows "um_inv (c\<lparr>um_mutex := m, um_at := (um_at c)(t := l)\<rparr>)"
  using assms unfolding um_inv_def by (simp add: fun_upd_def) (metis (full_types))

lemma um_inv_move_pc:
  assumes "um_inv c" and "holds_mutex l = holds_mutex (um_at c t)"
  shows "um_inv (c\<lparr>um_at := (um_at c)(t := l)\<rparr>)"
  using um_inv_move [OF assms, of "um_mutex c"] by simp

lemma um_step_inv:
  assumes "um_step c c'" and "um_inv c"
  shows "um_inv c'"
  using assms
proof (induction rule: um_step.induct)
  case (first c t l m)
  show ?case
  proof (cases "um_state (um_mutex c) = 0")
    case True
    then have l: "l = Store_Owner" "um_state m = 1" "\<And>u. \<not> holds_mutex (um_at c u)"
      using first by (auto simp: lock_first_def compare_exchange_def um_inv_def)
    have "holds_mutex (((um_at c)(t := l)) u) \<longleftrightarrow> u = t" for u using l(3) by (simp add: l(1)) (simp add: holds_mutex_def)
    then show ?thesis using l(2) unfolding um_inv_def by simp
  next
    case False
    then show ?thesis using first by (intro um_inv_move) (auto simp: lock_first_def compare_exchange_def holds_mutex_def)
  qed
next
  case (round c t l m)
  then show ?case
    by (intro um_inv_move) (auto simp: lock_round_def compare_exchange_def holds_mutex_def split: if_splits)
next
  case (release c t woke m)
  then have t: "holds_mutex (um_at c t)" and m: "um_state m = 0" by (auto simp: holds_mutex_def unlock_exchange_def)
  then have "\<not> holds_mutex (um_at c u)" if "u \<noteq> t" for u using release.prems that unfolding um_inv_def by blast
  moreover have "\<not> holds_mutex UM_Outside" by (simp add: holds_mutex_def)
  ultimately have "\<not> holds_mutex (((um_at c)(t := UM_Outside)) u)" for u by simp
  then show ?case using m by (simp add: um_inv_def)
next
  case (own c t)
  then show ?case by (intro um_inv_move) (auto simp: holds_mutex_def)
next
  case (clear_owner c t)
  then show ?case by (intro um_inv_move) (auto simp: holds_mutex_def)
qed (auto intro!: um_inv_move_pc simp: holds_mutex_def unlock_owner_def unlock_state_def)

text \<open>At most one thread holds the mutex.\<close>

lemma user_mutex_exclusive:
  assumes "um_step\<^sup>*\<^sup>* um_start c" and "um_at c t = UM_Inside" "um_at c u = UM_Inside"
  shows "t = u"
proof -
  have "um_inv um_start" by (simp add: um_inv_def um_start_def holds_mutex_def user_mutex_init_def)
  with assms(1) have "um_inv c" by (induction rule: rtranclp_induct) (auto intro: um_step_inv)
  then show ?thesis using assms(2,3) by (simp add: um_inv_def holds_mutex_def)
qed

section \<open>A contended lock never returns\<close>

text \<open>
  The loop of a contended \<^verbatim>\<open>user_mutex_lock\<close> exchanges only 1 for 2.  It never tries the transition from
  0 to 1 that the comment in it names as the only one that takes the mutex, so a thread that finds
  the mutex taken stays in the loop whatever the other threads do, also when the mutex is free.
\<close>

lemma contended_lock_never_returns:
  assumes "um_step\<^sup>*\<^sup>* c c'" and "um_at c t \<in> {Contending, UM_Waiting}"
  shows "um_at c' t \<in> {Contending, UM_Waiting}"
  using assms
proof (induction rule: rtranclp_induct)
  case (step c1 c2)
  have "um_at c1 t \<in> {Contending, UM_Waiting}" using step by simp
  with step.hyps(2) show ?case
    by (induction rule: um_step.induct) (auto simp: lock_round_def split: if_splits prod.splits)
qed simp

text \<open>Two threads are enough: the first one has left, the mutex is free, and the second one still loops.\<close>

lemma um_step_to: "um_step c c' \<Longrightarrow> c' = c'' \<Longrightarrow> um_step c c''"
  by simp

lemma free_mutex_not_taken:
  assumes "a \<noteq> b"
  shows "\<exists>c. um_step\<^sup>*\<^sup>* um_start c \<and> um_state (um_mutex c) = 0 \<and> um_at c b = Contending \<and>
    (\<forall>c'. um_step\<^sup>*\<^sup>* c c' \<longrightarrow> um_at c' b \<noteq> UM_Inside)"
proof -
  let ?sys = "\<lambda>x o' f. \<lparr>um_mutex = \<lparr>um_state = x, um_owner = o'\<rparr>, um_at = f\<rparr>"
  let ?z = "\<lambda>_. UM_Outside"
  let ?b = "?z(b := Contending)"
  note defs = lock_first_def compare_exchange_def unlock_owner_def unlock_state_def unlock_exchange_def
  have "um_step um_start (?sys 0 0 (?z(a := First_Try)))"
    by (rule um_step_to [OF call_lock [of _ a]]) (simp_all add: um_start_def user_mutex_init_def)
  moreover have "um_step (?sys 0 0 (?z(a := First_Try))) (?sys 1 0 (?z(a := Store_Owner)))"
    by (rule um_step_to [OF first [of _ a]]) (simp_all add: defs)
  moreover have "um_step (?sys 1 0 (?z(a := Store_Owner))) (?sys 1 a (?z(a := UM_Inside)))"
    by (rule um_step_to [OF own [of _ a]]) simp_all
  moreover have "um_step (?sys 1 a (?z(a := UM_Inside))) (?sys 1 a (?z(a := UM_Inside, b := First_Try)))"
    by (rule um_step_to [OF call_lock [of _ b]]) (use assms in simp_all)
  moreover have "um_step (?sys 1 a (?z(a := UM_Inside, b := First_Try))) (?sys 1 a (?b(a := UM_Inside)))"
    by (rule um_step_to [OF first [of _ b]]) (use assms in \<open>simp_all add: defs fun_upd_twist\<close>)
  moreover have "um_step (?sys 1 a (?b(a := UM_Inside))) (?sys 1 a (?b(a := Check_State)))"
    by (rule um_step_to [OF check_owner [of _ a]]) (simp_all add: defs)
  moreover have "um_step (?sys 1 a (?b(a := Check_State))) (?sys 1 a (?b(a := Clear_Owner)))"
    by (rule um_step_to [OF check_state [of _ a]]) (simp_all add: defs)
  moreover have "um_step (?sys 1 a (?b(a := Clear_Owner))) (?sys 1 0 (?b(a := Release)))"
    by (rule um_step_to [OF clear_owner [of _ a]]) simp_all
  moreover have "um_step (?sys 1 0 (?b(a := Release))) (?sys 0 0 (?b(a := UM_Outside)))"
    by (rule um_step_to [OF release [where t = a and woke = False]]) (simp_all add: defs)
  ultimately have r: "um_step\<^sup>*\<^sup>* um_start (?sys 0 0 (?b(a := UM_Outside)))"
    by (meson converse_rtranclp_into_rtranclp rtranclp.rtrancl_refl)
  have b: "um_at (?sys 0 0 (?b(a := UM_Outside))) b = Contending" using assms by simp
  have "um_at c' b \<noteq> UM_Inside" if "um_step\<^sup>*\<^sup>* (?sys 0 0 (?b(a := UM_Outside))) c'" for c'
    using contended_lock_never_returns [OF that, of b] b by force
  with r b show ?thesis by (intro exI [of _ "?sys 0 0 (?b(a := UM_Outside))"]) simp
qed

end
