(* ===== verification/Spec2Isabelle.thy ===== *)
theory Spec2Isabelle
  imports Pmm_Safety Paging_Safety Kalloc_Safety Fs_Safety Sched_Safety Pipe_Safety Mutex_Safety Ipc_Safety Timer_Safety Tty_Safety User_Mutex
begin

text \<open>
  A verification library for the orange_os kernel, a small x86-64 kernel in C.

  \<^bold>\<open>The program and its parts.\<close>  The physical memory manager hands out pages.  Address spaces and the
  kernel heap are built on it.  Threads and processes live on heap blocks and pages; the scheduler
  switches between the threads of a ring, and the timer, mutexes, messages, futexes and pipes block
  and wake them.  The file system is a service over a block cache and the ATA driver.  The
  keyboard interrupt feeds the terminals, which draw on the text screen or the frame buffer.

  \<^bold>\<open>Conventions.\<close>  C integers of fixed width are words, plain \<^verbatim>\<open>int\<close> results are \<^typ>\<open>int\<close>.  The state
  of a component is a record and the last argument of its operations.  Kernel objects form
  stores indexed by their address, with 0 for the null pointer, so that pointer lists are pointer
  lists in the model too.  The kernel runs on one CPU and a section under a spin lock runs with
  interrupts disabled, so such a section is one step.  An outer \<^const>\<open>None\<close> stands for a loop that does
  not end or an assertion that fails.  A function that blocks gives an inner \<^const>\<open>None\<close> with the state
  after the switch to another thread; what it does when it runs again is a definition of its own,
  with the suffix \<^verbatim>\<open>_resumed\<close> or the like.  Definitions have the names of the C functions, and
  constants have the names of their macros.

  \<^bold>\<open>Theories and sources\<close> (under src/kernel unless noted).
  \<^item> Os_Prelude, Links: word types, constants of memory.h, tables of cells, counting loops; linked
    lists of objects, with the interface \<^verbatim>\<open>link_list\<close> that the queues of the kernel instantiate.
  \<^item> Pmm, Pmm_Boot, Pmm_Safety: the page manager of memory.c with bitmaps, owners, reference counts,
    statistics and the construction from the E820 map.  Allocation is first fit, complete, and all
    or nothing, a shared page is freed by its last release, and after start-up the accounting
    stays consistent along every sequence of calls.
  \<^item> Page_Tree, Paging, Paging_Map, Paging_Unmap, Paging_Access, Paging_Safety: the address spaces of
    memory.c.  Page tables form a tree; mapping, unmapping and copy-on-write faults change exactly
    one mapping, failures change none and give back their pages; user ranges are checked and
    copied exactly.
  \<^item> Kalloc with Kalloc_Rep, Kalloc_Arenas, Kalloc_Ops, Kalloc_Alloc, Kalloc_Free, Kalloc_Calls and
    Kalloc_Safety: the heap of kalloc.c.  The block and arena headers represent sequences of cells;
    the calls return and implement the interface \<^verbatim>\<open>allocator\<close>.
  \<^item> Cstring: string.c and the string routines of src/usr/libc.c.
  \<^item> Disk, Disk_Safety, Disk_Frame: disk.c over a model of the ATA registers in which an arbitrary
    sequence of outcomes decides when the drive is busy or fails.
  \<^item> Fs_Disk, Fs_Tree, Fs_Path, Fs_Service, Fs_Requests: fs.c.  Fs_Bytes, Fs_View, Fs_Meta, Fs_Files,
    Fs_Names and Fs_Safety show that the cache is a store of blocks and makes it durable, that
    inodes and bitmaps are tables, that files are read as stored and paths have a canonical form.
  \<^item> Objects, Threads, Areas, Processes, Scheduler, Lifecycle: thread.c, process.c, timer.c and
    switch.S.  Mem_Frame, Sched_Ring, Thread_Lists, Sched_Reap, Sched_Switch and Sched_Safety show
    which thread runs next with which registers and address space, that a ready thread runs, and
    that new threads start at their entry.  Timer_Safety shows that sleepers wake on time.
  \<^item> Sync and Mutex_Safety (sync.c), Ipc and Ipc_Safety (ipc.c), Files and Pipe_Safety (file.c), Futex
    (futex.c): mutual exclusion over all interleavings, message queues as mailboxes, pipes as
    bounded queues.
  \<^item> Keyboard (keyboard.c), Framebuffer and Fb_Safety (qemu_fb.c), Tty and Tty_Safety (tty.c and the
    keyboard interrupt of idt.c): drawing only changed cells is drawing the whole screen, and the
    terminals keep their state in range.
  \<^item> User_Mutex (src/usr/thread_runtime.h): the futex-based mutex of user programs as interleaved
    atomic steps.

  \<^bold>\<open>Defects.\<close>  Some lemmas state where the code falls short of its intention: a contended
  \<^verbatim>\<open>user_mutex_lock\<close> never returns (\<^verbatim>\<open>free_mutex_not_taken\<close>), a mutex can lose a wake-up
  (\<^verbatim>\<open>mutex_lost_wakeup\<close>), a scheduler call can stop when it frees the last other thread
  (\<^verbatim>\<open>schedule_alone_stops\<close>), an old status makes a receive drop a message
  (\<^verbatim>\<open>stale_status_loses_message\<close>), a small geometry overruns the consoles (\<^verbatim>\<open>tty_geometry_overrun\<close>),
  and three in the file system (\<^verbatim>\<open>canonicalize_overlong\<close>, \<^verbatim>\<open>getcwd_overrun\<close>, \<^verbatim>\<open>mount_without_table\<close>).

  \<^bold>\<open>Bounds.\<close>  No operation has fuel that is not in the code.  Loops that count are bounded by their
  arrays, and the polls of the disk driver by its limit of a million.  Loops along pointers are
  \<^verbatim>\<open>partial_function\<close>s; the properties about them show that they return on well-formed lists.

  \<^bold>\<open>Not modelled.\<close>  Assembly other than the register switch, swaps of the GS base, port I/O other than
  the disk's, PCI and mode setting, font loading, diagnostic printing and self tests; the endless
  loops of the service threads, of which the work for one request is modelled; the system call
  dispatcher (syscall.c), the ELF loader (elf.c), the kernel shell and start-up code; the image
  builder (src/tools/mkfs.c) and the user programs.  Futex, Keyboard, Lifecycle, Processes and
  Areas are models whose own functional properties are stated only as far as other components
  rest on them.
\<close>

end
